(* ===== verification/Prelude.thy ===== *)
theory Prelude
  imports Complex_Main
begin

text \<open>
  Shared vocabulary of the development: the Python exceptions the modelled code raises or
  catches, results that may carry one, the string methods the code calls, and the generic
  list lemmas the components share.
\<close>


subsection \<open>Values and texts\<close>

text \<open>
  A Python \<open>float\<close>: a finite value, the two infinities, NaN. Its arithmetic is in the theory of
  numbers. A message built by an f-string is kept unrendered, as the list of its literal parts
  and interpolated values, each value with its format specification (so two messages are
  equal here exactly when they have the same parts).
\<close>

datatype pyfloat = Num rat | PosInf | NegInf | NaN

datatype fpart =
    Lit string
  | FFloat string pyfloat
  | FDec string rat
  | FInt int
  | FDate int
  | FTime int

type_synonym ftext = "fpart list"

text \<open>The truth value of a text: whether anything is printed.\<close>

fun part_shown :: "fpart \<Rightarrow> bool" where
  "part_shown (Lit s) = (s \<noteq> [])"
| "part_shown _ = True"

definition text_set :: "ftext \<Rightarrow> bool" where "text_set t = list_ex part_shown t"

definition shown_text :: "ftext option \<Rightarrow> ftext option" where
  "shown_text v = (case v of Some t \<Rightarrow> if text_set t then Some t else None | None \<Rightarrow> None)"

lemma shown_text_None [simp]: "shown_text None = None"
  by (simp add: shown_text_def)

text \<open>
  A \<open>datetime\<close>: microseconds since the epoch, with an offset (then in UTC) or without one. Times that
  the code only handles as aware ones are plain \<open>int\<close> microseconds; a \<open>date\<close> is its day number.
\<close>

datatype stamp = Aware int | Naive int

abbreviation msg :: "string \<Rightarrow> ftext" where "msg s \<equiv> [Lit s]"

subsection \<open>Exceptions and results\<close>

text \<open>
  A Python function that may raise returns a sum: \<open>Inl\<close> holds the exception, \<open>Inr\<close> the
  returned value. The exception classes are those the modelled modules distinguish in their
  \<open>except\<close> clauses, with the text the code gives them.
\<close>

datatype py_exc =
    ValueError ftext
  | TypeError ftext
  | KeyError string
  | ZeroDivisionError
  | OverflowError
  | DecimalInvalid
  | AssertionError
  | RuntimeError ftext
  | AttributeError ftext

type_synonym 'a result = "py_exc + 'a"

abbreviation Ok :: "'a \<Rightarrow> 'a result" where "Ok \<equiv> Inr"
abbreviation Raise :: "py_exc \<Rightarrow> 'a result" where "Raise \<equiv> Inl"

definition bindr :: "'e + 'a \<Rightarrow> ('a \<Rightarrow> 'e + 'b) \<Rightarrow> 'e + 'b" where
  "bindr m k = (case m of Inl e \<Rightarrow> Inl e | Inr x \<Rightarrow> k x)"

lemma bindr_simps [simp]:
  "bindr (Inl e) k = Inl e"
  "bindr (Inr x) k = k x"
  by (simp_all add: bindr_def)

lemma bindr_Inr_iff: "bindr m k = Inr y \<longleftrightarrow> (\<exists>x. m = Inr x \<and> k x = Inr y)"
  by (cases m) simp_all

lemma bindr_assoc: "bindr (bindr m k) l = bindr m (\<lambda>x. bindr (k x) l)"
  by (cases m) simp_all

text \<open>A statement \<open>if cond: raise e\<close> in front of the rest of a function body.\<close>

definition raise_if :: "bool \<Rightarrow> 'e \<Rightarrow> 'e + 'a \<Rightarrow> 'e + 'a" where
  "raise_if c e k = (if c then Inl e else k)"

lemma raise_if_simps [simp]:
  "raise_if True e k = Inl e"
  "raise_if False e k = k"
  by (simp_all add: raise_if_def)

lemma raise_if_Inr_iff [simp]: "raise_if c e k = Inr y \<longleftrightarrow> \<not> c \<and> k = Inr y"
  by (simp add: raise_if_def)

text \<open>\<open>try: x = m except ValueError as exc: return h\<close> in front of the rest \<open>k\<close> of a body.\<close>

definition catch_value :: "'a result \<Rightarrow> (ftext \<Rightarrow> 'b result) \<Rightarrow> ('a \<Rightarrow> 'b result) \<Rightarrow> 'b result" where
  "catch_value m h k = (case m of Inr x \<Rightarrow> k x | Inl (ValueError t) \<Rightarrow> h t | Inl e \<Rightarrow> Inl e)"

lemma catch_value_simps [simp]:
  "catch_value (Inr x) h k = k x"
  "catch_value (Inl (ValueError t)) h k = h t"
  by (simp_all add: catch_value_def)

lemma catch_value_Inr_iff:
  "catch_value m h k = Inr y \<longleftrightarrow> (\<exists>x. m = Inr x \<and> k x = Inr y) \<or> (\<exists>t. m = Inl (ValueError t) \<and> h t = Inr y)"
  by (auto simp: catch_value_def split: sum.splits py_exc.splits)

text \<open>\<open>a or b\<close>, \<open>a and b\<close>, \<open>any\<close> and a filtering comprehension whose conditions may raise.\<close>

definition orr :: "'e + bool \<Rightarrow> 'e + bool \<Rightarrow> 'e + bool" where
  "orr a b = bindr a (\<lambda>x. if x then Inr True else b)"

definition andr :: "'e + bool \<Rightarrow> 'e + bool \<Rightarrow> 'e + bool" where
  "andr a b = bindr a (\<lambda>x. if x then b else Inr False)"

fun anyr :: "('a \<Rightarrow> 'e + bool) \<Rightarrow> 'a list \<Rightarrow> 'e + bool" where
  "anyr p [] = Inr False"
| "anyr p (x # xs) = orr (p x) (anyr p xs)"

fun filterr :: "('a \<Rightarrow> 'e + bool) \<Rightarrow> 'a list \<Rightarrow> 'e + 'a list" where
  "filterr p [] = Inr []"
| "filterr p (x # xs) = bindr (p x) (\<lambda>b. bindr (filterr p xs) (\<lambda>ys. Inr (if b then x # ys else ys)))"

lemma orr_simps [simp]:
  "orr (Inl e) b = Inl e" "orr (Inr True) b = Inr True" "orr (Inr False) b = b"
  by (simp_all add: orr_def)

lemma andr_simps [simp]:
  "andr (Inl e) b = Inl e" "andr (Inr True) b = b" "andr (Inr False) b = Inr False"
  by (simp_all add: andr_def)

lemma orr_False_iff: "orr a b = Inr False \<longleftrightarrow> a = Inr False \<and> b = Inr False"
  by (auto simp: orr_def bindr_Inr_iff split: if_splits)

lemma anyr_False_iff: "anyr p xs = Inr False \<longleftrightarrow> (\<forall>x \<in> set xs. p x = Inr False)"
  by (induction xs) (auto simp: orr_False_iff)

lemma filterr_Inr: "filterr p xs = Inr ys \<Longrightarrow> ys = filter (\<lambda>x. p x = Inr True) xs"
  by (induction xs arbitrary: ys) (auto simp: bindr_Inr_iff split: if_splits)

text \<open>\<open>str(exc)\<close>.\<close>

fun exc_text :: "py_exc \<Rightarrow> ftext" where
  "exc_text (ValueError t) = t"
| "exc_text (TypeError t) = t"
| "exc_text (KeyError k) = [Lit (CHR 0x27 # k @ [CHR 0x27])]"
| "exc_text ZeroDivisionError = msg ''division by zero''"
| "exc_text OverflowError = msg ''int too large to convert to float''"
| "exc_text DecimalInvalid = msg ''[decimal.ConversionSyntax]''"
| "exc_text AssertionError = []"
| "exc_text (RuntimeError t) = t"
| "exc_text (AttributeError t) = t"

text \<open>\<open>type(exc).__name__\<close>.\<close>

fun exc_name :: "py_exc \<Rightarrow> string" where
  "exc_name (ValueError _) = ''ValueError''"
| "exc_name (TypeError _) = ''TypeError''"
| "exc_name (KeyError _) = ''KeyError''"
| "exc_name ZeroDivisionError = ''ZeroDivisionError''"
| "exc_name OverflowError = ''OverflowError''"
| "exc_name DecimalInvalid = ''InvalidOperation''"
| "exc_name AssertionError = ''AssertionError''"
| "exc_name (RuntimeError _) = ''RuntimeError''"
| "exc_name (AttributeError _) = ''AttributeError''"

text \<open>Running a fallible function over a list, stopping at the first exception.\<close>

fun mapr :: "('a \<Rightarrow> 'b result) \<Rightarrow> 'a list \<Rightarrow> 'b list result" where
  "mapr f [] = Inr []"
| "mapr f (x # xs) = bindr (f x) (\<lambda>y. bindr (mapr f xs) (\<lambda>ys. Inr (y # ys)))"

lemma mapr_Inr_length: "mapr f xs = Inr ys \<Longrightarrow> length ys = length xs"
  by (induction xs arbitrary: ys) (auto simp: bindr_Inr_iff)

lemma mapr_Inr_nth: "mapr f xs = Inr ys \<Longrightarrow> i < length xs \<Longrightarrow> f (xs ! i) = Inr (ys ! i)"
proof (induction xs arbitrary: ys i)
  case (Cons x xs)
  then show ?case by (cases i) (auto simp: bindr_Inr_iff)
qed simp

subsection \<open>Strings\<close>

text \<open>
  \<open>str.upper\<close>, \<open>str.lower\<close>, \<open>str.strip\<close> and \<open>str.lstrip\<close> on the ASCII range, the range of
  instrument symbols, sides, directions and statuses.
\<close>

definition upper_char :: "char \<Rightarrow> char" where
  "upper_char c = (let n = of_char c :: nat in
     if 97 \<le> n \<and> n \<le> 122 then char_of (n - 32) else c)"

definition lower_char :: "char \<Rightarrow> char" where
  "lower_char c = (let n = of_char c :: nat in
     if 65 \<le> n \<and> n \<le> 90 then char_of (n + 32) else c)"

definition upper :: "string \<Rightarrow> string" where
  "upper = map upper_char"

definition lower :: "string \<Rightarrow> string" where
  "lower = map lower_char"

definition is_space :: "char \<Rightarrow> bool" where
  "is_space c = (let n = of_char c :: nat in n = 32 \<or> 9 \<le> n \<and> n \<le> 13 \<or> 28 \<le> n \<and> n \<le> 31)"

definition lstrip_chars :: "(char \<Rightarrow> bool) \<Rightarrow> string \<Rightarrow> string" where
  "lstrip_chars p s = dropWhile p s"

definition strip :: "string \<Rightarrow> string" where
  "strip s = rev (dropWhile is_space (rev (dropWhile is_space s)))"

text \<open>\<open>sep.join(xs)\<close>.\<close>

fun join :: "string \<Rightarrow> string list \<Rightarrow> string" where
  "join sep [] = []"
| "join sep [x] = x"
| "join sep (x # y # xs) = x @ sep @ join sep (y # xs)"

text \<open>The same over unrendered messages.\<close>

fun join_ftext :: "string \<Rightarrow> ftext list \<Rightarrow> ftext" where
  "join_ftext sep [] = []"
| "join_ftext sep [x] = x"
| "join_ftext sep (x # y # xs) = x @ Lit sep # join_ftext sep (y # xs)"

text \<open>A text in single quotes.\<close>

definition quoted :: "string \<Rightarrow> string" where
  "quoted s = CHR 0x27 # s @ [CHR 0x27]"

lemma upper_char_idem [simp]: "upper_char (upper_char c) = upper_char c"
  by (auto simp: upper_char_def Let_def)

lemma upper_idem [simp]: "upper (upper s) = upper s"
  by (simp add: upper_def)

lemma length_upper [simp]: "length (upper s) = length s"
  by (simp add: upper_def)

lemmas str_eval = upper_def lower_def upper_char_def lower_char_def strip_def lstrip_chars_def
  is_space_def Let_def char_of_def bit_iff_odd

subsection \<open>Lists\<close>

text \<open>\<open>next((x for x in xs if p(x)), None)\<close> is the library's \<open>find\<close>.\<close>

lemma find_Some_props: "find p xs = Some x \<Longrightarrow> x \<in> set xs \<and> p x"
  by (induction xs) (auto split: if_splits)

text \<open>The first \<open>Some\<close> of a list of optional values, \<open>next((r for r in rs if r is not None), None)\<close>.\<close>

fun first_some :: "'a option list \<Rightarrow> 'a option" where
  "first_some [] = None"
| "first_some (None # xs) = first_some xs"
| "first_some (Some x # xs) = Some x"

text \<open>All of them, \<open>tuple(r for r in rs if r is not None)\<close>.\<close>

fun all_some :: "'a option list \<Rightarrow> 'a list" where
  "all_some [] = []"
| "all_some (None # xs) = all_some xs"
| "all_some (Some x # xs) = x # all_some xs"

lemma first_some_None_iff: "first_some xs = None \<longleftrightarrow> (\<forall>x \<in> set xs. x = None)"
  by (induction xs rule: first_some.induct) auto

lemma first_some_Some_in: "first_some xs = Some x \<Longrightarrow> Some x \<in> set xs"
  by (induction xs rule: first_some.induct) auto

lemma set_all_some: "set (all_some xs) = {x. Some x \<in> set xs}"
  by (induction xs rule: all_some.induct) auto

lemma all_some_Nil_iff: "all_some xs = [] \<longleftrightarrow> first_some xs = None"
  by (induction xs rule: all_some.induct) auto

lemma first_some_hd_all_some:
  "first_some xs = (case all_some xs of [] \<Rightarrow> None | x # _ \<Rightarrow> Some x)"
  by (induction xs rule: all_some.induct) auto

lemma first_some_subseq:
  assumes "all_some ys = []"
  shows "first_some (ys @ zs) = first_some zs"
  using assms by (induction ys rule: all_some.induct) auto

end
