(* ===== verification/Py_Number.thy ===== *)
theory Py_Number
  imports Prelude Complex_Main "HOL-Library.Log_Nat"
begin

text \<open>
  The two number systems the program computes with: Python's \<open>float\<close> (IEEE 754 binary64,
  round to nearest, ties to even) and \<open>decimal.Decimal\<close> in its default context (28
  significant digits, ties to even). Both are rationals rounded to a fixed number of digits
  in a radix, so the rounding is defined and analysed once, for any radix and precision.
\<close>

subsection \<open>Rounding a rational to an integer, ties to even\<close>

definition rhe :: "rat \<Rightarrow> int" where
  "rhe x = (let f = \<lfloor>x\<rfloor>; d = x - of_int f in
     if d < 1/2 then f else if d > 1/2 then f + 1 else if even f then f else f + 1)"

lemma rhe_of_int [simp]: "rhe (of_int n) = n"
  by (simp add: rhe_def)

lemma rhe_bounds: "\<lfloor>x\<rfloor> \<le> rhe x" "rhe x \<le> \<lfloor>x\<rfloor> + 1"
  by (auto simp: rhe_def Let_def)

lemma rhe_mono:
  assumes "x \<le> y"
  shows "rhe x \<le> rhe y"
proof (cases "\<lfloor>x\<rfloor> = \<lfloor>y\<rfloor>")
  case True
  with assms show ?thesis by (auto simp: rhe_def Let_def)
next
  case False
  with assms have "\<lfloor>x\<rfloor> + 1 \<le> \<lfloor>y\<rfloor>"
    using floor_mono [OF assms] by linarith
  with rhe_bounds [of x] rhe_bounds [of y] show ?thesis by linarith
qed

lemma rhe_near: "\<bar>of_int (rhe x) - x\<bar> \<le> 1/2"
  unfolding rhe_def Let_def using floor_correct [of x]
  by (simp only: abs_le_iff split: if_split) linarith

lemma rhe_minus: "rhe (- x) = - rhe x"
proof (cases "x = of_int \<lfloor>x\<rfloor>")
  case True
  then have "- x = of_int (- \<lfloor>x\<rfloor>)" by simp
  with True show ?thesis by (metis rhe_of_int)
next
  case False
  then have *: "\<lfloor>- x\<rfloor> = - \<lfloor>x\<rfloor> - 1"
    using floor_correct [of x] floor_correct [of "- x"] by linarith
  show ?thesis
    unfolding rhe_def Let_def * by auto
qed

subsection \<open>The exponent of a rational in a radix\<close>

text \<open>
  \<open>ilog b r\<close> is the integer \<open>e\<close> with \<open>b^e \<le> r < b^(e+1)\<close>, computed from the digit counts
  of numerator and denominator.
\<close>

definition ilog :: "nat \<Rightarrow> rat \<Rightarrow> int" where
  "ilog b r = (let (p, q) = quotient_of r;
       e = int (floorlog b (nat p)) - int (floorlog b (nat q))
     in if rat_of_nat b powi e \<le> r then e else e - 1)"

lemma floorlog_bounds_rat:
  assumes "b > 1" "x > 0"
  shows "rat_of_nat b powi (int (floorlog b x) - 1) \<le> rat_of_nat x"
    and "rat_of_nat x < rat_of_nat b powi int (floorlog b x)"
proof -
  have l: "floorlog b x > 0" using assms by (simp add: floorlog_def)
  have "b ^ (floorlog b x - 1) \<le> x" "x < b ^ floorlog b x"
    using floorlog_bounds [OF assms(2,1)] by auto
  then have "rat_of_nat (b ^ (floorlog b x - 1)) \<le> rat_of_nat x"
    "rat_of_nat x < rat_of_nat (b ^ floorlog b x)" by (simp_all only: of_nat_le_iff of_nat_less_iff)
  moreover have "int (floorlog b x) - 1 = int (floorlog b x - 1)" using l by simp
  ultimately show "rat_of_nat b powi (int (floorlog b x) - 1) \<le> rat_of_nat x"
    "rat_of_nat x < rat_of_nat b powi int (floorlog b x)"
    by (simp_all only: power_int_of_nat of_nat_power)
qed

lemma quotient_of_pos:
  assumes "r > 0" "quotient_of r = (p, q)"
  shows "p > 0" "q > 0" "r = rat_of_nat (nat p) / rat_of_nat (nat q)"
proof -
  have q: "q > 0" using quotient_of_denom_pos [OF assms(2)] .
  have r: "r = of_int p / of_int q" using quotient_of_div [OF assms(2)] .
  with assms(1) q have p: "p > 0" by (simp add: zero_less_divide_iff)
  show "p > 0" "q > 0" by fact+
  show "r = rat_of_nat (nat p) / rat_of_nat (nat q)"
    using p q r by (simp add: of_nat_nat)
qed

lemma ilog_bounds:
  assumes "b > 1" "r > 0"
  shows "rat_of_nat b powi ilog b r \<le> r" "r < rat_of_nat b powi (ilog b r + 1)"
proof -
  obtain p q where pq: "quotient_of r = (p, q)" by fastforce
  note pos = quotient_of_pos [OF assms(2) pq]
  define B where "B = rat_of_nat b"
  have B: "B > 1" using assms(1) by (simp add: B_def)
  define lp lq where "lp = int (floorlog b (nat p))" and "lq = int (floorlog b (nat q))"
  have np: "nat p > 0" "nat q > 0" using pos by simp_all
  note P = floorlog_bounds_rat [OF assms(1) np(1), folded B_def lp_def]
  note Q = floorlog_bounds_rat [OF assms(1) np(2), folded B_def lq_def]
  have qpos: "rat_of_nat (nat q) > 0" using np by simp
  have lo: "B powi (lp - lq - 1) \<le> r"
  proof -
    have "B powi (lp - lq - 1) * rat_of_nat (nat q) \<le> B powi (lp - lq - 1) * B powi lq"
      using Q(2) B by (intro mult_left_mono) simp_all
    also have "\<dots> = B powi (lp - 1)"
      using B by (simp flip: power_int_add)
    also have "\<dots> \<le> rat_of_nat (nat p)" by (rule P(1))
    finally show ?thesis using qpos pos(3) by (simp add: pos_le_divide_eq)
  qed
  have hi: "r < B powi (lp - lq + 1)"
  proof -
    have "rat_of_nat (nat p) < B powi lp" by (rule P(2))
    also have "\<dots> = B powi (lp - lq + 1) * B powi (lq - 1)"
      using B by (simp flip: power_int_add)
    also have "\<dots> \<le> B powi (lp - lq + 1) * rat_of_nat (nat q)"
      using Q(1) B by (intro mult_left_mono) simp_all
    finally show ?thesis using qpos pos(3) by (simp add: pos_divide_less_eq)
  qed
  have il: "ilog b r = (if B powi (lp - lq) \<le> r then lp - lq else lp - lq - 1)"
    by (simp add: ilog_def pq B_def lp_def lq_def)
  show "rat_of_nat b powi ilog b r \<le> r" "r < rat_of_nat b powi (ilog b r + 1)"
    using lo hi by (auto simp: il B_def [symmetric] split: if_splits)
qed

lemma powi_less_imp:
  assumes "b > 1" "rat_of_nat b powi x < rat_of_nat b powi y"
  shows "x < y"
proof (rule ccontr)
  assume "\<not> x < y"
  then have "rat_of_nat b powi y \<le> rat_of_nat b powi x"
    using assms(1) by (intro power_int_increasing) simp_all
  with assms(2) show False by simp
qed

lemma ilog_mono:
  assumes "b > 1" "0 < r" "r \<le> s"
  shows "ilog b r \<le> ilog b s"
proof (rule ccontr)
  assume "\<not> ?thesis"
  then have "ilog b s + 1 \<le> ilog b r" by simp
  then have "rat_of_nat b powi (ilog b s + 1) \<le> rat_of_nat b powi ilog b r"
    using assms(1) by (intro power_int_increasing) simp_all
  with ilog_bounds [of b s] ilog_bounds [of b r] assms show False by auto
qed

lemma ilog_unique:
  assumes "b > 1" "rat_of_nat b powi e \<le> r" "r < rat_of_nat b powi (e + 1)"
  shows "ilog b r = e"
proof -
  have "0 < rat_of_nat b powi e" using assms(1) by simp
  with assms(2) have r: "r > 0" by linarith
  have "rat_of_nat b powi e < rat_of_nat b powi (ilog b r + 1)"
    using ilog_bounds [OF assms(1) r] assms by linarith
  moreover have "rat_of_nat b powi ilog b r < rat_of_nat b powi (e + 1)"
    using ilog_bounds [OF assms(1) r] assms by linarith
  ultimately have "e < ilog b r + 1" "ilog b r < e + 1"
    using powi_less_imp [OF assms(1)] by blast+
  then show ?thesis by simp
qed

subsection \<open>Rounding to a number of significant digits\<close>

text \<open>
  \<open>qexp b p emin r\<close> is the exponent of the last kept digit of \<open>r\<close> at precision \<open>p\<close> in radix
  \<open>b\<close>, at least \<open>emin\<close> (gradual underflow); \<open>rsig\<close> rounds \<open>r\<close> to a multiple of that unit.
\<close>

definition qexp :: "nat \<Rightarrow> nat \<Rightarrow> int \<Rightarrow> rat \<Rightarrow> int" where
  "qexp b p emin r = max (ilog b \<bar>r\<bar> - (int p - 1)) emin"

definition rsig :: "nat \<Rightarrow> nat \<Rightarrow> int \<Rightarrow> rat \<Rightarrow> rat" where
  "rsig b p emin r =
     (if r = 0 then 0
      else let u = rat_of_nat b powi qexp b p emin r in of_int (rhe (r / u)) * u)"

lemma rsig_0 [simp]: "rsig b p emin 0 = 0"
  by (simp add: rsig_def)

lemma qexp_minus [simp]: "qexp b p emin (- r) = qexp b p emin r"
  by (simp add: qexp_def)

lemma rsig_minus: "rsig b p emin (- r) = - rsig b p emin r"
  by (simp add: rsig_def Let_def rhe_minus)

text \<open>A multiple of a unit at least as coarse as \<open>r\<close>'s own is not passed by rounding.\<close>

lemma powi_multiple:
  assumes "b > 1" "(i::int) \<le> j"
  shows "\<exists>n. rat_of_nat b powi j = of_int n * rat_of_nat b powi i"
proof (intro exI)
  have "rat_of_nat b powi j = rat_of_nat b powi int (nat (j - i)) * rat_of_nat b powi i"
    using assms by (simp flip: power_int_add)
  then show "rat_of_nat b powi j = of_int (int b ^ nat (j - i)) * rat_of_nat b powi i"
    by (simp only: power_int_of_nat of_int_power of_int_of_nat_eq)
qed

lemma rsig_le_multiple:
  assumes "b > 1" "qexp b p emin r \<le> k" "r \<le> of_int m * rat_of_nat b powi k"
  shows "rsig b p emin r \<le> of_int m * rat_of_nat b powi k"
proof (cases "r = 0")
  case False
  define u where "u = rat_of_nat b powi qexp b p emin r"
  have u: "u > 0" using assms(1) by (simp add: u_def)
  obtain n where n: "rat_of_nat b powi k = of_int n * u"
    using powi_multiple [OF assms(1,2)] unfolding u_def by blast
  have "r / u \<le> of_int (m * n)"
    using assms(3) u n by (simp add: pos_divide_le_eq mult.assoc)
  then have "rhe (r / u) \<le> m * n"
    using rhe_mono rhe_of_int by metis
  then have "of_int (rhe (r / u)) * u \<le> of_int (m * n) * u"
    using u by (intro mult_right_mono) (simp_all only: of_int_le_iff less_imp_le)
  with False n show ?thesis by (simp add: rsig_def u_def Let_def mult.assoc)
qed (use assms in simp)

lemma rsig_ge_multiple:
  assumes "b > 1" "qexp b p emin r \<le> k" "of_int m * rat_of_nat b powi k \<le> r"
  shows "of_int m * rat_of_nat b powi k \<le> rsig b p emin r"
proof -
  have "- r \<le> of_int (- m) * rat_of_nat b powi k" using assms(3) by simp
  then have "rsig b p emin (- r) \<le> of_int (- m) * rat_of_nat b powi k"
    using assms by (intro rsig_le_multiple) simp_all
  then show ?thesis by (simp add: rsig_minus)
qed

lemma rsig_mono_pos:
  assumes b: "b > 1" and p: "p > 0" and r: "0 < r" and rs: "r \<le> s"
  shows "rsig b p emin r \<le> rsig b p emin s"
proof -
  have s: "0 < s" using r rs by linarith
  have q: "qexp b p emin r \<le> qexp b p emin s"
    using r s ilog_mono [OF b r rs] by (auto simp: qexp_def)
  show ?thesis
  proof (cases "qexp b p emin r = qexp b p emin s")
    case True
    let ?u = "rat_of_nat b powi qexp b p emin s"
    have u: "?u > 0" using b by simp
    then have "r / ?u \<le> s / ?u" using rs by (simp add: divide_right_mono)
    then have "rhe (r / ?u) \<le> rhe (s / ?u)" by (rule rhe_mono)
    then have "of_int (rhe (r / ?u)) * ?u \<le> of_int (rhe (s / ?u)) * ?u"
      using u by (intro mult_right_mono) simp_all
    with True r s show ?thesis by (simp add: rsig_def Let_def)
  next
    case False
    with q have lt: "qexp b p emin r < qexp b p emin s" by simp
    then have ql: "qexp b p emin s = ilog b s - (int p - 1)" "ilog b r < ilog b s"
      using r s by (auto simp: qexp_def max_def split: if_splits)
    have "r < rat_of_nat b powi (ilog b r + 1)" using ilog_bounds [OF b r] by simp
    also have "\<dots> \<le> rat_of_nat b powi ilog b s"
      using ql b by (intro power_int_increasing) simp_all
    finally have r1: "r \<le> of_int 1 * rat_of_nat b powi ilog b s" by simp
    have s1: "of_int 1 * rat_of_nat b powi ilog b s \<le> s" using ilog_bounds [OF b s] by simp
    have "rsig b p emin r \<le> of_int 1 * rat_of_nat b powi ilog b s"
      using lt ql p by (intro rsig_le_multiple [OF b _ r1]) simp
    also have "\<dots> \<le> rsig b p emin s"
      using ql p by (intro rsig_ge_multiple [OF b _ s1]) simp
    finally show ?thesis .
  qed
qed

lemma rsig_nonneg:
  assumes "b > 1" "0 \<le> r"
  shows "0 \<le> rsig b p emin r"
  using rsig_ge_multiple [OF assms(1) order_refl, of 0] assms(2) by simp

lemma rsig_mono:
  assumes b: "b > 1" and p: "p > 0" and rs: "r \<le> s"
  shows "rsig b p emin r \<le> rsig b p emin s"
proof -
  consider "0 < r" | "r \<le> 0" "0 \<le> s" | "s < 0" using rs by linarith
  then show ?thesis
  proof cases
    case 1
    then show ?thesis using rsig_mono_pos [OF b p _ rs] by simp
  next
    case 2
    have "rsig b p emin r \<le> 0"
      using rsig_nonneg [OF b, of "- r"] 2 by (simp add: rsig_minus)
    also have "0 \<le> rsig b p emin s" using rsig_nonneg [OF b] 2 by simp
    finally show ?thesis .
  next
    case 3
    have "rsig b p emin (- s) \<le> rsig b p emin (- r)"
      using rsig_mono_pos [OF b p, of "- s" "- r"] 3 rs by simp
    then show ?thesis by (simp add: rsig_minus)
  qed
qed

text \<open>Rounding leaves a multiple of a coarse enough unit alone, in particular its own result.\<close>

lemma rsig_fix:
  assumes "b > 1" "q = of_int m * rat_of_nat b powi k" "qexp b p emin q \<le> k"
  shows "rsig b p emin q = q"
  using rsig_le_multiple [OF assms(1,3), of m] rsig_ge_multiple [OF assms(1,3), of m] assms(2)
  by simp

lemma qexp_leI:
  assumes "b > 1" "p > 0" "q \<noteq> 0" "\<bar>q\<bar> < rat_of_nat b powi K"
  shows "qexp b p emin q \<le> max (K - int p) emin"
proof -
  have "rat_of_nat b powi ilog b \<bar>q\<bar> < rat_of_nat b powi K"
    using ilog_bounds [OF assms(1), of "\<bar>q\<bar>"] assms by linarith
  then have "ilog b \<bar>q\<bar> < K" by (rule powi_less_imp [OF assms(1)])
  then show ?thesis by (auto simp: qexp_def)
qed

lemma rsig_idem:
  assumes b: "b > 1" and p: "p > 0"
  shows "rsig b p emin (rsig b p emin r) = rsig b p emin r"
proof (cases "r = 0 \<or> rsig b p emin r = 0")
  case False
  then have r: "r \<noteq> 0" and q0: "rsig b p emin r \<noteq> 0" by auto
  define q e where "q = rsig b p emin r" and "e = qexp b p emin r"
  obtain m where m: "q = of_int m * rat_of_nat b powi e"
    using r by (auto simp: q_def e_def rsig_def Let_def)
  define K where "K = max (ilog b \<bar>r\<bar> + 1) e"
  have "\<bar>r\<bar> < rat_of_nat b powi (ilog b \<bar>r\<bar> + 1)" using ilog_bounds [OF b] r by simp
  also have "\<dots> \<le> rat_of_nat b powi K"
    using b by (intro power_int_increasing) (simp_all add: K_def)
  finally have rK: "\<bar>r\<bar> \<le> rat_of_nat b powi K" by simp
  have eK: "e \<le> K" by (simp add: K_def)
  have "q \<le> of_int 1 * rat_of_nat b powi K"
    unfolding q_def using rK eK by (intro rsig_le_multiple [OF b]) (auto simp: e_def)
  moreover have "of_int (-1) * rat_of_nat b powi K \<le> q"
    unfolding q_def using rK eK by (intro rsig_ge_multiple [OF b]) (auto simp: e_def)
  ultimately have qK: "\<bar>q\<bar> \<le> rat_of_nat b powi K" by simp
  show ?thesis
  proof (cases "\<bar>q\<bar> = rat_of_nat b powi K")
    case True
    have "ilog b \<bar>q\<bar> = K" using True b by (intro ilog_unique) (simp_all add: power_int_add_1)
    moreover have "emin \<le> K" using eK by (auto simp: e_def qexp_def)
    ultimately have "qexp b p emin q \<le> K" using p by (auto simp: qexp_def)
    moreover have "q = of_int (if q < 0 then -1 else 1) * rat_of_nat b powi K"
      using True by (auto simp: abs_if split: if_splits)
    ultimately show ?thesis using rsig_fix [OF b] q_def by metis
  next
    case False
    with qK have "\<bar>q\<bar> < rat_of_nat b powi K" by simp
    with qexp_leI [OF b p] q0 q_def have "qexp b p emin q \<le> max (K - int p) emin" by blast
    also have "\<dots> \<le> e" using p by (auto simp: K_def e_def qexp_def)
    finally show ?thesis using rsig_fix [OF b m] q_def by simp
  qed
qed auto

text \<open>The rounding error is at most half a unit in the last place.\<close>

lemma rsig_error:
  assumes "b > 1"
  shows "\<bar>rsig b p emin r - r\<bar> \<le> rat_of_nat b powi qexp b p emin r / 2"
proof (cases "r = 0")
  case False
  define u where "u = rat_of_nat b powi qexp b p emin r"
  have u: "u > 0" using assms by (simp add: u_def)
  have "rsig b p emin r - r = (of_int (rhe (r / u)) - r / u) * u"
    using False u assms by (simp add: rsig_def u_def Let_def left_diff_distrib)
  then have "\<bar>rsig b p emin r - r\<bar> = \<bar>of_int (rhe (r / u)) - r / u\<bar> * u"
    using u by (simp add: abs_mult)
  also have "\<dots> \<le> 1/2 * u" using rhe_near u by (intro mult_right_mono) simp_all
  finally show ?thesis by (simp add: u_def)
qed (use assms in simp)

lemma rsig_int:
  assumes "b > 1" "p > 0" "\<bar>of_int n\<bar> < rat_of_nat b ^ p" "emin \<le> 0"
  shows "rsig b p emin (of_int n) = of_int n"
proof (cases "n = 0")
  case False
  have "qexp b p emin (of_int n) \<le> max (int p - int p) emin"
    using assms False by (intro qexp_leI) (simp_all add: power_int_of_nat)
  then show ?thesis using assms(4) by (intro rsig_fix [OF assms(1), of _ n 0]) simp_all
qed simp

subsection \<open>What a client of a rounding uses\<close>

text \<open>
  The arithmetic lemmas of the sizing and capacity code need four laws of a rounding only.
  Both number systems provide them.
\<close>

locale rounding =
  fixes rd :: "rat \<Rightarrow> rat"
  assumes rd_mono: "x \<le> y \<Longrightarrow> rd x \<le> rd y"
    and rd_idem: "rd (rd x) = rd x"
    and rd_minus: "rd (- x) = - rd x"
    and rd_one: "rd 1 = 1"
begin

lemma rd_zero: "rd 0 = 0"
  using rd_minus [of 0] by simp

lemma rd_nonneg: "0 \<le> x \<Longrightarrow> 0 \<le> rd x"
  using rd_mono [of 0 x] by (simp add: rd_zero)

lemma rd_le_fixed: "x \<le> y \<Longrightarrow> rd y = y \<Longrightarrow> rd x \<le> y"
  using rd_mono [of x y] by simp

lemma rd_ge_fixed: "y \<le> x \<Longrightarrow> rd y = y \<Longrightarrow> y \<le> rd x"
  using rd_mono [of y x] by simp

text \<open>Scaling a representable amount by a factor of at most one never increases it.\<close>

lemma rd_scale_le:
  assumes "0 \<le> x" "f \<le> 1" "rd x = x"
  shows "rd (x * f) \<le> x"
proof -
  have "x * f \<le> x * 1" using assms by (intro mult_left_mono) simp_all
  then show ?thesis using assms(3) by (intro rd_le_fixed) simp_all
qed

lemma rd_abs: "rd \<bar>x\<bar> = \<bar>rd x\<bar>"
proof (cases "0 \<le> x")
  case True
  then show ?thesis using rd_nonneg by simp
next
  case False
  then have "0 \<le> - rd x" using rd_nonneg [of "- x"] by (simp add: rd_minus)
  with False show ?thesis by (simp add: rd_minus abs_if)
qed

end

definition rd64 :: "rat \<Rightarrow> rat" where
  "rd64 = rsig 2 53 (-1074)"

definition rd28 :: "rat \<Rightarrow> rat" where
  "rd28 = rsig 10 28 (-1000026)"

lemma rsig_one: "b > 1 \<Longrightarrow> p > 0 \<Longrightarrow> emin \<le> 0 \<Longrightarrow> rsig b p emin 1 = 1"
  using rsig_int [of b p 1 emin] by simp

interpretation bin64: rounding rd64
  by unfold_locales (simp_all add: rd64_def rsig_mono rsig_idem rsig_minus rsig_one)

interpretation dec28: rounding rd28
  by unfold_locales (simp_all add: rd28_def rsig_mono rsig_idem rsig_minus rsig_one)

subsection \<open>Python floats\<close>

text \<open>
  A \<open>float\<close> is a rational or one of the three special values (type \<open>pyfloat\<close>). The two zeros are one value
  here: the code never divides by a zero (Python raises) and never reads a sign bit. \<open>Num\<close>
  of any rational is admitted as an input; every operation returns a representable one.
\<close>

definition max_exp :: rat where "max_exp = 2 ^ 1024"

definition b64 :: "rat \<Rightarrow> pyfloat" where
  "b64 r = (let q = rd64 r in
     if q \<ge> max_exp then PosInf else if q \<le> - max_exp then NegInf else Num q)"

definition representable :: "pyfloat \<Rightarrow> bool" where
  "representable x = (case x of Num r \<Rightarrow> b64 r = Num r | _ \<Rightarrow> True)"

fun isfinite :: "pyfloat \<Rightarrow> bool" where
  "isfinite (Num r) = True"
| "isfinite _ = False"

instantiation pyfloat :: "{zero, one, plus, minus, uminus, times, ord, abs}"
begin

definition zero_pyfloat :: pyfloat where "0 = Num 0"
definition one_pyfloat :: pyfloat where "1 = Num 1"

fun uminus_pyfloat :: "pyfloat \<Rightarrow> pyfloat" where
  "- (Num a) = Num (- a)"
| "- PosInf = NegInf"
| "- NegInf = PosInf"
| "- NaN = NaN"

fun abs_pyfloat :: "pyfloat \<Rightarrow> pyfloat" where
  "\<bar>Num a\<bar> = Num \<bar>a\<bar>"
| "\<bar>PosInf\<bar> = PosInf"
| "\<bar>NegInf\<bar> = PosInf"
| "\<bar>NaN\<bar> = NaN"

fun plus_pyfloat :: "pyfloat \<Rightarrow> pyfloat \<Rightarrow> pyfloat" where
  "Num a + Num b = b64 (a + b)"
| "NaN + _ = NaN"
| "_ + NaN = NaN"
| "PosInf + NegInf = NaN"
| "NegInf + PosInf = NaN"
| "PosInf + _ = PosInf"
| "_ + PosInf = PosInf"
| "NegInf + _ = NegInf"
| "_ + NegInf = NegInf"

definition minus_pyfloat :: "pyfloat \<Rightarrow> pyfloat \<Rightarrow> pyfloat" where
  "(a :: pyfloat) - b = a + (- b)"

definition sign_inf :: "rat \<Rightarrow> pyfloat" where
  "sign_inf a = (if a > 0 then PosInf else if a < 0 then NegInf else NaN)"

fun times_pyfloat :: "pyfloat \<Rightarrow> pyfloat \<Rightarrow> pyfloat" where
  "Num a * Num b = b64 (a * b)"
| "NaN * _ = NaN"
| "_ * NaN = NaN"
| "PosInf * Num b = sign_inf b"
| "NegInf * Num b = sign_inf (- b)"
| "Num a * PosInf = sign_inf a"
| "Num a * NegInf = sign_inf (- a)"
| "PosInf * PosInf = PosInf"
| "NegInf * NegInf = PosInf"
| "PosInf * NegInf = NegInf"
| "NegInf * PosInf = NegInf"

fun less_eq_pyfloat :: "pyfloat \<Rightarrow> pyfloat \<Rightarrow> bool" where
  "Num a \<le> Num b = (a \<le> b)"
| "NaN \<le> _ = False"
| "_ \<le> NaN = False"
| "NegInf \<le> _ = True"
| "_ \<le> PosInf = True"
| "PosInf \<le> _ = False"
| "_ \<le> NegInf = False"

fun less_pyfloat :: "pyfloat \<Rightarrow> pyfloat \<Rightarrow> bool" where
  "Num a < Num b = (a < b)"
| "NaN < _ = False"
| "_ < NaN = False"
| "_ < NegInf = False"
| "PosInf < _ = False"
| "NegInf < _ = True"
| "_ < PosInf = True"

instance ..

end

text \<open>Python's \<open>==\<close> on floats: as equality of values, except that NaN differs from itself.\<close>

definition feq :: "pyfloat \<Rightarrow> pyfloat \<Rightarrow> bool" where
  "feq a b = (a = b \<and> a \<noteq> NaN)"

text \<open>\<open>a / b\<close> raises on a zero divisor.\<close>

fun fdiv :: "pyfloat \<Rightarrow> pyfloat \<Rightarrow> pyfloat result" where
  "fdiv a (Num b) = (if b = 0 then Raise ZeroDivisionError
     else Ok (case a of Num x \<Rightarrow> b64 (x / b) | NaN \<Rightarrow> NaN
       | PosInf \<Rightarrow> sign_inf b | NegInf \<Rightarrow> sign_inf (- b)))"
| "fdiv a NaN = Ok NaN"
| "fdiv (Num x) _ = Ok (Num 0)"
| "fdiv _ _ = Ok NaN"

text \<open>The two-argument builtins: \<open>max(a, b)\<close> is \<open>b\<close> only if \<open>b > a\<close>, \<open>min\<close> only if \<open>b < a\<close>.\<close>

definition py_max :: "'a::ord \<Rightarrow> 'a \<Rightarrow> 'a" where "py_max a b = (if a < b then b else a)"
definition py_min :: "'a::ord \<Rightarrow> 'a \<Rightarrow> 'a" where "py_min a b = (if b < a then b else a)"

text \<open>\<open>round(x, n)\<close>: the exact binary value to \<open>n\<close> decimals, ties to even, then the nearest float.\<close>

definition py_round :: "nat \<Rightarrow> pyfloat \<Rightarrow> pyfloat" where
  "py_round n x = (case x of
     Num r \<Rightarrow> b64 (of_int (rhe (r * 10 ^ n)) / 10 ^ n) | _ \<Rightarrow> x)"

text \<open>\<open>float(n)\<close> of an integer (raising when it is out of range) and \<open>int(x)\<close>, truncating.\<close>

definition float_of_int :: "int \<Rightarrow> pyfloat result" where
  "float_of_int n = (case b64 (of_int n) of Num r \<Rightarrow> Ok (Num r) | _ \<Rightarrow> Raise OverflowError)"

definition trunc :: "rat \<Rightarrow> int" where
  "trunc r = (if r < 0 then - \<lfloor>- r\<rfloor> else \<lfloor>r\<rfloor>)"

definition int_of_float :: "pyfloat \<Rightarrow> int result" where
  "int_of_float x = (case x of Num r \<Rightarrow> Ok (trunc r)
     | NaN \<Rightarrow> Raise (ValueError (msg ''cannot convert float NaN to integer''))
     | _ \<Rightarrow> Raise OverflowError)"

text \<open>\<open>round(x)\<close> without digits: the nearest integer, ties to even.\<close>

definition round_int :: "pyfloat \<Rightarrow> int result" where
  "round_int x = (case x of Num r \<Rightarrow> Ok (rhe r)
     | NaN \<Rightarrow> Raise (ValueError (msg ''cannot convert float NaN to integer''))
     | _ \<Rightarrow> Raise OverflowError)"

text \<open>
  \<open>sum\<close> of floats: CPython adds with a running compensation (Neumaier), starting from the
  first element, and adds a finite nonzero compensation at the end.
\<close>

fun cs_loop :: "pyfloat \<Rightarrow> pyfloat \<Rightarrow> pyfloat list \<Rightarrow> pyfloat" where
  "cs_loop hi lo [] = (if lo \<noteq> 0 \<and> isfinite lo then hi + lo else hi)"
| "cs_loop hi lo (x # xs) = (let t = hi + x in
     cs_loop t (lo + (if \<bar>x\<bar> \<le> \<bar>hi\<bar> then (hi - t) + x else (x - t) + hi)) xs)"

definition py_sum :: "pyfloat list \<Rightarrow> pyfloat" where
  "py_sum xs = (case xs of [] \<Rightarrow> 0 | x # xs \<Rightarrow> cs_loop (0 + x) 0 xs)"

subsection \<open>Laws of the float operations\<close>

lemma fle_trans: "(a :: pyfloat) \<le> b \<Longrightarrow> b \<le> c \<Longrightarrow> a \<le> c"
  by (cases a; cases b; cases c) auto

lemma fle_refl [simp]: "(a :: pyfloat) \<le> a \<longleftrightarrow> a \<noteq> NaN"
  by (cases a) auto

lemma fless_imp_le: "(a :: pyfloat) < b \<Longrightarrow> a \<le> b"
  by (cases a; cases b) auto

lemma fnot_less: "a \<noteq> NaN \<Longrightarrow> b \<noteq> NaN \<Longrightarrow> \<not> (a :: pyfloat) < b \<longleftrightarrow> b \<le> a"
  by (cases a; cases b) auto

lemma fnot_le: "a \<noteq> NaN \<Longrightarrow> b \<noteq> NaN \<Longrightarrow> \<not> (a :: pyfloat) \<le> b \<longleftrightarrow> b < a"
  by (cases a; cases b) auto

lemma fle_not_NaN: "(a :: pyfloat) \<le> b \<Longrightarrow> a \<noteq> NaN \<and> b \<noteq> NaN"
  by (cases a; cases b) auto

lemma isfinite_iff: "isfinite x \<longleftrightarrow> (\<exists>r. x = Num r)"
  by (cases x) auto

lemma isfinite_not_NaN: "isfinite x \<Longrightarrow> x \<noteq> NaN"
  by (cases x) auto

lemma Num_zero_le [simp]: "(0 :: pyfloat) \<le> Num r \<longleftrightarrow> 0 \<le> r"
  by (simp add: zero_pyfloat_def)

lemma Num_zero_less [simp]: "(0 :: pyfloat) < Num r \<longleftrightarrow> 0 < r"
  by (simp add: zero_pyfloat_def)

lemma Num_le_zero [simp]: "Num r \<le> 0 \<longleftrightarrow> r \<le> 0"
  by (simp add: zero_pyfloat_def)

lemma zero_special [simp]:
  "(0 :: pyfloat) < PosInf" "(0 :: pyfloat) \<le> PosInf" "\<not> (0 :: pyfloat) < NegInf"
  "\<not> (0 :: pyfloat) \<le> NegInf" "\<not> (0 :: pyfloat) < NaN" "\<not> (0 :: pyfloat) \<le> NaN"
  "NaN \<noteq> 0" "0 \<noteq> NaN" "NaN \<noteq> 1" "1 \<noteq> NaN" "isfinite 0" "isfinite 1"
  by (simp_all add: zero_pyfloat_def one_pyfloat_def)

lemma b64_not_NaN [simp]: "b64 r \<noteq> NaN"
  by (simp add: b64_def Let_def)

lemma b64_mono: "x \<le> y \<Longrightarrow> b64 x \<le> b64 y"
  using bin64.rd_mono [of x y] by (auto simp: b64_def Let_def max_exp_def)

lemma b64_Num_eq: "b64 r = Num q \<Longrightarrow> q = rd64 r"
  by (auto simp: b64_def Let_def split: if_splits)

lemma b64_idem: "b64 r = Num q \<Longrightarrow> b64 q = Num q"
  by (auto simp: b64_def Let_def bin64.rd_idem split: if_splits)

lemma representable_b64 [simp]: "representable (b64 r)"
  using b64_idem by (cases "b64 r") (auto simp: representable_def)

lemma b64_zero [simp]: "b64 0 = 0"
  by (simp add: b64_def bin64.rd_zero max_exp_def zero_pyfloat_def)

lemma b64_minus: "b64 (- r) = - b64 r"
  by (auto simp: b64_def Let_def bin64.rd_minus max_exp_def)

lemma b64_int:
  assumes "\<bar>n\<bar> < 2 ^ 53"
  shows "b64 (of_int n) = Num (of_int n)"
proof -
  have n: "\<bar>rat_of_int n\<bar> < 2 ^ 53" using assms
    by (metis of_int_abs of_int_less_numeral_power_cancel_iff)
  have "rd64 (of_int n) = of_int n"
    unfolding rd64_def using n by (intro rsig_int) simp_all
  moreover have "(2::rat) ^ 53 < 2 ^ 1024" by simp
  ultimately show ?thesis using n by (auto simp: b64_def Let_def max_exp_def)
qed

lemma b64_special_bounds [simp]: "NegInf \<le> b64 r" "b64 r \<le> PosInf"
  by (simp_all add: b64_def Let_def)

lemma b64_nonneg [simp]: "0 \<le> r \<Longrightarrow> 0 \<le> b64 r"
  using b64_mono [of 0 r] by simp

lemma fmul_le_left:
  assumes "representable (Num x)" "0 \<le> x" "f \<le> 1"
  shows "Num x * Num f \<le> Num x"
proof -
  have "x * f \<le> x * 1" using assms by (intro mult_left_mono) simp_all
  then have "b64 (x * f) \<le> b64 x" using b64_mono by simp
  with assms(1) show ?thesis by (simp add: representable_def)
qed

lemma representable_plus [simp]: "representable (a + b)"
  by (cases a; cases b) (simp_all add: representable_def [of PosInf] representable_def [of NegInf]
      representable_def [of NaN])

lemma representable_times [simp]: "representable (a * b)"
  by (cases a; cases b) (auto simp: representable_def [of PosInf] representable_def [of NegInf]
      representable_def [of NaN] sign_inf_def)

lemma py_max_ge:
  assumes "a \<noteq> NaN" "b \<noteq> NaN"
  shows "(a :: pyfloat) \<le> py_max a b" "b \<le> py_max a b"
  using assms fless_imp_le fnot_less by (auto simp: py_max_def)

lemma py_min_le:
  assumes "a \<noteq> NaN" "b \<noteq> NaN"
  shows "py_min a b \<le> (a :: pyfloat)" "py_min a b \<le> b"
  using assms fless_imp_le fnot_less by (auto simp: py_min_def)

text \<open>Representable finite floats are multiples of the least subnormal, so the difference of two
  distinct ones never rounds to zero.\<close>

lemma rd64_multiple: "\<exists>n. rd64 r = of_int n * 2 powi (-1074)"
proof (cases "r = 0")
  case True
  then show ?thesis by (intro exI [of _ 0]) (simp add: bin64.rd_zero)
next
  case False
  define e where "e = qexp 2 53 (-1074) r"
  have "-1074 \<le> e" by (simp add: e_def qexp_def)
  then obtain k where k: "rat_of_nat 2 powi e = of_int k * rat_of_nat 2 powi (-1074)"
    using powi_multiple [of 2 "-1074" e] by auto
  have "rd64 r = of_int (rhe (r / rat_of_nat 2 powi e)) * rat_of_nat 2 powi e"
    using False by (simp add: rd64_def rsig_def e_def Let_def)
  also have "\<dots> = of_int (rhe (r / rat_of_nat 2 powi e) * k) * 2 powi (-1074)"
    using k by simp
  finally show ?thesis by blast
qed

lemma representable_multiple:
  assumes "representable (Num x)"
  obtains n where "x = of_int n * 2 powi (-1074)"
  using rd64_multiple [of x] b64_Num_eq [of x x] assms by (auto simp: representable_def)

lemma representable_diff_pos:
  assumes "representable (Num x)" "representable (Num y)" "y < x"
  shows "0 < Num x - Num y"
proof -
  define u :: rat where "u = 2 powi (-1074)"
  have u: "u > 0" by (simp add: u_def)
  obtain m where m: "x = of_int m * u" using representable_multiple [OF assms(1)] u_def by metis
  obtain n where n: "y = of_int n * u" using representable_multiple [OF assms(2)] u_def by metis
  have "n < m" using assms(3) m n u by simp
  then have "of_int 1 * u \<le> of_int (m - n) * u"
    using u by (intro mult_right_mono) (simp_all only: of_int_le_iff less_imp_le)
  then have d: "u \<le> x - y" by (simp add: m n left_diff_distrib)
  have fix_u: "rd64 u = u"
  proof -
    have "ilog 2 u = -1074" by (rule ilog_unique) (simp_all add: u_def power_int_add_1)
    then have "qexp 2 53 (-1074) u \<le> -1074" using u by (simp add: qexp_def)
    then show ?thesis unfolding rd64_def by (intro rsig_fix [of 2 u 1 "-1074"]) (simp_all add: u_def)
  qed
  have "0 < rd64 (x - y)"
    using bin64.rd_ge_fixed [OF d fix_u] u by linarith
  then show ?thesis by (auto simp: minus_pyfloat_def b64_def Let_def max_exp_def)
qed

lemma fsub_mono: "a \<le> b \<Longrightarrow> Num a - Num c \<le> Num b - Num c"
  by (simp add: minus_pyfloat_def b64_mono)

lemma fsub_anti: "a \<le> b \<Longrightarrow> c - Num b \<le> c - Num a" if "c \<noteq> NaN"
  using that by (cases c) (simp_all add: minus_pyfloat_def b64_mono)

lemma fsub_nonneg: "b \<le> a \<Longrightarrow> 0 \<le> Num a - Num b"
  by (simp add: minus_pyfloat_def)

lemma one_minus_mono:
  assumes "x \<le> y"
  shows "(1 :: pyfloat) - y \<le> 1 - x"
  using assms by (cases x; cases y) (auto simp: minus_pyfloat_def one_pyfloat_def b64_mono)

lemma one_minus_le_one:
  assumes "0 \<le> x"
  shows "(1 :: pyfloat) - x \<le> 1"
  using one_minus_mono [OF assms] b64_int [of 1]
  by (simp add: minus_pyfloat_def one_pyfloat_def zero_pyfloat_def)

lemma fdiv_mono:
  assumes "a \<le> b" "0 < c" "isfinite a" "isfinite b" "fdiv a c = Ok x" "fdiv b c = Ok y"
  shows "x \<le> y"
  using assms by (cases a; cases b; cases c)
    (auto simp: zero_pyfloat_def b64_mono divide_right_mono split: if_splits)

lemma fdiv_nonneg:
  assumes "0 \<le> a" "0 < c" "isfinite a" "fdiv a c = Ok x"
  shows "0 \<le> x"
  using assms by (cases a; cases c) (auto simp: zero_pyfloat_def [symmetric] split: if_splits)

lemma fdiv_total: "feq c 0 = False \<Longrightarrow> \<exists>q. fdiv a c = Ok q"
  by (cases c; cases a) (auto simp: feq_def zero_pyfloat_def)

lemma py_max_mono:
  "(a :: pyfloat) \<noteq> NaN \<Longrightarrow> b \<le> c \<Longrightarrow> py_max a b \<le> py_max a c"
  by (cases a; cases b; cases c) (auto simp: py_max_def)

lemma py_max_le_iff:
  "a \<noteq> NaN \<Longrightarrow> b \<noteq> NaN \<Longrightarrow> py_max a b \<le> (c :: pyfloat) \<longleftrightarrow> a \<le> c \<and> b \<le> c"
  by (cases a; cases b; cases c) (auto simp: py_max_def)

lemma fmul_unit_le:
  assumes "representable x" "0 \<le> x" "isfinite x" "0 \<le> f" "f \<le> 1"
  shows "x * f \<le> x" "0 \<le> x * f" "isfinite (x * f)"
proof -
  obtain r g where [simp]: "x = Num r" "f = Num g"
    using assms by (cases x; cases f) (auto simp: one_pyfloat_def zero_pyfloat_def)
  show "x * f \<le> x" using assms by (simp add: fmul_le_left one_pyfloat_def del: times_pyfloat.simps)
  show "0 \<le> x * f" using assms by simp
  show "isfinite (x * f)"
    using \<open>x * f \<le> x\<close> \<open>0 \<le> x * f\<close> by (cases "x * f") auto
qed

text \<open>Nonnegative amounts, possibly infinite: closed under the operations the rules use.\<close>

definition is_amount :: "pyfloat \<Rightarrow> bool" where
  "is_amount x = (0 \<le> x)"

lemma amount_not_NaN: "is_amount x \<Longrightarrow> x \<noteq> NaN"
  by (auto simp: is_amount_def)

lemma amount_zero [simp]: "is_amount 0"
  by (simp add: is_amount_def)

lemma amount_plus: "is_amount x \<Longrightarrow> is_amount y \<Longrightarrow> is_amount (x + y)"
  by (cases x; cases y) (auto simp: is_amount_def)

lemma amount_times_pos: "is_amount x \<Longrightarrow> isfinite y \<Longrightarrow> 0 < y \<Longrightarrow> is_amount (x * y)"
  by (cases x; cases y) (auto simp: is_amount_def sign_inf_def)

lemma amount_times_fin: "is_amount x \<Longrightarrow> isfinite x \<Longrightarrow> is_amount y \<Longrightarrow> isfinite y \<Longrightarrow> is_amount (x * y)"
  by (cases x; cases y) (auto simp: is_amount_def)

lemma amount_max_zero: "x \<noteq> NaN \<Longrightarrow> is_amount (py_max x 0)"
  by (cases x) (auto simp: is_amount_def py_max_def zero_pyfloat_def)

lemma plus_finite_not_NaN: "x \<noteq> NaN \<Longrightarrow> isfinite y \<Longrightarrow> x + y \<noteq> NaN"
  by (cases x; cases y) auto

lemma amount_cs_loop:
  assumes "is_amount hi" "\<forall>x \<in> set xs. is_amount x"
  shows "cs_loop hi lo xs \<noteq> NaN"
  using assms
proof (induction xs arbitrary: hi lo)
  case Nil
  then show ?case using amount_not_NaN plus_finite_not_NaN by auto
next
  case (Cons x xs)
  then show ?case using amount_plus [of hi x] by (simp add: Let_def)
qed

lemma py_sum_not_NaN:
  assumes "\<forall>x \<in> set xs. is_amount x"
  shows "py_sum xs \<noteq> NaN"
  using assms amount_cs_loop amount_plus by (cases xs) (simp_all add: py_sum_def)

lemma fsub_finite_not_NaN: "isfinite x \<Longrightarrow> isfinite y \<Longrightarrow> x - y \<noteq> NaN"
  by (cases x; cases y) (auto simp: minus_pyfloat_def)

lemma ftimes_sign_not_NaN: "x \<noteq> NaN \<Longrightarrow> c \<noteq> 0 \<Longrightarrow> x * Num c \<noteq> NaN"
  by (cases x) (auto simp: sign_inf_def)

text \<open>
  Evaluation on closed terms: small integers, and small integers over a power of two, are
  their own rounding. These rules evaluate the arithmetic of the concrete instances.
\<close>

lemma b64_dyadic:
  assumes "\<bar>n\<bar> < 2 ^ 53" "k \<le> 1000"
  shows "b64 (of_int n / 2 ^ k) = Num (of_int n / 2 ^ k)"
proof (cases "n = 0")
  case False
  have n: "\<bar>rat_of_int n\<bar> < 2 ^ 53" using assms(1)
    by (metis of_int_abs of_int_less_numeral_power_cancel_iff)
  define q :: rat where "q = of_int n / 2 ^ k"
  have q: "q = of_int n * rat_of_nat 2 powi (- int k)"
    by (simp add: q_def power_int_minus divide_inverse power_int_of_nat)
  have "\<bar>q\<bar> = \<bar>rat_of_int n\<bar> * 2 powi (- int k)"
    by (simp add: q_def power_int_minus divide_inverse power_int_of_nat abs_mult)
  also have "\<dots> < 2 ^ 53 * 2 powi (- int k)"
    using n by (intro mult_strict_right_mono) simp_all
  also have "\<dots> = 2 powi (53 - int k)"
    by (simp add: power_int_diff power_int_minus divide_inverse power_int_of_nat)
  finally have lt: "\<bar>q\<bar> < rat_of_nat 2 powi (53 - int k)" by simp
  have "qexp 2 53 (-1074) q \<le> max (53 - int k - int 53) (-1074)"
    using False by (intro qexp_leI) (use lt in \<open>simp_all add: q_def\<close>)
  then have "rd64 q = q"
    unfolding rd64_def using assms(2) by (intro rsig_fix [OF _ q]) simp_all
  moreover have "\<bar>q\<bar> < 2 ^ 1024"
  proof -
    have "rat_of_nat 2 powi (53 - int k) \<le> rat_of_nat 2 powi int 1024"
      by (intro power_int_increasing) simp_all
    with lt show ?thesis by (simp only: power_int_of_nat) simp
  qed
  ultimately show ?thesis by (auto simp: b64_def Let_def max_exp_def q_def [symmetric])
qed (simp add: zero_pyfloat_def)

lemma b64_numeral [simp]:
  "numeral m < (2 ^ 53 :: int) \<Longrightarrow> b64 (numeral m) = Num (numeral m)"
  using b64_int [of "numeral m"] by simp

lemma b64_neg_numeral [simp]:
  "numeral m < (2 ^ 53 :: int) \<Longrightarrow> b64 (- numeral m) = Num (- numeral m)"
  by (simp add: b64_minus)

lemma b64_one [simp]: "b64 1 = Num 1"
  using b64_int [of 1] by simp

lemma b64_numeral_dyadic [simp]:
  "numeral m < (2 ^ 53 :: int) \<Longrightarrow> b64 (numeral m / 2) = Num (numeral m / 2)"
  "b64 (1 / 2) = Num (1 / 2)"
  "numeral m < (2 ^ 53 :: int) \<Longrightarrow> b64 (numeral m / 4) = Num (numeral m / 4)"
  "b64 (1 / 4) = Num (1 / 4)"
  "numeral m < (2 ^ 53 :: int) \<Longrightarrow> b64 (numeral m / 8) = Num (numeral m / 8)"
  "b64 (1 / 8) = Num (1 / 8)"
  "numeral m < (2 ^ 53 :: int) \<Longrightarrow> b64 (numeral m / 16) = Num (numeral m / 16)"
  "b64 (1 / 16) = Num (1 / 16)"
  "numeral m < (2 ^ 53 :: int) \<Longrightarrow> b64 (numeral m / 32) = Num (numeral m / 32)"
  "b64 (1 / 32) = Num (1 / 32)"
  "numeral m < (2 ^ 53 :: int) \<Longrightarrow> b64 (numeral m / 64) = Num (numeral m / 64)"
  "b64 (1 / 64) = Num (1 / 64)"
  "numeral m < (2 ^ 53 :: int) \<Longrightarrow> b64 (numeral m / 128) = Num (numeral m / 128)"
  "b64 (1 / 128) = Num (1 / 128)"
  "numeral m < (2 ^ 53 :: int) \<Longrightarrow> b64 (numeral m / 256) = Num (numeral m / 256)"
  "b64 (1 / 256) = Num (1 / 256)"
  "numeral m < (2 ^ 53 :: int) \<Longrightarrow> b64 (numeral m / 512) = Num (numeral m / 512)"
  "b64 (1 / 512) = Num (1 / 512)"
  "numeral m < (2 ^ 53 :: int) \<Longrightarrow> b64 (numeral m / 1024) = Num (numeral m / 1024)"
  "b64 (1 / 1024) = Num (1 / 1024)"
  using b64_dyadic [of "numeral m" 1] b64_dyadic [of 1 1]
    b64_dyadic [of "numeral m" 2] b64_dyadic [of 1 2]
    b64_dyadic [of "numeral m" 3] b64_dyadic [of 1 3]
    b64_dyadic [of "numeral m" 4] b64_dyadic [of 1 4]
    b64_dyadic [of "numeral m" 5] b64_dyadic [of 1 5]
    b64_dyadic [of "numeral m" 6] b64_dyadic [of 1 6]
    b64_dyadic [of "numeral m" 7] b64_dyadic [of 1 7]
    b64_dyadic [of "numeral m" 8] b64_dyadic [of 1 8]
    b64_dyadic [of "numeral m" 9] b64_dyadic [of 1 9]
    b64_dyadic [of "numeral m" 10] b64_dyadic [of 1 10]
  by simp_all

subsection \<open>Decimals\<close>

text \<open>
  A finite \<open>Decimal\<close> is a rational. Construction from text and comparison are exact; every
  arithmetic operation rounds to 28 digits. Exponents beyond a million digits are out of scope.
\<close>

type_synonym dec = rat

definition dadd :: "dec \<Rightarrow> dec \<Rightarrow> dec" where "dadd a b = rd28 (a + b)"
definition dsub :: "dec \<Rightarrow> dec \<Rightarrow> dec" where "dsub a b = rd28 (a - b)"
definition dmul :: "dec \<Rightarrow> dec \<Rightarrow> dec" where "dmul a b = rd28 (a * b)"
definition dabs :: "dec \<Rightarrow> dec" where "dabs a = rd28 \<bar>a\<bar>"

definition ddiv :: "dec \<Rightarrow> dec \<Rightarrow> dec result" where
  "ddiv a b = (if b = 0 then Raise ZeroDivisionError else Ok (rd28 (a / b)))"

definition dsum :: "dec list \<Rightarrow> dec \<Rightarrow> dec" where
  "dsum xs start = foldl dadd start xs"

definition float_of_dec :: "dec \<Rightarrow> pyfloat" where
  "float_of_dec d = b64 d"

text \<open>
  \<open>str(x)\<close> of a float is the shortest decimal text that reads back as \<open>x\<close> (the closest such
  text when several are as short); \<open>repr_dec\<close> is the decimal it denotes.
\<close>

definition repr_pick :: "nat \<Rightarrow> rat \<Rightarrow> rat option" where
  "repr_pick n x = (let u = 10 powi (ilog 10 \<bar>x\<bar> - (int n - 1)); f = \<lfloor>x / u\<rfloor>;
       lo = of_int f * u; hi = of_int (f + 1) * u;
       okl = (b64 lo = Num x); okh = (b64 hi = Num x) in
     if okl \<and> okh then Some (if x - lo < hi - x \<or> (x - lo = hi - x \<and> even f) then lo else hi)
     else if okl then Some lo else if okh then Some hi else None)"

definition repr_dec :: "rat \<Rightarrow> rat" where
  "repr_dec x = (if x = 0 then 0
     else case first_some (map (\<lambda>n. repr_pick n x) [1..<18]) of Some d \<Rightarrow> d | None \<Rightarrow> x)"

lemma repr_pick_roundtrip: "repr_pick n x = Some d \<Longrightarrow> b64 d = Num x"
  by (auto simp: repr_pick_def Let_def split: if_splits)

text \<open>Reading the text back gives the float: \<open>float(str(x)) = x\<close>.\<close>

lemma repr_dec_roundtrip:
  assumes "representable (Num x)"
  shows "b64 (repr_dec x) = Num x"
proof (cases "x = 0")
  case True
  then show ?thesis by (simp add: repr_dec_def zero_pyfloat_def)
next
  case False
  show ?thesis
  proof (cases "first_some (map (\<lambda>n. repr_pick n x) [1..<18])")
    case None
    with False assms show ?thesis by (simp add: repr_dec_def representable_def)
  next
    case (Some d)
    then have "Some d \<in> set (map (\<lambda>n. repr_pick n x) [1..<18])" by (rule first_some_Some_in)
    then obtain n where "repr_pick n x = Some d" by auto
    with Some False show ?thesis using repr_pick_roundtrip by (simp add: repr_dec_def)
  qed
qed

lemma dsum_Nil [simp]: "dsum [] s = s" by (simp add: dsum_def)

lemma dsum_Cons [simp]: "dsum (x # xs) s = dsum xs (dadd s x)" by (simp add: dsum_def)

text \<open>Amounts of at most 28 digits are exact.\<close>

lemma rd28_decimal:
  assumes "\<bar>of_int n\<bar> < (10 :: rat) ^ 28" and "k \<le> 1000"
  shows "rd28 (of_int n / 10 ^ k) = of_int n / 10 ^ k"
proof (cases "n = 0")
  case False
  have eq: "of_int n / 10 ^ k = of_int n * (10 :: rat) powi (- int k)"
    by (simp add: power_int_minus divide_inverse)
  have "\<bar>of_int n / 10 ^ k\<bar> < (10 :: rat) ^ 28 / 10 ^ k"
    using assms(1) by (simp add: abs_divide divide_strict_right_mono)
  also have "\<dots> = of_nat 10 powi (28 - int k)" by (simp add: power_int_diff)
  finally have "qexp 10 28 (-1000026) (of_int n / 10 ^ k) \<le> max (28 - int k - int 28) (-1000026)"
    using False by (intro qexp_leI) simp_all
  then show ?thesis using assms(2) unfolding rd28_def
    by (intro rsig_fix [of _ _ n "- int k"]) (simp_all add: eq)
qed (simp add: dec28.rd_zero)

lemma rd28_eval [simp]:
  "rd28 0 = 0" "rd28 1 = 1"
  "numeral m < (10 ^ 28 :: int) \<Longrightarrow> rd28 (numeral m) = numeral m"
  "rd28 (1 / 10) = 1 / 10" "rd28 (1 / 100) = 1 / 100"
  "numeral m < (10 ^ 28 :: int) \<Longrightarrow> rd28 (numeral m / 10) = numeral m / 10"
  "numeral m < (10 ^ 28 :: int) \<Longrightarrow> rd28 (numeral m / 100) = numeral m / 100"
  using rd28_decimal [of "numeral m" 0] rd28_decimal [of 1 1] rd28_decimal [of 1 2]
    rd28_decimal [of "numeral m" 1] rd28_decimal [of "numeral m" 2]
  by (simp_all add: dec28.rd_zero dec28.rd_one flip: of_int_less_iff)

lemma rd28_uminus [simp]: "rd28 (- x) = - rd28 x" by (rule dec28.rd_minus)

text \<open>The text of a whole number of at most fifteen digits denotes the number itself.\<close>

lemma repr_pick_exact:
  assumes n: "1 \<le> n" "n \<le> 10 ^ 15" and k: "1 \<le> k" "int k \<le> ilog 10 (of_int n) + 1"
  shows "repr_pick k (of_int n) = Some d \<Longrightarrow> d = of_int n"
    and "int k = ilog 10 (of_int n) + 1 \<Longrightarrow> repr_pick k (of_int n) = Some (of_int n)"
proof -
  let ?e = "ilog 10 (rat_of_int n)"
  define U where "U = (10 :: int) ^ nat (?e - (int k - 1))"
  define f where "f = \<lfloor>rat_of_int n / of_int U\<rfloor>"
  have u: "(10 :: rat) powi (?e - (int k - 1)) = of_int U"
    using k by (simp add: U_def power_int_def)
  have "rat_of_nat 10 powi ?e \<le> of_int n" using ilog_bounds(1) [of 10 "of_int n"] n by simp
  moreover have "(10 :: rat) powi (?e - (int k - 1)) \<le> 10 powi ?e"
    using k by (intro power_int_increasing) simp_all
  ultimately have "rat_of_int U \<le> of_int n" unfolding u by simp
  then have U: "0 < U" "U \<le> n" by (simp_all add: U_def)
  have "of_int f \<le> rat_of_int n / of_int U" "rat_of_int n / of_int U < of_int f + 1"
    unfolding f_def by linarith+
  then have "of_int (f * U) \<le> rat_of_int n" "rat_of_int n < of_int ((f + 1) * U)"
    using U by (simp_all add: field_simps)
  then have fU: "f * U \<le> n" "n < (f + 1) * U" by (simp_all only: of_int_le_iff of_int_less_iff)
  have "0 \<le> f" unfolding f_def using n U by simp
  then have "0 \<le> f * U" using U by simp
  have "(f + 1) * U \<le> 2 * 10 ^ 15" using fU(1) U n by (simp add: distrib_right)
  then have small: "\<bar>f * U\<bar> < 2 ^ 53" "\<bar>(f + 1) * U\<bar> < 2 ^ 53" using \<open>0 \<le> f * U\<close> fU n U by simp_all
  note lo = b64_int [OF small(1)] and hi = b64_int [OF small(2)]
  have hi_ne: "b64 (of_int ((f + 1) * U)) \<noteq> Num (of_int n)" unfolding hi using fU(2)
    by (simp only: pyfloat.inject of_int_eq_iff)
  have pick: "repr_pick k (of_int n) = (if f * U = n then Some (of_int n) else None)"
    using lo hi_ne n unfolding repr_pick_def Let_def
    by (simp add: u f_def [symmetric] flip: of_int_mult of_int_add)
  show "repr_pick k (of_int n) = Some d \<Longrightarrow> d = of_int n" using pick by (simp split: if_splits)
  show "repr_pick k (of_int n) = Some (of_int n)" if "int k = ?e + 1"
    using pick that by (simp add: U_def f_def)
qed

lemma first_some_at:
  assumes "f b = Some x" "\<forall>a \<in> set as. \<forall>y. f a = Some y \<longrightarrow> y = x"
  shows "first_some (map f (as @ b # cs)) = Some x"
  using assms
proof (induction as)
  case (Cons a as)
  then show ?case by (cases "f a") auto
qed simp

lemma repr_dec_int:
  assumes "0 \<le> n" "n \<le> 10 ^ 15"
  shows "repr_dec (of_int n) = of_int n"
proof (cases "n = 0")
  case False
  then have n: "1 \<le> n" "n \<le> 10 ^ 15" using assms by simp_all
  let ?e = "ilog 10 (rat_of_int n)"
  have b: "rat_of_nat 10 powi ?e \<le> of_int n" "of_int n < rat_of_nat 10 powi (?e + 1)"
    using ilog_bounds [of 10 "of_int n"] n by simp_all
  have "rat_of_nat 10 powi 0 < rat_of_nat 10 powi (?e + 1)" using b(2) n
    by (metis le_less_trans of_int_1_le_iff power_int_0_right)
  then have e0: "0 \<le> ?e" using powi_less_imp [of 10 0 "?e + 1"] by simp
  have "rat_of_int n \<le> of_int (10 ^ 15)" using n(2) by (simp only: of_int_le_iff)
  then have "rat_of_nat 10 powi ?e < rat_of_nat 10 powi 16" using b(1) by simp
  then have e1: "?e < 16" using powi_less_imp [of 10 ?e 16] by simp
  define m where "m = nat (?e + 1)"
  have m: "int m = ?e + 1" "1 \<le> m" "m < 18" using e0 e1 by (simp_all add: m_def)
  then have "[1..<18] = [1..<m] @ m # [Suc m..<18]"
    by (metis le_Suc_ex less_imp_le_nat upt_add_eq_append upt_conv_Cons)
  moreover have "repr_pick m (of_int n) = Some (of_int n)"
    using m by (intro repr_pick_exact(2) n) simp_all
  moreover have "\<forall>a \<in> set [1..<m]. \<forall>y. repr_pick a (of_int n) = Some y \<longrightarrow> y = of_int n"
    using m repr_pick_exact(1) [OF n] by auto
  ultimately have "first_some (map (\<lambda>k. repr_pick k (of_int n)) [1..<18]) = Some (of_int n)"
    by (simp only: first_some_at)
  then show ?thesis using False by (simp add: repr_dec_def)
qed (simp add: repr_dec_def)

lemma repr_dec_numeral [simp]:
  "numeral m \<le> (10 ^ 15 :: int) \<Longrightarrow> repr_dec (numeral m) = numeral m" "repr_dec 0 = 0" "repr_dec 1 = 1"
  using repr_dec_int [of "numeral m"] repr_dec_int [of 0] repr_dec_int [of 1] by simp_all

end
