(* ===== verification/Risk_Limits.thy ===== *)
theory Risk_Limits
  imports Py_Number
begin

text \<open>
  The snapshot of the configured limits (\<open>risk/limits.py\<close>) and the capital arithmetic built on
  it (\<open>risk/capital.py\<close>): the configured mandate as a ceiling, the drawdown haircut, the macro
  factor and the per-trade budget. String enumerations of \<open>constants.py\<close> are strings.
\<close>

subsection \<open>Vocabulary (\<open>constants.py\<close>)\<close>

abbreviation LONG :: string where "LONG \<equiv> ''LONG''"
abbreviation SHORT :: string where "SHORT \<equiv> ''SHORT''"
abbreviation BUY :: string where "BUY \<equiv> ''BUY''"
abbreviation SELL :: string where "SELL \<equiv> ''SELL''"
abbreviation EQUITY :: string where "EQUITY \<equiv> ''EQUITY''"
abbreviation FUTURES :: string where "FUTURES \<equiv> ''FUTURES''"
abbreviation CRYPTO :: string where "CRYPTO \<equiv> ''CRYPTO''"
abbreviation ALPACA :: string where "ALPACA \<equiv> ''alpaca''"
abbreviation PAPER :: string where "PAPER \<equiv> ''paper''"

definition normalize_asset_class :: "string \<Rightarrow> string" where
  "normalize_asset_class value = (let v = lower value in
     if v = ''equities'' then ''equity''
     else if v = ''futures'' then ''futures''
     else if v = ''stocks'' then ''equity''
     else v)"

definition executes_asset_class :: "string \<Rightarrow> string \<Rightarrow> bool" where
  "executes_asset_class mode asset_class =
     (let allowed = (if mode = ALPACA then Some [EQUITY] else None) in
      case allowed of None \<Rightarrow> True
      | Some cs \<Rightarrow> upper (normalize_asset_class asset_class) \<in> set cs)"

subsection \<open>Limits (\<open>risk/limits.py\<close>)\<close>

definition normalize_symbol :: "string \<Rightarrow> string" where
  "normalize_symbol symbol = upper (lstrip_chars (\<lambda>c. c = CHR ''/'') (strip symbol))"

definition cap_limit :: "string \<Rightarrow> pyfloat \<Rightarrow> pyfloat result" where
  "cap_limit name number =
     raise_if (\<not> isfinite number \<or> number < 0)
       (ValueError (msg (''Risk limit '' @ name @ '' must be finite and non-negative'')))
       (Ok number)"

definition ratio_limit :: "string \<Rightarrow> pyfloat \<Rightarrow> pyfloat result" where
  "ratio_limit name number =
     raise_if (\<not> isfinite number)
       (ValueError (msg (''Risk limit '' @ name @ '' must be finite''))) (Ok number)"

text \<open>\<open>int(_cap(name, n))\<close> of an integer setting: through \<open>float\<close> and back.\<close>

definition cap_int :: "string \<Rightarrow> int \<Rightarrow> int result" where
  "cap_int name n = bindr (float_of_int n) (\<lambda>x. bindr (cap_limit name x) int_of_float)"

record drawdown_policy =
  drawdown_gating_enabled :: bool
  drawdown_haircut_threshold_pct :: pyfloat
  max_drawdown_stop_pct :: pyfloat
  drawdown_min_risk_multiplier :: pyfloat

record risk_limits =
  cash :: pyfloat
  dd_policy :: drawdown_policy
  max_risk_pct_cap :: pyfloat
  max_trade_notional_cap :: pyfloat
  max_shares_per_trade :: int
  max_contracts_per_trade :: int
  max_stop_risk_pct :: pyfloat
  max_notional_exposure :: pyfloat
  asset_class_caps :: "(string \<times> pyfloat) list"
  max_concurrent_positions :: int
  max_correlated_positions :: int
  correlation_groups :: "(string \<times> string list) list"
  min_risk_reward_ratio :: pyfloat
  lockout_pre_minutes :: int
  lockout_post_minutes :: int
  macro_calendar_unknown :: string
  earnings_blackout_days :: int
  enforce_rth :: bool

text \<open>The configuration fields the snapshot and admission read (\<open>config.py\<close>).\<close>

record portfolio_config =
  p_cash :: pyfloat
  p_max_stop_risk_pct :: pyfloat
  p_max_notional_exposure :: pyfloat
  p_max_concurrent_positions :: int
  p_max_futures_exposure :: "pyfloat option"
  p_max_equity_exposure :: "pyfloat option"
  p_max_crypto_exposure :: "pyfloat option"
  p_max_correlated_positions :: int
  p_correlation_groups :: "(string \<times> string list) list"

record sizing_config =
  s_max_contracts_per_trade :: int
  s_max_shares_per_trade :: int
  s_max_risk_pct_cap :: pyfloat
  s_max_trade_notional_cap :: pyfloat
  s_drawdown :: drawdown_policy

record risk_config =
  r_min_risk_reward_ratio :: pyfloat
  r_lockout_pre_event_minutes :: int
  r_lockout_post_event_minutes :: int
  r_earnings_blackout_days :: int
  r_macro_calendar_unknown :: string

record execution_config =
  entry_queue_max_age_seconds :: pyfloat
  signal_max_age_seconds :: pyfloat
  entry_evidence_max_age_seconds :: pyfloat
  entry_quote_max_age_seconds :: pyfloat
  entry_max_price_drift_pct :: pyfloat
  entry_preflight_lease_seconds :: int
  account_risk_max_age_seconds :: pyfloat
  native_entry_lifetime :: string

record app_config =
  c_portfolio :: portfolio_config
  c_sizing :: sizing_config
  c_risk :: risk_config
  c_execution :: execution_config
  execution_mode :: string
  contracts :: "(string \<times> pyfloat option) list"
  session_enforce_rth :: bool

definition validate_drawdown_thresholds :: "drawdown_policy \<Rightarrow> drawdown_policy result" where
  "validate_drawdown_thresholds p =
     raise_if (drawdown_haircut_threshold_pct p \<ge> max_drawdown_stop_pct p)
       (ValueError (msg ''Drawdown haircut threshold must be below the sizing halt'')) (Ok p)"

text \<open>The declared field constraints of the sizing configuration's drawdown fields.\<close>

definition drawdown_fields_ok :: "drawdown_policy \<Rightarrow> bool" where
  "drawdown_fields_ok p =
     (isfinite (drawdown_haircut_threshold_pct p) \<and> 0 \<le> drawdown_haircut_threshold_pct p
        \<and> drawdown_haircut_threshold_pct p < 1
      \<and> isfinite (max_drawdown_stop_pct p) \<and> 0 < max_drawdown_stop_pct p
        \<and> max_drawdown_stop_pct p \<le> 1
      \<and> isfinite (drawdown_min_risk_multiplier p) \<and> 0 < drawdown_min_risk_multiplier p
        \<and> drawdown_min_risk_multiplier p \<le> 1)"

fun class_caps :: "(string \<times> string \<times> pyfloat option) list \<Rightarrow> (string \<times> pyfloat) list result" where
  "class_caps [] = Ok []"
| "class_caps ((k, name, None) # rest) = class_caps rest"
| "class_caps ((k, name, Some v) # rest) =
     bindr (cap_limit name v) (\<lambda>c. bindr (class_caps rest) (\<lambda>cs. Ok ((k, c) # cs)))"

definition limits_from_config :: "app_config \<Rightarrow> risk_limits result" where
  "limits_from_config config = (let p = c_portfolio config; s = c_sizing config; r = c_risk config in
     bindr (cap_limit ''cash'' (p_cash p)) (\<lambda>cash'.
     bindr (ratio_limit ''drawdown_haircut_threshold_pct''
        (drawdown_haircut_threshold_pct (s_drawdown s))) (\<lambda>thr.
     bindr (ratio_limit ''max_drawdown_stop_pct'' (max_drawdown_stop_pct (s_drawdown s))) (\<lambda>stp.
     bindr (ratio_limit ''drawdown_min_risk_multiplier''
        (drawdown_min_risk_multiplier (s_drawdown s))) (\<lambda>mul.
     bindr (cap_limit ''max_risk_pct_cap'' (s_max_risk_pct_cap s)) (\<lambda>rpc.
     bindr (cap_limit ''max_trade_notional_cap'' (s_max_trade_notional_cap s)) (\<lambda>tnc.
     bindr (cap_int ''max_shares_per_trade'' (s_max_shares_per_trade s)) (\<lambda>sh.
     bindr (cap_int ''max_contracts_per_trade'' (s_max_contracts_per_trade s)) (\<lambda>ct.
     bindr (cap_limit ''max_stop_risk_pct'' (p_max_stop_risk_pct p)) (\<lambda>srp.
     bindr (cap_limit ''max_notional_exposure'' (p_max_notional_exposure p)) (\<lambda>mne.
     bindr (class_caps
        [(EQUITY, ''max_equity_exposure'', p_max_equity_exposure p),
         (FUTURES, ''max_futures_exposure'', p_max_futures_exposure p),
         (CRYPTO, ''max_crypto_exposure'', p_max_crypto_exposure p)]) (\<lambda>caps.
     bindr (cap_int ''max_concurrent_positions'' (p_max_concurrent_positions p)) (\<lambda>mcp.
     bindr (cap_int ''max_correlated_positions'' (p_max_correlated_positions p)) (\<lambda>mco.
     bindr (ratio_limit ''min_risk_reward_ratio'' (r_min_risk_reward_ratio r)) (\<lambda>rr.
     Ok \<lparr>cash = cash',
         dd_policy = \<lparr>drawdown_gating_enabled = drawdown_gating_enabled (s_drawdown s),
            drawdown_haircut_threshold_pct = thr, max_drawdown_stop_pct = stp,
            drawdown_min_risk_multiplier = mul\<rparr>,
         max_risk_pct_cap = rpc, max_trade_notional_cap = tnc, max_shares_per_trade = sh,
         max_contracts_per_trade = ct, max_stop_risk_pct = srp, max_notional_exposure = mne,
         asset_class_caps = caps, max_concurrent_positions = mcp,
         max_correlated_positions = mco,
         correlation_groups = map (\<lambda>(g, ms). (g, map normalize_symbol ms)) (p_correlation_groups p),
         min_risk_reward_ratio = rr,
         lockout_pre_minutes = r_lockout_pre_event_minutes r,
         lockout_post_minutes = r_lockout_post_event_minutes r,
         macro_calendar_unknown = r_macro_calendar_unknown r,
         earnings_blackout_days = r_earnings_blackout_days r,
         enforce_rth = session_enforce_rth config\<rparr>)))))))))))))))"

subsection \<open>Capital (\<open>risk/capital.py\<close>)\<close>

text \<open>\<open>MACRO_FACTOR_FLOOR = 0.10\<close>, the nearest double.\<close>

definition MACRO_FACTOR_FLOOR :: pyfloat where
  "MACRO_FACTOR_FLOOR = b64 (1/10)"

definition requires_account_risk :: "app_config \<Rightarrow> bool" where
  "requires_account_risk config = (execution_mode config = ALPACA)"

definition risk_capital :: "pyfloat \<Rightarrow> pyfloat option \<Rightarrow> pyfloat result" where
  "risk_capital mandate current_equity =
     raise_if (\<not> isfinite mandate \<or> mandate \<le> 0)
       (ValueError (msg ''Configured risk capital must be finite and positive''))
     (case current_equity of
        None \<Rightarrow> Ok mandate
      | Some equity \<Rightarrow>
          raise_if (\<not> isfinite equity \<or> equity \<le> 0)
            (ValueError (msg ''Observed equity must be finite and positive''))
            (Ok (py_min mandate equity)))"

definition drawdown_risk_factor :: "pyfloat \<Rightarrow> drawdown_policy \<Rightarrow> pyfloat result" where
  "drawdown_risk_factor drawdown_pct policy =
     raise_if (\<not> isfinite drawdown_pct \<or> drawdown_pct < 0)
       (ValueError (msg ''Drawdown must be a finite nonnegative ratio''))
     (if \<not> drawdown_gating_enabled policy then Ok 1
      else if drawdown_pct \<ge> max_drawdown_stop_pct policy then Ok 0
      else if drawdown_pct \<le> drawdown_haircut_threshold_pct policy then Ok 1
      else let span = max_drawdown_stop_pct policy - drawdown_haircut_threshold_pct policy;
               excess = drawdown_pct - drawdown_haircut_threshold_pct policy
           in bindr (fdiv excess span) (\<lambda>q.
                Ok (py_max (drawdown_min_risk_multiplier policy) (1 - q))))"

definition macro_risk_factor :: "pyfloat \<Rightarrow> pyfloat result" where
  "macro_risk_factor value =
     raise_if (\<not> isfinite value) (ValueError (msg ''Macro risk multiplier must be finite''))
       (Ok (py_max MACRO_FACTOR_FLOOR (py_min 1 value)))"

record risk_budget =
  capital :: pyfloat
  drawdown_pct :: pyfloat
  drawdown_factor :: pyfloat
  macro_factor :: pyfloat
  dollars :: pyfloat

definition per_trade_risk_budget ::
  "risk_limits \<Rightarrow> pyfloat option \<Rightarrow> pyfloat \<Rightarrow> pyfloat \<Rightarrow> risk_budget result" where
  "per_trade_risk_budget limits equity drawdown macro_multiplier =
     bindr (risk_capital (cash limits) equity) (\<lambda>cap.
     bindr (drawdown_risk_factor drawdown (dd_policy limits)) (\<lambda>dd.
     bindr (macro_risk_factor macro_multiplier) (\<lambda>mac.
     Ok \<lparr>capital = cap, drawdown_pct = drawdown, drawdown_factor = dd, macro_factor = mac,
         dollars = cap * max_risk_pct_cap limits * dd * mac\<rparr>)))"

subsection \<open>Properties of the capital arithmetic\<close>

text \<open>A validated policy whose thresholds are doubles: what the configuration model enforces.\<close>

definition policy_ok :: "drawdown_policy \<Rightarrow> bool" where
  "policy_ok p = (drawdown_fields_ok p \<and> validate_drawdown_thresholds p = Ok p
     \<and> representable (drawdown_haircut_threshold_pct p) \<and> representable (max_drawdown_stop_pct p))"

lemma policy_okE:
  assumes "policy_ok p"
  obtains t s m where
    "drawdown_haircut_threshold_pct p = Num t" "max_drawdown_stop_pct p = Num s"
    "drawdown_min_risk_multiplier p = Num m" "0 \<le> t" "t < s" "s \<le> 1" "0 < m" "m \<le> 1"
    "0 < Num s - Num t"
proof -
  obtain t s m where [simp]: "drawdown_haircut_threshold_pct p = Num t"
    "max_drawdown_stop_pct p = Num s" "drawdown_min_risk_multiplier p = Num m"
    using assms by (auto simp: policy_ok_def drawdown_fields_ok_def isfinite_iff)
  have "0 \<le> t" "0 < m" "m \<le> 1" "s \<le> 1" "t < s"
    using assms by (auto simp: policy_ok_def drawdown_fields_ok_def validate_drawdown_thresholds_def
        one_pyfloat_def)
  moreover have "0 < Num s - Num t"
    using assms \<open>t < s\<close> by (intro representable_diff_pos) (auto simp: policy_ok_def)
  ultimately show thesis by (intro that) simp_all
qed

text \<open>The interpolated part of the factor, between the two thresholds.\<close>

lemma drawdown_risk_factor_cases:
  assumes "policy_ok p" "drawdown_gating_enabled p" "isfinite d" "0 \<le> d"
  obtains (halt) "max_drawdown_stop_pct p \<le> d" "drawdown_risk_factor d p = Ok 0"
  | (full) "\<not> max_drawdown_stop_pct p \<le> d" "d \<le> drawdown_haircut_threshold_pct p"
      "drawdown_risk_factor d p = Ok 1"
  | (haircut) q where "\<not> max_drawdown_stop_pct p \<le> d" "\<not> d \<le> drawdown_haircut_threshold_pct p"
      "fdiv (d - drawdown_haircut_threshold_pct p)
         (max_drawdown_stop_pct p - drawdown_haircut_threshold_pct p) = Ok q" "0 \<le> q"
      "drawdown_risk_factor d p = Ok (py_max (drawdown_min_risk_multiplier p) (1 - q))"
proof -
  obtain t s m where [simp]: "drawdown_haircut_threshold_pct p = Num t"
    "max_drawdown_stop_pct p = Num s" "drawdown_min_risk_multiplier p = Num m"
    and ts: "0 \<le> t" "s \<le> 1" and span: "0 < Num s - Num t" using policy_okE [OF assms(1)] by metis
  obtain r where r [simp]: "d = Num r" using assms(3) by (auto simp: isfinite_iff)
  have "\<not> feq (Num s - Num t) 0" using span by (auto simp: feq_def zero_pyfloat_def)
  then obtain q where q: "fdiv (Num r - Num t) (Num s - Num t) = Ok q" using fdiv_total by blast
  have neg: "\<not> Num r < 0" using assms(4) by (simp add: zero_pyfloat_def)
  consider "s \<le> r" | "r < s" "r \<le> t" | "r < s" "t < r" by linarith
  then show thesis
  proof cases
    case 1
    then show ?thesis using assms(2) neg by (intro halt) (simp_all add: drawdown_risk_factor_def)
  next
    case 2
    then show ?thesis using assms(2) neg by (intro full) (simp_all add: drawdown_risk_factor_def)
  next
    case 3
    have rt: "0 \<le> Num r - Num t" using 3 by (intro fsub_nonneg) simp
    have "Num r - Num t \<le> Num 1"
      using b64_mono [of "r - t" 1] 3 ts by (simp add: minus_pyfloat_def)
    with rt have "isfinite (Num r - Num t)" by (cases "Num r - Num t") auto
    then have "0 \<le> q" using fdiv_nonneg [OF rt span _ q] by simp
    then show ?thesis using 3 q assms(2) neg
      by (intro haircut [of q]) (simp_all add: drawdown_risk_factor_def)
  qed
qed

lemma drawdown_factor_spec:
  assumes "policy_ok p" "isfinite d" "0 \<le> d"
  shows "\<exists>f. drawdown_risk_factor d p = Ok f \<and> 0 \<le> f \<and> f \<le> 1
    \<and> (f = 0 \<longleftrightarrow> drawdown_gating_enabled p \<and> max_drawdown_stop_pct p \<le> d)
    \<and> (f = 0 \<or> drawdown_min_risk_multiplier p \<le> f)"
proof -
  obtain t s m where [simp]: "drawdown_haircut_threshold_pct p = Num t"
    "max_drawdown_stop_pct p = Num s" "drawdown_min_risk_multiplier p = Num m"
    and m: "0 < m" "m \<le> 1" using policy_okE [OF assms(1)] by metis
  have one: "(1 :: pyfloat) \<noteq> 0" "0 \<le> (1 :: pyfloat)" "Num m \<le> 1"
    using m by (simp_all add: one_pyfloat_def zero_pyfloat_def)
  show ?thesis
  proof (cases "drawdown_gating_enabled p")
    case False
    moreover have "\<not> d < 0" using assms by (cases d) (auto simp: zero_pyfloat_def)
    ultimately show ?thesis using assms one by (auto simp: drawdown_risk_factor_def)
  next
    case True
    from assms(1) True assms(2,3) show ?thesis
    proof (cases rule: drawdown_risk_factor_cases)
      case halt
      then show ?thesis using True one by auto
    next
      case full
      then show ?thesis using True one by auto
    next
      case (haircut q)
      let ?f = "py_max (Num m) (1 - q)"
      have q: "1 - q \<le> 1" by (rule one_minus_le_one) fact
      then have nn: "1 - q \<noteq> NaN" by (auto dest: fle_not_NaN)
      have ge: "Num m \<le> ?f" using py_max_ge [OF _ nn] by simp
      have "(0::pyfloat) \<le> Num m" using m by simp
      then have f0: "0 \<le> ?f" using ge fle_trans by blast
      have "?f \<noteq> 0" using ge m by (auto simp: zero_pyfloat_def)
      moreover have "?f \<le> 1" using q nn one by (simp add: py_max_le_iff)
      ultimately show ?thesis using haircut True ge f0 by auto
    qed
  qed
qed

text \<open>
  For a validated drawdown policy and an observed drawdown (finite, not negative) the
  sizing factor is always produced (no division by zero, even for adjacent thresholds), lies
  between 0 and 1, is 0 exactly when gating is on and the drawdown has reached the halt, and is
  never between 0 and the configured minimum multiplier.
\<close>

theorem drawdown_risk_factor_range:
  assumes "policy_ok p" "isfinite d" "0 \<le> d"
  shows "\<exists>f. drawdown_risk_factor d p = Ok f \<and> 0 \<le> f \<and> f \<le> 1
    \<and> (f = 0 \<longleftrightarrow> drawdown_gating_enabled p \<and> max_drawdown_stop_pct p \<le> d)
    \<and> (f = 0 \<or> drawdown_min_risk_multiplier p \<le> f)"
  using assms by (rule drawdown_factor_spec)

theorem drawdown_risk_factor_range_witness:
  "\<exists>f. drawdown_risk_factor (Num (3/64)) \<lparr>drawdown_gating_enabled = True,
      drawdown_haircut_threshold_pct = Num (1/32), max_drawdown_stop_pct = Num (1/16),
      drawdown_min_risk_multiplier = Num (1/8)\<rparr> = Ok f \<and> f \<noteq> 0 \<and> f \<le> 1"
  (is "\<exists>f. drawdown_risk_factor ?d ?p = _ \<and> _")
proof -
  have "policy_ok ?p"
    by (simp add: policy_ok_def drawdown_fields_ok_def validate_drawdown_thresholds_def
        representable_def one_pyfloat_def)
  moreover have "isfinite ?d" "0 \<le> ?d" by simp_all
  ultimately have "\<exists>f. drawdown_risk_factor ?d ?p = Ok f \<and> 0 \<le> f \<and> f \<le> 1
    \<and> (f = 0 \<longleftrightarrow> drawdown_gating_enabled ?p \<and> max_drawdown_stop_pct ?p \<le> ?d)
    \<and> (f = 0 \<or> drawdown_min_risk_multiplier ?p \<le> f)"
    by (rule drawdown_risk_factor_range)
  then show ?thesis by auto
qed

lemma haircut_antitone:
  assumes "policy_ok p" "d1 \<le> d2" "isfinite d1" "isfinite d2"
    "fdiv (d1 - drawdown_haircut_threshold_pct p)
       (max_drawdown_stop_pct p - drawdown_haircut_threshold_pct p) = Ok q1"
    "fdiv (d2 - drawdown_haircut_threshold_pct p)
       (max_drawdown_stop_pct p - drawdown_haircut_threshold_pct p) = Ok q2"
    "\<not> max_drawdown_stop_pct p \<le> d2" "\<not> d1 \<le> drawdown_haircut_threshold_pct p"
  shows "q1 \<le> q2"
proof -
  obtain t s m where [simp]: "drawdown_haircut_threshold_pct p = Num t"
    "max_drawdown_stop_pct p = Num s" and ts: "0 \<le> t" "s \<le> 1" and span: "0 < Num s - Num t"
    using policy_okE [OF assms(1)] by metis
  obtain a b where [simp]: "d1 = Num a" "d2 = Num b" using assms(3,4) by (auto simp: isfinite_iff)
  have ab: "a \<le> b" "t < a" "b < s" using assms by simp_all
  have fin: "isfinite (Num x - Num t)" if "t < x" "x < s" for x
  proof -
    have "Num x - Num t \<le> Num 1"
      using b64_mono [of "x - t" 1] that ts by (simp add: minus_pyfloat_def)
    moreover have "0 \<le> Num x - Num t" using that by (intro fsub_nonneg) simp
    ultimately show ?thesis by (cases "Num x - Num t") auto
  qed
  show ?thesis
    using fdiv_mono [OF fsub_mono [OF ab(1)] span fin fin, of q1 q2] assms(5,6) ab by simp
qed

text \<open>
  A deeper drawdown never gets a larger sizing factor: for a validated policy the factor
  is antitone in the observed drawdown, across the full-size, haircut and halt regions.
\<close>

theorem drawdown_risk_factor_antitone:
  assumes "policy_ok p" "isfinite d1" "isfinite d2" "0 \<le> d1" "d1 \<le> d2"
    "drawdown_risk_factor d1 p = Ok f1" "drawdown_risk_factor d2 p = Ok f2"
  shows "f2 \<le> f1"
proof (cases "drawdown_gating_enabled p")
  case False
  then show ?thesis using assms(6,7) by (simp add: drawdown_risk_factor_def)
next
  case True
  have d2: "0 \<le> d2" using fle_trans [OF assms(4,5)] .
  have r1: "0 \<le> f1" "f1 \<le> 1" and r2: "f2 \<le> 1"
    using drawdown_factor_spec [OF assms(1,2,4)] drawdown_factor_spec [OF assms(1,3) d2]
      assms(6,7) by auto
  from assms(1) True assms(2,4) show ?thesis
  proof (cases rule: drawdown_risk_factor_cases)
    case halt
    then have "max_drawdown_stop_pct p \<le> d2" using fle_trans assms(5) by blast
    moreover have "\<not> d2 < 0" using d2 by (cases d2) (auto simp: zero_pyfloat_def)
    ultimately show ?thesis using assms(3,6,7) halt True by (simp add: drawdown_risk_factor_def)
  next
    case full
    then show ?thesis using assms(6) r2 by simp
  next
    case h1: (haircut q1)
    from assms(1) True assms(3) d2 show ?thesis
    proof (cases rule: drawdown_risk_factor_cases)
      case halt
      then show ?thesis using assms(7) r1 by simp
    next
      case full
      then show ?thesis using h1 assms(5) fle_trans by blast
    next
      case (haircut q2)
      have "q1 \<le> q2"
        using haircut_antitone [OF assms(1,5,2,3) h1(3) haircut(3,1) h1(2)] .
      then have "1 - q2 \<le> 1 - q1" by (rule one_minus_mono)
      moreover have "drawdown_min_risk_multiplier p \<noteq> NaN"
        using policy_okE [OF assms(1)] by (metis pyfloat.distinct(5))
      ultimately show ?thesis using assms(6,7) h1 haircut py_max_mono by auto
    qed
  qed
qed

theorem drawdown_risk_factor_antitone_witness:
  "\<exists>f2. drawdown_risk_factor (Num (1/16)) \<lparr>drawdown_gating_enabled = True,
      drawdown_haircut_threshold_pct = Num (1/32), max_drawdown_stop_pct = Num (1/8),
      drawdown_min_risk_multiplier = Num (1/8)\<rparr> = Ok f2 \<and> f2 \<le> 1"
  (is "\<exists>f2. drawdown_risk_factor ?d ?p = _ \<and> _")
proof -
  have p: "policy_ok ?p"
    by (simp add: policy_ok_def drawdown_fields_ok_def validate_drawdown_thresholds_def
        representable_def one_pyfloat_def)
  have f1: "drawdown_risk_factor (Num (1/64)) ?p = Ok 1"
    by (simp add: drawdown_risk_factor_def zero_pyfloat_def)
  obtain f2 where f2: "drawdown_risk_factor ?d ?p = Ok f2"
    using drawdown_factor_spec [OF p, of ?d] by auto
  have "f2 \<le> 1"
    using drawdown_risk_factor_antitone [OF p _ _ _ _ f1 f2] by simp
  with f2 show ?thesis by blast
qed

lemma macro_floor_bounds: "Num (1/16) \<le> MACRO_FACTOR_FLOOR" "MACRO_FACTOR_FLOOR \<le> Num (1/8)"
  using b64_mono [of "1/10" "1/8"] b64_mono [of "1/16" "1/10"] by (simp_all add: MACRO_FACTOR_FLOOR_def)

lemma macro_floor_Num: "\<exists>r. MACRO_FACTOR_FLOOR = Num r \<and> 0 < r \<and> r \<le> 1/8"
proof -
  obtain r where r: "MACRO_FACTOR_FLOOR = Num r"
    using macro_floor_bounds by (cases MACRO_FACTOR_FLOOR) simp_all
  show ?thesis using macro_floor_bounds unfolding r by (intro exI [of _ r]) simp
qed

lemma macro_risk_factor_spec:
  assumes "macro_risk_factor v = Ok f"
  shows "MACRO_FACTOR_FLOOR \<le> f" "0 \<le> f" "f \<le> 1" "isfinite v" "0 < f"
proof -
  obtain r where r: "v = Num r" and f: "f = py_max MACRO_FACTOR_FLOOR (py_min 1 (Num r))"
    using assms by (auto simp: macro_risk_factor_def isfinite_iff)
  obtain m where m: "MACRO_FACTOR_FLOOR = Num m" "0 < m" "m \<le> 1/8" using macro_floor_Num by blast
  show "MACRO_FACTOR_FLOOR \<le> f" "0 \<le> f" "f \<le> 1" "isfinite v" "0 < f"
    using m(2,3) by (auto simp: m(1) r f py_max_def py_min_def one_pyfloat_def)
qed

lemma macro_risk_factor_one: "macro_risk_factor 1 = Ok 1"
proof -
  obtain m where m: "MACRO_FACTOR_FLOOR = Num m" "0 < m" "m \<le> 1/8" using macro_floor_Num by blast
  show ?thesis using m(2,3)
    by (simp add: m(1) macro_risk_factor_def py_max_def py_min_def one_pyfloat_def)
qed

lemma risk_capital_spec:
  assumes "risk_capital mandate eq = Ok c"
  shows "c \<le> mandate" "isfinite c" "0 < c" "eq = None \<Longrightarrow> c = mandate"
    "eq = Some e \<Longrightarrow> c \<le> e" "representable mandate \<Longrightarrow> (\<And>e. eq = Some e \<Longrightarrow> representable e) \<Longrightarrow> representable c"
  using assms by (auto simp: risk_capital_def isfinite_iff py_min_def zero_pyfloat_def
      split: option.splits if_splits)

text \<open>
  The per-trade risk budget is bounded by the mandate: the capital it scales is at most the
  configured cash and at most the observed equity; when the per-trade cap is a ratio in
  [0, 1] the budget is a finite nonnegative amount of at most capital times the cap, whatever
  the drawdown and the macro multiplier (the macro multiplier never scales risk up).
\<close>

theorem per_trade_risk_budget_bounded:
  assumes "per_trade_risk_budget limits equity dd mm = Ok b"
    and "policy_ok (dd_policy limits)"
    and "representable (cash limits)" "\<And>e. equity = Some e \<Longrightarrow> representable e"
    and "isfinite (max_risk_pct_cap limits)" "0 \<le> max_risk_pct_cap limits" "max_risk_pct_cap limits \<le> 1"
  shows "capital b \<le> cash limits \<and> (\<forall>e. equity = Some e \<longrightarrow> capital b \<le> e)
    \<and> isfinite (dollars b) \<and> 0 \<le> dollars b
    \<and> dollars b \<le> capital b * max_risk_pct_cap limits \<and> dollars b \<le> capital b"
proof -
  obtain c d m where c: "risk_capital (cash limits) equity = Ok c"
    and d: "drawdown_risk_factor dd (dd_policy limits) = Ok d"
    and m: "macro_risk_factor mm = Ok m"
    and b: "capital b = c" "dollars b = c * max_risk_pct_cap limits * d * m"
    using assms(1) by (auto simp: per_trade_risk_budget_def bindr_Inr_iff)
  note cs = risk_capital_spec [OF c]
  have rc: "representable c" using cs(6) assms(3,4) by blast
  have c0: "0 \<le> c" using cs(3) by (rule fless_imp_le)
  have dd: "isfinite dd" "0 \<le> dd"
    using d by (auto simp: drawdown_risk_factor_def isfinite_iff zero_pyfloat_def)
  have df: "0 \<le> d" "d \<le> 1" using drawdown_factor_spec [OF assms(2) dd] d by auto
  note mf = macro_risk_factor_spec [OF m]
  note s1 = fmul_unit_le [OF rc c0 cs(2) assms(6,7)]
  note s2 = fmul_unit_le [OF representable_times s1(2,3) df]
  note s3 = fmul_unit_le [OF representable_times s2(2,3) mf(2,3)]
  have "dollars b \<le> c * max_risk_pct_cap limits"
    unfolding b using s3(1) s2(1) by (rule fle_trans)
  moreover from this have "dollars b \<le> c" using s1(1) by (rule fle_trans)
  ultimately show ?thesis using cs s3 b by auto
qed

text \<open>The concrete limits the witnesses use: the shipped defaults, with dyadic ratios.\<close>

definition demo_policy :: drawdown_policy where
  "demo_policy = \<lparr>drawdown_gating_enabled = True, drawdown_haircut_threshold_pct = Num (1/32),
     max_drawdown_stop_pct = Num (1/16), drawdown_min_risk_multiplier = Num (1/8)\<rparr>"

definition demo_limits :: risk_limits where
  "demo_limits = \<lparr>cash = Num 100000, dd_policy = demo_policy, max_risk_pct_cap = Num (1/64),
     max_trade_notional_cap = Num 30000, max_shares_per_trade = 500, max_contracts_per_trade = 4,
     max_stop_risk_pct = Num (1/32), max_notional_exposure = Num 60000,
     asset_class_caps = [(EQUITY, Num 40000), (FUTURES, Num 40000), (CRYPTO, Num 20000)],
     max_concurrent_positions = 4, max_correlated_positions = 1,
     correlation_groups = [(''index'', [''SPY'', ''QQQ''])],
     min_risk_reward_ratio = Num 2, lockout_pre_minutes = 60, lockout_post_minutes = 30,
     macro_calendar_unknown = ''closed'', earnings_blackout_days = 7, enforce_rth = True\<rparr>"

definition demo_budget :: risk_budget where
  "demo_budget = \<lparr>capital = Num 65536, drawdown_pct = Num 0, drawdown_factor = 1, macro_factor = 1,
     dollars = Num 1024\<rparr>"

lemma demo_policy_ok: "policy_ok demo_policy"
  by (simp add: demo_policy_def policy_ok_def drawdown_fields_ok_def
      validate_drawdown_thresholds_def representable_def one_pyfloat_def)

lemma demo_budget_eq:
  "per_trade_risk_budget demo_limits (Some (Num 65536)) (Num 0) 1 = Ok demo_budget"
  by (simp add: per_trade_risk_budget_def macro_risk_factor_one [unfolded one_pyfloat_def]
      risk_capital_def demo_limits_def
      drawdown_risk_factor_def demo_policy_def py_min_def demo_budget_def zero_pyfloat_def
      one_pyfloat_def)

theorem per_trade_risk_budget_bounded_witness:
  "per_trade_risk_budget demo_limits (Some (Num 65536)) (Num 0) 1 = Ok demo_budget
     \<and> dollars demo_budget \<le> capital demo_budget * Num (1/64)"
proof -
  have "max_risk_pct_cap demo_limits = Num (1/64)" "cash demo_limits = Num 100000"
    "dd_policy demo_limits = demo_policy"
    by (simp_all add: demo_limits_def)
  then have "dollars demo_budget \<le> capital demo_budget * Num (1/64)"
    using per_trade_risk_budget_bounded [OF demo_budget_eq] demo_policy_ok
    by (simp add: representable_def one_pyfloat_def)
  then show ?thesis using demo_budget_eq by simp
qed

end
