(* ===== verification/Risk_Book.thy ===== *)
theory Risk_Book
  imports Risk_Limits
begin

text \<open>
  What the desk already holds (\<open>risk/book.py\<close>): the positions and reservations a layer
  passes to the entry rules, built from \<open>signals\<close> rows.
\<close>

text \<open>A number stored in a row: absent, a float, a decimal, or something \<open>float\<close> refuses.\<close>

datatype row_num = NNone | NFloat pyfloat | NDec dec | NBad

text \<open>The columns of a \<open>signals\<close> row that the book and the capacity assessment read.\<close>

record signal_row =
  row_contract :: "string option"
  row_symbol :: "string option"
  row_status :: "string option"
  row_direction :: "string option"
  row_asset_class :: "string option"
  row_notional_value :: row_num
  row_risk_dollars :: row_num
  row_broker_order_id :: "string option"
  row_quantity :: row_num
  row_entry_price :: row_num
  row_stop_loss :: row_num
  row_take_profit :: row_num

definition RESERVATION_STATUS :: string where "RESERVATION_STATUS = ''SUBMITTING''"

definition number :: "row_num \<Rightarrow> pyfloat option" where
  "number value = (case value of NNone \<Rightarrow> None | NFloat x \<Rightarrow> Some x
     | NDec d \<Rightarrow> Some (float_of_dec d) | NBad \<Rightarrow> None)"

record book_position =
  bp_symbol :: string
  bp_direction :: string
  bp_asset_class :: string
  bp_notional :: "pyfloat option"
  bp_planned_risk :: "pyfloat option"
  reservation :: bool

definition bp_key :: "book_position \<Rightarrow> string" where
  "bp_key p = normalize_symbol (bp_symbol p)"

definition known_amount :: "pyfloat option \<Rightarrow> bool" where
  "known_amount v = (case v of None \<Rightarrow> False | Some x \<Rightarrow> isfinite x \<and> 0 \<le> x)"

definition bp_valid :: "book_position \<Rightarrow> bool" where
  "bp_valid p = (known_amount (bp_notional p) \<and> known_amount (bp_planned_risk p))"

record book = positions :: "book_position list"

text \<open>\<open>a or b\<close> on optional strings: \<open>None\<close> and the empty string are false.\<close>

definition str_or :: "string option \<Rightarrow> string \<Rightarrow> string" where
  "str_or a b = (case a of None \<Rightarrow> b | Some s \<Rightarrow> if s = [] then b else s)"

definition position_of_row :: "bool \<Rightarrow> signal_row \<Rightarrow> book_position" where
  "position_of_row reservations row =
     \<lparr>bp_symbol = str_or (row_contract row) (str_or (row_symbol row) []),
      bp_direction = upper (str_or (row_direction row) []),
      bp_asset_class = upper (str_or (row_asset_class row) []),
      bp_notional = number (row_notional_value row),
      bp_planned_risk = number (row_risk_dollars row),
      reservation = (reservations \<and> upper (str_or (row_status row) []) = RESERVATION_STATUS)\<rparr>"

definition from_signal_rows :: "signal_row list \<Rightarrow> bool \<Rightarrow> book" where
  "from_signal_rows rows reservations = \<lparr>positions = map (position_of_row reservations) rows\<rparr>"

definition with_position :: "book \<Rightarrow> book_position \<Rightarrow> book" where
  "with_position b p = b\<lparr>positions := positions b @ [p]\<rparr>"

definition book_count :: "book \<Rightarrow> int" where
  "book_count b = int (length (positions b))"

definition invalid_positions :: "book \<Rightarrow> book_position list" where
  "invalid_positions b = filter (\<lambda>p. \<not> bp_valid p) (positions b)"

text \<open>\<open>x or 0.0\<close> on an optional float.\<close>

definition or_zero :: "pyfloat option \<Rightarrow> pyfloat" where
  "or_zero v = (case v of None \<Rightarrow> 0 | Some x \<Rightarrow> x)"

definition book_notional :: "book \<Rightarrow> pyfloat" where
  "book_notional b = py_sum (map (or_zero \<circ> bp_notional) (positions b))"

definition notional_for :: "book \<Rightarrow> string \<Rightarrow> pyfloat" where
  "notional_for b asset_class = (let wanted = upper asset_class in
     py_sum (map (or_zero \<circ> bp_notional)
       (filter (\<lambda>p. bp_asset_class p = wanted) (positions b))))"

definition book_planned_risk :: "book \<Rightarrow> pyfloat" where
  "book_planned_risk b = py_sum (map (or_zero \<circ> bp_planned_risk) (positions b))"

definition holds :: "book \<Rightarrow> string \<Rightarrow> bool" where
  "holds b symbol = (let key = normalize_symbol symbol in
     list_ex (\<lambda>p. bp_key p = key) (positions b))"

definition same_direction_in :: "book \<Rightarrow> string list \<Rightarrow> string \<Rightarrow> book_position list" where
  "same_direction_in b keys direction = (let wanted = upper direction in
     filter (\<lambda>p. bp_key p \<in> set keys \<and> bp_direction p = wanted) (positions b))"

lemma count_with_position [simp]: "book_count (with_position b p) = book_count b + 1"
  by (simp add: book_count_def with_position_def)

lemma holds_with_position [simp]:
  "holds (with_position b p) s \<longleftrightarrow> holds b s \<or> bp_key p = normalize_symbol s"
  by (auto simp: holds_def with_position_def)

lemma count_from_signal_rows [simp]: "book_count (from_signal_rows rows r) = int (length rows)"
  by (simp add: book_count_def from_signal_rows_def)

lemma length_same_direction_in:
  "int (length (same_direction_in b keys d)) \<le> book_count b"
  by (simp add: same_direction_in_def book_count_def)

text \<open>A leading slash does not distinguish instruments: \<open>/MES\<close> and \<open>MES\<close> share a key.\<close>

lemma normalize_symbol_slash: "normalize_symbol (CHR ''/'' # s) = normalize_symbol s"
  if "s \<noteq> []" "\<not> is_space (hd s)"
proof -
  have "\<not> is_space CHR ''/''" by (simp add: is_space_def)
  moreover from that have "dropWhile is_space s = s" by (cases s) auto
  moreover have "rev (dropWhile is_space (rev (CHR ''/'' # s))) = CHR ''/'' # rev (dropWhile is_space (rev s))"
    using dropWhile_append1 [of "hd s" "rev s" is_space "[CHR ''/'']"] that by simp
  ultimately show ?thesis by (simp add: normalize_symbol_def strip_def lstrip_chars_def)
qed

end
