(* ===== verification/Risk_Rules.thy ===== *)
theory Risk_Rules
  imports Risk_Book
begin

text \<open>
  One definition per entry-risk rule of \<open>risk/rules.py\<close>, and the two composites that fix
  their order: \<open>book_gates\<close> (the scan) and \<open>admission_gates\<close> (admission). A rule returns a
  rejection or \<open>None\<close>. Dates are day numbers, instants are microseconds since the epoch (UTC).
\<close>

subsection \<open>Rejections and intents\<close>

datatype risk_rule =
    EXPOSURE_UNKNOWN | DRAWDOWN_HALT | PER_TRADE_RISK | PER_TRADE_NOTIONAL | QUANTITY_CAP
  | REWARD_RISK | AGGREGATE_STOP_RISK | CONCURRENT_POSITIONS | SAME_SYMBOL | PORTFOLIO_NOTIONAL
  | ASSET_CLASS_NOTIONAL | CORRELATION_GROUP | MACRO_LOCKOUT | EARNINGS_BLACKOUT | SESSION_CLOSED
  | SESSION_NOT_RTH | REGIME_BREAKOUT | CORPORATE_ACTION | FILING_VETO

record rejection =
  rule :: risk_rule
  reason :: ftext

abbreviation reject :: "risk_rule \<Rightarrow> ftext \<Rightarrow> rejection option" where
  "reject r t \<equiv> Some \<lparr>rule = r, reason = t\<rparr>"

text \<open>\<open>None\<close> stands for a value that \<open>float\<close> refuses.\<close>

definition positive :: "string \<Rightarrow> pyfloat option \<Rightarrow> pyfloat result" where
  "positive name value = (let e = ValueError (msg (name @ '' must be finite and positive'')) in
     case value of None \<Rightarrow> Raise e
     | Some x \<Rightarrow> raise_if (\<not> isfinite x \<or> x \<le> 0) e (Ok x))"

record entry_intent =
  i_symbol :: string
  i_direction :: string
  i_asset_class :: string
  i_quantity :: pyfloat
  i_entry :: pyfloat
  i_stop :: pyfloat
  i_target :: pyfloat
  i_multiplier :: pyfloat
  i_current_price :: "pyfloat option"

definition mk_entry_intent ::
  "string \<Rightarrow> string \<Rightarrow> string \<Rightarrow> pyfloat option \<Rightarrow> pyfloat option \<Rightarrow> pyfloat option \<Rightarrow> pyfloat option
   \<Rightarrow> pyfloat option \<Rightarrow> pyfloat option \<Rightarrow> entry_intent result" where
  "mk_entry_intent symbol direction asset_class quantity entry stop target multiplier current_price =
     (let d = upper direction; a = upper asset_class in
      raise_if (d \<noteq> LONG \<and> d \<noteq> SHORT) (ValueError (msg ''direction must be LONG or SHORT''))
      (bindr (positive ''quantity'' quantity) (\<lambda>q.
       bindr (positive ''entry'' entry) (\<lambda>e.
       bindr (positive ''stop'' stop) (\<lambda>s.
       bindr (positive ''target'' target) (\<lambda>t.
       bindr (positive ''multiplier'' multiplier) (\<lambda>m.
       bindr (case current_price of None \<Rightarrow> Ok None
              | Some p \<Rightarrow> bindr (positive ''current_price'' (Some p)) (\<lambda>c. Ok (Some c))) (\<lambda>c.
       Ok \<lparr>i_symbol = symbol, i_direction = d, i_asset_class = a, i_quantity = q, i_entry = e,
           i_stop = s, i_target = t, i_multiplier = m, i_current_price = c\<rparr>))))))))"

definition intent_key :: "entry_intent \<Rightarrow> string" where
  "intent_key i = normalize_symbol (i_symbol i)"

definition sign :: "entry_intent \<Rightarrow> pyfloat" where
  "sign i = (if i_direction i = LONG then Num 1 else Num (-1))"

definition risk_distance :: "entry_intent \<Rightarrow> pyfloat" where
  "risk_distance i = (i_entry i - i_stop i) * sign i"

definition reward_distance :: "entry_intent \<Rightarrow> pyfloat" where
  "reward_distance i = (i_target i - i_entry i) * sign i"

definition risk_dollars :: "entry_intent \<Rightarrow> pyfloat" where
  "risk_dollars i = py_max (risk_distance i) 0 * i_quantity i * i_multiplier i"

definition exposure_price :: "entry_intent \<Rightarrow> pyfloat" where
  "exposure_price i = (case i_current_price i of None \<Rightarrow> i_entry i
     | Some p \<Rightarrow> py_max (i_entry i) p)"

definition notional :: "entry_intent \<Rightarrow> pyfloat" where
  "notional i = exposure_price i * i_quantity i * i_multiplier i"

subsection \<open>The rules\<close>

definition exposure_known :: "book \<Rightarrow> rejection option" where
  "exposure_known b = (if invalid_positions b \<noteq> [] then
     reject EXPOSURE_UNKNOWN (msg ''Existing exposure is unknown or invalid; reconcile it before new risk.'')
     else None)"

definition drawdown_halt :: "risk_budget \<Rightarrow> rejection option" where
  "drawdown_halt b = (if feq (drawdown_factor b) 0 then
     reject DRAWDOWN_HALT [Lit ''Account drawdown '', FFloat ''.1%'' (drawdown_pct b),
       Lit '' reaches the configured sizing halt; new entries blocked.'']
     else None)"

definition per_trade_risk :: "entry_intent \<Rightarrow> risk_budget \<Rightarrow> rejection option" where
  "per_trade_risk i b = (if dollars b < risk_dollars i then
     reject PER_TRADE_RISK
       (if drawdown_factor b < 1 \<or> macro_factor b < 1 then
          msg ''Order exceeds the drawdown- and macro-adjusted per-trade risk cap; request a fresh scan for smaller sizing.''
        else msg ''Order exceeds the configured per-trade risk cap.'')
     else None)"

definition per_trade_notional :: "entry_intent \<Rightarrow> risk_limits \<Rightarrow> rejection option" where
  "per_trade_notional i l = (if max_trade_notional_cap l < notional i then
     reject PER_TRADE_NOTIONAL (msg ''Order exceeds the configured per-trade notional cap.'')
     else None)"

text \<open>A float compared with an integer: Python compares the exact values.\<close>

definition float_gt_int :: "pyfloat \<Rightarrow> int \<Rightarrow> bool" where
  "float_gt_int x n = (case x of Num r \<Rightarrow> of_int n < r | PosInf \<Rightarrow> True | _ \<Rightarrow> False)"

definition quantity_cap :: "entry_intent \<Rightarrow> risk_limits \<Rightarrow> rejection option" where
  "quantity_cap i l =
     (let cap = (if i_asset_class i = FUTURES then max_contracts_per_trade l
                 else max_shares_per_trade l)
      in if float_gt_int (i_quantity i) cap then
           reject QUANTITY_CAP (msg ''Order exceeds the configured quantity cap.'')
         else None)"

text \<open>The quotient of the guarded divisions (the divisor is known to be positive).\<close>

definition quot :: "pyfloat \<Rightarrow> pyfloat \<Rightarrow> pyfloat" where
  "quot a b = (case fdiv a b of Inr q \<Rightarrow> q | Inl _ \<Rightarrow> NaN)"

definition meets_min_reward_risk :: "pyfloat \<Rightarrow> pyfloat \<Rightarrow> pyfloat \<Rightarrow> bool" where
  "meets_min_reward_risk reward risk minimum =
     (if risk \<le> 0 then False else minimum \<le> py_round 2 (quot reward risk))"

definition required_reward_risk :: "risk_limits \<Rightarrow> pyfloat option \<Rightarrow> pyfloat" where
  "required_reward_risk l regime_min_rr = (case regime_min_rr of
     None \<Rightarrow> min_risk_reward_ratio l
   | Some r \<Rightarrow> if \<not> isfinite r then min_risk_reward_ratio l
              else py_max (min_risk_reward_ratio l) r)"

definition reward_risk :: "entry_intent \<Rightarrow> pyfloat \<Rightarrow> rejection option" where
  "reward_risk i required =
     (if meets_min_reward_risk (reward_distance i) (risk_distance i) required then None
      else let rr = (if 0 < risk_distance i
                     then py_round 2 (quot (reward_distance i) (risk_distance i)) else 0)
           in reject REWARD_RISK [Lit ''Reward/risk '', FFloat ''.2f'' rr,
                Lit '' is below the required '', FFloat ''.2f'' required, Lit ''.''])"

definition aggregate_stop_risk ::
  "entry_intent \<Rightarrow> book \<Rightarrow> risk_budget \<Rightarrow> risk_limits \<Rightarrow> rejection option" where
  "aggregate_stop_risk i bk b l =
     (if capital b * max_stop_risk_pct l * drawdown_factor b < book_planned_risk bk + risk_dollars i
      then reject AGGREGATE_STOP_RISK (msg ''Order would breach the aggregate planned stop-risk budget.'')
      else None)"

definition concurrent_positions :: "book \<Rightarrow> risk_limits \<Rightarrow> rejection option" where
  "concurrent_positions bk l = (if max_concurrent_positions l \<le> book_count bk then
     reject CONCURRENT_POSITIONS [Lit ''Maximum concurrent positions ('',
       FInt (max_concurrent_positions l), Lit '') reached.'']
     else None)"

definition same_symbol :: "entry_intent \<Rightarrow> book \<Rightarrow> rejection option" where
  "same_symbol i bk = (if holds bk (i_symbol i) then
     reject SAME_SYMBOL (msg ''Symbol already has a position or entry reservation; adding/netting requires a separate reviewed plan.'')
     else None)"

definition portfolio_notional :: "entry_intent \<Rightarrow> book \<Rightarrow> risk_limits \<Rightarrow> rejection option" where
  "portfolio_notional i bk l =
     (let total = book_notional bk + notional i; cap = max_notional_exposure l in
      if cap < total then
        reject PORTFOLIO_NOTIONAL [Lit ''Portfolio notional would reach $'', FFloat '',.0f'' total,
          Lit '', above the $'', FFloat '',.0f'' cap, Lit '' ceiling.'']
      else None)"

definition asset_class_notional :: "entry_intent \<Rightarrow> book \<Rightarrow> risk_limits \<Rightarrow> rejection option" where
  "asset_class_notional i bk l = (case map_of (asset_class_caps l) (i_asset_class i) of
     None \<Rightarrow> None
   | Some cap \<Rightarrow>
       (let total = notional_for bk (i_asset_class i) + notional i in
        if cap < total then
          reject ASSET_CLASS_NOTIONAL [Lit (i_asset_class i), Lit '' notional would reach $'',
            FFloat '',.0f'' total, Lit '', above the $'', FFloat '',.0f'' cap, Lit '' ceiling.'']
        else None))"

definition group_rejection ::
  "entry_intent \<Rightarrow> book \<Rightarrow> risk_limits \<Rightarrow> string \<Rightarrow> string list \<Rightarrow> rejection option" where
  "group_rejection i bk l grp keys =
     (if intent_key i \<notin> set keys then None
      else let held = same_direction_in bk keys (i_direction i) in
        if max_correlated_positions l \<le> int (length held) then
          reject CORRELATION_GROUP [Lit ''Correlation group '', Lit (quoted grp), Lit '' already has '',
            FInt (int (length held)), Lit '' '', Lit (i_direction i), Lit '' position(s) ('',
            Lit (join '', '' (map bp_symbol held)), Lit ''); max '', FInt (max_correlated_positions l),
            Lit ''.'']
        else None)"

fun correlation_loop ::
  "entry_intent \<Rightarrow> book \<Rightarrow> risk_limits \<Rightarrow> (string \<times> string list) list \<Rightarrow> rejection option" where
  "correlation_loop i bk l [] = None"
| "correlation_loop i bk l ((grp, keys) # rest) =
     (case group_rejection i bk l grp keys of
        Some r \<Rightarrow> Some r | None \<Rightarrow> correlation_loop i bk l rest)"

definition correlation_group :: "entry_intent \<Rightarrow> book \<Rightarrow> risk_limits \<Rightarrow> rejection option" where
  "correlation_group i bk l = correlation_loop i bk l (correlation_groups l)"

definition minutes :: "int \<Rightarrow> int" where
  "minutes n = n * 60000000"

definition in_lockout_window :: "int \<Rightarrow> int \<Rightarrow> int \<Rightarrow> int \<Rightarrow> bool" where
  "in_lockout_window now event_at pre_minutes post_minutes =
     (event_at - minutes pre_minutes \<le> now \<and> now \<le> event_at + minutes post_minutes)"

definition macro_lockout ::
  "string option \<Rightarrow> int option \<Rightarrow> int \<Rightarrow> risk_limits \<Rightarrow> bool \<Rightarrow> string \<Rightarrow> rejection option" where
  "macro_lockout event_title event_at now l calendar_verified static_status =
     (if \<not> calendar_verified \<and> macro_calendar_unknown l = ''closed'' then
        reject MACRO_LOCKOUT [Lit ''Macro calendar unverified: the static tier-1 calendar is '',
          Lit static_status, Lit ''; new entries refused (risk.macro_calendar_unknown: closed).'']
      else case event_at of None \<Rightarrow> None
      | Some evt \<Rightarrow>
          if \<not> in_lockout_window now evt (lockout_pre_minutes l) (lockout_post_minutes l) then None
          else reject MACRO_LOCKOUT [Lit ''Macro event lockout: '',
            Lit (str_or event_title ''scheduled release''), Lit '' at '', FTime evt, Lit '' UTC.''])"

definition earnings_days_out :: "int option \<Rightarrow> int \<Rightarrow> int \<Rightarrow> int option" where
  "earnings_days_out event_date today blackout_days =
     (if blackout_days \<le> 0 then None
      else case event_date of None \<Rightarrow> None
      | Some d \<Rightarrow> let days = d - today in
          if 0 \<le> days \<and> days \<le> blackout_days then Some days else None)"

record corporate_action =
  ca_symbol :: string
  effective_on :: int
  is_structural :: bool
  ca_describe :: string

definition blocking_corporate_action ::
  "corporate_action list \<Rightarrow> string \<Rightarrow> int \<Rightarrow> int \<Rightarrow> int \<Rightarrow> corporate_action option" where
  "blocking_corporate_action actions symbol today pre_days post_days =
     (let wanted = upper (strip symbol); start = today - post_days; stop = today + pre_days;
          window = sort_key effective_on
            (filter (\<lambda>a. upper (ca_symbol a) = wanted \<and> start \<le> effective_on a \<and> effective_on a \<le> stop)
              actions)
      in find is_structural window)"

definition relative_days :: "int \<Rightarrow> int \<Rightarrow> ftext" where
  "relative_days effective today =
     (let days = effective - today; unit = (if \<bar>days\<bar> = 1 then ''day'' else ''days'') in
      if days = 0 then msg ''today''
      else if days > 0 then [Lit ''in '', FInt days, Lit '' '', Lit unit]
      else [FInt (- days), Lit '' '', Lit unit, Lit '' ago''])"

definition corporate_action_block ::
  "corporate_action list \<Rightarrow> string \<Rightarrow> int \<Rightarrow> int \<Rightarrow> int \<Rightarrow> rejection option" where
  "corporate_action_block actions symbol today pre_days post_days =
     (case blocking_corporate_action actions symbol today pre_days post_days of
        None \<Rightarrow> None
      | Some a \<Rightarrow> reject CORPORATE_ACTION ([Lit ''Corporate action: '', Lit (ca_symbol a), Lit '' '',
          Lit (ca_describe a), Lit '' effective '', FDate (effective_on a), Lit '' ('']
          @ relative_days (effective_on a) today
          @ [Lit '') - within the '', FInt pre_days, Lit ''/'', FInt post_days, Lit ''-day blackout.'']))"

record filing =
  f_symbol :: string
  category :: string
  filing_date :: int
  f_describe :: string

text \<open>\<open>max(xs, key=k, default=None)\<close>: the first element with the greatest key.\<close>

fun max_key_first :: "('a \<Rightarrow> int) \<Rightarrow> 'a list \<Rightarrow> 'a option" where
  "max_key_first k [] = None"
| "max_key_first k (x # xs) = (case max_key_first k xs of
     None \<Rightarrow> Some x | Some y \<Rightarrow> if k y > k x then Some y else Some x)"

fun qualifying_filings ::
  "filing list \<Rightarrow> string \<Rightarrow> int \<Rightarrow> (string \<times> int) list \<Rightarrow> filing list result" where
  "qualifying_filings [] wanted today windows = Ok []"
| "qualifying_filings (f # fs) wanted today windows =
     (if upper (strip (f_symbol f)) = wanted \<and> 0 \<le> today - filing_date f then
        (case map_of windows (category f) of
           None \<Rightarrow> Raise (KeyError (category f))
         | Some w \<Rightarrow> bindr (qualifying_filings fs wanted today windows) (\<lambda>rest.
             Ok (if today - filing_date f \<le> w then f # rest else rest)))
      else qualifying_filings fs wanted today windows)"

definition blocking_filing ::
  "filing list \<Rightarrow> string \<Rightarrow> int \<Rightarrow> (string \<times> int) list \<Rightarrow> filing option result" where
  "blocking_filing filings symbol today windows =
     bindr (qualifying_filings filings (upper (strip symbol)) today windows)
       (\<lambda>qualifying. Ok (max_key_first filing_date qualifying))"

definition filing_veto_block ::
  "filing list \<Rightarrow> string \<Rightarrow> int \<Rightarrow> (string \<times> int) list \<Rightarrow> rejection option result" where
  "filing_veto_block filings symbol today windows =
     bindr (blocking_filing filings symbol today windows) (\<lambda>found. case found of
       None \<Rightarrow> Ok None
     | Some f \<Rightarrow> (case map_of windows (category f) of
         None \<Rightarrow> Raise (KeyError (category f))
       | Some w \<Rightarrow> Ok (reject FILING_VETO ([Lit ''Filing veto: '', Lit (upper (strip (f_symbol f))),
           Lit '' filed '', Lit (f_describe f), Lit '' on '', FDate (filing_date f), Lit '' ('']
           @ relative_days (filing_date f) today
           @ [Lit '') - within the '', FInt w, Lit ''-day '', Lit (category f), Lit '' window.'']))))"

definition entry_session_open :: "bool \<Rightarrow> bool \<Rightarrow> bool \<Rightarrow> string \<Rightarrow> rejection option" where
  "entry_session_open is_open is_rth enforce detail =
     (if \<not> is_open then
        reject SESSION_CLOSED [Lit ''Market session closed'',
          Lit (if detail \<noteq> [] then '': '' @ detail else []), Lit ''.'']
      else if enforce \<and> \<not> is_rth then reject SESSION_NOT_RTH (msg ''Outside regular trading hours.'')
      else None)"

definition regime_breakout :: "string option \<Rightarrow> bool \<Rightarrow> rejection option" where
  "regime_breakout strategy breakout_allowed =
     (if (case strategy of None \<Rightarrow> ''NONE'' | Some s \<Rightarrow> upper s) = ''SQUEEZE_BREAKOUT'' \<and> \<not> breakout_allowed
      then reject REGIME_BREAKOUT (msg ''Volatility/macro policy suppresses breakout entries.'')
      else None)"

subsection \<open>Composites\<close>

definition book_gates :: "entry_intent \<Rightarrow> book \<Rightarrow> risk_budget \<Rightarrow> risk_limits \<Rightarrow> rejection list" where
  "book_gates i bk b l = (case exposure_known bk of
     Some unknown \<Rightarrow> [unknown]
   | None \<Rightarrow> all_some
       [drawdown_halt b, aggregate_stop_risk i bk b l, concurrent_positions bk l, same_symbol i bk,
        portfolio_notional i bk l, asset_class_notional i bk l, correlation_group i bk l])"

definition admission_gates ::
  "entry_intent \<Rightarrow> book \<Rightarrow> risk_budget \<Rightarrow> risk_limits \<Rightarrow> pyfloat option \<Rightarrow> rejection option" where
  "admission_gates i bk b l regime_min_rr = first_some
     [exposure_known bk, drawdown_halt b, reward_risk i (required_reward_risk l regime_min_rr),
      per_trade_risk i b, per_trade_notional i l, quantity_cap i l, aggregate_stop_risk i bk b l,
      concurrent_positions bk l, same_symbol i bk, portfolio_notional i bk l,
      asset_class_notional i bk l, correlation_group i bk l]"

subsection \<open>Well-formed inputs\<close>

text \<open>What the constructors guarantee of the objects the rules see.\<close>

definition fin_pos :: "pyfloat \<Rightarrow> bool" where
  "fin_pos x = (isfinite x \<and> 0 < x)"

definition fin_nonneg :: "pyfloat \<Rightarrow> bool" where
  "fin_nonneg x = (isfinite x \<and> 0 \<le> x)"

definition intent_ok :: "entry_intent \<Rightarrow> bool" where
  "intent_ok i = (i_direction i \<in> {LONG, SHORT} \<and> fin_pos (i_quantity i) \<and> fin_pos (i_entry i)
     \<and> fin_pos (i_stop i) \<and> fin_pos (i_target i) \<and> fin_pos (i_multiplier i)
     \<and> (case i_current_price i of None \<Rightarrow> True | Some p \<Rightarrow> fin_pos p)
     \<and> upper (i_asset_class i) = i_asset_class i)"

definition limits_ok :: "risk_limits \<Rightarrow> bool" where
  "limits_ok l = (fin_nonneg (max_risk_pct_cap l) \<and> fin_nonneg (max_trade_notional_cap l)
     \<and> fin_nonneg (max_stop_risk_pct l) \<and> fin_nonneg (max_notional_exposure l)
     \<and> list_all (\<lambda>(k, c). fin_nonneg c) (asset_class_caps l)
     \<and> isfinite (min_risk_reward_ratio l))"

definition budget_ok :: "risk_budget \<Rightarrow> bool" where
  "budget_ok b = (fin_pos (capital b) \<and> fin_nonneg (drawdown_factor b) \<and> fin_pos (macro_factor b)
     \<and> drawdown_factor b \<le> 1 \<and> macro_factor b \<le> 1)"

lemma positive_Ok_iff: "positive n v = Ok x \<longleftrightarrow> v = Some x \<and> fin_pos x"
  by (cases x) (auto simp: positive_def Let_def fin_pos_def zero_pyfloat_def split: option.splits)

lemma mk_entry_intent_ok:
  assumes "mk_entry_intent s d a q e st t m c = Ok i"
  shows "intent_ok i"
  using assms
  by (auto simp: mk_entry_intent_def bindr_Inr_iff positive_Ok_iff intent_ok_def Let_def
      split: option.splits if_splits)

lemma cap_limit_Ok_iff: "cap_limit n v = Ok x \<longleftrightarrow> v = x \<and> fin_nonneg x"
  by (cases v) (auto simp: cap_limit_def fin_nonneg_def zero_pyfloat_def)

lemma ratio_limit_Ok_iff: "ratio_limit n v = Ok x \<longleftrightarrow> v = x \<and> isfinite x"
  by (auto simp: ratio_limit_def)

lemma class_caps_ok: "class_caps xs = Ok cs \<Longrightarrow> list_all (\<lambda>(k, c). fin_nonneg c) cs"
  by (induction xs arbitrary: cs rule: class_caps.induct)
    (auto simp: bindr_Inr_iff cap_limit_Ok_iff)

lemma limits_from_config_ok:
  assumes "limits_from_config cfg = Ok l"
  shows "limits_ok l"
  using assms class_caps_ok
  unfolding limits_from_config_def Let_def
  by (fastforce simp: bindr_Inr_iff cap_limit_Ok_iff ratio_limit_Ok_iff limits_ok_def)

lemma per_trade_risk_budget_ok:
  assumes "per_trade_risk_budget l eq dd mm = Ok b" "policy_ok (dd_policy l)"
  shows "budget_ok b" "dollars b = capital b * max_risk_pct_cap l * drawdown_factor b * macro_factor b"
proof -
  obtain c d m where c: "risk_capital (cash l) eq = Ok c"
    and d: "drawdown_risk_factor dd (dd_policy l) = Ok d" and m: "macro_risk_factor mm = Ok m"
    and b: "b = \<lparr>capital = c, drawdown_pct = dd, drawdown_factor = d, macro_factor = m,
      dollars = c * max_risk_pct_cap l * d * m\<rparr>"
    using assms(1) by (auto simp: per_trade_risk_budget_def bindr_Inr_iff)
  have dd: "isfinite dd" "0 \<le> dd"
    using d by (auto simp: drawdown_risk_factor_def isfinite_iff zero_pyfloat_def)
  have df: "0 \<le> d" "d \<le> 1" using drawdown_factor_spec [OF assms(2) dd] d by auto
  have fin: "isfinite x" if "0 \<le> x" "x \<le> 1" for x using that by (cases x) (auto simp: one_pyfloat_def)
  show "budget_ok b"
    using risk_capital_spec [OF c] df macro_risk_factor_spec [OF m] fin
    by (simp add: b budget_ok_def fin_pos_def fin_nonneg_def)
  show "dollars b = capital b * max_risk_pct_cap l * drawdown_factor b * macro_factor b"
    by (simp add: b)
qed

subsection \<open>The amounts the rules compare are numbers\<close>

lemma fin_pos_amount: "fin_pos x \<Longrightarrow> is_amount x"
  by (simp add: fin_pos_def is_amount_def fless_imp_le)

lemma fin_nonneg_amount: "fin_nonneg x \<Longrightarrow> is_amount x"
  by (simp add: fin_nonneg_def is_amount_def)

lemma risk_distance_not_NaN:
  assumes "intent_ok i"
  shows "risk_distance i \<noteq> NaN" "reward_distance i \<noteq> NaN"
proof -
  have s: "sign i = Num 1 \<or> sign i = Num (-1)" by (simp add: sign_def)
  have "i_entry i - i_stop i \<noteq> NaN" "i_target i - i_entry i \<noteq> NaN"
    using assms fsub_finite_not_NaN by (simp_all add: intent_ok_def fin_pos_def)
  then show "risk_distance i \<noteq> NaN" "reward_distance i \<noteq> NaN"
    using s ftimes_sign_not_NaN by (auto simp: risk_distance_def reward_distance_def)
qed

lemma risk_dollars_amount: "intent_ok i \<Longrightarrow> is_amount (risk_dollars i)"
  unfolding risk_dollars_def using risk_distance_not_NaN [of i]
  by (auto simp: intent_ok_def fin_pos_def intro!: amount_times_pos amount_max_zero)

lemma exposure_price_ok: "intent_ok i \<Longrightarrow> fin_pos (exposure_price i)"
  by (auto simp: exposure_price_def intent_ok_def py_max_def split: option.splits)

lemma notional_amount: "intent_ok i \<Longrightarrow> is_amount (notional i)"
  unfolding notional_def using exposure_price_ok [of i] fin_pos_amount
  by (auto simp: intent_ok_def fin_pos_def intro!: amount_times_pos)

lemma exposure_known_None_iff: "exposure_known bk = None \<longleftrightarrow> (\<forall>p \<in> set (positions bk). bp_valid p)"
  by (auto simp: exposure_known_def invalid_positions_def filter_empty_conv)

lemma bp_valid_amounts:
  "bp_valid p \<Longrightarrow> is_amount (or_zero (bp_notional p)) \<and> is_amount (or_zero (bp_planned_risk p))"
  by (auto simp: bp_valid_def known_amount_def or_zero_def is_amount_def split: option.splits)

lemma book_sums_not_NaN:
  assumes "exposure_known bk = None"
  shows "book_notional bk \<noteq> NaN" "notional_for bk c \<noteq> NaN" "book_planned_risk bk \<noteq> NaN"
  using assms bp_valid_amounts
  by (auto simp: exposure_known_None_iff book_notional_def notional_for_def book_planned_risk_def
      Let_def intro!: py_sum_not_NaN)

text \<open>A compensated sum of amounts is never negative infinity, so adding an amount is a number.\<close>

lemma amount_plus_not_NegInf:
  assumes "is_amount hi" "representable lo" "isfinite lo"
  shows "hi + lo \<noteq> NegInf"
proof (cases hi)
  case (Num h)
  obtain r where [simp]: "lo = Num r" using assms(3) by (auto simp: isfinite_iff)
  have "b64 r \<le> b64 (h + r)" using assms(1) Num by (intro b64_mono) (simp add: is_amount_def)
  then show ?thesis using assms(2) Num by (auto simp: representable_def)
qed (use assms in \<open>auto simp: is_amount_def isfinite_iff\<close>)

lemma cs_loop_not_NegInf:
  assumes "is_amount hi" "\<forall>x \<in> set xs. is_amount x" "representable lo"
  shows "cs_loop hi lo xs \<noteq> NegInf"
  using assms
proof (induction xs arbitrary: hi lo)
  case Nil
  then show ?case using amount_plus_not_NegInf by (auto simp: is_amount_def)
next
  case (Cons x xs)
  then show ?case using amount_plus [of hi x] by (simp add: Let_def)
qed

lemma py_sum_not_NegInf:
  assumes "\<forall>x \<in> set xs. is_amount x"
  shows "py_sum xs \<noteq> NegInf"
proof (cases xs)
  case Nil
  then show ?thesis by (simp add: py_sum_def zero_pyfloat_def)
next
  case (Cons x ys)
  have "representable 0" by (simp add: representable_def zero_pyfloat_def)
  with Cons show ?thesis using assms amount_plus [of 0 x] cs_loop_not_NegInf [of "0 + x" ys 0]
    by (simp add: py_sum_def)
qed

lemma plus_amount_not_NaN: "x \<noteq> NaN \<Longrightarrow> x \<noteq> NegInf \<Longrightarrow> is_amount y \<Longrightarrow> x + y \<noteq> NaN"
  by (cases x; cases y) (auto simp: is_amount_def)

lemma totals_not_NaN:
  assumes "exposure_known bk = None" "intent_ok i"
  shows "book_notional bk + notional i \<noteq> NaN"
    "notional_for bk c + notional i \<noteq> NaN"
    "book_planned_risk bk + risk_dollars i \<noteq> NaN"
proof -
  have "book_notional bk \<noteq> NegInf" "notional_for bk c \<noteq> NegInf" "book_planned_risk bk \<noteq> NegInf"
    using assms(1) bp_valid_amounts
    by (auto simp: exposure_known_None_iff book_notional_def notional_for_def book_planned_risk_def
        Let_def intro!: py_sum_not_NegInf)
  with book_sums_not_NaN [OF assms(1)] notional_amount [OF assms(2)] risk_dollars_amount [OF assms(2)]
  show "book_notional bk + notional i \<noteq> NaN" "notional_for bk c + notional i \<noteq> NaN"
    "book_planned_risk bk + risk_dollars i \<noteq> NaN"
    using plus_amount_not_NaN by simp_all
qed

lemma budget_products_amount:
  assumes "budget_ok b" "fin_nonneg r" "drawdown_factor b \<noteq> 0"
  shows "is_amount (capital b * r * drawdown_factor b)"
    "is_amount (capital b * r * drawdown_factor b * macro_factor b)"
proof -
  have c: "is_amount (capital b)" "isfinite (capital b)" and r: "is_amount r" "isfinite r"
    using assms fin_pos_amount fin_nonneg_amount
    by (simp_all add: budget_ok_def fin_pos_def fin_nonneg_def)
  have "0 < drawdown_factor b" "isfinite (drawdown_factor b)"
    using assms by (cases "drawdown_factor b"; auto simp: budget_ok_def fin_nonneg_def zero_pyfloat_def)+
  then show 1: "is_amount (capital b * r * drawdown_factor b)"
    using amount_times_pos amount_times_fin [OF c r] by blast
  show "is_amount (capital b * r * drawdown_factor b * macro_factor b)"
    using amount_times_pos [OF 1] assms(1) by (simp add: budget_ok_def fin_pos_def)
qed

subsection \<open>What admission promises\<close>

text \<open>
  The positive specification: every amount within its limit, in the terms of the intent, the
  book, the budget and the limits, with no reference to the gates or their order.
\<close>

definition within_groups :: "entry_intent \<Rightarrow> book \<Rightarrow> risk_limits \<Rightarrow> bool" where
  "within_groups i bk l = list_all (\<lambda>(g, keys). intent_key i \<in> set keys \<longrightarrow>
     int (length (filter (\<lambda>p. bp_key p \<in> set keys \<and> bp_direction p = upper (i_direction i)) (positions bk)))
       < max_correlated_positions l) (correlation_groups l)"

definition within_book :: "entry_intent \<Rightarrow> book \<Rightarrow> risk_budget \<Rightarrow> risk_limits \<Rightarrow> bool" where
  "within_book i bk b l =
     (list_all bp_valid (positions bk)
      \<and> 0 < drawdown_factor b
      \<and> book_planned_risk bk + risk_dollars i \<le> capital b * max_stop_risk_pct l * drawdown_factor b
      \<and> book_count bk < max_concurrent_positions l
      \<and> list_all (\<lambda>p. bp_key p \<noteq> intent_key i) (positions bk)
      \<and> book_notional bk + notional i \<le> max_notional_exposure l
      \<and> (case map_of (asset_class_caps l) (i_asset_class i) of None \<Rightarrow> True
         | Some cap \<Rightarrow> notional_for bk (i_asset_class i) + notional i \<le> cap)
      \<and> within_groups i bk l)"

definition within_trade :: "entry_intent \<Rightarrow> risk_budget \<Rightarrow> risk_limits \<Rightarrow> pyfloat \<Rightarrow> bool" where
  "within_trade i b l required =
     (0 < risk_distance i \<and> required \<le> py_round 2 (quot (reward_distance i) (risk_distance i))
      \<and> risk_dollars i \<le> dollars b
      \<and> notional i \<le> max_trade_notional_cap l
      \<and> \<not> float_gt_int (i_quantity i) (if i_asset_class i = FUTURES
            then max_contracts_per_trade l else max_shares_per_trade l))"

lemma correlation_loop_None_iff:
  "correlation_loop i bk l gs = None \<longleftrightarrow> list_all (\<lambda>(g, keys). intent_key i \<in> set keys \<longrightarrow>
     int (length (filter (\<lambda>p. bp_key p \<in> set keys \<and> bp_direction p = upper (i_direction i)) (positions bk)))
       < max_correlated_positions l) gs"
  by (induction i bk l gs rule: correlation_loop.induct)
    (auto simp: group_rejection_def same_direction_in_def Let_def split: option.splits if_splits)

lemma same_symbol_None_iff:
  "same_symbol i bk = None \<longleftrightarrow> list_all (\<lambda>p. bp_key p \<noteq> intent_key i) (positions bk)"
  by (auto simp: same_symbol_def holds_def intent_key_def Let_def list_ex_iff list_all_iff)

lemma drawdown_halt_None_iff: "budget_ok b \<Longrightarrow> drawdown_halt b = None \<longleftrightarrow> 0 < drawdown_factor b"
  by (cases "drawdown_factor b")
    (auto simp: drawdown_halt_def feq_def budget_ok_def fin_nonneg_def zero_pyfloat_def)

lemma reward_risk_None_iff:
  "intent_ok i \<Longrightarrow> reward_risk i required = None \<longleftrightarrow>
     0 < risk_distance i \<and> required \<le> py_round 2 (quot (reward_distance i) (risk_distance i))"
  using risk_distance_not_NaN [of i]
  by (cases "risk_distance i") (auto simp: reward_risk_def meets_min_reward_risk_def Let_def zero_pyfloat_def)

lemma le_iff_not_less: "a \<noteq> NaN \<Longrightarrow> b \<noteq> NaN \<Longrightarrow> (a :: pyfloat) \<le> b \<longleftrightarrow> \<not> b < a"
  using fnot_less by blast

lemma class_cap_not_NaN:
  "limits_ok l \<Longrightarrow> map_of (asset_class_caps l) c = Some cap \<Longrightarrow> cap \<noteq> NaN"
  by (auto simp: limits_ok_def list_all_iff fin_nonneg_def dest!: map_of_SomeD)

lemma limits_not_NaN:
  "limits_ok l \<Longrightarrow> max_trade_notional_cap l \<noteq> NaN \<and> max_notional_exposure l \<noteq> NaN"
  by (auto simp: limits_ok_def fin_nonneg_def)

lemma within_book_iff_gates:
  assumes "intent_ok i" "limits_ok l" "budget_ok b"
  shows "within_book i bk b l \<longleftrightarrow> exposure_known bk = None \<and> drawdown_halt b = None
    \<and> aggregate_stop_risk i bk b l = None \<and> concurrent_positions bk l = None
    \<and> same_symbol i bk = None \<and> portfolio_notional i bk l = None
    \<and> asset_class_notional i bk l = None \<and> correlation_group i bk l = None"
proof (cases "exposure_known bk = None \<and> drawdown_halt b = None")
  case True
  then have e: "exposure_known bk = None" and d: "0 < drawdown_factor b"
    using drawdown_halt_None_iff [OF assms(3)] by auto
  note nan = totals_not_NaN [OF e assms(1)]
  have "is_amount (capital b * max_stop_risk_pct l * drawdown_factor b)"
    using budget_products_amount(1) [OF assms(3)] assms(2) d
    by (simp add: limits_ok_def zero_pyfloat_def) (metis less_pyfloat.simps(1) less_irrefl)
  then have agg: "aggregate_stop_risk i bk b l = None \<longleftrightarrow>
      book_planned_risk bk + risk_dollars i \<le> capital b * max_stop_risk_pct l * drawdown_factor b"
    using le_iff_not_less [OF nan(3) amount_not_NaN] by (simp add: aggregate_stop_risk_def)
  have port: "portfolio_notional i bk l = None \<longleftrightarrow> book_notional bk + notional i \<le> max_notional_exposure l"
    using le_iff_not_less [OF nan(1)] limits_not_NaN [OF assms(2)]
    by (simp add: portfolio_notional_def Let_def)
  have cls: "asset_class_notional i bk l = None \<longleftrightarrow>
      (case map_of (asset_class_caps l) (i_asset_class i) of None \<Rightarrow> True
         | Some cap \<Rightarrow> notional_for bk (i_asset_class i) + notional i \<le> cap)"
    using le_iff_not_less [OF nan(2)] class_cap_not_NaN [OF assms(2)]
    by (auto simp: asset_class_notional_def Let_def split: option.splits)
  have conc: "concurrent_positions bk l = None \<longleftrightarrow> book_count bk < max_concurrent_positions l"
    by (simp add: concurrent_positions_def not_le)
  show ?thesis
    using True d e agg port cls conc same_symbol_None_iff [of i bk]
      correlation_loop_None_iff [of i bk l "correlation_groups l"]
    by (simp add: within_book_def within_groups_def correlation_group_def exposure_known_None_iff list_all_iff)
next
  case False
  then show ?thesis using drawdown_halt_None_iff [OF assms(3)]
    by (auto simp: within_book_def exposure_known_None_iff list_all_iff)
qed

lemma within_trade_iff_gates:
  assumes "intent_ok i" "limits_ok l" "dollars b \<noteq> NaN"
  shows "within_trade i b l required \<longleftrightarrow> reward_risk i required = None \<and> per_trade_risk i b = None
    \<and> per_trade_notional i l = None \<and> quantity_cap i l = None"
proof -
  have "per_trade_risk i b = None \<longleftrightarrow> risk_dollars i \<le> dollars b"
    using le_iff_not_less [OF amount_not_NaN [OF risk_dollars_amount [OF assms(1)]] assms(3)]
    by (simp add: per_trade_risk_def)
  moreover have "per_trade_notional i l = None \<longleftrightarrow> notional i \<le> max_trade_notional_cap l"
    using le_iff_not_less [OF amount_not_NaN [OF notional_amount [OF assms(1)]]] limits_not_NaN [OF assms(2)]
    by (simp add: per_trade_notional_def)
  moreover have "quantity_cap i l = None \<longleftrightarrow> \<not> float_gt_int (i_quantity i)
      (if i_asset_class i = FUTURES then max_contracts_per_trade l else max_shares_per_trade l)"
    by (simp add: quantity_cap_def Let_def)
  ultimately show ?thesis
    using reward_risk_None_iff [OF assms(1)] by (auto simp: within_trade_def)
qed

lemma book_gates_Nil_iff:
  "book_gates i bk b l = [] \<longleftrightarrow> exposure_known bk = None \<and> drawdown_halt b = None
    \<and> aggregate_stop_risk i bk b l = None \<and> concurrent_positions bk l = None
    \<and> same_symbol i bk = None \<and> portfolio_notional i bk l = None
    \<and> asset_class_notional i bk l = None \<and> correlation_group i bk l = None"
  by (cases "exposure_known bk") (auto simp: book_gates_def all_some_Nil_iff first_some_None_iff)

lemma admission_gates_None_iff:
  "admission_gates i bk b l r = None \<longleftrightarrow> book_gates i bk b l = []
    \<and> reward_risk i (required_reward_risk l r) = None \<and> per_trade_risk i b = None
    \<and> per_trade_notional i l = None \<and> quantity_cap i l = None"
  by (auto simp: admission_gates_def first_some_None_iff book_gates_Nil_iff)

subsection \<open>A concrete desk for the witnesses\<close>

definition demo_config :: app_config where
  "demo_config = \<lparr>c_portfolio = \<lparr>p_cash = Num 100000, p_max_stop_risk_pct = Num (1/32),
       p_max_notional_exposure = Num 60000, p_max_concurrent_positions = 4,
       p_max_futures_exposure = Some (Num 40000), p_max_equity_exposure = Some (Num 40000),
       p_max_crypto_exposure = Some (Num 20000), p_max_correlated_positions = 1,
       p_correlation_groups = [(''index'', [''SPY'', ''QQQ''])]\<rparr>,
     c_sizing = \<lparr>s_max_contracts_per_trade = 4, s_max_shares_per_trade = 500,
       s_max_risk_pct_cap = Num (1/64), s_max_trade_notional_cap = Num 30000,
       s_drawdown = demo_policy\<rparr>,
     c_risk = \<lparr>r_min_risk_reward_ratio = Num 2, r_lockout_pre_event_minutes = 60,
       r_lockout_post_event_minutes = 30, r_earnings_blackout_days = 7,
       r_macro_calendar_unknown = ''closed''\<rparr>,
     c_execution = \<lparr>entry_queue_max_age_seconds = Num 900, signal_max_age_seconds = Num 14400,
       entry_evidence_max_age_seconds = Num 15, entry_quote_max_age_seconds = Num 15,
       entry_max_price_drift_pct = Num (1/64), entry_preflight_lease_seconds = 60,
       account_risk_max_age_seconds = Num 180, native_entry_lifetime = ''session''\<rparr>,
     execution_mode = ALPACA, contracts = [], session_enforce_rth = True\<rparr>"

definition demo_intent :: entry_intent where
  "demo_intent = \<lparr>i_symbol = ''SPY'', i_direction = LONG, i_asset_class = EQUITY, i_quantity = Num 10,
     i_entry = Num 400, i_stop = Num 390, i_target = Num 430, i_multiplier = Num 1,
     i_current_price = None\<rparr>"

definition demo_position :: book_position where
  "demo_position = \<lparr>bp_symbol = ''AAPL'', bp_direction = LONG, bp_asset_class = EQUITY,
     bp_notional = Some (Num 8000), bp_planned_risk = Some (Num 200), reservation = False\<rparr>"

lemmas demo_defs = demo_config_def demo_intent_def demo_position_def demo_limits_def demo_budget_def
  demo_policy_def

lemma cap_int_small: "0 \<le> n \<Longrightarrow> n < 2 ^ 53 \<Longrightarrow> cap_int name n = Ok n"
  using b64_int [of n]
  by (simp add: cap_int_def float_of_int_def cap_limit_def int_of_float_def trunc_def zero_pyfloat_def)

lemma demo_limits_eq: "limits_from_config demo_config = Ok demo_limits"
  by (simp add: limits_from_config_def demo_defs cap_int_small cap_limit_def ratio_limit_def
      zero_pyfloat_def normalize_symbol_def str_eval)

lemma demo_intent_eq:
  "mk_entry_intent ''spy'' ''long'' ''equity'' (Some (Num 10)) (Some (Num 400)) (Some (Num 390))
     (Some (Num 430)) (Some (Num 1)) None = Ok (demo_intent\<lparr>i_symbol := ''spy''\<rparr>)"
  by (simp add: mk_entry_intent_def demo_intent_def positive_Ok_iff positive_def fin_pos_def
      str_eval zero_pyfloat_def)

subsection \<open>Claims\<close>

lemma admission_verdict:
  assumes "mk_entry_intent s d a q e st t m c = Ok i"
    and "limits_from_config cfg = Ok l" and "policy_ok (dd_policy l)"
    and "per_trade_risk_budget l eq dd mm = Ok b"
  shows "admission_gates i bk b l r = None \<longleftrightarrow>
    within_book i bk b l \<and> within_trade i b l (required_reward_risk l r)"
proof -
  have i: "intent_ok i" using assms(1) by (rule mk_entry_intent_ok)
  have l: "limits_ok l" using assms(2) by (rule limits_from_config_ok)
  note b = per_trade_risk_budget_ok [OF assms(4,3)]
  show ?thesis
  proof (cases "drawdown_factor b = 0")
    case True
    then have "\<not> within_book i bk b l" by (simp add: within_book_def zero_pyfloat_def)
    moreover have "drawdown_halt b \<noteq> None" using True by (simp add: drawdown_halt_def feq_def)
    ultimately show ?thesis by (simp add: admission_gates_None_iff book_gates_Nil_iff)
  next
    case False
    then have "dollars b \<noteq> NaN"
      using budget_products_amount(2) [OF b(1)] l amount_not_NaN unfolding b(2)
      by (metis limits_ok_def)
    then show ?thesis
      using within_book_iff_gates [OF i l b(1)] within_trade_iff_gates [OF i l]
      by (auto simp: admission_gates_None_iff book_gates_Nil_iff)
  qed
qed

text \<open>
  C17. The twelve ordered admission gates decide exactly the positive specification: for an
  intent, limits and a budget built by their constructors, admission passes if and only if
  every position's exposure is known, the drawdown has not halted sizing, the bracket meets
  the required reward/risk, and the trade's risk, notional and quantity, the aggregate stop
  risk, the position count, the symbol, the portfolio and class notional and the correlation
  groups are all within their limits. In particular no comparison is decided by a NaN.
\<close>

theorem admission_gates_correct:
  assumes "mk_entry_intent s d a q e st t m c = Ok i"
    and "limits_from_config cfg = Ok l" and "policy_ok (dd_policy l)"
    and "per_trade_risk_budget l eq dd mm = Ok b"
  shows "admission_gates i bk b l r = None \<longleftrightarrow>
    within_book i bk b l \<and> within_trade i b l (required_reward_risk l r)"
  by (rule admission_verdict [OF assms])

text \<open>What evaluates the gates on a concrete trade.\<close>

lemmas gate_eval = admission_gates_None_iff book_gates_Nil_iff exposure_known_def invalid_positions_def
  bp_valid_def known_amount_def demo_defs drawdown_halt_def feq_def zero_pyfloat_def one_pyfloat_def
  aggregate_stop_risk_def book_planned_risk_def py_sum_def or_zero_def risk_dollars_def
  risk_distance_def reward_distance_def sign_def minus_pyfloat_def py_max_def
  concurrent_positions_def book_count_def same_symbol_def holds_def bp_key_def intent_key_def
  normalize_symbol_def portfolio_notional_def book_notional_def notional_def exposure_price_def
  asset_class_notional_def notional_for_def correlation_group_def group_rejection_def
  same_direction_in_def reward_risk_def meets_min_reward_risk_def required_reward_risk_def quot_def
  py_round_def rhe_def per_trade_risk_def per_trade_notional_def quantity_cap_def float_gt_int_def
  str_eval

lemma demo_admitted:
  "admission_gates (demo_intent\<lparr>i_symbol := ''spy''\<rparr>) \<lparr>positions = [demo_position]\<rparr> demo_budget
     demo_limits None = None"
  by (simp add: gate_eval)

theorem admission_gates_correct_witness:
  "within_trade (demo_intent\<lparr>i_symbol := ''spy''\<rparr>) demo_budget demo_limits (Num 2)
     \<and> within_book (demo_intent\<lparr>i_symbol := ''spy''\<rparr>) \<lparr>positions = [demo_position]\<rparr> demo_budget demo_limits"
proof -
  have "policy_ok (dd_policy demo_limits)" using demo_policy_ok by (simp add: demo_limits_def)
  moreover have "required_reward_risk demo_limits None = Num 2"
    by (simp add: required_reward_risk_def demo_limits_def)
  ultimately show ?thesis
    using admission_gates_correct [OF demo_intent_eq demo_limits_eq _ demo_budget_eq] demo_admitted
    by metis
qed

text \<open>
  The scan and admission agree: when the trade-level gates pass, admission reports exactly
  the first rejection of the scan's book gates on the same book, and admits exactly when the
  scan's gates are empty. An order admission lets through was never refusable at the scan.
\<close>

theorem admission_first_book_rejection:
  assumes "reward_risk i (required_reward_risk l r) = None" "per_trade_risk i b = None"
    "per_trade_notional i l = None" "quantity_cap i l = None"
  shows "admission_gates i bk b l r = (case book_gates i bk b l of [] \<Rightarrow> None | x # _ \<Rightarrow> Some x)"
proof (cases "exposure_known bk")
  case None
  have "admission_gates i bk b l r = first_some
     [drawdown_halt b, aggregate_stop_risk i bk b l, concurrent_positions bk l, same_symbol i bk,
      portfolio_notional i bk l, asset_class_notional i bk l, correlation_group i bk l]"
    using assms None by (cases "drawdown_halt b") (simp_all add: admission_gates_def)
  with None show ?thesis by (simp add: book_gates_def first_some_hd_all_some)
next
  case (Some x)
  then show ?thesis by (simp add: admission_gates_def book_gates_def)
qed

theorem admission_first_book_rejection_witness:
  "admission_gates demo_intent \<lparr>positions = [demo_position\<lparr>bp_notional := None\<rparr>]\<rparr> demo_budget demo_limits None
     = (case book_gates demo_intent \<lparr>positions = [demo_position\<lparr>bp_notional := None\<rparr>]\<rparr> demo_budget demo_limits
        of [] \<Rightarrow> None | x # _ \<Rightarrow> Some x)"
  by (rule admission_first_book_rejection)
    (simp_all add: demo_defs zero_pyfloat_def one_pyfloat_def risk_dollars_def
      risk_distance_def reward_distance_def sign_def minus_pyfloat_def py_max_def
      notional_def exposure_price_def reward_risk_def meets_min_reward_risk_def
      required_reward_risk_def quot_def py_round_def rhe_def per_trade_risk_def per_trade_notional_def
      quantity_cap_def float_gt_int_def)

text \<open>
  The books a desk can reach: it starts empty, admits intents one by one (each against the
  limits and whatever budget and regime threshold were observed), and drops positions.
\<close>

definition held_position :: "entry_intent \<Rightarrow> bool \<Rightarrow> book_position" where
  "held_position i res = \<lparr>bp_symbol = i_symbol i, bp_direction = i_direction i,
     bp_asset_class = i_asset_class i, bp_notional = Some (notional i),
     bp_planned_risk = Some (risk_dollars i), reservation = res\<rparr>"

inductive desk :: "risk_limits \<Rightarrow> book \<Rightarrow> bool" for l :: risk_limits where
  start: "desk l \<lparr>positions = []\<rparr>"
| admit: "desk l bk \<Longrightarrow> intent_ok i \<Longrightarrow> admission_gates i bk b l r = None
    \<Longrightarrow> desk l (with_position bk (held_position i res))"
| drop: "desk l bk \<Longrightarrow> desk l \<lparr>positions = filter keep (positions bk)\<rparr>"

definition in_group :: "string list \<Rightarrow> string \<Rightarrow> book_position \<Rightarrow> bool" where
  "in_group keys d p = (bp_key p \<in> set keys \<and> bp_direction p = d)"

definition book_inv :: "risk_limits \<Rightarrow> book \<Rightarrow> bool" where
  "book_inv l bk = (distinct (map bp_key (positions bk))
     \<and> book_count bk \<le> max_concurrent_positions l
     \<and> (\<forall>(g, keys) \<in> set (correlation_groups l). \<forall>d.
          int (length (filter (in_group keys d) (positions bk))) \<le> max_correlated_positions l))"

lemma length_filter_filter: "int (length (filter P (filter Q xs))) \<le> int (length (filter P xs))"
  by (induction xs) auto

lemma book_inv_filter:
  assumes "book_inv l bk"
  shows "book_inv l \<lparr>positions = filter keep (positions bk)\<rparr>"
proof -
  have "int (length (filter (in_group keys d) (filter keep (positions bk)))) \<le> max_correlated_positions l"
    if "(g, keys) \<in> set (correlation_groups l)" for g keys d
  proof -
    have "int (length (filter (in_group keys d) (positions bk))) \<le> max_correlated_positions l"
      using assms that by (auto simp: book_inv_def)
    then show ?thesis using length_filter_filter order_trans by blast
  qed
  moreover have "int (length (filter keep (positions bk))) \<le> max_concurrent_positions l"
    using assms of_nat_mono [OF length_filter_le [of keep "positions bk"], where ?'a = int]
    unfolding book_inv_def book_count_def by linarith
  moreover have "distinct (map bp_key (filter keep (positions bk)))"
    using assms by (simp add: book_inv_def distinct_map_filter)
  ultimately show ?thesis by (auto simp: book_inv_def book_count_def simp del: filter_filter)
qed

lemma book_inv_admit:
  assumes inv: "book_inv l bk" and i: "intent_ok i" and adm: "admission_gates i bk b l r = None"
  shows "book_inv l (with_position bk (held_position i res))"
proof -
  have key: "bp_key (held_position i res) = intent_key i"
    by (simp add: held_position_def bp_key_def intent_key_def)
  have none: "concurrent_positions bk l = None" "same_symbol i bk = None" "correlation_group i bk l = None"
    using adm by (simp_all add: admission_gates_None_iff book_gates_Nil_iff)
  have up: "upper (i_direction i) = i_direction i"
    using i by (auto simp: intent_ok_def str_eval)
  have "book_count bk < max_concurrent_positions l"
    using none(1) by (simp add: concurrent_positions_def split: if_splits)
  moreover have "intent_key i \<notin> set (map bp_key (positions bk))"
    using none(2) by (auto simp: same_symbol_None_iff list_all_iff)
  moreover have "int (length (filter (in_group keys d) (positions bk @ [held_position i res])))
      \<le> max_correlated_positions l"
    if g: "(g, keys) \<in> set (correlation_groups l)" for g keys d
  proof (cases "in_group keys d (held_position i res)")
    case False
    then show ?thesis using inv g by (auto simp: book_inv_def)
  next
    case True
    then have "intent_key i \<in> set keys" "d = i_direction i"
      using key by (simp_all add: in_group_def) (simp add: held_position_def)
    then have "int (length (filter (in_group keys d) (positions bk))) < max_correlated_positions l"
      using none(3) g up by (auto simp: correlation_group_def correlation_loop_None_iff list_all_iff
          in_group_def [abs_def])
    with True show ?thesis by simp
  qed
  ultimately show ?thesis
    using inv key unfolding book_inv_def
    by (auto simp: with_position_def book_count_def simp del: filter_append filter.simps)
qed

text \<open>
  C31. Invariant of the book: whatever intents are admitted and whatever positions are dropped,
  a book grown through admission never holds one instrument twice, never exceeds the maximum
  number of concurrent positions, and never holds more same-direction members of a correlation
  group than configured.
\<close>

theorem desk_book_invariant:
  assumes "desk l bk" "0 \<le> max_concurrent_positions l" "0 \<le> max_correlated_positions l"
  shows "distinct (map bp_key (positions bk))
    \<and> book_count bk \<le> max_concurrent_positions l
    \<and> (\<forall>(g, keys) \<in> set (correlation_groups l). \<forall>d.
         int (length (filter (in_group keys d) (positions bk))) \<le> max_correlated_positions l)"
proof -
  have "book_inv l bk"
    using assms(1)
  proof (induction rule: desk.induct)
    case start
    then show ?case using assms(2,3) by (auto simp: book_inv_def book_count_def)
  next
    case (admit bk i b r res)
    then show ?case by (intro book_inv_admit)
  next
    case (drop bk keep)
    then show ?case by (intro book_inv_filter)
  qed
  then show ?thesis unfolding book_inv_def .
qed

theorem desk_book_invariant_witness:
  "distinct (map bp_key (positions (with_position \<lparr>positions = []\<rparr> (held_position demo_intent True))))"
proof -
  have "admission_gates demo_intent \<lparr>positions = []\<rparr> demo_budget demo_limits None = None"
    by (simp add: admission_gates_None_iff book_gates_Nil_iff exposure_known_def invalid_positions_def
      demo_defs drawdown_halt_def feq_def zero_pyfloat_def one_pyfloat_def
      aggregate_stop_risk_def book_planned_risk_def py_sum_def risk_dollars_def
      risk_distance_def reward_distance_def sign_def minus_pyfloat_def py_max_def
      concurrent_positions_def book_count_def same_symbol_def holds_def intent_key_def
      normalize_symbol_def portfolio_notional_def book_notional_def notional_def exposure_price_def
      asset_class_notional_def notional_for_def correlation_group_def group_rejection_def
      same_direction_in_def reward_risk_def meets_min_reward_risk_def required_reward_risk_def quot_def
      py_round_def rhe_def per_trade_risk_def per_trade_notional_def quantity_cap_def float_gt_int_def
      str_eval)
  moreover have "intent_ok demo_intent"
    by (simp add: intent_ok_def demo_intent_def fin_pos_def str_eval)
  ultimately have "desk demo_limits (with_position \<lparr>positions = []\<rparr> (held_position demo_intent True))"
    by (intro desk.admit [OF desk.start])
  then show ?thesis
    by (rule desk_book_invariant [THEN conjunct1]) (simp_all add: demo_limits_def)
qed

lemma find_sorted_min:
  assumes "sorted (map k xs)" "find P xs = Some x" "y \<in> set xs" "P y"
  shows "(k x :: int) \<le> k y"
  using assms by (induction xs) (auto split: if_splits)

text \<open>
  The corporate-action veto blocks on the earliest structural action: the action returned is
  structural, on the wanted symbol, inside the inclusive window around today, and no structural
  action of the symbol in the window is earlier; nothing is returned exactly when there is none.
  The order of the captured actions does not matter for its date.
\<close>

theorem blocking_corporate_action_earliest:
  "case blocking_corporate_action actions symbol today pre post of
     None \<Rightarrow> \<not> (\<exists>a \<in> set actions. is_structural a \<and> upper (ca_symbol a) = upper (strip symbol)
       \<and> today - post \<le> effective_on a \<and> effective_on a \<le> today + pre)
   | Some a \<Rightarrow> a \<in> set actions \<and> is_structural a \<and> upper (ca_symbol a) = upper (strip symbol)
       \<and> today - post \<le> effective_on a \<and> effective_on a \<le> today + pre
       \<and> (\<forall>x \<in> set actions. is_structural x \<and> upper (ca_symbol x) = upper (strip symbol)
            \<and> today - post \<le> effective_on x \<and> effective_on x \<le> today + pre
            \<longrightarrow> effective_on a \<le> effective_on x)"
proof -
  define w where "w = sort_key effective_on (filter (\<lambda>a. upper (ca_symbol a) = upper (strip symbol)
    \<and> today - post \<le> effective_on a \<and> effective_on a \<le> today + pre) actions)"
  have b: "blocking_corporate_action actions symbol today pre post = find is_structural w"
    by (simp add: blocking_corporate_action_def w_def Let_def)
  have sorted: "sorted (map effective_on w)" by (simp add: w_def)
  have mem: "a \<in> set w \<longleftrightarrow> a \<in> set actions \<and> upper (ca_symbol a) = upper (strip symbol)
    \<and> today - post \<le> effective_on a \<and> effective_on a \<le> today + pre" for a
    by (simp add: w_def)
  show ?thesis
  proof (cases "find is_structural w")
    case None
    then have "\<forall>x \<in> set w. \<not> is_structural x" by (auto simp: find_None_iff)
    then show ?thesis unfolding b None using mem by auto
  next
    case (Some a)
    then have "a \<in> set w" "is_structural a" using find_Some_props [of is_structural w a] by auto
    moreover have "\<forall>x \<in> set w. is_structural x \<longrightarrow> effective_on a \<le> effective_on x"
      using find_sorted_min [OF sorted Some] by blast
    ultimately show ?thesis unfolding b Some using mem by auto
  qed
qed

theorem blocking_corporate_action_earliest_witness:
  "\<exists>a. blocking_corporate_action
     [\<lparr>ca_symbol = ''aapl'', effective_on = 12, is_structural = True, ca_describe = ''split''\<rparr>,
      \<lparr>ca_symbol = ''AAPL'', effective_on = 10, is_structural = True, ca_describe = ''merger''\<rparr>,
      \<lparr>ca_symbol = ''AAPL'', effective_on = 9, is_structural = False, ca_describe = ''dividend''\<rparr>]
     ''AAPL'' 10 5 1 = Some a \<and> effective_on a \<le> 12"
  (is "\<exists>a. blocking_corporate_action ?xs ?s 10 5 1 = _ \<and> _")
proof -
  have "blocking_corporate_action ?xs ?s 10 5 1
      = Some \<lparr>ca_symbol = ''AAPL'', effective_on = 10, is_structural = True, ca_describe = ''merger''\<rparr>"
    by (simp add: blocking_corporate_action_def str_eval)
  then show ?thesis
    using blocking_corporate_action_earliest [of ?xs ?s 10 5 1] by (simp add: str_eval)
qed

lemma max_key_first_None [simp]: "max_key_first k xs = None \<longleftrightarrow> xs = []"
  by (cases xs) (auto split: option.splits if_splits)

lemma max_key_first_spec:
  "max_key_first k xs = Some x \<Longrightarrow> x \<in> set xs \<and> (\<forall>y \<in> set xs. k y \<le> k x)"
proof (induction xs arbitrary: x)
  case (Cons a xs)
  show ?case
  proof (cases "max_key_first k xs")
    case None
    with Cons.prems show ?thesis by simp
  next
    case (Some y)
    from Cons.IH [OF Some] Some Cons.prems show ?thesis by (fastforce split: if_splits)
  qed
qed simp

lemma qualifying_filings_set:
  "qualifying_filings fs wanted today windows = Ok qs \<Longrightarrow>
   set qs = {f \<in> set fs. upper (strip (f_symbol f)) = wanted \<and> filing_date f \<le> today
     \<and> (\<exists>w. map_of windows (category f) = Some w \<and> today - filing_date f \<le> w)}"
proof (induction fs arbitrary: qs)
  case (Cons f fs)
  then show ?case
    by (cases "upper (strip (f_symbol f)) = wanted \<and> 0 \<le> today - filing_date f")
      (fastforce simp: bindr_Inr_iff split: option.splits if_splits)+
qed simp

lemma qualifying_filings_total:
  "list_all (\<lambda>f. map_of windows (category f) \<noteq> None) fs \<Longrightarrow>
   \<exists>qs. qualifying_filings fs wanted today windows = Ok qs"
  by (induction fs) (auto split: option.splits)

text \<open>
  The filing veto: when every captured category has a configured window the veto always
  gives a verdict (no lookup fails), and it blocks exactly when some filing of the symbol dated
  on or before today is still inside its own category's window; the filing it names is a newest
  such one. A filing dated after today never blocks.
\<close>

theorem filing_veto_block_verdict:
  assumes "list_all (\<lambda>f. map_of windows (category f) \<noteq> None) filings"
  shows "\<exists>v found. filing_veto_block filings symbol today windows = Ok v
    \<and> blocking_filing filings symbol today windows = Ok found
    \<and> (v = None \<longleftrightarrow> found = None)
    \<and> (found = None \<longleftrightarrow> \<not> (\<exists>f \<in> set filings. upper (strip (f_symbol f)) = upper (strip symbol)
         \<and> filing_date f \<le> today \<and> today - filing_date f \<le> the (map_of windows (category f))))
    \<and> (\<forall>f. found = Some f \<longrightarrow> f \<in> set filings \<and> filing_date f \<le> today
         \<and> (\<forall>g \<in> set filings. upper (strip (f_symbol g)) = upper (strip symbol) \<and> filing_date g \<le> today
              \<and> today - filing_date g \<le> the (map_of windows (category g)) \<longrightarrow> filing_date g \<le> filing_date f))"
proof -
  obtain qs where qs: "qualifying_filings filings (upper (strip symbol)) today windows = Ok qs"
    using qualifying_filings_total [OF assms] by blast
  have w: "\<exists>w. map_of windows (category f) = Some w" if "f \<in> set filings" for f
    using assms that by (auto simp: list_all_iff)
  have mem: "f \<in> set qs \<longleftrightarrow> f \<in> set filings \<and> upper (strip (f_symbol f)) = upper (strip symbol)
      \<and> filing_date f \<le> today \<and> today - filing_date f \<le> the (map_of windows (category f))" for f
    using qualifying_filings_set [OF qs] w by force
  define found where "found = max_key_first filing_date qs"
  have b: "blocking_filing filings symbol today windows = Ok found"
    by (simp add: blocking_filing_def qs found_def)
  show ?thesis
  proof (cases found)
    case None
    then have "qs = []" by (simp add: found_def)
    then have "\<forall>f. f \<notin> set qs" by simp
    then show ?thesis using b None mem by (auto simp: filing_veto_block_def)
  next
    case (Some f)
    then have f: "f \<in> set qs" "\<forall>y \<in> set qs. filing_date y \<le> filing_date f"
      using max_key_first_spec [of filing_date qs f] by (auto simp: found_def)
    then have "\<exists>v. filing_veto_block filings symbol today windows = Ok (Some v)"
      using b Some w [of f] mem by (auto simp: filing_veto_block_def)
    then show ?thesis using b Some f mem by auto
  qed
qed

theorem filing_veto_block_verdict_witness:
  "\<exists>v. filing_veto_block
     [\<lparr>f_symbol = ''AAPL'', category = ''offering'', filing_date = 97, f_describe = ''424B5''\<rparr>]
     ''aapl'' 100 [(''offering'', 5)] = Ok (Some v)"
  (is "\<exists>v. filing_veto_block ?fs ?s 100 ?w = _")
proof -
  have "list_all (\<lambda>f. map_of ?w (category f) \<noteq> None) ?fs" by simp
  from filing_veto_block_verdict [OF this, of ?s 100] show ?thesis
    by (auto simp: str_eval)
qed

text \<open>
  The macro lockout fails closed: with an unverified calendar under the closed policy every
  entry is refused whatever the event; otherwise an entry is refused exactly when there is an
  event and now lies in the inclusive window of the configured minutes around it.
\<close>

theorem macro_lockout_iff:
  "(macro_lockout title event_at now l verified status \<noteq> None) \<longleftrightarrow>
     (\<not> verified \<and> macro_calendar_unknown l = ''closed'')
     \<or> (\<exists>ev. event_at = Some ev \<and> ev - 60000000 * lockout_pre_minutes l \<le> now
          \<and> now \<le> ev + 60000000 * lockout_post_minutes l)"
  by (auto simp: macro_lockout_def in_lockout_window_def minutes_def mult.commute split: option.splits)

lemma rhe_ge_imp: "n \<le> rhe x \<Longrightarrow> of_int n - 1/2 \<le> x"
  using rhe_near [of x] of_int_le_iff [of n "rhe x", where ?'a = rat] by (simp only: abs_le_iff) linarith

text \<open>Distinct hundredths of moderate size round to distinct doubles.\<close>

lemma rd64_hundredth_error:
  assumes "\<bar>n\<bar> \<le> 2 ^ 50"
  shows "\<bar>rd64 (of_int n / 100) - of_int n / 100\<bar> \<le> 1/512"
proof (cases "n = 0")
  case False
  have n: "\<bar>rat_of_int n\<bar> \<le> 2 ^ 50" using assms
    by (metis of_int_abs of_int_le_numeral_power_cancel_iff)
  have "\<bar>rat_of_int n / 100\<bar> < 2 ^ 45" using n by (simp add: abs_divide)
  then have "\<bar>rat_of_int n / 100\<bar> < rat_of_nat 2 powi 45" by simp
  then have "qexp 2 53 (-1074) (of_int n / 100) \<le> max (45 - int 53) (-1074)"
    using False by (intro qexp_leI) simp_all
  then have "qexp 2 53 (-1074) (of_int n / 100) \<le> -8" by simp
  then have "rat_of_nat 2 powi qexp 2 53 (-1074) (of_int n / 100) \<le> rat_of_nat 2 powi (-8)"
    by (intro power_int_increasing) simp_all
  also have "rat_of_nat 2 powi (-8) = 1/256" by (simp add: power_int_def power_divide)
  finally show ?thesis
    using rsig_error [of 2 53 "-1074" "of_int n / 100"] by (simp add: rd64_def)
qed (simp add: bin64.rd_zero)

lemma b64_hundredth_less:
  assumes "\<bar>n\<bar> < 2 ^ 50" "k < n"
  shows "b64 (of_int k / 100) < b64 (of_int n / 100)"
proof -
  have "\<bar>n - 1\<bar> \<le> 2 ^ 50" "\<bar>n\<bar> \<le> 2 ^ 50" using assms by simp_all
  note e = this [THEN rd64_hundredth_error]
  have lt: "rd64 (of_int (n - 1) / 100) < rd64 (of_int n / 100)"
    using e unfolding abs_le_iff of_int_diff diff_divide_distrib of_int_1 by linarith
  have small: "\<bar>rat_of_int n\<bar> < 2 ^ 50" using assms(1)
    by (metis of_int_abs of_int_less_numeral_power_cancel_iff)
  define P :: rat where "P = 2 ^ 50"
  have P: "1 < P" "P < 2 ^ 1024" "\<bar>rat_of_int n\<bar> < P"
    using small by (simp_all add: P_def)
  then have "\<bar>rd64 (of_int n / 100)\<bar> < 2 ^ 1024" "\<bar>rd64 (of_int (n - 1) / 100)\<bar> < 2 ^ 1024"
    using e unfolding abs_le_iff abs_less_iff of_int_diff diff_divide_distrib of_int_1 by linarith+
  then have "b64 (of_int (n - 1) / 100) < b64 (of_int n / 100)"
    using lt by (auto simp: b64_def Let_def max_exp_def)
  moreover have "rat_of_int k / 100 \<le> of_int (n - 1) / 100"
    using assms(2) by (intro divide_right_mono) simp_all
  then have "b64 (of_int k / 100) \<le> b64 (of_int (n - 1) / 100)" by (rule b64_mono)
  ultimately show ?thesis
    by (cases "b64 (of_int k / 100)"; cases "b64 (of_int (n - 1) / 100)"; cases "b64 (of_int n / 100)") auto
qed

text \<open>
  The two-decimal tolerance of the reward/risk comparison is at most half a hundredth: for
  a positive risk, a finite quotient and a minimum given in hundredths, a quotient of at least
  the minimum always meets it (never refused for float noise), and a bracket that meets it has
  an unrounded quotient of at least the minimum less 0.005.
\<close>

theorem meets_min_reward_risk_tolerance:
  assumes "fdiv reward risk = Ok (Num q)" "0 < risk" "\<bar>n\<bar> < 2 ^ 50"
  shows "(of_int n / 100 \<le> q \<longrightarrow> meets_min_reward_risk reward risk (b64 (of_int n / 100)))
    \<and> (meets_min_reward_risk reward risk (b64 (of_int n / 100)) \<longrightarrow> of_int n / 100 - 1/200 \<le> q)"
proof -
  have pos: "\<not> risk \<le> 0" using assms(2) by (cases risk) (auto simp: zero_pyfloat_def)
  then have m: "meets_min_reward_risk reward risk (b64 (of_int n / 100)) \<longleftrightarrow>
      b64 (of_int n / 100) \<le> b64 (of_int (rhe (q * 100)) / 100)"
    using assms(1) by (simp add: meets_min_reward_risk_def quot_def py_round_def)
  have "n \<le> rhe (q * 100)" if "of_int n / 100 \<le> q"
    using rhe_mono [of "of_int n" "q * 100"] that by (simp add: divide_le_eq)
  moreover have "b64 (of_int n / 100) \<le> b64 (of_int (rhe (q * 100)) / 100)" if "n \<le> rhe (q * 100)"
    using that by (intro b64_mono divide_right_mono) simp_all
  moreover have "n \<le> rhe (q * 100)" if "b64 (of_int n / 100) \<le> b64 (of_int (rhe (q * 100)) / 100)"
    using b64_hundredth_less [OF assms(3), of "rhe (q * 100)"] that fnot_less [OF b64_not_NaN b64_not_NaN]
    by (meson not_le)
  moreover have "of_int n / 100 - 1/200 \<le> q" if "n \<le> rhe (q * 100)"
    using rhe_ge_imp [OF that] by simp
  ultimately show ?thesis using m by blast
qed

theorem meets_min_reward_risk_tolerance_witness:
  "meets_min_reward_risk (Num 20) (Num 10) (b64 (of_int 200 / 100))"
  using meets_min_reward_risk_tolerance [of "Num 20" "Num 10" 2 200] by simp

end
