(* ===== verification/Ledger.thy ===== *)
theory Ledger
  imports Risk_Rules "HOL-Library.AList" "HOL-Library.Char_ord" "HOL-Library.List_Lexorder"
begin

text \<open>
  The account ledger (\<open>accounting/ledger.py\<close>): broker activities are folded into cash,
  inventory, fees and income and compared with the account snapshot; any activity that is not
  understood withholds the realized totals.
\<close>

subsection \<open>Amounts on the wire\<close>

text \<open>
  A broker field that the code passes to \<open>decimal\<close>, by what \<open>Decimal(str(value))\<close> makes of
  it: a finite decimal, an infinity (with its sign: true is positive), a NaN, text that is no number, the empty string, or null.
\<close>

datatype wire = WDec dec | WInf bool | WNaN | WBad | WEmpty | WNull

definition NONFINITE :: py_exc where "NONFINITE = ValueError (msg ''Nonfinite amount'')"

fun decimal :: "wire \<Rightarrow> dec result" where
  "decimal (WDec d) = Ok d"
| "decimal (WInf _) = Raise NONFINITE"
| "decimal WNaN = Raise NONFINITE"
| "decimal _ = Raise DecimalInvalid"

text \<open>\<open>decimal\<close> of a float goes through its shortest text.\<close>

definition decimal_float :: "pyfloat \<Rightarrow> dec result" where
  "decimal_float x = (case x of Num r \<Rightarrow> Ok (repr_dec r) | _ \<Rightarrow> Raise NONFINITE)"

text \<open>Truth of a value, as in \<open>if not value\<close>.\<close>

definition truthy :: "wire \<Rightarrow> bool" where
  "truthy w = (case w of WEmpty \<Rightarrow> False | WNull \<Rightarrow> False | _ \<Rightarrow> True)"

subsection \<open>Activities, snapshots and reports\<close>

text \<open>
  An activity document; \<open>None\<close> is a missing key. \<open>a_when\<close> is the date read from the first
  ten characters of \<open>date\<close> (else of \<open>transaction_time\<close>), \<open>None\<close> when they are no ISO date;
  \<open>a_rest\<close> is the text of the fields the ledger does not read.
\<close>

record activity =
  a_id :: "string option"
  a_type :: "string option"
  a_qty :: "wire option"
  a_price :: "wire option"
  a_net_amount :: "wire option"
  a_side :: "string option"
  a_symbol :: "string option"
  a_order_id :: "string option"
  a_transaction_time :: "string option"
  a_date :: "string option"
  a_status :: "string option"
  a_asset_class :: "string option"
  a_when :: "int option"
  a_rest :: string

record account_position =
  ap_qty :: dec
  ap_cost_basis :: dec
  ap_unrealized_pl :: dec
  ap_asset_class :: string

record account_snapshot =
  as_account_id :: string
  as_cash :: dec
  as_positions :: "(string \<times> account_position) list"
  as_observed_at :: stamp

record ledger_report =
  lr_observed_at :: stamp
  lr_activity_count :: nat
  lr_fill_count :: nat
  lr_issues :: "ftext list"
  lr_cash_delta :: dec
  lr_quantity_deltas :: "(string \<times> dec) list"
  lr_gross_realized :: "dec option"
  lr_fees :: dec
  lr_income :: dec
  lr_net_realized :: "dec option"
  lr_unrealized :: dec

definition report_ready :: "ledger_report \<Rightarrow> bool" where
  "report_ready r = (lr_issues r = [] \<and> lr_gross_realized r \<noteq> None \<and> lr_net_realized r \<noteq> None)"

abbreviation FILL :: string where "FILL \<equiv> ''FILL''"

definition CASH_TRANSFERS :: "string list" where "CASH_TRANSFERS = [''CSD'', ''CSW'', ''JNLC'']"
definition FEES :: "string list" where "FEES = [''FEE'', ''CFEE'', ''DIVFEE'']"
definition INCOME :: "string list" where "INCOME = [''DIV'', ''INT'']"
definition BUY_SIDES :: "string list" where "BUY_SIDES = [''buy'']"
definition SELL_SIDES :: "string list" where "SELL_SIDES = [''sell'', ''sell_short'']"

text \<open>\<open>activity[key]\<close> raises on a missing key.\<close>

definition getitem :: "string \<Rightarrow> 'a option \<Rightarrow> 'a result" where
  "getitem key v = (case v of None \<Rightarrow> Raise (KeyError key) | Some x \<Rightarrow> Ok x)"

definition unsupported_activity_issue ::
  "string \<Rightarrow> activity \<Rightarrow> corporate_action list \<Rightarrow> ftext" where
  "unsupported_activity_issue kind activity corporate_actions =
     (let base = [Lit ''Unsupported activity type: '', Lit kind];
          symbol = upper (strip (str_or (a_symbol activity) []))
      in case a_when activity of None \<Rightarrow> base
         | Some on \<Rightarrow>
             (case find (\<lambda>x. is_structural x \<and> ca_symbol x = symbol \<and> \<bar>effective_on x - on\<bar> \<le> 10)
                     corporate_actions of
                None \<Rightarrow> base
              | Some x \<Rightarrow> base @ [Lit '' ('', Lit (ca_describe x), Lit '' '', Lit symbol, Lit '' effective '',
                  FDate (effective_on x), Lit '' in corporate-action evidence)'']))"

subsection \<open>One activity\<close>

text \<open>What a valid activity contributes: a fill, a cash movement, or an unsupported kind.\<close>

datatype effect =
    Fill string dec dec            \<comment> \<open>symbol, signed cash, quantity subtracted from inventory\<close>
  | CashMove string dec            \<comment> \<open>kind and amount\<close>
  | Unsupported string

definition fill_effect :: "activity \<Rightarrow> effect result" where
  "fill_effect a =
     bindr (getitem ''qty'' (a_qty a)) (\<lambda>qtxt. bindr (decimal qtxt) (\<lambda>qty.
     bindr (getitem ''price'' (a_price a)) (\<lambda>ptxt. bindr (decimal ptxt) (\<lambda>price.
     bindr (getitem ''side'' (a_side a)) (\<lambda>side.
     bindr (getitem ''symbol'' (a_symbol a)) (\<lambda>symbol.
     bindr (if qty \<le> 0 \<or> price \<le> 0 \<or> symbol = [] then Ok True
            else bindr (getitem ''order_id'' (a_order_id a)) (\<lambda>oid.
              if oid = [] then Ok True
              else bindr (getitem ''transaction_time'' (a_transaction_time a)) (\<lambda>t. Ok (t = [])))) (\<lambda>incomplete.
     raise_if incomplete (ValueError (msg ''Incomplete/nonpositive execution''))
     (raise_if (side \<notin> set (BUY_SIDES @ SELL_SIDES)) (ValueError (msg ''Unknown execution side''))
     (raise_if (CHR ''/'' \<in> set symbol \<or> (case a_asset_class a of None \<Rightarrow> ''us_equity'' | Some c \<Rightarrow> c) \<noteq> ''us_equity'')
        (ValueError (msg ''Unsupported execution asset''))
     (let direction = (if side \<in> set SELL_SIDES then 1 else -1)
      in Ok (Fill symbol (dmul (dmul direction qty) price) (dmul direction qty))))))))))))"

definition cash_effect :: "string \<Rightarrow> activity \<Rightarrow> effect result" where
  "cash_effect kind a =
     raise_if ((case a_status a of None \<Rightarrow> ''executed'' | Some s \<Rightarrow> s) \<noteq> ''executed'')
       (ValueError (msg ''Non-executed cash activity''))
     (bindr (if kind \<in> set CASH_TRANSFERS
             then bindr (decimal (case a_qty a of None \<Rightarrow> WDec 0 | Some w \<Rightarrow> if truthy w then w else WDec 0))
                    (\<lambda>q. Ok (q \<noteq> 0))
             else Ok False) (\<lambda>adjusts.
      raise_if adjusts (ValueError (msg ''Unsupported share adjustment''))
      (bindr (getitem ''net_amount'' (a_net_amount a)) (\<lambda>w. bindr (decimal w) (\<lambda>amount.
       Ok (CashMove kind amount))))))"

definition activity_effect :: "activity \<Rightarrow> effect result" where
  "activity_effect a = bindr (getitem ''activity_type'' (a_type a)) (\<lambda>kind.
     if kind = FILL then fill_effect a
     else if kind \<in> set (CASH_TRANSFERS @ FEES @ INCOME) then cash_effect kind a
     else Ok (Unsupported kind))"

subsection \<open>The fold\<close>

record ledger_state =
  ls_inventory :: "(string \<times> dec) list"
  ls_fill_cash :: dec
  ls_cash :: dec
  ls_fees :: dec
  ls_income :: dec
  ls_issues :: "ftext list"
  ls_ids :: "string list"
  ls_fills :: nat

definition ledger_start :: ledger_state where
  "ledger_start = \<lparr>ls_inventory = [], ls_fill_cash = 0, ls_cash = 0, ls_fees = 0, ls_income = 0,
     ls_issues = [], ls_ids = [], ls_fills = 0\<rparr>"

definition inventory_of :: "(string \<times> dec) list \<Rightarrow> string \<Rightarrow> dec" where
  "inventory_of iv s = (case map_of iv s of None \<Rightarrow> 0 | Some q \<Rightarrow> q)"

definition apply_effect :: "corporate_action list \<Rightarrow> activity \<Rightarrow> effect \<Rightarrow> ledger_state \<Rightarrow> ledger_state" where
  "apply_effect actions a eff s = (case eff of
     Fill symbol amount q \<Rightarrow>
       s\<lparr>ls_fill_cash := dadd (ls_fill_cash s) amount, ls_cash := dadd (ls_cash s) amount,
         ls_inventory := AList.update symbol (dsub (inventory_of (ls_inventory s) symbol) q) (ls_inventory s),
         ls_fills := Suc (ls_fills s)\<rparr>
   | CashMove kind amount \<Rightarrow>
       s\<lparr>ls_cash := dadd (ls_cash s) amount,
         ls_fees := (if kind \<in> set FEES then dadd (ls_fees s) amount else ls_fees s),
         ls_income := (if kind \<notin> set FEES \<and> kind \<in> set INCOME then dadd (ls_income s) amount else ls_income s)\<rparr>
   | Unsupported kind \<Rightarrow>
       s\<lparr>ls_issues := ls_issues s @ [unsupported_activity_issue kind a actions]\<rparr>)"

definition INVALID_ACTIVITY :: ftext where
  "INVALID_ACTIVITY = msg ''Invalid activity; inspect persisted evidence''"

definition flag_invalid :: "ledger_state \<Rightarrow> ledger_state" where
  "flag_invalid s = s\<lparr>ls_issues := ls_issues s @ [INVALID_ACTIVITY]\<rparr>"

definition ledger_step :: "corporate_action list \<Rightarrow> ledger_state \<Rightarrow> activity \<Rightarrow> ledger_state" where
  "ledger_step actions s a = (case a_id a of
     None \<Rightarrow> flag_invalid s
   | Some i \<Rightarrow>
       if i = [] \<or> i \<in> set (ls_ids s) then flag_invalid s
       else let s' = s\<lparr>ls_ids := i # ls_ids s\<rparr> in
         (case activity_effect a of Inl _ \<Rightarrow> flag_invalid s' | Inr eff \<Rightarrow> apply_effect actions a eff s'))"

definition ledger_fold :: "corporate_action list \<Rightarrow> activity list \<Rightarrow> ledger_state" where
  "ledger_fold actions activities = foldl (ledger_step actions) ledger_start activities"

definition qty_at :: "account_snapshot \<Rightarrow> string \<Rightarrow> dec" where
  "qty_at snap s = (case map_of (as_positions snap) s of None \<Rightarrow> 0 | Some p \<Rightarrow> ap_qty p)"

definition inconsistent_basis :: "account_position \<Rightarrow> bool" where
  "inconsistent_basis p = (ap_asset_class p \<noteq> ''us_equity''
     \<or> (ap_qty p \<noteq> 0 \<and> dmul (ap_qty p) (ap_cost_basis p) \<le> 0) \<or> (ap_qty p = 0 \<and> ap_cost_basis p \<noteq> 0))"

definition reconcile ::
  "activity list \<Rightarrow> account_snapshot \<Rightarrow> dec \<Rightarrow> corporate_action list \<Rightarrow> ledger_report" where
  "reconcile activities snapshot cash_tolerance corporate_actions =
     (let s = ledger_fold corporate_actions activities;
          held = map snd (as_positions snapshot);
          symbols = remdups (map fst (ls_inventory s) @ map fst (as_positions snapshot));
          deltas = filter (\<lambda>(_, q). q \<noteq> 0)
            (map (\<lambda>x. (x, dsub (inventory_of (ls_inventory s) x) (qty_at snapshot x))) symbols);
          cash_delta = dsub (ls_cash s) (as_cash snapshot);
          issues = ls_issues s
            @ (if dabs cash_delta > cash_tolerance then [[Lit ''Cash mismatch: '', FDec '''' cash_delta]] else [])
            @ (if deltas \<noteq> [] then [[Lit ''Quantity mismatch: '', Lit (join '', '' (sort (map fst deltas)))]] else [])
            @ (if list_ex inconsistent_basis held
               then [msg ''Unsupported asset or inconsistent signed cost basis''] else []);
          gross = (if issues \<noteq> [] then None
                   else Some (dadd (ls_fill_cash s) (dsum (map ap_cost_basis held) 0)))
      in \<lparr>lr_observed_at = as_observed_at snapshot, lr_activity_count = length activities,
          lr_fill_count = ls_fills s, lr_issues = remdups issues, lr_cash_delta = cash_delta,
          lr_quantity_deltas = deltas, lr_gross_realized = gross, lr_fees = ls_fees s,
          lr_income = ls_income s,
          lr_net_realized = map_option (\<lambda>g. dadd (dadd g (ls_fees s)) (ls_income s)) gross,
          lr_unrealized = dsum (map ap_unrealized_pl held) 0\<rparr>)"

subsection \<open>A clean history\<close>

text \<open>
  A history is clean when every activity is identified, no identity repeats, and every activity
  is understood. \<open>effects\<close> lists what the activities of a clean history contribute.
\<close>

definition understood :: "activity \<Rightarrow> bool" where
  "understood a = (case activity_effect a of Inl _ \<Rightarrow> False
     | Inr (Unsupported _) \<Rightarrow> False | Inr _ \<Rightarrow> True)"

definition clean :: "activity list \<Rightarrow> bool" where
  "clean as = (list_all (\<lambda>a. a_id a \<noteq> None \<and> a_id a \<noteq> Some [] \<and> understood a) as
     \<and> distinct (map a_id as))"

fun effects :: "activity list \<Rightarrow> effect list" where
  "effects [] = []"
| "effects (a # as) = (case activity_effect a of Inl _ \<Rightarrow> effects as | Inr e \<Rightarrow> e # effects as)"

fun effect_cash :: "effect \<Rightarrow> dec" where
  "effect_cash (Fill _ amount _) = amount"
| "effect_cash (CashMove _ amount) = amount"
| "effect_cash (Unsupported _) = 0"

definition fills_of :: "effect list \<Rightarrow> effect list" where
  "fills_of es = filter (\<lambda>e. case e of Fill _ _ _ \<Rightarrow> True | _ \<Rightarrow> False) es"

definition moves_of :: "string list \<Rightarrow> effect list \<Rightarrow> effect list" where
  "moves_of kinds es = filter (\<lambda>e. case e of CashMove k _ \<Rightarrow> k \<in> set kinds | _ \<Rightarrow> False) es"

lemma effects_append [simp]: "effects (as @ bs) = effects as @ effects bs"
  by (induction as) (auto split: sum.splits)

lemma ledger_step_issues: "\<exists>ys. ls_issues (ledger_step acts s a) = ls_issues s @ ys"
  by (auto simp: ledger_step_def flag_invalid_def apply_effect_def Let_def
      split: option.splits sum.splits effect.splits)

lemma flag_invalid_issues [simp]: "ls_issues (flag_invalid s) \<noteq> []"
  by (simp add: flag_invalid_def)

text \<open>One step from a clean state: it stays clean exactly on an identified, new, understood activity.\<close>

lemma ledger_step_clean:
  assumes "ls_issues s = []"
  shows "ls_issues (ledger_step acts s a) = [] \<longleftrightarrow>
    (\<exists>i. a_id a = Some i \<and> i \<noteq> [] \<and> i \<notin> set (ls_ids s)) \<and> understood a"
  using assms
  by (auto simp: ledger_step_def understood_def apply_effect_def Let_def
      split: option.splits sum.splits effect.splits)

lemma ledger_step_ids:
  "ls_issues (ledger_step acts s a) = [] \<Longrightarrow> Some ` set (ls_ids (ledger_step acts s a))
     = insert (a_id a) (Some ` set (ls_ids s))"
  by (auto simp: ledger_step_def apply_effect_def Let_def
      split: option.splits sum.splits effect.splits if_splits)

lemma clean_snoc:
  "clean (as @ [a]) \<longleftrightarrow> clean as \<and> a_id a \<noteq> None \<and> a_id a \<noteq> Some [] \<and> understood a
     \<and> a_id a \<notin> a_id ` set as"
  by (auto simp: clean_def)

lemma ledger_fold_snoc [simp]:
  "ledger_fold acts (as @ [a]) = ledger_step acts (ledger_fold acts as) a"
  by (simp add: ledger_fold_def)

lemma ledger_fold_clean:
  "(ls_issues (ledger_fold acts as) = [] \<longleftrightarrow> clean as)
    \<and> (clean as \<longrightarrow> Some ` set (ls_ids (ledger_fold acts as)) = a_id ` set as)"
proof (induction as rule: rev_induct)
  case Nil
  then show ?case by (simp add: ledger_fold_def ledger_start_def clean_def)
next
  case (snoc a as)
  let ?s = "ledger_fold acts as"
  show ?case
  proof (cases "clean as")
    case False
    then have "ls_issues ?s \<noteq> []" using snoc by simp
    then have "ls_issues (ledger_step acts ?s a) \<noteq> []"
      using ledger_step_issues [of acts ?s a] by auto
    then show ?thesis using False by (simp add: clean_snoc)
  next
    case True
    then have s: "ls_issues ?s = []" and ids: "Some ` set (ls_ids ?s) = a_id ` set as"
      using snoc by auto
    have mem: "i \<in> set (ls_ids ?s) \<longleftrightarrow> Some i \<in> a_id ` set as" for i
      unfolding ids [symmetric] by auto
    have "ls_issues (ledger_step acts ?s a) = [] \<longleftrightarrow> clean (as @ [a])"
      using ledger_step_clean [OF s, of acts a] True mem
      by (cases "a_id a") (simp_all add: clean_snoc conj_ac)
    moreover from this have "clean (as @ [a]) \<Longrightarrow>
        Some ` set (ls_ids (ledger_step acts ?s a)) = a_id ` set (as @ [a])"
      using ledger_step_ids [of acts ?s a] ids by auto
    ultimately show ?thesis by simp
  qed
qed

lemma dsum_snoc [simp]: "dsum (xs @ [x]) s = dadd (dsum xs s) x"
  by (simp add: dsum_def)

text \<open>The totals of a clean history are the sums over its effects, in order.\<close>

lemma ledger_fold_totals:
  assumes "clean as"
  shows "ls_cash (ledger_fold acts as) = dsum (map effect_cash (effects as)) 0
    \<and> ls_fill_cash (ledger_fold acts as) = dsum (map effect_cash (fills_of (effects as))) 0
    \<and> ls_fees (ledger_fold acts as) = dsum (map effect_cash (moves_of FEES (effects as))) 0
    \<and> ls_income (ledger_fold acts as)
        = dsum (map effect_cash (moves_of INCOME (effects as))) 0
    \<and> ls_fills (ledger_fold acts as) = length (fills_of (effects as))"
  using assms
proof (induction as rule: rev_induct)
  case Nil
  then show ?case by (simp add: ledger_fold_def ledger_start_def fills_of_def moves_of_def)
next
  case (snoc a as)
  let ?s = "ledger_fold acts as"
  have "clean as" using snoc.prems by (simp add: clean_snoc)
  moreover obtain e where e: "activity_effect a = Inr e" "\<And>k. e \<noteq> Unsupported k"
    using snoc.prems by (auto simp: clean_snoc understood_def split: sum.splits effect.splits)
  moreover obtain i where i: "a_id a = Some i" "i \<noteq> []" using snoc.prems by (auto simp: clean_snoc)
  have "i \<notin> set (ls_ids ?s)"
    using snoc.prems \<open>clean as\<close> ledger_fold_clean [of acts as] i
    by (auto simp: clean_snoc)
  then have step: "ledger_step acts ?s a = apply_effect acts a e (?s\<lparr>ls_ids := i # ls_ids ?s\<rparr>)"
    using i e by (simp add: ledger_step_def Let_def)
  have disj: "set FEES \<inter> set INCOME = {}" by (simp add: FEES_def INCOME_def)
  show ?case
    using snoc.IH [OF \<open>clean as\<close>] e disj
    by (cases e) (auto simp: step apply_effect_def fills_of_def moves_of_def)
qed

subsection \<open>Claims\<close>

lemma reconcile_issues_iff:
  "lr_issues (reconcile as snap tol acts) = [] \<longleftrightarrow> clean as
     \<and> \<not> dabs (dsub (ls_cash (ledger_fold acts as)) (as_cash snap)) > tol
     \<and> lr_quantity_deltas (reconcile as snap tol acts) = []
     \<and> \<not> list_ex inconsistent_basis (map snd (as_positions snap))"
  using ledger_fold_clean [of acts as] by (simp add: reconcile_def Let_def)

lemma reconcile_realized:
  "lr_gross_realized (reconcile as snap tol acts)
     = (if lr_issues (reconcile as snap tol acts) \<noteq> [] then None
        else Some (dadd (ls_fill_cash (ledger_fold acts as)) (dsum (map (ap_cost_basis \<circ> snd) (as_positions snap)) 0)))"
  "lr_net_realized (reconcile as snap tol acts)
     = map_option (\<lambda>g. dadd (dadd g (lr_fees (reconcile as snap tol acts))) (lr_income (reconcile as snap tol acts)))
         (lr_gross_realized (reconcile as snap tol acts))"
  by (simp_all add: reconcile_def Let_def)

lemma quantity_deltas_Nil_iff:
  "lr_quantity_deltas (reconcile as snap tol acts) = [] \<longleftrightarrow>
     (\<forall>x \<in> set (map fst (ls_inventory (ledger_fold acts as)) @ map fst (as_positions snap)).
        dsub (inventory_of (ls_inventory (ledger_fold acts as)) x) (qty_at snap x) = 0)"
  by (auto simp: reconcile_def Let_def filter_empty_conv)


text \<open>
  The net realized total. A ready report states fill cash plus the broker's remaining cost
  basis, plus fees, plus income, each summed in order over the effects of the activities; any other
  report withholds both realized totals.
\<close>

theorem reconcile_net_realized:
  "lr_net_realized (reconcile as snap tol acts) =
     (if report_ready (reconcile as snap tol acts)
      then Some (dadd (dadd
        (dadd (dsum (map effect_cash (fills_of (effects as))) 0) (dsum (map (ap_cost_basis \<circ> snd) (as_positions snap)) 0))
        (dsum (map effect_cash (moves_of FEES (effects as))) 0))
        (dsum (map effect_cash (moves_of INCOME (effects as))) 0))
      else None)"
proof -
  let ?r = "reconcile as snap tol acts"
  have ready: "report_ready ?r \<longleftrightarrow> lr_issues ?r = []"
    by (simp add: report_ready_def reconcile_realized)
  have parts: "lr_fees ?r = ls_fees (ledger_fold acts as)" "lr_income ?r = ls_income (ledger_fold acts as)"
    by (simp_all add: reconcile_def Let_def)
  show ?thesis
  proof (cases "report_ready ?r")
    case True
    then have "clean as" unfolding ready reconcile_issues_iff by simp
    then show ?thesis
      using True ledger_fold_totals [of as acts] by (simp add: reconcile_realized parts ready)
  qed (simp add: reconcile_realized ready)
qed

end
