(* ===== verification/Account_Risk.thy ===== *)
theory Account_Risk
  imports Ledger "HOL-Library.Product_Lexorder"
begin

text \<open>
  Cash-flow-adjusted account drawdown (\<open>accounting/risk.py\<close>): each reconciled ledger checkpoint
  advances a fixed-baseline equity series with its high-water mark; the sizing and admission
  code reads the series only through \<open>require_risk_checkpoint\<close>.
\<close>

subsection \<open>Evidence\<close>

type_synonym fingerprints = "(string \<times> string) list"

record account_risk =
  ar_account_id :: string
  ar_baseline_observed_at :: int
  ar_baseline_equity :: dec
  ar_baseline_cash_flows :: dec
  ar_observed_at :: int
  ar_equity :: dec
  ar_cash_flows :: dec
  ar_adjusted_equity :: dec
  ar_high_water_mark :: dec
  ar_drawdown_pct :: dec
  ar_transfers :: fingerprints
  ar_journals :: fingerprints

text \<open>\<open>max(Decimal(0), (peak - adjusted) / peak)\<close>; the peak is positive wherever this is evaluated.\<close>

definition drawdown_of :: "dec \<Rightarrow> dec \<Rightarrow> dec result" where
  "drawdown_of peak adjusted = bindr (ddiv (dsub peak adjusted) peak) (\<lambda>q. Ok (py_max 0 q))"

definition fingerprints_ok :: "fingerprints \<Rightarrow> bool" where
  "fingerprints_ok fs = (let identities = map fst fs in
     identities = sort (remdups identities) \<and> list_all (\<lambda>(i, d). i \<noteq> [] \<and> length d = 64) fs)"

text \<open>The field constraints of the model, then its validator \<open>consistent\<close>.\<close>

definition risk_fields_ok :: "account_risk \<Rightarrow> bool" where
  "risk_fields_ok r = (ar_account_id r \<noteq> [] \<and> 0 < ar_baseline_equity r \<and> 0 < ar_high_water_mark r
     \<and> 0 \<le> ar_drawdown_pct r)"

definition consistent :: "account_risk \<Rightarrow> account_risk result" where
  "consistent r =
     raise_if (ar_observed_at r < ar_baseline_observed_at r)
       (ValueError (msg ''Risk observation precedes its baseline''))
    (raise_if (ar_adjusted_equity r \<noteq> dsub (ar_equity r) (dsub (ar_cash_flows r) (ar_baseline_cash_flows r)))
       (ValueError (msg ''Inconsistent cash-flow-adjusted equity''))
    (raise_if (ar_high_water_mark r < py_max (ar_baseline_equity r) (ar_adjusted_equity r))
       (ValueError (msg ''Risk high-water mark does not cover observed equity''))
    (bindr (drawdown_of (ar_high_water_mark r) (ar_adjusted_equity r)) (\<lambda>expected.
     raise_if (ar_drawdown_pct r \<noteq> expected) (ValueError (msg ''Inconsistent account drawdown''))
    (raise_if (\<not> fingerprints_ok (ar_transfers r) \<or> \<not> fingerprints_ok (ar_journals r))
       (ValueError (msg ''Invalid cash activity evidence identity''))
    (raise_if (set (map fst (ar_transfers r)) \<inter> set (map fst (ar_journals r)) \<noteq> {})
       (ValueError (msg ''Cash transfer and baseline journal identities overlap''))
    (Ok r)))))))"

definition risk_valid :: "account_risk \<Rightarrow> bool" where
  "risk_valid r = (risk_fields_ok r \<and> consistent r = Ok r)"

text \<open>
  A JSON document read back from the journal: missing or null, one that its pydantic model
  refuses, or the parsed value. \<open>parse_risk\<close> is the validation of a parsed risk snapshot.
\<close>

datatype 'a doc = Absent | Malformed | Doc 'a

definition parse_risk :: "account_risk doc \<Rightarrow> account_risk doc" where
  "parse_risk d = (case d of Doc r \<Rightarrow> if risk_valid r then Doc r else Malformed | _ \<Rightarrow> d)"

record checkpoint =
  cp_error :: "ftext option"
  cp_report :: "ledger_report doc"
  cp_snapshot :: "account_snapshot doc"
  cp_risk :: "account_risk doc"
  cp_risk_error :: "ftext option"
  cp_risk_invalidation :: "ftext option"
  cp_checked_at :: "int option"

text \<open>Truth of an optional message: present and not the empty text.\<close>

definition told :: "ftext option \<Rightarrow> bool" where
  "told t = (case t of None \<Rightarrow> False | Some m \<Rightarrow> m \<noteq> [])"

definition validated_checkpoint :: "checkpoint \<Rightarrow> account_snapshot result" where
  "validated_checkpoint payload =
     raise_if (told (cp_error payload))
       (ValueError (Lit ''Account import failed: '' # (case cp_error payload of Some t \<Rightarrow> t | None \<Rightarrow> [])))
    (case cp_report payload of
       Absent \<Rightarrow> Raise (ValueError (msg ''Awaiting account activity reconciliation''))
     | Malformed \<Rightarrow> Raise (ValueError (msg ''Account reconciliation evidence is invalid; inspect the persisted ledger''))
     | Doc report \<Rightarrow>
         raise_if (\<not> report_ready report)
           (ValueError (Lit ''Account reconciliation unavailable: '' # join_ftext ''; '' (lr_issues report)))
        (case cp_snapshot payload of
           Absent \<Rightarrow> Raise (ValueError (msg ''Account snapshot is unavailable''))
         | Malformed \<Rightarrow> Raise (ValueError (msg ''Account snapshot is invalid; inspect the persisted ledger''))
         | Doc snapshot \<Rightarrow>
             raise_if ((case as_observed_at snapshot of Naive _ \<Rightarrow> True | Aware _ \<Rightarrow> False)
                       \<or> lr_observed_at report \<noteq> as_observed_at snapshot)
               (ValueError (msg ''Account risk requires aligned timezone-aware observation times''))
            (Ok snapshot)))"

definition risk_snapshot :: "account_risk doc \<Rightarrow> account_risk result" where
  "risk_snapshot payload = (case parse_risk payload of
     Absent \<Rightarrow> Raise (ValueError (msg ''Awaiting first reconciled account risk baseline''))
   | Malformed \<Rightarrow> Raise (ValueError (msg ''Account risk evidence is invalid or unsupported; inspect the persisted ledger''))
   | Doc r \<Rightarrow> Ok r)"

definition equity_of :: "account_snapshot \<Rightarrow> dec" where
  "equity_of snapshot = dadd (as_cash snapshot)
     (dsum (map (\<lambda>(_, p). dadd (ap_cost_basis p) (ap_unrealized_pl p)) (as_positions snapshot)) 0)"

subsection \<open>Cash transfers\<close>

text \<open>What of a transfer is fingerprinted; the digest (SHA-256 of the JSON text) is a parameter.\<close>

record cash_evidence =
  ce_type :: string
  ce_net_amount :: dec
  ce_transaction_time :: "string option"
  ce_date :: "string option"

record cash_history =
  ch_total :: dec
  ch_transfers :: fingerprints
  ch_journals :: fingerprints

definition cash_amount :: "string \<Rightarrow> activity \<Rightarrow> dec result" where
  "cash_amount kind a =
     bindr (getitem ''net_amount'' (a_net_amount a)) (\<lambda>w. bindr (decimal w) (\<lambda>amount.
     bindr (if (case a_status a of None \<Rightarrow> ''executed'' | Some s \<Rightarrow> s) \<noteq> ''executed'' then Ok True
            else bindr (decimal (case a_qty a of None \<Rightarrow> WDec 0 | Some q \<Rightarrow> if truthy q then q else WDec 0))
                   (\<lambda>q. Ok (q \<noteq> 0))) (\<lambda>unsupported.
     raise_if unsupported (ValueError (msg ''Unsupported cash transfer''))
    (raise_if (kind = ''CSD'' \<and> amount < 0 \<or> kind = ''CSW'' \<and> amount > 0)
       (ValueError (msg ''Cash transfer direction disagrees with activity type''))
    (Ok amount)))))"

definition cash_step ::
  "(cash_evidence \<Rightarrow> string) \<Rightarrow> cash_history \<Rightarrow> activity \<Rightarrow> cash_history result" where
  "cash_step digest h a = (case a_type a of
     None \<Rightarrow> Ok h
   | Some kind \<Rightarrow>
       if kind \<notin> set CASH_TRANSFERS then Ok h
       else bindr (cash_amount kind a) (\<lambda>amount.
         let evidence = \<lparr>ce_type = kind, ce_net_amount = rd28 amount,
               ce_transaction_time = a_transaction_time a, ce_date = a_date a\<rparr>
         in bindr (getitem ''id'' (a_id a)) (\<lambda>i.
           if kind = ''JNLC'' then Ok (h\<lparr>ch_journals := ch_journals h @ [(i, digest evidence)]\<rparr>)
           else Ok (h\<lparr>ch_transfers := ch_transfers h @ [(i, digest evidence)],
                      ch_total := dadd (ch_total h) amount\<rparr>))))"

fun cash_loop ::
  "(cash_evidence \<Rightarrow> string) \<Rightarrow> cash_history \<Rightarrow> activity list \<Rightarrow> cash_history result" where
  "cash_loop digest h [] = Ok h"
| "cash_loop digest h (a # as) = bindr (cash_step digest h a) (\<lambda>h'. cash_loop digest h' as)"

definition cash_history_of ::
  "(cash_evidence \<Rightarrow> string) \<Rightarrow> activity list \<Rightarrow> cash_history result" where
  "cash_history_of digest activities =
     bindr (cash_loop digest \<lparr>ch_total = 0, ch_transfers = [], ch_journals = []\<rparr> activities) (\<lambda>h.
       Ok (h\<lparr>ch_transfers := sort (ch_transfers h), ch_journals := sort (ch_journals h)\<rparr>))"

subsection \<open>Advancing the series\<close>

text \<open>
  What the body of \<open>advance_risk_checkpoint\<close> can raise, as its \<open>except\<close> clauses tell apart: the
  history invalidation, a pydantic \<open>ValidationError\<close>, anything else.
\<close>

datatype risk_fault = HistoryInvalidation ftext | EvidenceInvalid | Fault py_exc

definition lift :: "'a result \<Rightarrow> risk_fault + 'a" where
  "lift r = (case r of Inl e \<Rightarrow> Inl (Fault e) | Inr x \<Rightarrow> Inr x)"

record risk_state =
  rk_risk :: "account_risk doc"
  rk_error :: "ftext option"
  rk_invalidation :: "ftext option"

definition JOURNAL_CHANGED :: ftext where
  "JOURNAL_CHANGED = msg ''Cash journal history changed after the baseline; ambiguous external-flow classification requires review''"

definition TRANSFER_REVISED :: ftext where
  "TRANSFER_REVISED = msg ''Accepted cash transfer evidence was revised or retracted; risk history requires review''"

text \<open>The checks against the accepted history.\<close>

definition prior_checks ::
  "account_risk \<Rightarrow> string \<Rightarrow> int \<Rightarrow> cash_history \<Rightarrow> risk_fault + unit" where
  "prior_checks prior account_id observed h =
     raise_if (ar_account_id prior \<noteq> account_id)
       (Fault (ValueError (msg ''Account risk baseline belongs to another account'')))
    (raise_if (observed < ar_observed_at prior)
       (Fault (ValueError (msg ''Account risk observation is out of order'')))
    (raise_if (ch_journals h \<noteq> ar_journals prior) (HistoryInvalidation JOURNAL_CHANGED)
    (raise_if (\<not> list_all (\<lambda>(i, d). map_of (rev (ch_transfers h)) i = Some d) (ar_transfers prior))
       (HistoryInvalidation TRANSFER_REVISED)
    (Inr ()))))"

definition next_risk ::
  "account_risk option \<Rightarrow> string \<Rightarrow> int \<Rightarrow> dec \<Rightarrow> cash_history \<Rightarrow> risk_fault + account_risk" where
  "next_risk prior account_id observed equity h =
     (let base_eq = (case prior of Some p \<Rightarrow> ar_baseline_equity p | None \<Rightarrow> equity);
          base_flows = (case prior of Some p \<Rightarrow> ar_baseline_cash_flows p | None \<Rightarrow> ch_total h);
          adjusted = dsub equity (dsub (ch_total h) base_flows);
          peak = py_max (case prior of Some p \<Rightarrow> ar_high_water_mark p | None \<Rightarrow> equity) adjusted
      in bindr (lift (drawdown_of peak adjusted)) (\<lambda>dd.
         let r = \<lparr>ar_account_id = account_id,
               ar_baseline_observed_at = (case prior of Some p \<Rightarrow> ar_baseline_observed_at p | None \<Rightarrow> observed),
               ar_baseline_equity = base_eq, ar_baseline_cash_flows = base_flows,
               ar_observed_at = observed, ar_equity = equity, ar_cash_flows = ch_total h,
               ar_adjusted_equity = adjusted, ar_high_water_mark = peak, ar_drawdown_pct = dd,
               ar_transfers = ch_transfers h,
               ar_journals = (case prior of Some p \<Rightarrow> ar_journals p | None \<Rightarrow> ch_journals h)\<rparr>
         in if risk_valid r then Inr r else Inl EvidenceInvalid))"

definition advance_body ::
  "(cash_evidence \<Rightarrow> string) \<Rightarrow> checkpoint \<Rightarrow> checkpoint \<Rightarrow> activity list \<Rightarrow> string \<Rightarrow> stamp
     \<Rightarrow> risk_fault + account_risk" where
  "advance_body digest previous cp activities account_id now =
     bindr (lift (validated_checkpoint cp)) (\<lambda>snapshot.
     raise_if (case (now, as_observed_at snapshot) of
                 (Aware t, Aware u) \<Rightarrow> u > t | (Naive _, _) \<Rightarrow> True | (Aware _, Naive _) \<Rightarrow> False)
       (Fault (ValueError (msg ''Account risk observation is future-dated or current time is ambiguous'')))
    (raise_if (as_account_id snapshot \<noteq> account_id)
       (Fault (ValueError (msg ''Account risk identity differs from ledger binding'')))
    (let equity = equity_of snapshot;
         observed = (case as_observed_at snapshot of Aware t \<Rightarrow> t | Naive t \<Rightarrow> t)
     in bindr (lift (cash_history_of digest activities)) (\<lambda>h.
        if cp_risk previous = Absent
        then raise_if (equity \<le> 0) (Fault (ValueError (msg ''Initial account risk equity must be positive'')))
               (next_risk None account_id observed equity h)
        else bindr (lift (risk_snapshot (cp_risk previous))) (\<lambda>prior.
               bindr (prior_checks prior account_id observed h) (\<lambda>_.
               next_risk (Some prior) account_id observed equity h))))))"

definition advance_risk_checkpoint ::
  "(cash_evidence \<Rightarrow> string) \<Rightarrow> checkpoint \<Rightarrow> checkpoint \<Rightarrow> activity list \<Rightarrow> string \<Rightarrow> stamp
     \<Rightarrow> risk_state" where
  "advance_risk_checkpoint digest previous cp activities account_id now =
     (let preserved = \<lparr>rk_risk = cp_risk previous, rk_error = None,
            rk_invalidation = cp_risk_invalidation previous\<rparr>
      in if told (cp_risk_invalidation previous)
         then preserved\<lparr>rk_error := cp_risk_invalidation previous\<rparr>
         else case advance_body digest previous cp activities account_id now of
           Inr r \<Rightarrow> \<lparr>rk_risk = Doc r, rk_error = None, rk_invalidation = None\<rparr>
         | Inl (HistoryInvalidation t) \<Rightarrow> preserved\<lparr>rk_error := Some t, rk_invalidation := Some t\<rparr>
         | Inl EvidenceInvalid \<Rightarrow>
             preserved\<lparr>rk_error := Some (msg ''Account risk evidence is invalid; inspect the persisted ledger'')\<rparr>
         | Inl (Fault e) \<Rightarrow> preserved\<lparr>rk_error := Some (exc_text e)\<rparr>)"

text \<open>\<open>(later - earlier).total_seconds()\<close>: the microseconds over a million, rounded once.\<close>

definition total_seconds :: "int \<Rightarrow> pyfloat" where
  "total_seconds us = b64 (of_int us / 1000000)"

definition require_risk_checkpoint :: "checkpoint \<Rightarrow> pyfloat \<Rightarrow> stamp \<Rightarrow> account_risk result" where
  "require_risk_checkpoint payload max_age_seconds now =
     raise_if (\<not> isfinite max_age_seconds \<or> max_age_seconds \<le> 0)
       (ValueError (msg ''Account risk freshness must be finite and positive''))
    (raise_if (told (cp_risk_invalidation payload) \<or> told (cp_risk_error payload))
       (ValueError (case (if told (cp_risk_invalidation payload) then cp_risk_invalidation payload
                          else cp_risk_error payload) of Some t \<Rightarrow> t | None \<Rightarrow> []))
    (bindr (validated_checkpoint payload) (\<lambda>snapshot.
     bindr (risk_snapshot (cp_risk payload)) (\<lambda>risk.
     raise_if (ar_account_id risk \<noteq> as_account_id snapshot
               \<or> as_observed_at snapshot \<noteq> Aware (ar_observed_at risk) \<or> ar_equity risk \<noteq> equity_of snapshot)
       (ValueError (msg ''Account risk does not match its reconciled checkpoint''))
    (case now of
       Naive _ \<Rightarrow> Raise (ValueError (msg ''Account risk requires an aware current time''))
     | Aware t \<Rightarrow>
         let age = total_seconds (t - ar_observed_at risk)
         in raise_if (\<not> (0 \<le> age \<and> age \<le> max_age_seconds))
              (ValueError (msg ''Account risk observation is stale or future-dated''))
           (Ok risk))))))"

subsection \<open>Facts about the series\<close>

lemma risk_valid_iff:
  "risk_valid r \<longleftrightarrow> risk_fields_ok r \<and> ar_baseline_observed_at r \<le> ar_observed_at r
     \<and> ar_adjusted_equity r = dsub (ar_equity r) (dsub (ar_cash_flows r) (ar_baseline_cash_flows r))
     \<and> ar_baseline_equity r \<le> ar_high_water_mark r \<and> ar_adjusted_equity r \<le> ar_high_water_mark r
     \<and> drawdown_of (ar_high_water_mark r) (ar_adjusted_equity r) = Ok (ar_drawdown_pct r)
     \<and> fingerprints_ok (ar_transfers r) \<and> fingerprints_ok (ar_journals r)
     \<and> set (map fst (ar_transfers r)) \<inter> set (map fst (ar_journals r)) = {}"
  by (auto simp: risk_valid_def consistent_def bindr_Inr_iff py_max_def not_less split: if_splits)

lemma lift_Inr [simp]: "lift r = Inr x \<longleftrightarrow> r = Ok x"
  by (simp add: lift_def split: sum.splits)

lemma drawdown_of_total: "peak \<noteq> 0 \<Longrightarrow> \<exists>d. drawdown_of peak a = Ok d \<and> 0 \<le> d"
  by (simp add: drawdown_of_def ddiv_def py_max_def)

lemma next_risk_Some:
  assumes "next_risk (Some p) acct observed equity h = Inr r"
  shows "risk_valid r \<and> ar_account_id r = acct \<and> ar_observed_at r = observed \<and> ar_equity r = equity
    \<and> ar_baseline_observed_at r = ar_baseline_observed_at p \<and> ar_baseline_equity r = ar_baseline_equity p
    \<and> ar_baseline_cash_flows r = ar_baseline_cash_flows p \<and> ar_journals r = ar_journals p
    \<and> ar_transfers r = ch_transfers h
    \<and> ar_high_water_mark r = max (ar_high_water_mark p) (ar_adjusted_equity r)"
  using assms by (auto simp: next_risk_def Let_def bindr_Inr_iff py_max_def max_def split: if_splits)

lemma prior_checks_ok:
  assumes "prior_checks p acct observed h = Inr u"
  shows "ar_account_id p = acct \<and> ar_observed_at p \<le> observed \<and> ch_journals h = ar_journals p
    \<and> (\<forall>(i, d) \<in> set (ar_transfers p). map_of (rev (ch_transfers h)) i = Some d)"
  using assms by (auto simp: prior_checks_def list_all_iff)

lemma risk_snapshot_Ok: "risk_snapshot d = Ok r \<longleftrightarrow> d = Doc r \<and> risk_valid r"
  by (auto simp: risk_snapshot_def parse_risk_def split: doc.splits if_splits)

lemma advance_body_prior:
  assumes "advance_body digest prev cp as acct now = Inr r" and "cp_risk prev = Doc p"
  shows "\<exists>observed equity h. prior_checks p acct observed h = Inr ()
    \<and> next_risk (Some p) acct observed equity h = Inr r"
  using assms by (auto simp: advance_body_def bindr_Inr_iff risk_snapshot_Ok Let_def)

text \<open>The next snapshot extends the previous one.\<close>

definition extends :: "account_risk \<Rightarrow> account_risk \<Rightarrow> bool" where
  "extends p r = (ar_account_id r = ar_account_id p
     \<and> ar_baseline_observed_at r = ar_baseline_observed_at p \<and> ar_baseline_equity r = ar_baseline_equity p
     \<and> ar_baseline_cash_flows r = ar_baseline_cash_flows p \<and> ar_journals r = ar_journals p
     \<and> set (ar_transfers p) \<subseteq> set (ar_transfers r) \<and> ar_observed_at p \<le> ar_observed_at r
     \<and> ar_high_water_mark r = max (ar_high_water_mark p) (ar_adjusted_equity r))"

lemma advance_body_extends:
  assumes "advance_body digest prev cp as acct now = Inr r" and "cp_risk prev = Doc p"
  shows "risk_valid r \<and> extends p r"
proof -
  obtain observed equity h where c: "prior_checks p acct observed h = Inr ()"
      and n: "next_risk (Some p) acct observed equity h = Inr r"
    using advance_body_prior [OF assms] by blast
  have "set (ar_transfers p) \<subseteq> set (ch_transfers h)"
  proof (rule subrelI)
    fix i d assume "(i, d) \<in> set (ar_transfers p)"
    then have "map_of (rev (ch_transfers h)) i = Some d" using prior_checks_ok [OF c] by auto
    then show "(i, d) \<in> set (ch_transfers h)" by (auto dest: map_of_SomeD)
  qed
  then show ?thesis using prior_checks_ok [OF c] next_risk_Some [OF n] by (auto simp: extends_def)
qed

text \<open>
  An accepted observation only ever extends the series: the account, the baseline and the
  frozen cash journals stay, every accepted transfer is kept, time does not run backwards and the
  high-water mark becomes the maximum of itself and the new adjusted equity. An observation that is
  not accepted leaves the stored series as it was and records an error.
\<close>

theorem advance_extends_series:
  assumes "cp_risk previous = Doc p"
  shows "let new = advance_risk_checkpoint digest previous cp activities account_id now in
    (\<exists>r. rk_risk new = Doc r \<and> risk_valid r \<and> extends p r \<and> rk_error new = None \<and> rk_invalidation new = None)
    \<or> rk_risk new = Doc p \<and> rk_error new \<noteq> None"
proof (cases "told (cp_risk_invalidation previous)")
  case True
  then show ?thesis using assms by (auto simp: advance_risk_checkpoint_def Let_def told_def split: option.splits)
next
  case False
  then show ?thesis
    using assms advance_body_extends [of digest previous cp activities account_id now]
    by (auto simp: advance_risk_checkpoint_def Let_def split: sum.splits risk_fault.splits)
qed

subsection \<open>A clean history fingerprints cleanly\<close>

lemma cash_step_grows:
  assumes "cash_step digest h a = Ok h'"
  shows "(ch_transfers h' = ch_transfers h \<and> ch_journals h' = ch_journals h)
    \<or> (\<exists>i e. a_id a = Some i \<and> ch_transfers h' = ch_transfers h @ [(i, digest e)] \<and> ch_journals h' = ch_journals h)
    \<or> (\<exists>i e. a_id a = Some i \<and> ch_transfers h' = ch_transfers h \<and> ch_journals h' = ch_journals h @ [(i, digest e)])"
  using assms
  by (auto simp: cash_step_def bindr_Inr_iff Let_def getitem_def split: option.splits if_splits)

definition ids_of :: "cash_history \<Rightarrow> string list" where
  "ids_of h = map fst (ch_transfers h) @ map fst (ch_journals h)"

definition history_ok :: "cash_history \<Rightarrow> bool" where
  "history_ok h = (distinct (ids_of h) \<and> [] \<notin> set (ids_of h)
     \<and> list_all (\<lambda>(i, d). length d = 64) (ch_transfers h @ ch_journals h))"

lemma cash_loop_ok:
  assumes "cash_loop digest h as = Ok h'" and "\<And>e. length (digest e) = 64" and "history_ok h"
    and "distinct (map a_id as)" and "list_all (\<lambda>a. a_id a \<noteq> Some []) as"
    and "Some ` set (ids_of h) \<inter> a_id ` set as = {}"
  shows "history_ok h'"
  using assms(1,3-)
proof (induction as arbitrary: h)
  case (Cons a as)
  then obtain h1 where h1: "cash_step digest h a = Ok h1" and rest: "cash_loop digest h1 as = Ok h'"
    by (auto simp: bindr_Inr_iff)
  have grown: "set (ids_of h1) = set (ids_of h)
      \<or> (\<exists>i. a_id a = Some i \<and> set (ids_of h1) = insert i (set (ids_of h)))"
    using cash_step_grows [OF h1] by (auto simp: ids_of_def)
  have "history_ok h1"
    using cash_step_grows [OF h1] Cons.prems assms(2)
    by (elim disjE exE conjE) (auto simp: history_ok_def ids_of_def image_iff)
  moreover have "Some ` set (ids_of h1) \<inter> a_id ` set as = {}"
  proof -
    have "a_id a \<notin> a_id ` set as" "Some ` set (ids_of h) \<inter> a_id ` set as = {}"
      using Cons.prems(3,5) by auto
    then show ?thesis using grown by (elim disjE exE conjE) simp_all
  qed
  ultimately show ?case using Cons.IH [OF rest] Cons.prems by simp
qed simp

lemma fingerprints_ok_sort:
  assumes "distinct (map fst fs)" "[] \<notin> fst ` set fs" "list_all (\<lambda>(i, d). length d = 64) fs"
  shows "fingerprints_ok (sort fs)"
proof -
  have "sorted (map fst (sort fs))"
    unfolding sorted_map by (rule sorted_wrt_mono_rel [OF _ sorted_sort]) (auto simp: less_eq_prod_def)
  moreover have "distinct (map fst (sort fs))" using assms(1) by (simp add: distinct_map)
  ultimately show ?thesis
    using assms(2,3)
    by (auto simp: fingerprints_ok_def Let_def list_all_iff distinct_remdups_id sorted_sort_id image_iff)
qed

lemma cash_history_fingerprints:
  assumes "cash_history_of digest as = Ok h" and "\<And>e. length (digest e) = 64" and "clean as"
  shows "fingerprints_ok (ch_transfers h) \<and> fingerprints_ok (ch_journals h)
    \<and> set (map fst (ch_transfers h)) \<inter> set (map fst (ch_journals h)) = {}"
proof -
  let ?h0 = "\<lparr>ch_total = 0, ch_transfers = [], ch_journals = []\<rparr> :: cash_history"
  obtain g where g: "cash_loop digest ?h0 as = Ok g"
      and h: "h = g\<lparr>ch_transfers := sort (ch_transfers g), ch_journals := sort (ch_journals g)\<rparr>"
    using assms(1) by (auto simp: cash_history_of_def bindr_Inr_iff)
  have "history_ok g"
    using assms(3) by (intro cash_loop_ok [OF g assms(2)])
      (auto simp: history_ok_def ids_of_def clean_def list_all_iff)
  then show ?thesis
    by (auto simp: h history_ok_def ids_of_def intro!: fingerprints_ok_sort)
qed

subsection \<open>Acceptance\<close>

lemma equity_of_exact: "rd28 (equity_of snapshot) = equity_of snapshot"
  by (simp add: equity_of_def dadd_def dec28.rd_idem split: prod.splits)

lemma validated_checkpoint_Ok:
  "validated_checkpoint cp = Ok snapshot \<longleftrightarrow> \<not> told (cp_error cp) \<and> cp_snapshot cp = Doc snapshot
     \<and> (\<exists>report t. cp_report cp = Doc report \<and> report_ready report
          \<and> as_observed_at snapshot = Aware t \<and> lr_observed_at report = Aware t)"
  by (auto simp: validated_checkpoint_def split: doc.splits stamp.splits)

lemma next_risk_accepts:
  assumes "risk_valid p" "ar_account_id p = acct" "ar_observed_at p \<le> observed"
    and "fingerprints_ok (ch_transfers h)" "set (map fst (ch_transfers h)) \<inter> set (map fst (ar_journals p)) = {}"
  shows "\<exists>r. next_risk (Some p) acct observed equity h = Inr r"
proof -
  let ?adj = "dsub equity (dsub (ch_total h) (ar_baseline_cash_flows p))"
  let ?peak = "py_max (ar_high_water_mark p) ?adj"
  have pos: "0 < ?peak" using assms(1) by (auto simp: risk_valid_iff risk_fields_ok_def py_max_def)
  then obtain d where d: "drawdown_of ?peak ?adj = Ok d" "0 \<le> d"
    using drawdown_of_total [of ?peak ?adj] by auto
  have ge: "ar_high_water_mark p \<le> ?peak" "?adj \<le> ?peak" by (auto simp: py_max_def)
  show ?thesis
    using assms d pos ge
    by (simp add: next_risk_def Let_def risk_valid_iff risk_fields_ok_def lift_def)
qed

text \<open>
  A good checkpoint is always accepted. When the stored series is valid and not invalidated, the
  checkpoint is reconciled, aware, neither future-dated nor out of order and of the same account,
  the activities are clean, the cash journals are the frozen ones and every accepted transfer is
  still there unchanged, the series advances with the account's equity and without an error.
\<close>

theorem advance_accepts_good_checkpoint:
  assumes "\<not> told (cp_risk_invalidation previous)" and "cp_risk previous = Doc p" and "risk_valid p"
    and "validated_checkpoint cp = Ok snapshot" and "as_observed_at snapshot = Aware t"
    and "ar_observed_at p \<le> t" and "t \<le> current"
    and "as_account_id snapshot = account_id" and "ar_account_id p = account_id"
    and "clean activities" and "cash_history_of digest activities = Ok h"
    and "ch_journals h = ar_journals p" and "set (ar_transfers p) \<subseteq> set (ch_transfers h)"
    and "\<And>e. length (digest e) = 64"
  shows "\<exists>r. advance_risk_checkpoint digest previous cp activities account_id (Aware current)
      = \<lparr>rk_risk = Doc r, rk_error = None, rk_invalidation = None\<rparr> \<and> ar_equity r = equity_of snapshot"
proof -
  note fp = cash_history_fingerprints [OF assms(11) assms(14) assms(10)]
  have "distinct (map fst (ch_transfers h))"
    using fp by (metis distinct_remdups distinct_sort fingerprints_ok_def)
  then have "list_all (\<lambda>(i, d). map_of (rev (ch_transfers h)) i = Some d) (ar_transfers p)"
    using assms(13) by (auto simp: list_all_iff rev_map [symmetric] intro!: map_of_is_SomeI)
  then have checks: "prior_checks p account_id t h = Inr ()"
    using assms by (simp add: prior_checks_def)
  obtain r where r: "next_risk (Some p) account_id t (equity_of snapshot) h = Inr r"
    using next_risk_accepts [OF assms(3,9,6)] fp assms(12) by metis
  have "advance_body digest previous cp activities account_id (Aware current) = Inr r"
    using assms checks r by (simp add: advance_body_def lift_def Let_def risk_snapshot_def parse_risk_def)
  then show ?thesis
    using assms(1) next_risk_Some [OF r] by (auto simp: advance_risk_checkpoint_def Let_def)
qed

subsection \<open>Reading the series\<close>

lemma total_seconds_nonneg [simp]: "0 \<le> total_seconds us \<longleftrightarrow> 0 \<le> us"
proof (cases "0 \<le> us")
  case False
  then have "rat_of_int us \<le> rat_of_int (- 1)" by (intro of_int_le_iff [THEN iffD2]) simp
  then have "of_int us / 1000000 \<le> - (1 / 2 ^ 20 :: rat)" by (simp add: field_simps)
  then have "total_seconds us \<le> b64 (- (1 / 2 ^ 20))" unfolding total_seconds_def by (rule b64_mono)
  also have "\<dots> = Num (- (1 / 2 ^ 20))" using b64_dyadic [of "-1" 20] by simp
  finally show ?thesis using False by (cases "total_seconds us") simp_all
qed (simp add: total_seconds_def)

text \<open>
  Risk evidence is only ever read as the validated series of the same fresh, reconciled
  checkpoint: \<open>require_risk_checkpoint\<close> returns a snapshot exactly when the freshness bound is finite
  and positive, no error or invalidation is recorded, the checkpoint is reconciled, and the stored
  series is valid, of the same account, observation time and equity, and not older than the bound
  nor future-dated. There is no default drawdown.
\<close>

theorem require_risk_checkpoint_exact:
  "require_risk_checkpoint payload max_age (Aware current) = Ok r \<longleftrightarrow>
     isfinite max_age \<and> 0 < max_age
     \<and> \<not> told (cp_risk_invalidation payload) \<and> \<not> told (cp_risk_error payload)
     \<and> (\<exists>snapshot. validated_checkpoint payload = Ok snapshot
          \<and> ar_account_id r = as_account_id snapshot
          \<and> as_observed_at snapshot = Aware (ar_observed_at r) \<and> ar_equity r = equity_of snapshot)
     \<and> cp_risk payload = Doc r \<and> risk_valid r
     \<and> ar_observed_at r \<le> current \<and> total_seconds (current - ar_observed_at r) \<le> max_age"
proof -
  have "isfinite max_age \<Longrightarrow> \<not> max_age \<le> 0 \<longleftrightarrow> 0 < max_age"
    by (auto simp: isfinite_iff not_le)
  then show ?thesis
    by (auto simp: require_risk_checkpoint_def bindr_Inr_iff risk_snapshot_Ok Let_def)
qed

subsection \<open>An example\<close>

definition demo_digest :: "cash_evidence \<Rightarrow> string" where
  "demo_digest e = replicate 64 (CHR ''0'')"

definition demo_deposit :: activity where
  "demo_deposit = \<lparr>a_id = Some ''1'', a_type = Some ''CSD'', a_qty = None, a_price = None,
     a_net_amount = Some (WDec 100), a_side = None, a_symbol = None, a_order_id = None,
     a_transaction_time = None, a_date = Some ''2026-01-05'', a_status = None, a_asset_class = None,
     a_when = None, a_rest = []\<rparr>"

definition demo_fee :: activity where
  "demo_fee = demo_deposit\<lparr>a_id := Some ''2'', a_type := Some ''FEE'', a_net_amount := Some (WDec (- 10))\<rparr>"

definition demo_snapshot :: "int \<Rightarrow> dec \<Rightarrow> account_snapshot" where
  "demo_snapshot t c = \<lparr>as_account_id = ''acct'', as_cash = c, as_positions = [], as_observed_at = Aware t\<rparr>"

definition demo_checkpoint :: "activity list \<Rightarrow> int \<Rightarrow> dec \<Rightarrow> checkpoint" where
  "demo_checkpoint as t c = \<lparr>cp_error = None, cp_report = Doc (reconcile as (demo_snapshot t c) (1 / 100) []),
     cp_snapshot = Doc (demo_snapshot t c), cp_risk = Absent, cp_risk_error = None,
     cp_risk_invalidation = None, cp_checked_at = None\<rparr>"

definition demo_risk :: account_risk where
  "demo_risk = \<lparr>ar_account_id = ''acct'', ar_baseline_observed_at = 0, ar_baseline_equity = 100,
     ar_baseline_cash_flows = 100, ar_observed_at = 0, ar_equity = 100, ar_cash_flows = 100,
     ar_adjusted_equity = 100, ar_high_water_mark = 100, ar_drawdown_pct = 0,
     ar_transfers = [(''1'', replicate 64 (CHR ''0''))], ar_journals = []\<rparr>"

lemmas demo_ledger_defs = demo_deposit_def demo_fee_def demo_snapshot_def demo_checkpoint_def
  ledger_fold_def ledger_start_def ledger_step_def activity_effect_def cash_effect_def apply_effect_def
  getitem_def CASH_TRANSFERS_def FEES_def INCOME_def inventory_of_def qty_at_def
  dadd_def dsub_def dmul_def dabs_def Let_def

lemma demo_ready: "report_ready (reconcile [demo_deposit, demo_fee] (demo_snapshot t 90) (1 / 100) [])"
  by (simp add: report_ready_def reconcile_def demo_ledger_defs)

lemma demo_clean: "clean [demo_deposit, demo_fee]"
  by (simp add: clean_def understood_def demo_ledger_defs)

lemma demo_history: "cash_history_of demo_digest [demo_deposit, demo_fee]
  = Ok \<lparr>ch_total = 100, ch_transfers = [(''1'', replicate 64 (CHR ''0''))], ch_journals = []\<rparr>"
  by (simp add: cash_history_of_def cash_step_def cash_amount_def demo_ledger_defs demo_digest_def)

lemma demo_risk_valid: "risk_valid demo_risk"
  by (simp add: risk_valid_iff risk_fields_ok_def demo_risk_def drawdown_of_def ddiv_def dsub_def
      py_max_def fingerprints_ok_def)

definition demo_previous :: checkpoint where
  "demo_previous = (demo_checkpoint [demo_deposit] 0 100)\<lparr>cp_risk := Doc demo_risk\<rparr>"

lemma demo_validated:
  "validated_checkpoint (demo_checkpoint [demo_deposit, demo_fee] t 90) = Ok (demo_snapshot t 90)"
proof -
  have "lr_observed_at (reconcile [demo_deposit, demo_fee] (demo_snapshot t 90) (1 / 100) []) = Aware t"
    by (simp add: reconcile_def Let_def demo_snapshot_def)
  then show ?thesis using demo_ready
    by (simp add: validated_checkpoint_Ok demo_checkpoint_def told_def) (simp add: demo_snapshot_def)
qed

theorem advance_extends_series_witness:
  "let new = advance_risk_checkpoint demo_digest demo_previous
      (demo_checkpoint [demo_deposit, demo_fee] 1 90) [demo_deposit, demo_fee] ''acct'' (Aware 1) in
    (\<exists>r. rk_risk new = Doc r \<and> risk_valid r \<and> extends demo_risk r \<and> rk_error new = None \<and> rk_invalidation new = None)
    \<or> rk_risk new = Doc demo_risk \<and> rk_error new \<noteq> None"
  by (rule advance_extends_series) (simp add: demo_previous_def)

theorem advance_accepts_good_checkpoint_witness:
  "\<exists>r. advance_risk_checkpoint demo_digest demo_previous
      (demo_checkpoint [demo_deposit, demo_fee] 1 90) [demo_deposit, demo_fee] ''acct'' (Aware 1)
      = \<lparr>rk_risk = Doc r, rk_error = None, rk_invalidation = None\<rparr> \<and> ar_equity r = 90"
proof -
  have "equity_of (demo_snapshot 1 90) = 90" by (simp add: equity_of_def demo_snapshot_def dadd_def)
  moreover have "length (demo_digest e) = 64" for e by (simp add: demo_digest_def)
  ultimately show ?thesis
    using advance_accepts_good_checkpoint [of demo_previous demo_risk "demo_checkpoint [demo_deposit, demo_fee] 1 90"
      "demo_snapshot 1 90" 1 1 "''acct''" "[demo_deposit, demo_fee]" demo_digest, OF _ _ demo_risk_valid demo_validated
      _ _ _ _ _ demo_clean demo_history]
    by (simp add: demo_previous_def demo_checkpoint_def demo_snapshot_def told_def demo_risk_def)
qed

end
