(* ===== verification/Event_Log.thy ===== *)
theory Event_Log
  imports Prelude
begin

text \<open>
  The contract between an append-only journal and the projections kept beside it. Every store of
  the program promises it: a transaction appends events and brings its projection to what
  replaying those events gives. What the clients of a store rely on is proved here once.
\<close>

locale event_sourced =
  fixes journal :: "'s \<Rightarrow> 'e list"
    and project :: "'s \<Rightarrow> 'p"
    and apply_event :: "'p \<Rightarrow> 'e \<Rightarrow> 'p"
    and empty_view :: 'p
    and wf :: "'s \<Rightarrow> bool"
    and trans :: "'s \<Rightarrow> 's \<Rightarrow> bool"
  assumes trans_wf: "wf s \<Longrightarrow> trans s t \<Longrightarrow> wf t"
    and trans_appends:
      "wf s \<Longrightarrow> project s = foldl apply_event empty_view (journal s) \<Longrightarrow> trans s t \<Longrightarrow>
        \<exists>es. journal t = journal s @ es \<and> project t = foldl apply_event (project s) es"
begin

definition replayed :: "'s \<Rightarrow> bool" where
  "replayed s = (wf s \<and> project s = foldl apply_event empty_view (journal s))"

lemma trans_replayed: "replayed s \<Longrightarrow> trans s t \<Longrightarrow> replayed t"
  unfolding replayed_def using trans_wf trans_appends [of s t] by fastforce

lemma run_replayed: "trans\<^sup>*\<^sup>* s t \<Longrightarrow> replayed s \<Longrightarrow> replayed t"
  by (induction rule: rtranclp_induct) (auto intro: trans_replayed)

text \<open>Replaying the journal of a reachable state gives its projection.\<close>

lemma replay_eq: "trans\<^sup>*\<^sup>* s t \<Longrightarrow> replayed s \<Longrightarrow> foldl apply_event empty_view (journal t) = project t"
  using run_replayed [of s t] by (simp add: replayed_def)

text \<open>The journal is append-only.\<close>

lemma journal_grows: "trans\<^sup>*\<^sup>* s t \<Longrightarrow> replayed s \<Longrightarrow> \<exists>es. journal t = journal s @ es"
proof (induction rule: rtranclp_induct)
  case (step t u)
  then obtain es where "journal t = journal s @ es" by auto
  moreover have "replayed t" using step run_replayed by blast
  then obtain fs where "journal u = journal t @ fs"
    using trans_appends [of t u] step.hyps(2) unfolding replayed_def by blast
  ultimately show ?case by simp
qed simp

end

end
