(* ===== verification/Ledger_Store.thy ===== *)
theory Ledger_Store
  imports Account_Risk Event_Log
begin

text \<open>
  The account-bound ledger store (\<open>storage/ledger.py\<close>) and its importer (\<open>accounting/service.py\<close>).
  Each operation is one transaction under the ledger lock: it either returns the new store with
  its result, or raises and leaves the store as it was.
\<close>

subsection \<open>State\<close>

datatype ledger_event =
    AccountBound string
  | ActivityObserved activity
  | ActivityRetracted string
  | LedgerCheckpoint checkpoint

record ledger_row =
  lw_account_id :: string
  lw_token :: string
  lw_payload :: checkpoint

text \<open>
  The checkpoint row, the activity projection (identity, event and document) and the ledger's part of
  the journal, with the next event identity; the identity grows with every event of the journal.
\<close>

record ledger_store =
  st_row :: "ledger_row option"
  st_views :: "(string \<times> nat \<times> activity) list"
  st_events :: "(nat \<times> ledger_event) list"
  st_next :: nat

definition empty_checkpoint :: checkpoint where
  "empty_checkpoint = \<lparr>cp_error = None, cp_report = Absent, cp_snapshot = Absent, cp_risk = Absent,
     cp_risk_error = None, cp_risk_invalidation = None, cp_checked_at = None\<rparr>"

definition ledger_append :: "ledger_event \<Rightarrow> ledger_store \<Rightarrow> ledger_store" where
  "ledger_append ev st = st\<lparr>st_events := st_events st @ [(st_next st, ev)], st_next := Suc (st_next st)\<rparr>"

text \<open>Other streams share the journal: their events only use up identities.\<close>

definition other_event :: "ledger_store \<Rightarrow> ledger_store" where
  "other_event st = st\<lparr>st_next := Suc (st_next st)\<rparr>"

subsection \<open>Operations\<close>

definition BOUND_ELSEWHERE :: py_exc where
  "BOUND_ELSEWHERE = ValueError (msg ''Broker account differs from the ledger binding'')"

definition SUPERSEDED :: py_exc where
  "SUPERSEDED = RuntimeError (msg ''Ledger refresh superseded by another importer'')"

definition ledger_begin ::
  "string option \<Rightarrow> string \<Rightarrow> ledger_store \<Rightarrow> (ledger_store \<times> string) result" where
  "ledger_begin account_id token st =
     (let given = (case account_id of Some a \<Rightarrow> a | None \<Rightarrow> []);
          old = (case st_row st of None \<Rightarrow> \<lparr>lw_account_id = [], lw_token = token, lw_payload = empty_checkpoint\<rparr>
                 | Some r \<Rightarrow> r)
      in raise_if (st_row st \<noteq> None \<and> lw_account_id old \<noteq> [] \<and> given \<noteq> [] \<and> lw_account_id old \<noteq> given) BOUND_ELSEWHERE
        (let row = old\<lparr>lw_token := token\<rparr>
         in if given \<noteq> [] \<and> lw_account_id row = []
            then Ok (ledger_append (AccountBound given) (st\<lparr>st_row := Some (row\<lparr>lw_account_id := given\<rparr>)\<rparr>), token)
            else Ok (st\<lparr>st_row := Some row\<rparr>, token)))"

definition ledger_bind :: "string \<Rightarrow> string \<Rightarrow> ledger_store \<Rightarrow> (ledger_store \<times> unit) result" where
  "ledger_bind token account_id st =
     raise_if (account_id = []) (ValueError (msg ''Missing broker account identity''))
     (case st_row st of
        None \<Rightarrow> Raise SUPERSEDED
      | Some row \<Rightarrow>
          raise_if (lw_token row \<noteq> token) SUPERSEDED
         (raise_if (lw_account_id row \<noteq> [] \<and> lw_account_id row \<noteq> account_id) BOUND_ELSEWHERE
         (if lw_account_id row = []
          then Ok (ledger_append (AccountBound account_id) (st\<lparr>st_row := Some (row\<lparr>lw_account_id := account_id\<rparr>)\<rparr>), ())
          else Ok (st, ()))))"

text \<open>One activity document of an import: unchanged evidence writes nothing.\<close>

definition observe_activity :: "ledger_store \<Rightarrow> string \<times> activity \<Rightarrow> ledger_store" where
  "observe_activity st ia = (case ia of (i, a) \<Rightarrow>
     if map_option snd (map_of (st_views st) i) = Some a then st
     else ledger_append (ActivityObserved a) (st\<lparr>st_views := AList.update i (st_next st, a) (st_views st)\<rparr>))"

definition retract_activity :: "ledger_store \<Rightarrow> string \<Rightarrow> ledger_store" where
  "retract_activity st i = ledger_append (ActivityRetracted i) (st\<lparr>st_views := AList.delete i (st_views st)\<rparr>)"

fun activity_ids :: "activity list \<Rightarrow> string list result" where
  "activity_ids [] = Ok []"
| "activity_ids (a # as) = bindr (getitem ''id'' (a_id a)) (\<lambda>i. bindr (activity_ids as) (\<lambda>is. Ok (i # is)))"

definition committed_checkpoint ::
  "(cash_evidence \<Rightarrow> string) \<Rightarrow> ledger_row \<Rightarrow> activity list \<Rightarrow> checkpoint \<Rightarrow> int \<Rightarrow> checkpoint" where
  "committed_checkpoint digest row activities cp now =
     (let payload = cp\<lparr>cp_error := None, cp_checked_at := Some now\<rparr>;
          rk = advance_risk_checkpoint digest (lw_payload row) payload activities (lw_account_id row) (Aware now)
      in payload\<lparr>cp_risk := rk_risk rk, cp_risk_error := rk_error rk, cp_risk_invalidation := rk_invalidation rk\<rparr>)"

definition ledger_commit ::
  "(cash_evidence \<Rightarrow> string) \<Rightarrow> string \<Rightarrow> activity list \<Rightarrow> checkpoint \<Rightarrow> int \<Rightarrow> ledger_store
     \<Rightarrow> (ledger_store \<times> bool) result" where
  "ledger_commit digest token activities cp now st =
     bindr (activity_ids activities) (\<lambda>ids.
     raise_if (\<not> distinct ids \<or> [] \<in> set ids) (ValueError (msg ''Duplicate/missing activity identity''))
     (case st_row st of
        None \<Rightarrow> Ok (st, False)
      | Some row \<Rightarrow>
          if lw_token row \<noteq> token then Ok (st, False)
          else raise_if (lw_account_id row = []) (ValueError (msg ''Ledger requires a bound broker account''))
            (let gone = filter (\<lambda>i. i \<notin> set ids) (map fst (st_views st));
                 st1 = foldl observe_activity st (zip ids activities);
                 st2 = foldl retract_activity st1 gone;
                 payload = committed_checkpoint digest row activities cp now
             in Ok (ledger_append (LedgerCheckpoint payload) (st2\<lparr>st_row := Some (row\<lparr>lw_payload := payload\<rparr>)\<rparr>), True))))"

definition ledger_fail :: "string \<Rightarrow> string \<Rightarrow> int \<Rightarrow> ledger_store \<Rightarrow> ledger_store" where
  "ledger_fail token err now st = (case st_row st of
     None \<Rightarrow> st
   | Some row \<Rightarrow>
       if lw_token row = token
       then let payload = (lw_payload row)\<lparr>cp_error := Some (msg err), cp_checked_at := Some now\<rparr>
            in ledger_append (LedgerCheckpoint payload) (st\<lparr>st_row := Some (row\<lparr>lw_payload := payload\<rparr>)\<rparr>)
       else st)"

definition ledger_status :: "ledger_store \<Rightarrow> checkpoint" where
  "ledger_status st = (case st_row st of None \<Rightarrow> empty_checkpoint | Some row \<Rightarrow> lw_payload row)"

subsection \<open>Rebuilding from the journal\<close>

record ledger_view =
  lv_account :: string
  lv_checkpoint :: checkpoint
  lv_views :: "string \<rightharpoonup> nat \<times> activity"

definition empty_ledger_view :: ledger_view where
  "empty_ledger_view = \<lparr>lv_account = [], lv_checkpoint = empty_checkpoint, lv_views = Map.empty\<rparr>"

definition apply_ledger_event :: "ledger_view \<Rightarrow> nat \<times> ledger_event \<Rightarrow> ledger_view" where
  "apply_ledger_event v e = (case snd e of
     AccountBound a \<Rightarrow> v\<lparr>lv_account := a\<rparr>
   | ActivityObserved a \<Rightarrow> (case a_id a of None \<Rightarrow> v | Some i \<Rightarrow> v\<lparr>lv_views := (lv_views v)(i \<mapsto> (fst e, a))\<rparr>)
   | ActivityRetracted i \<Rightarrow> v\<lparr>lv_views := (lv_views v)(i := None)\<rparr>
   | LedgerCheckpoint c \<Rightarrow> v\<lparr>lv_checkpoint := c\<rparr>)"

definition ledger_project :: "ledger_store \<Rightarrow> ledger_view" where
  "ledger_project st = \<lparr>lv_account = (case st_row st of None \<Rightarrow> [] | Some r \<Rightarrow> lw_account_id r),
     lv_checkpoint = ledger_status st, lv_views = map_of (st_views st)\<rparr>"

text \<open>The rows the rebuild inserts: its loop keeps the dictionary \<open>views\<close> as an association list.\<close>

fun rebuild_views :: "(string \<times> nat \<times> activity) list \<Rightarrow> (nat \<times> ledger_event) list \<Rightarrow> (string \<times> nat \<times> activity) list" where
  "rebuild_views vs [] = vs"
| "rebuild_views vs ((n, ev) # es) = rebuild_views (case ev of
     ActivityObserved a \<Rightarrow> (case a_id a of None \<Rightarrow> vs | Some i \<Rightarrow> AList.update i (n, a) vs)
   | ActivityRetracted i \<Rightarrow> AList.delete i vs
   | _ \<Rightarrow> vs) es"

definition ledger_rebuild :: "string \<Rightarrow> ledger_store \<Rightarrow> ledger_store \<times> nat" where
  "ledger_rebuild token st =
     (let v = foldl apply_ledger_event empty_ledger_view (st_events st)
      in (st\<lparr>st_row := (if st_events st = [] then None
                 else Some \<lparr>lw_account_id = lv_account v, lw_token = token, lw_payload = lv_checkpoint v\<rparr>),
             st_views := rebuild_views [] (st_events st)\<rparr>, length (st_events st)))"

subsection \<open>Every transaction appends what it projects\<close>

inductive ledger_trans :: "(cash_evidence \<Rightarrow> string) \<Rightarrow> ledger_store \<Rightarrow> ledger_store \<Rightarrow> bool"
  for digest :: "cash_evidence \<Rightarrow> string" where
  begins: "ledger_begin acct tok st = Ok (st', t) \<Longrightarrow> ledger_trans digest st st'"
| binds: "ledger_bind tok acct st = Ok (st', u) \<Longrightarrow> ledger_trans digest st st'"
| commits: "ledger_commit digest tok as cp now st = Ok (st', b) \<Longrightarrow> ledger_trans digest st st'"
| fails: "ledger_trans digest st (ledger_fail tok err now st)"
| rebuilds: "ledger_trans digest st (fst (ledger_rebuild tok st))"
| others: "ledger_trans digest st (other_event st)"

definition appends :: "ledger_store \<Rightarrow> ledger_store \<Rightarrow> bool" where
  "appends st st' = (\<exists>es. st_events st' = st_events st @ es
     \<and> ledger_project st' = foldl apply_ledger_event (ledger_project st) es)"

definition ids_ok :: "ledger_store \<Rightarrow> bool" where
  "ids_ok st = (sorted_wrt (<) (map fst (st_events st)) \<and> list_all (\<lambda>e. fst e < st_next st) (st_events st))"

lemma appends_refl [simp]: "appends st st" by (simp add: appends_def)

lemma appends_trans: "appends a b \<Longrightarrow> appends b c \<Longrightarrow> appends a c"
  unfolding appends_def by force

lemma appends_foldl: "(\<And>s x. x \<in> set xs \<Longrightarrow> appends s (f s x)) \<Longrightarrow> appends st (foldl f st xs)"
  by (induction xs arbitrary: st) (auto intro: appends_trans)

lemma ids_ok_foldl: "(\<And>s x. ids_ok s \<Longrightarrow> ids_ok (f s x)) \<Longrightarrow> ids_ok st \<Longrightarrow> ids_ok (foldl f st xs)"
  by (induction xs arbitrary: st) auto

lemma ids_ok_append [simp]: "ids_ok (ledger_append ev st) \<longleftrightarrow> ids_ok st"
  unfolding ids_ok_def ledger_append_def
  by (auto simp: sorted_wrt_append list_all_iff less_Suc_eq)

lemma ids_ok_upd [simp]: "ids_ok (s\<lparr>st_views := v\<rparr>) = ids_ok s" "ids_ok (s\<lparr>st_row := r\<rparr>) = ids_ok s"
  by (simp_all add: ids_ok_def)

lemma project_append [simp]: "ledger_project (ledger_append ev st) = ledger_project st"
  by (simp add: ledger_project_def ledger_status_def ledger_append_def)

lemma appends_one:
  assumes "st_events st' = st_events st"
    and "ledger_project st' = apply_ledger_event (ledger_project st) (st_next st', ev)"
  shows "appends st (ledger_append ev st')"
  using assms unfolding appends_def by (intro exI [of _ "[(st_next st', ev)]"]) (simp_all, simp add: ledger_append_def)

lemmas ledger_project_defs = ledger_project_def ledger_status_def apply_ledger_event_def

lemma observe_appends: "a_id a = Some i \<Longrightarrow> appends st (observe_activity st (i, a))"
  unfolding observe_activity_def
  by (auto intro!: appends_one simp: ledger_project_defs update_conv')

lemma retract_appends: "appends st (retract_activity st i)"
  unfolding retract_activity_def
  by (auto intro!: appends_one simp: ledger_project_defs delete_conv')

lemma activity_ids_Ok: "activity_ids as = Ok is \<Longrightarrow> map a_id as = map Some is"
  by (induction as arbitrary: "is") (auto simp: bindr_Inr_iff getitem_def split: option.splits)

lemma activity_ids_zip: "activity_ids as = Ok is \<Longrightarrow> (i, a) \<in> set (zip is as) \<Longrightarrow> a_id a = Some i"
  by (drule activity_ids_Ok) (auto simp: in_set_zip list_eq_iff_nth_eq)

text \<open>A committed import, split into its parts.\<close>

lemma ledger_commit_cases:
  assumes "ledger_commit digest token as cp now st = Ok (st', b)"
  obtains (refused) "st' = st" "\<not> b" "\<forall>row. st_row st = Some row \<longrightarrow> lw_token row \<noteq> token"
  | (committed) ids row st2 where "b" "st_row st = Some row" "lw_token row = token" "lw_account_id row \<noteq> []"
      "activity_ids as = Ok ids" "distinct ids" "[] \<notin> set ids"
      "st2 = foldl retract_activity (foldl observe_activity st (zip ids as))
        (filter (\<lambda>i. i \<notin> set ids) (map fst (st_views st)))"
      "st' = ledger_append (LedgerCheckpoint (committed_checkpoint digest row as cp now))
        (st2\<lparr>st_row := Some (row\<lparr>lw_payload := committed_checkpoint digest row as cp now\<rparr>)\<rparr>)"
proof -
  obtain ids where ids: "activity_ids as = Ok ids" "distinct ids" "[] \<notin> set ids"
    using assms by (auto simp: ledger_commit_def bindr_Inr_iff)
  show thesis
  proof (cases "st_row st")
    case None
    then show ?thesis using assms ids refused by (simp add: ledger_commit_def)
  next
    case (Some row)
    show ?thesis
    proof (cases "lw_token row = token")
      case True
      then have "lw_account_id row \<noteq> []" using assms ids Some by (auto simp: ledger_commit_def)
      then show ?thesis using assms ids Some True
        by (intro committed [of row ids, OF _ Some True _ ids refl]) (simp_all add: ledger_commit_def Let_def)
    next
      case False
      then show ?thesis using assms ids Some refused by (simp add: ledger_commit_def)
    qed
  qed
qed

lemma commit_row_kept:
  "st_row (foldl retract_activity s is) = st_row s" "st_row (foldl observe_activity s ias) = st_row s"
proof -
  show "st_row (foldl retract_activity s is) = st_row s"
    by (induction "is" arbitrary: s) (simp_all add: retract_activity_def ledger_append_def)
  show "st_row (foldl observe_activity s ias) = st_row s"
    by (induction ias arbitrary: s) (simp_all add: observe_activity_def ledger_append_def split: prod.splits)
qed

lemma commit_appends:
  assumes "ledger_commit digest token as cp now st = Ok (st', b)"
  shows "appends st st'"
  using assms
proof (cases rule: ledger_commit_cases)
  case (committed ids row st2)
  have row: "st_row st2 = Some row" using committed by (simp add: commit_row_kept)
  have "appends st (foldl observe_activity st (zip ids as))"
    using activity_ids_zip [OF committed(5)] by (intro appends_foldl) (auto intro: observe_appends)
  then have "appends st st2"
    unfolding committed(8) by (rule appends_trans) (intro appends_foldl retract_appends)
  moreover have "appends st2 st'"
    unfolding committed(9) by (rule appends_one) (simp_all add: ledger_project_defs row)
  ultimately show ?thesis by (rule appends_trans)
qed simp

lemma commit_ids_ok:
  assumes "ledger_commit digest token as cp now st = Ok (st', b)" "ids_ok st"
  shows "ids_ok st'"
  using assms(1)
proof (cases rule: ledger_commit_cases)
  case (committed ids row st2)
  have "ids_ok st2" unfolding committed(8)
    by (intro ids_ok_foldl assms(2)) (auto simp: observe_activity_def retract_activity_def split: prod.splits)
  then show ?thesis using committed by simp
qed (use assms(2) in simp)

lemma rebuild_views_map:
  "lv_views (foldl apply_ledger_event v es) = map_of (rebuild_views vs es)"
  if "lv_views v = map_of vs"
  using that
proof (induction vs es arbitrary: v rule: rebuild_views.induct)
  case (2 vs n ev es)
  have "lv_views (apply_ledger_event v (n, ev)) = map_of (case ev of
     ActivityObserved a \<Rightarrow> (case a_id a of None \<Rightarrow> vs | Some i \<Rightarrow> AList.update i (n, a) vs)
   | ActivityRetracted i \<Rightarrow> AList.delete i vs | _ \<Rightarrow> vs)"
    using 2(2) by (auto simp: apply_ledger_event_def update_conv' delete_conv' split: ledger_event.splits option.splits)
  then show ?case using 2(1) by simp
qed simp

lemma rebuild_project:
  "ledger_project (fst (ledger_rebuild tok st)) = foldl apply_ledger_event empty_ledger_view (st_events st)"
proof -
  have "map_of (rebuild_views [] (st_events st)) = lv_views (foldl apply_ledger_event empty_ledger_view (st_events st))"
    by (rule rebuild_views_map [symmetric]) (simp add: empty_ledger_view_def)
  then show ?thesis
    by (auto simp: ledger_rebuild_def Let_def ledger_project_def ledger_status_def)
      (simp_all add: empty_ledger_view_def)
qed

lemma ids_ok_other: "ids_ok st \<Longrightarrow> ids_ok (other_event st)"
  unfolding ids_ok_def other_event_def by (auto simp: list_all_iff intro: less_SucI)

lemma begin_appends: "ledger_begin acct tok st = Ok (st', t) \<Longrightarrow> appends st st'"
  unfolding ledger_begin_def Let_def
  by (cases "st_row st"; cases acct)
    (auto simp: appends_def ledger_project_defs ledger_append_def split: if_splits)

lemma bind_appends: "ledger_bind tok acct st = Ok (st', u) \<Longrightarrow> appends st st'"
  unfolding ledger_bind_def
  by (cases "st_row st") (auto intro!: appends_one simp: ledger_project_defs split: if_splits)

lemma fail_appends: "appends st (ledger_fail tok err now st)"
  unfolding ledger_fail_def Let_def
  by (cases "st_row st") (auto intro!: appends_one simp: ledger_project_defs)

lemma other_appends: "appends st (other_event st)"
  by (simp add: appends_def other_event_def ledger_project_defs)

lemmas ledger_appends = begin_appends bind_appends commit_appends fail_appends other_appends

interpretation ledger_log: event_sourced st_events ledger_project apply_ledger_event empty_ledger_view
  ids_ok "ledger_trans digest" for digest
proof unfold_locales
  fix s t assume "ids_ok s" "ledger_trans digest s t"
  from this(2,1) show "ids_ok t"
    by (induction rule: ledger_trans.induct)
      (auto simp: commit_ids_ok ids_ok_other ledger_begin_def ledger_bind_def ledger_fail_def ledger_rebuild_def
        Let_def split: option.splits if_splits)
next
  fix s t assume "ids_ok s" and rep: "ledger_project s = foldl apply_ledger_event empty_ledger_view (st_events s)"
    and "ledger_trans digest s t"
  from this(3,2) have "appends s t"
  proof (induction rule: ledger_trans.induct)
    case (rebuilds st tok)
    then have "ledger_project (fst (ledger_rebuild tok st)) = ledger_project st"
      using rebuild_project [of tok st] by simp
    then show ?case by (auto simp: appends_def ledger_rebuild_def Let_def intro!: exI [of _ "[]"])
  qed (simp_all add: ledger_appends)
  then show "\<exists>es. st_events t = st_events s @ es \<and> ledger_project t = foldl apply_ledger_event (ledger_project s) es"
    by (simp add: appends_def)
qed

subsection \<open>The risk series over a run of the store\<close>

definition series_kept :: "checkpoint \<Rightarrow> checkpoint \<Rightarrow> bool" where
  "series_kept c d =
     ((case cp_risk c of Doc p \<Rightarrow>
         (case cp_risk d of Doc r \<Rightarrow> ar_account_id r = ar_account_id p
            \<and> ar_baseline_observed_at r = ar_baseline_observed_at p \<and> ar_baseline_equity r = ar_baseline_equity p
            \<and> ar_baseline_cash_flows r = ar_baseline_cash_flows p \<and> ar_journals r = ar_journals p
            \<and> set (ar_transfers p) \<subseteq> set (ar_transfers r) \<and> ar_observed_at p \<le> ar_observed_at r
            \<and> ar_high_water_mark p \<le> ar_high_water_mark r
          | _ \<Rightarrow> False) | _ \<Rightarrow> True)
      \<and> (told (cp_risk_invalidation c) \<longrightarrow>
           cp_risk_invalidation d = cp_risk_invalidation c \<and> cp_risk d = cp_risk c))"

lemma series_kept_refl [simp]: "series_kept c c"
  by (simp add: series_kept_def split: doc.splits)

lemma series_kept_trans: "series_kept a b \<Longrightarrow> series_kept b c \<Longrightarrow> series_kept a c"
  unfolding series_kept_def by (auto split: doc.splits)

lemma series_kept_cong:
  "cp_risk c = cp_risk d \<Longrightarrow> cp_risk_invalidation c = cp_risk_invalidation d \<Longrightarrow> series_kept c d"
  unfolding series_kept_def by (auto split: doc.splits)

lemma commit_series: "series_kept (lw_payload row) (committed_checkpoint digest row as cp now)"
proof (cases "told (cp_risk_invalidation (lw_payload row))")
  case True
  then show ?thesis
    by (intro series_kept_cong) (simp_all add: committed_checkpoint_def advance_risk_checkpoint_def Let_def)
next
  case False
  show ?thesis
  proof (cases "advance_body digest (lw_payload row) (cp\<lparr>cp_error := None, cp_checked_at := Some now\<rparr>) as
      (lw_account_id row) (Aware now)")
    case (Inr r)
    then show ?thesis using False advance_body_extends [OF Inr]
      by (auto simp: committed_checkpoint_def advance_risk_checkpoint_def Let_def series_kept_def extends_def
          split: doc.splits)
  next
    case (Inl f)
    then show ?thesis using False
      by (cases f) (auto simp: committed_checkpoint_def advance_risk_checkpoint_def Let_def series_kept_def
          split: doc.splits)
  qed
qed

definition account_of :: "ledger_store \<Rightarrow> string" where
  "account_of st = lv_account (ledger_project st)"

definition history_kept :: "ledger_store \<Rightarrow> ledger_store \<Rightarrow> bool" where
  "history_kept s t = (series_kept (ledger_status s) (ledger_status t)
     \<and> (account_of s \<noteq> [] \<longrightarrow> account_of t = account_of s))"

lemmas history_defs = history_kept_def account_of_def ledger_project_def ledger_status_def ledger_append_def

lemma trans_history:
  assumes "ledger_trans digest s t" and "ledger_log.replayed s"
  shows "history_kept s t"
  using assms
proof (induction rule: ledger_trans.induct)
  case (begins acct tok st st' t)
  then show ?case unfolding ledger_begin_def Let_def
    by (cases "st_row st"; cases acct)
      (auto simp: history_defs split: if_splits intro!: series_kept_cong)
next
  case (binds tok acct st st' u)
  then show ?case unfolding ledger_bind_def
    by (cases "st_row st") (auto simp: history_defs split: if_splits)
next
  case (commits tok as cp now st st' b)
  from this(1) show ?case
  proof (cases rule: ledger_commit_cases)
    case (committed ids row st2)
    then show ?thesis using commit_series by (simp add: history_defs)
  qed (simp add: history_kept_def)
next
  case (fails st tok err now)
  show ?case by (auto simp: ledger_fail_def Let_def history_defs split: option.splits intro!: series_kept_cong)
next
  case (rebuilds st tok)
  then have eq: "ledger_project (fst (ledger_rebuild tok st)) = ledger_project st"
    using rebuild_project [of tok st] by (simp add: ledger_log.replayed_def)
  then have "ledger_status (fst (ledger_rebuild tok st)) = ledger_status st"
    by (metis (no_types, lifting) ledger_project_def ledger_view.select_convs(2))
  then show ?case using eq by (simp add: history_kept_def account_of_def)
next
  case (others st)
  show ?case by (simp add: history_defs other_event_def)
qed

definition empty_ledger :: ledger_store where
  "empty_ledger = \<lparr>st_row = None, st_views = [], st_events = [], st_next = 1\<rparr>"

lemma empty_replayed: "ledger_log.replayed empty_ledger"
  unfolding ledger_log.replayed_def
  by (simp add: ids_ok_def empty_ledger_def ledger_project_def ledger_status_def empty_ledger_view_def)

lemma run_history:
  assumes "(ledger_trans digest)\<^sup>*\<^sup>* s t" and "ledger_log.replayed s"
  shows "history_kept s t"
  using assms
proof (induction rule: rtranclp_induct)
  case (step t u)
  then have "ledger_log.replayed t" using ledger_log.run_replayed by blast
  then have "history_kept t u" using step.hyps(2) trans_history by blast
  then show ?case using step.IH step.prems unfolding history_kept_def by (auto intro: series_kept_trans)
qed (simp add: history_kept_def)

text \<open>
  C24. The ledger projection can always be rebuilt: after any sequence of transactions of any
  importers (refreshes begun, bound, committed, failed, superseded, rebuilt) the journal replays to
  exactly the account binding, activity projection and checkpoint that are stored.
\<close>

theorem ledger_rebuild_restores:
  assumes "(ledger_trans digest)\<^sup>*\<^sup>* empty_ledger st"
  shows "ledger_project (fst (ledger_rebuild token st)) = ledger_project st"
  unfolding rebuild_project by (rule ledger_log.replay_eq [OF assms empty_replayed])

text \<open>
  C29. What the store has accepted stays: along any run, a bound account is never rebound, the risk
  baseline, frozen journals and accepted transfers stay, the observation time and the high-water
  mark never decrease, and an invalidated history stays invalidated with its last snapshot.
\<close>

theorem ledger_history_kept:
  assumes "(ledger_trans digest)\<^sup>*\<^sup>* empty_ledger s" and "(ledger_trans digest)\<^sup>*\<^sup>* s t"
  shows "series_kept (ledger_status s) (ledger_status t) \<and> (account_of s \<noteq> [] \<longrightarrow> account_of t = account_of s)"
  using run_history [OF assms(2) ledger_log.run_replayed [OF assms(1) empty_replayed]]
  by (simp add: history_kept_def)

text \<open>
  Refreshes are fenced: once a refresh has begun, an importer that holds another token can
  neither bind the account, nor commit its import, nor overwrite the checkpoint with its failure.
\<close>

theorem stale_importer_fenced:
  assumes "ledger_begin account token st = Ok (st', token)" and "stale \<noteq> token"
    and "ledger_commit digest stale activities cp now st' = Ok (st'', accepted)"
  shows "st'' = st' \<and> \<not> accepted \<and> ledger_fail stale err now st' = st'
    \<and> (\<forall>acct. acct \<noteq> [] \<longrightarrow> ledger_bind stale acct st' = Raise SUPERSEDED)"
proof -
  obtain row where row: "st_row st' = Some row" "lw_token row = token"
    using assms(1) unfolding ledger_begin_def Let_def
    by (auto simp: ledger_append_def split: if_splits)
  have "st'' = st' \<and> \<not> accepted"
    using assms(3) by (cases rule: ledger_commit_cases) (use row assms(2) in auto)
  then show ?thesis using row assms(2) by (simp add: ledger_fail_def ledger_bind_def)
qed

subsection \<open>The importer\<close>

text \<open>
  What the broker answers during one refresh: the account snapshot before and after, and the
  activities, each of which may raise. The capture of corporate actions never raises.
\<close>

record import_reads =
  ir_before :: "account_snapshot result"
  ir_activities :: "activity list result"
  ir_after :: "account_snapshot result"
  ir_actions :: "corporate_action list"

text \<open>The identity compared is the account, its cash and the sorted quantities and cost bases.\<close>

definition accounting_identity :: "account_snapshot \<Rightarrow> string \<times> dec \<times> (string \<times> dec \<times> dec) list" where
  "accounting_identity s = (as_account_id s, as_cash s,
     sort (map (\<lambda>(sym, p). (sym, ap_qty p, ap_cost_basis p)) (as_positions s)))"

definition imported_report :: "dec \<Rightarrow> import_reads \<Rightarrow> account_snapshot \<Rightarrow> account_snapshot \<Rightarrow> activity list \<Rightarrow> ledger_report" where
  "imported_report tol r before after as =
     (let report = reconcile as after tol (ir_actions r)
      in if accounting_identity before \<noteq> accounting_identity after
         then report\<lparr>lr_issues := lr_issues report @ [msg ''Broker accounting changed during import; retry on next refresh''],
                lr_gross_realized := None, lr_net_realized := None\<rparr>
         else report)"

text \<open>The body of the \<open>try\<close> statement; the store it leaves behind when it raises comes first.\<close>

definition refresh_body ::
  "(cash_evidence \<Rightarrow> string) \<Rightarrow> dec \<Rightarrow> import_reads \<Rightarrow> string \<Rightarrow> int \<Rightarrow> ledger_store
     \<Rightarrow> ledger_store \<times> ledger_report result" where
  "refresh_body digest tol r token now st =
     (case bindr (ir_before r) (\<lambda>before. bindr (ledger_bind token (as_account_id before) st) (\<lambda>(s, _). Ok (before, s))) of
        Inl e \<Rightarrow> (st, Raise e)
      | Inr (before, st1) \<Rightarrow>
          (case bindr (ir_activities r) (\<lambda>as. bindr (ir_after r) (\<lambda>after.
                let report = imported_report tol r before after as
                in raise_if (as_account_id before \<noteq> as_account_id after)
                     (ValueError (msg ''Broker account changed during import''))
                   (bindr (ledger_commit digest token as (empty_checkpoint\<lparr>cp_snapshot := Doc after, cp_report := Doc report\<rparr>) now st1)
                     (\<lambda>(s, accepted). raise_if (\<not> accepted) SUPERSEDED (Ok (s, report)))))) of
             Inl e \<Rightarrow> (st1, Raise e)
           | Inr (st2, report) \<Rightarrow> (st2, Ok report)))"

definition refresh ::
  "(cash_evidence \<Rightarrow> string) \<Rightarrow> dec \<Rightarrow> import_reads \<Rightarrow> string \<Rightarrow> int \<Rightarrow> ledger_store
     \<Rightarrow> ledger_store \<times> ledger_report result" where
  "refresh digest tol r token now st =
     (case ledger_begin None token st of
        Inl e \<Rightarrow> (st, Raise e)
      | Inr (st1, _) \<Rightarrow>
          (case refresh_body digest tol r token now st1 of
             (st2, Inr report) \<Rightarrow> (st2, Ok report)
           | (st2, Inl e) \<Rightarrow> (ledger_fail token (exc_name e) now st2, Raise e)))"

definition current_risk :: "pyfloat \<Rightarrow> int \<Rightarrow> ledger_store \<Rightarrow> account_risk result" where
  "current_risk max_age now st = require_risk_checkpoint (ledger_status st) max_age (Aware now)"

lemma refresh_body_trans:
  assumes "refresh_body digest tol r token now st = (st', res)"
  shows "(ledger_trans digest)\<^sup>*\<^sup>* st st'"
proof -
  have b: "ledger_bind token a s = Ok (s', u) \<Longrightarrow> (ledger_trans digest)\<^sup>*\<^sup>* s s'" for a s s' u
    by (blast intro: ledger_trans.binds)
  have c: "ledger_commit digest token as cp now s = Ok (s', u) \<Longrightarrow> (ledger_trans digest)\<^sup>*\<^sup>* s s'" for as cp s s' u
    by (blast intro: ledger_trans.commits)
  show ?thesis
    using assms
    by (auto simp: refresh_body_def bindr_Inr_iff Let_def split: sum.splits dest!: b c)
qed

lemma refresh_trans:
  assumes "refresh digest tol r token now st = (st', res)"
  shows "(ledger_trans digest)\<^sup>*\<^sup>* st st'"
proof (cases "ledger_begin None token st")
  case (Inr p)
  obtain s1 t where p: "p = (s1, t)" by force
  obtain s2 res2 where body: "refresh_body digest tol r token now s1 = (s2, res2)" by force
  have "ledger_trans digest st s1" using Inr p by (blast intro: ledger_trans.begins)
  moreover note refresh_body_trans [OF body]
  ultimately have "(ledger_trans digest)\<^sup>*\<^sup>* st s2" by (rule converse_rtranclp_into_rtranclp)
  then show ?thesis using assms Inr p body
    by (auto simp: refresh_def split: sum.splits intro: rtranclp.rtrancl_into_rtrancl ledger_trans.fails)
qed (use assms in \<open>simp add: refresh_def\<close>)

definition holds_token :: "string \<Rightarrow> ledger_store \<Rightarrow> bool" where
  "holds_token tok st = (\<exists>row. st_row st = Some row \<and> lw_token row = tok)"

lemma begin_token: "ledger_begin acct tok st = Ok (st', t) \<Longrightarrow> holds_token tok st'"
  unfolding ledger_begin_def Let_def by (auto simp: ledger_append_def holds_token_def split: if_splits)

lemma bind_token: "ledger_bind t acct st = Ok (st', u) \<Longrightarrow> holds_token tok st \<Longrightarrow> holds_token tok st'"
  unfolding ledger_bind_def by (auto simp: ledger_append_def holds_token_def split: option.splits if_splits)

lemma refresh_body_token:
  assumes "refresh_body digest tol r token now st = (st', Inl e)" and "holds_token token st"
  shows "holds_token token st'"
  using assms by (auto simp: refresh_body_def bindr_Inr_iff dest: bind_token split: sum.splits)

lemma fail_error:
  "holds_token tok st \<Longrightarrow> cp_error (ledger_status (ledger_fail tok err now st)) = Some (msg err)"
  by (auto simp: holds_token_def ledger_fail_def ledger_status_def ledger_append_def Let_def)

lemma failed_refresh_error:
  assumes "refresh digest tol r token now st = (st', Inl e)"
  shows "cp_error (ledger_status st') = Some (msg (exc_name e))"
proof -
  have ok: "\<exists>s. ledger_begin None token st = Ok (s, token)"
    by (simp add: ledger_begin_def Let_def split: option.splits)
  then obtain s where s: "ledger_begin None token st = Ok (s, token)" by blast
  obtain s2 res where body: "refresh_body digest tol r token now s = (s2, res)" by force
  have "res = Inl e" "st' = ledger_fail token (exc_name e) now s2"
    using assms s body by (auto simp: refresh_def split: sum.splits)
  then show ?thesis using refresh_body_token body begin_token [OF s] fail_error by blast
qed

text \<open>
  A failed import blocks new risk: after a refresh that raised, for whatever reason, account risk
  evidence cannot be read until another refresh succeeds.
\<close>

theorem failed_refresh_blocks_risk:
  assumes "refresh digest tol reads token now st = (st', Inl e)"
  shows "current_risk max_age later st' \<noteq> Ok r"
  using failed_refresh_error [OF assms]
  by (simp add: current_risk_def require_risk_checkpoint_def validated_checkpoint_def told_def raise_if_def)

subsection \<open>Witnesses\<close>

definition demo_reads :: "int \<Rightarrow> import_reads" where
  "demo_reads t = \<lparr>ir_before = Ok (demo_snapshot t 90), ir_activities = Ok [demo_deposit, demo_fee],
     ir_after = Ok (demo_snapshot t 90), ir_actions = []\<rparr>"

definition demo_ledger :: ledger_store where
  "demo_ledger = fst (refresh demo_digest (1 / 100) (demo_reads 1) ''t1'' 2 empty_ledger)"

lemma demo_ledger_reached: "(ledger_trans demo_digest)\<^sup>*\<^sup>* empty_ledger demo_ledger"
  using refresh_trans [of demo_digest "1 / 100" "demo_reads 1" "''t1''" 2 empty_ledger demo_ledger]
  by (cases "refresh demo_digest (1 / 100) (demo_reads 1) ''t1'' 2 empty_ledger") (simp add: demo_ledger_def)

theorem ledger_rebuild_restores_witness:
  "ledger_project (fst (ledger_rebuild ''t2'' demo_ledger)) = ledger_project demo_ledger"
  by (rule ledger_rebuild_restores [OF demo_ledger_reached])

theorem ledger_history_kept_witness:
  "series_kept (ledger_status demo_ledger) (ledger_status (ledger_fail ''t1'' ''TimeoutError'' 3 demo_ledger))"
proof -
  have "(ledger_trans demo_digest)\<^sup>*\<^sup>* demo_ledger (ledger_fail ''t1'' ''TimeoutError'' 3 demo_ledger)"
    by (blast intro: ledger_trans.fails)
  then show ?thesis using ledger_history_kept [OF demo_ledger_reached] by blast
qed

definition demo_begun :: ledger_store where
  "demo_begun = \<lparr>st_row = Some \<lparr>lw_account_id = [], lw_token = ''t2'', lw_payload = empty_checkpoint\<rparr>,
     st_views = [], st_events = [], st_next = 1\<rparr>"

theorem stale_importer_fenced_witness:
  "ledger_commit demo_digest ''t1'' [demo_deposit] empty_checkpoint 3 demo_begun = Ok (demo_begun, False)
   \<and> ledger_fail ''t1'' ''TimeoutError'' 3 demo_begun = demo_begun"
proof -
  have "ledger_begin None ''t2'' empty_ledger = Ok (demo_begun, ''t2'')"
    by (simp add: ledger_begin_def empty_ledger_def demo_begun_def)
  moreover have "ledger_commit demo_digest ''t1'' [demo_deposit] empty_checkpoint 3 demo_begun = Ok (demo_begun, False)"
    by (simp add: ledger_commit_def demo_begun_def demo_deposit_def getitem_def)
  ultimately show ?thesis
    using stale_importer_fenced [of None "''t2''" empty_ledger demo_begun "''t1''" demo_digest "[demo_deposit]"
      empty_checkpoint 3 demo_begun False "''TimeoutError''"] by simp
qed

definition demo_lost :: import_reads where
  "demo_lost = (demo_reads 1)\<lparr>ir_before := Raise (RuntimeError (msg ''unreachable''))\<rparr>"

theorem failed_refresh_blocks_risk_witness:
  "snd (refresh demo_digest (1 / 100) demo_lost ''t3'' 3 demo_ledger) = Inl (RuntimeError (msg ''unreachable''))
   \<and> current_risk (Num 60) 4 (fst (refresh demo_digest (1 / 100) demo_lost ''t3'' 3 demo_ledger)) \<noteq> Ok demo_risk"
proof -
  have "\<exists>s. ledger_begin None ''t3'' demo_ledger = Ok (s, ''t3'')"
    by (simp add: ledger_begin_def Let_def split: option.splits)
  then have "snd (refresh demo_digest (1 / 100) demo_lost ''t3'' 3 demo_ledger) = Inl (RuntimeError (msg ''unreachable''))"
    by (auto simp: refresh_def refresh_body_def demo_lost_def)
  then show ?thesis
    using failed_refresh_blocks_risk [of demo_digest "1 / 100" demo_lost "''t3''" 3 demo_ledger
      "fst (refresh demo_digest (1 / 100) demo_lost ''t3'' 3 demo_ledger)" "RuntimeError (msg ''unreachable'')" "Num 60" 4 demo_risk]
    by (metis prod.collapse)
qed

end
