(* ===== verification/Admission.thy ===== *)
theory Admission
  imports Account_Risk
begin

text \<open>
  The order and evidence types of \<open>broker/base.py\<close> and \<open>execution/durable.py\<close>, and the admission
  policy shared by reservation and dispatch (\<open>execution/admission.py\<close>).
\<close>

subsection \<open>Orders and evidence\<close>

record order_request =
  rq_symbol :: string
  rq_asset_class :: string
  rq_direction :: string
  rq_side :: "string option"
  rq_quantity :: pyfloat
  rq_order_type :: string
  rq_order_class :: string
  rq_time_in_force :: string
  rq_entry_price :: "pyfloat option"
  rq_stop_loss :: "pyfloat option"
  rq_take_profit :: "pyfloat option"
  rq_signal_id :: int
  rq_client_order_id :: "string option"

record order_result =
  or_success :: bool
  or_order_id :: "string option"
  or_fill_price :: "pyfloat option"
  or_error_message :: "ftext option"
  or_submission_uncertain :: bool

record account_evidence =
  ae_account_id :: string
  ae_status :: string
  ae_currency :: string
  ae_buying_power :: dec
  ae_regt_buying_power :: dec
  ae_non_marginable_buying_power :: dec
  ae_cash :: dec
  ae_equity :: dec
  ae_multiplier :: dec
  ae_trading_blocked :: bool
  ae_account_blocked :: bool
  ae_trade_suspended :: bool
  ae_shorting_enabled :: bool

record asset_evidence =
  as_symbol :: string
  as_asset_class :: string
  as_status :: string
  as_tradable :: bool
  as_marginable :: bool
  as_shortable :: bool
  as_borrow_status :: "string option"

record quote_evidence =
  q_symbol :: string
  q_bid_price :: dec
  q_ask_price :: dec
  q_timestamp :: int

text \<open>The field constraints and the validator \<open>valid_spread\<close>.\<close>

definition quote_ok :: "quote_evidence \<Rightarrow> bool" where
  "quote_ok q = (q_symbol q \<noteq> [] \<and> 0 < q_bid_price q \<and> 0 < q_ask_price q \<and> \<not> q_ask_price q < q_bid_price q)"

record broker_position =
  b_symbol :: string
  b_asset_class :: string
  b_direction :: string
  b_quantity :: pyfloat
  b_entry_price :: pyfloat
  b_current_price :: "pyfloat option"

record order_observation =
  o_order_id :: string
  o_client_order_id :: string
  o_symbol :: string
  o_side :: string
  o_status :: string
  o_quantity :: wire
  o_filled_quantity :: wire
  o_average_fill_price :: "wire option"
  o_limit_price :: "wire option"
  o_stop_price :: "wire option"
  o_order_type :: string
  o_order_class :: string
  o_updated_at :: int
  o_submitted_at :: "int option"
  o_filled_at :: "int option"
  o_replaces :: "string option"
  o_replaced_by :: "string option"
  o_parent_order_id :: "string option"
  o_source :: string

record entry_context =
  x_positions :: "broker_position list"
  x_orders :: "order_observation list"
  x_account_before :: account_evidence
  x_account :: account_evidence
  x_asset :: asset_evidence
  x_quote :: quote_evidence
  x_price :: dec
  x_trade_timestamp :: int
  x_requested_at :: int
  x_observed_at :: int
  x_session_closes_at :: int

definition context_ok :: "entry_context \<Rightarrow> bool" where
  "context_ok x = (quote_ok (x_quote x) \<and> 0 < x_price x \<and> \<not> x_requested_at x > x_observed_at x)"

subsection \<open>Deadlines (\<open>authorization_expiry\<close>)\<close>

definition CLOCK_SKEW :: pyfloat where "CLOCK_SKEW = 1"

text \<open>\<open>-skew <= age <= limit\<close> for the seconds between two instants.\<close>

definition age_within :: "int \<Rightarrow> int \<Rightarrow> pyfloat \<Rightarrow> bool" where
  "age_within now at_time limit = (let age = total_seconds (now - at_time) in - CLOCK_SKEW \<le> age \<and> age \<le> limit)"

definition authorization_expiry :: "int \<Rightarrow> int \<Rightarrow> app_config \<Rightarrow> int \<Rightarrow> ftext option" where
  "authorization_expiry approved_at signal_at config now =
     (if \<not> age_within now approved_at (entry_queue_max_age_seconds (c_execution config))
      then Some (msg ''Queued authorization expired; fresh operator approval is required.'')
      else if \<not> age_within now signal_at (signal_max_age_seconds (c_execution config))
      then Some (msg ''Signal is stale or clock-skewed; request a fresh scan.'')
      else None)"

subsection \<open>The reservation verdict\<close>

definition INVALID_REQUEST_NUMBERS :: ftext where
  "INVALID_REQUEST_NUMBERS = msg ''Quantity and bracket prices must be finite and positive.''"

definition side_agrees :: "order_request \<Rightarrow> bool" where
  "side_agrees r = (rq_direction r \<in> {LONG, SHORT}
     \<and> upper (case rq_side r of Some s \<Rightarrow> s | None \<Rightarrow> ''None'') = (if rq_direction r = LONG then BUY else SELL))"

text \<open>
  The multiplier of a request: the configured one, or one for an instrument that is not configured.
  The outer value is a refusal.
\<close>

definition request_multiplier :: "order_request \<Rightarrow> app_config \<Rightarrow> ftext + pyfloat" where
  "request_multiplier r config = (case map_of (contracts config) (rq_symbol r) of
     None \<Rightarrow> if rq_asset_class r = FUTURES then Inl (msg ''Futures instrument multiplier is not configured.'')
             else Inr 1
   | Some None \<Rightarrow> Inl (msg ''Configured instrument multiplier must be finite and positive.'')
   | Some (Some m) \<Rightarrow>
       if \<not> isfinite m \<or> m \<le> 0 then Inl (msg ''Configured instrument multiplier must be finite and positive.'')
       else Inr m)"

definition request_intent :: "order_request \<Rightarrow> pyfloat \<Rightarrow> pyfloat option \<Rightarrow> entry_intent result" where
  "request_intent r multiplier current_price =
     mk_entry_intent (rq_symbol r) (rq_direction r) (rq_asset_class r) (Some (rq_quantity r))
       (rq_entry_price r) (rq_stop_loss r) (rq_take_profit r) (Some multiplier) current_price"

text \<open>
  A fault in the configured limits is raised; every other failure is a refusal. The macro
  multiplier of the budget is its default of one.
\<close>

definition reservation_rejection ::
  "order_request \<Rightarrow> signal_row list \<Rightarrow> app_config \<Rightarrow> pyfloat \<Rightarrow> pyfloat option \<Rightarrow> pyfloat option
     \<Rightarrow> ftext option result" where
  "reservation_rejection r rows config drawdown equity current_price =
     (if \<not> side_agrees r then Ok (Some (msg ''Order direction and broker side disagree.''))
      else case request_multiplier r config of
        Inl t \<Rightarrow> Ok (Some t)
      | Inr multiplier \<Rightarrow>
          if rq_entry_price r = None \<or> rq_stop_loss r = None \<or> rq_take_profit r = None
          then Ok (Some INVALID_REQUEST_NUMBERS)
          else catch_value (request_intent r multiplier current_price)
            (\<lambda>_. Ok (Some (if (case current_price of None \<Rightarrow> False | Some p \<Rightarrow> \<not> isfinite p \<or> p \<le> 0)
                           then msg ''Current exposure price must be finite and positive.''
                           else INVALID_REQUEST_NUMBERS)))
            (\<lambda>intent. bindr (limits_from_config config) (\<lambda>limits.
              catch_value (per_trade_risk_budget limits equity drawdown 1)
                (\<lambda>t. Ok (Some (Lit ''Account risk inputs invalid: '' # t @ [Lit ''.''])))
                (\<lambda>budget. Ok (map_option reason
                   (admission_gates intent (from_signal_rows rows True) budget limits None))))))"

lemma reservation_admits:
  assumes "reservation_rejection r rows cfg dd eq cp = Ok None"
  shows "\<exists>m i l b. side_agrees r \<and> request_multiplier r cfg = Inr m \<and> request_intent r m cp = Ok i
    \<and> limits_from_config cfg = Ok l \<and> per_trade_risk_budget l eq dd 1 = Ok b
    \<and> admission_gates i (from_signal_rows rows True) b l None = None"
  using assms
  by (auto simp: reservation_rejection_def bindr_Inr_iff catch_value_Inr_iff split: if_split_asm sum.split_asm)

lemma reservation_rejectionI:
  assumes "side_agrees r" "request_multiplier r cfg = Inr m" "request_intent r m cp = Ok i"
    "rq_entry_price r \<noteq> None" "rq_stop_loss r \<noteq> None" "rq_take_profit r \<noteq> None"
    "limits_from_config cfg = Ok l" "per_trade_risk_budget l eq dd 1 = Ok b"
    "admission_gates i (from_signal_rows rows True) b l None = None"
  shows "reservation_rejection r rows cfg dd eq cp = Ok None"
  using assms by (simp add: reservation_rejection_def)

lemma request_intent_prices:
  assumes "request_intent r m cp = Ok i"
  shows "rq_entry_price r \<noteq> None \<and> rq_stop_loss r \<noteq> None \<and> rq_take_profit r \<noteq> None"
  using assms by (auto simp: request_intent_def mk_entry_intent_def bindr_Inr_iff positive_Ok_iff Let_def)


subsection \<open>An example\<close>

definition demo_request :: order_request where
  "demo_request = \<lparr>rq_symbol = ''spy'', rq_asset_class = EQUITY, rq_direction = LONG, rq_side = Some BUY,
     rq_quantity = Num 10, rq_order_type = ''LIMIT'', rq_order_class = ''BRACKET'', rq_time_in_force = ''DAY'',
     rq_entry_price = Some (Num 400), rq_stop_loss = Some (Num 390), rq_take_profit = Some (Num 430),
     rq_signal_id = 7, rq_client_order_id = None\<rparr>"

definition demo_row :: signal_row where
  "demo_row = \<lparr>row_contract = Some ''AAPL'', row_symbol = None, row_status = Some ''EXECUTED'',
     row_direction = Some LONG, row_asset_class = Some EQUITY, row_notional_value = NFloat (Num 8000),
     row_risk_dollars = NFloat (Num 200), row_broker_order_id = Some ''b1'', row_quantity = NFloat (Num 50),
     row_entry_price = NFloat (Num 160), row_stop_loss = NFloat (Num 156), row_take_profit = NFloat (Num 170)\<rparr>"

lemma demo_book_eq: "from_signal_rows [demo_row] True = \<lparr>positions = [demo_position]\<rparr>"
  by (simp add: from_signal_rows_def position_of_row_def demo_row_def demo_position_def str_or_def number_def
      RESERVATION_STATUS_def str_eval)

lemma demo_request_intent: "request_intent demo_request 1 None = Ok (demo_intent\<lparr>i_symbol := ''spy''\<rparr>)"
  by (simp add: request_intent_def demo_request_def mk_entry_intent_def demo_intent_def positive_def
      str_eval zero_pyfloat_def one_pyfloat_def)

lemma demo_side: "side_agrees demo_request"
  by (simp add: side_agrees_def demo_request_def str_eval)

lemma demo_multiplier: "request_multiplier demo_request demo_config = Inr 1"
  by (simp add: request_multiplier_def demo_request_def demo_config_def)

lemma demo_reserved:
  "reservation_rejection demo_request [demo_row] demo_config (Num 0) (Some (Num 65536)) None = Ok None"
  by (rule reservation_rejectionI [OF demo_side demo_multiplier demo_request_intent _ _ _ demo_limits_eq demo_budget_eq])
    (simp_all add: demo_book_eq demo_admitted, simp_all add: demo_request_def)


end
