(* ===== verification/Capacity.thy ===== *)
theory Capacity
  imports Admission
begin

text \<open>
  Capacity assessment from fresh broker evidence and durable reservations
  (\<open>execution/capacity.py\<close>): the lineage of an order, the exposure of the reserved rows as the
  broker sees it, and the funding check that ends in the shared admission policy.
\<close>

subsection \<open>Broker vocabulary\<close>

definition WORKING_STATUSES :: "string list" where
  "WORKING_STATUSES = [''new'', ''accepted'', ''held'', ''pending_new'']"

definition TERMINAL_STATUSES :: "string list" where
  "TERMINAL_STATUSES = [''filled'', ''canceled'', ''expired'', ''rejected'', ''replaced'']"

definition PROTECTIVE_STOP_STATUSES :: "string list" where
  "PROTECTIVE_STOP_STATUSES = [''new'', ''held'']"

definition SHORT_BUYING_POWER_MULTIPLIER :: dec where "SHORT_BUYING_POWER_MULTIPLIER = 103 / 100"
definition MINIMUM_MARGIN_EQUITY :: dec where "MINIMUM_MARGIN_EQUITY = 2000"
definition BROKER_PRICE_TOLERANCE :: dec where "BROKER_PRICE_TOLERANCE = 1 / 10 ^ 8"

text \<open>\<open>decimal\<close> of a stored number, of an optional float and of an optional wire text.\<close>

definition row_decimal :: "row_num \<Rightarrow> dec result" where
  "row_decimal v = (case v of NDec d \<Rightarrow> Ok d | NFloat x \<Rightarrow> decimal_float x | _ \<Rightarrow> Raise DecimalInvalid)"

definition opt_decimal_float :: "pyfloat option \<Rightarrow> dec result" where
  "opt_decimal_float v = (case v of None \<Rightarrow> Raise DecimalInvalid | Some x \<Rightarrow> decimal_float x)"

definition opt_decimal :: "wire option \<Rightarrow> dec result" where
  "opt_decimal v = (case v of None \<Rightarrow> Raise DecimalInvalid | Some w \<Rightarrow> decimal w)"

definition opt_truthy :: "wire option \<Rightarrow> bool" where
  "opt_truthy v = (case v of None \<Rightarrow> False | Some w \<Rightarrow> truthy w)"

text \<open>A comparison of a decimal read that may raise.\<close>

definition readr :: "dec result \<Rightarrow> (dec \<Rightarrow> bool) \<Rightarrow> bool result" where
  "readr m p = bindr m (\<lambda>d. Ok (p d))"

subsection \<open>Protection\<close>

definition stop_leg :: "order_observation \<Rightarrow> bool" where
  "stop_leg o1 = (o_order_type o1 \<in> {''stop'', ''stop_limit''} \<and> o_status o1 \<in> set PROTECTIVE_STOP_STATUSES)"

definition live_take_profit :: "order_observation \<Rightarrow> string \<Rightarrow> dec \<Rightarrow> order_observation \<Rightarrow> bool result" where
  "live_take_profit stop side quantity leg =
     andr (Ok (o_order_id leg \<noteq> o_order_id stop \<and> o_order_type leg = ''limit'' \<and> o_status leg = ''new''
               \<and> o_side leg \<noteq> side))
    (andr (readr (decimal (o_quantity leg)) (\<lambda>q. q = quantity))
          (readr (decimal (o_filled_quantity leg)) (\<lambda>f. f = 0)))"

definition protective_stop ::
  "order_observation list \<Rightarrow> string \<Rightarrow> dec \<Rightarrow> order_observation option result" where
  "protective_stop legs side quantity = (case filter stop_leg legs of
     [stop] \<Rightarrow>
       if o_status stop = ''held''
       then bindr (filterr (live_take_profit stop side quantity) legs) (\<lambda>live.
              Ok (if length live \<noteq> 1 then None else Some stop))
       else Ok (Some stop)
   | _ \<Rightarrow> Ok None)"

subsection \<open>Lineage (\<open>_group\<close>)\<close>

definition linked :: "order_observation \<Rightarrow> string list \<Rightarrow> bool" where
  "linked o1 found = ((case o_parent_order_id o1 of None \<Rightarrow> False | Some p \<Rightarrow> p \<in> set found)
     \<or> (case o_replaces o1 of None \<Rightarrow> False | Some p \<Rightarrow> p \<in> set found))"

definition newly_linked :: "order_observation list \<Rightarrow> string list \<Rightarrow> string list" where
  "newly_linked orders found =
     filter (\<lambda>i. i \<notin> set found) (map o_order_id (filter (\<lambda>o1. linked o1 found) orders))"

function group_loop :: "order_observation list \<Rightarrow> string list \<Rightarrow> string list" where
  "group_loop orders found =
     (if newly_linked orders found = [] then found else group_loop orders (found @ newly_linked orders found))"
  by pat_completeness auto

termination
proof (relation "measure (\<lambda>(orders, found). card (set (map o_order_id orders) - set found))")
  fix orders found
  assume "newly_linked orders found \<noteq> []"
  then obtain i where i: "i \<in> set (newly_linked orders found)" by (cases "newly_linked orders found") auto
  then have "i \<in> set (map o_order_id orders) - set found" by (auto simp: newly_linked_def)
  moreover have "set (map o_order_id orders) - set (found @ newly_linked orders found)
      \<subseteq> set (map o_order_id orders) - set found - {i}" using i by auto
  ultimately have "card (set (map o_order_id orders) - set (found @ newly_linked orders found))
      < card (set (map o_order_id orders) - set found)"
    by (meson List.finite_set card_Diff1_less card_mono finite_Diff le_less_trans)
  then show "((orders, found @ newly_linked orders found), orders, found)
      \<in> measure (\<lambda>(orders, found). card (set (map o_order_id orders) - set found))" by simp
qed simp

declare group_loop.simps [simp del]

definition group_of :: "string \<Rightarrow> order_observation list \<Rightarrow> string list" where
  "group_of entry_id orders = group_loop orders [entry_id]"

text \<open>The specification: an order belongs to the root's family through parents and replacements only.\<close>

inductive lineage :: "order_observation list \<Rightarrow> string \<Rightarrow> string \<Rightarrow> bool"
  for orders :: "order_observation list" and entry_id :: string where
  self: "lineage orders entry_id entry_id"
| child: "lineage orders entry_id p \<Longrightarrow> o1 \<in> set orders \<Longrightarrow> o_parent_order_id o1 = Some p
    \<Longrightarrow> lineage orders entry_id (o_order_id o1)"
| replacement: "lineage orders entry_id p \<Longrightarrow> o1 \<in> set orders \<Longrightarrow> o_replaces o1 = Some p
    \<Longrightarrow> lineage orders entry_id (o_order_id o1)"

lemma linked_lineage:
  assumes "\<forall>i \<in> set found. lineage orders entry_id i" "o1 \<in> set orders" "linked o1 found"
  shows "lineage orders entry_id (o_order_id o1)"
proof -
  obtain p where "p \<in> set found" "o_parent_order_id o1 = Some p \<or> o_replaces o1 = Some p"
    using assms(3) by (auto simp: linked_def split: option.splits)
  then show ?thesis using assms(1,2) by (blast intro: lineage.child lineage.replacement)
qed

lemma group_loop_sound:
  "\<forall>i \<in> set found. lineage orders entry_id i \<Longrightarrow> i \<in> set (group_loop orders found) \<Longrightarrow> lineage orders entry_id i"
proof (induction orders found rule: group_loop.induct)
  case (1 orders found)
  have "\<forall>i \<in> set (found @ newly_linked orders found). lineage orders entry_id i"
    using "1.prems"(1) linked_lineage [OF "1.prems"(1)] by (auto simp: newly_linked_def)
  then show ?case using 1 by (simp add: group_loop.simps [of orders found] split: if_splits)
qed

lemma group_loop_superset: "set found \<subseteq> set (group_loop orders found)"
proof (induction orders found rule: group_loop.induct)
  case (1 orders found)
  then show ?case by (cases "newly_linked orders found = []") (auto simp: group_loop.simps [of orders found])
qed

lemma group_loop_closed: "newly_linked orders (group_loop orders found) = []"
proof (induction orders found rule: group_loop.induct)
  case (1 orders found)
  then show ?case by (simp add: group_loop.simps [of orders found])
qed

lemma closed_step:
  assumes "newly_linked orders found = []" "o1 \<in> set orders" "linked o1 found"
  shows "o_order_id o1 \<in> set found"
  using assms by (auto simp: newly_linked_def filter_empty_conv)

lemma group_of_lineage: "i \<in> set (group_of entry_id orders) \<longleftrightarrow> lineage orders entry_id i"
proof
  assume "i \<in> set (group_of entry_id orders)"
  then show "lineage orders entry_id i"
    unfolding group_of_def by (rule group_loop_sound [rotated]) (simp add: lineage.self)
next
  assume "lineage orders entry_id i"
  then show "i \<in> set (group_of entry_id orders)"
    unfolding group_of_def
  proof (induction rule: lineage.induct)
    case self
    then show ?case using group_loop_superset [of "[entry_id]" orders] by auto
  next
    case (child p o1)
    then show ?case by (intro closed_step [OF group_loop_closed]) (simp_all add: linked_def)
  next
    case (replacement p o1)
    then show ?case by (intro closed_step [OF group_loop_closed]) (simp_all add: linked_def)
  qed
qed

text \<open>
  C37. The expansion loop terminates with exactly the orders that descend from the root through parent
  and replacement links, whatever the order in which the broker lists them: no order is attributed to
  an entry by its symbol.
\<close>

theorem group_is_lineage: "set (group_of entry_id orders) = {i. lineage orders entry_id i}"
  using group_of_lineage by blast

subsection \<open>Exposure (\<open>_exposure\<close>)\<close>

definition neqr :: "dec result \<Rightarrow> dec result \<Rightarrow> bool result" where
  "neqr a b = bindr a (\<lambda>x. bindr b (\<lambda>y. Ok (x \<noteq> y)))"

abbreviation refuse :: "string \<Rightarrow> py_exc" where
  "refuse t \<equiv> ValueError (msg t)"

definition find_order :: "order_observation list \<Rightarrow> string \<Rightarrow> order_observation option" where
  "find_order orders i = find (\<lambda>o1. o_order_id o1 = i) orders"

definition find_holding :: "broker_position list \<Rightarrow> string \<Rightarrow> broker_position option" where
  "find_holding holdings s = find (\<lambda>p. b_symbol p = s) holdings"

definition legs_of :: "order_observation list \<Rightarrow> string list \<Rightarrow> string \<Rightarrow> order_observation list" where
  "legs_of orders family root_id = filter (\<lambda>o1. o_order_id o1 \<in> set family \<and> o_order_id o1 \<noteq> root_id) orders"

text \<open>The bracket an unfilled entry must still have: its approved limit, one stop and one target.\<close>

definition bracket_differs ::
  "order_observation \<Rightarrow> order_observation list \<Rightarrow> string \<Rightarrow> dec \<Rightarrow> signal_row \<Rightarrow> bool result" where
  "bracket_differs entry legs side quantity row =
     (let stops = filter (\<lambda>l. o_order_type l = ''stop'') legs;
          profits = filter (\<lambda>l. o_order_type l = ''limit'') legs
      in orr (Ok (o_order_class entry \<noteq> ''bracket'' \<or> o_order_type entry \<noteq> ''limit''))
        (orr (neqr (opt_decimal (o_limit_price entry)) (row_decimal (row_entry_price row)))
        (orr (Ok (length legs \<noteq> 2 \<or> length stops \<noteq> 1 \<or> length profits \<noteq> 1))
        (orr (anyr (\<lambda>l. orr (Ok (o_side l = side)) (readr (decimal (o_quantity l)) (\<lambda>q. q \<noteq> quantity))) legs)
        (orr (Ok (\<not> opt_truthy (o_stop_price (hd stops)) \<or> \<not> opt_truthy (o_limit_price (hd profits))))
        (orr (neqr (opt_decimal (o_stop_price (hd stops))) (row_decimal (row_stop_loss row)))
             (neqr (opt_decimal (o_limit_price (hd profits))) (row_decimal (row_take_profit row)))))))))"

definition pending_exposure ::
  "broker_position list \<Rightarrow> order_observation \<Rightarrow> order_observation list \<Rightarrow> string \<Rightarrow> string \<Rightarrow> dec \<Rightarrow> signal_row
     \<Rightarrow> signal_row result" where
  "pending_exposure holdings entry legs symbol side quantity row =
     raise_if (find_holding holdings symbol \<noteq> None) (refuse ''Pending entry overlaps existing broker exposure'')
    (raise_if (list_ex (\<lambda>l. o_status l \<notin> {''held'', ''pending_new''}) legs)
       (refuse ''Pending entry has unexpected active protection; reconcile exposure'')
    (bindr (orr (Ok (\<not> opt_truthy (o_limit_price entry))) (readr (opt_decimal (o_limit_price entry)) (\<lambda>p. p \<le> 0))) (\<lambda>unbounded.
     raise_if unbounded (refuse ''Pending broker exposure has no bounded approved limit'')
    (bindr (bracket_differs entry legs side quantity row) (\<lambda>differs.
     raise_if differs (refuse ''Pending entry no longer matches its exact approved bracket/protection'')
    (bindr (row_decimal (row_notional_value row)) (\<lambda>n.
     bindr (opt_decimal (o_limit_price entry)) (\<lambda>p.
     Ok (row\<lparr>row_notional_value := NDec (py_max n (dmul quantity p))\<rparr>)))))))))"

definition holding_disagrees ::
  "broker_position option \<Rightarrow> bool \<Rightarrow> string \<Rightarrow> dec \<Rightarrow> bool result" where
  "holding_disagrees holding covered direction quantity = (case holding of
     None \<Rightarrow> Ok True
   | Some h \<Rightarrow> orr (Ok (covered \<or> b_direction h \<noteq> direction))
       (orr (readr (decimal_float (b_quantity h)) (\<lambda>q. dabs q \<noteq> quantity)) (Ok (b_asset_class h \<noteq> EQUITY))))"

definition basis_differs :: "order_observation \<Rightarrow> broker_position \<Rightarrow> bool result" where
  "basis_differs entry h =
     orr (Ok (\<not> opt_truthy (o_average_fill_price entry)))
    (bindr (opt_decimal (o_average_fill_price entry)) (\<lambda>fill.
       if fill \<le> 0 then Ok True
       else readr (decimal_float (b_entry_price h)) (\<lambda>basis. dabs (dsub fill basis) > BROKER_PRICE_TOLERANCE)))"

definition protection_differs :: "order_observation \<Rightarrow> string \<Rightarrow> dec \<Rightarrow> bool result" where
  "protection_differs stop side quantity =
     orr (Ok (o_side stop = side))
    (orr (readr (decimal (o_quantity stop)) (\<lambda>q. q \<noteq> quantity))
    (orr (readr (decimal (o_filled_quantity stop)) (\<lambda>f. f \<noteq> 0))
    (orr (Ok (\<not> opt_truthy (o_stop_price stop)))
         (readr (opt_decimal (o_stop_price stop)) (\<lambda>p. p \<le> 0)))))"

definition leg_unresolved :: "string \<Rightarrow> dec \<Rightarrow> order_observation \<Rightarrow> bool result" where
  "leg_unresolved side quantity leg =
     andr (Ok (o_status leg \<notin> set TERMINAL_STATUSES))
    (orr (Ok (o_status leg \<notin> set WORKING_STATUSES \<or> o_side leg = side))
    (orr (readr (decimal (o_quantity leg)) (\<lambda>q. q \<noteq> quantity))
         (readr (decimal (o_filled_quantity leg)) (\<lambda>f. f \<noteq> 0))))"

definition filled_exposure ::
  "broker_position list \<Rightarrow> bool \<Rightarrow> order_observation \<Rightarrow> order_observation list \<Rightarrow> string \<Rightarrow> string \<Rightarrow> string \<Rightarrow> dec
     \<Rightarrow> signal_row \<Rightarrow> signal_row result" where
  "filled_exposure holdings covered entry legs symbol direction side quantity row =
     bindr (holding_disagrees (find_holding holdings symbol) covered direction quantity) (\<lambda>disagrees.
     raise_if disagrees (refuse ''Filled entry and broker exposure disagree; reconcile ownership'')
    (case find_holding holdings symbol of
       None \<Rightarrow> Raise AssertionError
     | Some h \<Rightarrow>
         bindr (basis_differs entry h) (\<lambda>differs.
         raise_if differs (refuse ''Broker inventory basis differs from confirmed entry execution; reconcile ownership'')
        (bindr (opt_decimal_float (b_current_price h)) (\<lambda>mark.
         raise_if (mark \<le> 0) (refuse ''Broker exposure has no valid market mark'')
        (bindr (protective_stop legs side quantity) (\<lambda>protection.
         case protection of
           None \<Rightarrow> Raise (refuse ''Exact active stop protection is unavailable for existing exposure'')
         | Some stop \<Rightarrow>
             bindr (protection_differs stop side quantity) (\<lambda>inexact.
             raise_if inexact (refuse ''Exact protection differs from the broker exposure'')
            (bindr (opt_decimal (o_stop_price stop)) (\<lambda>stop_price.
             let distance = dmul (dsub mark stop_price) (if side = ''buy'' then 1 else -1)
             in raise_if (distance \<le> 0) (refuse ''Broker mark has reached stop protection; reconcile before new exposure'')
               (bindr (anyr (leg_unresolved side quantity) legs) (\<lambda>unresolved.
                raise_if unresolved (refuse ''Unresolved or partial protection requires exposure reconciliation'')
               (bindr (row_decimal (row_notional_value row)) (\<lambda>n.
                bindr (decimal_float (b_entry_price h)) (\<lambda>basis.
                bindr (row_decimal (row_risk_dollars row)) (\<lambda>risk.
                Ok (row\<lparr>row_notional_value := NDec (py_max n (dmul quantity (py_max mark basis))),
                       row_risk_dollars := NDec (py_max risk (dmul quantity distance))\<rparr>)))))))))))))))))"

record exposure_state =
  es_orders :: "string list"
  es_holdings :: "string list"
  es_rows :: "signal_row list"

definition expose_tracked ::
  "order_observation list \<Rightarrow> broker_position list \<Rightarrow> exposure_state \<Rightarrow> signal_row \<Rightarrow> string \<Rightarrow> string
     \<Rightarrow> exposure_state result" where
  "expose_tracked orders holdings st row symbol root_id =
     (let direction = (case row_direction row of Some d \<Rightarrow> d | None \<Rightarrow> []);
          side = (if direction = LONG then ''buy'' else ''sell'')
      in case find_order orders root_id of
        None \<Rightarrow> Raise (refuse ''Tracked exposure differs from exact broker entry identity'')
      | Some entry \<Rightarrow>
          raise_if (o_symbol entry \<noteq> symbol \<or> o_side entry \<noteq> side)
            (refuse ''Tracked exposure differs from exact broker entry identity'')
         (bindr (decimal (o_quantity entry)) (\<lambda>quantity.
          bindr (decimal (o_filled_quantity entry)) (\<lambda>filled.
          bindr (orr (Ok (quantity \<le> 0)) (orr (readr (row_decimal (row_quantity row)) (\<lambda>q. quantity \<noteq> q))
                   (Ok (\<not> (0 \<le> filled \<and> filled \<le> quantity))))) (\<lambda>wrong.
          raise_if wrong (refuse ''Broker exposure quantity differs from its full reserved commitment'')
         (raise_if (o_status entry = ''partially_filled'' \<or> 0 < filled \<and> filled < quantity)
            (refuse ''Partial entry exposure requires protection and ownership reconciliation'')
         (let family = group_of root_id orders; legs = legs_of orders family root_id
          in raise_if (list_ex (\<lambda>i. i \<in> set (es_orders st)) family)
               (refuse ''Multiple reservations claim the same broker exposure'')
            (raise_if (list_ex (\<lambda>o1. o_order_id o1 \<in> set family \<and> o_symbol o1 \<noteq> symbol) orders)
               (refuse ''Broker protection lineage has inconsistent symbol identity'')
            (bindr (anyr (\<lambda>l. readr (decimal (o_filled_quantity l)) (\<lambda>f. f > 0)) legs) (\<lambda>exited.
             raise_if exited (refuse ''Historical or partial exit execution requires ownership reconciliation'')
            (if o_status entry \<in> set WORKING_STATUSES \<and> filled = 0
             then bindr (pending_exposure holdings entry legs symbol side quantity row) (\<lambda>row'.
                    Ok \<lparr>es_orders = family @ es_orders st, es_holdings = es_holdings st, es_rows = es_rows st @ [row']\<rparr>)
             else if o_status entry = ''filled'' \<and> filled = quantity
             then bindr (filled_exposure holdings (symbol \<in> set (es_holdings st)) entry legs symbol direction side quantity row) (\<lambda>row'.
                    Ok \<lparr>es_orders = family @ es_orders st, es_holdings = symbol # es_holdings st, es_rows = es_rows st @ [row']\<rparr>)
             else Raise (refuse ''Unresolved broker entry exposure requires reconciliation''))))))))))))"

definition expose_row ::
  "order_observation list \<Rightarrow> broker_position list \<Rightarrow> exposure_state \<Rightarrow> signal_row \<Rightarrow> exposure_state result" where
  "expose_row orders holdings st row =
     bindr (getitem ''contract'' (row_contract row)) (\<lambda>symbol.
     case row_broker_order_id row of
       Some (c # cs) \<Rightarrow> expose_tracked orders holdings st row symbol (c # cs)
     | _ \<Rightarrow> raise_if (row_status row \<noteq> Some ''SUBMITTING'')
              (refuse ''Tracked exposure lacks exact broker entry identity'')
             (Ok (st\<lparr>es_rows := es_rows st @ [row]\<rparr>)))"

fun expose_rows ::
  "order_observation list \<Rightarrow> broker_position list \<Rightarrow> exposure_state \<Rightarrow> signal_row list \<Rightarrow> exposure_state result" where
  "expose_rows orders holdings st [] = Ok st"
| "expose_rows orders holdings st (row # rows) =
     bindr (expose_row orders holdings st row) (\<lambda>st'. expose_rows orders holdings st' rows)"

definition exposure :: "signal_row list \<Rightarrow> entry_context \<Rightarrow> signal_row list result" where
  "exposure reservations context =
     (let orders = x_orders context; holdings = x_positions context
      in raise_if (\<not> distinct (map o_order_id orders) \<or> \<not> distinct (map b_symbol holdings))
           (refuse ''Duplicate broker exposure identities; reconciliation required'')
        (bindr (expose_rows orders holdings \<lparr>es_orders = [], es_holdings = [], es_rows = []\<rparr> reservations) (\<lambda>st.
         raise_if (list_ex (\<lambda>p. b_symbol p \<notin> set (es_holdings st)) holdings)
           (refuse ''Untracked broker exposure requires ownership and protection review'')
        (raise_if (list_ex (\<lambda>o1. o_status o1 \<notin> set TERMINAL_STATUSES \<and> o_order_id o1 \<notin> set (es_orders st)) orders)
           (refuse ''Unrelated broker order exposure requires reconciliation; closing intent cannot be inferred'')
        (Ok (es_rows st))))))"

subsection \<open>The assessment\<close>

record capacity_assessment =
  ca_required :: dec
  ca_available :: dec
  ca_effective_capital :: dec
  ca_stop_risk :: dec
  ca_notional :: dec
  ca_position_count :: nat

text \<open>\<open>float(x).is_integer()\<close>.\<close>

definition is_integer :: "pyfloat \<Rightarrow> bool" where
  "is_integer x = (case x of Num r \<Rightarrow> of_int \<lfloor>r\<rfloor> = r | _ \<Rightarrow> False)"

definition account_refused :: "account_evidence \<Rightarrow> account_evidence \<Rightarrow> account_risk option \<Rightarrow> py_exc option" where
  "account_refused current a risk =
     (if ae_account_id a \<noteq> ae_account_id current
         \<or> (case risk of None \<Rightarrow> False | Some r \<Rightarrow> ae_account_id a \<noteq> ar_account_id r)
      then Some (refuse ''Broker account identity differs from reconciled risk'')
      else if ae_status a \<noteq> ''ACTIVE'' then Some (refuse ''Broker account is not active'')
      else if ae_currency a \<noteq> ''USD'' then Some (refuse ''Broker funding requires USD account evidence'')
      else if ae_trading_blocked a \<or> ae_account_blocked a \<or> ae_trade_suspended a
      then Some (refuse ''Broker account trading is blocked or suspended'')
      else None)"

definition observed_equity :: "entry_context \<Rightarrow> account_risk option \<Rightarrow> dec" where
  "observed_equity x risk = py_min (py_min (ae_equity (x_account_before x)) (ae_equity (x_account x)))
     (case risk of Some r \<Rightarrow> ar_equity r | None \<Rightarrow> ae_equity (x_account x))"

definition observed_buying_power :: "entry_context \<Rightarrow> dec" where
  "observed_buying_power x =
     py_min (py_min (py_min (ae_buying_power (x_account_before x)) (ae_buying_power (x_account x)))
       (ae_regt_buying_power (x_account_before x))) (ae_regt_buying_power (x_account x))"

definition short_refused :: "entry_context \<Rightarrow> bool" where
  "short_refused x =
     (list_ex (\<lambda>a. \<not> ae_shorting_enabled a \<or> ae_multiplier a \<le> 1 \<or> ae_equity a < MINIMUM_MARGIN_EQUITY)
        [x_account_before x, x_account x]
      \<or> \<not> as_marginable (x_asset x) \<or> \<not> as_shortable (x_asset x) \<or> as_borrow_status (x_asset x) \<noteq> Some ''easy_to_borrow'')"

text \<open>The price a share is funded at, and the buying power it may use.\<close>

definition funding :: "order_request \<Rightarrow> entry_context \<Rightarrow> dec \<Rightarrow> (dec \<times> dec) result" where
  "funding r x price =
     (let ask = q_ask_price (x_quote x); available = observed_buying_power x
      in if rq_direction r = SHORT
         then raise_if (short_refused x)
                (refuse ''Short entry requires enabled margin and current easy-to-borrow evidence; locates unsupported'')
               (Ok (py_max price (dmul ask SHORT_BUYING_POWER_MULTIPLIER), available))
         else Ok (py_max price ask,
                if as_marginable (x_asset x) then available
                else py_min (py_min available (ae_non_marginable_buying_power (x_account_before x)))
                       (ae_non_marginable_buying_power (x_account x))))"

definition unsupported_request :: "order_request \<Rightarrow> bool" where
  "unsupported_request r = (rq_asset_class r \<noteq> EQUITY \<or> rq_order_type r \<noteq> ''LIMIT'' \<or> rq_order_class r \<noteq> ''BRACKET''
     \<or> rq_time_in_force r \<notin> {''DAY'', ''GTC''} \<or> \<not> is_integer (rq_quantity r))"

definition asset_refused :: "order_request \<Rightarrow> entry_context \<Rightarrow> py_exc option" where
  "asset_refused r x =
     (if as_symbol (x_asset x) \<noteq> rq_symbol r \<or> q_symbol (x_quote x) \<noteq> rq_symbol r
      then Some (refuse ''Broker asset/quote identity differs from approved symbol'')
      else if as_asset_class (x_asset x) \<noteq> ''us_equity'' then Some (refuse ''Broker asset is not a supported equity'')
      else if as_status (x_asset x) \<noteq> ''active'' \<or> \<not> as_tradable (x_asset x)
      then Some (refuse ''Broker asset must be active and tradable'')
      else None)"

definition evidence_refused :: "order_request \<Rightarrow> entry_context \<Rightarrow> app_config \<Rightarrow> account_risk option \<Rightarrow> int \<Rightarrow> py_exc option" where
  "evidence_refused r x config risk now = (let ex = c_execution config in first_some
     [(if age_within now (x_requested_at x) (entry_evidence_max_age_seconds ex) then None
       else Some (refuse ''Broker account/book evidence is stale, expired or clock-skewed; request fresh approval'')),
      (if age_within now (x_observed_at x) (entry_evidence_max_age_seconds ex) then None
       else Some (refuse ''Broker receipt is stale, expired or clock-skewed; request fresh approval'')),
      (if age_within now (x_trade_timestamp x) (entry_quote_max_age_seconds ex) then None
       else Some (refuse ''Market trade is stale, expired or clock-skewed; request fresh approval'')),
      (if age_within now (q_timestamp (x_quote x)) (entry_quote_max_age_seconds ex) then None
       else Some (refuse ''Market quote is stale, expired or clock-skewed; request fresh approval'')),
      (if now \<ge> x_session_closes_at x
       then Some (refuse ''Equity session ended; request new approval during market hours'') else None),
      (if unsupported_request r
       then Some (refuse ''Broker admission supports whole-share equity limit brackets with DAY/GTC only'') else None),
      asset_refused r x,
      account_refused (x_account x) (x_account_before x) risk,
      account_refused (x_account x) (x_account x) risk])"

definition observed_drawdown :: "account_risk option \<Rightarrow> pyfloat" where
  "observed_drawdown risk = (case risk of Some k \<Rightarrow> float_of_dec (ar_drawdown_pct k) | None \<Rightarrow> 0)"

definition marked_price :: "entry_context \<Rightarrow> dec \<Rightarrow> dec" where
  "marked_price x price = py_max (py_max price (q_ask_price (x_quote x))) (x_price x)"

definition insufficient :: "dec \<Rightarrow> dec \<Rightarrow> py_exc" where
  "insufficient required available = ValueError [Lit ''Insufficient observed buying power: need $'', FDec ''.2f'' required,
     Lit '', available $'', FDec ''.2f'' available, Lit ''; request smaller sizing'']"

definition assess_entry_capacity ::
  "order_request \<Rightarrow> signal_row list \<Rightarrow> entry_context \<Rightarrow> app_config \<Rightarrow> account_risk option \<Rightarrow> int
     \<Rightarrow> capacity_assessment result" where
  "assess_entry_capacity r reservations x config risk now =
     (case evidence_refused r x config risk now of
        Some e \<Rightarrow> Raise e
      | None \<Rightarrow>
          (let equity = observed_equity x risk
           in bindr (risk_capital (p_cash (c_portfolio config)) (Some (float_of_dec equity))) (\<lambda>capital.
              case rq_entry_price r of
                None \<Rightarrow> Raise AssertionError
              | Some entry_price \<Rightarrow>
                  bindr (decimal_float entry_price) (\<lambda>price0.
                  bindr (funding r x price0) (\<lambda>(price, available).
                  bindr (decimal_float (rq_quantity r)) (\<lambda>quantity.
                  let required = dmul price quantity
                  in raise_if (required > available) (insufficient required available)
                    (bindr (exposure reservations x) (\<lambda>rows.
                     let exposure_price = marked_price x price0
                     in bindr (reservation_rejection r rows config (observed_drawdown risk) (Some (float_of_dec equity))
                                (Some (float_of_dec exposure_price))) (\<lambda>verdict.
                        case verdict of
                          Some t \<Rightarrow> Raise (ValueError t)
                        | None \<Rightarrow>
                            bindr (opt_decimal_float (rq_stop_loss r)) (\<lambda>stop.
                            bindr (decimal_float capital) (\<lambda>cap.
                            bindr (mapr (\<lambda>p. row_decimal (row_risk_dollars p)) rows) (\<lambda>risks.
                            bindr (mapr (\<lambda>p. row_decimal (row_notional_value p)) rows) (\<lambda>notionals.
                            Ok \<lparr>ca_required = required, ca_available = available, ca_effective_capital = cap,
                                ca_stop_risk = dsum risks (dmul (dabs (dsub price0 stop)) quantity),
                                ca_notional = dsum notionals (dmul exposure_price quantity),
                                ca_position_count = Suc (length rows)\<rparr>)))))))))))))"

subsection \<open>What a successful assessment means\<close>

text \<open>A row as the broker sees it covers the reserved one: same instrument, no smaller amounts.\<close>

definition no_smaller :: "row_num \<Rightarrow> row_num \<Rightarrow> bool" where
  "no_smaller v w = (v = w \<or> (\<exists>n m. row_decimal v = Ok n \<and> row_decimal w = Ok m \<and> n \<le> m))"

definition row_covers :: "signal_row \<Rightarrow> signal_row \<Rightarrow> bool" where
  "row_covers row row' = (row_contract row' = row_contract row \<and> row_direction row' = row_direction row
     \<and> row_status row' = row_status row \<and> row_asset_class row' = row_asset_class row
     \<and> no_smaller (row_notional_value row) (row_notional_value row')
     \<and> no_smaller (row_risk_dollars row) (row_risk_dollars row'))"

lemma py_max_rat_ge: "(a::rat) \<le> py_max a b" "b \<le> py_max a b"
  by (auto simp: py_max_def)

lemma py_min_rat_le: "py_min (a::rat) b \<le> a" "py_min a b \<le> b"
  by (auto simp: py_min_def)

lemma pending_covers: "pending_exposure hs e legs sb side q row = Ok row' \<Longrightarrow> row_covers row row'"
  by (auto simp: pending_exposure_def bindr_Inr_iff row_covers_def no_smaller_def row_decimal_def py_max_rat_ge)

lemma filled_holding:
  assumes "filled_exposure hs c e legs sb d side q row = Ok row'"
  shows "find_holding hs sb \<noteq> None \<and> \<not> c"
  using assms
  by (auto simp: filled_exposure_def bindr_Inr_iff holding_disagrees_def orr_False_iff split: option.splits)

lemma filled_covers:
  assumes "filled_exposure hs c e legs sb d side q row = Ok row'"
  shows "row_covers row row'"
  using assms
  by (auto simp: filled_exposure_def bindr_Inr_iff Let_def row_covers_def no_smaller_def row_decimal_def
      py_max_rat_ge split: option.split_asm)

text \<open>
  The loop invariant: every claimed order descends from the entry of a reservation already seen,
  every claimed holding is the contract of one, and the rows so far cover the reservations.
\<close>

definition claimed_by :: "order_observation list \<Rightarrow> signal_row list \<Rightarrow> string \<Rightarrow> bool" where
  "claimed_by orders rows i = (\<exists>row \<in> set rows. \<exists>e. row_broker_order_id row = Some e \<and> e \<noteq> [] \<and> lineage orders e i)"

definition exposure_inv :: "order_observation list \<Rightarrow> signal_row list \<Rightarrow> exposure_state \<Rightarrow> bool" where
  "exposure_inv orders rows st = (list_all2 row_covers rows (es_rows st)
     \<and> (\<forall>i \<in> set (es_orders st). claimed_by orders rows i)
     \<and> (\<forall>s \<in> set (es_holdings st). \<exists>row \<in> set rows. row_contract row = Some s \<and> row_broker_order_id row \<noteq> None))"

lemma claimed_by_snoc: "claimed_by orders rows i \<Longrightarrow> claimed_by orders (rows @ [row]) i"
  by (auto simp: claimed_by_def)

lemma row_covers_refl [simp]: "row_covers row row"
  by (simp add: row_covers_def no_smaller_def)

text \<open>What a tracked row that is accepted adds to the state.\<close>

lemma expose_tracked_adds:
  assumes "expose_tracked orders hs st row sb e = Ok st'"
  shows "\<exists>row' hd'. st' = \<lparr>es_orders = group_of e orders @ es_orders st, es_holdings = hd' @ es_holdings st,
      es_rows = es_rows st @ [row']\<rparr> \<and> row_covers row row' \<and> set hd' \<subseteq> {sb}"
proof -
  obtain entry where f: "find_order orders e = Some entry"
    using assms by (auto simp: expose_tracked_def Let_def split: option.split_asm)
  have H: "set [] \<subseteq> {sb}" "set [sb] \<subseteq> {sb}" by simp_all
  show ?thesis
    using assms
    by (auto simp: expose_tracked_def Let_def f bindr_Inr_iff split: if_split_asm
        dest!: pending_covers filled_covers intro: exI [of _ "[]"] exI [of _ "[sb]"])
qed

lemma expose_row_inv:
  assumes "expose_row orders hs st row = Ok st'" and "exposure_inv orders rows st"
  shows "exposure_inv orders (rows @ [row]) st'"
proof -
  obtain sb where sb: "row_contract row = Some sb"
    using assms(1) by (auto simp: expose_row_def bindr_Inr_iff getitem_def split: option.splits)
  show ?thesis
  proof (cases "case row_broker_order_id row of Some (c # cs) \<Rightarrow> True | _ \<Rightarrow> False")
    case True
    then obtain c cs where e: "row_broker_order_id row = Some (c # cs)"
      by (auto split: option.splits list.splits)
    have "expose_tracked orders hs st row sb (c # cs) = Ok st'"
      using assms(1) e sb by (simp add: expose_row_def getitem_def)
    then obtain row' hd' where st': "st' = \<lparr>es_orders = group_of (c # cs) orders @ es_orders st,
        es_holdings = hd' @ es_holdings st, es_rows = es_rows st @ [row']\<rparr>" "row_covers row row'" "set hd' \<subseteq> {sb}"
      using expose_tracked_adds by blast
    have "claimed_by orders (rows @ [row]) i" if "i \<in> set (group_of (c # cs) orders)" for i
      using that e unfolding group_of_lineage claimed_by_def by auto
    then show ?thesis
      using assms(2) st' sb e
      by (auto simp: exposure_inv_def claimed_by_snoc intro: list_all2_appendI)
  next
    case False
    then have "st' = st\<lparr>es_rows := es_rows st @ [row]\<rparr>"
      using assms(1) sb by (auto simp: expose_row_def getitem_def split: option.splits list.splits)
    then show ?thesis
      using assms(2) by (auto simp: exposure_inv_def claimed_by_snoc intro: list_all2_appendI)
  qed
qed

lemma expose_rows_inv:
  assumes "expose_rows orders hs st rows = Ok st'" and "exposure_inv orders done st"
  shows "exposure_inv orders (done @ rows) st'"
  using assms
proof (induction rows arbitrary: st "done")
  case (Cons row rows)
  then obtain st1 where st1: "expose_row orders hs st row = Ok st1" "expose_rows orders hs st1 rows = Ok st'"
    by (auto simp: bindr_Inr_iff)
  show ?case using Cons.IH [OF st1(2) expose_row_inv [OF st1(1) Cons.prems(2)]] by simp
qed simp

lemma exposure_complete:
  assumes "exposure rows x = Ok rows'"
  shows "list_all2 row_covers rows rows'
    \<and> (\<forall>p \<in> set (x_positions x). \<exists>row \<in> set rows. row_contract row = Some (b_symbol p) \<and> row_broker_order_id row \<noteq> None)
    \<and> (\<forall>o1 \<in> set (x_orders x). o_status o1 \<notin> set TERMINAL_STATUSES \<longrightarrow> claimed_by (x_orders x) rows (o_order_id o1))"
proof -
  let ?st0 = "\<lparr>es_orders = [], es_holdings = [], es_rows = []\<rparr>"
  obtain st where st: "expose_rows (x_orders x) (x_positions x) ?st0 rows = Ok st"
      and held: "\<forall>p \<in> set (x_positions x). b_symbol p \<in> set (es_holdings st)"
      and live: "\<forall>o1 \<in> set (x_orders x). o_status o1 \<in> set TERMINAL_STATUSES \<or> o_order_id o1 \<in> set (es_orders st)"
      and rows': "rows' = es_rows st"
    using assms by (auto simp: exposure_def Let_def bindr_Inr_iff list_ex_iff)
  have "exposure_inv (x_orders x) [] ?st0" by (simp add: exposure_inv_def)
  then have "exposure_inv (x_orders x) ([] @ rows) st" by (rule expose_rows_inv [OF st])
  then show ?thesis using held live rows' by (auto simp: exposure_inv_def)
qed

subsection \<open>Claims\<close>

text \<open>
  C19. The exposure handed to the entry rules accounts for everything at the broker: it covers the
  reservations one by one (same instrument, amounts never smaller), every broker position belongs to a
  reservation with a broker entry, and every order that is not terminal descends from such an entry.
\<close>

theorem exposure_accounts_for_all:
  assumes "exposure reservations x = Ok rows"
  shows "list_all2 row_covers reservations rows
    \<and> (\<forall>p \<in> set (x_positions x). \<exists>row \<in> set reservations.
         row_contract row = Some (b_symbol p) \<and> row_broker_order_id row \<noteq> None)
    \<and> (\<forall>o1 \<in> set (x_orders x). o_status o1 \<notin> set TERMINAL_STATUSES \<longrightarrow>
         claimed_by (x_orders x) reservations (o_order_id o1))"
  by (rule exposure_complete [OF assms])

lemma observed_buying_power_le:
  "observed_buying_power x \<le> ae_buying_power (x_account_before x)"
  "observed_buying_power x \<le> ae_buying_power (x_account x)"
  "observed_buying_power x \<le> ae_regt_buying_power (x_account_before x)"
  "observed_buying_power x \<le> ae_regt_buying_power (x_account x)"
  by (auto simp: observed_buying_power_def py_min_def)

text \<open>
  The conditions of a funded entry, written on the observed evidence itself: a short needs two accounts
  with margin and shorting and an asset that is easy to borrow; a share is priced at no less than the limit
  and the ask, or the ask with the short-sale margin.
\<close>

definition may_short :: "account_evidence \<Rightarrow> bool" where
  "may_short a = (ae_shorting_enabled a \<and> 1 < ae_multiplier a \<and> 2000 \<le> ae_equity a)"

definition borrowable :: "asset_evidence \<Rightarrow> bool" where
  "borrowable a = (as_marginable a \<and> as_shortable a \<and> as_borrow_status a = Some ''easy_to_borrow'')"

definition funded_price :: "order_request \<Rightarrow> entry_context \<Rightarrow> dec \<Rightarrow> dec \<Rightarrow> bool" where
  "funded_price r x limit price = (limit \<le> price
     \<and> (if rq_direction r = SHORT
        then may_short (x_account_before x) \<and> may_short (x_account x) \<and> borrowable (x_asset x)
          \<and> dmul (q_ask_price (x_quote x)) (103 / 100) \<le> price
        else q_ask_price (x_quote x) \<le> price))"

text \<open>An instant no more than \<open>limit\<close> seconds old, and at most one second ahead of the clock.\<close>

definition recent :: "int \<Rightarrow> int \<Rightarrow> pyfloat \<Rightarrow> bool" where
  "recent now t limit = (Num (- 1) \<le> total_seconds (now - t) \<and> total_seconds (now - t) \<le> limit)"

definition trades_in_dollars :: "account_evidence \<Rightarrow> bool" where
  "trades_in_dollars a = (ae_status a = ''ACTIVE'' \<and> ae_currency a = ''USD''
     \<and> \<not> ae_trading_blocked a \<and> \<not> ae_account_blocked a \<and> \<not> ae_trade_suspended a)"

definition sound_evidence :: "order_request \<Rightarrow> entry_context \<Rightarrow> pyfloat \<Rightarrow> pyfloat \<Rightarrow> account_risk option \<Rightarrow> int \<Rightarrow> bool" where
  "sound_evidence r x evidence_age quote_age risk now =
     (recent now (x_requested_at x) evidence_age \<and> recent now (x_observed_at x) evidence_age
      \<and> recent now (x_trade_timestamp x) quote_age \<and> recent now (q_timestamp (x_quote x)) quote_age
      \<and> now < x_session_closes_at x
      \<and> rq_asset_class r = EQUITY \<and> rq_order_type r = ''LIMIT'' \<and> rq_order_class r = ''BRACKET''
      \<and> (rq_time_in_force r = ''DAY'' \<or> rq_time_in_force r = ''GTC'')
      \<and> (\<exists>n::int. rq_quantity r = Num (of_int n))
      \<and> as_symbol (x_asset x) = rq_symbol r \<and> q_symbol (x_quote x) = rq_symbol r
      \<and> as_asset_class (x_asset x) = ''us_equity'' \<and> as_status (x_asset x) = ''active'' \<and> as_tradable (x_asset x)
      \<and> trades_in_dollars (x_account_before x) \<and> trades_in_dollars (x_account x)
      \<and> ae_account_id (x_account_before x) = ae_account_id (x_account x)
      \<and> (case risk of None \<Rightarrow> True | Some k \<Rightarrow> ar_account_id k = ae_account_id (x_account x)))"

lemma is_integer_iff: "is_integer q \<longleftrightarrow> (\<exists>n::int. q = Num (of_int n))"
  by (cases q) (auto simp: is_integer_def)

lemma account_accepted_iff:
  "account_refused current a risk = None \<longleftrightarrow>
     trades_in_dollars a \<and> ae_account_id a = ae_account_id current
     \<and> (case risk of None \<Rightarrow> True | Some k \<Rightarrow> ar_account_id k = ae_account_id a)"
  by (auto simp: account_refused_def trades_in_dollars_def split: option.splits)

lemma asset_accepted_iff:
  "asset_refused r x = None \<longleftrightarrow>
     as_symbol (x_asset x) = rq_symbol r \<and> q_symbol (x_quote x) = rq_symbol r
     \<and> as_asset_class (x_asset x) = ''us_equity'' \<and> as_status (x_asset x) = ''active'' \<and> as_tradable (x_asset x)"
  by (auto simp: asset_refused_def)

lemma age_within_iff: "age_within now t limit \<longleftrightarrow> recent now t limit"
  by (simp add: age_within_def recent_def Let_def CLOCK_SKEW_def one_pyfloat_def)

lemma evidence_accepted_iff:
  "evidence_refused r x config risk now = None \<longleftrightarrow>
     sound_evidence r x (entry_evidence_max_age_seconds (c_execution config))
       (entry_quote_max_age_seconds (c_execution config)) risk now"
  by (auto simp: evidence_refused_def sound_evidence_def Let_def first_some_None_iff age_within_iff asset_accepted_iff
      account_accepted_iff unsupported_request_def is_integer_iff split: option.splits)

lemma funding_bounds:
  assumes "funding r x p0 = Ok (price, available)"
  shows "funded_price r x p0 price" and "available \<le> observed_buying_power x"
    and "rq_direction r \<noteq> SHORT \<Longrightarrow> \<not> as_marginable (x_asset x) \<Longrightarrow>
      available \<le> ae_non_marginable_buying_power (x_account_before x)
      \<and> available \<le> ae_non_marginable_buying_power (x_account x)"
  using assms
  by (auto simp: funding_def funded_price_def short_refused_def may_short_def borrowable_def MINIMUM_MARGIN_EQUITY_def
      SHORT_BUYING_POWER_MULTIPLIER_def Let_def py_max_rat_ge py_min_def split: if_splits)

lemma assess_parts:
  assumes "assess_entry_capacity r reservations x config risk now = Ok ca"
  shows "evidence_refused r x config risk now = None \<and> ca_required ca \<le> ca_available ca
    \<and> (\<exists>rows e p q price. exposure reservations x = Ok rows \<and> ca_position_count ca = Suc (length rows)
        \<and> rq_entry_price r = Some e \<and> decimal_float e = Ok p \<and> decimal_float (rq_quantity r) = Ok q
        \<and> funding r x p = Ok (price, ca_available ca) \<and> ca_required ca = dmul price q
        \<and> reservation_rejection r rows config (observed_drawdown risk)
             (Some (float_of_dec (observed_equity x risk))) (Some (float_of_dec (marked_price x p))) = Ok None)"
  using assms
  by (auto simp: assess_entry_capacity_def Let_def bindr_Inr_iff not_less split: option.split_asm)

text \<open>
  C18. A submission is only authorised with funds and room for it. When the capacity assessment
  succeeds, the account, receipt, trade and quote were all within their age limits, the session was
  open, the request is a whole-share equity limit bracket, the asset and the quote are the requested
  symbol's, and both account reads are the one active, unblocked dollar account of the reconciled risk;
  the required buying power prices every share at no less than the limit and the ask (with the
  short-sale margin for a short, which needs margin and an easy borrow); it is at most each buying-power
  figure observed before and after, the non-marginable ones too when a long buys an asset without
  margin; and the request passes the shared admission policy over the broker-confirmed
  exposure, one row per reservation.
\<close>

theorem capacity_is_funded:
  assumes "assess_entry_capacity r reservations x config risk now = Ok ca"
  shows "sound_evidence r x (entry_evidence_max_age_seconds (c_execution config))
        (entry_quote_max_age_seconds (c_execution config)) risk now
    \<and> ca_required ca \<le> ae_buying_power (x_account_before x) \<and> ca_required ca \<le> ae_buying_power (x_account x)
    \<and> ca_required ca \<le> ae_regt_buying_power (x_account_before x) \<and> ca_required ca \<le> ae_regt_buying_power (x_account x)
    \<and> (rq_direction r \<noteq> SHORT \<and> \<not> as_marginable (x_asset x) \<longrightarrow>
         ca_required ca \<le> ae_non_marginable_buying_power (x_account_before x)
         \<and> ca_required ca \<le> ae_non_marginable_buying_power (x_account x))
    \<and> (\<exists>rows e p q price. exposure reservations x = Ok rows \<and> ca_position_count ca = Suc (length reservations)
        \<and> rq_entry_price r = Some e \<and> decimal_float e = Ok p \<and> decimal_float (rq_quantity r) = Ok q
        \<and> funded_price r x p price \<and> ca_required ca = dmul price q
        \<and> reservation_rejection r rows config (observed_drawdown risk)
             (Some (float_of_dec (observed_equity x risk))) (Some (float_of_dec (marked_price x p))) = Ok None)"
proof -
  obtain rows e p q price where f: "exposure reservations x = Ok rows" "ca_position_count ca = Suc (length rows)"
      "rq_entry_price r = Some e" "decimal_float e = Ok p" "decimal_float (rq_quantity r) = Ok q"
      "funding r x p = Ok (price, ca_available ca)" "ca_required ca = dmul price q"
      "reservation_rejection r rows config (observed_drawdown risk)
         (Some (float_of_dec (observed_equity x risk))) (Some (float_of_dec (marked_price x p))) = Ok None"
    using assess_parts [OF assms] by blast
  have "length rows = length reservations"
    using exposure_complete [OF f(1)] by (metis list_all2_lengthD)
  moreover have fits: "ca_required ca \<le> ca_available ca" using assess_parts [OF assms] by simp
  then have "ca_required ca \<le> observed_buying_power x" using funding_bounds(2) [OF f(6)] by simp
  moreover have "rq_direction r \<noteq> SHORT \<and> \<not> as_marginable (x_asset x) \<longrightarrow>
      ca_required ca \<le> ae_non_marginable_buying_power (x_account_before x)
      \<and> ca_required ca \<le> ae_non_marginable_buying_power (x_account x)"
    using fits funding_bounds(3) [OF f(6)] by auto
  moreover have "sound_evidence r x (entry_evidence_max_age_seconds (c_execution config))
      (entry_quote_max_age_seconds (c_execution config)) risk now"
    using assess_parts [OF assms] evidence_accepted_iff by blast
  ultimately show ?thesis
    using f funding_bounds(1) [OF f(6)] observed_buying_power_le [of x]
    by (auto intro: order_trans)
qed

subsection \<open>An example\<close>

definition demo_entry_order :: order_observation where
  "demo_entry_order = \<lparr>o_order_id = ''b1'', o_client_order_id = ''c1'', o_symbol = ''AAPL'', o_side = ''buy'',
     o_status = ''filled'', o_quantity = WDec 50, o_filled_quantity = WDec 50,
     o_average_fill_price = Some (WDec 160), o_limit_price = Some (WDec 160), o_stop_price = None,
     o_order_type = ''limit'', o_order_class = ''bracket'', o_updated_at = 0, o_submitted_at = Some 0, o_filled_at = Some 1,
     o_replaces = None, o_replaced_by = None, o_parent_order_id = None, o_source = ''rest''\<rparr>"

definition demo_stop_order :: order_observation where
  "demo_stop_order = demo_entry_order\<lparr>o_order_id := ''b2'', o_side := ''sell'', o_status := ''new'',
     o_filled_quantity := WDec 0, o_average_fill_price := None, o_limit_price := None,
     o_stop_price := Some (WDec 156), o_order_type := ''stop'', o_parent_order_id := Some ''b1''\<rparr>"

definition demo_account :: account_evidence where
  "demo_account = \<lparr>ae_account_id = ''acct'', ae_status = ''ACTIVE'', ae_currency = ''USD'', ae_buying_power = 90000,
     ae_regt_buying_power = 90000, ae_non_marginable_buying_power = 40000, ae_cash = 50000, ae_equity = 65536,
     ae_multiplier = 2, ae_trading_blocked = False, ae_account_blocked = False, ae_trade_suspended = False,
     ae_shorting_enabled = True\<rparr>"

definition demo_context :: entry_context where
  "demo_context = \<lparr>x_positions = [\<lparr>b_symbol = ''AAPL'', b_asset_class = EQUITY, b_direction = LONG,
       b_quantity = Num 50, b_entry_price = Num 160, b_current_price = Some (Num 160)\<rparr>],
     x_orders = [demo_stop_order, demo_entry_order], x_account_before = demo_account, x_account = demo_account,
     x_asset = \<lparr>as_symbol = ''spy'', as_asset_class = ''us_equity'', as_status = ''active'', as_tradable = True,
       as_marginable = True, as_shortable = True, as_borrow_status = None\<rparr>,
     x_quote = \<lparr>q_symbol = ''spy'', q_bid_price = 399, q_ask_price = 400, q_timestamp = 0\<rparr>,
     x_price = 399, x_trade_timestamp = 0, x_requested_at = 0, x_observed_at = 0, x_session_closes_at = 1\<rparr>"

definition demo_covered :: signal_row where
  "demo_covered = demo_row\<lparr>row_notional_value := NDec 8000, row_risk_dollars := NDec 200\<rparr>"

lemmas demo_broker_defs = demo_context_def demo_stop_order_def demo_entry_order_def demo_row_def

lemma demo_group: "group_of ''b1'' (x_orders demo_context) = [''b1'', ''b2'']"
  by (simp add: group_of_def group_loop.simps newly_linked_def linked_def demo_broker_defs)

lemma demo_exposure: "exposure [demo_row] demo_context = Ok [demo_covered]"
  using demo_group
  by (simp add: exposure_def expose_row_def getitem_def expose_tracked_def find_order_def legs_of_def
      demo_broker_defs demo_covered_def row_decimal_def decimal_float_def readr_def filled_exposure_def holding_disagrees_def
      find_holding_def basis_differs_def opt_truthy_def truthy_def opt_decimal_def opt_decimal_float_def
      protective_stop_def stop_leg_def protection_differs_def leg_unresolved_def TERMINAL_STATUSES_def
      WORKING_STATUSES_def PROTECTIVE_STOP_STATUSES_def BROKER_PRICE_TOLERANCE_def dabs_def dsub_def dmul_def
      py_max_def)

theorem exposure_accounts_for_all_witness:
  "claimed_by (x_orders demo_context) [demo_row] ''b2'' \<and> row_covers demo_row demo_covered"
proof -
  have "demo_stop_order \<in> set (x_orders demo_context)" "o_order_id demo_stop_order = ''b2''"
    "o_status demo_stop_order \<notin> set TERMINAL_STATUSES"
    by (simp_all add: demo_broker_defs TERMINAL_STATUSES_def)
  then show ?thesis using exposure_accounts_for_all [OF demo_exposure] by force
qed

lemma demo_marked_admission:
  "reservation_rejection demo_request [demo_covered] demo_config (Num 0) (Some (Num 65536)) (Some (Num 400)) = Ok None"
proof (rule reservation_rejectionI [OF demo_side demo_multiplier _ _ _ _ demo_limits_eq demo_budget_eq])
  show "request_intent demo_request 1 (Some (Num 400)) = Ok (demo_intent\<lparr>i_symbol := ''spy'', i_current_price := Some (Num 400)\<rparr>)"
    by (simp add: request_intent_def demo_request_def mk_entry_intent_def demo_intent_def positive_def
        str_eval zero_pyfloat_def one_pyfloat_def)
  have "from_signal_rows [demo_covered] True = \<lparr>positions = [demo_position]\<rparr>"
    by (simp add: from_signal_rows_def position_of_row_def demo_covered_def demo_row_def demo_position_def str_or_def
        number_def RESERVATION_STATUS_def float_of_dec_def str_eval)
  moreover have "admission_gates (demo_intent\<lparr>i_symbol := ''spy'', i_current_price := Some (Num 400)\<rparr>)
      \<lparr>positions = [demo_position]\<rparr> demo_budget demo_limits None = None"
    by (simp add: gate_eval)
  ultimately show "admission_gates (demo_intent\<lparr>i_symbol := ''spy'', i_current_price := Some (Num 400)\<rparr>)
      (from_signal_rows [demo_covered] True) demo_budget demo_limits None = None" by simp
qed (simp_all add: demo_request_def)

definition demo_assessment :: capacity_assessment where
  "demo_assessment = \<lparr>ca_required = 4000, ca_available = 90000, ca_effective_capital = 65536, ca_stop_risk = 300,
     ca_notional = 12000, ca_position_count = 2\<rparr>"

lemma demo_evidence: "evidence_refused demo_request demo_context demo_config None 0 = None"
  by (simp add: evidence_refused_def age_within_def total_seconds_def CLOCK_SKEW_def demo_context_def demo_config_def
      unsupported_request_def demo_request_def is_integer_def asset_refused_def account_refused_def demo_account_def
      one_pyfloat_def zero_pyfloat_def)

lemma demo_assessed:
  "assess_entry_capacity demo_request [demo_row] demo_context demo_config None 0 = Ok demo_assessment"
proof -
  have "observed_equity demo_context None = 65536" "marked_price demo_context 400 = 400"
    "funding demo_request demo_context 400 = Ok (400, 90000)"
    by (simp_all add: observed_equity_def marked_price_def funding_def observed_buying_power_def demo_context_def
        demo_account_def demo_request_def py_min_def py_max_def)
  moreover have "risk_capital (p_cash (c_portfolio demo_config)) (Some (Num 65536)) = Ok (Num 65536)"
    by (simp add: risk_capital_def demo_config_def py_min_def)
  moreover have "rq_entry_price demo_request = Some (Num 400)" "rq_stop_loss demo_request = Some (Num 390)"
    "rq_quantity demo_request = Num 10" by (simp_all add: demo_request_def)
  ultimately show ?thesis
    using demo_evidence demo_exposure demo_marked_admission
    by (simp add: assess_entry_capacity_def float_of_dec_def decimal_float_def opt_decimal_float_def observed_drawdown_def
        zero_pyfloat_def row_decimal_def demo_covered_def demo_assessment_def dmul_def dadd_def dsub_def dabs_def)
qed

theorem capacity_is_funded_witness:
  "ca_required demo_assessment \<le> ae_regt_buying_power (x_account demo_context)
   \<and> assess_entry_capacity demo_request [demo_row] demo_context demo_config None 0 = Ok demo_assessment"
  using capacity_is_funded [OF demo_assessed] demo_assessed by simp

end
