(* ===== verification/Probe.thy ===== *)
theory Probe
  imports Capacity
begin

text \<open>
  Which alpha versions may take risk: the paper-probe policy (\<open>research/alpha/probe.py\<close>), its
  liveness check (\<open>storage/probe_state.py\<close>) and the alpha gate of entry admission
  (\<open>WorkflowStore._alpha_entry_rejection\<close> of \<open>storage/workflow.py\<close>). JSON policy documents are
  compared as wholes and are opaque texts here.
\<close>

subsection \<open>Policy and assessment\<close>

record probe_policy =
  pp_version :: string
  pp_min_holdout_sharpe :: pyfloat
  pp_min_cost_stressed_return_pct :: pyfloat
  pp_min_holdout_trades :: int
  pp_max_term_days :: int
  pp_kill_r :: pyfloat

definition default_probe_policy :: probe_policy where
  "default_probe_policy = \<lparr>pp_version = ''probe_policy_v1'', pp_min_holdout_sharpe = 0,
     pp_min_cost_stressed_return_pct = 0, pp_min_holdout_trades = 5, pp_max_term_days = 180,
     pp_kill_r = Num (- 4)\<rparr>"

text \<open>The brokerage paper account's scope; \<open>ends_with\<close> is \<open>str.endswith\<close>.\<close>

definition ends_with :: "string \<Rightarrow> string \<Rightarrow> bool" where
  "ends_with s t = (length t \<le> length s \<and> drop (length s - length t) s = t)"

definition is_paper_scope :: "string \<Rightarrow> bool" where
  "is_paper_scope scope = ends_with scope ''/alpaca:paper''"

definition STRUCTURAL_CRITERIA :: "string list" where
  "STRUCTURAL_CRITERIA = [''holdout_available'', ''deployment_data_contract'',
     ''intraday_session_execution_unverified'', ''recursive_feature_requires_shared_initialization'']"

text \<open>One recorded criterion; a value that is no real number is \<open>None\<close>.\<close>

record criterion =
  cr_status :: "string option"
  cr_value :: "pyfloat option"

record probe_assessment =
  pa_eligible :: bool
  pa_reasons :: "string list"
  pa_observations :: "(string \<times> pyfloat) list"

definition structural_reason :: "(string \<times> criterion) list \<Rightarrow> string \<Rightarrow> string list" where
  "structural_reason criteria code = (case map_of criteria code of
     None \<Rightarrow> [code @ ''_missing'']
   | Some c \<Rightarrow> if cr_status c \<noteq> Some ''pass'' then [code @ ''_failed''] else [])"

definition floor_check ::
  "(string \<times> criterion) list \<Rightarrow> string \<times> pyfloat \<times> bool \<Rightarrow> string list \<times> (string \<times> pyfloat) list" where
  "floor_check criteria fl = (case fl of (code, bound, strict) \<Rightarrow>
     case map_of criteria code of
       None \<Rightarrow> ([code @ ''_missing''], [])
     | Some c \<Rightarrow>
         if cr_status c = Some ''unavailable'' then ([code @ ''_unavailable''], [])
         else case cr_value c of
           None \<Rightarrow> ([code @ ''_invalid''], [])
         | Some v \<Rightarrow>
             if \<not> isfinite v then ([code @ ''_invalid''], [])
             else ((if (if strict then v \<le> bound else v < bound) then [code @ ''_below_probe_floor''] else []), [(code, v)]))"

definition probe_floors :: "probe_policy \<Rightarrow> (string \<times> pyfloat \<times> bool) list" where
  "probe_floors p = [(''holdout_sharpe'', pp_min_holdout_sharpe p, True),
     (''cost_stress'', pp_min_cost_stressed_return_pct p, True),
     (''holdout_trade_count'', b64 (of_int (pp_min_holdout_trades p)), False)]"

definition assess_probe :: "(string \<times> criterion) list option \<Rightarrow> probe_policy \<Rightarrow> probe_assessment" where
  "assess_probe qualification policy = (case qualification of
     None \<Rightarrow> \<lparr>pa_eligible = False, pa_reasons = [''qualification_missing''], pa_observations = []\<rparr>
   | Some criteria \<Rightarrow>
       let floors = map (floor_check criteria) (probe_floors policy);
           reasons = concat (map (structural_reason criteria) STRUCTURAL_CRITERIA) @ concat (map fst floors)
       in \<lparr>pa_eligible = (reasons = []), pa_reasons = reasons, pa_observations = concat (map snd floors)\<rparr>)"

subsection \<open>The forward record\<close>

record forward =
  fw_trades :: nat
  fw_unknown :: nat
  fw_cumulative_r :: pyfloat
  fw_killed :: bool

text \<open>A reconciled close: its realized result and its planned risk, both known and the risk positive.\<close>

definition known_close :: "pyfloat option \<times> pyfloat option \<Rightarrow> bool" where
  "known_close row = (case row of (Some p, Some r) \<Rightarrow> isfinite p \<and> isfinite r \<and> 0 < r | _ \<Rightarrow> False)"

definition r_multiple :: "pyfloat option \<times> pyfloat option \<Rightarrow> pyfloat" where
  "r_multiple row = (case row of (Some p, Some r) \<Rightarrow> quot p r | _ \<Rightarrow> 0)"

fun forward_loop ::
  "(pyfloat option \<times> pyfloat option) list \<Rightarrow> nat \<Rightarrow> nat \<Rightarrow> pyfloat \<Rightarrow> nat \<times> nat \<times> pyfloat" where
  "forward_loop [] trades unknown cumulative = (trades, unknown, cumulative)"
| "forward_loop (row # rows) trades unknown cumulative =
     (if known_close row then forward_loop rows (Suc trades) unknown (cumulative + r_multiple row)
      else forward_loop rows trades (Suc unknown) cumulative)"

definition forward_record :: "(pyfloat option \<times> pyfloat option) list \<Rightarrow> probe_policy \<Rightarrow> forward" where
  "forward_record rows policy = (case forward_loop rows 0 0 0 of (trades, unknown, cumulative) \<Rightarrow>
     \<lparr>fw_trades = trades, fw_unknown = unknown, fw_cumulative_r = cumulative,
      fw_killed = (trades > 0 \<and> cumulative \<le> pp_kill_r policy)\<rparr>)"

subsection \<open>Probe liveness (\<open>storage/probe_state.py\<close>)\<close>

record enrolment =
  en_policy :: probe_policy
  en_expires_at :: int
  en_first_enrolled_at :: int

text \<open>
  A row of the signals table, with the columns the forward record filters on and the two it reads, and
  the database handle's own environment and execution mode. The rows come in the order of the query.
\<close>

record forward_row =
  fr_alpha_version :: "string option"
  fr_is_quarantined :: bool
  fr_environment :: string
  fr_execution_mode :: string
  fr_status :: string
  fr_exit_timestamp :: "int option"
  fr_realized_pnl :: "pyfloat option"
  fr_risk_dollars :: pyfloat

record db_scope =
  db_environment :: string
  db_execution_mode :: string

definition CLOSED_STATUSES :: "string list" where
  "CLOSED_STATUSES = [''CLOSED_WIN'', ''CLOSED_LOSS'', ''CLOSED_MANUAL'']"

definition load_forward_record :: "forward_row list \<Rightarrow> db_scope \<Rightarrow> string \<Rightarrow> int \<Rightarrow> probe_policy \<Rightarrow> forward" where
  "load_forward_record rows db version_id since policy =
     forward_record (map (\<lambda>c. (fr_realized_pnl c, Some (fr_risk_dollars c)))
       (filter (\<lambda>c. fr_alpha_version c = Some version_id \<and> \<not> fr_is_quarantined c
          \<and> fr_environment c = db_environment db \<and> fr_execution_mode c = db_execution_mode db
          \<and> fr_status c \<in> set CLOSED_STATUSES
          \<and> (case fr_exit_timestamp c of Some t \<Rightarrow> t \<ge> since | None \<Rightarrow> False)) rows)) policy"

definition probe_block_reason ::
  "string \<Rightarrow> enrolment option \<Rightarrow> forward_row list \<Rightarrow> db_scope \<Rightarrow> string \<Rightarrow> int \<Rightarrow> ftext option" where
  "probe_block_reason scope enrolled rows db version now =
     (let policy = default_probe_policy
      in if \<not> is_paper_scope scope then Some (msg ''paper probes run only on the Alpaca paper account'')
         else case enrolled of
           None \<Rightarrow> Some (msg ''probe enrolment evidence is missing'')
         | Some e \<Rightarrow>
             if en_policy e \<noteq> policy then Some (msg ''probe policy changed; renew the probe under the current policy'')
             else if en_expires_at e \<le> now then Some (msg ''probe term expired; renew it or let it retire'')
             else let record' = load_forward_record rows db version (en_first_enrolled_at e) policy
                  in if fw_killed record'
                     then Some [Lit ''probe kill rule reached ('', FFloat ''.2f'' (fw_cumulative_r record'), Lit ''R <= '',
                            FFloat ''.2f'' (pp_kill_r policy), Lit ''R)'']
                     else None)"

subsection \<open>The alpha gate of admission\<close>

text \<open>
  The event in a signal's provenance (its symbol, New York session and frozen-entry digest), and the
  fields of a signal the gate compares.
\<close>

record provenance_event =
  pe_symbol :: string
  pe_session :: int
  pe_entry_sha256 :: string

record alpha_signal =
  sg_contract :: string
  sg_strategy :: string
  sg_timeframe :: "string option"
  sg_alpha_version :: "string option"
  sg_alpha_policy :: "string option"
  sg_direction :: string
  sg_pead_event :: "provenance_event option"
  sg_watch_event :: "provenance_event option"
  sg_session :: int

record alpha_definition =
  ad_kind :: "string option"
  ad_alpha_id :: string
  ad_timeframe :: string
  ad_leg :: string
  ad_execution :: string
  ad_eligible_symbols :: "string list"
  ad_clock :: "string option"

record alpha_registry =
  al_scope :: string
  al_active :: "string list"
  al_probe :: "string list"
  al_versions :: "(string \<times> alpha_definition) list"
  al_qualified_policy :: "(string \<times> string) list"
  al_current_policy :: string
  al_enrolments :: "(string \<times> enrolment) list"
  al_signals :: "forward_row list"
  al_db :: db_scope
  al_watch_contract :: "string + string \<times> string"  \<comment> \<open>the error's type name, or policy text and entry digest\<close>

abbreviation CATALOG_KIND :: string where "CATALOG_KIND \<equiv> ''apriori''"
abbreviation INSIDER_WATCH_STRATEGY_ID :: string where "INSIDER_WATCH_STRATEGY_ID \<equiv> ''insider_watch_long''"

definition CATALOG_STRATEGY_IDS :: "string list" where
  "CATALOG_STRATEGY_IDS = [''pead_long'', ''pead_short'']"

definition set_text :: "string option \<Rightarrow> bool" where
  "set_text v = (case v of None \<Rightarrow> False | Some s \<Rightarrow> s \<noteq> [])"

definition catalog_signal_rejection :: "alpha_signal \<Rightarrow> alpha_definition \<Rightarrow> ftext option" where
  "catalog_signal_rejection s d =
     (if sg_strategy s \<noteq> ad_alpha_id d \<or> sg_timeframe s \<noteq> Some (ad_timeframe d) \<or> upper (sg_direction s) \<noteq> ad_leg d
         \<or> \<not> set_text (sg_alpha_policy s) \<or> sg_alpha_policy s \<noteq> Some (ad_execution d)
         \<or> (case sg_pead_event s of None \<Rightarrow> True
            | Some e \<Rightarrow> pe_symbol e \<noteq> upper (sg_contract s) \<or> pe_session e \<noteq> sg_session s)
      then Some (msg ''Catalog signal differs from its immutable strategy contract.'') else None)"

definition watch_signal_rejection :: "string + string \<times> string \<Rightarrow> alpha_signal \<Rightarrow> ftext option" where
  "watch_signal_rejection contract s = (case contract of
     Inl err \<Rightarrow> Some [Lit ''Insider watch contract unavailable: '', Lit err, Lit ''.'']
   | Inr (policy, sha) \<Rightarrow>
       if set_text (sg_alpha_version s) \<or> sg_timeframe s \<noteq> Some ''1d'' \<or> upper (sg_direction s) \<noteq> LONG
          \<or> \<not> set_text (sg_alpha_policy s) \<or> sg_alpha_policy s \<noteq> Some policy
          \<or> (case sg_watch_event s of None \<Rightarrow> True
             | Some e \<Rightarrow> pe_entry_sha256 e \<noteq> sha \<or> pe_symbol e \<noteq> upper (sg_contract s) \<or> pe_session e \<noteq> sg_session s)
       then Some (msg ''Insider watch signal differs from its frozen contract.'') else None)"

text \<open>Whether a signal is an alpha's at all: a version, the \<open>alpha_\<close> prefix, or a catalog strategy.\<close>

definition is_alpha_signal :: "alpha_signal \<Rightarrow> bool" where
  "is_alpha_signal s = (set_text (sg_alpha_version s) \<or> take 6 (lower (sg_strategy s)) = ''alpha_''
     \<or> lower (sg_strategy s) \<in> set CATALOG_STRATEGY_IDS)"

definition contract_rejection :: "alpha_signal \<Rightarrow> alpha_definition \<Rightarrow> bool \<Rightarrow> ftext option" where
  "contract_rejection s d is_active =
     (if ad_kind d = Some CATALOG_KIND
      then if is_active then Some (msg ''Catalog alphas run only as paper probes.'') else catalog_signal_rejection s d
      else if ad_clock d \<noteq> None then Some (msg ''Alpha session-clock execution remains diagnostic; new risk is disabled.'')
      else if sg_strategy s \<noteq> ad_alpha_id d \<or> sg_timeframe s \<noteq> Some (ad_timeframe d)
        \<or> upper (sg_contract s) \<notin> set (ad_eligible_symbols d) \<or> \<not> set_text (sg_alpha_policy s)
        \<or> sg_alpha_policy s \<noteq> Some (ad_execution d)
      then Some (msg ''Alpha signal differs from its immutable strategy contract.'')
      else None)"

definition alpha_entry_rejection :: "alpha_registry \<Rightarrow> int \<Rightarrow> alpha_signal \<Rightarrow> ftext option" where
  "alpha_entry_rejection reg now s =
     (if sg_strategy s = INSIDER_WATCH_STRATEGY_ID then watch_signal_rejection (al_watch_contract reg) s
      else if \<not> is_alpha_signal s then None
      else case (if set_text (sg_alpha_version s) then sg_alpha_version s else None) of
        None \<Rightarrow> Some (msg ''Alpha version is not active/qualified; request a fresh scan after qualification.'')
      | Some v \<Rightarrow>
          let is_active = (v \<in> set (al_active reg)); is_probe = (v \<in> set (al_probe reg))
          in if \<not> is_active \<and> \<not> is_probe
             then Some (msg ''Alpha version is not active/qualified; request a fresh scan after qualification.'')
             else case map_of (al_versions reg) v of
               None \<Rightarrow> Some (msg ''Alpha version evidence is missing.'')
             | Some d \<Rightarrow>
                 if is_active
                 then if map_of (al_qualified_policy reg) v \<noteq> Some (al_current_policy reg)
                      then Some (msg ''Alpha qualification policy is obsolete; fresh research and qualification are required.'')
                      else contract_rejection s d True
                 else case probe_block_reason (al_scope reg) (map_of (al_enrolments reg) v) (al_signals reg) (al_db reg) v now of
                        Some blocked \<Rightarrow> Some (Lit ''Paper probe blocked: '' # blocked @ [Lit ''.''])
                      | None \<Rightarrow> contract_rejection s d False)"

subsection \<open>Properties\<close>

lemma forward_loop_eq:
  "forward_loop rows t u c = (t + length (filter known_close rows), u + length (filter (\<lambda>r. \<not> known_close r) rows),
     foldl (+) c (map r_multiple (filter known_close rows)))"
  by (induction rows arbitrary: t u c) simp_all

text \<open>
  Unknown outcomes neither kill nor protect a probe: the forward record's trades, cumulative R and
  kill verdict are those of the reconciled closes alone, summed in order, and a record without a
  reconciled close never kills.
\<close>

theorem forward_record_known_only:
  "fw_killed (forward_record rows policy) = fw_killed (forward_record (filter known_close rows) policy)
   \<and> fw_trades (forward_record rows policy) = length (filter known_close rows)
   \<and> fw_trades (forward_record rows policy) + fw_unknown (forward_record rows policy) = length rows
   \<and> fw_cumulative_r (forward_record rows policy) = foldl (+) 0 (map r_multiple (filter known_close rows))
   \<and> fw_killed (forward_record rows policy)
       = (filter known_close rows \<noteq> [] \<and> foldl (+) 0 (map r_multiple (filter known_close rows)) \<le> pp_kill_r policy)"
  using sum_length_filter_compl [of known_close rows]
  by (simp add: forward_record_def forward_loop_eq)

text \<open>
  A live probe, on the stored rows: the paper account, an enrolment under the current policy that has not
  expired, and no loss of four risk units over the version's own reconciled closes since it was enrolled.
  Such a close is a closed, unquarantined signal of the version in this environment and mode.
\<close>

definition probe_close :: "db_scope \<Rightarrow> string \<Rightarrow> int \<Rightarrow> forward_row \<Rightarrow> bool" where
  "probe_close db v since c = (fr_alpha_version c = Some v \<and> \<not> fr_is_quarantined c
     \<and> fr_environment c = db_environment db \<and> fr_execution_mode c = db_execution_mode db
     \<and> (fr_status c = ''CLOSED_WIN'' \<or> fr_status c = ''CLOSED_LOSS'' \<or> fr_status c = ''CLOSED_MANUAL'')
     \<and> (\<exists>t. fr_exit_timestamp c = Some t \<and> since \<le> t)
     \<and> (\<exists>p r. fr_realized_pnl c = Some (Num p) \<and> fr_risk_dollars c = Num r \<and> 0 < r))"

definition realized_r :: "forward_row \<Rightarrow> pyfloat" where
  "realized_r c = (case fr_realized_pnl c of Some p \<Rightarrow> quot p (fr_risk_dollars c) | None \<Rightarrow> 0)"

definition live_probe :: "alpha_registry \<Rightarrow> string \<Rightarrow> int \<Rightarrow> bool" where
  "live_probe reg v now = ((\<exists>prefix. al_scope reg = prefix @ ''/alpaca:paper'')
     \<and> (\<exists>e. map_of (al_enrolments reg) v = Some e \<and> en_policy e = default_probe_policy \<and> now < en_expires_at e
          \<and> (let closes = filter (probe_close (al_db reg) v (en_first_enrolled_at e)) (al_signals reg)
             in closes = [] \<or> \<not> foldl (+) 0 (map realized_r closes) \<le> Num (- 4))))"

lemma ends_with_iff: "ends_with s t \<longleftrightarrow> (\<exists>prefix. s = prefix @ t)"
proof
  assume "ends_with s t"
  then have "s = take (length s - length t) s @ t" by (metis append_take_drop_id ends_with_def)
  then show "\<exists>prefix. s = prefix @ t" by blast
qed (auto simp: ends_with_def)

lemma isfinite_Num: "isfinite p \<longleftrightarrow> (\<exists>x. p = Num x)"
  by (cases p) simp_all

lemma known_close_row:
  "known_close (pnl, Some r) \<longleftrightarrow> (\<exists>p x. pnl = Some (Num p) \<and> r = Num x \<and> 0 < x)"
  by (cases pnl) (auto simp: known_close_def isfinite_Num zero_pyfloat_def)

lemma loaded_killed_iff:
  "fw_killed (load_forward_record rows db v since policy) \<longleftrightarrow>
     (let closes = filter (probe_close db v since) rows
      in closes \<noteq> [] \<and> foldl (+) 0 (map realized_r closes) \<le> pp_kill_r policy)"
proof -
  let ?read = "\<lambda>c. (fr_realized_pnl c, Some (fr_risk_dollars c))"
  let ?sel = "\<lambda>c. fr_alpha_version c = Some v \<and> \<not> fr_is_quarantined c
          \<and> fr_environment c = db_environment db \<and> fr_execution_mode c = db_execution_mode db
          \<and> fr_status c \<in> set CLOSED_STATUSES
          \<and> (case fr_exit_timestamp c of Some t \<Rightarrow> t \<ge> since | None \<Rightarrow> False)"
  have "?sel c \<and> known_close (?read c) \<longleftrightarrow> probe_close db v since c" for c
    by (auto simp: probe_close_def CLOSED_STATUSES_def known_close_row split: option.splits)
  then have known: "filter known_close (map ?read (filter ?sel rows)) = map ?read (filter (probe_close db v since) rows)"
    by (simp add: filter_map o_def conj_commute)
  have "r_multiple \<circ> ?read = realized_r"
    by (rule ext) (simp add: r_multiple_def realized_r_def split: option.split)
  moreover have "fw_killed (forward_record rs policy) =
      (filter known_close rs \<noteq> [] \<and> foldl (+) 0 (map r_multiple (filter known_close rs)) \<le> pp_kill_r policy)" for rs
    using forward_record_known_only by blast
  ultimately show ?thesis
    unfolding load_forward_record_def Let_def by (simp only: known map_map map_is_Nil_conv not_False_eq_True)
qed

lemma probe_live_iff:
  "probe_block_reason (al_scope reg) (map_of (al_enrolments reg) v) (al_signals reg) (al_db reg) v now = None \<longleftrightarrow> live_probe reg v now"
  by (auto simp: probe_block_reason_def live_probe_def is_paper_scope_def ends_with_iff loaded_killed_iff
      default_probe_policy_def Let_def not_le split: option.splits)

text \<open>The stored contract of a version, as the signal has to match it.\<close>

definition keeps_contract :: "alpha_signal \<Rightarrow> alpha_definition \<Rightarrow> bool" where
  "keeps_contract s d = (sg_strategy s = ad_alpha_id d \<and> sg_timeframe s = Some (ad_timeframe d)
     \<and> sg_alpha_policy s = Some (ad_execution d) \<and> ad_execution d \<noteq> []
     \<and> (if ad_kind d = Some CATALOG_KIND
        then upper (sg_direction s) = ad_leg d
          \<and> (\<exists>e. sg_pead_event s = Some e \<and> pe_symbol e = upper (sg_contract s) \<and> pe_session e = sg_session s)
        else ad_clock d = None \<and> upper (sg_contract s) \<in> set (ad_eligible_symbols d)))"

lemma contract_accepted_iff:
  "contract_rejection s d is_active = None \<longleftrightarrow>
     keeps_contract s d \<and> \<not> (is_active \<and> ad_kind d = Some CATALOG_KIND)"
  by (auto simp: contract_rejection_def catalog_signal_rejection_def keeps_contract_def set_text_def
      split: option.splits)

text \<open>
  C36. An alpha signal takes risk only under its own immutable contract: its version is listed and its
  definition stored; it is either active, qualified under the current policy and no catalog alpha, or a
  probe on the paper account, enrolled under the current policy, unexpired, whose reconciled closes since
  enrolment have not lost four risk units; and strategy, timeframe and execution policy are those of the
  stored definition, with the direction, symbol and session of the catalog's leg and event for a catalog
  alpha, and an eligible symbol and no session clock for any other.
\<close>

theorem alpha_entry_authorised:
  assumes "alpha_entry_rejection reg now s = None" and "is_alpha_signal s"
    and "sg_strategy s \<noteq> INSIDER_WATCH_STRATEGY_ID"
  shows "\<exists>v d. sg_alpha_version s = Some v \<and> v \<noteq> [] \<and> map_of (al_versions reg) v = Some d
    \<and> (v \<in> set (al_active reg) \<and> map_of (al_qualified_policy reg) v = Some (al_current_policy reg)
         \<and> ad_kind d \<noteq> Some CATALOG_KIND
       \<or> v \<notin> set (al_active reg) \<and> v \<in> set (al_probe reg) \<and> live_probe reg v now)
    \<and> keeps_contract s d"
proof -
  obtain v where v: "sg_alpha_version s = Some v" "set_text (sg_alpha_version s)"
    using assms by (auto simp: alpha_entry_rejection_def split: if_splits option.splits)
  obtain d where d: "map_of (al_versions reg) v = Some d"
    using assms v by (cases "map_of (al_versions reg) v") (auto simp: alpha_entry_rejection_def Let_def split: if_splits)
  have "v \<noteq> []" using v by (simp add: set_text_def)
  then show ?thesis
    using assms v d contract_accepted_iff [of s d] probe_live_iff [of reg v now]
    by (auto simp: alpha_entry_rejection_def Let_def split: if_splits option.splits)
qed

definition demo_alpha_signal :: alpha_signal where
  "demo_alpha_signal = \<lparr>sg_contract = ''spy'', sg_strategy = ''alpha_gap'', sg_timeframe = Some ''1d'',
     sg_alpha_version = Some ''v1'', sg_alpha_policy = Some ''{}'', sg_direction = LONG, sg_pead_event = None,
     sg_watch_event = None, sg_session = 0\<rparr>"

definition demo_registry :: alpha_registry where
  "demo_registry = \<lparr>al_scope = ''test/alpaca:paper'', al_active = [], al_probe = [''v1''],
     al_versions = [(''v1'', \<lparr>ad_kind = None, ad_alpha_id = ''alpha_gap'', ad_timeframe = ''1d'', ad_leg = LONG,
        ad_execution = ''{}'', ad_eligible_symbols = [''SPY''], ad_clock = None\<rparr>)],
     al_qualified_policy = [], al_current_policy = ''p'',
     al_enrolments = [(''v1'', \<lparr>en_policy = default_probe_policy, en_expires_at = 10, en_first_enrolled_at = 0\<rparr>)],
     al_signals = [\<lparr>fr_alpha_version = Some ''v1'', fr_is_quarantined = False, fr_environment = ''test'',
        fr_execution_mode = ''alpaca:paper'', fr_status = ''CLOSED_LOSS'', fr_exit_timestamp = Some 1,
        fr_realized_pnl = Some (Num (- 300)), fr_risk_dollars = Num 100\<rparr>],
     al_db = \<lparr>db_environment = ''test'', db_execution_mode = ''alpaca:paper''\<rparr>,
     al_watch_contract = Inl ''FileNotFoundError''\<rparr>"

lemma demo_alpha_passes: "alpha_entry_rejection demo_registry 5 demo_alpha_signal = None"
  by (simp add: alpha_entry_rejection_def demo_registry_def demo_alpha_signal_def is_alpha_signal_def set_text_def
      probe_block_reason_def is_paper_scope_def ends_with_def default_probe_policy_def load_forward_record_def
      CLOSED_STATUSES_def forward_record_def known_close_def r_multiple_def quot_def contract_rejection_def str_eval zero_pyfloat_def)

theorem alpha_entry_authorised_witness:
  "\<exists>v d. sg_alpha_version demo_alpha_signal = Some v \<and> map_of (al_versions demo_registry) v = Some d
    \<and> live_probe demo_registry v 5 \<and> keeps_contract demo_alpha_signal d"
proof -
  have "is_alpha_signal demo_alpha_signal" "sg_strategy demo_alpha_signal \<noteq> INSIDER_WATCH_STRATEGY_ID"
    by (simp_all add: is_alpha_signal_def demo_alpha_signal_def set_text_def)
  moreover have "v \<notin> set (al_active demo_registry)" for v by (simp add: demo_registry_def)
  ultimately show ?thesis using alpha_entry_authorised [OF demo_alpha_passes] by blast
qed

end
