(* ===== verification/Lifetime_Policy.thy ===== *)
theory Lifetime_Policy
  imports Risk_Limits
begin

text \<open>
  The elapsed-time contracts of entries and positions (\<open>execution/lifetime_policy.py\<close>): the three
  lifetime policies with their validation, the deadlines they give, and the resolver that reads a
  policy from a signal's stored documents. Instants are UTC microseconds. The New York zone is a
  parameter: \<open>ny\<close> gives the wall clock of an instant, \<open>utc\<close> the instant of a wall clock; Python
  compares two values of one zone by their wall clocks, and so does the model.
\<close>

subsection \<open>Stored documents\<close>

datatype json =
    JNull
  | JBool bool
  | JInt int
  | JFloat pyfloat
  | JStr string
  | JList "json list"
  | JObj "(string \<times> json) list"

text \<open>A stored JSON column: null, the empty text, text that does not parse (with its message), or a value.\<close>

datatype stored_doc = DNull | DEmpty | DMalformed ftext | DJson json

definition document :: "stored_doc \<Rightarrow> (string \<times> json) list result" where
  "document v = (case v of
     DNull \<Rightarrow> Ok []
   | DEmpty \<Rightarrow> Ok []
   | DMalformed t \<Rightarrow> Raise (ValueError t)
   | DJson JNull \<Rightarrow> Ok []
   | DJson (JObj obj) \<Rightarrow> Ok obj
   | DJson _ \<Rightarrow> Raise (ValueError (msg ''Stored policy document is not an object'')))"

text \<open>\<open>type(value).__name__\<close> of a parsed value, and equality with an integer.\<close>

fun json_type :: "json \<Rightarrow> string" where
  "json_type JNull = ''NoneType''"
| "json_type (JBool _) = ''bool''"
| "json_type (JInt _) = ''int''"
| "json_type (JFloat _) = ''float''"
| "json_type (JStr _) = ''str''"
| "json_type (JList _) = ''list''"
| "json_type (JObj _) = ''dict''"

definition equals_int :: "json \<Rightarrow> int \<Rightarrow> bool" where
  "equals_int j n = (case j of JInt m \<Rightarrow> m = n | JFloat x \<Rightarrow> x = Num (of_int n) | JBool b \<Rightarrow> (if b then 1 else 0) = n | _ \<Rightarrow> False)"

subsection \<open>Clock texts\<close>

text \<open>\<open>int(text)\<close> on the ASCII range: blanks around, a sign, digits with single underscores between them.\<close>

definition digit_value :: "char \<Rightarrow> int option" where
  "digit_value c = (let n = of_char c :: int in if 48 \<le> n \<and> n \<le> 57 then Some (n - 48) else None)"

fun digits_value :: "int \<Rightarrow> bool \<Rightarrow> string \<Rightarrow> int option" where
  "digits_value acc after_digit [] = (if after_digit then Some acc else None)"
| "digits_value acc after_digit (c # cs) = (case digit_value c of
     Some d \<Rightarrow> digits_value (10 * acc + d) True cs
   | None \<Rightarrow> if c = CHR ''_'' \<and> after_digit then digits_value acc False cs else None)"

definition int_of_text :: "string \<Rightarrow> int option" where
  "int_of_text s = (case strip s of
     [] \<Rightarrow> None
   | c # cs \<Rightarrow> if c = CHR ''-'' then map_option uminus (digits_value 0 False cs)
               else if c = CHR ''+'' then digits_value 0 False cs
               else digits_value 0 False (c # cs))"

definition SECOND :: int where "SECOND = 1000000"
definition MINUTE :: int where "MINUTE = 60 * SECOND"
definition DAY :: int where "DAY = 86400 * SECOND"

text \<open>\<open>_clock\<close>: the time of day of an \<open>HH:MM\<close> text, in microseconds.\<close>

definition clock_of :: "string \<Rightarrow> int option" where
  "clock_of s = (let hs = takeWhile (\<lambda>c. c \<noteq> CHR '':'') s; rest = dropWhile (\<lambda>c. c \<noteq> CHR '':'') s
     in case rest of
       [] \<Rightarrow> None
     | _ # ms \<Rightarrow>
         if CHR '':'' \<in> set ms then None
         else case (int_of_text hs, int_of_text ms) of
           (Some h, Some m) \<Rightarrow> if 0 \<le> h \<and> h \<le> 23 \<and> 0 \<le> m \<and> m \<le> 59 then Some ((60 * h + m) * MINUTE) else None
         | _ \<Rightarrow> None)"

subsection \<open>Policies\<close>

definition MAX_TRADE_LIFETIME_SECONDS :: int where "MAX_TRADE_LIFETIME_SECONDS = 31 * 86400"
definition TRADE_LIFETIME_VERSION :: string where "TRADE_LIFETIME_VERSION = ''elapsed_utc_v1''"
definition TRADE_LIFETIME_VERSION_INDEPENDENT :: string where "TRADE_LIFETIME_VERSION_INDEPENDENT = ''elapsed_utc_v2''"
definition DAILY_ENTRY_LIFETIME_SECONDS :: int where "DAILY_ENTRY_LIFETIME_SECONDS = 57600"
definition SESSION_LIFETIME_VERSION :: string where "SESSION_LIFETIME_VERSION = ''session_count_v1''"
definition MAX_HOLDING_SESSIONS :: int where "MAX_HOLDING_SESSIONS = 60"
definition SESSION_CLOSE_BUFFER :: int where "SESSION_CLOSE_BUFFER = 15 * MINUTE"
definition SESSION_FILL_GRACE :: int where "SESSION_FILL_GRACE = 60 * SECOND"
definition NATIVE_ENTRY_LIFETIME_KEY :: string where "NATIVE_ENTRY_LIFETIME_KEY = ''entry_lifetime''"
definition NATIVE_ENTRY_LIFETIME_VERSION :: string where "NATIVE_ENTRY_LIFETIME_VERSION = ''session_close_v1''"
definition NATIVE_ENTRY_CLOSE_BUFFER_SECONDS :: int where "NATIVE_ENTRY_CLOSE_BUFFER_SECONDS = 300"

lemmas lifetime_consts = MAX_TRADE_LIFETIME_SECONDS_def TRADE_LIFETIME_VERSION_def TRADE_LIFETIME_VERSION_INDEPENDENT_def
  DAILY_ENTRY_LIFETIME_SECONDS_def SESSION_LIFETIME_VERSION_def MAX_HOLDING_SESSIONS_def NATIVE_ENTRY_LIFETIME_VERSION_def
  NATIVE_ENTRY_LIFETIME_KEY_def NATIVE_ENTRY_CLOSE_BUFFER_SECONDS_def

record trade_policy =
  tp_resting_seconds :: "int option"
  tp_holding_seconds :: "int option"
  tp_version :: string

record session_policy =
  sp_resting_seconds :: int
  sp_holding_sessions :: int
  sp_close_time_et :: string
  sp_version :: string

record native_policy =
  np_resting_seconds :: int
  np_close_buffer_seconds :: int
  np_version :: string

datatype lifetime_policy = TradeLifetime trade_policy | SessionLifetime session_policy | NativeLifetime native_policy

definition BOUNDED_SECONDS :: py_exc where
  "BOUNDED_SECONDS = ValueError (msg ''Trade lifetimes require bounded positive integer seconds'')"

text \<open>\<open>type(value) is int and lo <= value <= hi\<close>.\<close>

definition int_within :: "int \<Rightarrow> int \<Rightarrow> json \<Rightarrow> bool" where
  "int_within lo hi j = (case j of JInt n \<Rightarrow> lo \<le> n \<and> n \<le> hi | _ \<Rightarrow> False)"

definition the_int :: "json \<Rightarrow> int" where
  "the_int j = (case j of JInt n \<Rightarrow> n | _ \<Rightarrow> 0)"

definition opt_int :: "json \<Rightarrow> int option" where
  "opt_int j = (case j of JInt n \<Rightarrow> Some n | _ \<Rightarrow> None)"

text \<open>The constructors run \<open>__post_init__\<close> on values as the document holds them.\<close>

definition mk_trade_policy :: "json \<Rightarrow> json \<Rightarrow> json \<Rightarrow> trade_policy result" where
  "mk_trade_policy resting holding version =
     raise_if (version \<notin> {JStr TRADE_LIFETIME_VERSION, JStr TRADE_LIFETIME_VERSION_INDEPENDENT})
       (ValueError (msg ''Unsupported trade lifetime version''))
     (raise_if (version = JStr TRADE_LIFETIME_VERSION \<and> (resting = JNull \<or> holding = JNull))
       (ValueError (msg ''elapsed_utc_v1 requires both entry and holding lifetimes''))
     (raise_if (version = JStr TRADE_LIFETIME_VERSION_INDEPENDENT \<and> resting = JNull \<and> holding = JNull)
       (ValueError (msg ''At least one independent trade lifetime is required''))
     (raise_if (list_ex (\<lambda>v. v \<noteq> JNull \<and> \<not> int_within 1 MAX_TRADE_LIFETIME_SECONDS v) [resting, holding]) BOUNDED_SECONDS
     (Ok \<lparr>tp_resting_seconds = opt_int resting, tp_holding_seconds = opt_int holding,
          tp_version = (case version of JStr v \<Rightarrow> v | _ \<Rightarrow> [])\<rparr>))))"

definition mk_session_policy :: "json \<Rightarrow> json \<Rightarrow> json \<Rightarrow> json \<Rightarrow> session_policy result" where
  "mk_session_policy resting sessions close_time version =
     raise_if (version \<noteq> JStr SESSION_LIFETIME_VERSION) (ValueError (msg ''Unsupported session lifetime version''))
     (raise_if (\<not> int_within 1 MAX_TRADE_LIFETIME_SECONDS resting) BOUNDED_SECONDS
     (raise_if (\<not> int_within 1 MAX_HOLDING_SESSIONS sessions)
       (ValueError [Lit ''Holding sessions must be an integer in 1..'', FInt MAX_HOLDING_SESSIONS])
     (case close_time of
        JStr s \<Rightarrow> raise_if (clock_of s = None) (ValueError (msg ''close_time_et requires HH:MM''))
          (Ok \<lparr>sp_resting_seconds = the_int resting, sp_holding_sessions = the_int sessions, sp_close_time_et = s,
               sp_version = SESSION_LIFETIME_VERSION\<rparr>)
      | other \<Rightarrow> Raise (AttributeError [Lit (quoted (json_type other)), Lit '' object has no attribute '', Lit (quoted ''split'')]))))"

definition mk_native_policy :: "json \<Rightarrow> json \<Rightarrow> json \<Rightarrow> native_policy result" where
  "mk_native_policy resting buffer version =
     raise_if (version \<noteq> JStr NATIVE_ENTRY_LIFETIME_VERSION) (ValueError (msg ''Unsupported native entry lifetime version''))
     (raise_if (\<not> int_within 1 MAX_TRADE_LIFETIME_SECONDS resting) BOUNDED_SECONDS
     (raise_if (\<not> int_within 0 3600 buffer) (ValueError (msg ''The close buffer is an integer in 0..3600 seconds''))
     (Ok \<lparr>np_resting_seconds = the_int resting, np_close_buffer_seconds = the_int buffer,
          np_version = NATIVE_ENTRY_LIFETIME_VERSION\<rparr>)))"

definition daily_entry_lifetime :: trade_policy where
  "daily_entry_lifetime = \<lparr>tp_resting_seconds = Some DAILY_ENTRY_LIFETIME_SECONDS, tp_holding_seconds = None,
     tp_version = TRADE_LIFETIME_VERSION_INDEPENDENT\<rparr>"

definition default_native_policy :: native_policy where
  "default_native_policy = \<lparr>np_resting_seconds = DAILY_ENTRY_LIFETIME_SECONDS,
     np_close_buffer_seconds = NATIVE_ENTRY_CLOSE_BUFFER_SECONDS, np_version = NATIVE_ENTRY_LIFETIME_VERSION\<rparr>"

subsection \<open>Deadlines\<close>

text \<open>A day of the broker calendar: \<open>date\<close> is its day number, times are microseconds of the day.\<close>

record calendar_day =
  cd_date :: int
  cd_is_trading_day :: bool
  cd_open_time :: "int option"
  cd_close_time :: "int option"

definition wall_date :: "int \<Rightarrow> int" where "wall_date w = w div DAY"

definition combine :: "int \<Rightarrow> int \<Rightarrow> int" where "combine d t = d * DAY + t"

definition elapsed_deadline :: "int \<Rightarrow> int \<Rightarrow> int" where
  "elapsed_deadline start seconds = start + seconds * SECOND"

definition trade_entry_deadline :: "trade_policy \<Rightarrow> int \<Rightarrow> int option" where
  "trade_entry_deadline p submitted_at = map_option (elapsed_deadline submitted_at) (tp_resting_seconds p)"

definition trade_holding_deadline :: "trade_policy \<Rightarrow> int \<Rightarrow> int option" where
  "trade_holding_deadline p filled_at = map_option (elapsed_deadline filled_at) (tp_holding_seconds p)"

definition session_entry_deadline :: "session_policy \<Rightarrow> int \<Rightarrow> int" where
  "session_entry_deadline p submitted_at = elapsed_deadline submitted_at (sp_resting_seconds p)"

text \<open>A regular session: a trading day whose open and close are known, as (date, open, close).\<close>

definition regular_session :: "calendar_day \<Rightarrow> (int \<times> int \<times> int) option" where
  "regular_session d = (case (cd_is_trading_day d, cd_open_time d, cd_close_time d) of
     (True, Some opens, Some closes) \<Rightarrow> Some (cd_date d, opens, closes) | _ \<Rightarrow> None)"

definition regular_sessions :: "calendar_day list \<Rightarrow> (int \<times> int \<times> int) list" where
  "regular_sessions days = sort_key fst (List.map_filter regular_session days)"

text \<open>The inner error is a \<open>SessionEvidenceError\<close>, which callers review.\<close>

definition session_holding_deadline ::
  "(int \<Rightarrow> int) \<Rightarrow> (int \<Rightarrow> int) \<Rightarrow> session_policy \<Rightarrow> int \<Rightarrow> calendar_day list \<Rightarrow> (string + int) result" where
  "session_holding_deadline ny utc p filled_at days =
     (let fill = ny filled_at; regular = regular_sessions days
      in case find (\<lambda>(d, _, _). d = wall_date fill) regular of
        None \<Rightarrow> Ok (Inl ''fill_outside_regular_session'')
      | Some (first, opens, closes) \<Rightarrow>
          if \<not> (combine first opens \<le> fill \<and> fill \<le> combine first closes + SESSION_FILL_GRACE)
          then Ok (Inl ''fill_outside_regular_session'')
          else let held = filter (\<lambda>(d, _, _). d \<ge> first) regular
               in if int (length held) < sp_holding_sessions p then Ok (Inl ''session_calendar_short'')
                  else case held ! nat (sp_holding_sessions p - 1) of
                    (final, _, close) \<Rightarrow>
                      (case clock_of (sp_close_time_et p) of
                         None \<Rightarrow> Raise (ValueError (msg ''close_time_et requires HH:MM''))
                       | Some t \<Rightarrow> Ok (Inr (utc (min (combine final t) (combine final close - SESSION_CLOSE_BUFFER))))))"

definition native_entry_deadline ::
  "(int \<Rightarrow> int) \<Rightarrow> (int \<Rightarrow> int) \<Rightarrow> native_policy \<Rightarrow> int \<Rightarrow> calendar_day list option \<Rightarrow> string + int" where
  "native_entry_deadline ny utc p submitted_at days =
     (let outer = elapsed_deadline submitted_at (np_resting_seconds p)
      in case days of
        None \<Rightarrow> Inr outer
      | Some ds \<Rightarrow>
          let submitted = ny submitted_at
          in case find (\<lambda>d. cd_date d = wall_date submitted \<and> cd_is_trading_day d) ds of
            None \<Rightarrow> Inl ''submission_outside_regular_session''
          | Some d \<Rightarrow>
              (case cd_close_time d of
                 None \<Rightarrow> Inl ''submission_outside_regular_session''
               | Some t \<Rightarrow>
                   let close = combine (cd_date d) t + np_close_buffer_seconds p * SECOND
                   in if submitted > close then Inl ''submission_outside_regular_session''
                      else Inr (min outer (utc close))))"

definition has_holding_deadline :: "lifetime_policy \<Rightarrow> bool" where
  "has_holding_deadline p = (case p of
     SessionLifetime _ \<Rightarrow> True | TradeLifetime t \<Rightarrow> tp_holding_seconds t \<noteq> None | NativeLifetime _ \<Rightarrow> False)"

subsection \<open>Reading a stored policy\<close>

text \<open>
  \<open>Class(**document)\<close> for a dataclass with the given fields and defaults (\<open>None\<close>: required): an
  unexpected key or a missing argument is a \<open>TypeError\<close>.
\<close>

definition missing_text :: "string list \<Rightarrow> ftext" where
  "missing_text ks = (case ks of
     [k] \<Rightarrow> [Lit '' missing 1 required positional argument: '', Lit (quoted k)]
   | _ \<Rightarrow> [Lit '' missing '', FInt (int (length ks)), Lit '' required positional arguments: '',
          Lit (join '' and '' (map quoted ks))])"

definition keyword_call ::
  "string \<Rightarrow> (string \<times> json option) list \<Rightarrow> (string \<times> json) list \<Rightarrow> (string \<Rightarrow> json) result" where
  "keyword_call cls params obj =
     (case find (\<lambda>(k, _). k \<notin> fst ` set params) obj of
        Some (k, _) \<Rightarrow> Raise (TypeError [Lit cls, Lit ''.__init__() got an unexpected keyword argument '', Lit (quoted k)])
      | None \<Rightarrow>
          let missing = filter (\<lambda>k. map_of obj k = None) (map fst (filter (\<lambda>(_, d). d = None) params))
          in if missing \<noteq> [] then Raise (TypeError (Lit cls # Lit ''.__init__()'' # missing_text missing))
             else Ok (\<lambda>k. case map_of obj k of Some v \<Rightarrow> v
                          | None \<Rightarrow> (case map_of params k of Some (Some d) \<Rightarrow> d | _ \<Rightarrow> JNull)))"

definition trade_from_dict :: "(string \<times> json) list \<Rightarrow> trade_policy result" where
  "trade_from_dict obj = bindr (keyword_call ''TradeLifetimePolicy''
       [(''resting_seconds'', None), (''holding_seconds'', None), (''version'', Some (JStr TRADE_LIFETIME_VERSION))] obj)
     (\<lambda>arg. mk_trade_policy (arg ''resting_seconds'') (arg ''holding_seconds'') (arg ''version''))"

definition session_from_dict :: "(string \<times> json) list \<Rightarrow> session_policy result" where
  "session_from_dict obj = bindr (keyword_call ''SessionLifetimePolicy''
       [(''resting_seconds'', None), (''holding_sessions'', None), (''close_time_et'', Some (JStr ''15:45'')),
        (''version'', Some (JStr SESSION_LIFETIME_VERSION))] obj)
     (\<lambda>arg. mk_session_policy (arg ''resting_seconds'') (arg ''holding_sessions'') (arg ''close_time_et'') (arg ''version''))"

definition native_from_dict :: "(string \<times> json) list \<Rightarrow> native_policy result" where
  "native_from_dict obj = bindr (keyword_call ''NativeEntryLifetimePolicy''
       [(''resting_seconds'', Some (JInt DAILY_ENTRY_LIFETIME_SECONDS)),
        (''close_buffer_seconds'', Some (JInt NATIVE_ENTRY_CLOSE_BUFFER_SECONDS)),
        (''version'', Some (JStr NATIVE_ENTRY_LIFETIME_VERSION))] obj)
     (\<lambda>arg. mk_native_policy (arg ''resting_seconds'') (arg ''close_buffer_seconds'') (arg ''version''))"

definition lifetime_from_dict :: "(string \<times> json) list \<Rightarrow> lifetime_policy result" where
  "lifetime_from_dict obj =
     (if map_of obj ''version'' = Some (JStr SESSION_LIFETIME_VERSION)
      then bindr (session_from_dict obj) (\<lambda>p. Ok (SessionLifetime p))
      else bindr (trade_from_dict obj) (\<lambda>p. Ok (TradeLifetime p)))"

definition is_daily_document :: "(string \<times> json) list \<Rightarrow> bool" where
  "is_daily_document obj =
     (fst ` set obj = {''resting_seconds'', ''holding_seconds'', ''version''}
      \<and> (case map_of obj ''resting_seconds'' of Some j \<Rightarrow> equals_int j DAILY_ENTRY_LIFETIME_SECONDS | None \<Rightarrow> False)
      \<and> map_of obj ''holding_seconds'' = Some JNull
      \<and> map_of obj ''version'' = Some (JStr TRADE_LIFETIME_VERSION_INDEPENDENT))"

definition native_lifetime_from_dict :: "(string \<times> json) list \<Rightarrow> native_policy result" where
  "native_lifetime_from_dict obj =
     (if map_of obj ''version'' = Some (JStr NATIVE_ENTRY_LIFETIME_VERSION) then native_from_dict obj
      else if is_daily_document obj then Ok default_native_policy
      else Raise (ValueError (msg ''Unsupported native entry lifetime marker'')))"

text \<open>\<open>asdict\<close> of a policy.\<close>

definition json_of_opt :: "int option \<Rightarrow> json" where
  "json_of_opt v = (case v of None \<Rightarrow> JNull | Some n \<Rightarrow> JInt n)"

fun policy_document :: "lifetime_policy \<Rightarrow> (string \<times> json) list" where
  "policy_document (TradeLifetime p) = [(''resting_seconds'', json_of_opt (tp_resting_seconds p)),
     (''holding_seconds'', json_of_opt (tp_holding_seconds p)), (''version'', JStr (tp_version p))]"
| "policy_document (SessionLifetime p) = [(''resting_seconds'', JInt (sp_resting_seconds p)),
     (''holding_sessions'', JInt (sp_holding_sessions p)), (''close_time_et'', JStr (sp_close_time_et p)),
     (''version'', JStr (sp_version p))]"
| "policy_document (NativeLifetime p) = [(''resting_seconds'', JInt (np_resting_seconds p)),
     (''close_buffer_seconds'', JInt (np_close_buffer_seconds p)), (''version'', JStr (np_version p))]"

definition native_entry_lifetime_marker :: "app_config \<Rightarrow> string \<Rightarrow> (string \<times> json) list option" where
  "native_entry_lifetime_marker config asset_class =
     (if native_entry_lifetime (c_execution config) \<noteq> ''session'' \<or> execution_mode config \<noteq> ALPACA
         \<or> \<not> executes_asset_class (execution_mode config) asset_class
      then None else Some (policy_document (NativeLifetime default_native_policy)))"

text \<open>The two documents a signal stores: its alpha policy and its decision provenance.\<close>

record stored_policies =
  sd_alpha_policy :: stored_doc
  sd_decision_provenance :: stored_doc

definition parse_lifetime :: "bool \<Rightarrow> (string \<times> json) list \<Rightarrow> lifetime_policy result" where
  "parse_lifetime native obj = (if native then bindr (native_lifetime_from_dict obj) (\<lambda>p. Ok (NativeLifetime p))
     else lifetime_from_dict obj)"

definition entry_lifetime_of :: "stored_policies \<Rightarrow> lifetime_policy option result" where
  "entry_lifetime_of sig =
     bindr (document (sd_alpha_policy sig)) (\<lambda>alpha.
     let native = (map_of alpha ''lifetime'' = None)
     in bindr (case map_of alpha ''lifetime'' of
           Some JNull \<Rightarrow> Raise (ValueError (msg ''Alpha lifetime is declared but null''))
         | Some j \<Rightarrow> Ok j
         | None \<Rightarrow> bindr (document (sd_decision_provenance sig)) (\<lambda>prov.
             Ok (case map_of prov NATIVE_ENTRY_LIFETIME_KEY of None \<Rightarrow> JNull | Some j \<Rightarrow> j))) (\<lambda>declared.
     case declared of
       JNull \<Rightarrow> Ok None
     | JObj obj \<Rightarrow>
         (case parse_lifetime native obj of
            Inr p \<Rightarrow> Ok (Some p)
          | Inl (TypeError t) \<Rightarrow> Raise (ValueError (Lit ''Malformed entry lifetime: '' # t))
          | Inl e \<Rightarrow> Raise e)
     | _ \<Rightarrow> Raise (ValueError (msg ''Entry lifetime is not an object''))))"

subsection \<open>Properties\<close>

definition seconds_ok :: "int \<Rightarrow> bool" where
  "seconds_ok n = (1 \<le> n \<and> n \<le> MAX_TRADE_LIFETIME_SECONDS)"

text \<open>What every accepted policy satisfies.\<close>

fun lifetime_ok :: "lifetime_policy \<Rightarrow> bool" where
  "lifetime_ok (TradeLifetime p) =
     (pred_option seconds_ok (tp_resting_seconds p) \<and> pred_option seconds_ok (tp_holding_seconds p)
      \<and> (tp_version p = TRADE_LIFETIME_VERSION \<and> tp_resting_seconds p \<noteq> None \<and> tp_holding_seconds p \<noteq> None
         \<or> tp_version p = TRADE_LIFETIME_VERSION_INDEPENDENT \<and> (tp_resting_seconds p \<noteq> None \<or> tp_holding_seconds p \<noteq> None)))"
| "lifetime_ok (SessionLifetime p) =
     (seconds_ok (sp_resting_seconds p) \<and> 1 \<le> sp_holding_sessions p \<and> sp_holding_sessions p \<le> MAX_HOLDING_SESSIONS
      \<and> clock_of (sp_close_time_et p) \<noteq> None \<and> sp_version p = SESSION_LIFETIME_VERSION)"
| "lifetime_ok (NativeLifetime p) =
     (seconds_ok (np_resting_seconds p) \<and> 0 \<le> np_close_buffer_seconds p \<and> np_close_buffer_seconds p \<le> 3600
      \<and> np_version p = NATIVE_ENTRY_LIFETIME_VERSION)"

lemma int_within_iff: "int_within lo hi j \<longleftrightarrow> (\<exists>n. j = JInt n \<and> lo \<le> n \<and> n \<le> hi)"
  by (cases j) (auto simp: int_within_def)

lemma opt_int_ok: "j = JNull \<or> int_within 1 MAX_TRADE_LIFETIME_SECONDS j \<Longrightarrow>
    pred_option seconds_ok (opt_int j) \<and> (opt_int j = None \<longleftrightarrow> j = JNull)"
  by (cases j) (auto simp: int_within_def opt_int_def seconds_ok_def)

lemma mk_trade_policy_ok: "mk_trade_policy r h v = Ok p \<Longrightarrow> lifetime_ok (TradeLifetime p)"
  using opt_int_ok [of r] opt_int_ok [of h]
  by (auto simp: mk_trade_policy_def raise_if_Inr_iff)

lemma mk_session_policy_ok: "mk_session_policy r n c v = Ok p \<Longrightarrow> lifetime_ok (SessionLifetime p)"
  by (cases c) (auto simp: mk_session_policy_def raise_if_Inr_iff int_within_iff the_int_def seconds_ok_def)

lemma mk_native_policy_ok: "mk_native_policy r b v = Ok p \<Longrightarrow> lifetime_ok (NativeLifetime p)"
  by (auto simp: mk_native_policy_def raise_if_Inr_iff int_within_iff the_int_def seconds_ok_def)

lemma parse_lifetime_ok: "parse_lifetime native obj = Ok p \<Longrightarrow> lifetime_ok p"
proof -
  have d: "lifetime_ok (NativeLifetime default_native_policy)"
    by (simp add: default_native_policy_def lifetime_consts seconds_ok_def)
  assume "parse_lifetime native obj = Ok p"
  then show ?thesis
    by (auto simp: parse_lifetime_def lifetime_from_dict_def native_lifetime_from_dict_def session_from_dict_def
        trade_from_dict_def native_from_dict_def bindr_Inr_iff simp del: lifetime_ok.simps
        intro: mk_trade_policy_ok mk_session_policy_ok mk_native_policy_ok d split: if_splits)
qed

lemma entry_lifetime_cases:
  assumes "entry_lifetime_of sig = Ok (Some p)"
  obtains alpha declared obj where "document (sd_alpha_policy sig) = Ok alpha" "declared = JObj obj"
    "parse_lifetime (map_of alpha ''lifetime'' = None) obj = Ok p"
proof -
  obtain alpha where alpha: "document (sd_alpha_policy sig) = Ok alpha"
    using assms by (auto simp: entry_lifetime_of_def bindr_Inr_iff)
  let ?d = "case map_of alpha ''lifetime'' of
           Some JNull \<Rightarrow> Raise (ValueError (msg ''Alpha lifetime is declared but null''))
         | Some j \<Rightarrow> Ok j
         | None \<Rightarrow> bindr (document (sd_decision_provenance sig)) (\<lambda>prov.
             Ok (case map_of prov NATIVE_ENTRY_LIFETIME_KEY of None \<Rightarrow> JNull | Some j \<Rightarrow> j))"
  obtain declared where "?d = Ok declared" using assms alpha
    by (cases ?d) (simp_all add: entry_lifetime_of_def)
  then have rest: "(case declared of
       JNull \<Rightarrow> Ok None
     | JObj obj \<Rightarrow>
         (case parse_lifetime (map_of alpha ''lifetime'' = None) obj of
            Inr p \<Rightarrow> Ok (Some p)
          | Inl (TypeError t) \<Rightarrow> Raise (ValueError (Lit ''Malformed entry lifetime: '' # t))
          | Inl e \<Rightarrow> Raise e)
     | _ \<Rightarrow> Raise (ValueError (msg ''Entry lifetime is not an object''))) = Ok (Some p)"
    using assms alpha by (simp add: entry_lifetime_of_def)
  then obtain obj where "declared = JObj obj" by (cases declared) auto
  moreover have "parse_lifetime (map_of alpha ''lifetime'' = None) obj = Ok p"
    using rest calculation by (auto split: sum.split_asm py_exc.split_asm)
  ultimately show ?thesis using alpha that by blast
qed

text \<open>
  C38. Every lifetime policy the resolver returns is well formed, whatever the stored documents hold:
  its versions are the supported ones, its seconds are integers between one and 31 days, a session
  policy holds between one and sixty sessions and has a readable close time, and a native marker's
  buffer is at most an hour. A malformed document never becomes a policy.
\<close>

theorem resolved_lifetime_ok:
  assumes "entry_lifetime_of sig = Ok (Some p)"
  shows "lifetime_ok p"
  using assms by (rule entry_lifetime_cases) (rule parse_lifetime_ok)

definition is_native :: "lifetime_policy \<Rightarrow> bool" where
  "is_native p = (case p of NativeLifetime _ \<Rightarrow> True | _ \<Rightarrow> False)"

lemma json_of_opt_simps [simp]: "json_of_opt None = JNull" "json_of_opt (Some n) = JInt n"
  by (simp_all add: json_of_opt_def)

lemma trade_document_read:
  assumes "lifetime_ok (TradeLifetime p)" shows "trade_from_dict (policy_document (TradeLifetime p)) = Ok p"
  using assms
  by (cases "tp_resting_seconds p"; cases "tp_holding_seconds p")
    (auto simp: trade_from_dict_def keyword_call_def mk_trade_policy_def int_within_def opt_int_def seconds_ok_def lifetime_consts)

lemma session_document_read:
  assumes "lifetime_ok (SessionLifetime p)" shows "session_from_dict (policy_document (SessionLifetime p)) = Ok p"
  using assms
  by (auto simp: session_from_dict_def keyword_call_def mk_session_policy_def int_within_def the_int_def seconds_ok_def)

lemma native_document_read:
  assumes "lifetime_ok (NativeLifetime p)" shows "native_from_dict (policy_document (NativeLifetime p)) = Ok p"
  using assms
  by (auto simp: native_from_dict_def keyword_call_def mk_native_policy_def int_within_def the_int_def seconds_ok_def)

lemma parse_policy_document:
  assumes "lifetime_ok p" shows "parse_lifetime (is_native p) (policy_document p) = Ok p"
proof (cases p)
  case (TradeLifetime t)
  then have "map_of (policy_document p) ''version'' \<noteq> Some (JStr SESSION_LIFETIME_VERSION)"
    using assms by (auto simp: lifetime_consts)
  then show ?thesis using TradeLifetime trade_document_read assms
    by (simp add: parse_lifetime_def lifetime_from_dict_def is_native_def del: policy_document.simps lifetime_ok.simps)
next
  case (SessionLifetime s)
  then have "map_of (policy_document p) ''version'' = Some (JStr SESSION_LIFETIME_VERSION)" using assms by simp
  then show ?thesis using SessionLifetime session_document_read assms
    by (simp add: parse_lifetime_def lifetime_from_dict_def is_native_def del: policy_document.simps lifetime_ok.simps)
next
  case (NativeLifetime n)
  then have "map_of (policy_document p) ''version'' = Some (JStr NATIVE_ENTRY_LIFETIME_VERSION)" using assms by simp
  then show ?thesis using NativeLifetime native_document_read assms
    by (simp add: parse_lifetime_def native_lifetime_from_dict_def is_native_def del: policy_document.simps lifetime_ok.simps)
qed

text \<open>The documents under which the code stores a policy.\<close>

definition stored_policy :: "lifetime_policy \<Rightarrow> stored_policies" where
  "stored_policy p =
     (if is_native p then \<lparr>sd_alpha_policy = DNull,
          sd_decision_provenance = DJson (JObj [(NATIVE_ENTRY_LIFETIME_KEY, JObj (policy_document p))])\<rparr>
      else \<lparr>sd_alpha_policy = DJson (JObj [(''lifetime'', JObj (policy_document p))]), sd_decision_provenance = DNull\<rparr>)"

text \<open>
  C39. Storing a policy and reading it back is the identity: a well-formed policy written as its
  document, under the alpha policy's \<open>lifetime\<close> key or, for a native entry, under the provenance marker,
  is resolved to exactly that policy.
\<close>

theorem lifetime_round_trip:
  assumes "lifetime_ok p"
  shows "entry_lifetime_of (stored_policy p) = Ok (Some p)"
  using parse_policy_document [OF assms]
  by (cases "is_native p") (simp_all add: entry_lifetime_of_def stored_policy_def document_def del: policy_document.simps)

lemma strictly_sorted_upto:
  assumes "sorted_wrt (<) (xs :: int list)" "k < length xs"
  shows "{x \<in> set xs. x \<le> xs ! k} = set (take (Suc k) xs)"
proof -
  have lt: "i < j \<Longrightarrow> j < length xs \<Longrightarrow> xs ! i < xs ! j" for i j
    using assms(1) by (rule sorted_wrt_nth_less)
  then have le: "xs ! i \<le> xs ! k \<longleftrightarrow> i \<le> k" if "i < length xs" for i
    using that assms(2) by (metis less_le_not_le linorder_le_less_linear nle_le)
  show ?thesis
  proof (intro set_eqI iffI)
    fix x assume "x \<in> {x \<in> set xs. x \<le> xs ! k}"
    then obtain i where "i < length xs" "x = xs ! i" "i \<le> k" using le by (auto simp: in_set_conv_nth)
    then show "x \<in> set (take (Suc k) xs)" by (auto simp: in_set_conv_nth intro!: exI [of _ i])
  next
    fix x assume "x \<in> set (take (Suc k) xs)"
    then obtain i where "i < Suc k" "i < length xs" "x = xs ! i" by (auto simp: in_set_conv_nth)
    then show "x \<in> {x \<in> set xs. x \<le> xs ! k}" using le by auto
  qed
qed

lemma regular_session_date: "regular_session d = Some s \<Longrightarrow> fst s = cd_date d"
  by (auto simp: regular_session_def split: option.split_asm bool.split_asm)

lemma regular_dates:
  "map fst (List.map_filter regular_session days) = map cd_date (filter (\<lambda>d. regular_session d \<noteq> None) days)"
proof (induction days)
  case (Cons d days)
  then show ?case by (cases "regular_session d") (auto simp: List.map_filter_simps regular_session_date)
qed (simp add: List.map_filter_simps)

lemma regular_sessions_dates:
  assumes "distinct (map cd_date days)"
  shows "sorted_wrt (<) (map fst (regular_sessions days))"
proof -
  have "distinct (map fst (List.map_filter regular_session days))"
    using assms unfolding regular_dates by (simp add: distinct_map_filter)
  then have "distinct (map fst (regular_sessions days))"
    unfolding regular_sessions_def by (simp add: distinct_map)
  moreover have "sorted (map fst (regular_sessions days))" by (simp add: regular_sessions_def)
  ultimately show ?thesis by (simp add: strict_sorted_iff)
qed

text \<open>The dates a holding counts: the regular sessions from the fill's own date on.\<close>

definition counted_dates :: "int \<Rightarrow> calendar_day list \<Rightarrow> int set" where
  "counted_dates first days = {d. first \<le> d \<and> (\<exists>c \<in> set days. regular_session c \<noteq> None \<and> cd_date c = d)}"

lemma regular_sessions_set: "set (map fst (regular_sessions days)) = {d. \<exists>c \<in> set days. regular_session c \<noteq> None \<and> cd_date c = d}"
proof -
  have "set (map fst (regular_sessions days)) = set (map fst (List.map_filter regular_session days))"
    by (simp add: regular_sessions_def)
  then show ?thesis unfolding regular_dates by auto
qed

text \<open>
  A session-counted position is closed on exactly its N-th session: when a holding deadline is
  established, the fill's own date is a regular session containing the fill (with the closing grace),
  the deadline falls on a regular session such that the calendar counts exactly N regular sessions from
  the fill's session through that one, and its wall clock is the earlier of the configured close time
  and fifteen minutes before that session's close.
\<close>

theorem session_deadline_counts:
  assumes "session_holding_deadline ny utc p filled_at days = Ok (Inr deadline)"
    and "distinct (map cd_date days)" and "1 \<le> sp_holding_sessions p"
  shows "\<exists>final opens close t. (final, opens, close) \<in> set (regular_sessions days)
    \<and> wall_date (ny filled_at) \<in> counted_dates (wall_date (ny filled_at)) days
    \<and> int (card {d \<in> counted_dates (wall_date (ny filled_at)) days. d \<le> final}) = sp_holding_sessions p
    \<and> clock_of (sp_close_time_et p) = Some t
    \<and> deadline = utc (min (combine final t) (combine final close - SESSION_CLOSE_BUFFER))"
proof -
  let ?r = "regular_sessions days" and ?first = "wall_date (ny filled_at)" and ?k = "nat (sp_holding_sessions p - 1)"
  let ?held = "filter (\<lambda>(d, _, _). d \<ge> ?first) ?r"
  obtain opens closes where fst: "find (\<lambda>(d, _, _). d = ?first) ?r = Some (?first, opens, closes)"
    using assms(1) by (auto simp: session_holding_deadline_def Let_def dest!: find_Some_props split: option.split_asm)
  obtain final o' close where last: "?held ! ?k = (final, o', close)" by (cases "?held ! ?k") auto
  have *: "int (length ?held) \<ge> sp_holding_sessions p" "\<exists>t. clock_of (sp_close_time_et p) = Some t
     \<and> deadline = utc (min (combine final t) (combine final close - SESSION_CLOSE_BUFFER))"
    using assms(1) fst last by (auto simp: session_holding_deadline_def Let_def split: if_split_asm option.split_asm)
  have k: "?k < length ?held" using *(1) assms(3) by linarith
  have held: "map fst ?held = filter (\<lambda>d. d \<ge> ?first) (map fst ?r)"
    by (auto simp: filter_map comp_def intro!: arg_cong [of _ _ "map fst"] filter_cong)
  then have sorted: "sorted_wrt (<) (map fst ?held)"
    using regular_sessions_dates [OF assms(2)] by (simp add: sorted_wrt_filter)
  have dates: "set (map fst ?held) = counted_dates ?first days"
    unfolding held counted_dates_def using regular_sessions_set [of days] by auto
  have "{d \<in> counted_dates ?first days. d \<le> final} = set (take (Suc ?k) (map fst ?held))"
    using strictly_sorted_upto [OF sorted, of ?k] k last dates by (simp add: nth_map)
  moreover have "distinct (map fst ?held)" using sorted strict_sorted_iff by blast
  ultimately have "card {d \<in> counted_dates ?first days. d \<le> final} = Suc ?k"
    using k distinct_card [OF distinct_take, of "map fst ?held" "Suc ?k"] by simp
  then have "int (card {d \<in> counted_dates ?first days. d \<le> final}) = sp_holding_sessions p" using assms(3) by linarith
  moreover have "(final, o', close) \<in> set ?r" using k last nth_mem [OF k] by auto
  moreover have "?first \<in> counted_dates ?first days"
    using find_Some_props [OF fst] unfolding dates [symmetric] held by force
  ultimately show ?thesis using *(2) by blast
qed

text \<open>A two-session holding over a week with a holiday on Wednesday, in a zone five hours behind.\<close>

definition demo_week :: "calendar_day list" where
  "demo_week = map (\<lambda>(d, trading). \<lparr>cd_date = d, cd_is_trading_day = trading,
     cd_open_time = Some (570 * MINUTE), cd_close_time = Some (960 * MINUTE)\<rparr>) [(1, True), (2, True), (3, False), (4, True)]"

definition demo_session_policy :: session_policy where
  "demo_session_policy = \<lparr>sp_resting_seconds = 57600, sp_holding_sessions = 2, sp_close_time_et = ''15:45'',
     sp_version = SESSION_LIFETIME_VERSION\<rparr>"

lemma demo_clock: "clock_of ''15:45'' = Some (945 * MINUTE)"
  by (simp add: clock_of_def int_of_text_def digit_value_def strip_def is_space_def Let_def)

lemma demo_session_ok: "lifetime_ok (SessionLifetime demo_session_policy)"
  by (simp add: demo_session_policy_def demo_clock seconds_ok_def lifetime_consts)

theorem lifetime_round_trip_witness:
  "entry_lifetime_of (stored_policy (SessionLifetime demo_session_policy)) = Ok (Some (SessionLifetime demo_session_policy))"
  by (rule lifetime_round_trip [OF demo_session_ok])

theorem resolved_lifetime_ok_witness: "lifetime_ok (NativeLifetime default_native_policy)"
proof -
  have "entry_lifetime_of \<lparr>sd_alpha_policy = DEmpty, sd_decision_provenance = DJson (JObj [(''entry_lifetime'',
      JObj [(''version'', JStr ''session_close_v1'')])])\<rparr> = Ok (Some (NativeLifetime default_native_policy))"
    by (simp add: entry_lifetime_of_def document_def lifetime_consts parse_lifetime_def native_lifetime_from_dict_def
        native_from_dict_def keyword_call_def mk_native_policy_def int_within_def the_int_def default_native_policy_def)
  then show ?thesis by (rule resolved_lifetime_ok)
qed

theorem session_deadline_counts_witness:
  "\<exists>final. int (card {d \<in> counted_dates 2 demo_week. d \<le> final}) = 2"
proof -
  let ?ny = "\<lambda>t. t - 300 * MINUTE" and ?utc = "\<lambda>t. t + 300 * MINUTE" and ?fill = "combine 2 (900 * MINUTE)"
  have "session_holding_deadline ?ny ?utc demo_session_policy ?fill demo_week
      = Ok (Inr (combine 4 (1245 * MINUTE)))"
    by (simp add: session_holding_deadline_def regular_sessions_def regular_session_def List.map_filter_simps demo_week_def
        demo_session_policy_def demo_clock wall_date_def combine_def DAY_def MINUTE_def SECOND_def SESSION_FILL_GRACE_def
        SESSION_CLOSE_BUFFER_def)
  moreover have "distinct (map cd_date demo_week)" by (simp add: demo_week_def)
  moreover have "1 \<le> sp_holding_sessions demo_session_policy" by (simp add: demo_session_policy_def)
  ultimately show ?thesis
    using session_deadline_counts [of ?ny ?utc demo_session_policy ?fill demo_week]
    by (auto simp: wall_date_def combine_def DAY_def MINUTE_def SECOND_def demo_session_policy_def)
qed

end
