(* ===== verification/Workflow_Store.thy ===== *)
theory Workflow_Store
  imports Ledger_Store Probe Lifetime_Policy
begin

text \<open>
  The durable workflow state (\<open>storage/models.py\<close>, \<open>execution/durable.py\<close>), the journal append and
  the notification outbox (\<open>WorkflowStore\<close> of \<open>storage/workflow.py\<close>). One scope is modelled: the
  store filters every query by it. Every operation is one transaction under the scope lock.
  Random identifiers (\<open>uuid4\<close>) are arguments.
\<close>

subsection \<open>State\<close>

datatype work_kind = Entry | EntryCancel | Notification

datatype work_status = Queued | Checking | Submitting | Unknown | Accepted | Rejected | Delivered | Dead

fun status_text :: "work_status \<Rightarrow> string" where
  "status_text Queued = ''queued''"
| "status_text Checking = ''checking''"
| "status_text Submitting = ''submitting''"
| "status_text Unknown = ''unknown''"
| "status_text Accepted = ''accepted''"
| "status_text Rejected = ''rejected''"
| "status_text Delivered = ''delivered''"
| "status_text Dead = ''dead''"

definition ENTRY_BLOCKING :: "work_status list" where
  "ENTRY_BLOCKING = [Queued, Checking, Submitting, Unknown]"

text \<open>The identity of a submitted entry order (\<open>EntryIdentity\<close>) and the claim of its one cancellation.\<close>

record entry_identity =
  ei_order_id :: string
  ei_client_order_id :: string
  ei_symbol :: string
  ei_side :: string
  ei_quantity :: wire

record cancel_claim =
  cc_signal_id :: int
  cc_cause :: string
  cc_identity :: entry_identity
  cc_lifetime :: "lifetime_policy option"
  cc_order_ids :: "string list"
  cc_before :: "order_observation list"

record cancel_result =
  cx_reason :: string
  cx_orders :: "order_observation list"
  cx_transport_error :: "string option"

record close_request =
  cr_id :: string
  cr_symbol :: string
  cr_direction :: string
  cr_quantity :: pyfloat
  cr_signal_id :: "int option"
  cr_status :: string
  cr_broker_order_id :: "string option"
  cr_detail :: ftext

text \<open>The payload of a work item: an approved request and who asked, a cancellation, or a notification.\<close>

datatype item_payload =
    EntryPayload order_request string
  | CancelPayload cancel_claim
  | NotePayload string "(string \<times> ftext) list"

datatype item_result = NoResult | EntryResult order_result | CancelResult cancel_result | NoteDetail ftext

record work_item =
  w_id :: string
  w_sequence :: nat
  w_dedup :: ftext
  w_kind :: work_kind
  w_status :: work_status
  w_payload :: item_payload
  w_result :: item_result
  w_attempts :: nat
  w_token :: "string option"
  w_lease_until :: "int option"
  w_available_at :: int
  w_created_at :: int

text \<open>The journaled pass of the release exit: what it decided for each position, and when.\<close>

datatype earnings_timing = PreMarket | AfterHours | UnspecifiedTime

record release_entry =
  re_signal_id :: int
  re_symbol :: string
  re_direction :: string
  re_scope :: string
  re_status :: string
  re_decision :: string
  re_report_date :: "int option"
  re_timing :: "earnings_timing option"
  re_sources :: "string list"
  re_live_verified :: bool
  re_request_id :: "string option"

record release_pass =
  rp_mode :: string
  rp_trading_day :: int
  rp_next_trading_day :: int
  rp_close_at :: int
  rp_capture_date :: "int option"
  rp_positions :: "release_entry list"

datatype event_payload =
    PItem string nat                 \<comment> \<open>token or status, and attempt\<close>
  | PQueued order_request string "account_risk option"
  | PSubmitting order_request "account_risk option" "string option" pyfloat "entry_context option" "capacity_assessment option"
  | PResolved work_status bool
  | POrder order_observation
  | PCancelRequested cancel_claim
  | PCancelResolved work_status cancel_result
  | PClose close_request
  | PNote string ftext
  | PRelease release_pass
  | PData "(string \<times> ftext) list"

text \<open>An event; \<open>ev_key\<close> is \<open>None\<close> for a random key, which no lookup ever asks for.\<close>

record event =
  ev_id :: nat
  ev_stream :: ftext
  ev_kind :: string
  ev_key :: "ftext option"
  ev_payload :: event_payload

record signal =
  sg_id :: int
  sg_timestamp :: int
  sg_alpha :: alpha_signal
  sg_status :: string
  sg_asset_class :: "string option"
  sg_quantity :: "pyfloat option"
  sg_entry_price :: pyfloat
  sg_stop_loss :: pyfloat
  sg_take_profit :: pyfloat
  sg_risk_dollars :: pyfloat
  sg_notional_value :: "pyfloat option"
  sg_broker_order_id :: "string option"
  sg_executed_at :: "int option"
  sg_policies :: stored_policies
  sg_exit_order_id :: "string option"
  sg_exit_price :: "pyfloat option"
  sg_exit_timestamp :: "int option"
  sg_realized_pnl :: "pyfloat option"
  sg_exit_reason :: "string option"

text \<open>
  The state of one scope. Quarantined signals are kept apart, as every query excludes them. An audit
  row has its kind, its signal and its evidence (empty where nothing reads it back).
\<close>

record wf_state =
  wf_signals :: "signal list"
  wf_quarantined :: "signal list"
  wf_items :: "work_item list"
  wf_events :: "event list"
  wf_next :: nat
  wf_halted :: "string option"
  wf_halt_reason :: "ftext option"
  wf_closes :: "close_request list"
  wf_audit :: "(string \<times> int option \<times> (string \<times> string) list) list"
  wf_orders :: "(string \<times> nat \<times> order_observation) list"
  wf_ledger :: ledger_store
  wf_alpha :: alpha_registry
  wf_broker_account :: bool            \<comment> \<open>the execution mode starts with \<open>alpaca:\<close>\<close>

subsection \<open>Journal\<close>

definition event_by_key :: "wf_state \<Rightarrow> ftext \<Rightarrow> event option" where
  "event_by_key st k = find (\<lambda>e. ev_key e = Some k) (wf_events st)"

definition append_new :: "ftext \<Rightarrow> string \<Rightarrow> event_payload \<Rightarrow> ftext option \<Rightarrow> wf_state \<Rightarrow> wf_state \<times> event" where
  "append_new stream kind payload key st =
     (let e = \<lparr>ev_id = wf_next st, ev_stream = stream, ev_kind = kind, ev_key = key, ev_payload = payload\<rparr>
      in (st\<lparr>wf_events := wf_events st @ [e], wf_next := Suc (wf_next st)\<rparr>, e))"

definition wf_append :: "ftext \<Rightarrow> string \<Rightarrow> event_payload \<Rightarrow> ftext option \<Rightarrow> wf_state \<Rightarrow> wf_state \<times> event" where
  "wf_append stream kind payload key st = (case key of
     None \<Rightarrow> append_new stream kind payload None st
   | Some k \<Rightarrow> (case event_by_key st k of Some e \<Rightarrow> (st, e) | None \<Rightarrow> append_new stream kind payload (Some k) st))"

abbreviation appended :: "ftext \<Rightarrow> string \<Rightarrow> event_payload \<Rightarrow> wf_state \<Rightarrow> wf_state" where
  "appended stream kind payload st \<equiv> fst (wf_append stream kind payload None st)"

definition record_audit :: "string \<Rightarrow> int option \<Rightarrow> (string \<times> string) list \<Rightarrow> wf_state \<Rightarrow> wf_state" where
  "record_audit kind sid evidence st = st\<lparr>wf_audit := wf_audit st @ [(kind, sid, evidence)]\<rparr>"

abbreviation audit :: "string \<Rightarrow> int \<Rightarrow> wf_state \<Rightarrow> wf_state" where
  "audit kind sid st \<equiv> record_audit kind (Some sid) [] st"

definition halt :: "ftext \<Rightarrow> wf_state \<Rightarrow> wf_state" where
  "halt why st = st\<lparr>wf_halted := Some ''true'', wf_halt_reason := Some why\<rparr>"

definition trading_halted :: "wf_state \<Rightarrow> bool" where
  "trading_halted st = (case wf_halted st of None \<Rightarrow> False | Some v \<Rightarrow> lower v \<in> {''true'', ''1'', ''yes''})"

definition record_health :: "string \<Rightarrow> string \<Rightarrow> bool \<Rightarrow> ftext \<Rightarrow> wf_state \<Rightarrow> wf_state" where
  "record_health run_id component success detail st =
     appended [Lit ''health/'', Lit run_id, Lit ''/'', Lit component] ''health_observed''
       (PNote (if success then ''ok'' else ''failed'') detail) st"

definition record_card_tap :: "int \<Rightarrow> (string \<times> ftext) list \<Rightarrow> wf_state \<Rightarrow> wf_state" where
  "record_card_tap signal_id payload st =
     appended [Lit ''card/'', FInt signal_id] ''card_tap_assessed'' (PData payload) st"

definition claim_card_reevaluation :: "int \<Rightarrow> (string \<times> ftext) list \<Rightarrow> wf_state \<Rightarrow> wf_state \<times> bool" where
  "claim_card_reevaluation signal_id payload st =
     (let key = [Lit ''card_reevaluate/'', FInt signal_id]
      in case event_by_key st key of
        Some _ \<Rightarrow> (st, False)
      | None \<Rightarrow> (fst (wf_append [Lit ''card/'', FInt signal_id] ''card_reevaluate_requested'' (PData payload) (Some key) st), True))"

subsection \<open>Work items\<close>

definition find_item :: "(work_item \<Rightarrow> bool) \<Rightarrow> wf_state \<Rightarrow> work_item option" where
  "find_item p st = find p (wf_items st)"

definition update_item :: "string \<Rightarrow> (work_item \<Rightarrow> work_item) \<Rightarrow> wf_state \<Rightarrow> wf_state" where
  "update_item i f st = st\<lparr>wf_items := map (\<lambda>w. if w_id w = i then f w else w) (wf_items st)\<rparr>"

definition add_item :: "work_item \<Rightarrow> wf_state \<Rightarrow> wf_state" where
  "add_item w st = st\<lparr>wf_items := wf_items st @ [w]\<rparr>"

text \<open>\<open>select ... where p order by sequence limit 1\<close>.\<close>

definition head_item :: "(work_item \<Rightarrow> bool) \<Rightarrow> wf_state \<Rightarrow> work_item option" where
  "head_item p st = (case sort_key w_sequence (filter p (wf_items st)) of [] \<Rightarrow> None | w # _ \<Rightarrow> Some w)"

definition find_signal :: "(signal \<Rightarrow> bool) \<Rightarrow> wf_state \<Rightarrow> signal option" where
  "find_signal p st = find p (wf_signals st)"

definition update_signal :: "int \<Rightarrow> (signal \<Rightarrow> signal) \<Rightarrow> wf_state \<Rightarrow> wf_state" where
  "update_signal i f st = st\<lparr>wf_signals := map (\<lambda>s. if sg_id s = i then f s else s) (wf_signals st)\<rparr>"

subsection \<open>Notification outbox\<close>

definition add_notification :: "ftext \<Rightarrow> string \<Rightarrow> (string \<times> ftext) list \<Rightarrow> string \<Rightarrow> int \<Rightarrow> wf_state \<Rightarrow> wf_state \<times> string" where
  "add_notification key kind args fresh now st =
     (case find_item (\<lambda>w. w_kind w = Notification \<and> w_dedup w = key) st of
        Some w \<Rightarrow> (st, w_id w)
      | None \<Rightarrow>
          (case wf_append [Lit ''notification/'', Lit fresh] ''notification_queued'' (PNote kind key) None st of
             (st1, e) \<Rightarrow>
               (add_item \<lparr>w_id = fresh, w_sequence = ev_id e, w_dedup = key, w_kind = Notification, w_status = Queued,
                  w_payload = NotePayload kind args, w_result = NoResult, w_attempts = 0, w_token = None,
                  w_lease_until = None, w_available_at = now, w_created_at = now\<rparr> st1, fresh)))"

abbreviation notify :: "ftext \<Rightarrow> string \<Rightarrow> (string \<times> ftext) list \<Rightarrow> string \<Rightarrow> int \<Rightarrow> wf_state \<Rightarrow> wf_state" where
  "notify key kind args fresh now st \<equiv> fst (add_notification key kind args fresh now st)"

definition claimable_note :: "int \<Rightarrow> work_item \<Rightarrow> bool" where
  "claimable_note now w = (w_kind w = Notification
     \<and> (w_status w = Queued \<and> w_available_at w \<le> now
        \<or> w_status w = Checking \<and> (case w_lease_until w of None \<Rightarrow> False | Some t \<Rightarrow> t \<le> now)))"

definition note_stream :: "string \<Rightarrow> ftext" where
  "note_stream i = [Lit ''notification/'', Lit i]"

definition claim_notification ::
  "int \<Rightarrow> nat \<Rightarrow> string \<Rightarrow> int \<Rightarrow> wf_state \<Rightarrow> wf_state \<times> work_item option" where
  "claim_notification lease_us max_attempts token now st =
     (case head_item (claimable_note now) st of
        None \<Rightarrow> (st, None)
      | Some w \<Rightarrow>
          if w_attempts w \<ge> max_attempts
          then let w' = w\<lparr>w_status := Dead,
                     w_result := NoteDetail (msg ''Delivery attempt budget exhausted after worker loss'')\<rparr>
               in (appended (note_stream (w_id w)) ''notification_result'' (PNote ''dead'' (msg ''Worker lease expired''))
                     (update_item (w_id w) (\<lambda>_. w') st), None)
          else let w' = w\<lparr>w_status := Checking, w_token := Some token, w_lease_until := Some (now + lease_us),
                     w_attempts := Suc (w_attempts w)\<rparr>
               in (appended (note_stream (w_id w)) ''notification_attempt'' (PItem ''checking'' (w_attempts w'))
                     (update_item (w_id w) (\<lambda>_. w') st), Some w'))"

definition finish_notification ::
  "work_item \<Rightarrow> bool \<Rightarrow> nat \<Rightarrow> int \<Rightarrow> ftext \<Rightarrow> int \<Rightarrow> wf_state \<Rightarrow> wf_state \<times> bool" where
  "finish_notification item delivered max_attempts retry_us detail now st =
     (case find_item (\<lambda>w. w_id w = w_id item \<and> w_token w = w_token item \<and> w_status w = Checking) st of
        None \<Rightarrow> (st, False)
      | Some w \<Rightarrow>
          let s = (if delivered then Delivered else if w_attempts w \<ge> max_attempts then Dead else Queued);
              w' = w\<lparr>w_status := s, w_result := NoteDetail detail, w_available_at := now + retry_us, w_lease_until := None\<rparr>
          in (appended (note_stream (w_id w)) ''notification_result'' (PNote (status_text s) detail)
                (update_item (w_id w) (\<lambda>_. w') st), True))"

definition requeue_notification :: "string \<Rightarrow> int \<Rightarrow> wf_state \<Rightarrow> wf_state \<times> bool" where
  "requeue_notification item_id now st =
     (case find_item (\<lambda>w. w_id w = item_id \<and> w_kind w = Notification \<and> w_status w = Dead) st of
        None \<Rightarrow> (st, False)
      | Some w \<Rightarrow>
          (appended (note_stream (w_id w)) ''notification_requeued'' (PData [])
             (update_item (w_id w) (\<lambda>_. w\<lparr>w_status := Queued, w_attempts := 0, w_token := None, w_available_at := now\<rparr>) st), True))"

definition digest_key :: "int \<Rightarrow> ftext" where
  "digest_key et_date = [Lit ''auto-entry-digest/'', FDate et_date]"

definition queue_auto_entry_digest :: "int \<Rightarrow> ftext \<Rightarrow> string \<Rightarrow> int \<Rightarrow> wf_state \<Rightarrow> wf_state \<times> bool" where
  "queue_auto_entry_digest et_date body fresh now st =
     (if find_item (\<lambda>w. w_kind w = Notification \<and> w_dedup w = digest_key et_date) st \<noteq> None then (st, False)
      else (notify (digest_key et_date) ''message'' [(''text'', body), (''formatted'', msg ''True'')] fresh now st, True))"

end
