(* ===== verification/Entry_Queue.thy ===== *)
theory Entry_Queue
  imports Workflow_Store
begin

text \<open>
  The durable entry queue (\<open>enqueue_entry\<close>, \<open>claim_entry\<close>, \<open>begin_submission\<close> and \<open>resolve_entry\<close> of
  \<open>storage/workflow.py\<close>): an approved entry is reserved, claimed under a lease, authorised for exactly
  one submission, and resolved by the broker's answer or by recovery.
\<close>

subsection \<open>Reads inside the transaction\<close>

definition unresolved_cancellation :: "wf_state \<Rightarrow> bool" where
  "unresolved_cancellation st =
     list_ex (\<lambda>w. w_kind w = EntryCancel \<and> w_status w \<in> {Submitting, Unknown}) (wf_items st)"

definition ACTIVE_CLOSE_STATUSES :: "string list" where
  "ACTIVE_CLOSE_STATUSES = [''claimed'', ''submitted'', ''unknown'']"

definition entry_risk :: "app_config \<Rightarrow> int \<Rightarrow> wf_state \<Rightarrow> account_risk option result" where
  "entry_risk config now st =
     (if \<not> requires_account_risk config \<and> \<not> wf_broker_account st then Ok None
      else bindr (require_risk_checkpoint (ledger_status (wf_ledger st))
                   (account_risk_max_age_seconds (c_execution config)) (Aware now)) (\<lambda>risk.
           raise_if (ar_equity risk \<le> 0)
             (ValueError (msg ''Observed account equity is nonpositive; new entries blocked''))
             (Ok (Some risk))))"

text \<open>\<open>SignalRecord.to_dict\<close>, the columns the book and the capacity assessment read.\<close>

definition row_of_signal :: "signal \<Rightarrow> signal_row" where
  "row_of_signal s = \<lparr>row_contract = Some (sg_contract (sg_alpha s)), row_symbol = None, row_status = Some (sg_status s),
     row_direction = Some (sg_direction (sg_alpha s)), row_asset_class = Some (str_or (sg_asset_class s) FUTURES),
     row_notional_value = (case sg_notional_value s of None \<Rightarrow> NNone | Some x \<Rightarrow> NFloat x),
     row_risk_dollars = NFloat (sg_risk_dollars s), row_broker_order_id = sg_broker_order_id s,
     row_quantity = NFloat (case sg_quantity s of None \<Rightarrow> 1 | Some q \<Rightarrow> q), row_entry_price = NFloat (sg_entry_price s),
     row_stop_loss = NFloat (sg_stop_loss s), row_take_profit = NFloat (sg_take_profit s)\<rparr>"

definition RESERVED :: "string list" where "RESERVED = [''SUBMITTING'', ''EXECUTED'']"

definition reservations :: "int option \<Rightarrow> wf_state \<Rightarrow> signal_row list" where
  "reservations exclude st = map row_of_signal
     (filter (\<lambda>s. sg_status s \<in> set RESERVED \<and> Some (sg_id s) \<noteq> exclude) (wf_signals st))"

text \<open>Signals that claim a reservation without an entry work item (\<open>legacy_claims\<close>).\<close>

definition legacy_claims :: "wf_state \<Rightarrow> int list" where
  "legacy_claims st = map sg_id (filter (\<lambda>s. sg_status s = ''SUBMITTING''
     \<and> \<not> list_ex (\<lambda>w. w_kind w = Entry \<and> w_dedup w = [FInt (sg_id s)]) (wf_items st)) (wf_signals st))"

definition entry_of :: "int \<Rightarrow> wf_state \<Rightarrow> work_item option" where
  "entry_of sid st = find_item (\<lambda>w. w_kind w = Entry \<and> w_dedup w = [FInt sid]) st"

abbreviation no_order :: "ftext \<Rightarrow> ftext" where
  "no_order t \<equiv> t @ [Lit '' No order submitted.'']"

subsection \<open>Reservation (\<open>enqueue_entry\<close>)\<close>

definition entry_stream :: "string \<Rightarrow> ftext" where
  "entry_stream i = [Lit ''entry/'', Lit i]"

definition multiplier_of :: "app_config \<Rightarrow> string \<Rightarrow> pyfloat" where
  "multiplier_of config symbol = (case map_of (contracts config) symbol of Some (Some m) \<Rightarrow> m | _ \<Rightarrow> 1)"

definition reserve ::
  "order_request \<Rightarrow> app_config \<Rightarrow> string \<Rightarrow> string \<Rightarrow> int \<Rightarrow> account_risk option \<Rightarrow> wf_state
     \<Rightarrow> (wf_state \<times> work_item option \<times> ftext) result" where
  "reserve request config trigger cid now risk st =
     (case (rq_entry_price request, rq_stop_loss request) of
        (Some entry, Some stop) \<Rightarrow>
          let sid = rq_signal_id request; m = multiplier_of config (rq_symbol request); q = rq_quantity request;
              request' = request\<lparr>rq_client_order_id := Some cid\<rparr>;
              st1 = update_signal sid (\<lambda>s. s\<lparr>sg_status := ''SUBMITTING'', sg_quantity := Some q,
                      sg_notional_value := Some (entry * q * m),
                      sg_risk_dollars := abs (entry - stop) * q * m\<rparr>) st
          in (case wf_append (entry_stream cid) ''entry_queued'' (PQueued request' trigger risk) None st1 of (st2, e) \<Rightarrow>
                let w = \<lparr>w_id = cid, w_sequence = ev_id e, w_dedup = [FInt sid], w_kind = Entry, w_status = Queued,
                          w_payload = EntryPayload request' trigger, w_result = NoResult, w_attempts = 0, w_token = None,
                          w_lease_until = None, w_available_at = now, w_created_at = now\<rparr>
                in Ok (audit ''execution_claimed'' sid (add_item w st2), Some w, msg ''Queued for fresh admission checks.''))
      | _ \<Rightarrow> Raise AssertionError)"

definition command_id :: "string \<Rightarrow> string" where
  "command_id fresh = ''entry-'' @ fresh"

definition enqueue_entry ::
  "order_request \<Rightarrow> app_config \<Rightarrow> string \<Rightarrow> string \<Rightarrow> int \<Rightarrow> wf_state
     \<Rightarrow> (wf_state \<times> work_item option \<times> ftext) result" where
  "enqueue_entry request config trigger fresh now st =
     (let sid = rq_signal_id request; refused = (\<lambda>t. Ok (st, None, t))
      in case entry_of sid st of
        Some w \<Rightarrow> Ok (st, Some w, msg ''Already authorized; original request retained.'')
      | None \<Rightarrow>
          if trading_halted st then refused (msg ''Emergency trading halt active.'')
          else if unresolved_cancellation st
          then refused (msg ''Unconfirmed entry cancellation remains; inspect broker evidence.'')
          else if list_ex (\<lambda>c. cr_symbol c = rq_symbol request \<and> cr_status c \<in> set ACTIVE_CLOSE_STATUSES) (wf_closes st)
          then refused (msg ''Symbol has an unresolved close request.'')
          else case find_signal (\<lambda>s. sg_id s = sid) st of
            None \<Rightarrow> refused (msg ''Signal is not pending.'')
          | Some s \<Rightarrow>
              if sg_status s \<noteq> ''PENDING'' then refused (msg ''Signal is not pending.'')
              else case alpha_entry_rejection (wf_alpha st) now (sg_alpha s) of
                Some t \<Rightarrow> refused t
              | None \<Rightarrow>
                  catch_value (entry_risk config now st)
                    (\<lambda>t. Ok (audit ''entry_admission_rejected'' sid st, None,
                            no_order (Lit ''Account risk unavailable: '' # t @ [Lit ''.''])))
                    (\<lambda>risk.
                       bindr (reservation_rejection request (reservations None st) config
                               (case risk of Some r \<Rightarrow> float_of_dec (ar_drawdown_pct r) | None \<Rightarrow> 0)
                               (map_option (\<lambda>r. float_of_dec (ar_equity r)) risk) None) (\<lambda>verdict.
                       case verdict of
                         Some t \<Rightarrow> Ok (audit ''entry_admission_rejected'' sid st, None, t)
                       | None \<Rightarrow> reserve request config trigger (command_id fresh) now risk st)))"

subsection \<open>Claim (\<open>claim_entry\<close>)\<close>

definition blocking_entry :: "work_item \<Rightarrow> bool" where
  "blocking_entry w = (w_kind w = Entry \<and> w_status w \<in> set ENTRY_BLOCKING)"

definition claim_entry :: "int \<Rightarrow> string \<Rightarrow> int \<Rightarrow> wf_state \<Rightarrow> wf_state \<times> work_item option" where
  "claim_entry lease_us token now st =
     (case head_item blocking_entry st of
        None \<Rightarrow> (st, None)
      | Some w \<Rightarrow>
          if w_status w \<in> {Submitting, Unknown} then (st, None)
          else if w_status w = Checking \<and> (case w_lease_until w of None \<Rightarrow> False | Some t \<Rightarrow> t > now) then (st, None)
          else let w' = w\<lparr>w_status := Checking, w_token := Some token, w_lease_until := Some (now + lease_us),
                     w_attempts := Suc (w_attempts w)\<rparr>
               in (appended (entry_stream (w_id w)) ''entry_checking'' (PItem token (w_attempts w'))
                     (update_item (w_id w) (\<lambda>_. w') st), Some w'))"

subsection \<open>Submission authority (\<open>begin_submission\<close>)\<close>

text \<open>The request an entry item carries.\<close>

definition item_request :: "work_item \<Rightarrow> order_request option" where
  "item_request w = (case w_payload w of EntryPayload r _ \<Rightarrow> Some r | _ \<Rightarrow> None)"

definition signal_matches :: "signal option \<Rightarrow> order_request \<Rightarrow> bool" where
  "signal_matches signal r = (case signal of
     None \<Rightarrow> False
   | Some s \<Rightarrow> sg_status s = ''SUBMITTING'' \<and> sg_contract (sg_alpha s) = rq_symbol r
       \<and> sg_direction (sg_alpha s) = rq_direction r \<and> sg_asset_class s = Some (rq_asset_class r)
       \<and> sg_quantity s = Some (rq_quantity r) \<and> Some (sg_entry_price s) = rq_entry_price r
       \<and> Some (sg_stop_loss s) = rq_stop_loss r \<and> Some (sg_take_profit s) = rq_take_profit r)"

text \<open>\<open>except (ValueError, TypeError, ArithmeticError)\<close>.\<close>

fun value_type_arithmetic :: "py_exc \<Rightarrow> bool" where
  "value_type_arithmetic (ValueError _) = True"
| "value_type_arithmetic (TypeError _) = True"
| "value_type_arithmetic ZeroDivisionError = True"
| "value_type_arithmetic OverflowError = True"
| "value_type_arithmetic DecimalInvalid = True"
| "value_type_arithmetic _ = False"

text \<open>The last check: capacity against broker evidence, or local admission where there is none.\<close>

definition final_check ::
  "order_request \<Rightarrow> app_config \<Rightarrow> signal_row list \<Rightarrow> account_risk option \<Rightarrow> entry_context option \<Rightarrow> int
     \<Rightarrow> (ftext option \<times> capacity_assessment option) result" where
  "final_check request config rows risk context now =
     (if risk \<noteq> None \<and> context = None
      then Ok (Some (msg ''Fresh broker capacity evidence is unavailable. No order submitted.''), None)
      else case context of
        Some x \<Rightarrow>
          (case assess_entry_capacity request rows x config risk now of
             Inr ca \<Rightarrow> Ok (None, Some ca)
           | Inl e \<Rightarrow> if value_type_arithmetic e
                then Ok (Some (no_order (Lit ''Entry capacity refused: '' # exc_text e @ [Lit ''.''])), None)
                else Raise e)
      | None \<Rightarrow> bindr (reservation_rejection request rows config 0 None None) (\<lambda>t. Ok (t, None)))"

text \<open>
  The clock is read several times; \<open>clock i\<close> is the \<open>i\<close>-th reading. The fingerprint of the risk
  snapshot is a parameter.
\<close>

definition submission_check ::
  "(account_risk \<Rightarrow> string) \<Rightarrow> work_item \<Rightarrow> app_config \<Rightarrow> string option \<Rightarrow> entry_context option \<Rightarrow> (nat \<Rightarrow> int) \<Rightarrow> wf_state
     \<Rightarrow> (ftext + work_item \<times> order_request \<times> account_risk option \<times> capacity_assessment option) result" where
  "submission_check fingerprint item config risk_fp context clock st =
     (let refused = (\<lambda>t. Ok (Inl t))
      in if trading_halted st then refused (msg ''Emergency trading halt active. No order submitted.'')
         else if unresolved_cancellation st then refused (msg ''Unconfirmed entry cancellation remains. No order submitted.'')
         else case find_item (\<lambda>w. w_id w = w_id item \<and> w_status w = Checking \<and> w_token w = w_token item
                \<and> (case w_lease_until w of None \<Rightarrow> False | Some t \<Rightarrow> t > clock 0)) st of
           None \<Rightarrow> refused (msg ''Admission claim expired or changed. No order submitted; request fresh approval.'')
         | Some row \<Rightarrow>
             (case item_request item of
                None \<Rightarrow> Raise (KeyError ''signal_id'')
              | Some request \<Rightarrow>
                  (case find_signal (\<lambda>s. sg_id s = rq_signal_id request) st of
                     None \<Rightarrow> refused (msg ''Signal or active alpha authorization changed. No order submitted.'')
                   | Some signal \<Rightarrow>
                       if \<not> signal_matches (Some signal) request
                       then refused (msg ''Signal or active alpha authorization changed. No order submitted.'')
                       else case alpha_entry_rejection (wf_alpha st) (clock 1) (sg_alpha signal) of
                         Some t \<Rightarrow> refused (no_order t)
                       | None \<Rightarrow>
                           catch_value (entry_risk config (clock 2) st)
                             (\<lambda>t. refused (no_order (Lit ''Account risk unavailable: '' # t @ [Lit ''.''])))
                             (\<lambda>risk.
                                if (case risk of None \<Rightarrow> False | Some r \<Rightarrow> Some (fingerprint r) \<noteq> risk_fp)
                                then refused (msg ''Account risk changed after preflight. No order submitted; request a fresh scan.'')
                                else if (case w_lease_until row of None \<Rightarrow> True | Some t \<Rightarrow> t \<le> clock 3)
                                then refused (msg ''Admission claim expired while validating account risk. No order submitted.'')
                                else case authorization_expiry (w_created_at row) (sg_timestamp signal) config (clock 4) of
                                  Some t \<Rightarrow> refused t
                                | None \<Rightarrow>
                                    bindr (final_check request config (reservations (Some (rq_signal_id request)) st) risk
                                             context (clock 5)) (\<lambda>(verdict, capacity).
                                    case verdict of
                                      Some t \<Rightarrow> refused t
                                    | None \<Rightarrow> Ok (Inr (row, request, risk, capacity)))))))"

definition begin_submission ::
  "(account_risk \<Rightarrow> string) \<Rightarrow> work_item \<Rightarrow> app_config \<Rightarrow> string option \<Rightarrow> entry_context option \<Rightarrow> (nat \<Rightarrow> int) \<Rightarrow> wf_state
     \<Rightarrow> (wf_state \<times> ftext option) result" where
  "begin_submission fingerprint item config risk_fp context clock st =
     bindr (submission_check fingerprint item config risk_fp context clock st) (\<lambda>outcome.
     case outcome of
       Inl t \<Rightarrow> Ok (st, Some t)
     | Inr (row, request, risk, capacity) \<Rightarrow>
         bindr (case risk of None \<Rightarrow> Ok 1
                | Some r \<Rightarrow> drawdown_risk_factor (float_of_dec (ar_drawdown_pct r)) (s_drawdown (c_sizing config))) (\<lambda>factor.
         let st1 = update_item (w_id row) (\<lambda>_. row\<lparr>w_status := Submitting, w_lease_until := None\<rparr>) st;
             st2 = appended (entry_stream (w_id row)) ''entry_submitting''
                     (PSubmitting request risk risk_fp factor context capacity) st1
         in Ok (audit ''entry_submission'' (rq_signal_id request) st2, None)))"

subsection \<open>Resolution (\<open>resolve_entry\<close>)\<close>

definition resolved_status :: "order_result \<Rightarrow> work_status" where
  "resolved_status r = (if or_success r then Accepted else if or_submission_uncertain r then Unknown else Rejected)"

text \<open>
  Whether a routine notice is folded into the daily digest. \<open>et_date\<close> gives the New York date of an
  instant (the time-zone database is a parameter); an unreadable trigger reads as a tap.
\<close>

definition folds_into_auto_digest :: "(int \<Rightarrow> int) \<Rightarrow> int \<Rightarrow> int \<Rightarrow> wf_state \<Rightarrow> bool" where
  "folds_into_auto_digest et_date sid now st =
     ((case entry_of sid st of Some w \<Rightarrow> (case w_payload w of EntryPayload _ t \<Rightarrow> t = ''auto'' | _ \<Rightarrow> False) | None \<Rightarrow> False)
      \<and> (case find_signal (\<lambda>s. sg_id s = sid) st of None \<Rightarrow> False
         | Some s \<Rightarrow> \<not> et_date (sg_timestamp s) < et_date now
             \<and> find_item (\<lambda>w. w_kind w = Notification \<and> w_dedup w = digest_key (et_date (sg_timestamp s))) st = None))"

definition resolution_notice :: "int \<Rightarrow> work_status \<Rightarrow> order_result \<Rightarrow> ftext" where
  "resolution_notice sid s r = [Lit ''Entry #'', FInt sid, Lit '': '', Lit (status_text s), Lit ''. Broker order: '',
       Lit (str_or (or_order_id r) ''unconfirmed''), Lit ''. ''] @ (case or_error_message r of Some t \<Rightarrow> t | None \<Rightarrow> [])
     @ (if s = Rejected
        then [Lit '' Conditions changed or the broker rejected this order. Run /scan for a new proposal and approval.'']
        else [])"

definition settle_signal :: "int \<Rightarrow> order_result \<Rightarrow> wf_state \<Rightarrow> wf_state" where
  "settle_signal sid r st = (case find_signal (\<lambda>s. sg_id s = sid \<and> sg_status s = ''SUBMITTING'') st of
     None \<Rightarrow> st
   | Some s \<Rightarrow> update_signal sid (\<lambda>_. s\<lparr>sg_status := (if or_success r then ''EXECUTED'' else ''FAILED''),
       sg_broker_order_id := or_order_id r,
       sg_entry_price := (case or_fill_price r of Some p \<Rightarrow> p | None \<Rightarrow> sg_entry_price s)\<rparr>) st)"

definition resolve_entry ::
  "(int \<Rightarrow> int) \<Rightarrow> work_item \<Rightarrow> order_result \<Rightarrow> bool \<Rightarrow> string \<Rightarrow> int \<Rightarrow> wf_state \<Rightarrow> wf_state \<times> bool" where
  "resolve_entry et_date item result recovery fresh now st =
     (case find_item (\<lambda>w. w_id w = w_id item \<and> w_status w \<in> set ENTRY_BLOCKING) st of
        None \<Rightarrow> (st, False)
      | Some row \<Rightarrow>
          if \<not> recovery \<and> w_token row \<noteq> w_token item then (st, False)
          else if recovery \<and> w_status row \<notin> {Submitting, Unknown} then (st, False)
          else
            let sid = (case item_request item of Some r \<Rightarrow> rq_signal_id r | None \<Rightarrow> 0);
                s = resolved_status result;
                st1 = update_item (w_id row) (\<lambda>_. row\<lparr>w_status := s, w_result := EntryResult result\<rparr>) st;
                st2 = (if s = Unknown then st1 else settle_signal sid result st1);
                st3 = (if s = Unknown
                       then audit ''entry_submission_unknown'' sid
                              (halt [Lit ''Unconfirmed broker entry '', Lit (w_id item), Lit ''; lookup recovery required before /resume''] st2)
                       else st2);
                st4 = appended (entry_stream (w_id row)) ''entry_resolved'' (PResolved s recovery) st3;
                folded = (s = Accepted \<and> w_status row \<noteq> Unknown \<and> folds_into_auto_digest et_date sid now st4)
            in ((if folded then st4
                 else notify [Lit ''entry/'', Lit (w_id row), Lit ''/'', Lit (status_text s)] ''message''
                        [(''text'', resolution_notice sid s result)] fresh now st4), True))"

subsection \<open>Transitions\<close>

text \<open>
  A transaction of the entry queue or the outbox by any process. Fresh identifiers are unused, and a
  result is reported for an item that was claimed from its queue (or by recovery).
\<close>

definition entry_kinds :: "string list" where
  "entry_kinds = [''entry_queued'', ''entry_checking'', ''entry_submitting'', ''entry_resolved'']"

definition unused :: "string \<Rightarrow> wf_state \<Rightarrow> bool" where
  "unused i st = (list_all (\<lambda>w. w_id w \<noteq> i) (wf_items st)
     \<and> list_all (\<lambda>e. ev_stream e \<noteq> entry_stream i) (wf_events st))"

text \<open>The only caller builds the request from its signal (\<open>symbol=contract\<close>).\<close>

definition request_for_signal :: "order_request \<Rightarrow> wf_state \<Rightarrow> bool" where
  "request_for_signal r st = (case find_signal (\<lambda>s. sg_id s = rq_signal_id r) st of
     None \<Rightarrow> True | Some s \<Rightarrow> sg_contract (sg_alpha s) = rq_symbol r)"

inductive wf_trans :: "(account_risk \<Rightarrow> string) \<Rightarrow> (int \<Rightarrow> int) \<Rightarrow> wf_state \<Rightarrow> wf_state \<Rightarrow> bool"
  for fingerprint :: "account_risk \<Rightarrow> string" and et_date :: "int \<Rightarrow> int" where
  enqueue: "enqueue_entry r c t fresh now st = Ok (st', x) \<Longrightarrow> unused (command_id fresh) st \<Longrightarrow> request_for_signal r st
    \<Longrightarrow> wf_trans fingerprint et_date st st'"
| claim: "wf_trans fingerprint et_date st (fst (claim_entry lease token now st))"
| submit: "begin_submission fingerprint item c fp context clock st = Ok (st', y) \<Longrightarrow> wf_trans fingerprint et_date st st'"
| resolve: "recovery \<or> w_token item \<noteq> None \<Longrightarrow> unused fresh st
    \<Longrightarrow> wf_trans fingerprint et_date st (fst (resolve_entry et_date item res recovery fresh now st))"
| note_add: "unused fresh st \<Longrightarrow> wf_trans fingerprint et_date st (notify key kind args fresh now st)"
| note_claim: "wf_trans fingerprint et_date st (fst (claim_notification lease maxa token now st))"
| note_finish: "\<forall>w \<in> set (wf_items st). w_id w = w_id item \<longrightarrow> w_kind w = Notification
    \<Longrightarrow> wf_trans fingerprint et_date st (fst (finish_notification item ok maxa retry detail now st))"
| note_requeue: "wf_trans fingerprint et_date st (fst (requeue_notification i now st))"

definition submissions :: "string \<Rightarrow> wf_state \<Rightarrow> nat" where
  "submissions i st = length (filter (\<lambda>e. ev_kind e = ''entry_submitting'' \<and> ev_stream e = entry_stream i) (wf_events st))"

definition active :: "work_item \<Rightarrow> bool" where
  "active w = (w_kind w = Entry \<and> w_status w \<in> {Checking, Submitting, Unknown})"

text \<open>
  The invariant of the item table: identities, sequence numbers and keys are unique, only the
  oldest blocking entry is past the queue, and an item before submission has no submission event.
\<close>

definition serial :: "work_item list \<Rightarrow> bool" where
  "serial items = (\<forall>w \<in> set items. \<forall>v \<in> set items. active w \<and> blocking_entry v \<longrightarrow> w_sequence w \<le> w_sequence v)"

definition item_ok :: "(string \<Rightarrow> nat) \<Rightarrow> work_item \<Rightarrow> bool" where
  "item_ok subs w = ((w_kind w = Entry \<and> w_status w = Queued \<longrightarrow> w_token w = None) \<and> subs (w_id w) \<le> 1
     \<and> (w_status w \<in> {Queued, Checking, Delivered, Dead} \<longrightarrow> subs (w_id w) = 0))"

text \<open>The unique key of an item within its scope.\<close>

definition item_key :: "work_item \<Rightarrow> work_kind \<times> ftext" where
  "item_key w = (w_kind w, w_dedup w)"

definition table_inv :: "work_item list \<Rightarrow> nat \<Rightarrow> (string \<Rightarrow> nat) \<Rightarrow> bool" where
  "table_inv items n subs =
     (distinct (map w_id items) \<and> distinct (map w_sequence items) \<and> (\<forall>w \<in> set items. w_sequence w < n)
      \<and> distinct (map item_key items) \<and> serial items
      \<and> (\<forall>w \<in> set items. item_ok subs w))"

definition queue_inv :: "wf_state \<Rightarrow> bool" where
  "queue_inv st = table_inv (wf_items st) (wf_next st) (\<lambda>i. submissions i st)"

subsection \<open>Changes of the item table\<close>

definition same_key :: "work_item \<Rightarrow> work_item \<Rightarrow> bool" where
  "same_key w v = (w_id w = w_id v \<and> w_sequence w = w_sequence v \<and> w_dedup w = w_dedup v \<and> w_kind w = w_kind v)"

text \<open>An item is changed in place: it may become active only where it already was or at the head.\<close>

lemma table_update:
  assumes inv: "table_inv items n subs" and row: "row \<in> set items" and key: "same_key row' row"
    and blk: "blocking_entry row' \<longrightarrow> blocking_entry row"
    and act: "active row' \<longrightarrow> (\<forall>v \<in> set items. blocking_entry v \<longrightarrow> w_sequence row \<le> w_sequence v)"
    and ok: "item_ok subs' row'" and others: "\<forall>i. i \<noteq> w_id row \<longrightarrow> subs' i = subs i" and n: "n \<le> n'"
  shows "table_inv (map (\<lambda>w. if w_id w = w_id row then row' else w) items) n' subs'"
proof -
  let ?u = "\<lambda>w. if w_id w = w_id row then row' else w"
  have dist: "distinct (map w_id items)" using inv by (simp add: table_inv_def)
  then have eq: "w = row" if "w \<in> set items" "w_id w = w_id row" for w
    using that row by (metis distinct_map inj_onD)
  have key_u: "same_key (?u w) w" if "w \<in> set items" for w
    using eq [OF that] key by (auto simp: same_key_def)
  have maps: "map w_id (map ?u items) = map w_id items" "map w_sequence (map ?u items) = map w_sequence items"
    using key_u by (simp_all add: same_key_def)
  have dedup: "map item_key (map ?u items) = map item_key items"
    using key_u by (simp add: same_key_def item_key_def)
  have blk_u: "blocking_entry (?u v) \<Longrightarrow> blocking_entry v" if "v \<in> set items" for v
    using eq [OF that] blk by (auto split: if_splits)
  have "serial (map ?u items)" unfolding serial_def
  proof (intro ballI impI)
    fix a b assume "a \<in> set (map ?u items)" "b \<in> set (map ?u items)" and ab: "active a \<and> blocking_entry b"
    then obtain w v where w: "w \<in> set items" "a = ?u w" and v: "v \<in> set items" "b = ?u v" by auto
    have bv: "blocking_entry v" using blk_u [OF v(1)] ab v(2) by simp
    have "w_sequence w \<le> w_sequence v"
    proof (cases "w_id w = w_id row")
      case True
      then show ?thesis using act ab w v bv eq by auto
    next
      case False
      then show ?thesis using inv w v ab bv by (auto simp: table_inv_def serial_def)
    qed
    then show "w_sequence a \<le> w_sequence b" using key_u w v by (simp add: same_key_def)
  qed
  moreover have "\<forall>w \<in> set (map ?u items). item_ok subs' w"
    using inv ok others unfolding table_inv_def set_map by (auto simp: item_ok_def)
  moreover have "w_sequence (?u w) < n'" if "w \<in> set items" for w
    using key_u [OF that] inv that n by (fastforce simp: same_key_def table_inv_def)
  then have "\<forall>w \<in> set (map ?u items). w_sequence w < n'" by (simp only: set_map ball_simps image_iff) blast
  ultimately show ?thesis using inv unfolding table_inv_def maps dedup by blast
qed

lemma table_add:
  assumes "table_inv items n subs" and "\<forall>w \<in> set items. w_id w \<noteq> w_id new"
    and "\<forall>w \<in> set items. item_key w \<noteq> item_key new"
    and "\<not> active new" "n \<le> w_sequence new" "w_sequence new < n'" "item_ok subs new"
  shows "table_inv (items @ [new]) n' subs"
proof -
  have lt: "w_sequence w < w_sequence new" if "w \<in> set items" for w
    using assms(1,5) that unfolding table_inv_def by (meson less_le_trans)
  have "serial (items @ [new])"
    using assms(1,4) lt [THEN less_imp_le] unfolding table_inv_def serial_def by auto
  moreover have "\<forall>w \<in> set (items @ [new]). w_sequence w < n'"
    using lt assms(6) by (auto dest: lt)
  moreover have "w_sequence new \<notin> w_sequence ` set items" by (auto dest: lt)
  moreover have "w_id new \<notin> w_id ` set items" "item_key new \<notin> item_key ` set items" using assms(2,3) by auto
  ultimately show ?thesis using assms(1,7) unfolding table_inv_def by auto
qed

lemma table_mono: "table_inv items n subs \<Longrightarrow> n \<le> n' \<Longrightarrow> table_inv items n' subs"
  by (fastforce simp: table_inv_def)

lemma head_item_Some:
  assumes "head_item p st = Some w"
  shows "w \<in> set (wf_items st)" "p w" "\<forall>v \<in> set (wf_items st). p v \<longrightarrow> w_sequence w \<le> w_sequence v"
proof -
  obtain ws where ws: "sort_key w_sequence (filter p (wf_items st)) = w # ws"
    using assms by (auto simp: head_item_def split: list.splits)
  have set: "set (w # ws) = {v \<in> set (wf_items st). p v}" unfolding ws [symmetric] by simp
  show "w \<in> set (wf_items st)" "p w" using set by auto
  have "sorted (map w_sequence (w # ws))" unfolding ws [symmetric] by (rule sorted_sort_key)
  then show "\<forall>v \<in> set (wf_items st). p v \<longrightarrow> w_sequence w \<le> w_sequence v" using set by auto
qed

lemma find_item_Some: "find_item p st = Some w \<Longrightarrow> w \<in> set (wf_items st) \<and> p w"
  unfolding find_item_def by (rule find_Some_props)

subsection \<open>Every operation keeps the invariant\<close>

lemma wf_append_None [simp]:
  "wf_append stream kind payload None st =
     (st\<lparr>wf_events := wf_events st @ [\<lparr>ev_id = wf_next st, ev_stream = stream, ev_kind = kind, ev_key = None, ev_payload = payload\<rparr>],
         wf_next := Suc (wf_next st)\<rparr>,
      \<lparr>ev_id = wf_next st, ev_stream = stream, ev_kind = kind, ev_key = None, ev_payload = payload\<rparr>)"
  by (simp add: wf_append_def append_new_def Let_def)

lemma entry_stream_inject [simp]: "entry_stream i = entry_stream j \<longleftrightarrow> i = j"
  by (simp add: entry_stream_def)

lemma note_stream_ne [simp]: "note_stream i \<noteq> entry_stream j" "entry_stream j \<noteq> note_stream i"
  by (simp_all add: entry_stream_def note_stream_def)

lemma submissions_upd [simp]:
  "submissions i (st\<lparr>wf_items := x\<rparr>) = submissions i st" "submissions i (st\<lparr>wf_signals := y\<rparr>) = submissions i st"
  "submissions i (st\<lparr>wf_next := n\<rparr>) = submissions i st" "submissions i (st\<lparr>wf_audit := a\<rparr>) = submissions i st"
  "submissions i (st\<lparr>wf_halted := h, wf_halt_reason := r\<rparr>) = submissions i st"
  by (simp_all add: submissions_def)

lemma submissions_snoc [simp]:
  "submissions i (st\<lparr>wf_events := wf_events st @ [e]\<rparr>)
     = submissions i st + (if ev_kind e = ''entry_submitting'' \<and> ev_stream e = entry_stream i then 1 else 0)"
  by (simp add: submissions_def)

lemmas table_ops = update_item_def add_item_def update_signal_def record_audit_def halt_def

lemma queue_inv_irrelevant [simp]:
  "queue_inv (st\<lparr>wf_signals := y\<rparr>) = queue_inv st" "queue_inv (st\<lparr>wf_audit := a\<rparr>) = queue_inv st"
  "queue_inv (st\<lparr>wf_halted := h, wf_halt_reason := r\<rparr>) = queue_inv st"
  by (simp_all add: queue_inv_def)

text \<open>An event that grants no submission only moves the next identity.\<close>

lemma wf_append_fst:
  "fst (wf_append stream kind payload key st) = st
   \<or> fst (wf_append stream kind payload key st) = st\<lparr>wf_events := wf_events st @
       [\<lparr>ev_id = wf_next st, ev_stream = stream, ev_kind = kind, ev_key = key, ev_payload = payload\<rparr>], wf_next := Suc (wf_next st)\<rparr>"
  by (auto simp: wf_append_def append_new_def Let_def split: option.split)

lemma queue_inv_append:
  assumes "queue_inv st" "kind \<noteq> ''entry_submitting''"
  shows "queue_inv (fst (wf_append stream kind payload key st))"
  using assms wf_append_fst [of stream kind payload key st] table_mono [of "wf_items st" "wf_next st" _ "Suc (wf_next st)"]
  by (auto simp: queue_inv_def)

lemma queue_inv_update:
  assumes "queue_inv st" "row \<in> set (wf_items st)" "same_key row' row"
    "blocking_entry row' \<longrightarrow> blocking_entry row"
    "active row' \<longrightarrow> (\<forall>v \<in> set (wf_items st). blocking_entry v \<longrightarrow> w_sequence row \<le> w_sequence v)"
    "item_ok (\<lambda>i. submissions i st) row'"
  shows "queue_inv (update_item (w_id row) (\<lambda>_. row') st)"
  using table_update [OF assms(1) [unfolded queue_inv_def] assms(2-6)]
  by (simp add: queue_inv_def update_item_def)

lemma active_first:
  "queue_inv st \<Longrightarrow> row \<in> set (wf_items st) \<Longrightarrow> active row \<Longrightarrow> v \<in> set (wf_items st) \<Longrightarrow> blocking_entry v
     \<Longrightarrow> w_sequence row \<le> w_sequence v"
  by (auto simp: queue_inv_def table_inv_def serial_def)

lemma inv_item_ok: "queue_inv st \<Longrightarrow> w \<in> set (wf_items st) \<Longrightarrow> item_ok (\<lambda>i. submissions i st) w"
  by (simp add: queue_inv_def table_inv_def)

lemma claim_entry_inv:
  assumes "queue_inv st"
  shows "queue_inv (fst (claim_entry lease token now st))"
proof (cases "head_item blocking_entry st")
  case (Some w)
  note h = head_item_Some [OF Some]
  let ?w = "w\<lparr>w_status := Checking, w_token := Some token, w_lease_until := Some (now + lease), w_attempts := Suc (w_attempts w)\<rparr>"
  have "w_status w \<notin> {Submitting, Unknown} \<Longrightarrow> item_ok (\<lambda>i. submissions i st) ?w"
    using inv_item_ok [OF assms h(1)] h(2)
    by (auto simp: item_ok_def blocking_entry_def ENTRY_BLOCKING_def)
  then have "w_status w \<notin> {Submitting, Unknown} \<Longrightarrow> queue_inv (update_item (w_id w) (\<lambda>_. ?w) st)"
    using h by (intro queue_inv_update [OF assms h(1)]) (auto simp: same_key_def)
  then show ?thesis
    using Some assms queue_inv_append [of "update_item (w_id w) (\<lambda>_. ?w) st" "''entry_checking''"]
    by (simp add: claim_entry_def Let_def del: wf_append_None)
qed (simp add: claim_entry_def assms)

lemma notify_inv:
  assumes "queue_inv st" "unused fresh st"
  shows "queue_inv (notify key kind args fresh now st)"
proof (cases "find_item (\<lambda>w. w_kind w = Notification \<and> w_dedup w = key) st")
  case None
  have s0: "submissions fresh st = 0"
    using assms(2) by (auto simp: unused_def submissions_def list_all_iff filter_empty_conv)
  have "\<forall>w \<in> set (wf_items st). item_key w \<noteq> (Notification, key)"
    using None by (auto simp: find_item_def find_None_iff item_key_def)
  then have "table_inv (wf_items st @ [\<lparr>w_id = fresh, w_sequence = wf_next st, w_dedup = key, w_kind = Notification,
      w_status = Queued, w_payload = NotePayload kind args, w_result = NoResult, w_attempts = 0, w_token = None,
      w_lease_until = None, w_available_at = now, w_created_at = now\<rparr>]) (Suc (wf_next st)) (\<lambda>i. submissions i st)"
    using assms s0 by (intro table_add [of _ "wf_next st"]) (auto simp: queue_inv_def unused_def list_all_iff active_def item_ok_def item_key_def)
  then show ?thesis
    using assms(1) None by (auto simp: add_notification_def queue_inv_def add_item_def)
qed (use assms in \<open>simp add: add_notification_def\<close>)

text \<open>Notification items are never active, so their changes are harmless.\<close>

lemma note_update_inv:
  assumes "queue_inv st" "row \<in> set (wf_items st)" "same_key row' row" "w_kind row = Notification"
    "item_ok (\<lambda>i. submissions i st) row'" "kind \<noteq> ''entry_submitting''"
  shows "queue_inv (fst (wf_append stream kind payload None (update_item (w_id row) (\<lambda>_. row') st)))"
  using assms by (intro queue_inv_append queue_inv_update) (auto simp: blocking_entry_def active_def same_key_def)

lemma claim_notification_inv:
  assumes "queue_inv st"
  shows "queue_inv (fst (claim_notification lease maxa token now st))"
proof (cases "head_item (claimable_note now) st")
  case (Some w)
  note h = head_item_Some [OF Some]
  have "w_kind w = Notification" "w_status w \<in> {Queued, Checking}"
    using h(2) by (auto simp: claimable_note_def)
  then show ?thesis
    using Some assms inv_item_ok [OF assms h(1)] h(1)
    by (auto simp: claim_notification_def Let_def simp del: wf_append_None
        intro!: note_update_inv simp: same_key_def item_ok_def)
qed (simp add: claim_notification_def assms)

lemma finish_notification_inv:
  assumes "queue_inv st" "\<forall>w \<in> set (wf_items st). w_id w = w_id item \<longrightarrow> w_kind w = Notification"
  shows "queue_inv (fst (finish_notification item ok maxa retry detail now st))"
proof (cases "find_item (\<lambda>w. w_id w = w_id item \<and> w_token w = w_token item \<and> w_status w = Checking) st")
  case (Some w)
  then have w: "w \<in> set (wf_items st)" "w_id w = w_id item" "w_status w = Checking" by (auto dest: find_item_Some)
  have kind: "w_kind w = Notification" using assms(2) w by blast
  have "item_ok (\<lambda>i. submissions i st) (w\<lparr>w_status := s, w_result := r, w_available_at := a, w_lease_until := l\<rparr>)" for s r a l
    using inv_item_ok [OF assms(1) w(1)] w(3) kind by (simp add: item_ok_def)
  then have "queue_inv (fst (wf_append str k p None (update_item (w_id w)
      (\<lambda>_. w\<lparr>w_status := s, w_result := r, w_available_at := a, w_lease_until := l\<rparr>) st)))"
    if "k \<noteq> ''entry_submitting''" for str k p s r a l
    using that by (intro note_update_inv [OF assms(1) w(1) _ kind]) (simp_all add: same_key_def)
  then show ?thesis using Some by (simp add: finish_notification_def Let_def del: wf_append_None)
qed (simp add: finish_notification_def assms)

lemma requeue_notification_inv:
  assumes "queue_inv st"
  shows "queue_inv (fst (requeue_notification i now st))"
proof (cases "find_item (\<lambda>w. w_id w = i \<and> w_kind w = Notification \<and> w_status w = Dead) st")
  case (Some w)
  then have w: "w \<in> set (wf_items st)" "w_kind w = Notification" "w_status w = Dead" by (auto dest: find_item_Some)
  then show ?thesis
    using Some assms inv_item_ok [OF assms(1) w(1)]
    by (auto simp: requeue_notification_def simp del: wf_append_None
        intro!: note_update_inv simp: same_key_def item_ok_def)
qed (simp add: requeue_notification_def assms)

lemma reserve_inv:
  assumes "reserve r c t cid now risk st = Ok (st', x)" "queue_inv st" "unused cid st" "entry_of (rq_signal_id r) st = None"
  shows "queue_inv st'"
proof -
  obtain e s where es: "rq_entry_price r = Some e" "rq_stop_loss r = Some s"
    using assms(1) by (auto simp: reserve_def split: option.splits)
  have s0: "submissions cid st = 0"
    using assms(3) by (auto simp: unused_def submissions_def list_all_iff filter_empty_conv)
  have "\<forall>w \<in> set (wf_items st). item_key w \<noteq> (Entry, [FInt (rq_signal_id r)])"
    using assms(4) by (auto simp: entry_of_def find_item_def find_None_iff item_key_def)
  then have "table_inv (wf_items st @ [\<lparr>w_id = cid, w_sequence = wf_next st, w_dedup = [FInt (rq_signal_id r)],
      w_kind = Entry, w_status = Queued, w_payload = EntryPayload (r\<lparr>rq_client_order_id := Some cid\<rparr>) t,
      w_result = NoResult, w_attempts = 0, w_token = None, w_lease_until = None, w_available_at = now,
      w_created_at = now\<rparr>]) (Suc (wf_next st)) (\<lambda>i. submissions i st)"
    using assms(2,3) s0 by (intro table_add [of _ "wf_next st"]) (auto simp: queue_inv_def unused_def list_all_iff active_def item_ok_def item_key_def)
  then show ?thesis
    using assms(1) es by (auto simp: reserve_def Let_def queue_inv_def table_ops submissions_def)
qed

text \<open>An enqueued entry: the original item, a refusal, or a reservation that admission let through.\<close>

lemma enqueue_cases:
  assumes "enqueue_entry r c t fresh now st = Ok (st', x)" "entry_of (rq_signal_id r) st = None"
  shows "(st' = st \<and> fst x = None) \<or> (st' = audit ''entry_admission_rejected'' (rq_signal_id r) st \<and> fst x = None)
    \<or> (\<exists>risk. reserve r c t (command_id fresh) now risk st = Ok (st', x)
         \<and> \<not> trading_halted st \<and> \<not> unresolved_cancellation st
         \<and> (\<exists>s. find_signal (\<lambda>s. sg_id s = rq_signal_id r) st = Some s \<and> sg_status s = ''PENDING'')
         \<and> \<not> list_ex (\<lambda>c. cr_symbol c = rq_symbol r \<and> cr_status c \<in> set ACTIVE_CLOSE_STATUSES) (wf_closes st)
         \<and> entry_risk c now st = Ok risk
         \<and> reservation_rejection r (reservations None st) c
              (case risk of Some k \<Rightarrow> float_of_dec (ar_drawdown_pct k) | None \<Rightarrow> 0)
              (map_option (\<lambda>k. float_of_dec (ar_equity k)) risk) None = Ok None)"
proof -
  obtain s where s: "(st' = st \<and> fst x = None) \<or> (\<not> trading_halted st \<and> \<not> unresolved_cancellation st
      \<and> find_signal (\<lambda>s. sg_id s = rq_signal_id r) st = Some s
      \<and> sg_status s = ''PENDING'' \<and> alpha_entry_rejection (wf_alpha st) now (sg_alpha s) = None)"
    using assms by (auto simp: enqueue_entry_def Let_def split: if_split_asm option.split_asm)
  then show ?thesis
  proof
    assume s: "\<not> trading_halted st \<and> \<not> unresolved_cancellation st
      \<and> find_signal (\<lambda>s. sg_id s = rq_signal_id r) st = Some s
      \<and> sg_status s = ''PENDING'' \<and> alpha_entry_rejection (wf_alpha st) now (sg_alpha s) = None"
    show ?thesis
    proof (cases "entry_risk c now st")
      case (Inl e)
      then show ?thesis using assms s
        by (cases e) (auto simp: enqueue_entry_def Let_def catch_value_def split: if_split_asm)
    next
      case (Inr risk)
      let ?v = "reservation_rejection r (reservations None st) c
        (case risk of Some k \<Rightarrow> float_of_dec (ar_drawdown_pct k) | None \<Rightarrow> 0)
        (map_option (\<lambda>k. float_of_dec (ar_equity k)) risk) None"
      have eq: "enqueue_entry r c t fresh now st = (if list_ex (\<lambda>c. cr_symbol c = rq_symbol r
            \<and> cr_status c \<in> set ACTIVE_CLOSE_STATUSES) (wf_closes st)
          then Ok (st, None, msg ''Symbol has an unresolved close request.'')
          else bindr ?v (\<lambda>verdict. case verdict of
             Some t \<Rightarrow> Ok (audit ''entry_admission_rejected'' (rq_signal_id r) st, None, t)
           | None \<Rightarrow> reserve r c t (command_id fresh) now risk st))"
        using s assms(2) Inr by (simp add: enqueue_entry_def Let_def)
      show ?thesis
        using assms(1) [unfolded eq] s Inr
        by (cases ?v) (auto split: if_split_asm option.split_asm)
    qed
  qed simp
qed

lemma enqueue_inv:
  assumes "enqueue_entry r c t fresh now st = Ok (st', x)" "queue_inv st" "unused (command_id fresh) st"
  shows "queue_inv st'"
proof (cases "entry_of (rq_signal_id r) st")
  case None
  have "queue_inv (audit k i st)" for k i using assms(2) by (simp add: record_audit_def)
  moreover obtain a b where "x = (a, b)" by force
  ultimately show ?thesis using enqueue_cases [OF assms(1) None] assms(2) reserve_inv [OF _ assms(2,3) None] by blast
qed (use assms in \<open>auto simp: enqueue_entry_def Let_def\<close>)

lemma submission_check_row:
  assumes "submission_check fingerprint item c fp x clock st = Ok (Inr (row, req, risk, cap))"
  shows "row \<in> set (wf_items st) \<and> w_id row = w_id item \<and> w_status row = Checking \<and> w_token row = w_token item
    \<and> (\<exists>t. w_lease_until row = Some t \<and> clock 0 < t \<and> clock 3 < t) \<and> item_request item = Some req
    \<and> \<not> trading_halted st \<and> \<not> unresolved_cancellation st"
proof -
  obtain r where r: "find_item (\<lambda>w. w_id w = w_id item \<and> w_status w = Checking \<and> w_token w = w_token item
      \<and> (case w_lease_until w of None \<Rightarrow> False | Some t \<Rightarrow> t > clock 0)) st = Some r"
    using assms by (auto simp: submission_check_def Let_def split: if_split_asm option.split_asm)
  show ?thesis
    using assms find_item_Some [OF r] r
    by (auto simp: submission_check_def Let_def catch_value_Inr_iff bindr_Inr_iff
        split: if_split_asm option.split_asm)
qed

lemma begin_submission_cases:
  assumes "begin_submission fingerprint item c fp x clock st = Ok (st', y)"
  shows "(st' = st \<and> y \<noteq> None) \<or> (\<exists>row req risk cap payload.
      y = None \<and> submission_check fingerprint item c fp x clock st = Ok (Inr (row, req, risk, cap))
      \<and> st' = audit ''entry_submission'' (rq_signal_id req) (appended (entry_stream (w_id row)) ''entry_submitting'' payload
                (update_item (w_id row) (\<lambda>_. row\<lparr>w_status := Submitting, w_lease_until := None\<rparr>) st)))"
proof (cases "submission_check fingerprint item c fp x clock st")
  case (Inr outcome)
  show ?thesis
  proof (cases outcome)
    case (Inl t)
    then show ?thesis using assms Inr by (auto simp: begin_submission_def)
  next
    case ok: (Inr q)
    obtain row req risk cap where q: "q = (row, req, risk, cap)" by (cases q) auto
    show ?thesis
      using assms Inr ok unfolding q begin_submission_def
      by (auto simp: bindr_Inr_iff Let_def simp del: wf_append_None)
  qed
qed (use assms in \<open>simp add: begin_submission_def\<close>)

lemma begin_submission_inv:
  assumes "begin_submission fingerprint item c fp x clock st = Ok (st', y)" "queue_inv st"
  shows "queue_inv st'"
proof -
  consider "st' = st" | row req risk cap payload where
      "submission_check fingerprint item c fp x clock st = Ok (Inr (row, req, risk, cap))"
      "st' = audit ''entry_submission'' (rq_signal_id req) (appended (entry_stream (w_id row)) ''entry_submitting'' payload
                (update_item (w_id row) (\<lambda>_. row\<lparr>w_status := Submitting, w_lease_until := None\<rparr>) st))"
    using begin_submission_cases [OF assms(1)] by blast
  then show ?thesis
  proof cases
    case 2
    let ?row = "row\<lparr>w_status := Submitting, w_lease_until := None\<rparr>"
    note row = submission_check_row [OF 2(1)]
    have zero: "submissions (w_id row) st = 0" using inv_item_ok [OF assms(2), of row] row by (simp add: item_ok_def)
    have "table_inv (map (\<lambda>w. if w_id w = w_id row then ?row else w) (wf_items st)) (Suc (wf_next st))
        (\<lambda>i. submissions i st + (if i = w_id row then 1 else 0))"
    proof (rule table_update [OF assms(2) [unfolded queue_inv_def]])
      show "active ?row \<longrightarrow> (\<forall>v \<in> set (wf_items st). blocking_entry v \<longrightarrow> w_sequence row \<le> w_sequence v)"
        using active_first [OF assms(2)] row by (simp add: active_def)
    qed (use row zero in \<open>auto simp: same_key_def blocking_entry_def ENTRY_BLOCKING_def item_ok_def\<close>)
    moreover have "submissions i st' = submissions i st + (if i = w_id row then 1 else 0)" for i
      by (simp add: 2(2) update_item_def record_audit_def submissions_def)
    moreover have "wf_items st' = map (\<lambda>w. if w_id w = w_id row then ?row else w) (wf_items st)"
      "wf_next st' = Suc (wf_next st)" by (simp_all add: 2(2) update_item_def record_audit_def)
    ultimately show ?thesis by (simp add: queue_inv_def)
  qed (simp add: assms)
qed

lemma settle_signal_frame [simp]:
  "wf_items (settle_signal sid r st) = wf_items st" "wf_events (settle_signal sid r st) = wf_events st"
  "wf_next (settle_signal sid r st) = wf_next st" "wf_halted (settle_signal sid r st) = wf_halted st"
  by (auto simp: settle_signal_def update_signal_def split: option.splits)

lemma queue_inv_cong:
  "wf_items s = wf_items t \<Longrightarrow> wf_events s = wf_events t \<Longrightarrow> wf_next s = wf_next t \<Longrightarrow> queue_inv s = queue_inv t"
  by (simp add: queue_inv_def submissions_def)

lemma resolve_inv:
  assumes "queue_inv st" "recovery \<or> w_token item \<noteq> None" "unused fresh st"
  shows "queue_inv (fst (resolve_entry et_date item res recovery fresh now st))"
proof (cases "find_item (\<lambda>w. w_id w = w_id item \<and> w_status w \<in> set ENTRY_BLOCKING) st")
  case (Some row)
  then have row: "row \<in> set (wf_items st)" "w_id row = w_id item" "w_status row \<in> set ENTRY_BLOCKING"
    by (auto dest: find_item_Some)
  show ?thesis
  proof (cases "\<not> recovery \<and> w_token row \<noteq> w_token item \<or> recovery \<and> w_status row \<notin> {Submitting, Unknown}")
    case True
    then show ?thesis using Some assms(1) by (auto simp: resolve_entry_def)
  next
    case False
    let ?row = "row\<lparr>w_status := resolved_status res, w_result := EntryResult res\<rparr>"
    define st1 where "st1 = update_item (w_id row) (\<lambda>_. ?row) st"
    define st3 where "st3 = (if resolved_status res = Unknown
      then audit ''entry_submission_unknown'' (case item_request item of Some r \<Rightarrow> rq_signal_id r | None \<Rightarrow> 0)
        (halt [Lit ''Unconfirmed broker entry '', Lit (w_id item), Lit ''; lookup recovery required before /resume'']
          st1)
      else settle_signal (case item_request item of Some r \<Rightarrow> rq_signal_id r | None \<Rightarrow> 0) res st1)"
    define st4 where "st4 = appended (entry_stream (w_id row)) ''entry_resolved'' (PResolved (resolved_status res) recovery) st3"
    have act: "w_kind row = Entry \<longrightarrow> active row"
      using False assms(2) row inv_item_ok [OF assms(1) row(1)]
      by (auto simp: active_def item_ok_def ENTRY_BLOCKING_def)
    have "queue_inv st1" unfolding st1_def
    proof (rule queue_inv_update [OF assms(1) row(1)])
      show "active ?row \<longrightarrow> (\<forall>v \<in> set (wf_items st). blocking_entry v \<longrightarrow> w_sequence row \<le> w_sequence v)"
        using act active_first [OF assms(1) row(1)] by (auto simp: active_def)
    qed (use row inv_item_ok [OF assms(1) row(1)] in
        \<open>auto simp: same_key_def blocking_entry_def item_ok_def resolved_status_def\<close>)
    moreover have frame: "wf_items st3 = wf_items st1" "wf_events st3 = wf_events st1" "wf_next st3 = wf_next st1"
      by (auto simp: st3_def record_audit_def halt_def)
    ultimately have "queue_inv st4"
      unfolding st4_def by (intro queue_inv_append) (simp_all add: queue_inv_cong [OF frame])
    moreover have "unused fresh st4"
      using assms(3) row(1) frame
      by (auto simp: unused_def st4_def st1_def update_item_def list_all_iff entry_stream_def)
    ultimately have "queue_inv (notify k kd a fresh now st4)" for k kd a by (rule notify_inv)
    moreover have "\<exists>k kd a. fst (resolve_entry et_date item res recovery fresh now st) \<in> {st4, notify k kd a fresh now st4}"
      using Some False
      by (auto simp: resolve_entry_def Let_def st4_def st3_def st1_def simp del: wf_append_None)
    ultimately show ?thesis using \<open>queue_inv st4\<close> by auto
  qed
qed (use assms in \<open>simp add: resolve_entry_def\<close>)

lemma wf_trans_inv: "wf_trans fingerprint et_date st st' \<Longrightarrow> queue_inv st \<Longrightarrow> queue_inv st'"
proof (induction rule: wf_trans.induct)
  case (enqueue r c t fresh now st st' x)
  then show ?case using enqueue_inv by blast
next
  case (submit item c fp x clock st st' y)
  then show ?case using begin_submission_inv by blast
qed (auto intro: claim_entry_inv resolve_inv notify_inv claim_notification_inv finish_notification_inv
    requeue_notification_inv simp del: wf_append_None)

end
