(* ===== verification/Order_Views.thy ===== *)
theory Order_Views
  imports Entry_Queue
begin

text \<open>
  The order projection of the workflow store (\<open>observe_orders\<close>, \<open>_project_order\<close>,
  \<open>rebuild_order_views\<close> of \<open>storage/workflow.py\<close>): broker observations from two transports, possibly
  late or repeated, are journaled under the digest of their content and folded into one view per
  order. The digest (SHA-256 of the encoded observation) is a parameter.
\<close>

subsection \<open>Decimals read from wire texts\<close>

text \<open>
  \<open>Decimal(text)\<close> as the code calls it directly: infinities and NaN are values; ordering a NaN
  raises, equality with one is false.
\<close>

datatype xdec = Fin dec | Infinite bool | Not_a_number

definition Decimal :: "wire \<Rightarrow> xdec result" where
  "Decimal w = (case w of
     WDec d \<Rightarrow> Ok (Fin d)
   | WInf s \<Rightarrow> Ok (Infinite s)
   | WNaN \<Rightarrow> Ok Not_a_number
   | WNull \<Rightarrow> Raise (TypeError (msg ''conversion from NoneType to Decimal is not supported''))
   | _ \<Rightarrow> Raise DecimalInvalid)"

fun xless :: "xdec \<Rightarrow> xdec \<Rightarrow> bool result" where
  "xless Not_a_number _ = Raise DecimalInvalid"
| "xless _ Not_a_number = Raise DecimalInvalid"
| "xless (Fin a) (Fin b) = Ok (a < b)"
| "xless (Fin a) (Infinite s) = Ok s"
| "xless (Infinite s) (Fin b) = Ok (\<not> s)"
| "xless (Infinite s) (Infinite t) = Ok (\<not> s \<and> t)"

fun xeq :: "xdec \<Rightarrow> xdec \<Rightarrow> bool" where
  "xeq (Fin a) (Fin b) = (a = b)"
| "xeq (Infinite s) (Infinite t) = (s = t)"
| "xeq _ _ = False"

text \<open>\<open>Decimal(a) == Decimal(b)\<close> and \<open>Decimal(a) == n\<close>.\<close>

definition wire_eq :: "wire \<Rightarrow> wire \<Rightarrow> bool result" where
  "wire_eq a b = bindr (Decimal a) (\<lambda>x. bindr (Decimal b) (\<lambda>y. Ok (xeq x y)))"

definition wire_is :: "wire \<Rightarrow> dec \<Rightarrow> bool result" where
  "wire_is a n = bindr (Decimal a) (\<lambda>x. Ok (xeq x (Fin n)))"

subsection \<open>The projection\<close>

type_synonym order_table = "(string \<times> nat \<times> order_observation) list"

definition set_view :: "string \<Rightarrow> nat \<times> order_observation \<Rightarrow> order_table \<Rightarrow> order_table" where
  "set_view k v views = (if map_of views k = None then views @ [(k, v)] else map (\<lambda>(k', v'). if k' = k then (k', v) else (k', v')) views)"

text \<open>A set identifier: neither absent nor empty.\<close>

definition keep_parent :: "order_observation \<Rightarrow> order_observation \<Rightarrow> order_observation" where
  "keep_parent old new = (if set_text (o_parent_order_id old) \<and> o_parent_order_id new = None
     then new\<lparr>o_parent_order_id := o_parent_order_id old\<rparr> else new)"

definition project_order :: "nat \<Rightarrow> order_observation \<Rightarrow> order_table \<Rightarrow> (order_table \<times> bool) result" where
  "project_order eid obs views = (case map_of views (o_order_id obs) of
     None \<Rightarrow> Ok (set_view (o_order_id obs) (eid, obs) views, True)
   | Some (peid, old) \<Rightarrow>
       if eid \<le> peid \<or> o_updated_at obs < o_updated_at old then Ok (views, False)
       else bindr (Decimal (o_filled_quantity obs)) (\<lambda>f.
            bindr (Decimal (o_filled_quantity old)) (\<lambda>g.
            bindr (xless f g) (\<lambda>fewer.
            if fewer then Ok (views, False)
            else Ok (set_view (o_order_id obs) (eid, keep_parent old obs) views, True)))))"

text \<open>An order event carries its observation; any other payload does not validate.\<close>

definition project_event :: "event \<Rightarrow> order_table \<Rightarrow> (order_table \<times> bool) result" where
  "project_event e views = (case ev_payload e of
     POrder obs \<Rightarrow> project_order (ev_id e) obs views
   | _ \<Rightarrow> Raise (ValueError (msg ''validation error for OrderObservation'')))"

definition BROKER_TERMINAL_STATUSES :: "string list" where
  "BROKER_TERMINAL_STATUSES = [''canceled'', ''rejected'', ''expired'']"

text \<open>An unresolved cancellation of an entry in this instrument.\<close>

definition unresolved_cancellation_on :: "string \<Rightarrow> wf_state \<Rightarrow> bool" where
  "unresolved_cancellation_on symbol st =
     list_ex (\<lambda>w. w_kind w = EntryCancel \<and> w_status w \<in> {Submitting, Unknown}
       \<and> list_ex (\<lambda>s. w_dedup w = [FInt (sg_id s)] \<and> sg_contract (sg_alpha s) = symbol) (wf_signals st)) (wf_items st)"

definition observation_key :: "(order_observation \<Rightarrow> string) \<Rightarrow> order_observation \<Rightarrow> ftext" where
  "observation_key digest obs = [Lit ''order/'', Lit (digest obs)]"

definition order_stream :: "string \<Rightarrow> ftext" where
  "order_stream i = [Lit ''order/'', Lit i]"

definition release_reservation :: "order_observation \<Rightarrow> string \<Rightarrow> string \<Rightarrow> int \<Rightarrow> wf_state \<Rightarrow> wf_state" where
  "release_reservation current order_id fresh now st =
     (case find_signal (\<lambda>s. sg_broker_order_id s = Some order_id \<and> sg_status s = ''EXECUTED'' \<and> sg_executed_at s = None) st of
        None \<Rightarrow> st
      | Some s \<Rightarrow>
          if unresolved_cancellation_on (sg_contract (sg_alpha s)) st then st
          else record_audit ''entry_execution_updated'' (Some (sg_id s))
                 [(''order_id'', order_id), (''status'', o_status current), (''filled_quantity'', ''0'')]
                 (notify [Lit ''signal/'', FInt (sg_id s), Lit ''/entry-terminal''] ''message''
                    [(''text'', [Lit ''Entry #'', FInt (sg_id s), Lit '' ended '', Lit (o_status current),
                       Lit '' without fills. Reservation released; run /scan for a new proposal.''])] fresh now
                    (update_signal (sg_id s) (\<lambda>x. x\<lparr>sg_status := ''FAILED''\<rparr>) st)))"

text \<open>What follows the projection: a terminal view without fills releases the reservation.\<close>

definition after_projection :: "string \<Rightarrow> string \<Rightarrow> int \<Rightarrow> wf_state \<Rightarrow> wf_state result" where
  "after_projection order_id fresh now st = (case map_of (wf_orders st) order_id of
     None \<Rightarrow> Raise AssertionError
   | Some (_, current) \<Rightarrow>
       if o_status current \<in> set BROKER_TERMINAL_STATUSES
       then bindr (wire_is (o_filled_quantity current) 0) (\<lambda>unfilled.
            Ok (if unfilled then release_reservation current order_id fresh now st else st))
       else Ok st)"

definition observe_order ::
  "(order_observation \<Rightarrow> string) \<Rightarrow> string \<Rightarrow> int \<Rightarrow> order_observation \<Rightarrow> wf_state \<Rightarrow> wf_state result" where
  "observe_order digest fresh now obs st =
     (case wf_append (order_stream (o_order_id obs)) ''order_observed'' (POrder obs) (Some (observation_key digest obs)) st of
        (st1, e) \<Rightarrow> bindr (project_event e (wf_orders st1)) (\<lambda>(views, _).
          after_projection (o_order_id obs) fresh now (st1\<lparr>wf_orders := views\<rparr>)))"

text \<open>The loop of one transaction; \<open>fresh i\<close> is the identifier of the \<open>i\<close>-th notification.\<close>

fun observe_orders ::
  "(order_observation \<Rightarrow> string) \<Rightarrow> (nat \<Rightarrow> string) \<Rightarrow> int \<Rightarrow> order_observation list \<Rightarrow> wf_state \<Rightarrow> wf_state result" where
  "observe_orders digest fresh now [] st = Ok st"
| "observe_orders digest fresh now (obs # rest) st =
     bindr (observe_order digest (fresh (length rest)) now obs st) (observe_orders digest fresh now rest)"

fun rebuild_orders :: "order_table \<Rightarrow> event list \<Rightarrow> order_table result" where
  "rebuild_orders views [] = Ok views"
| "rebuild_orders views (e # es) = bindr (project_event e views) (\<lambda>(views', _). rebuild_orders views' es)"

definition order_events :: "wf_state \<Rightarrow> event list" where
  "order_events st = filter (\<lambda>e. ev_kind e = ''order_observed'') (wf_events st)"

definition rebuild_order_views :: "wf_state \<Rightarrow> (wf_state \<times> nat) result" where
  "rebuild_order_views st =
     bindr (rebuild_orders [] (order_events st)) (\<lambda>views.
     Ok (st\<lparr>wf_orders := views\<rparr>, length (order_events st)))"

text \<open>\<open>order_views\<close>: the views ordered by identifier.\<close>

definition order_views :: "wf_state \<Rightarrow> order_observation list" where
  "order_views st = map (\<lambda>(_, _, obs). obs) (sort_key (\<lambda>(k, _). map (of_char :: char \<Rightarrow> nat) k) (wf_orders st))"

subsection \<open>Views only move forward\<close>

lemma map_of_set_view: "map_of (set_view k v views) k' = (if k' = k then Some v else map_of views k')"
proof (cases "map_of views k")
  case None
  then show ?thesis by (simp add: set_view_def map_add_def split: option.split)
next
  case (Some x)
  have "map_of (map (\<lambda>(a, b). if a = k then (a, v) else (a, b)) views) k'
      = (if k' = k then (case map_of views k of None \<Rightarrow> None | Some _ \<Rightarrow> Some v) else map_of views k')"
    by (induction views) auto
  then show ?thesis using Some by (simp add: set_view_def)
qed

lemma xless_chain: "xless f g = Ok False \<Longrightarrow> xless h f = Ok False \<Longrightarrow> xless h g = Ok False"
  by (cases f; cases g; cases h) auto

lemma xless_extend: "xless e g = Ok True \<Longrightarrow> xless f g = Ok False \<Longrightarrow> xless e f = Ok True"
  by (cases f; cases g; cases e) auto

definition filled_le :: "order_observation \<Rightarrow> order_observation \<Rightarrow> bool" where
  "filled_le old new = (o_filled_quantity new = o_filled_quantity old
     \<or> (\<exists>f g. Decimal (o_filled_quantity new) = Ok f \<and> Decimal (o_filled_quantity old) = Ok g \<and> xless f g = Ok False))"

lemma filled_le_trans: "filled_le a b \<Longrightarrow> filled_le b c \<Longrightarrow> filled_le a c"
proof -
  assume ab: "filled_le a b" and bc: "filled_le b c"
  show ?thesis
  proof (cases "o_filled_quantity b = o_filled_quantity a \<or> o_filled_quantity c = o_filled_quantity b")
    case True
    then show ?thesis using ab bc by (auto simp: filled_le_def)
  next
    case False
    then obtain f g h where "Decimal (o_filled_quantity b) = Ok f" "Decimal (o_filled_quantity a) = Ok g" "xless f g = Ok False"
        "Decimal (o_filled_quantity c) = Ok h" "xless h f = Ok False"
      using ab bc by (auto simp: filled_le_def)
    then show ?thesis using xless_chain by (auto simp: filled_le_def)
  qed
qed

text \<open>One view is at least as recent as another.\<close>

definition view_le :: "nat \<times> order_observation \<Rightarrow> nat \<times> order_observation \<Rightarrow> bool" where
  "view_le v v' = (fst v \<le> fst v' \<and> o_order_id (snd v') = o_order_id (snd v) \<and> o_updated_at (snd v) \<le> o_updated_at (snd v')
     \<and> filled_le (snd v) (snd v'))"

definition views_grow :: "order_table \<Rightarrow> order_table \<Rightarrow> bool" where
  "views_grow views views' = (\<forall>k v. map_of views k = Some v \<longrightarrow> (\<exists>v'. map_of views' k = Some v' \<and> view_le v v'))"

definition views_keyed :: "order_table \<Rightarrow> bool" where
  "views_keyed views = (\<forall>k v. map_of views k = Some v \<longrightarrow> o_order_id (snd v) = k)"

lemma view_le_refl [simp]: "view_le v v"
  by (simp add: view_le_def filled_le_def)

lemma view_le_trans: "view_le u v \<Longrightarrow> view_le v w \<Longrightarrow> view_le u w"
  unfolding view_le_def by (auto intro: filled_le_trans)

lemma project_order_cases:
  assumes "project_order eid obs views = Ok (views', moved)"
  shows "(views' = views \<and> \<not> moved \<and> (\<exists>peid old. map_of views (o_order_id obs) = Some (peid, old)
        \<and> (eid \<le> peid \<or> o_updated_at obs < o_updated_at old
           \<or> (\<exists>f g. Decimal (o_filled_quantity obs) = Ok f \<and> Decimal (o_filled_quantity old) = Ok g \<and> xless f g = Ok True))))
    \<or> (moved \<and> map_of views (o_order_id obs) = None \<and> views' = set_view (o_order_id obs) (eid, obs) views)
    \<or> (moved \<and> (\<exists>peid old. map_of views (o_order_id obs) = Some (peid, old) \<and> peid < eid
        \<and> o_updated_at old \<le> o_updated_at obs \<and> filled_le old obs
        \<and> views' = set_view (o_order_id obs) (eid, keep_parent old obs) views))"
proof (cases "map_of views (o_order_id obs)")
  case None
  then show ?thesis using assms by (simp add: project_order_def)
next
  case (Some v)
  obtain peid old where v: "v = (peid, old)" by (cases v)
  show ?thesis
  proof (cases "eid \<le> peid \<or> o_updated_at obs < o_updated_at old")
    case True
    then show ?thesis using assms Some v by (auto simp: project_order_def)
  next
    case False
    then obtain f g fewer where *: "Decimal (o_filled_quantity obs) = Ok f" "Decimal (o_filled_quantity old) = Ok g"
        "xless f g = Ok fewer" "(if fewer then Ok (views, False)
            else Ok (set_view (o_order_id obs) (eid, keep_parent old obs) views, True)) = Ok (views', moved)"
      using assms Some v by (auto simp: project_order_def bindr_Inr_iff)
    show ?thesis
    proof (cases fewer)
      case True
      then show ?thesis using * Some v by auto
    next
      case no: False
      then have "filled_le old obs" using * by (auto simp: filled_le_def)
      then show ?thesis using * no False Some v by auto
    qed
  qed
qed

lemma keep_parent_le:
  assumes "peid < eid" "o_updated_at old \<le> o_updated_at obs" "filled_le old obs" "o_order_id old = o_order_id obs"
  shows "view_le (peid, old) (eid, keep_parent old obs)"
  using assms by (auto simp: view_le_def keep_parent_def filled_le_def)

lemma project_order_grows:
  assumes "project_order eid obs views = Ok (views', moved)" "views_keyed views"
  shows "views_grow views views' \<and> views_keyed views'"
proof -
  consider "views' = views" | "map_of views (o_order_id obs) = None" "views' = set_view (o_order_id obs) (eid, obs) views"
    | peid old where "map_of views (o_order_id obs) = Some (peid, old)" "peid < eid" "o_updated_at old \<le> o_updated_at obs"
        "filled_le old obs" "views' = set_view (o_order_id obs) (eid, keep_parent old obs) views"
    using project_order_cases [OF assms(1)] by (elim disjE exE conjE) simp_all
  then show ?thesis
  proof cases
    case 1
    then show ?thesis using assms(2) by (auto simp: views_grow_def)
  next
    case 2
    then show ?thesis using assms(2) by (auto simp: views_grow_def views_keyed_def map_of_set_view)
  next
    case 3
    then have "o_order_id old = o_order_id obs" using assms(2) by (auto simp: views_keyed_def)
    then have le: "view_le (peid, old) (eid, keep_parent old obs)" using keep_parent_le 3 by blast
    show ?thesis
      using 3 assms(2) le by (auto simp: views_grow_def views_keyed_def map_of_set_view keep_parent_def)
  qed
qed

lemma views_grow_refl [simp]: "views_grow v v"
  by (simp add: views_grow_def)

lemma views_grow_trans: "views_grow u v \<Longrightarrow> views_grow v w \<Longrightarrow> views_grow u w"
  unfolding views_grow_def by (meson view_le_trans)

subsection \<open>Repeated observations\<close>

text \<open>An order event the views have taken account of: observing it again changes nothing.\<close>

definition settled :: "order_table \<Rightarrow> nat \<Rightarrow> order_observation \<Rightarrow> bool" where
  "settled views eid obs = (\<exists>peid old. map_of views (o_order_id obs) = Some (peid, old)
     \<and> (eid \<le> peid \<or> o_updated_at obs < o_updated_at old
        \<or> (\<exists>f g. Decimal (o_filled_quantity obs) = Ok f \<and> Decimal (o_filled_quantity old) = Ok g \<and> xless f g = Ok True)))"

lemma settled_project: "settled views eid obs \<Longrightarrow> project_order eid obs views = Ok (views, False)"
  by (auto simp: settled_def project_order_def)

lemma project_settled:
  assumes "project_order eid obs views = Ok (views', moved)"
  shows "settled views' eid obs"
  using project_order_cases [OF assms] by (auto simp: settled_def map_of_set_view keep_parent_def)

lemma settled_grow:
  assumes "settled views eid obs" "views_grow views views'"
  shows "settled views' eid obs"
proof -
  obtain peid old where old: "map_of views (o_order_id obs) = Some (peid, old)"
    and dom: "eid \<le> peid \<or> o_updated_at obs < o_updated_at old
        \<or> (\<exists>f g. Decimal (o_filled_quantity obs) = Ok f \<and> Decimal (o_filled_quantity old) = Ok g \<and> xless f g = Ok True)"
    using assms(1) by (auto simp: settled_def)
  obtain p new where new: "map_of views' (o_order_id obs) = Some (p, new)" "view_le (peid, old) (p, new)"
    using assms(2) old by (fastforce simp: views_grow_def)
  from dom have "eid \<le> p \<or> o_updated_at obs < o_updated_at new
        \<or> (\<exists>f g. Decimal (o_filled_quantity obs) = Ok f \<and> Decimal (o_filled_quantity new) = Ok g \<and> xless f g = Ok True)"
  proof (elim disjE exE conjE)
    fix f g assume f: "Decimal (o_filled_quantity obs) = Ok f" "Decimal (o_filled_quantity old) = Ok g" "xless f g = Ok True"
    have "filled_le old new" using new(2) by (simp add: view_le_def)
    then have "\<exists>h. Decimal (o_filled_quantity new) = Ok h \<and> xless f h = Ok True"
      unfolding filled_le_def
    proof
      assume "o_filled_quantity new = o_filled_quantity old"
      then show ?thesis using f by simp
    next
      assume "\<exists>h g. Decimal (o_filled_quantity new) = Ok h \<and> Decimal (o_filled_quantity old) = Ok g \<and> xless h g = Ok False"
      then obtain h where "Decimal (o_filled_quantity new) = Ok h" "xless h g = Ok False" using f(2) by auto
      then show ?thesis using xless_extend [OF f(3)] by simp
    qed
    then show ?thesis using f(1) by blast
  qed (use new(2) in \<open>simp_all add: view_le_def\<close>)
  then show ?thesis using new(1) unfolding settled_def by blast
qed
subsection \<open>The journal determines the views\<close>

definition order_key :: "ftext option \<Rightarrow> bool" where
  "order_key k = (\<exists>d. k = Some [Lit ''order/'', Lit d])"

text \<open>Every other operation: it leaves the views alone and journals no order event under an order key.\<close>

definition foreign_event :: "nat \<Rightarrow> event \<Rightarrow> bool" where
  "foreign_event n e = (ev_id e < n \<and> ev_kind e \<noteq> ''order_observed'' \<and> \<not> order_key (ev_key e))"

definition order_frame :: "wf_state \<Rightarrow> wf_state \<Rightarrow> bool" where
  "order_frame st st' = (wf_orders st' = wf_orders st \<and> wf_next st \<le> wf_next st'
     \<and> (\<exists>es. wf_events st' = wf_events st @ es \<and> list_all (foreign_event (wf_next st')) es))"

inductive order_trans :: "(order_observation \<Rightarrow> string) \<Rightarrow> wf_state \<Rightarrow> wf_state \<Rightarrow> bool" for digest where
  observe: "observe_order digest fresh now obs st = Ok st' \<Longrightarrow> order_trans digest st st'"
| frame: "order_frame st st' \<Longrightarrow> order_trans digest st st'"

definition event_ok :: "order_table \<Rightarrow> nat \<Rightarrow> event \<Rightarrow> bool" where
  "event_ok views n e = (ev_id e < n
     \<and> (ev_kind e = ''order_observed'' \<longrightarrow> (\<exists>obs. ev_payload e = POrder obs \<and> settled views (ev_id e) obs))
     \<and> (order_key (ev_key e) \<longrightarrow> ev_kind e = ''order_observed''))"

definition order_inv :: "wf_state \<Rightarrow> bool" where
  "order_inv st = (views_keyed (wf_orders st) \<and> list_all (event_ok (wf_orders st) (wf_next st)) (wf_events st))"

definition apply_view :: "order_table \<Rightarrow> event \<Rightarrow> order_table" where
  "apply_view views e = (case project_event e views of Inr (views', _) \<Rightarrow> views' | Inl _ \<Rightarrow> views)"

lemma event_ok_grow: "event_ok views n e \<Longrightarrow> views_grow views views' \<Longrightarrow> n \<le> n' \<Longrightarrow> event_ok views' n' e"
  by (auto simp: event_ok_def intro: settled_grow)

lemma order_frame_refl [simp]: "order_frame st st"
  by (simp add: order_frame_def)

lemma order_frame_trans: "order_frame s t \<Longrightarrow> order_frame t u \<Longrightarrow> order_frame s u"
  unfolding order_frame_def foreign_event_def list_all_iff by fastforce

lemma order_frame_inv:
  assumes "order_frame st st'" "order_inv st"
  shows "order_inv st' \<and> order_events st' = order_events st"
proof -
  obtain es where es: "wf_events st' = wf_events st @ es" "list_all (foreign_event (wf_next st')) es"
    and frame: "wf_orders st' = wf_orders st" "wf_next st \<le> wf_next st'"
    using assms(1) by (auto simp: order_frame_def)
  have "event_ok (wf_orders st) (wf_next st') e" if "e \<in> set es" for e
    using es(2) that by (auto simp: event_ok_def foreign_event_def list_all_iff)
  then have "order_inv st'"
    using assms(2) es(1) frame event_ok_grow [OF _ views_grow_refl] by (auto simp: order_inv_def list_all_iff)
  then show ?thesis using es by (auto simp: order_events_def foreign_event_def list_all_iff filter_empty_conv)
qed

lemma order_frame_appends:
  assumes "order_frame s t" "wf_orders u = wf_orders t" "wf_next t \<le> wf_next u" "wf_events u = wf_events t @ es"
    "list_all (foreign_event (wf_next u)) es"
  shows "order_frame s u"
  using assms by (intro order_frame_trans [OF assms(1)]) (auto simp: order_frame_def)

text \<open>The operations that preserve the frame, as introduction rules.\<close>

lemma order_frame_update_signal: "order_frame s t \<Longrightarrow> order_frame s (update_signal j f t)"
  by (erule order_frame_appends [where es = "[]"]) (simp_all add: update_signal_def)

lemma order_frame_update_item: "order_frame s t \<Longrightarrow> order_frame s (update_item j g t)"
  by (erule order_frame_appends [where es = "[]"]) (simp_all add: update_item_def)

lemma order_frame_add_item: "order_frame s t \<Longrightarrow> order_frame s (add_item w t)"
  by (erule order_frame_appends [where es = "[]"]) (simp_all add: add_item_def)

lemma order_frame_audit: "order_frame s t \<Longrightarrow> order_frame s (record_audit k i e t)"
  by (erule order_frame_appends [where es = "[]"]) (simp_all add: record_audit_def)

lemma order_frame_halt: "order_frame s t \<Longrightarrow> order_frame s (halt why t)"
  by (erule order_frame_appends [where es = "[]"]) (simp_all add: halt_def)

lemma order_frame_closes: "order_frame s t \<Longrightarrow> order_frame s (t\<lparr>wf_closes := cs\<rparr>)"
  by (erule order_frame_appends [where es = "[]"]) simp_all

lemma order_frame_append:
  assumes "order_frame s t" "kind \<noteq> ''order_observed''" "\<not> order_key key"
  shows "order_frame s (fst (wf_append stream kind payload key t))"
proof (cases "\<exists>k e. key = Some k \<and> event_by_key t k = Some e")
  case True
  then show ?thesis using assms(1) by (auto simp: wf_append_def)
next
  case False
  then have "wf_append stream kind payload key t = append_new stream kind payload key t"
    by (auto simp: wf_append_def split: option.split)
  then show ?thesis
    using assms by (intro order_frame_appends [OF assms(1)]) (auto simp: append_new_def Let_def foreign_event_def)
qed

lemma order_frame_notify: "order_frame s t \<Longrightarrow> order_frame s (notify key kind args fresh now t)"
  by (auto simp: add_notification_def order_key_def add_item_def foreign_event_def elim!: order_frame_appends split: option.split)

lemmas order_frame_intros = order_frame_refl order_frame_update_signal order_frame_update_item order_frame_add_item
  order_frame_audit order_frame_halt order_frame_closes order_frame_append order_frame_notify

lemma release_frame: "order_frame st (release_reservation current i fresh now st)"
  unfolding release_reservation_def by (auto split: option.split intro!: order_frame_intros)

lemma after_projection_frame: "after_projection i fresh now st = Ok st' \<Longrightarrow> order_frame st st'"
  by (auto simp: after_projection_def bindr_Inr_iff release_frame split: option.split_asm if_split_asm)

lemma rebuild_orders_foldl:
  assumes "rebuild_orders views es = Ok views'" shows "views' = foldl apply_view views es"
  using assms by (induction es arbitrary: views) (auto simp: bindr_Inr_iff apply_view_def)

lemma rebuild_orders_append:
  "rebuild_orders views (es @ fs) = bindr (rebuild_orders views es) (\<lambda>views'. rebuild_orders views' fs)"
proof (induction es arbitrary: views)
  case (Cons e es)
  then show ?case by (cases "project_event e views") auto
qed simp

lemma observed_event:
  assumes "wf_append (order_stream (o_order_id obs)) ''order_observed'' (POrder obs) (Some (observation_key digest obs)) st = (st1, e)"
    and "order_inv st" and "project_event e (wf_orders st1) = Ok (views, moved)"
  shows "order_inv (st1\<lparr>wf_orders := views\<rparr>) \<and> views_grow (wf_orders st) views
    \<and> (\<exists>es. order_events (st1\<lparr>wf_orders := views\<rparr>) = order_events st @ es \<and> rebuild_orders (wf_orders st) es = Ok views)"
proof (cases "event_by_key st (observation_key digest obs)")
  case (Some old)
  then have e: "st1 = st" "e = old" using assms(1) by (simp_all add: wf_append_def)
  have "old \<in> set (wf_events st)" "order_key (ev_key old)"
    using Some by (auto simp: event_by_key_def observation_key_def order_key_def dest!: find_Some_props)
  then obtain o' where "ev_payload old = POrder o'" "settled (wf_orders st) (ev_id old) o'"
    using assms(2) by (auto simp: order_inv_def event_ok_def list_all_iff)
  then have "views = wf_orders st" using assms(3) e by (simp add: project_event_def settled_project)
  then show ?thesis using assms(2) e by (auto intro!: exI [of _ "[]"])
next
  case None
  let ?e = "\<lparr>ev_id = wf_next st, ev_stream = order_stream (o_order_id obs), ev_kind = ''order_observed'',
      ev_key = Some (observation_key digest obs), ev_payload = POrder obs\<rparr>"
  have e: "e = ?e" "st1 = st\<lparr>wf_events := wf_events st @ [?e], wf_next := Suc (wf_next st)\<rparr>"
    using None assms(1) by (auto simp: wf_append_def append_new_def Let_def)
  have p: "project_order (wf_next st) obs (wf_orders st) = Ok (views, moved)"
    using assms(3) e by (simp add: project_event_def)
  have g: "views_grow (wf_orders st) views" "views_keyed views"
    using project_order_grows [OF p] assms(2) by (auto simp: order_inv_def)
  have "event_ok views (Suc (wf_next st)) ?e" using project_settled [OF p] by (simp add: event_ok_def)
  then have "order_inv (st1\<lparr>wf_orders := views\<rparr>)"
    using assms(2) g event_ok_grow [OF _ g(1), of "wf_next st" _ "Suc (wf_next st)"] e by (auto simp: order_inv_def list_all_iff)
  then show ?thesis
    using g e p by (auto simp: order_events_def apply_view_def project_event_def intro!: exI [of _ "[?e]"])
qed

lemma observe_order_step:
  assumes "observe_order digest fresh now obs st = Ok st'" "order_inv st"
  shows "order_inv st' \<and> views_grow (wf_orders st) (wf_orders st')
    \<and> (\<exists>es. order_events st' = order_events st @ es \<and> rebuild_orders (wf_orders st) es = Ok (wf_orders st'))"
proof -
  obtain st1 e views moved where a: "wf_append (order_stream (o_order_id obs)) ''order_observed'' (POrder obs)
        (Some (observation_key digest obs)) st = (st1, e)" and p: "project_event e (wf_orders st1) = Ok (views, moved)"
    and st': "after_projection (o_order_id obs) fresh now (st1\<lparr>wf_orders := views\<rparr>) = Ok st'"
    using assms(1) by (auto simp: observe_order_def bindr_Inr_iff split: prod.split_asm)
  note s = observed_event [OF a assms(2) p]
  have f: "order_frame (st1\<lparr>wf_orders := views\<rparr>) st'" using st' by (rule after_projection_frame)
  moreover have "wf_orders st' = views" using f by (simp add: order_frame_def)
  ultimately show ?thesis using s order_frame_inv [OF f] by auto
qed

lemma order_trans_step:
  assumes "order_trans digest st st'" "order_inv st"
  shows "order_inv st' \<and> views_grow (wf_orders st) (wf_orders st')
    \<and> (\<exists>es. order_events st' = order_events st @ es \<and> rebuild_orders (wf_orders st) es = Ok (wf_orders st'))"
  using assms
proof cases
  case (observe fresh now obs)
  then show ?thesis using observe_order_step assms(2) by blast
next
  case frame
  then show ?thesis using order_frame_inv [OF frame assms(2)] by (auto simp: order_frame_def)
qed

interpretation order_log: event_sourced order_events wf_orders apply_view "[]" order_inv "order_trans digest"
  using order_trans_step rebuild_orders_foldl by unfold_locales blast+

lemma order_run:
  assumes "(order_trans digest)\<^sup>*\<^sup>* s t" "order_inv s" "rebuild_orders [] (order_events s) = Ok (wf_orders s)"
  shows "order_inv t \<and> views_grow (wf_orders s) (wf_orders t) \<and> rebuild_orders [] (order_events t) = Ok (wf_orders t)"
  using assms
proof (induction rule: rtranclp_induct)
  case (step t u)
  then show ?case using order_trans_step [OF step.hyps(2)] views_grow_trans by (fastforce simp: rebuild_orders_append)
qed simp


end
