(* ===== verification/Freshness.thy ===== *)
theory Freshness
  imports Account_Risk Risk_Rules Lifetime_Policy
begin

text \<open>
  The judgement of a card at tap time and the expiry sweep's rule (\<open>execution/freshness.py\<close>). The
  New York wall clock \<open>ny\<close> and \<open>datetime.fromisoformat\<close> (\<open>fromiso\<close>, \<open>None\<close> for an unreadable text) are
  parameters; two times of one zone are compared, and subtracted, by their wall clocks.
\<close>

subsection \<open>Expiry\<close>

definition parse_valid_until :: "(string \<Rightarrow> stamp option) \<Rightarrow> json option \<Rightarrow> int option" where
  "parse_valid_until fromiso raw = (case raw of
     Some (JStr s) \<Rightarrow>
       (if s = [] then None
        else case fromiso s of Some (Aware t) \<Rightarrow> Some t | _ \<Rightarrow> None)
   | _ \<Rightarrow> None)"

definition valid_until_from_provenance :: "(string \<Rightarrow> stamp option) \<Rightarrow> json \<Rightarrow> int option" where
  "valid_until_from_provenance fromiso provenance =
     parse_valid_until fromiso (case provenance of JObj obj \<Rightarrow> map_of obj ''valid_until'' | _ \<Rightarrow> None)"

definition card_session_over :: "(int \<Rightarrow> int) \<Rightarrow> int \<Rightarrow> int option \<Rightarrow> int \<Rightarrow> bool" where
  "card_session_over ny issued_at valid_until now = (case valid_until of
     Some t \<Rightarrow> ny now \<ge> ny t
   | None \<Rightarrow> wall_date (ny issued_at) \<noteq> wall_date (ny now))"

definition card_is_stale :: "(int \<Rightarrow> int) \<Rightarrow> (string \<Rightarrow> stamp option) \<Rightarrow> int \<Rightarrow> json \<Rightarrow> int \<Rightarrow> bool" where
  "card_is_stale ny fromiso issued_at provenance now =
     card_session_over ny issued_at (valid_until_from_provenance fromiso provenance) now"

subsection \<open>The assessment\<close>

datatype card_outcome = Execute | Reprice | Missed | Expired | Waiting

definition SESSION_CLOSE :: string where "SESSION_CLOSE = ''session_close''"
definition NEXT_SESSION_CLOSE :: string where "NEXT_SESSION_CLOSE = ''next_session_close''"

definition effective_validity :: "string \<Rightarrow> string \<Rightarrow> bool \<Rightarrow> bool \<Rightarrow> bool \<Rightarrow> string" where
  "effective_validity validity asset_class policy_locked probe drift =
     (if upper asset_class = EQUITY \<and> \<not> (policy_locked \<or> probe \<or> drift) then validity else SESSION_CLOSE)"

record card_assessment =
  ca_outcome :: card_outcome
  ca_reason :: ftext
  ca_r_consumed :: "pyfloat option"
  ca_age_seconds :: pyfloat
  ca_price :: "pyfloat option"

record freshness_policy =
  fp_fresh_seconds :: pyfloat
  fp_fresh_max_r :: pyfloat
  fp_reprice_min_risk_fraction :: pyfloat

record tapped_card =
  tc_direction :: string
  tc_entry :: pyfloat
  tc_stop :: pyfloat
  tc_target :: pyfloat
  tc_issued_at :: int
  tc_valid_until :: "int option"
  tc_validity :: string

record tap_reads =
  tr_now :: int
  tr_price :: pyfloat
  tr_session_open :: bool
  tr_gate_reason :: "ftext option"
  tr_min_reward_risk :: pyfloat

text \<open>The sign as Python multiplies it: the integers one and minus one.\<close>

definition card_sign :: "tapped_card \<Rightarrow> pyfloat" where
  "card_sign c = (if tc_direction c = LONG then 1 else - 1)"

text \<open>Price at or through a level, on the card's side; a direction that is neither never is.\<close>

definition through_stop :: "tapped_card \<Rightarrow> pyfloat \<Rightarrow> bool" where
  "through_stop c price = (tc_direction c = LONG \<and> price \<le> tc_stop c \<or> tc_direction c = SHORT \<and> price \<ge> tc_stop c)"

definition through_target :: "tapped_card \<Rightarrow> pyfloat \<Rightarrow> bool" where
  "through_target c price = (tc_direction c = LONG \<and> price \<ge> tc_target c \<or> tc_direction c = SHORT \<and> price \<le> tc_target c)"

definition assess_price :: "tapped_card \<Rightarrow> tap_reads \<Rightarrow> freshness_policy \<Rightarrow> pyfloat \<Rightarrow> card_assessment result" where
  "assess_price c r policy age =
     (let price = tr_price r; sign = card_sign c; risk = \<bar>tc_entry c - tc_stop c\<bar>;
          verdict = (\<lambda>out why consumed. Ok \<lparr>ca_outcome = out, ca_reason = why, ca_r_consumed = consumed,
                       ca_age_seconds = age, ca_price = Some price\<rparr>)
      in if risk \<le> 0 then verdict Missed (msg ''Missed: the card's entry and stop coincide.'') None
         else bindr (fdiv (sign * (price - tc_entry c)) risk) (\<lambda>consumed.
           if through_stop c price
           then verdict Missed [Lit ''Missed: price '', FFloat ''.2f'' price, Lit '' is at or through the stop at '',
                  FFloat ''.2f'' (tc_stop c), Lit ''.''] (Some consumed)
           else if through_target c price
           then verdict Missed [Lit ''Missed: price '', FFloat ''.2f'' price, Lit '' is at or through the target at '',
                  FFloat ''.2f'' (tc_target c), Lit ''.''] (Some consumed)
           else let remaining_risk = sign * (price - tc_stop c)
             in if remaining_risk < fp_reprice_min_risk_fraction policy * risk
                then verdict Missed (msg ''Too close to the stop.'') (Some consumed)
                else case tr_gate_reason r of
                  Some why \<Rightarrow> verdict Missed why (Some consumed)
                | None \<Rightarrow>
                    if age \<le> fp_fresh_seconds policy \<and> \<bar>consumed\<bar> \<le> fp_fresh_max_r policy
                    then verdict Execute [Lit ''Fresh: '', FFloat ''.0f'' age, Lit ''s old, '', FFloat ''+.2f'' consumed,
                           Lit ''R since the card.''] (Some consumed)
                    else let reward_remaining = sign * (tc_target c - price)
                      in if \<not> meets_min_reward_risk reward_remaining remaining_risk (tr_min_reward_risk r)
                         then bindr (fdiv reward_remaining remaining_risk) (\<lambda>actual.
                              verdict Missed [Lit ''Missed: reward:risk at '', FFloat ''.2f'' price, Lit '' would be '',
                                FFloat ''.2f'' actual, Lit '' < '', FFloat ''.2f'' (tr_min_reward_risk r), Lit ''.''] (Some consumed))
                         else verdict Reprice [Lit ''Re-priced at '', FFloat ''.2f'' price, Lit '': '', FFloat ''+.2f'' consumed,
                                Lit ''R since the card.''] (Some consumed)))"

definition assess_card ::
  "(int \<Rightarrow> int) \<Rightarrow> tapped_card \<Rightarrow> tap_reads \<Rightarrow> freshness_policy \<Rightarrow> card_assessment result" where
  "assess_card ny c r policy =
     (let age = total_seconds (ny (tr_now r) - ny (tc_issued_at c));
          ended = (\<lambda>out why. Ok \<lparr>ca_outcome = out, ca_reason = why, ca_r_consumed = None, ca_age_seconds = age, ca_price = None\<rparr>)
      in case (tc_valid_until c, tc_validity c = NEXT_SESSION_CLOSE \<and> \<not> tr_session_open r) of
        (Some t, True) \<Rightarrow>
          if ny (tr_now r) < ny t
          then ended Waiting [Lit ''Market closed; card valid until '', FTime (ny t), Lit '' NY.'']
          else ended Expired (msg ''Card expired: its session has ended.'')
      | _ \<Rightarrow>
          if card_session_over ny (tc_issued_at c) (tc_valid_until c) (tr_now r) \<or> \<not> tr_session_open r
          then ended Expired (msg ''Card expired: its session has ended.'')
          else assess_price c r policy age)"

subsection \<open>Re-pricing\<close>

definition round_to_tick :: "pyfloat \<Rightarrow> pyfloat \<Rightarrow> pyfloat result" where
  "round_to_tick price tick_size =
     (if \<not> tick_size > 0 then Raise (ValueError (msg ''tick_size must be positive''))
      else case (price, tick_size) of
        (NaN, _) \<Rightarrow> Ok NaN
      | (Num p, Num t) \<Rightarrow>
          bindr (ddiv (repr_dec p) (repr_dec t)) (\<lambda>ticks. Ok (float_of_dec (dmul (of_int (rhe ticks)) (repr_dec t))))
      | (_, Num t) \<Rightarrow> Ok price
      | _ \<Rightarrow> Raise DecimalInvalid)"

definition reprice_quantity ::
  "pyfloat \<Rightarrow> pyfloat \<Rightarrow> pyfloat \<Rightarrow> pyfloat \<Rightarrow> pyfloat \<Rightarrow> bool \<Rightarrow> pyfloat result" where
  "reprice_quantity original_quantity entry stop new_entry multiplier whole_units =
     (let new_risk_per_unit = \<bar>new_entry - stop\<bar> * multiplier
      in if new_risk_per_unit \<le> 0 then Ok 0
         else bindr (fdiv (original_quantity * \<bar>entry - stop\<bar> * multiplier) new_risk_per_unit) (\<lambda>by_risk.
              let new_notional_per_unit = new_entry * multiplier
              in bindr (if new_notional_per_unit > 0
                        then bindr (fdiv (original_quantity * entry * multiplier) new_notional_per_unit)
                               (\<lambda>by_notional. Ok (py_min by_risk by_notional))
                        else Ok by_risk) (\<lambda>q.
              let quantity = py_max q 0
              in if whole_units
                 then bindr (int_of_float quantity) (\<lambda>n. bindr (float_of_int n) (\<lambda>whole.
                      Ok (if whole < 1 then 0 else whole)))
                 else Ok quantity)))"

subsection \<open>Properties\<close>

text \<open>
  The sweep never expires a card that a tap could still act on: whenever the sweep's rule says a
  card is stale, the tap-time assessment of that card at that moment, whatever the price, the session,
  the gates and the policy, is an expiry.
\<close>

theorem stale_card_never_trades:
  assumes "card_is_stale ny fromiso (tc_issued_at c) provenance (tr_now r)"
    and "tc_valid_until c = valid_until_from_provenance fromiso provenance"
  shows "\<exists>a. assess_card ny c r policy = Ok a \<and> ca_outcome a = Expired"
proof -
  have over: "card_session_over ny (tc_issued_at c) (tc_valid_until c) (tr_now r)"
    using assms by (simp add: card_is_stale_def)
  show ?thesis
    using over by (cases "tc_valid_until c")
      (auto simp: assess_card_def Let_def card_session_over_def split: bool.split)
qed

text \<open>What the code asks of a tap it acts on.\<close>

definition tap_conditions :: "(int \<Rightarrow> int) \<Rightarrow> tapped_card \<Rightarrow> tap_reads \<Rightarrow> freshness_policy \<Rightarrow> bool" where
  "tap_conditions ny c r policy =
     (tr_session_open r \<and> \<not> card_session_over ny (tc_issued_at c) (tc_valid_until c) (tr_now r)
      \<and> tr_gate_reason r = None \<and> \<not> through_stop c (tr_price r) \<and> \<not> through_target c (tr_price r)
      \<and> \<not> \<bar>tc_entry c - tc_stop c\<bar> \<le> 0
      \<and> \<not> card_sign c * (tr_price r - tc_stop c) < fp_reprice_min_risk_fraction policy * \<bar>tc_entry c - tc_stop c\<bar>)"

lemma assess_price_cases:
  assumes "assess_price c r policy age = Ok a" "ca_outcome a \<in> {Execute, Reprice}"
  shows "\<not> \<bar>tc_entry c - tc_stop c\<bar> \<le> 0" "\<not> through_stop c (tr_price r)" "\<not> through_target c (tr_price r)"
    "tr_gate_reason r = None"
    "\<not> card_sign c * (tr_price r - tc_stop c) < fp_reprice_min_risk_fraction policy * \<bar>tc_entry c - tc_stop c\<bar>"
    "\<exists>q. fdiv (card_sign c * (tr_price r - tc_entry c)) \<bar>tc_entry c - tc_stop c\<bar> = Ok q \<and> ca_r_consumed a = Some q
      \<and> (ca_outcome a = Execute \<longleftrightarrow> age \<le> fp_fresh_seconds policy \<and> \<bar>q\<bar> \<le> fp_fresh_max_r policy)"
    "ca_outcome a = Reprice \<Longrightarrow> meets_min_reward_risk (card_sign c * (tc_target c - tr_price r))
       (card_sign c * (tr_price r - tc_stop c)) (tr_min_reward_risk r)"
  using assms unfolding assess_price_def Let_def
  by (auto simp: bindr_Inr_iff split: if_split_asm option.split_asm)

definition consumed_r :: "tapped_card \<Rightarrow> pyfloat \<Rightarrow> pyfloat" where
  "consumed_r c price = quot (card_sign c * (price - tc_entry c)) \<bar>tc_entry c - tc_stop c\<bar>"

definition still_fresh :: "(int \<Rightarrow> int) \<Rightarrow> tapped_card \<Rightarrow> tap_reads \<Rightarrow> freshness_policy \<Rightarrow> bool" where
  "still_fresh ny c r policy = (total_seconds (ny (tr_now r) - ny (tc_issued_at c)) \<le> fp_fresh_seconds policy
     \<and> \<bar>consumed_r c (tr_price r)\<bar> \<le> fp_fresh_max_r policy)"

lemma assess_card_acted:
  assumes "assess_card ny c r policy = Ok a" "ca_outcome a \<in> {Execute, Reprice}"
  shows "tr_session_open r \<and> \<not> card_session_over ny (tc_issued_at c) (tc_valid_until c) (tr_now r)
    \<and> assess_price c r policy (total_seconds (ny (tr_now r) - ny (tc_issued_at c))) = Ok a"
  using assms unfolding assess_card_def Let_def
  by (auto split: option.split_asm bool.split_asm if_split_asm)

lemma assess_price_acts:
  assumes "tap_conditions ny c r policy" "assess_price c r policy age = Ok a"
    "age \<le> fp_fresh_seconds policy \<and> \<bar>consumed_r c (tr_price r)\<bar> \<le> fp_fresh_max_r policy
      \<or> meets_min_reward_risk (card_sign c * (tc_target c - tr_price r)) (card_sign c * (tr_price r - tc_stop c)) (tr_min_reward_risk r)"
  shows "ca_outcome a \<in> {Execute, Reprice}"
proof -
  obtain q where q: "fdiv (card_sign c * (tr_price r - tc_entry c)) \<bar>tc_entry c - tc_stop c\<bar> = Ok q"
    using assms(1,2) by (cases "fdiv (card_sign c * (tr_price r - tc_entry c)) \<bar>tc_entry c - tc_stop c\<bar>")
      (auto simp: tap_conditions_def assess_price_def Let_def)
  then have "consumed_r c (tr_price r) = q" by (simp add: consumed_r_def quot_def)
  then show ?thesis using assms q by (auto simp: tap_conditions_def assess_price_def Let_def split: if_split_asm)
qed

lemma tap_outcomes:
  assumes "assess_card ny c r policy = Ok a"
  shows "(ca_outcome a = Execute \<longleftrightarrow> tap_conditions ny c r policy \<and> still_fresh ny c r policy)
    \<and> (ca_outcome a = Reprice \<longleftrightarrow> tap_conditions ny c r policy \<and> \<not> still_fresh ny c r policy
        \<and> meets_min_reward_risk (card_sign c * (tc_target c - tr_price r)) (card_sign c * (tr_price r - tc_stop c))
            (tr_min_reward_risk r))"
proof -
  let ?age = "total_seconds (ny (tr_now r) - ny (tc_issued_at c))"
  have acted: "tap_conditions ny c r policy \<and> (ca_outcome a = Execute \<longleftrightarrow> still_fresh ny c r policy)
      \<and> (ca_outcome a = Reprice \<longrightarrow> meets_min_reward_risk (card_sign c * (tc_target c - tr_price r))
          (card_sign c * (tr_price r - tc_stop c)) (tr_min_reward_risk r))" if "ca_outcome a \<in> {Execute, Reprice}"
  proof -
    note p = assess_card_acted [OF assms that]
    note q = assess_price_cases [OF conjunct2 [OF conjunct2 [OF p]] that]
    obtain x where "fdiv (card_sign c * (tr_price r - tc_entry c)) \<bar>tc_entry c - tc_stop c\<bar> = Ok x"
        "ca_outcome a = Execute \<longleftrightarrow> ?age \<le> fp_fresh_seconds policy \<and> \<bar>x\<bar> \<le> fp_fresh_max_r policy" using q(6) by auto
    moreover have "consumed_r c (tr_price r) = x" using calculation by (simp add: consumed_r_def quot_def)
    ultimately show ?thesis using p q by (simp add: tap_conditions_def still_fresh_def)
  qed
  have open_price: "assess_price c r policy ?age = Ok a" if "tap_conditions ny c r policy"
    using that assms by (auto simp: tap_conditions_def assess_card_def Let_def split: option.split_asm bool.split_asm)
  have "ca_outcome a \<in> {Execute, Reprice}" if "tap_conditions ny c r policy"
      "still_fresh ny c r policy \<or> meets_min_reward_risk (card_sign c * (tc_target c - tr_price r))
          (card_sign c * (tr_price r - tc_stop c)) (tr_min_reward_risk r)"
    using assess_price_acts [OF that(1) open_price [OF that(1)]] that(2) by (auto simp: still_fresh_def)
  then show ?thesis using acted by (cases "ca_outcome a") auto
qed

lemma not_acted_outcomes:
  assumes "assess_card ny c r policy = Ok a"
  shows "ca_outcome a = Waiting \<longleftrightarrow> tc_validity c = NEXT_SESSION_CLOSE \<and> \<not> tr_session_open r \<and> (\<exists>t. tc_valid_until c = Some t \<and> ny (tr_now r) < ny t)"
    "ca_outcome a = Expired \<longleftrightarrow> (\<not> tr_session_open r \<or> card_session_over ny (tc_issued_at c) (tc_valid_until c) (tr_now r)) \<and> ca_outcome a \<noteq> Waiting"
proof -
  have price: "ca_outcome a \<notin> {Waiting, Expired}" if "assess_price c r policy age = Ok a" for age
    using that unfolding assess_price_def Let_def by (auto simp: bindr_Inr_iff split: if_split_asm option.split_asm)
  show "ca_outcome a = Waiting \<longleftrightarrow> tc_validity c = NEXT_SESSION_CLOSE \<and> \<not> tr_session_open r \<and> (\<exists>t. tc_valid_until c = Some t \<and> ny (tr_now r) < ny t)"
    "ca_outcome a = Expired \<longleftrightarrow> (\<not> tr_session_open r \<or> card_session_over ny (tc_issued_at c) (tc_valid_until c) (tr_now r)) \<and> ca_outcome a \<noteq> Waiting"
    using assms price unfolding assess_card_def Let_def
    by (auto simp: card_session_over_def split: option.split_asm bool.split_asm if_split_asm)
qed

text \<open>
  The conditions of the table, on the card and the readings themselves: the card is in time, the price is
  strictly inside the bracket on the card's side, and enough of the risk is left.
\<close>

definition in_time :: "(int \<Rightarrow> int) \<Rightarrow> tapped_card \<Rightarrow> int \<Rightarrow> bool" where
  "in_time ny c now = (case tc_valid_until c of Some t \<Rightarrow> ny now < ny t
     | None \<Rightarrow> wall_date (ny now) = wall_date (ny (tc_issued_at c)))"

definition waits_for_open :: "(int \<Rightarrow> int) \<Rightarrow> tapped_card \<Rightarrow> tap_reads \<Rightarrow> bool" where
  "waits_for_open ny c r = (tc_validity c = ''next_session_close'' \<and> \<not> tr_session_open r
     \<and> (\<exists>t. tc_valid_until c = Some t \<and> ny (tr_now r) < ny t))"

definition inside_bracket :: "tapped_card \<Rightarrow> pyfloat \<Rightarrow> bool" where
  "inside_bracket c price = (if tc_direction c = LONG then tc_stop c < price \<and> price < tc_target c
     else tc_target c < price \<and> price < tc_stop c)"

definition towards :: "tapped_card \<Rightarrow> pyfloat \<Rightarrow> pyfloat" where
  "towards c x = (if tc_direction c = LONG then 1 else - 1) * x"

definition actionable :: "(int \<Rightarrow> int) \<Rightarrow> tapped_card \<Rightarrow> tap_reads \<Rightarrow> freshness_policy \<Rightarrow> bool" where
  "actionable ny c r policy = (tr_session_open r \<and> in_time ny c (tr_now r) \<and> tr_gate_reason r = None
     \<and> inside_bracket c (tr_price r) \<and> \<not> \<bar>tc_entry c - tc_stop c\<bar> \<le> 0
     \<and> \<not> towards c (tr_price r - tc_stop c) < fp_reprice_min_risk_fraction policy * \<bar>tc_entry c - tc_stop c\<bar>)"

definition young_and_near :: "(int \<Rightarrow> int) \<Rightarrow> tapped_card \<Rightarrow> tap_reads \<Rightarrow> freshness_policy \<Rightarrow> bool" where
  "young_and_near ny c r policy = (total_seconds (ny (tr_now r) - ny (tc_issued_at c)) \<le> fp_fresh_seconds policy
     \<and> \<bar>quot (towards c (tr_price r - tc_entry c)) \<bar>tc_entry c - tc_stop c\<bar>\<bar> \<le> fp_fresh_max_r policy)"

definition reward_left :: "tapped_card \<Rightarrow> tap_reads \<Rightarrow> bool" where
  "reward_left c r = (\<not> towards c (tr_price r - tc_stop c) \<le> 0
     \<and> tr_min_reward_risk r \<le> py_round 2 (quot (towards c (tc_target c - tr_price r)) (towards c (tr_price r - tc_stop c))))"

lemma towards_sign: "towards c x = card_sign c * x"
  by (simp add: towards_def card_sign_def)

lemma in_time_iff: "in_time ny c now \<longleftrightarrow> \<not> card_session_over ny (tc_issued_at c) (tc_valid_until c) now"
  by (auto simp: in_time_def card_session_over_def split: option.split)

lemma inside_bracket_iff:
  assumes "tc_direction c \<in> {LONG, SHORT}" "isfinite price" "isfinite (tc_stop c)" "isfinite (tc_target c)"
  shows "inside_bracket c price \<longleftrightarrow> \<not> through_stop c price \<and> \<not> through_target c price"
  using assms by (auto simp: inside_bracket_def through_stop_def through_target_def isfinite_iff)

text \<open>
  C35. A tap is acted on exactly under the decision table, for a card with a direction and finite prices: it
  waits when the market is closed and the card lives to the next session's close; otherwise it expires
  when the market is closed or the card's time is over; the original order is executed exactly when the
  session is open and not over, no gate refuses, the price is strictly between stop and target with
  enough risk left, and the card is young and barely moved; it is re-priced exactly when the same holds
  except freshness and the reward at the current price still clears the minimum at two decimals.
\<close>

theorem tap_decision_table:
  assumes "assess_card ny c r policy = Ok a" "tc_direction c \<in> {LONG, SHORT}"
    and "list_all isfinite [tr_price r, tc_stop c, tc_target c]"
  shows "(ca_outcome a = Waiting \<longleftrightarrow> waits_for_open ny c r)
    \<and> (ca_outcome a = Expired \<longleftrightarrow> \<not> (tr_session_open r \<and> in_time ny c (tr_now r)) \<and> \<not> waits_for_open ny c r)
    \<and> (ca_outcome a = Execute \<longleftrightarrow> actionable ny c r policy \<and> young_and_near ny c r policy)
    \<and> (ca_outcome a = Reprice \<longleftrightarrow> actionable ny c r policy \<and> \<not> young_and_near ny c r policy \<and> reward_left c r)"
proof -
  have "tap_conditions ny c r policy \<longleftrightarrow> actionable ny c r policy"
    using inside_bracket_iff [OF assms(2)] assms(3)
    by (auto simp: tap_conditions_def actionable_def in_time_iff towards_sign)
  moreover have "still_fresh ny c r policy \<longleftrightarrow> young_and_near ny c r policy"
    by (simp add: still_fresh_def young_and_near_def consumed_r_def towards_sign)
  moreover have "meets_min_reward_risk (card_sign c * (tc_target c - tr_price r)) (card_sign c * (tr_price r - tc_stop c))
      (tr_min_reward_risk r) \<longleftrightarrow> reward_left c r"
    by (simp add: meets_min_reward_risk_def reward_left_def towards_sign)
  ultimately show ?thesis using tap_outcomes [OF assms(1)] not_acted_outcomes [OF assms(1)]
    by (simp add: waits_for_open_def NEXT_SESSION_CLOSE_def in_time_iff)
qed

lemma fdiv_representable: "fdiv a b = Ok q \<Longrightarrow> representable q"
proof -
  have "representable (Num 0)" by (simp add: representable_def zero_pyfloat_def)
  then show "fdiv a b = Ok q \<Longrightarrow> representable q"
    by (cases b; cases a) (auto simp: sign_inf_def representable_def dest: b64_idem split: if_split_asm pyfloat.split)
qed

lemma not_less_NaN [simp]: "\<not> (x :: pyfloat) < NaN"
  by (cases x) simp_all

lemma whole_units_le:
  assumes "int_of_float x = Ok n" "float_of_int n = Ok w" "0 \<le> x" "representable x"
  shows "w \<le> x \<and> (\<exists>k. w = b64 (of_int k))"
proof -
  obtain r where r: "x = Num r" "n = trunc r" using assms(1) by (auto simp: int_of_float_def split: pyfloat.split_asm)
  have w: "w = b64 (of_int n)" using assms(2) by (auto simp: float_of_int_def split: pyfloat.split_asm)
  have "of_int n \<le> r" using assms(3) r by (simp add: trunc_def)
  then have "b64 (of_int n) \<le> b64 r" by (rule b64_mono)
  then show ?thesis using w r assms(4) by (auto simp: representable_def)
qed

lemma py_min_py_max_bounds:
  assumes "a \<noteq> NaN" shows "py_max (py_min a b) 0 = 0 \<or> py_max (py_min a b) 0 \<le> a \<and> (b = NaN \<or> py_max (py_min a b) 0 \<le> b)"
    "0 \<le> py_max (py_min a b) 0" "py_max a 0 = 0 \<or> py_max a 0 \<le> a" "0 \<le> py_max a 0"
  using assms by (cases a; cases b; auto simp: py_min_def py_max_def zero_pyfloat_def)+

text \<open>
  Re-pricing never takes more risk or notional than the original card: a computed quantity is zero
  or at most the quantity with the original dollars at risk and, where the notional is positive, at
  most the one with the original notional; with whole units it is a whole number.
\<close>

theorem reprice_within_original:
  assumes "reprice_quantity oq entry stop new_entry m whole = Ok q" and "q \<noteq> NaN"
  shows "0 \<le> q \<and> (q = 0 \<or>
    (\<exists>x. fdiv (oq * \<bar>entry - stop\<bar> * m) (\<bar>new_entry - stop\<bar> * m) = Ok x \<and> q \<le> x)
    \<and> (new_entry * m > 0 \<longrightarrow> (\<exists>y. fdiv (oq * entry * m) (new_entry * m) = Ok y \<and> (y = NaN \<or> q \<le> y))))
    \<and> (whole \<longrightarrow> q = 0 \<or> (\<exists>k. q = b64 (of_int k)))"
proof (cases "\<bar>new_entry - stop\<bar> * m \<le> 0")
  case True
  then show ?thesis using assms by (auto simp: reprice_quantity_def)
next
  case False
  obtain x where x: "fdiv (oq * \<bar>entry - stop\<bar> * m) (\<bar>new_entry - stop\<bar> * m) = Ok x"
    using assms(1) False by (auto simp: reprice_quantity_def Let_def bindr_Inr_iff)
  define z where "z = (if new_entry * m > 0 then bindr (fdiv (oq * entry * m) (new_entry * m)) (\<lambda>y. Ok (py_min x y)) else Ok x)"
  obtain b where b: "z = Ok b" and q: "(if whole then bindr (int_of_float (py_max b 0)) (\<lambda>n. bindr (float_of_int n) (\<lambda>w.
        Ok (if w < 1 then 0 else w))) else Ok (py_max b 0)) = Ok q"
    using assms(1) False x by (auto simp: reprice_quantity_def Let_def bindr_Inr_iff z_def)
  have fin: "py_max b 0 \<noteq> NaN" using q assms(2) by (auto simp: int_of_float_def split: if_split_asm)
  then have xn: "x \<noteq> NaN" using b by (auto simp: z_def py_min_def py_max_def bindr_Inr_iff split: if_split_asm)
  have bounds: "0 \<le> py_max b 0 \<and> (py_max b 0 = 0 \<or> py_max b 0 \<le> x
      \<and> (new_entry * m > 0 \<longrightarrow> (\<exists>y. fdiv (oq * entry * m) (new_entry * m) = Ok y \<and> (y = NaN \<or> py_max b 0 \<le> y))))"
    using b py_min_py_max_bounds [OF xn] by (auto simp: z_def bindr_Inr_iff split: if_split_asm)
  have rep: "representable (py_max b 0)"
    using b fdiv_representable [OF x] fdiv_representable [of "oq * entry * m" "new_entry * m"]
    by (auto simp: z_def bindr_Inr_iff py_min_def py_max_def representable_def zero_pyfloat_def split: if_split_asm)
  show ?thesis
  proof (cases whole)
    case True
    then obtain n w where n: "int_of_float (py_max b 0) = Ok n" "float_of_int n = Ok w" "q = (if w < 1 then 0 else w)"
      using q by (auto simp: bindr_Inr_iff)
    have w: "w \<le> py_max b 0 \<and> (\<exists>k. w = b64 (of_int k))" using whole_units_le [OF n(1,2)] bounds rep by blast
    show ?thesis
    proof (cases "q = 0")
      case q0: False
      then have "q = w" "\<not> w < 1" using n(3) by (auto split: if_split_asm)
      moreover have "w \<noteq> NaN" using w by auto
      ultimately have "0 \<le> w" "w \<le> py_max b 0" using w by (cases w; auto simp: one_pyfloat_def)+
      moreover have "py_max b 0 \<noteq> 0"
      proof
        assume "py_max b 0 = 0"
        then have "w \<le> 0" using w by simp
        then show False using \<open>\<not> w < 1\<close> by (cases w) (auto simp: one_pyfloat_def zero_pyfloat_def)
      qed
      ultimately show ?thesis using bounds x w \<open>q = w\<close> fle_trans by blast
    qed simp
  next
    case False
    then show ?thesis using q bounds x by auto
  qed
qed

subsection \<open>An example\<close>

definition demo_card :: tapped_card where
  "demo_card = \<lparr>tc_direction = LONG, tc_entry = Num 100, tc_stop = Num 96, tc_target = Num 112, tc_issued_at = 0,
     tc_valid_until = Some 3600000000, tc_validity = SESSION_CLOSE\<rparr>"

definition demo_tap :: "int \<Rightarrow> tap_reads" where
  "demo_tap now = \<lparr>tr_now = now, tr_price = Num 100, tr_session_open = True, tr_gate_reason = None, tr_min_reward_risk = Num 2\<rparr>"

definition demo_freshness :: freshness_policy where
  "demo_freshness = \<lparr>fp_fresh_seconds = Num 1800, fp_fresh_max_r = Num (1/4), fp_reprice_min_risk_fraction = Num (1/2)\<rparr>"

lemma demo_tap_executes: "\<exists>a. assess_card (\<lambda>t. t) demo_card (demo_tap 0) demo_freshness = Ok a \<and> ca_outcome a = Execute"
  by (simp add: assess_card_def demo_card_def demo_tap_def demo_freshness_def SESSION_CLOSE_def NEXT_SESSION_CLOSE_def
      card_session_over_def assess_price_def card_sign_def through_stop_def through_target_def total_seconds_def
      minus_pyfloat_def one_pyfloat_def zero_pyfloat_def Let_def)

theorem tap_decision_table_witness:
  "inside_bracket demo_card (Num 100) \<and> actionable (\<lambda>t. t) demo_card (demo_tap 0) demo_freshness
   \<and> young_and_near (\<lambda>t. t) demo_card (demo_tap 0) demo_freshness"
proof -
  obtain a where a: "assess_card (\<lambda>t. t) demo_card (demo_tap 0) demo_freshness = Ok a" "ca_outcome a = Execute"
    using demo_tap_executes by blast
  have "tc_direction demo_card \<in> {LONG, SHORT}" "list_all isfinite [tr_price (demo_tap 0), tc_stop demo_card, tc_target demo_card]"
    "tr_price (demo_tap 0) = Num 100" by (simp_all add: demo_card_def demo_tap_def)
  then show ?thesis using tap_decision_table [OF a(1)] a(2) by (simp add: actionable_def)
qed

theorem stale_card_never_trades_witness:
  "\<exists>a. assess_card (\<lambda>t. t) demo_card (demo_tap 3600000000) demo_freshness = Ok a \<and> ca_outcome a = Expired"
  by (rule stale_card_never_trades [where fromiso = "\<lambda>_. Some (Aware 3600000000)"
        and provenance = "JObj [(''valid_until'', JStr ''t'')]"])
    (simp_all add: card_is_stale_def card_session_over_def valid_until_from_provenance_def parse_valid_until_def
      demo_card_def demo_tap_def)

theorem reprice_within_original_witness:
  "reprice_quantity (Num 8) (Num 96) (Num 64) (Num 128) 1 True = Ok (Num 4) \<and> Num 4 \<le> Num 6"
proof -
  have "reprice_quantity (Num 8) (Num 96) (Num 64) (Num 128) 1 True = Ok (Num 4)"
    by (simp add: reprice_quantity_def minus_pyfloat_def one_pyfloat_def zero_pyfloat_def py_min_def py_max_def
        int_of_float_def trunc_def float_of_int_def)
  with reprice_within_original [OF this] show ?thesis by simp
qed

end
