(* ===== verification/Signal_Store.thy ===== *)
theory Signal_Store
  imports Order_Views Freshness
begin

text \<open>
  The signal and close-request tables (\<open>SignalDatabase\<close> of \<open>storage/db.py\<close>): the life of a card from
  its recording to its terminal status, the durable close claims, the stop ratchet and quarantine.
  Every operation is one transaction under the scope lock; autoincremented and random identifiers are
  arguments. \<open>update_signal_status\<close> has no caller in the program and is left out.
\<close>

subsection \<open>Signals\<close>

definition PENDING :: string where "PENDING = ''PENDING''"
definition SUBMITTING :: string where "SUBMITTING = ''SUBMITTING''"
definition EXECUTED :: string where "EXECUTED = ''EXECUTED''"
definition FAILED :: string where "FAILED = ''FAILED''"

text \<open>\<open>UPDATE ... WHERE p\<close>, and whether it changed a row.\<close>

definition update_signals :: "(signal \<Rightarrow> bool) \<Rightarrow> (signal \<Rightarrow> signal) \<Rightarrow> wf_state \<Rightarrow> wf_state" where
  "update_signals p f st = st\<lparr>wf_signals := map (\<lambda>s. if p s then f s else s) (wf_signals st)\<rparr>"

definition any_signal :: "(signal \<Rightarrow> bool) \<Rightarrow> wf_state \<Rightarrow> bool" where
  "any_signal p st = list_ex p (wf_signals st)"

definition has_status :: "int \<Rightarrow> string \<Rightarrow> signal \<Rightarrow> bool" where
  "has_status i status s = (sg_id s = i \<and> sg_status s = status)"

definition move_signal :: "int \<Rightarrow> string \<Rightarrow> wf_state \<Rightarrow> wf_state \<times> bool" where
  "move_signal i status st =
     (update_signals (has_status i PENDING) (\<lambda>s. s\<lparr>sg_status := status\<rparr>) st, any_signal (has_status i PENDING) st)"

definition expire_signal :: "int \<Rightarrow> wf_state \<Rightarrow> wf_state \<times> bool" where
  "expire_signal i st = move_signal i ''EXPIRED'' st"

definition dismiss_signal :: "int \<Rightarrow> wf_state \<Rightarrow> wf_state \<times> bool" where
  "dismiss_signal i st = move_signal i ''DISMISSED'' st"

text \<open>\<open>_insert_signal\<close>: the row starts without broker order, fill or exit.\<close>

definition insert_signal ::
  "signal \<Rightarrow> (string \<times> ftext) list option \<Rightarrow> int \<Rightarrow> string \<Rightarrow> int \<Rightarrow> wf_state \<Rightarrow> wf_state \<times> int" where
  "insert_signal row note sid fresh now st =
     (let s = row\<lparr>sg_id := sid, sg_timestamp := now, sg_broker_order_id := None, sg_executed_at := None,
                sg_exit_order_id := None, sg_exit_price := None, sg_exit_timestamp := None, sg_realized_pnl := None,
                sg_exit_reason := None\<rparr>;
          st1 = record_audit ''signal_created'' (Some sid) [] (st\<lparr>wf_signals := wf_signals st @ [s]\<rparr>)
      in (case note of
            None \<Rightarrow> st1
          | Some args \<Rightarrow> notify [Lit ''signal/'', FInt sid, Lit ''/created''] ''signal''
              (args @ [(''signal_id'', [FInt sid])]) fresh now st1, sid))"

definition record_signal ::
  "signal \<Rightarrow> (string \<times> ftext) list option \<Rightarrow> int \<Rightarrow> string \<Rightarrow> int \<Rightarrow> wf_state \<Rightarrow> wf_state \<times> int" where
  "record_signal = insert_signal"

definition replace_signal ::
  "int \<Rightarrow> signal \<Rightarrow> (string \<times> ftext) list \<Rightarrow> int \<Rightarrow> string \<Rightarrow> int \<Rightarrow> wf_state \<Rightarrow> wf_state \<times> int option" where
  "replace_signal old_id row note sid fresh now st =
     (case expire_signal old_id st of
        (st1, False) \<Rightarrow> (st, None)
      | (st1, True) \<Rightarrow> (case insert_signal row (Some note) sid fresh now st1 of (st2, i) \<Rightarrow> (st2, Some i)))"

text \<open>The sweep of untapped cards (\<open>fresh i\<close> names one notification each); a card without a readable provenance object has an empty one.\<close>

definition provenance_document :: "stored_doc \<Rightarrow> json" where
  "provenance_document v = (case v of DJson (JObj obj) \<Rightarrow> JObj obj | _ \<Rightarrow> JObj [])"

definition stale_card :: "(int \<Rightarrow> int) \<Rightarrow> (string \<Rightarrow> stamp option) \<Rightarrow> int \<Rightarrow> signal \<Rightarrow> bool" where
  "stale_card ny fromiso now s =
     card_is_stale ny fromiso (sg_timestamp s) (provenance_document (sd_decision_provenance (sg_policies s))) now"

fun expire_each ::
  "(int \<Rightarrow> int) \<Rightarrow> (string \<Rightarrow> stamp option) \<Rightarrow> string list \<Rightarrow> (nat \<Rightarrow> string) \<Rightarrow> int \<Rightarrow> signal list \<Rightarrow> wf_state \<Rightarrow> wf_state \<times> int list" where
  "expire_each ny fromiso configured fresh now [] st = (st, [])"
| "expire_each ny fromiso configured fresh now (row # rows) st =
     (if \<not> stale_card ny fromiso now row then expire_each ny fromiso configured fresh now rows st
      else case expire_signal (sg_id row) st of
        (st1, False) \<Rightarrow> expire_each ny fromiso configured fresh now rows st1
      | (st1, True) \<Rightarrow>
          (case expire_each ny fromiso configured fresh now rows
                  (notify [Lit ''signal/'', FInt (sg_id row), Lit ''/expired''] ''card_expired''
                     [(''signal_id'', [FInt (sg_id row)]), (''contract'', msg (sg_contract (sg_alpha row))),
                      (''reevaluable'', msg (if sg_contract (sg_alpha row) \<in> set configured then ''True'' else ''False''))]
                     (fresh (length rows)) now st1) of
             (st2, ids) \<Rightarrow> (st2, sg_id row # ids)))"

definition expire_stale_signals ::
  "(int \<Rightarrow> int) \<Rightarrow> (string \<Rightarrow> stamp option) \<Rightarrow> string list \<Rightarrow> (nat \<Rightarrow> string) \<Rightarrow> int \<Rightarrow> wf_state \<Rightarrow> wf_state \<times> int list" where
  "expire_stale_signals ny fromiso configured fresh now st =
     expire_each ny fromiso configured fresh now (filter (\<lambda>s. sg_status s = PENDING) (wf_signals st)) st"

definition is_duplicate_recent ::
  "string \<Rightarrow> string \<Rightarrow> int \<Rightarrow> string option \<Rightarrow> string option \<Rightarrow> int \<Rightarrow> wf_state \<Rightarrow> bool" where
  "is_duplicate_recent contract strategy hours timeframe alpha_version now st =
     any_signal (\<lambda>s. sg_contract (sg_alpha s) = contract \<and> sg_strategy (sg_alpha s) = strategy
       \<and> sg_timestamp s \<ge> now - hours * 3600 * SECOND \<and> sg_status s \<noteq> FAILED
       \<and> (timeframe \<noteq> None \<longrightarrow> sg_timeframe (sg_alpha s) = timeframe)
       \<and> (alpha_version \<noteq> None \<longrightarrow> sg_alpha_version (sg_alpha s) = alpha_version)) st"

definition live_signal_id :: "string \<Rightarrow> string option \<Rightarrow> wf_state \<Rightarrow> int option" where
  "live_signal_id contract strategy st =
     (case rev (sort (map sg_id (filter (\<lambda>s. sg_contract (sg_alpha s) = contract \<and> sg_status s \<in> {PENDING, SUBMITTING}
        \<and> (strategy \<noteq> None \<longrightarrow> Some (sg_strategy (sg_alpha s)) = strategy)) (wf_signals st)))) of
        [] \<Rightarrow> None | i # _ \<Rightarrow> Some i)"

definition get_active_positions :: "wf_state \<Rightarrow> signal list" where
  "get_active_positions st = sort_key sg_timestamp (filter (\<lambda>s. sg_status s = EXECUTED) (wf_signals st))"

text \<open>Quarantine: the evidence is a nonempty list of field comparisons.\<close>

definition quarantine_signal :: "int \<Rightarrow> (signal \<Rightarrow> bool) list \<Rightarrow> wf_state \<Rightarrow> (wf_state \<times> bool) result" where
  "quarantine_signal i expected st = (case find_signal (\<lambda>s. sg_id s = i) st of
     None \<Rightarrow> Ok (st, False)
   | Some s \<Rightarrow>
       if expected = [] \<or> \<not> list_all (\<lambda>p. p s) expected
       then Raise (ValueError [Lit ''Signal #'', FInt i, Lit '' does not match quarantine evidence''])
       else Ok (record_audit ''signal_quarantined'' (Some i) []
                  (st\<lparr>wf_signals := filter (\<lambda>x. sg_id x \<noteq> i) (wf_signals st), wf_quarantined := wf_quarantined st @ [s]\<rparr>), True))"

subsection \<open>Executions, exits and stops\<close>

text \<open>\<open>display_entry_trigger\<close>: an unreadable trigger reads as a tap.\<close>

definition auto_triggered :: "int \<Rightarrow> wf_state \<Rightarrow> bool" where
  "auto_triggered sid st = (case entry_of sid st of
     Some w \<Rightarrow> (case w_payload w of EntryPayload _ t \<Rightarrow> t = ''auto'' | _ \<Rightarrow> False) | None \<Rightarrow> False)"

record execution_update =
  eu_broker_order_id :: "string option"
  eu_fill_price :: "pyfloat option"
  eu_status :: string
  eu_quantity :: "pyfloat option"
  eu_notional_value :: "pyfloat option"
  eu_risk_dollars :: "pyfloat option"
  eu_executed_at :: "int option"

definition or_else :: "'a option \<Rightarrow> 'a option \<Rightarrow> 'a option" where
  "or_else a b = (if a = None then b else a)"

definition apply_execution :: "execution_update \<Rightarrow> signal \<Rightarrow> signal" where
  "apply_execution u s = s\<lparr>sg_status := eu_status u, sg_broker_order_id := eu_broker_order_id u,
     sg_executed_at := or_else (eu_executed_at u) (sg_executed_at s),
     sg_entry_price := (case eu_fill_price u of Some p \<Rightarrow> p | None \<Rightarrow> sg_entry_price s),
     sg_quantity := or_else (eu_quantity u) (sg_quantity s),
     sg_notional_value := or_else (eu_notional_value u) (sg_notional_value s),
     sg_risk_dollars := (case eu_risk_dollars u of Some x \<Rightarrow> x | None \<Rightarrow> sg_risk_dollars s)\<rparr>"

definition fill_notice :: "int \<Rightarrow> execution_update \<Rightarrow> signal \<Rightarrow> ftext" where
  "fill_notice sid u before = [Lit ''Auto-entry #'', FInt sid, Lit '' '', Lit (sg_contract (sg_alpha before)), Lit '' filled '',
     FFloat ''g'' (case or_else (eu_quantity u) (sg_quantity before) of Some q \<Rightarrow> q | None \<Rightarrow> 0), Lit '' @ $'',
     FFloat ''.2f'' (case eu_fill_price u of Some p \<Rightarrow> p | None \<Rightarrow> sg_entry_price before), Lit ''; stop $'',
     FFloat ''.2f'' (sg_stop_loss before), Lit '', target $'', FFloat ''.2f'' (sg_take_profit before), Lit ''.'']"

definition executable :: "int \<Rightarrow> signal \<Rightarrow> bool" where
  "executable i s = (sg_id s = i \<and> sg_status s \<in> {PENDING, SUBMITTING, EXECUTED})"

text \<open>\<open>before\<close> is read by primary key, quarantined rows included.\<close>

definition update_signal_execution :: "int \<Rightarrow> execution_update \<Rightarrow> string \<Rightarrow> int \<Rightarrow> wf_state \<Rightarrow> wf_state" where
  "update_signal_execution sid u fresh now st =
     (let before = find (\<lambda>s. sg_id s = sid) (wf_signals st @ wf_quarantined st);
          updated = any_signal (executable sid) st;
          st1 = update_signals (executable sid) (apply_execution u) (audit ''entry_execution_updated'' sid st)
      in case before of
        None \<Rightarrow> st1
      | Some b \<Rightarrow>
          if sg_executed_at b = None \<and> eu_executed_at u \<noteq> None \<and> updated \<and> auto_triggered sid st1
          then notify [Lit ''signal/'', FInt sid, Lit ''/auto-filled''] ''message'' [(''text'', fill_notice sid u b)] fresh now st1
          else st1)"

record exit_facts =
  ef_price :: pyfloat
  ef_reason :: string
  ef_realized_pnl :: pyfloat
  ef_status :: string
  ef_order_id :: "string option"
  ef_timestamp :: "int option"

definition json_true :: "json \<Rightarrow> bool" where
  "json_true j = (case j of JNull \<Rightarrow> False | JBool b \<Rightarrow> b | JInt n \<Rightarrow> n \<noteq> 0 | JFloat x \<Rightarrow> x \<noteq> 0 | JStr s \<Rightarrow> s \<noteq> []
     | JList xs \<Rightarrow> xs \<noteq> [] | JObj xs \<Rightarrow> xs \<noteq> [])"

definition is_paper_probe :: "stored_doc \<Rightarrow> bool" where
  "is_paper_probe v = (case v of
     DJson (JObj obj) \<Rightarrow> (case map_of obj ''paper_probe'' of Some j \<Rightarrow> json_true j | None \<Rightarrow> False) | _ \<Rightarrow> False)"

text \<open>
  The exit notice: the caller's, or one built from the row (a missing value is the empty text); a paper
  probe's strategy is tagged (the tag's two symbols as their UTF-8 bytes).
\<close>

definition paper_probe_tag :: string where
  "paper_probe_tag = [CHR 0xF0, CHR 0x9F, CHR 0xA7, CHR 0xAA] @ '' PAPER PROBE '' @ [CHR 0xC2, CHR 0xB7, CHR 0x20]"

definition exit_note :: "exit_facts \<Rightarrow> (string \<times> ftext) list option \<Rightarrow> signal \<Rightarrow> (string \<times> ftext) list" where
  "exit_note x given s =
     (let base = (case given of Some args \<Rightarrow> args
        | None \<Rightarrow> [(''contract'', msg (sg_contract (sg_alpha s))), (''direction'', msg (sg_direction (sg_alpha s))),
            (''exit_reason'', msg (ef_reason x)), (''entry_price'', [FFloat [] (sg_entry_price s)]),
            (''exit_price'', [FFloat [] (ef_price x)]), (''realized_pnl'', [FFloat [] (ef_realized_pnl x)]),
            (''strategy'', msg (sg_strategy (sg_alpha s))),
            (''quantity'', (case sg_quantity s of Some q \<Rightarrow> [FFloat [] q] | None \<Rightarrow> [])),
            (''asset_class'', (case sg_asset_class s of Some a \<Rightarrow> msg a | None \<Rightarrow> []))])
      in if is_paper_probe (sd_decision_provenance (sg_policies s))
         then map (\<lambda>(k, v). if k = ''strategy'' then (k, Lit paper_probe_tag # v) else (k, v)) base else base)"

definition close_position ::
  "int \<Rightarrow> exit_facts \<Rightarrow> (string \<times> ftext) list option \<Rightarrow> string \<Rightarrow> int \<Rightarrow> wf_state \<Rightarrow> wf_state \<times> bool" where
  "close_position sid x given fresh now st =
     (case find_signal (has_status sid EXECUTED) st of
        None \<Rightarrow> (st, False)
      | Some s \<Rightarrow>
          let st1 = update_signals (has_status sid EXECUTED) (\<lambda>r. r\<lparr>sg_status := ef_status x, sg_exit_price := Some (ef_price x),
                      sg_exit_timestamp := Some (case ef_timestamp x of Some t \<Rightarrow> t | None \<Rightarrow> now),
                      sg_exit_order_id := ef_order_id x, sg_realized_pnl := Some (ef_realized_pnl x),
                      sg_exit_reason := Some (ef_reason x)\<rparr>) st;
              st2 = fst (wf_append [Lit ''signal/'', FInt sid] ''position_closed''
                      (PData [(''exit_price'', [FFloat [] (ef_price x)]), (''exit_reason'', msg (ef_reason x)),
                              (''realized_pnl'', [FFloat [] (ef_realized_pnl x)]),
                              (''broker_exit_order_id'', (case ef_order_id x of Some i \<Rightarrow> msg i | None \<Rightarrow> [])),
                              (''exit_timestamp'', [FTime (case ef_timestamp x of Some t \<Rightarrow> t | None \<Rightarrow> now)])])
                      (Some [Lit ''signal/'', FInt sid, Lit ''/closed'']) st1);
              st3 = notify [Lit ''signal/'', FInt sid, Lit ''/closed''] ''exit'' (exit_note x given s) fresh now st2
          in (audit ''position_closed'' sid st3, True))"

definition ratchets :: "int \<Rightarrow> pyfloat \<Rightarrow> signal \<Rightarrow> bool" where
  "ratchets sid new_stop s = (has_status sid EXECUTED s
     \<and> (sg_direction (sg_alpha s) = LONG \<and> sg_stop_loss s < new_stop \<or> sg_direction (sg_alpha s) = SHORT \<and> new_stop < sg_stop_loss s))"

definition update_position_stop ::
  "int \<Rightarrow> pyfloat \<Rightarrow> (string \<times> ftext) list option \<Rightarrow> string \<Rightarrow> int \<Rightarrow> wf_state \<Rightarrow> wf_state \<times> bool" where
  "update_position_stop sid new_stop note fresh now st =
     (if \<not> any_signal (ratchets sid new_stop) st then (st, False)
      else let st1 = update_signals (ratchets sid new_stop) (\<lambda>s. s\<lparr>sg_stop_loss := new_stop\<rparr>) st;
               st2 = (case note of None \<Rightarrow> st1
                      | Some args \<Rightarrow> notify [Lit ''signal/'', FInt sid, Lit ''/stop/'', FFloat [] new_stop] ''stop'' args fresh now st1)
           in (audit ''stop_updated'' sid st2, True))"

definition record_exit_request :: "int \<Rightarrow> string \<Rightarrow> wf_state \<Rightarrow> wf_state" where
  "record_exit_request sid oid st =
     (let p = (\<lambda>s. has_status sid EXECUTED s \<and> sg_exit_order_id s \<noteq> Some oid)
      in if any_signal p st
         then record_audit ''exit_order_submitted'' (Some sid) [(''broker_exit_order_id'', oid)]
                (update_signals p (\<lambda>s. s\<lparr>sg_exit_order_id := Some oid\<rparr>) st)
         else st)"

definition clear_failed_exit_request :: "int \<Rightarrow> string \<Rightarrow> wf_state \<Rightarrow> wf_state" where
  "clear_failed_exit_request sid oid st =
     record_audit ''exit_submission_failed'' (Some sid) [(''broker_exit_order_id'', oid)]
       (update_signals (\<lambda>s. has_status sid EXECUTED s \<and> sg_exit_order_id s = Some oid) (\<lambda>s. s\<lparr>sg_exit_order_id := None\<rparr>) st)"

subsection \<open>Close requests\<close>

definition active_close :: "close_request \<Rightarrow> bool" where
  "active_close c = (cr_status c \<in> set ACTIVE_CLOSE_STATUSES)"

definition get_close_request :: "string \<Rightarrow> wf_state \<Rightarrow> close_request option" where
  "get_close_request i st = find (\<lambda>c. cr_id c = i) (wf_closes st)"

definition active_close_requests :: "wf_state \<Rightarrow> close_request list" where
  "active_close_requests st = filter active_close (wf_closes st)"

definition close_stream :: "string \<Rightarrow> ftext" where "close_stream i = [Lit ''close/'', Lit i]"

definition identity_changed :: "close_request \<Rightarrow> close_request \<Rightarrow> bool" where
  "identity_changed prior c = (cr_symbol prior \<noteq> cr_symbol c \<or> cr_direction prior \<noteq> cr_direction c
     \<or> \<not> feq (cr_quantity prior) (cr_quantity c) \<or> cr_signal_id prior \<noteq> cr_signal_id c)"

text \<open>
  The claim: at most one request is active per symbol (the partial unique index), and none is granted
  while an entry of the symbol is being submitted or cancelled.
\<close>

definition claim_close_request ::
  "close_request \<Rightarrow> string \<Rightarrow> int \<Rightarrow> wf_state \<Rightarrow> (wf_state \<times> bool \<times> close_request) result" where
  "claim_close_request req fresh now st =
     (let claim = req\<lparr>cr_status := ''claimed'', cr_detail := [], cr_broker_order_id := None\<rparr>
      in case get_close_request (cr_id req) st of
        Some prior \<Rightarrow>
          if identity_changed prior req then Raise (ValueError (msg ''Close request identity cannot change''))
          else Ok (st, False, prior)
      | None \<Rightarrow>
          if unresolved_cancellation_on (cr_symbol req) st
          then Ok (st, False, claim\<lparr>cr_status := ''unknown'',
                 cr_detail := msg ''Entry cancellation is unresolved on this symbol; reconcile it before closing.''\<rparr>)
          else if any_signal (\<lambda>s. sg_contract (sg_alpha s) = cr_symbol req \<and> sg_status s = SUBMITTING) st
          then Ok (st, False, claim\<lparr>cr_status := ''unknown'',
                 cr_detail := msg ''Entry authorization is unresolved on this symbol; reconcile it before closing.''\<rparr>)
          else case find (\<lambda>c. active_close c \<and> cr_symbol c = cr_symbol req) (wf_closes st) of
            Some existing \<Rightarrow> Ok (st, False, existing)
          | None \<Rightarrow>
              let st1 = st\<lparr>wf_closes := wf_closes st @ [claim]\<rparr>;
                  st2 = appended (close_stream (cr_id req)) ''close_requested'' (PClose claim) st1;
                  st3 = notify [Lit ''close/'', Lit (cr_id req), Lit ''/claimed''] ''message''
                          [(''text'', [Lit ''Close intent recorded for '', Lit (cr_symbol req),
                             Lit ''. Awaiting broker confirmation; inspect /positions for actual holdings.''])] fresh now st2
              in Ok (record_audit ''close_request'' (cr_signal_id req) [] st3, True, claim))"

definition update_close_request ::
  "string \<Rightarrow> string \<Rightarrow> ftext \<Rightarrow> string option \<Rightarrow> string \<Rightarrow> int \<Rightarrow> wf_state \<Rightarrow> wf_state" where
  "update_close_request i status detail oid fresh now st = (case get_close_request i st of
     None \<Rightarrow> st
   | Some prior \<Rightarrow>
       if cr_status prior = status \<and> cr_detail prior = detail \<and> (\<not> set_text oid \<or> cr_broker_order_id prior = oid) then st
       else if \<not> active_close prior then st
       else let c = prior\<lparr>cr_status := status, cr_detail := detail,
                      cr_broker_order_id := (if set_text oid then oid else cr_broker_order_id prior)\<rparr>;
                st1 = record_audit ''close_request'' None [(''request_id'', i)]
                        (st\<lparr>wf_closes := map (\<lambda>x. if cr_id x = i then c else x) (wf_closes st)\<rparr>);
                st2 = appended (close_stream i) ''close_resolved'' (PClose c) st1
            in notify [Lit ''close/'', Lit i, Lit ''/'', Lit status] ''message''
                 [(''text'', [Lit ''Close '', Lit (cr_symbol prior), Lit '': '', Lit status, Lit ''. ''] @ detail
                   @ [Lit (CHR 0x0A # ''Check /positions for current broker holdings.'')])] fresh now st2)"

definition set_halted :: "string \<Rightarrow> wf_state \<Rightarrow> wf_state" where
  "set_halted v st = st\<lparr>wf_halted := Some v\<rparr>"

definition clear_all_signals :: "wf_state \<Rightarrow> (wf_state \<times> nat) result" where
  "clear_all_signals st =
     (if wf_items st \<noteq> [] \<or> wf_events st \<noteq> []
      then Raise (ValueError (msg ''Cannot reset signal identities with an execution journal or queued work; use quarantine.''))
      else Ok (st\<lparr>wf_signals := [], wf_quarantined := []\<rparr>, length (wf_signals st) + length (wf_quarantined st)))"

end
