(* ===== verification/Lifetimes.thy ===== *)
theory Lifetimes
  imports Signal_Store
begin

text \<open>
  Deadlines of resting entries and open positions: the pure assessment (\<open>execution/lifetimes.py\<close>) and
  the repository of cancellation claims (\<open>storage/lifetimes.py\<close>). An entry has one cancellation, which
  is claimed before the broker is asked, resolved only by exact broker evidence, and halts trading when
  its outcome is not known.
\<close>

subsection \<open>Assessment\<close>

datatype lifetime_action = NoAction | CancelEntry | ClosePosition | Review

record lifetime_decision =
  ld_action :: lifetime_action
  ld_reason :: string
  ld_deadline :: "int option"

definition decision :: "lifetime_action \<Rightarrow> string \<Rightarrow> int option \<Rightarrow> lifetime_decision" where
  "decision a why d = \<lparr>ld_action = a, ld_reason = why, ld_deadline = d\<rparr>"

definition UNFILLED_TERMINAL :: "string list" where "UNFILLED_TERMINAL = [''canceled'', ''expired'', ''rejected'']"

definition WORKING_ENTRY :: "string list" where
  "WORKING_ENTRY = [''new'', ''accepted'', ''pending_new'', ''accepted_for_bidding'', ''done_for_day'']"

definition PROTECTED_EXIT :: "string list" where "PROTECTED_EXIT = [''new'', ''held'']"

definition BRACKET_EXIT_COUNT :: nat where "BRACKET_EXIT_COUNT = 2"
definition MAX_SIGNAL_ID :: int where "MAX_SIGNAL_ID = 2147483647"
definition INCOMPLETE_OR_CHANGED_GROUP :: string where "INCOMPLETE_OR_CHANGED_GROUP = ''incomplete_or_changed_bracket_group''"
definition FILLED_BEFORE_CANCEL :: string where "FILLED_BEFORE_CANCEL = ''filled_before_cancel''"

text \<open>An operator-typed identifier: ASCII digits within the column's range.\<close>

definition parse_signal_id :: "string \<Rightarrow> int option" where
  "parse_signal_id s =
     (if s = [] \<or> \<not> list_all (\<lambda>c. digit_value c \<noteq> None) s \<or> length s > 10 then None
      else case int_of_text s of None \<Rightarrow> None | Some v \<Rightarrow> if v \<le> MAX_SIGNAL_ID then Some v else None)"

text \<open>\<open>math.ceil(n * 7 / 5) + 14\<close>; the quotient is exact enough below the session bound.\<close>

definition holding_calendar_span_days :: "int \<Rightarrow> int" where
  "holding_calendar_span_days n = (case b64 (of_int (n * 7) / 5) of Num r \<Rightarrow> \<lceil>r\<rceil> | _ \<Rightarrow> 0) + 14"

definition unreplaced :: "order_observation \<Rightarrow> bool" where
  "unreplaced o1 = (\<not> set_text (o_replaces o1) \<and> \<not> set_text (o_replaced_by o1))"

definition identity_matches :: "entry_identity \<Rightarrow> order_observation \<Rightarrow> bool result" where
  "identity_matches i o1 =
     andr (Ok (ei_client_order_id i \<noteq> [] \<and> ei_order_id i = o_order_id o1 \<and> ei_client_order_id i = o_client_order_id o1
               \<and> ei_symbol i = o_symbol o1 \<and> ei_side i = o_side o1))
    (andr (wire_eq (ei_quantity i) (o_quantity o1)) (Ok (unreplaced o1)))"

text \<open>The resting deadline, or the review its evidence asks for.\<close>

definition resting_deadline ::
  "(int \<Rightarrow> int) \<Rightarrow> (int \<Rightarrow> int) \<Rightarrow> lifetime_policy \<Rightarrow> order_observation \<Rightarrow> int \<Rightarrow> calendar_day list option
     \<Rightarrow> lifetime_decision + int option" where
  "resting_deadline ny utc policy o1 now sessions = (case o_submitted_at o1 of
     None \<Rightarrow> Inl (decision Review ''missing_or_future_submission_time'' None)
   | Some t \<Rightarrow>
       if t > now then Inl (decision Review ''missing_or_future_submission_time'' None)
       else case policy of
         NativeLifetime p \<Rightarrow> (case native_entry_deadline ny utc p t sessions of
             Inr d \<Rightarrow> Inr (Some d) | Inl why \<Rightarrow> Inl (decision Review why None))
       | TradeLifetime p \<Rightarrow> Inr (trade_entry_deadline p t)
       | SessionLifetime p \<Rightarrow> Inr (Some (session_entry_deadline p t)))"

definition holding_decision ::
  "(int \<Rightarrow> int) \<Rightarrow> (int \<Rightarrow> int) \<Rightarrow> lifetime_policy \<Rightarrow> order_observation \<Rightarrow> int \<Rightarrow> calendar_day list option \<Rightarrow> lifetime_decision result" where
  "holding_decision ny utc policy o1 now sessions =
     (let timed = (\<lambda>d. decision (if now \<ge> d then ClosePosition else NoAction) ''holding_lifetime'' (Some d));
          untimed = decision NoAction ''holding_lifetime_disabled'' None
      in case o_filled_at o1 of
        None \<Rightarrow> Ok (decision Review ''missing_or_future_fill_time'' None)
      | Some t \<Rightarrow>
          if t > now then Ok (decision Review ''missing_or_future_fill_time'' None)
          else case policy of
            SessionLifetime p \<Rightarrow>
              (case sessions of
                 None \<Rightarrow> Ok (decision Review ''session_calendar_unavailable'' None)
               | Some days \<Rightarrow> bindr (session_holding_deadline ny utc p t days) (\<lambda>outcome.
                   Ok (case outcome of Inl why \<Rightarrow> decision Review why None | Inr d \<Rightarrow> timed d)))
          | TradeLifetime p \<Rightarrow> Ok (case trade_holding_deadline p t of None \<Rightarrow> untimed | Some d \<Rightarrow> timed d)
          | NativeLifetime p \<Rightarrow> Ok untimed)"

fun xfinite :: "xdec \<Rightarrow> bool" where "xfinite (Fin _) = True" | "xfinite _ = False"

fun xval :: "xdec \<Rightarrow> dec" where "xval (Fin d) = d" | "xval _ = 0"

definition assess_lifetime ::
  "(int \<Rightarrow> int) \<Rightarrow> (int \<Rightarrow> int) \<Rightarrow> lifetime_policy \<Rightarrow> entry_identity \<Rightarrow> order_observation \<Rightarrow> int \<Rightarrow> calendar_day list option
     \<Rightarrow> lifetime_decision result" where
  "assess_lifetime ny utc policy identity o1 now sessions =
     bindr (Decimal (o_quantity o1)) (\<lambda>q. bindr (Decimal (o_filled_quantity o1)) (\<lambda>f.
     bindr (identity_matches identity o1) (\<lambda>same.
     let quantity = xval q; filled = xval f; resting = resting_deadline ny utc policy o1 now sessions
     in if \<not> same \<or> \<not> xfinite q \<or> \<not> xfinite f \<or> \<not> (0 \<le> filled \<and> filled \<le> quantity) \<or> quantity \<le> 0
        then Ok (decision Review ''entry_identity_or_quantity_changed'' None)
        else if filled = quantity \<and> o_status o1 = ''filled'' then holding_decision ny utc policy o1 now sessions
        else if filled \<noteq> 0
        then Ok (case (policy, o_status o1 = ''partially_filled'', resting) of
               (NativeLifetime _, True, Inr (Some d)) \<Rightarrow>
                 if now < d then decision NoAction ''within_resting_lifetime'' (Some d)
                 else decision Review ''partial_entry_requires_protection_review'' None
             | _ \<Rightarrow> decision Review ''partial_entry_requires_protection_review'' None)
        else if o_status o1 \<in> set UNFILLED_TERMINAL then Ok (decision NoAction ''unfilled_terminal'' None)
        else if o_status o1 \<notin> set WORKING_ENTRY then Ok (decision Review ''unconfirmed_order_transition'' None)
        else Ok (case resting of
               Inl d \<Rightarrow> d
             | Inr None \<Rightarrow> decision NoAction ''resting_lifetime_disabled'' None
             | Inr (Some d) \<Rightarrow> decision (if now \<ge> d then CancelEntry else NoAction) ''resting_lifetime'' (Some d)))))"

definition resting_entry_refusal :: "entry_identity \<Rightarrow> order_observation \<Rightarrow> string option result" where
  "resting_entry_refusal identity parent =
     bindr (identity_matches identity parent) (\<lambda>same.
     if \<not> same then Ok (Some INCOMPLETE_OR_CHANGED_GROUP)
     else bindr (wire_is (o_filled_quantity parent) 0) (\<lambda>unfilled.
     Ok (if \<not> unfilled \<or> o_status parent \<notin> set WORKING_ENTRY then Some ''not_resting'' else None)))"

definition order_by_id :: "string \<Rightarrow> order_observation list \<Rightarrow> order_observation option" where
  "order_by_id i orders = find (\<lambda>o1. o_order_id o1 = i) orders"

definition exits_of :: "entry_identity \<Rightarrow> order_observation list \<Rightarrow> order_observation list" where
  "exits_of identity orders = filter (\<lambda>o1. o_order_id o1 \<noteq> ei_order_id identity) orders"

definition foreign_exit :: "entry_identity \<Rightarrow> order_observation \<Rightarrow> bool result" where
  "foreign_exit identity o1 =
     orr (Ok (o_symbol o1 \<noteq> ei_symbol identity \<or> o_side o1 = ei_side identity))
    (orr (bindr (wire_eq (o_quantity o1) (ei_quantity identity)) (\<lambda>e. Ok (\<not> e)))
    (orr (bindr (wire_is (o_filled_quantity o1) 0) (\<lambda>e. Ok (\<not> e)))
         (Ok (\<not> unreplaced o1))))"

definition bracket_group_refusal :: "entry_identity \<Rightarrow> order_observation list \<Rightarrow> string option result" where
  "bracket_group_refusal identity orders = (case order_by_id (ei_order_id identity) orders of
     None \<Rightarrow> Ok (Some INCOMPLETE_OR_CHANGED_GROUP)
   | Some parent \<Rightarrow>
       if o_order_class parent \<noteq> ''bracket'' \<or> length (exits_of identity orders) \<noteq> BRACKET_EXIT_COUNT
       then Ok (Some INCOMPLETE_OR_CHANGED_GROUP)
       else bindr (anyr (foreign_exit identity) (exits_of identity orders)) (\<lambda>foreign.
            Ok (if foreign then Some INCOMPLETE_OR_CHANGED_GROUP else None)))"

text \<open>
  The order kept for an identifier is the last of that identifier (\<open>{o.order_id: o for o in orders}\<close>).
  With exits of infinite quantity the decimal reads of \<open>protective_stop\<close> raise before its quantity is compared.
\<close>

definition last_order :: "string \<Rightarrow> order_observation list \<Rightarrow> order_observation option" where
  "last_order i orders = find (\<lambda>o1. o_order_id o1 = i) (rev orders)"

definition filled_before_cancel :: "entry_identity \<Rightarrow> order_observation list \<Rightarrow> string list \<Rightarrow> bool result" where
  "filled_before_cancel identity orders order_ids = (case last_order (ei_order_id identity) orders of
     None \<Rightarrow> Ok False
   | Some parent \<Rightarrow>
       andr (identity_matches identity parent)
      (andr (Ok (o_status parent = ''filled''))
      (andr (wire_eq (o_filled_quantity parent) (o_quantity parent))
      (andr (Ok (set order_ids \<subseteq> o_order_id ` set orders))
      (andr (bindr (bracket_group_refusal identity orders) (\<lambda>r. Ok (r = None)))
      (andr (Ok (list_all (\<lambda>o1. o_status o1 \<in> set PROTECTED_EXIT) (exits_of identity orders)
               \<and> length (filter (\<lambda>o1. o_order_type o1 = ''limit'') (exits_of identity orders)) = 1))
            (bindr (Decimal (ei_quantity identity)) (\<lambda>q.
             bindr (protective_stop (exits_of identity orders) (ei_side identity) (xval q)) (\<lambda>stop. Ok (stop \<noteq> None))))))))))"

subsection \<open>Claiming a cancellation (\<open>begin_cancel\<close>)\<close>

definition cancel_of :: "int \<Rightarrow> wf_state \<Rightarrow> work_item option" where
  "cancel_of sid st = find_item (\<lambda>w. w_kind w = EntryCancel \<and> w_dedup w = [FInt sid]) st"

definition accepted_entry :: "int \<Rightarrow> wf_state \<Rightarrow> work_item option" where
  "accepted_entry sid st = find_item (\<lambda>w. w_kind w = Entry \<and> w_dedup w = [FInt sid] \<and> w_status w = Accepted) st"

definition view_of :: "string \<Rightarrow> wf_state \<Rightarrow> order_observation option" where
  "view_of i st = map_option snd (map_of (wf_orders st) i)"

text \<open>The accepted entry submitted exactly this order.\<close>

definition owns_entry :: "entry_identity \<Rightarrow> work_item option \<Rightarrow> bool" where
  "owns_entry identity entry = (case entry of
     None \<Rightarrow> False
   | Some w \<Rightarrow> (case item_request w of Some r \<Rightarrow> rq_client_order_id r = Some (ei_client_order_id identity) | None \<Rightarrow> False)
       \<and> (case w_result w of EntryResult r \<Rightarrow> or_order_id r = Some (ei_order_id identity) | _ \<Rightarrow> False))"

definition changed_leg :: "entry_identity \<Rightarrow> order_observation \<Rightarrow> bool result" where
  "changed_leg identity current =
     orr (bindr (wire_is (o_filled_quantity current) 0) (\<lambda>e. Ok (\<not> e)))
    (orr (Ok (\<not> unreplaced current \<or> o_symbol current \<noteq> ei_symbol identity))
         (bindr (wire_eq (o_quantity current) (ei_quantity identity)) (\<lambda>e. Ok (\<not> e))))"

fun legs_refusal :: "bool \<Rightarrow> entry_identity \<Rightarrow> wf_state \<Rightarrow> order_observation list \<Rightarrow> string option result" where
  "legs_refusal operator identity st [] = Ok None"
| "legs_refusal operator identity st (observed # rest) = (case view_of (o_order_id observed) st of
     None \<Rightarrow> Ok (Some INCOMPLETE_OR_CHANGED_GROUP)
   | Some current \<Rightarrow> bindr (changed_leg identity current) (\<lambda>changed.
       if \<not> changed then legs_refusal operator identity st rest
       else if \<not> operator then Raise (ValueError (msg ''Bracket evidence changed before cancellation claim''))
       else bindr (wire_is (o_filled_quantity current) 0) (\<lambda>unfilled.
            Ok (Some (if unfilled then INCOMPLETE_OR_CHANGED_GROUP else ''not_resting'')))))"

text \<open>The policy fence of a deadline cancel; an operator cancel has none.\<close>

definition lifetime_fence :: "bool \<Rightarrow> signal \<Rightarrow> lifetime_policy option result" where
  "lifetime_fence operator s = (if operator then Ok None else entry_lifetime_of (sg_policies s))"

definition parent_refusal ::
  "(int \<Rightarrow> int) \<Rightarrow> (int \<Rightarrow> int) \<Rightarrow> bool \<Rightarrow> lifetime_policy option \<Rightarrow> entry_identity \<Rightarrow> order_observation \<Rightarrow> int
     \<Rightarrow> calendar_day list option \<Rightarrow> string option result" where
  "parent_refusal ny utc operator stored identity parent now sessions =
     (if operator then resting_entry_refusal identity parent
      else case stored of
        None \<Rightarrow> Ok (Some ''not_due'')
      | Some policy \<Rightarrow> bindr (assess_lifetime ny utc policy identity parent now sessions) (\<lambda>d.
          Ok (if ld_action d \<noteq> CancelEntry then Some ''not_due'' else None)))"

definition resting_signal :: "entry_identity \<Rightarrow> signal \<Rightarrow> bool" where
  "resting_signal identity s = (sg_status s = EXECUTED \<and> sg_executed_at s = None
     \<and> sg_broker_order_id s = Some (ei_order_id identity))"

text \<open>Every check of the claim, in the code's order: a refusal token, or \<open>None\<close>.\<close>

definition cancel_refusal ::
  "(int \<Rightarrow> int) \<Rightarrow> (int \<Rightarrow> int) \<Rightarrow> bool \<Rightarrow> int \<Rightarrow> entry_identity \<Rightarrow> order_observation list \<Rightarrow> lifetime_policy option \<Rightarrow> int
     \<Rightarrow> calendar_day list option \<Rightarrow> wf_state \<Rightarrow> string option result" where
  "cancel_refusal ny utc operator sid identity orders lifetime now sessions st =
     (if cancel_of sid st \<noteq> None then Ok (Some ''cancel_in_progress'')
      else case find_signal (\<lambda>s. sg_id s = sid) st of
        None \<Rightarrow> Ok (Some ''not_resting'')
      | Some s \<Rightarrow>
          if \<not> resting_signal identity s then Ok (Some ''not_resting'')
          else bindr (lifetime_fence operator s) (\<lambda>stored.
          if \<not> operator \<and> (stored = None \<or> stored \<noteq> lifetime) then Ok (Some ''lifetime_mismatch'')
          else if \<not> owns_entry identity (accepted_entry sid st)
          then (if operator then Ok (Some ''no_durable_entry'')
                else Raise (ValueError (msg ''Lifetime cancellation lacks exact durable entry ownership'')))
          else case view_of (ei_order_id identity) st of
            None \<Rightarrow> Ok (Some INCOMPLETE_OR_CHANGED_GROUP)
          | Some parent \<Rightarrow>
              bindr (parent_refusal ny utc operator stored identity parent now sessions) (\<lambda>r.
              if r \<noteq> None then Ok r
              else bindr (legs_refusal operator identity st orders) (\<lambda>r.
              if r \<noteq> None then Ok r
              else Ok (if list_ex (\<lambda>c. active_close c \<and> cr_symbol c = ei_symbol identity) (wf_closes st)
                       then Some ''close_active'' else None)))))"

definition cancel_id :: "string \<Rightarrow> string" where
  "cancel_id fresh = ''cancel-'' @ fresh"

definition cancel_stream :: "string \<Rightarrow> ftext" where
  "cancel_stream i = [Lit ''entry-cancel/'', Lit i]"

definition cancel_intent :: "bool \<Rightarrow> int \<Rightarrow> string \<Rightarrow> ftext" where
  "cancel_intent operator sid symbol =
     (if operator
      then [Lit ''Operator cancel requested for entry '', Lit symbol, Lit '' (signal '', FInt sid, Lit ''); awaiting broker confirmation.'']
      else [Lit ''Entry #'', FInt sid, Lit '' reached its resting deadline. Cancellation intent recorded for '', Lit symbol,
            Lit ''; awaiting broker confirmation.''])"

definition claim_cancel ::
  "(int \<Rightarrow> int) \<Rightarrow> bool \<Rightarrow> cancel_claim \<Rightarrow> string \<Rightarrow> string \<Rightarrow> int \<Rightarrow> wf_state \<Rightarrow> wf_state \<times> work_item" where
  "claim_cancel et_date operator claim cid fresh now st =
     (case wf_append (cancel_stream cid) ''entry_cancel_requested'' (PCancelRequested claim) None st of (st1, e) \<Rightarrow>
        let w = \<lparr>w_id = cid, w_sequence = ev_id e, w_dedup = [FInt (cc_signal_id claim)], w_kind = EntryCancel,
                  w_status = Submitting, w_payload = CancelPayload claim, w_result = NoResult, w_attempts = 1, w_token = None,
                  w_lease_until = None, w_available_at = now, w_created_at = now\<rparr>;
            st2 = add_item w st1
        in (if operator \<or> \<not> folds_into_auto_digest et_date (cc_signal_id claim) now st2
            then notify [Lit ''entry-cancel/'', Lit cid, Lit ''/intent''] ''message''
                   [(''text'', cancel_intent operator (cc_signal_id claim) (ei_symbol (cc_identity claim)))] fresh now st2
            else st2, w))"

definition begin_cancel ::
  "(int \<Rightarrow> int) \<Rightarrow> (int \<Rightarrow> int) \<Rightarrow> (int \<Rightarrow> int) \<Rightarrow> string \<Rightarrow> int \<Rightarrow> entry_identity \<Rightarrow> order_observation list \<Rightarrow> lifetime_policy option
     \<Rightarrow> int \<Rightarrow> calendar_day list option \<Rightarrow> string \<Rightarrow> string \<Rightarrow> int \<Rightarrow> wf_state \<Rightarrow> (wf_state \<times> (string + work_item)) result" where
  "begin_cancel ny utc et_date cause sid identity orders lifetime now sessions fresh_id fresh_note clock st =
     (let operator = (cause = ''operator'')
      in bindr (cancel_refusal ny utc operator sid identity orders lifetime now sessions st) (\<lambda>refusal.
         case refusal of
           Some why \<Rightarrow> Ok (st, Inl why)
         | None \<Rightarrow>
             (case claim_cancel et_date operator \<lparr>cc_signal_id = sid, cc_cause = cause, cc_identity = identity,
                     cc_lifetime = lifetime, cc_order_ids = map o_order_id orders, cc_before = orders\<rparr>
                     (cancel_id fresh_id) fresh_note clock st of
                (st', w) \<Rightarrow> Ok (st', Inr w))))"

subsection \<open>Resolving it (\<open>resolve_cancel\<close>)\<close>

definition allr :: "('a \<Rightarrow> bool result) \<Rightarrow> 'a list \<Rightarrow> bool result" where
  "allr p xs = bindr (anyr (\<lambda>x. bindr (p x) (\<lambda>b. Ok (\<not> b))) xs) (\<lambda>b. Ok (\<not> b))"

definition text_order :: "string \<Rightarrow> nat list" where
  "text_order s = map of_char s"

text \<open>The journaled views of the claimed and the just-read orders.\<close>

definition effective_orders :: "string list \<Rightarrow> order_observation list \<Rightarrow> wf_state \<Rightarrow> order_observation list" where
  "effective_orders ids orders st =
     sort_key (\<lambda>o1. text_order (o_order_id o1))
       (List.map_filter (\<lambda>i. view_of i st) (remdups (ids @ map o_order_id orders)))"

definition ended_unfilled :: "order_observation \<Rightarrow> bool result" where
  "ended_unfilled o1 = andr (Ok (o_status o1 \<in> set UNFILLED_TERMINAL))
     (andr (wire_is (o_filled_quantity o1) 0) (Ok (unreplaced o1)))"

definition cancel_complete :: "cancel_claim \<Rightarrow> order_observation list \<Rightarrow> bool result" where
  "cancel_complete claim effective = (case last_order (ei_order_id (cc_identity claim)) effective of
     None \<Rightarrow> Ok False
   | Some parent \<Rightarrow>
       andr (identity_matches (cc_identity claim) parent)
      (andr (Ok (set (cc_order_ids claim) \<subseteq> o_order_id ` set effective))
            (allr ended_unfilled effective)))"

definition recorded_error :: "work_item option \<Rightarrow> string option" where
  "recorded_error row = (case row of
     Some w \<Rightarrow> (case w_result w of CancelResult r \<Rightarrow> cx_transport_error r | _ \<Rightarrow> None) | None \<Rightarrow> None)"

definition cancel_notice :: "cancel_claim \<Rightarrow> string \<Rightarrow> bool \<Rightarrow> bool \<Rightarrow> work_status \<Rightarrow> ftext" where
  "cancel_notice claim why confirmed filled_first previous =
     (if filled_first
      then [Lit ''Entry #'', FInt (cc_signal_id claim), Lit '' filled before the '', Lit (cc_cause claim),
            Lit '' cancellation; the position is open and protected.'']
           @ (if previous = Unknown then [Lit '' The earlier halt stays until /resume.''] else [])
      else [Lit ''Entry #'', FInt (cc_signal_id claim), Lit '' '', Lit (cc_cause claim), Lit '' cancellation: '', Lit why, Lit ''. '',
            Lit (if confirmed then ''Broker confirms no fills.''
                 else ''New risk halted. Inspect exact broker fills and protective orders; no automatic retry.'')])"

text \<open>The outcome is final, or nothing about it is new.\<close>

definition cancel_settled :: "work_item \<Rightarrow> work_status \<Rightarrow> cancel_result \<Rightarrow> bool \<Rightarrow> string option \<Rightarrow> bool" where
  "cancel_settled row status outcome confirmed transport_error =
     (w_kind row \<noteq> EntryCancel \<or> (w_status row = Accepted \<and> (\<not> confirmed \<or> \<not> set_text transport_error))
      \<or> w_status row = Rejected \<or> (w_status row = status \<and> w_result row = CancelResult outcome))"

definition settle_cancel ::
  "(int \<Rightarrow> int) \<Rightarrow> work_item \<Rightarrow> cancel_claim \<Rightarrow> work_status \<Rightarrow> cancel_result \<Rightarrow> bool \<Rightarrow> bool \<Rightarrow> string \<Rightarrow> int \<Rightarrow> wf_state \<Rightarrow> wf_state" where
  "settle_cancel et_date row claim status outcome confirmed filled_first fresh now st =
     (let st1 = update_item (w_id row) (\<lambda>_. row\<lparr>w_status := status, w_result := CancelResult outcome\<rparr>) st;
          st2 = appended (cancel_stream (w_id row)) ''entry_cancel_resolved'' (PCancelResolved status outcome) st1;
          st3 = (if confirmed
                 then update_signals (\<lambda>s. sg_id s = cc_signal_id claim \<and> resting_signal (cc_identity claim) s)
                        (\<lambda>s. s\<lparr>sg_status := FAILED\<rparr>) st2
                 else st2);
          st4 = (if \<not> confirmed \<and> \<not> filled_first
                 then halt [Lit ''Unconfirmed entry cancellation '', Lit (w_id row), Lit ''; inspect fills/protection before resuming''] st3
                 else st3);
          folded = (confirmed \<and> \<not> filled_first \<and> cc_cause claim = ''deadline'' \<and> w_status row \<noteq> Unknown
                    \<and> folds_into_auto_digest et_date (cc_signal_id claim) now st4)
      in if folded then st4
         else notify [Lit ''entry-cancel/'', Lit (w_id row), Lit ''/'', Lit (status_text status)] ''message''
                [(''text'', cancel_notice claim (cx_reason outcome) confirmed filled_first (w_status row))] fresh now st4)"

text \<open>
  Whether the evidence confirms an unfilled cancellation, and otherwise whether the entry filled before
  the broker refused to cancel it.
\<close>

definition cancel_verdict ::
  "cancel_claim \<Rightarrow> order_observation list \<Rightarrow> order_observation list \<Rightarrow> string option \<Rightarrow> string option \<Rightarrow> (bool \<times> bool) result" where
  "cancel_verdict claim effective orders why refused =
     bindr (cancel_complete claim effective) (\<lambda>confirmed.
     bindr (andr (Ok (\<not> confirmed \<and> why = None \<and> set_text refused \<and> orders \<noteq> []))
                 (filled_before_cancel (cc_identity claim) effective (cc_order_ids claim))) (\<lambda>filled_first.
     Ok (confirmed, filled_first)))"

definition verdict_status :: "bool \<Rightarrow> bool \<Rightarrow> work_status" where
  "verdict_status confirmed filled_first = (if confirmed then Accepted else if filled_first then Rejected else Unknown)"

definition verdict_reason :: "bool \<Rightarrow> bool \<Rightarrow> string option \<Rightarrow> string" where
  "verdict_reason confirmed filled_first why =
     (if confirmed then ''confirmed_unfilled_cancellation'' else if filled_first then FILLED_BEFORE_CANCEL
      else str_or why ''unconfirmed_cancellation_or_fill_race'')"

definition resolve_cancel ::
  "(int \<Rightarrow> int) \<Rightarrow> string \<Rightarrow> cancel_claim \<Rightarrow> order_observation list \<Rightarrow> string option \<Rightarrow> string option \<Rightarrow> bool \<Rightarrow> string \<Rightarrow> int \<Rightarrow> wf_state
     \<Rightarrow> (wf_state \<times> bool) result" where
  "resolve_cancel et_date item_id claim orders why transport_error allow_pending fresh now st =
     (let effective = effective_orders (cc_order_ids claim) orders st;
          row = find_item (\<lambda>w. w_id w = item_id) st;
          refused = (if set_text transport_error then transport_error else recorded_error row)
      in bindr (cancel_verdict claim effective orders why refused) (\<lambda>(confirmed, filled_first).
         let status = verdict_status confirmed filled_first;
             outcome = \<lparr>cx_reason = verdict_reason confirmed filled_first why, cx_orders = effective, cx_transport_error = refused\<rparr>
         in if \<not> confirmed \<and> \<not> filled_first \<and> allow_pending then Ok (st, False)
            else case row of
              None \<Rightarrow> Ok (st, True)
            | Some w \<Rightarrow>
                if cancel_settled w status outcome confirmed transport_error then Ok (st, True)
                else Ok (settle_cancel et_date w claim status outcome confirmed filled_first fresh now st, True)))"

text \<open>Either nothing changes, or the claimed item is settled by the recorded evidence.\<close>

lemma resolve_cancel_cases:
  assumes "resolve_cancel et_date item_id claim orders why err pending f now st = Ok (st', b)"
  shows "st' = st \<or> (\<exists>w outcome confirmed filled_first refused. find_item (\<lambda>w. w_id w = item_id) st = Some w
    \<and> cancel_verdict claim (effective_orders (cc_order_ids claim) orders st) orders why refused = Ok (confirmed, filled_first)
    \<and> \<not> cancel_settled w (verdict_status confirmed filled_first) outcome confirmed err
    \<and> st' = settle_cancel et_date w claim (verdict_status confirmed filled_first) outcome confirmed filled_first f now st)"
proof -
  let ?row = "find_item (\<lambda>w. w_id w = item_id) st"
  let ?refused = "if set_text err then err else recorded_error ?row"
  obtain c ff where v: "cancel_verdict claim (effective_orders (cc_order_ids claim) orders st) orders why ?refused = Ok (c, ff)"
    using assms by (auto simp: resolve_cancel_def Let_def bindr_Inr_iff)
  show ?thesis
  proof (cases ?row)
    case (Some w)
    then show ?thesis using assms v by (auto simp: resolve_cancel_def Let_def split: if_split_asm)
  qed (use assms v in \<open>auto simp: resolve_cancel_def Let_def split: if_split_asm\<close>)
qed

lemma verdict_status_cases: "verdict_status c ff \<in> {Accepted, Rejected, Unknown}"
  by (simp add: verdict_status_def)

definition missed_bound :: "int \<Rightarrow> string option \<Rightarrow> (string \<times> ftext) list \<Rightarrow> string \<Rightarrow> int \<Rightarrow> wf_state \<Rightarrow> wf_state" where
  "missed_bound sid symbol evidence fresh now st =
     (let key = [Lit ''entry-lifetime-missed/'', FInt sid]
      in notify key ''message'' [(''text'', [Lit ''Entry #'', FInt sid, Lit '' ('', Lit (str_or symbol ''unknown symbol''),
             Lit '') filled after its session-close cancel deadline: the cancel was missed (reconciliation late or host asleep). '',
             Lit ''The position is open with its bracket; no halt.''])] fresh now
           (fst (wf_append [Lit ''signal/'', FInt sid, Lit ''/lifetime''] ''entry_lifetime_missed'' (PData evidence) (Some key) st)))"

definition lifetime_review :: "int \<Rightarrow> string \<Rightarrow> string \<Rightarrow> int \<Rightarrow> wf_state \<Rightarrow> wf_state" where
  "lifetime_review sid why fresh now st =
     (let key = [Lit ''lifetime-review/'', FInt sid, Lit ''/'', Lit why]
      in notify key ''message'' [(''text'', [Lit ''Lifetime review required for signal #'', FInt sid, Lit '': '', Lit why,
             Lit ''. New risk halted; inspect broker quantity/protection.''])] fresh now
           (fst (wf_append [Lit ''signal/'', FInt sid, Lit ''/lifetime''] ''lifetime_review'' (PData [(''reason'', msg why)]) (Some key)
              (halt [Lit ''Lifetime review for signal #'', FInt sid, Lit '': '', Lit why] st))))"

end
