(* ===== verification/Desk.thy ===== *)
theory Desk
  imports Lifetimes
begin

text \<open>
  The desk: every transaction of the durable store, in any order. One is left out: the
  compaction of \<open>storage/maintenance.py\<close>, which deletes repeated healthy observations from the journal,
  events of a kind that nothing here reads. What the operations outside the
  entry queue keep of the journal, the item table and the order views is proved once, over an
  interface of the store's primitives, and instantiated for each of the two invariants.
\<close>

definition journal_kinds :: "string list" where
  "journal_kinds = entry_kinds @ [''order_observed'']"

definition plain_event :: "ftext \<Rightarrow> string \<Rightarrow> ftext option \<Rightarrow> bool" where
  "plain_event stream kind key = (kind \<notin> set journal_kinds \<and> \<not> order_key key \<and> stream \<notin> range entry_stream)"

subsection \<open>Operations\<close>

definition new_signal_id :: "int \<Rightarrow> wf_state \<Rightarrow> bool" where
  "new_signal_id sid st = list_all (\<lambda>s. sg_id s \<noteq> sid) (wf_signals st @ wf_quarantined st)"

definition CLOSED :: "string list" where
  "CLOSED = [''CLOSED_WIN'', ''CLOSED_LOSS'']"

text \<open>What the modelled tables do not hold: the ledger, the alpha registry, the halt flag, the audit trail.\<close>

definition elsewhere :: "wf_state \<Rightarrow> wf_state \<Rightarrow> bool" where
  "elsewhere st st' = (wf_items st' = wf_items st \<and> wf_events st' = wf_events st \<and> wf_next st' = wf_next st
     \<and> wf_orders st' = wf_orders st \<and> wf_signals st' = wf_signals st \<and> wf_quarantined st' = wf_quarantined st
     \<and> wf_closes st' = wf_closes st)"

text \<open>
  The transactions outside the entry queue, with the identifiers each uses. Signals are recorded pending
  under a new identifier, a reconciled fill marks its signal executed, and a position is closed as a
  win or a loss, as their callers do.
\<close>

inductive desk_op :: "(int \<Rightarrow> int) \<Rightarrow> (int \<Rightarrow> int) \<Rightarrow> (int \<Rightarrow> int) \<Rightarrow> (string \<Rightarrow> stamp option) \<Rightarrow> string set \<Rightarrow> wf_state \<Rightarrow> wf_state \<Rightarrow> bool"
  for ny utc et_date :: "int \<Rightarrow> int" and fromiso :: "string \<Rightarrow> stamp option" where
  recorded: "new_signal_id sid st \<Longrightarrow> sg_status row = PENDING
    \<Longrightarrow> desk_op ny utc et_date fromiso {f} st (fst (record_signal row note sid f now st))"
| replaced: "new_signal_id sid st \<Longrightarrow> sg_status row = PENDING
    \<Longrightarrow> desk_op ny utc et_date fromiso {f} st (fst (replace_signal old row args sid f now st))"
| expire: "desk_op ny utc et_date fromiso {} st (fst (expire_signal i st))"
| dismiss: "desk_op ny utc et_date fromiso {} st (fst (dismiss_signal i st))"
| sweep: "inj fresh \<Longrightarrow> desk_op ny utc et_date fromiso (range fresh) st (fst (expire_stale_signals ny fromiso cs fresh now st))"
| quarantine: "quarantine_signal i ex st = Ok (st', b) \<Longrightarrow> desk_op ny utc et_date fromiso {} st st'"
| executed: "eu_status u = EXECUTED \<Longrightarrow> desk_op ny utc et_date fromiso {f} st (update_signal_execution sid u f now st)"
| exit: "ef_status x \<in> set CLOSED \<Longrightarrow> desk_op ny utc et_date fromiso {f} st (fst (close_position sid x given f now st))"
| stop: "desk_op ny utc et_date fromiso {f} st (fst (update_position_stop sid new_stop note f now st))"
| exit_requested: "desk_op ny utc et_date fromiso {} st (record_exit_request sid oid st)"
| exit_cleared: "desk_op ny utc et_date fromiso {} st (clear_failed_exit_request sid oid st)"
| close_claimed: "claim_close_request req f now st = Ok (st', b, c) \<Longrightarrow> desk_op ny utc et_date fromiso {f} st st'"
| close_updated: "desk_op ny utc et_date fromiso {f} st (update_close_request i status detail oid' f now st)"
| halted: "desk_op ny utc et_date fromiso {} st (set_halted v st)"
| cleared: "clear_all_signals st = Ok (st', n) \<Longrightarrow> desk_op ny utc et_date fromiso {} st st'"
| cancel_claimed: "begin_cancel ny utc et_date cause sid identity orders lifetime t sessions f g now st = Ok (st', y)
    \<Longrightarrow> cancel_id f \<noteq> g \<Longrightarrow> desk_op ny utc et_date fromiso {cancel_id f, g} st st'"
| cancel_resolved: "resolve_cancel et_date item_id claim orders why err pending f now st = Ok (st', b)
    \<Longrightarrow> desk_op ny utc et_date fromiso {f} st st'"
| missed: "desk_op ny utc et_date fromiso {f} st (missed_bound sid symbol evidence f now st)"
| review: "desk_op ny utc et_date fromiso {f} st (lifetime_review sid why f now st)"
| reevaluate: "desk_op ny utc et_date fromiso {} st (fst (claim_card_reevaluation sid payload st))"
| digest_queued: "desk_op ny utc et_date fromiso {f} st (fst (queue_auto_entry_digest day body f now st))"
| noticed: "desk_op ny utc et_date fromiso {f} st (notify key kind args f now st)"
| journal: "plain_event stream kind key \<Longrightarrow> desk_op ny utc et_date fromiso {} st (fst (wf_append stream kind payload key st))"
| outside: "elsewhere st st' \<Longrightarrow> desk_op ny utc et_date fromiso {} st st'"

subsection \<open>Frames\<close>

text \<open>
  A predicate carried by the primitives of a transaction. The set holds the identifiers that are still
  unused: adding an item consumes one.
\<close>

locale workflow_frame =
  fixes carried :: "string set \<Rightarrow> wf_state \<Rightarrow> bool"
  assumes outside_tables: "carried F st \<Longrightarrow> wf_items st' = wf_items st \<Longrightarrow> wf_events st' = wf_events st
      \<Longrightarrow> wf_next st' = wf_next st \<Longrightarrow> wf_orders st' = wf_orders st \<Longrightarrow> carried F st'"
    and append: "carried F st \<Longrightarrow> plain_event stream kind key \<Longrightarrow> carried F (fst (wf_append stream kind payload key st))"
    and append_item: "carried (insert f F) st \<Longrightarrow> f \<notin> F \<Longrightarrow> plain_event stream kind None \<Longrightarrow> w_id w = f
      \<Longrightarrow> w_sequence w = wf_next st \<Longrightarrow> w_kind w \<noteq> Entry \<Longrightarrow> \<forall>v \<in> set (wf_items st). item_key v \<noteq> item_key w
      \<Longrightarrow> carried F (add_item w (fst (wf_append stream kind payload None st)))"
    and settle_item: "carried F st \<Longrightarrow> row \<in> set (wf_items st) \<Longrightarrow> w_kind row = EntryCancel
      \<Longrightarrow> s \<in> {Accepted, Rejected, Unknown}
      \<Longrightarrow> carried F (update_item (w_id row) (\<lambda>_. row\<lparr>w_status := s, w_result := r\<rparr>) st)"
    and weaken: "carried F st \<Longrightarrow> G \<subseteq> F \<Longrightarrow> carried G st"
begin

lemma carried_update_signal: "carried F st \<Longrightarrow> carried F (update_signal i f st)"
  by (erule outside_tables) (simp_all add: update_signal_def)

lemma carried_update_signals: "carried F st \<Longrightarrow> carried F (update_signals p f st)"
  by (erule outside_tables) (simp_all add: update_signals_def)

lemma carried_audit: "carried F st \<Longrightarrow> carried F (record_audit k i e st)"
  by (erule outside_tables) (simp_all add: record_audit_def)

lemma carried_halt: "carried F st \<Longrightarrow> carried F (halt why st)"
  by (erule outside_tables) (simp_all add: halt_def)

lemma carried_closes: "carried F st \<Longrightarrow> carried F (st\<lparr>wf_closes := x\<rparr>)"
  by (erule outside_tables) simp_all

lemma carried_signals: "carried F st \<Longrightarrow> carried F (st\<lparr>wf_signals := x\<rparr>)"
  by (erule outside_tables) simp_all

lemma carried_append:
  "carried F st \<Longrightarrow> kind \<notin> set journal_kinds \<Longrightarrow> \<not> order_key key \<Longrightarrow> stream \<notin> range entry_stream
     \<Longrightarrow> carried F (fst (wf_append stream kind payload key st))"
  by (rule append) (simp_all add: plain_event_def)

lemma carried_notify:
  assumes "carried (insert f F) st" "f \<notin> F"
  shows "carried F (notify key kind args f now st)"
proof (cases "find_item (\<lambda>w. w_kind w = Notification \<and> w_dedup w = key) st")
  case None
  let ?w = "\<lparr>w_id = f, w_sequence = wf_next st, w_dedup = key, w_kind = Notification, w_status = Queued,
    w_payload = NotePayload kind args, w_result = NoResult, w_attempts = 0, w_token = None, w_lease_until = None,
    w_available_at = now, w_created_at = now\<rparr>"
  have "\<forall>v \<in> set (wf_items st). item_key v \<noteq> item_key ?w"
    using None by (auto simp: find_item_def find_None_iff item_key_def)
  then have "carried F (add_item ?w (appended [Lit ''notification/'', Lit f] ''notification_queued'' (PNote kind key) st))"
    using assms by (intro append_item) (auto simp: plain_event_def journal_kinds_def entry_kinds_def order_key_def entry_stream_def)
  then show ?thesis using None by (simp add: add_notification_def)
next
  case (Some w)
  then show ?thesis using weaken [OF assms(1), of F] by (auto simp: add_notification_def)
qed

lemmas carried_intros = carried_update_signal carried_update_signals carried_audit carried_halt carried_closes carried_signals
  carried_append carried_notify

lemmas other_simps = journal_kinds_def entry_kinds_def order_key_def entry_stream_def close_stream_def cancel_stream_def

lemma carried_weaken: "carried F st \<Longrightarrow> carried {} st"
  by (rule weaken) simp_all

lemma carried_insert:
  assumes "carried {f} st"
  shows "carried {} (fst (insert_signal row note sid f now st))"
proof -
  have "carried {f} (record_audit k i e (st\<lparr>wf_signals := x\<rparr>))" for k i e x using assms by (intro carried_intros)
  then have "carried {} (record_audit k i e (st\<lparr>wf_signals := x\<rparr>))"
    "carried {f} (record_audit k i e (st\<lparr>wf_signals := x\<rparr>))" for k i e x using carried_weaken by blast+
  then show ?thesis by (auto simp: insert_signal_def Let_def split: option.split intro!: carried_notify)
qed

lemma carried_expire: "carried F st \<Longrightarrow> carried F (fst (expire_signal i st))"
  by (simp add: expire_signal_def move_signal_def carried_intros)

lemma carried_sweep:
  assumes "carried (fresh ` {..<length rows}) st" "inj fresh"
  shows "carried {} (fst (expire_each ny fromiso cs fresh now rows st))"
  using assms(1)
proof (induction rows arbitrary: st)
  case Nil
  then show ?case by simp
next
  case (Cons row rows)
  have sub: "fresh ` {..<length rows} \<subseteq> fresh ` {..<length (row # rows)}" by auto
  have split: "fresh ` {..<length (row # rows)} = insert (fresh (length rows)) (fresh ` {..<length rows})"
    by (auto simp: lessThan_Suc)
  have fresh: "fresh (length rows) \<notin> fresh ` {..<length rows}" using assms(2) by (auto dest: injD)
  obtain st1 b where e: "expire_signal (sg_id row) st = (st1, b)" by fastforce
  then have c: "carried (fresh ` {..<length (row # rows)}) st1" using carried_expire [OF Cons.prems, of "sg_id row"] by simp
  have "carried (fresh ` {..<length rows}) (notify k kd a (fresh (length rows)) now st1)" for k kd a
    using c fresh unfolding split by (rule carried_notify)
  then show ?case
    using Cons.IH weaken [OF Cons.prems sub] weaken [OF c sub] e
    by (auto simp: split_beta split: bool.split)
qed

lemma carried_cancel_claim:
  assumes "carried {cid, g} st" "cid \<noteq> g" "cancel_of (cc_signal_id claim) st = None"
  shows "carried {} (fst (claim_cancel et_date operator claim cid g now st))"
proof -
  let ?w = "\<lparr>w_id = cid, w_sequence = wf_next st, w_dedup = [FInt (cc_signal_id claim)], w_kind = EntryCancel,
     w_status = Submitting, w_payload = CancelPayload claim, w_result = NoResult, w_attempts = 1, w_token = None,
     w_lease_until = None, w_available_at = now, w_created_at = now\<rparr>"
  have "\<forall>v \<in> set (wf_items st). item_key v \<noteq> item_key ?w"
    using assms(3) by (auto simp: cancel_of_def find_item_def find_None_iff item_key_def)
  then have c: "carried {g} (add_item ?w (appended (cancel_stream cid) ''entry_cancel_requested'' (PCancelRequested claim) st))"
    using assms(1,2) by (intro append_item) (auto simp: plain_event_def other_simps)
  then show ?thesis
    using carried_weaken [OF c] by (auto simp: claim_cancel_def Let_def intro!: carried_notify)
qed

lemma carried_begin_cancel:
  assumes "begin_cancel ny utc et_date cause sid identity orders lifetime t sessions f g now st = Ok (st', y)"
    "carried {cancel_id f, g} st" "cancel_id f \<noteq> g"
  shows "carried {} st'"
proof (cases "cancel_refusal ny utc (cause = ''operator'') sid identity orders lifetime t sessions st")
  case (Inr r)
  show ?thesis
  proof (cases r)
    case None
    then have "cancel_of sid st = None" using Inr by (auto simp: cancel_refusal_def split: if_splits)
    then show ?thesis
      using assms Inr None carried_cancel_claim [OF assms(2,3)]
      by (auto simp: begin_cancel_def split_beta Let_def)
  qed (use assms Inr carried_weaken in \<open>auto simp: begin_cancel_def\<close>)
qed (use assms in \<open>simp add: begin_cancel_def\<close>)

lemma carried_settle_cancel:
  assumes "carried {f} st" "row \<in> set (wf_items st)" "w_kind row = EntryCancel" "status \<in> {Accepted, Rejected, Unknown}"
  shows "carried {} (settle_cancel et_date row claim status outcome confirmed filled_first f now st)"
proof -
  define st2 where "st2 = appended (cancel_stream (w_id row)) ''entry_cancel_resolved'' (PCancelResolved status outcome)
    (update_item (w_id row) (\<lambda>_. row\<lparr>w_status := status, w_result := CancelResult outcome\<rparr>) st)"
  have "carried {f} st2"
    unfolding st2_def using assms by (intro carried_append settle_item) (auto simp: other_simps)
  then have "carried {f} (halt w st2)" "carried {f} (update_signals p g st2)" "carried {f} (halt w (update_signals p g st2))"
    "carried {f} st2" for p g w by (simp_all add: carried_intros)
  then show ?thesis
    unfolding settle_cancel_def Let_def st2_def [symmetric]
    by (auto intro!: carried_notify intro: carried_weaken)
qed

lemma carried_resolve_cancel:
  assumes "resolve_cancel et_date item_id claim orders why err pending f now st = Ok (st', b)" "carried {f} st"
  shows "carried {} st'"
  using resolve_cancel_cases [OF assms(1)]
proof (elim disjE exE conjE)
  fix w outcome c ff
  assume w: "find_item (\<lambda>w. w_id w = item_id) st = Some w" "\<not> cancel_settled w (verdict_status c ff) outcome c err"
    and st': "st' = settle_cancel et_date w claim (verdict_status c ff) outcome c ff f now st"
  have "w \<in> set (wf_items st)" "w_kind w = EntryCancel" using w find_item_Some by (auto simp: cancel_settled_def)
  then show ?thesis unfolding st' using assms(2) verdict_status_cases by (intro carried_settle_cancel)
qed (use assms carried_weaken in auto)

lemma carried_claim_close:
  assumes "claim_close_request req f now st = Ok (st', b, c)" "carried {f} st"
  shows "carried {} st'"
  using assms carried_weaken
  by (auto simp: claim_close_request_def Let_def simp del: wf_append_None split: if_split_asm option.split_asm
      intro!: carried_audit carried_notify carried_append carried_closes simp: other_simps)

lemma carried_update_close: "carried {f} st \<Longrightarrow> carried {} (update_close_request i status detail oid f now st)"
  using carried_weaken
  by (auto simp: update_close_request_def Let_def simp del: wf_append_None split: option.split
      intro!: carried_audit carried_notify carried_append carried_closes simp: other_simps)

lemma carried_release:
  "carried (insert f F) st \<Longrightarrow> f \<notin> F \<Longrightarrow> carried F (release_reservation current i f now st)"
  using weaken [of "insert f F" st F]
  by (auto simp: release_reservation_def split: option.split intro!: carried_audit carried_notify carried_update_signal)

lemma carried_after_projection:
  "after_projection i f now st = Ok st' \<Longrightarrow> carried (insert f F) st \<Longrightarrow> f \<notin> F \<Longrightarrow> carried F st'"
  using weaken [of "insert f F" st F, OF _ subset_insertI]
  by (auto simp: after_projection_def bindr_Inr_iff carried_release split: option.split_asm if_split_asm)

text \<open>Every operation outside the entry queue carries the predicate, using up its identifiers.\<close>

lemma op_carried: "desk_op ny utc et_date fromiso F st st' \<Longrightarrow> carried F st \<Longrightarrow> carried {} st'"
proof (induction rule: desk_op.induct)
  case (recorded sid st row f nt now)
  then show ?case by (simp add: record_signal_def carried_insert)
next
  case (replaced sid st row f old args now)
  then show ?case
    using carried_weaken carried_insert [OF carried_expire [OF replaced(3), of old]]
    by (auto simp: replace_signal_def split_beta split: bool.split prod.split)
next
  case (sweep fresh st cs now)
  have "carried (fresh ` A) st" for A by (rule weaken [OF sweep(2)]) auto
  then show ?case using sweep(1) by (simp add: expire_stale_signals_def carried_sweep)
next
  case (quarantine i ex st st' b)
  then show ?case
    by (auto simp: quarantine_signal_def split: option.split_asm if_split_asm intro!: carried_audit elim: outside_tables)
next
  case (executed u f st sid now)
  then have "carried {f} (update_signals p g (audit k sid st))" for p g k by (intro carried_intros)
  then show ?case
    by (auto simp: update_signal_execution_def Let_def split: option.split intro!: carried_notify intro: carried_weaken)
next
  case (exit x f st sid given now)
  then have "carried {f} (fst (wf_append [Lit ''signal/'', FInt sid] ''position_closed'' p k (update_signals q g st)))"
    if "\<not> order_key k" for p k q g
    using that by (intro carried_intros) (auto simp: other_simps)
  then show ?case using carried_weaken [OF exit(2)]
    by (auto simp: close_position_def Let_def order_key_def split: option.split intro!: carried_notify carried_audit)
next
  case (stop f st sid new_stop nt now)
  then have "carried {f} (update_signals p g st)" for p g by (intro carried_intros)
  then show ?case using carried_weaken [OF stop]
    by (auto simp: update_position_stop_def Let_def split: option.split intro!: carried_notify carried_audit intro: carried_weaken)
next
  case (cleared st st' n)
  then show ?case by (auto simp: clear_all_signals_def split: if_split_asm elim: outside_tables)
next
  case (missed f st sid symbol evidence now)
  then show ?case by (auto simp: missed_bound_def Let_def other_simps intro!: carried_notify carried_append)
next
  case (review f st sid why now)
  then show ?case by (auto simp: lifetime_review_def Let_def other_simps intro!: carried_notify carried_append carried_halt)
next
  case (reevaluate st sid payload)
  then show ?case by (auto simp: claim_card_reevaluation_def Let_def other_simps split: option.split intro!: carried_append)
next
  case (digest_queued f st day body now)
  then show ?case using carried_weaken by (auto simp: queue_auto_entry_digest_def intro!: carried_notify)
next
  case (noticed f st key kind args now)
  then show ?case by (intro carried_notify) simp_all
next
  case (journal stream kind key st payload)
  then show ?case by (intro append)
next
  case (outside st st')
  then show ?case by (auto simp: elsewhere_def intro: outside_tables)
qed (auto simp: dismiss_signal_def move_signal_def record_exit_request_def clear_failed_exit_request_def Let_def set_halted_def
    intro: carried_expire carried_claim_close carried_update_close carried_begin_cancel carried_resolve_cancel
    intro!: carried_intros elim: outside_tables)

end

subsection \<open>The two frames\<close>

interpretation order_carried: workflow_frame "\<lambda>F. order_frame s" for s
proof
  fix st stream kind payload key assume "order_frame s st" "plain_event stream kind key"
  then show "order_frame s (fst (wf_append stream kind payload key st))"
    by (intro order_frame_append) (auto simp: plain_event_def journal_kinds_def)
next
  fix st w stream kind payload assume "order_frame s st" "plain_event stream kind None"
  then show "order_frame s (add_item w (fst (wf_append stream kind payload None st)))"
    by (intro order_frame_add_item order_frame_append) (auto simp: plain_event_def journal_kinds_def)
next
  fix st row r z assume "order_frame s st"
  then show "order_frame s (update_item (w_id row) (\<lambda>_. row\<lparr>w_status := z, w_result := r\<rparr>) st)"
    by (rule order_frame_update_item)
qed (auto simp: order_frame_def)

lemma unused_append:
  "unused f st \<Longrightarrow> stream \<notin> range entry_stream \<Longrightarrow> unused f (fst (wf_append stream kind payload key st))"
  using wf_append_fst [of stream kind payload key st] by (auto simp: unused_def)

lemma queue_inv_append_item:
  assumes "queue_inv st" "unused (w_id w) st" "kind \<noteq> ''entry_submitting''" "w_sequence w = wf_next st" "w_kind w \<noteq> Entry"
    "\<forall>v \<in> set (wf_items st). item_key v \<noteq> item_key w"
  shows "queue_inv (add_item w (fst (wf_append stream kind payload None st)))"
proof -
  have "submissions (w_id w) st = 0"
    using assms(2) by (auto simp: unused_def submissions_def list_all_iff filter_empty_conv)
  then have "table_inv (wf_items st @ [w]) (Suc (wf_next st)) (\<lambda>i. submissions i st)"
    using assms by (intro table_add [of _ "wf_next st"]) (auto simp: queue_inv_def unused_def list_all_iff active_def item_ok_def)
  then show ?thesis using assms(3) by (simp add: queue_inv_def add_item_def)
qed

interpretation queue_carried: workflow_frame "\<lambda>F st. queue_inv st \<and> (\<forall>f \<in> F. unused f st)"
proof
  fix F and st st' :: wf_state assume "queue_inv st \<and> (\<forall>f \<in> F. unused f st)" "wf_items st' = wf_items st" "wf_events st' = wf_events st" "wf_next st' = wf_next st"
  then show "queue_inv st' \<and> (\<forall>f \<in> F. unused f st')" using queue_inv_cong [of st' st] by (simp add: unused_def)
next
  fix F st stream kind payload key assume "queue_inv st \<and> (\<forall>f \<in> F. unused f st)" "plain_event stream kind key"
  then show "queue_inv (fst (wf_append stream kind payload key st)) \<and> (\<forall>f \<in> F. unused f (fst (wf_append stream kind payload key st)))"
    by (auto simp: plain_event_def journal_kinds_def entry_kinds_def intro!: queue_inv_append unused_append)
next
  fix F f st stream kind payload and w :: work_item
  assume c: "queue_inv st \<and> (\<forall>g \<in> insert f F. unused g st)" and "f \<notin> F" and o: "plain_event stream kind None" and "w_id w = f"
    and "w_sequence w = wf_next st" "w_kind w \<noteq> Entry" "\<forall>v \<in> set (wf_items st). item_key v \<noteq> item_key w"
  then have "queue_inv (add_item w (fst (wf_append stream kind payload None st)))"
    by (intro queue_inv_append_item) (auto simp: plain_event_def journal_kinds_def entry_kinds_def)
  moreover have "unused g (add_item w (fst (wf_append stream kind payload None st)))" if "g \<in> F" for g
  proof -
    have "g \<noteq> w_id w" using that \<open>f \<notin> F\<close> \<open>w_id w = f\<close> by auto
    moreover have "unused g (fst (wf_append stream kind payload None st))"
      using that c o by (intro unused_append) (auto simp: plain_event_def)
    ultimately show ?thesis by (simp add: unused_def add_item_def)
  qed
  ultimately show "queue_inv (add_item w (fst (wf_append stream kind payload None st)))
      \<and> (\<forall>g \<in> F. unused g (add_item w (fst (wf_append stream kind payload None st))))" by blast
next
  fix F st row s r assume c: "queue_inv st \<and> (\<forall>f \<in> F. unused f st)" and row: "row \<in> set (wf_items st)" "w_kind row = EntryCancel"
    and s: "s \<in> {Accepted, Rejected, Unknown}"
  let ?row = "row\<lparr>w_status := s, w_result := r\<rparr>"
  have "queue_inv (update_item (w_id row) (\<lambda>_. ?row) st)"
    using c row s inv_item_ok [of st row]
    by (intro queue_inv_update) (auto simp: same_key_def blocking_entry_def active_def item_ok_def)
  moreover have "unused f (update_item (w_id row) (\<lambda>_. ?row) st)" if "f \<in> F" for f
    using c row that by (auto simp: unused_def update_item_def list_all_iff)
  ultimately show "queue_inv (update_item (w_id row) (\<lambda>_. ?row) st) \<and> (\<forall>f \<in> F. unused f (update_item (w_id row) (\<lambda>_. ?row) st))"
    by blast
qed auto

subsection \<open>The desk\<close>

text \<open>
  What the program takes from outside: the fingerprint of a risk snapshot and the digest of an
  observation, the New York and UTC clocks of the calendar, and the reader of ISO timestamps.
\<close>

record desk_world =
  dw_fingerprint :: "account_risk \<Rightarrow> string"
  dw_digest :: "order_observation \<Rightarrow> string"
  dw_ny :: "int \<Rightarrow> int"
  dw_utc :: "int \<Rightarrow> int"
  dw_et_date :: "int \<Rightarrow> int"
  dw_fromiso :: "string \<Rightarrow> stamp option"

inductive desk_trans :: "desk_world \<Rightarrow> wf_state \<Rightarrow> wf_state \<Rightarrow> bool" for w where
  queue: "wf_trans (dw_fingerprint w) (dw_et_date w) st st' \<Longrightarrow> desk_trans w st st'"
| observe: "observe_orders (dw_digest w) fresh now obs st = Ok st' \<Longrightarrow> inj fresh \<Longrightarrow> \<forall>i. unused (fresh i) st \<Longrightarrow> desk_trans w st st'"
| operation: "desk_op (dw_ny w) (dw_utc w) (dw_et_date w) (dw_fromiso w) F st st' \<Longrightarrow> \<forall>f \<in> F. unused f st \<Longrightarrow> desk_trans w st st'"

text \<open>A desk without a journal: no work, no observation, no close; signal identifiers are a key.\<close>

definition signal_ids :: "wf_state \<Rightarrow> int list" where
  "signal_ids st = map sg_id (wf_signals st @ wf_quarantined st)"

definition fresh_desk :: "wf_state \<Rightarrow> bool" where
  "fresh_desk st = (wf_items st = [] \<and> wf_events st = [] \<and> wf_orders st = [] \<and> wf_closes st = [] \<and> distinct (signal_ids st))"

subsubsection \<open>The item table\<close>

lemma observe_order_queue:
  assumes "observe_order digest f now obs st = Ok st'" "queue_inv st" "\<forall>g \<in> insert f F. unused g st" "f \<notin> F"
  shows "queue_inv st' \<and> (\<forall>g \<in> F. unused g st')"
proof -
  obtain st1 e views moved where a: "wf_append (order_stream (o_order_id obs)) ''order_observed'' (POrder obs)
        (Some (observation_key digest obs)) st = (st1, e)"
    and st': "after_projection (o_order_id obs) f now (st1\<lparr>wf_orders := views\<rparr>) = Ok st'"
    using assms(1) by (auto simp: observe_order_def bindr_Inr_iff split: prod.split_asm)
  have st1: "st1 = fst (wf_append (order_stream (o_order_id obs)) ''order_observed'' (POrder obs)
        (Some (observation_key digest obs)) st)" by (simp add: a)
  have "queue_inv st1" unfolding st1 by (rule queue_inv_append) (simp_all add: assms)
  then have "queue_inv (st1\<lparr>wf_orders := views\<rparr>)" by (simp add: queue_inv_cong [of "st1\<lparr>wf_orders := views\<rparr>" st1])
  moreover have "unused g st1" if "g \<in> insert f F" for g
    unfolding st1 using that assms(3) by (intro unused_append) (auto simp: order_stream_def entry_stream_def)
  then have "\<forall>g \<in> insert f F. unused g (st1\<lparr>wf_orders := views\<rparr>)" by (simp add: unused_def)
  ultimately show ?thesis using queue_carried.carried_after_projection [OF st', of F] assms(4) by blast
qed

lemma observe_orders_queue:
  assumes "observe_orders digest fresh now obs st = Ok st'" "queue_inv st" "\<forall>g \<in> fresh ` {..<length obs}. unused g st" "inj fresh"
  shows "queue_inv st'"
  using assms(1-3)
proof (induction obs arbitrary: st)
  case (Cons x obs)
  obtain st1 where s: "observe_order digest (fresh (length obs)) now x st = Ok st1" "observe_orders digest fresh now obs st1 = Ok st'"
    using Cons.prems(1) by (auto simp: bindr_Inr_iff)
  have "\<forall>g \<in> insert (fresh (length obs)) (fresh ` {..<length obs}). unused g st" using Cons.prems(3) by (auto simp: lessThan_Suc)
  moreover have "fresh (length obs) \<notin> fresh ` {..<length obs}" using assms(4) by (auto dest: injD)
  ultimately show ?case using observe_order_queue [OF s(1) Cons.prems(2)] Cons.IH [OF s(2)] by blast
qed simp

lemma desk_queue_inv: "desk_trans w st st' \<Longrightarrow> queue_inv st \<Longrightarrow> queue_inv st'"
proof (induction rule: desk_trans.induct)
  case (observe fresh now obs st st')
  then show ?case using observe_orders_queue by blast
next
  case (operation F st st')
  then show ?case using queue_carried.op_carried [OF operation(1)] by blast
qed (rule wf_trans_inv)

subsubsection \<open>The order views\<close>

lemma settle_signal_frame_order: "order_frame s t \<Longrightarrow> order_frame s (settle_signal sid r t)"
  by (auto simp: settle_signal_def split: option.split intro: order_frame_update_signal)

lemma enqueue_frame:
  assumes "enqueue_entry r c t fresh now st = Ok (st', x)"
  shows "order_frame st st'"
proof (cases "entry_of (rq_signal_id r) st")
  case None
  have "order_frame st st'" if "reserve r c t cid now risk st = Ok (st', x)" for cid risk
    using that by (auto simp: reserve_def Let_def split_beta order_key_def simp del: wf_append_None split: option.split_asm
        intro!: order_frame_audit order_frame_add_item order_frame_append order_frame_update_signal)
  then show ?thesis using enqueue_cases [OF assms None] by (auto intro: order_frame_audit)
qed (use assms in \<open>auto simp: enqueue_entry_def Let_def\<close>)

lemma resolve_frame: "order_frame st (fst (resolve_entry et_date item res recovery fresh now st))"
  by (auto simp: resolve_entry_def Let_def order_key_def simp del: wf_append_None split: option.split
      intro!: order_frame_notify order_frame_append order_frame_audit order_frame_halt settle_signal_frame_order order_frame_update_item)

lemma wf_trans_frame: "wf_trans fingerprint et_date st st' \<Longrightarrow> order_frame st st'"
proof (induction rule: wf_trans.induct)
  case (enqueue r c t fresh now st st' x)
  then show ?case using enqueue_frame by blast
next
  case (submit item c fp x clock st st' y)
  then show ?case
    using begin_submission_cases [OF submit]
    by (auto simp: order_key_def simp del: wf_append_None intro!: order_frame_audit order_frame_append order_frame_update_item)
qed (auto simp: resolve_frame claim_entry_def claim_notification_def finish_notification_def requeue_notification_def Let_def order_key_def
    simp del: wf_append_None split: option.split intro!: order_frame_notify order_frame_append order_frame_update_item)

lemma observe_orders_run: "observe_orders digest fresh now obs st = Ok st' \<Longrightarrow> (order_trans digest)\<^sup>*\<^sup>* st st'"
proof (induction obs arbitrary: st)
  case (Cons x obs)
  then show ?case by (auto simp: bindr_Inr_iff intro: converse_rtranclp_into_rtranclp order_trans.observe)
qed simp

lemma desk_order_run: "desk_trans w st st' \<Longrightarrow> (order_trans (dw_digest w))\<^sup>*\<^sup>* st st'"
proof (induction rule: desk_trans.induct)
  case (queue st st')
  then show ?case using wf_trans_frame order_trans.frame by blast
next
  case (operation F st st')
  then have "order_frame st st'" using order_carried.op_carried [OF operation(1), of st] by simp
  then show ?case using order_trans.frame by blast
qed (rule observe_orders_run)

end
