(* ===== verification/Entry_Safety.thy ===== *)
theory Entry_Safety
  imports Desk
begin

text \<open>
  What the durable entry queue guarantees over every interleaving of the store's transactions: at most
  one submission per approval, one entry at a time, and authority only under every condition at once.
\<close>

subsection \<open>Runs\<close>

lemma fresh_inv: "fresh_desk st \<Longrightarrow> queue_inv st"
  by (simp add: fresh_desk_def queue_inv_def table_inv_def serial_def)

lemma run_inv: "(desk_trans w)\<^sup>*\<^sup>* s t \<Longrightarrow> queue_inv s \<Longrightarrow> queue_inv t"
  by (induction rule: rtranclp_induct) (auto intro: desk_queue_inv)

lemma distinct_length_le_one: "distinct xs \<Longrightarrow> (\<And>x y. x \<in> set xs \<Longrightarrow> y \<in> set xs \<Longrightarrow> x = y) \<Longrightarrow> length xs \<le> 1"
proof (rule ccontr)
  assume d: "distinct xs" and same: "\<And>x y. x \<in> set xs \<Longrightarrow> y \<in> set xs \<Longrightarrow> x = y" and "\<not> length xs \<le> 1"
  then have "1 < length xs" by simp
  then have "0 < length xs" by linarith
  then have "xs ! 0 \<noteq> xs ! 1" using nth_eq_iff_index_eq [OF d, of 0 1] \<open>1 < length xs\<close> by simp
  moreover have "xs ! 0 = xs ! 1" using \<open>0 < length xs\<close> \<open>1 < length xs\<close> by (intro same nth_mem)
  ultimately show False by simp
qed

lemma key_unique:
  assumes "queue_inv st" "v \<in> set (wf_items st)" "u \<in> set (wf_items st)" "item_key v = item_key u"
  shows "v = u"
  using assms by (auto simp: queue_inv_def table_inv_def distinct_map dest: inj_onD)

lemma one_per_key:
  assumes "queue_inv st"
  shows "length (filter (\<lambda>v. w_kind v = k \<and> w_dedup v = d) (wf_items st)) \<le> 1"
proof -
  have "distinct (filter (\<lambda>v. w_kind v = k \<and> w_dedup v = d) (wf_items st))"
    using assms by (simp add: queue_inv_def table_inv_def distinct_map)
  then show ?thesis by (rule distinct_length_le_one) (use key_unique [OF assms] in \<open>auto simp: item_key_def\<close>)
qed

text \<open>
  C2. An approved entry is sent at most once. Whatever processes enqueue, claim, lose and reclaim
  leases, submit, resolve and recover, observe orders, cancel, close, expire and dismiss, in any order,
  a signal has at most one entry item and at most one cancellation, and the journal grants each item
  submission authority at most once, and none while it is still queued or being checked.
\<close>

theorem at_most_one_submission:
  assumes "fresh_desk st0" and "(desk_trans world)\<^sup>*\<^sup>* st0 st"
  shows "length (filter (\<lambda>w. w_kind w = Entry \<and> w_dedup w = [FInt sid]) (wf_items st)) \<le> 1
    \<and> length (filter (\<lambda>w. w_kind w = EntryCancel \<and> w_dedup w = [FInt sid]) (wf_items st)) \<le> 1
    \<and> (\<forall>w \<in> set (wf_items st). submissions (w_id w) st \<le> 1
         \<and> (w_status w \<in> {Queued, Checking} \<longrightarrow> submissions (w_id w) st = 0))"
proof -
  have inv: "queue_inv st" by (rule run_inv [OF assms(2) fresh_inv [OF assms(1)]])
  then have "submissions (w_id w) st \<le> 1 \<and> (w_status w \<in> {Queued, Checking} \<longrightarrow> submissions (w_id w) st = 0)"
    if "w \<in> set (wf_items st)" for w using inv_item_ok [OF inv that] by (auto simp: item_ok_def)
  then show ?thesis using one_per_key [OF inv] by simp
qed

lemma active_unique:
  assumes "queue_inv st" "w \<in> set (wf_items st)" "v \<in> set (wf_items st)" "active w" "active v"
  shows "w = v"
proof -
  have "blocking_entry w" "blocking_entry v" using assms(4,5) by (auto simp: active_def blocking_entry_def ENTRY_BLOCKING_def)
  then have "w_sequence w = w_sequence v"
    using active_first [OF assms(1)] assms(2-5) by (meson le_antisym)
  moreover have "inj_on w_sequence (set (wf_items st))" using assms(1) by (simp add: queue_inv_def table_inv_def distinct_map)
  ultimately show ?thesis using assms(2,3) by (auto dest: inj_onD)
qed

lemma unresolved_blocks_claim:
  assumes "queue_inv st" "w \<in> set (wf_items st)" "w_kind w = Entry" "w_status w \<in> {Submitting, Unknown}"
  shows "claim_entry lease token now st = (st, None)"
proof (cases "head_item blocking_entry st")
  case (Some h)
  note hh = head_item_Some [OF Some]
  have w: "active w" "blocking_entry w" using assms(3,4) by (auto simp: active_def blocking_entry_def ENTRY_BLOCKING_def)
  have "w_sequence h = w_sequence w"
    using hh w active_first [OF assms(1,2) w(1) hh(1)] assms(2) by (meson le_antisym)
  moreover have "inj_on w_sequence (set (wf_items st))" using assms(1) by (simp add: queue_inv_def table_inv_def distinct_map)
  ultimately have "h = w" using hh(1) assms(2) by (auto dest: inj_onD)
  then show ?thesis using Some assms(4) by (auto simp: claim_entry_def)
qed (simp add: claim_entry_def)

text \<open>
  C6. Entries are submitted one at a time, oldest first: at any moment at most one entry is past the
  queue, no blocking entry is older than it, and while it is submitting or its outcome is unknown no
  other entry can be claimed, however long that lasts.
\<close>

theorem entries_are_serial:
  assumes "fresh_desk st0" and "(desk_trans world)\<^sup>*\<^sup>* st0 st"
  shows "length (filter active (wf_items st)) \<le> 1
    \<and> (\<forall>w \<in> set (wf_items st). \<forall>v \<in> set (wf_items st). active w \<and> blocking_entry v \<longrightarrow> w_sequence w \<le> w_sequence v)
    \<and> (\<forall>w \<in> set (wf_items st). w_kind w = Entry \<and> w_status w \<in> {Submitting, Unknown} \<longrightarrow>
         claim_entry lease token now st = (st, None))"
proof -
  have inv: "queue_inv st" by (rule run_inv [OF assms(2) fresh_inv [OF assms(1)]])
  have "distinct (filter active (wf_items st))" using inv by (simp add: queue_inv_def table_inv_def distinct_map)
  then have "length (filter active (wf_items st)) \<le> 1"
    by (rule distinct_length_le_one) (use active_unique [OF inv] in auto)
  then show ?thesis using inv unresolved_blocks_claim [OF inv] active_first [OF inv] by blast
qed

text \<open>
  C3. Submission authority is only granted under every condition at once: trading is not halted, no
  cancellation is unresolved, the caller holds the live claim, the signal is unchanged and its alpha
  contract holds, account risk is readable and unchanged since preflight where it is required, the
  approval has not expired, and the broker capacity (or, without a broker account, local admission)
  admits the request against all other reservations. The item is then submitting, without a lease.
\<close>

theorem submission_authorised:
  assumes "begin_submission fingerprint item config risk_fp x clock st = Ok (st', None)"
  shows "\<exists>row request signal risk. \<not> trading_halted st \<and> \<not> unresolved_cancellation st
    \<and> row \<in> set (wf_items st) \<and> w_id row = w_id item \<and> w_status row = Checking \<and> w_token row = w_token item
    \<and> (\<exists>t. w_lease_until row = Some t \<and> clock 3 < t)
    \<and> item_request item = Some request
    \<and> find_signal (\<lambda>s. sg_id s = rq_signal_id request) st = Some signal \<and> signal_matches (Some signal) request
    \<and> alpha_entry_rejection (wf_alpha st) (clock 1) (sg_alpha signal) = None
    \<and> entry_risk config (clock 2) st = Ok risk \<and> (\<forall>k. risk = Some k \<longrightarrow> Some (fingerprint k) = risk_fp)
    \<and> authorization_expiry (w_created_at row) (sg_timestamp signal) config (clock 4) = None
    \<and> (\<exists>cap. final_check request config (reservations (Some (rq_signal_id request)) st) risk x (clock 5) = Ok (None, cap))
    \<and> row\<lparr>w_status := Submitting, w_lease_until := None\<rparr> \<in> set (wf_items st')"
proof -
  obtain row req risk cap payload where chk: "submission_check fingerprint item config risk_fp x clock st = Ok (Inr (row, req, risk, cap))"
    and st': "st' = audit ''entry_submission'' (rq_signal_id req) (appended (entry_stream (w_id row)) ''entry_submitting'' payload
                (update_item (w_id row) (\<lambda>_. row\<lparr>w_status := Submitting, w_lease_until := None\<rparr>) st))"
    using begin_submission_cases [OF assms] by auto
  note row = submission_check_row [OF chk]
  have "row\<lparr>w_status := Submitting, w_lease_until := None\<rparr> \<in> set (wf_items st')"
    using row unfolding st' by (auto simp: record_audit_def update_item_def intro!: image_eqI [of _ _ row])
  moreover have "\<exists>signal. find_signal (\<lambda>s. sg_id s = rq_signal_id req) st = Some signal \<and> signal_matches (Some signal) req
    \<and> alpha_entry_rejection (wf_alpha st) (clock 1) (sg_alpha signal) = None
    \<and> entry_risk config (clock 2) st = Ok risk \<and> (\<forall>k. risk = Some k \<longrightarrow> Some (fingerprint k) = risk_fp)
    \<and> authorization_expiry (w_created_at row) (sg_timestamp signal) config (clock 4) = None
    \<and> (\<exists>cap. final_check req config (reservations (Some (rq_signal_id req)) st) risk x (clock 5) = Ok (None, cap))"
    using chk row
    by (auto simp: submission_check_def Let_def catch_value_Inr_iff bindr_Inr_iff split: if_split_asm option.split_asm)
  ultimately show ?thesis using row by blast
qed

subsection \<open>An example\<close>

text \<open>A paper desk with one pending signal: its entry is queued, claimed, submitted and resolved.\<close>

definition paper_config :: app_config where
  "paper_config = demo_config\<lparr>execution_mode := ''paper''\<rparr>"

definition demo_signal :: signal where
  "demo_signal = \<lparr>sg_id = 7, sg_timestamp = 0,
     sg_alpha = \<lparr>sg_contract = ''spy'', sg_strategy = ''manual'', sg_timeframe = None, sg_alpha_version = None,
       sg_alpha_policy = None, sg_direction = LONG, sg_pead_event = None, sg_watch_event = None, sg_session = 0\<rparr>,
     sg_status = ''PENDING'', sg_asset_class = Some EQUITY, sg_quantity = None, sg_entry_price = Num 400,
     sg_stop_loss = Num 390, sg_take_profit = Num 430, sg_risk_dollars = Num 100, sg_notional_value = None,
     sg_broker_order_id = None, sg_executed_at = None,
     sg_policies = \<lparr>sd_alpha_policy = DNull, sd_decision_provenance = DNull\<rparr>, sg_exit_order_id = None, sg_exit_price = None,
     sg_exit_timestamp = None, sg_realized_pnl = None, sg_exit_reason = None\<rparr>"

definition demo_desk :: wf_state where
  "demo_desk = \<lparr>wf_signals = [demo_signal], wf_quarantined = [], wf_items = [], wf_events = [], wf_next = 0, wf_halted = None,
     wf_halt_reason = None, wf_closes = [], wf_audit = [], wf_orders = [],
     wf_ledger = \<lparr>st_row = None, st_views = [], st_events = [], st_next = 0\<rparr>, wf_alpha = demo_registry,
     wf_broker_account = False\<rparr>"

lemma paper_limits_eq: "limits_from_config paper_config = Ok demo_limits"
  by (simp add: paper_config_def limits_from_config_def demo_defs cap_int_small cap_limit_def ratio_limit_def
      zero_pyfloat_def normalize_symbol_def str_eval)

lemma paper_multiplier: "request_multiplier demo_request paper_config = Inr 1"
  by (simp add: request_multiplier_def demo_request_def demo_config_def paper_config_def)

definition paper_budget :: risk_budget where
  "paper_budget = \<lparr>capital = Num 100000, drawdown_pct = Num 0, drawdown_factor = 1, macro_factor = 1,
     dollars = Num (3125 / 2)\<rparr>"

lemma paper_budget_eq: "per_trade_risk_budget demo_limits None 0 1 = Ok paper_budget"
  by (simp add: per_trade_risk_budget_def macro_risk_factor_one [unfolded one_pyfloat_def]
      risk_capital_def demo_limits_def paper_budget_def
      drawdown_risk_factor_def demo_policy_def py_min_def zero_pyfloat_def
      one_pyfloat_def)

lemma paper_admitted: "admission_gates (demo_intent\<lparr>i_symbol := ''spy''\<rparr>) \<lparr>positions = []\<rparr> paper_budget demo_limits None = None"
  by (simp add: gate_eval paper_budget_def)

lemma paper_reserved: "reservation_rejection demo_request [] paper_config 0 None None = Ok None"
  by (rule reservation_rejectionI [OF demo_side paper_multiplier demo_request_intent _ _ _ paper_limits_eq paper_budget_eq])
    (simp_all add: from_signal_rows_def paper_admitted, simp_all add: demo_request_def)

definition demo_item :: work_item where
  "demo_item = \<lparr>w_id = command_id ''a1'', w_sequence = 0, w_dedup = [FInt 7], w_kind = Entry, w_status = Queued,
     w_payload = EntryPayload (demo_request\<lparr>rq_client_order_id := Some (command_id ''a1'')\<rparr>) ''auto'',
     w_result = NoResult, w_attempts = 0, w_token = None, w_lease_until = None, w_available_at = 0, w_created_at = 0\<rparr>"

definition demo_queued :: wf_state where
  "demo_queued = demo_desk\<lparr>
     wf_signals := [demo_signal\<lparr>sg_status := ''SUBMITTING'', sg_quantity := Some (Num 10),
       sg_notional_value := Some (Num 4000), sg_risk_dollars := Num 100\<rparr>],
     wf_items := [demo_item],
     wf_events := [\<lparr>ev_id = 0, ev_stream = entry_stream (command_id ''a1''), ev_kind = ''entry_queued'', ev_key = None,
       ev_payload = PQueued (demo_request\<lparr>rq_client_order_id := Some (command_id ''a1'')\<rparr>) ''auto'' None\<rparr>],
     wf_next := 1, wf_audit := [(''execution_claimed'', Some 7, [])]\<rparr>"

lemma demo_enqueue:
  "enqueue_entry demo_request paper_config ''auto'' ''a1'' 0 demo_desk
     = Ok (demo_queued, Some demo_item, msg ''Queued for fresh admission checks.'')"
proof -
  have r: "rq_signal_id demo_request = 7" "rq_symbol demo_request = ''spy''" by (simp_all add: demo_request_def)
  have s: "alpha_entry_rejection demo_registry 0 (sg_alpha demo_signal) = None" "sg_status demo_signal = ''PENDING''" "sg_id demo_signal = 7"
    by (simp_all add: demo_signal_def alpha_entry_rejection_def is_alpha_signal_def set_text_def CATALOG_STRATEGY_IDS_def str_eval)
  have "reserve demo_request paper_config ''auto'' (command_id ''a1'') 0 None demo_desk
     = Ok (demo_queued, Some demo_item, msg ''Queued for fresh admission checks.'')"
    by (simp add: reserve_def demo_request_def multiplier_of_def paper_config_def demo_config_def update_signal_def
        demo_desk_def demo_queued_def demo_item_def wf_append_def append_new_def add_item_def record_audit_def s one_pyfloat_def minus_pyfloat_def Let_def)
  moreover have "entry_of 7 demo_desk = None" "\<not> trading_halted demo_desk" "\<not> unresolved_cancellation demo_desk"
      "wf_closes demo_desk = []" "wf_alpha demo_desk = demo_registry" "find_signal (\<lambda>x. sg_id x = 7) demo_desk = Some demo_signal"
      "entry_risk paper_config 0 demo_desk = Ok None" "reservations None demo_desk = []"
    by (simp_all add: entry_of_def find_item_def trading_halted_def unresolved_cancellation_def find_signal_def entry_risk_def
        requires_account_risk_def reservations_def RESERVED_def demo_desk_def paper_config_def s)
  ultimately show ?thesis by (simp add: enqueue_entry_def r s paper_reserved catch_value_def)
qed

definition demo_claimed :: work_item where
  "demo_claimed = demo_item\<lparr>w_status := Checking, w_token := Some ''t1'', w_lease_until := Some 60000000, w_attempts := 1\<rparr>"

definition demo_checking :: wf_state where
  "demo_checking = demo_queued\<lparr>wf_items := [demo_claimed], wf_next := 2,
     wf_events := wf_events demo_queued @ [\<lparr>ev_id = 1, ev_stream = entry_stream (command_id ''a1''), ev_kind = ''entry_checking'',
       ev_key = None, ev_payload = PItem ''t1'' 1\<rparr>]\<rparr>"

lemma demo_claim: "claim_entry 60000000 ''t1'' 0 demo_queued = (demo_checking, Some demo_claimed)"
  by (simp add: claim_entry_def head_item_def demo_queued_def demo_item_def blocking_entry_def ENTRY_BLOCKING_def
      demo_checking_def demo_claimed_def update_item_def wf_append_def append_new_def Let_def numeral_2_eq_2)

lemma reservation_ignores_client_id:
  "reservation_rejection (r\<lparr>rq_client_order_id := x\<rparr>) rows cfg dd eq cp = reservation_rejection r rows cfg dd eq cp"
proof -
  have "request_multiplier (r\<lparr>rq_client_order_id := x\<rparr>) cfg = request_multiplier r cfg"
      "request_intent (r\<lparr>rq_client_order_id := x\<rparr>) m cp = request_intent r m cp"
      "side_agrees (r\<lparr>rq_client_order_id := x\<rparr>) = side_agrees r" for m
    by (simp_all add: request_multiplier_def request_intent_def side_agrees_def)
  then show ?thesis by (cases "request_multiplier r cfg") (simp_all add: reservation_rejection_def)
qed

definition demo_submitting :: wf_state where
  "demo_submitting = demo_checking\<lparr>wf_items := [demo_claimed\<lparr>w_status := Submitting, w_lease_until := None\<rparr>], wf_next := 3,
     wf_events := wf_events demo_checking @ [\<lparr>ev_id = 2, ev_stream = entry_stream (command_id ''a1''), ev_kind = ''entry_submitting'',
       ev_key = None, ev_payload = PSubmitting (demo_request\<lparr>rq_client_order_id := Some (command_id ''a1'')\<rparr>) None None 1 None None\<rparr>],
     wf_audit := wf_audit demo_checking @ [(''entry_submission'', Some 7, [])]\<rparr>"

lemma demo_submission:
  "begin_submission fp demo_claimed paper_config None None (\<lambda>_. 0) demo_checking = Ok (demo_submitting, None)"
proof -
  define r where "r = demo_request\<lparr>rq_client_order_id := Some (command_id ''a1'')\<rparr>"
  define s where "s = demo_signal\<lparr>sg_status := ''SUBMITTING'', sg_quantity := Some (Num 10),
       sg_notional_value := Some (Num 4000), sg_risk_dollars := Num 100\<rparr>"
  have row: "find_item (\<lambda>w. w_id w = w_id demo_claimed \<and> w_status w = Checking \<and> w_token w = w_token demo_claimed
                \<and> (case w_lease_until w of None \<Rightarrow> False | Some t \<Rightarrow> t > 0)) demo_checking = Some demo_claimed"
    by (simp add: find_item_def demo_checking_def demo_claimed_def)
  have req: "item_request demo_claimed = Some r" by (simp add: item_request_def demo_claimed_def demo_item_def r_def)
  have sig: "find_signal (\<lambda>s. sg_id s = rq_signal_id r) demo_checking = Some s" "signal_matches (Some s) r"
    by (simp_all add: find_signal_def demo_checking_def demo_queued_def demo_signal_def demo_request_def signal_matches_def r_def s_def)
  have al: "alpha_entry_rejection (wf_alpha demo_checking) 0 (sg_alpha s) = None"
    by (simp add: s_def demo_signal_def alpha_entry_rejection_def is_alpha_signal_def set_text_def CATALOG_STRATEGY_IDS_def str_eval)
  have risk: "entry_risk paper_config 0 demo_checking = Ok None"
    by (simp add: entry_risk_def requires_account_risk_def paper_config_def demo_checking_def demo_queued_def demo_desk_def)
  have halted: "\<not> trading_halted demo_checking" "\<not> unresolved_cancellation demo_checking"
    by (simp_all add: trading_halted_def unresolved_cancellation_def demo_checking_def demo_queued_def demo_desk_def demo_claimed_def demo_item_def)
  have auth: "authorization_expiry (w_created_at demo_claimed) (sg_timestamp s) paper_config 0 = None"
    by (simp add: authorization_expiry_def age_within_def demo_claimed_def demo_item_def s_def demo_signal_def paper_config_def demo_config_def
        total_seconds_def CLOCK_SKEW_def one_pyfloat_def zero_pyfloat_def Let_def)
  have res: "reservations (Some (rq_signal_id r)) demo_checking = []"
    by (simp add: reservations_def demo_checking_def demo_queued_def demo_signal_def demo_request_def r_def)
  have fc: "final_check r paper_config [] None None 0 = Ok (None, None)"
    by (simp add: r_def final_check_def reservation_ignores_client_id paper_reserved)
  have "submission_check fp demo_claimed paper_config None None (\<lambda>_. 0) demo_checking
     = Ok (Inr (demo_claimed, r, None, None))"
    unfolding submission_check_def Let_def
    by (simp add: row req sig al risk halted auth res fc catch_value_def) (simp add: demo_claimed_def)
  then show ?thesis
    by (simp add: begin_submission_def demo_submitting_def demo_checking_def update_item_def wf_append_def append_new_def record_audit_def Let_def demo_claimed_def demo_item_def r_def demo_request_def numeral_2_eq_2 numeral_3_eq_3)
qed

lemma demo_unused: "unused (command_id ''a1'') demo_desk"
  by (simp add: unused_def demo_desk_def)

lemma demo_for_signal: "request_for_signal demo_request demo_desk"
  by (simp add: request_for_signal_def find_signal_def demo_desk_def demo_signal_def demo_request_def)

definition demo_world :: desk_world where
  "demo_world = \<lparr>dw_fingerprint = \<lambda>_. [], dw_digest = o_status, dw_ny = \<lambda>t. t, dw_utc = \<lambda>t. t, dw_et_date = \<lambda>t. t, dw_fromiso = \<lambda>_. None\<rparr>"

lemma demo_run: "(desk_trans demo_world)\<^sup>*\<^sup>* demo_desk demo_submitting"
proof -
  let ?fp = "dw_fingerprint demo_world" and ?et = "dw_et_date demo_world"
  have "wf_trans ?fp ?et demo_desk demo_queued" by (rule wf_trans.enqueue [OF demo_enqueue demo_unused demo_for_signal])
  moreover have "wf_trans ?fp ?et demo_queued demo_checking"
    using wf_trans.claim [of ?fp ?et demo_queued 60000000 "''t1''" 0] by (simp add: demo_claim)
  moreover have "wf_trans ?fp ?et demo_checking demo_submitting" by (rule wf_trans.submit [OF demo_submission])
  ultimately show ?thesis by (meson desk_trans.queue rtranclp.rtrancl_into_rtrancl rtranclp.rtrancl_refl)
qed

lemma demo_fresh: "fresh_desk demo_desk"
  by (simp add: fresh_desk_def demo_desk_def signal_ids_def)

theorem at_most_one_submission_witness:
  "submissions (command_id ''a1'') demo_submitting = 1
    \<and> length (filter (\<lambda>w. w_kind w = Entry \<and> w_dedup w = [FInt 7]) (wf_items demo_submitting)) \<le> 1"
  using at_most_one_submission [OF demo_fresh demo_run, of 7]
  by (simp add: submissions_def demo_submitting_def demo_checking_def demo_queued_def)

theorem entries_are_serial_witness: "claim_entry 60000000 ''t2'' 90000000 demo_submitting = (demo_submitting, None)"
proof -
  have "demo_claimed\<lparr>w_status := Submitting, w_lease_until := None\<rparr> \<in> set (wf_items demo_submitting)"
    by (simp add: demo_submitting_def)
  moreover have "w_kind (demo_claimed\<lparr>w_status := Submitting, w_lease_until := None\<rparr>) = Entry"
    by (simp add: demo_claimed_def demo_item_def)
  ultimately show ?thesis
    using entries_are_serial [OF demo_fresh demo_run, of 60000000 "''t2''" 90000000]
    by (metis (no_types, lifting) insertI1 work_item.select_convs(5) work_item.surjective work_item.update_convs(5,10))
qed

theorem submission_authorised_witness: "\<exists>row. w_status row = Checking \<and> row \<in> set (wf_items demo_checking)"
  using submission_authorised [OF demo_submission [of "\<lambda>_. []"]] by blast

end
