(* ===== verification/Desk_Safety.thy ===== *)
theory Desk_Safety
  imports Entry_Safety
begin

text \<open>
  What the whole desk guarantees of its signals, its close requests and its order views, over every
  interleaving of the store's transactions.
\<close>

subsection \<open>Which tables an operation touches\<close>

lemma append_frame [simp]:
  "wf_signals (fst (wf_append stream kind payload key st)) = wf_signals st"
  "wf_quarantined (fst (wf_append stream kind payload key st)) = wf_quarantined st"
  "wf_closes (fst (wf_append stream kind payload key st)) = wf_closes st"
  using wf_append_fst [of stream kind payload key st] by auto

lemma table_frame [simp]:
  "wf_signals (record_audit k i e st) = wf_signals st" "wf_quarantined (record_audit k i e st) = wf_quarantined st"
  "wf_closes (record_audit k i e st) = wf_closes st"
  "wf_signals (halt why st) = wf_signals st" "wf_quarantined (halt why st) = wf_quarantined st" "wf_closes (halt why st) = wf_closes st"
  "wf_signals (add_item w st) = wf_signals st" "wf_quarantined (add_item w st) = wf_quarantined st"
  "wf_closes (add_item w st) = wf_closes st"
  "wf_signals (update_item j g st) = wf_signals st" "wf_quarantined (update_item j g st) = wf_quarantined st"
  "wf_closes (update_item j g st) = wf_closes st"
  "wf_quarantined (update_signal sid f st) = wf_quarantined st" "wf_closes (update_signal sid f st) = wf_closes st"
  "wf_quarantined (update_signals p f st) = wf_quarantined st" "wf_closes (update_signals p f st) = wf_closes st"
  by (simp_all add: table_ops update_signals_def)

lemma notify_frame [simp]:
  "wf_signals (notify key kind args fresh now st) = wf_signals st"
  "wf_quarantined (notify key kind args fresh now st) = wf_quarantined st"
  "wf_closes (notify key kind args fresh now st) = wf_closes st"
  by (auto simp: add_notification_def split: option.split)

subsection \<open>The life of a signal\<close>

definition successors :: "string \<Rightarrow> string list" where
  "successors p =
     (if p = PENDING then [SUBMITTING, EXECUTED, ''EXPIRED'', ''DISMISSED'', FAILED] @ CLOSED
      else if p = SUBMITTING then [EXECUTED, FAILED] @ CLOSED
      else if p = EXECUTED then FAILED # CLOSED
      else [])"

text \<open>The stop of a position only tightens.\<close>

definition ratcheted :: "signal \<Rightarrow> signal \<Rightarrow> bool" where
  "ratcheted s s' = (sg_stop_loss s' = sg_stop_loss s
     \<or> sg_direction (sg_alpha s) = LONG \<and> sg_stop_loss s < sg_stop_loss s'
     \<or> sg_direction (sg_alpha s) = SHORT \<and> sg_stop_loss s' < sg_stop_loss s)"

definition evolves :: "signal \<Rightarrow> signal \<Rightarrow> bool" where
  "evolves s s' = (sg_id s' = sg_id s \<and> sg_timestamp s' = sg_timestamp s \<and> sg_alpha s' = sg_alpha s
     \<and> sg_asset_class s' = sg_asset_class s \<and> sg_take_profit s' = sg_take_profit s \<and> sg_policies s' = sg_policies s
     \<and> (sg_status s' = sg_status s \<or> sg_status s' \<in> set (successors (sg_status s)))
     \<and> ratcheted s s' \<and> (successors (sg_status s) = [] \<longrightarrow> s' = s))"

lemmas status_defs = PENDING_def SUBMITTING_def EXECUTED_def FAILED_def CLOSED_def

lemma successors_trans: "q \<in> set (successors p) \<Longrightarrow> r \<in> set (successors q) \<Longrightarrow> r \<in> set (successors p)"
  by (auto simp: successors_def status_defs split: if_split_asm)

lemma fless_trans: "(a :: pyfloat) < b \<Longrightarrow> b < c \<Longrightarrow> a < c"
  by (cases a; cases b; cases c) auto

lemma evolves_refl [simp]: "evolves s s"
  by (simp add: evolves_def ratcheted_def)

lemma evolves_key: "evolves s s' \<Longrightarrow> sg_id s' = sg_id s" "evolves s s' \<Longrightarrow> sg_alpha s' = sg_alpha s"
  by (simp_all add: evolves_def)

lemma evolves_trans:
  assumes "evolves a b" "evolves b c" shows "evolves a c"
proof -
  have "ratcheted a c" using assms by (auto simp: evolves_def ratcheted_def dest: fless_trans)
  moreover have "sg_status c = sg_status a \<or> sg_status c \<in> set (successors (sg_status a))"
    using assms successors_trans [of "sg_status b" "sg_status a" "sg_status c"] by (auto simp: evolves_def)
  ultimately show ?thesis using assms by (auto simp: evolves_def)
qed

text \<open>
  What one transaction does to the signals: every row evolves or is quarantined as it is, quarantined
  rows stay, no row becomes submitting, and identifiers stay a key.
\<close>

definition rows_evolve :: "wf_state \<Rightarrow> wf_state \<Rightarrow> bool" where
  "rows_evolve st st' = (\<forall>s \<in> set (wf_signals st). \<exists>s'. (s' \<in> set (wf_signals st') \<or> s' \<in> set (wf_quarantined st')) \<and> evolves s s')"

definition none_submitting :: "wf_state \<Rightarrow> wf_state \<Rightarrow> bool" where
  "none_submitting st st' = (\<forall>s' \<in> set (wf_signals st'). sg_status s' = SUBMITTING \<longrightarrow>
     (\<exists>s \<in> set (wf_signals st). sg_status s = SUBMITTING \<and> sg_alpha s = sg_alpha s'))"

definition signal_step :: "bool \<Rightarrow> wf_state \<Rightarrow> wf_state \<Rightarrow> bool" where
  "signal_step calm st st' = (distinct (signal_ids st) \<longrightarrow>
     rows_evolve st st' \<and> set (wf_quarantined st) \<subseteq> set (wf_quarantined st') \<and> distinct (signal_ids st')
     \<and> (calm \<longrightarrow> none_submitting st st'))"

lemma signal_step_same:
  assumes "wf_signals st' = wf_signals st" "wf_quarantined st' = wf_quarantined st"
  shows "signal_step c st st'"
proof -
  have "rows_evolve st st'" "none_submitting st st'" unfolding rows_evolve_def none_submitting_def assms using evolves_refl by blast+
  then show ?thesis using assms by (simp add: signal_step_def signal_ids_def)
qed

lemma rows_evolve_trans:
  assumes "rows_evolve s t" "rows_evolve t u" "set (wf_quarantined t) \<subseteq> set (wf_quarantined u)"
  shows "rows_evolve s u"
  unfolding rows_evolve_def
proof
  fix x assume "x \<in> set (wf_signals s)"
  then obtain y where y: "y \<in> set (wf_signals t) \<or> y \<in> set (wf_quarantined t)" "evolves x y"
    using assms(1) unfolding rows_evolve_def by blast
  then consider z where "z \<in> set (wf_signals u) \<or> z \<in> set (wf_quarantined u)" "evolves y z" | "y \<in> set (wf_quarantined u)"
    using assms(2,3) unfolding rows_evolve_def by blast
  then show "\<exists>z. (z \<in> set (wf_signals u) \<or> z \<in> set (wf_quarantined u)) \<and> evolves x z"
    using y(2) evolves_trans by cases blast+
qed

lemma signal_step_trans: "signal_step c s t \<Longrightarrow> signal_step c t u \<Longrightarrow> signal_step c s u"
  unfolding signal_step_def none_submitting_def by (metis rows_evolve_trans subset_trans)

text \<open>Rows are changed in place.\<close>

lemma signal_step_map:
  assumes "wf_signals st' = map (\<lambda>s. if p s then f s else s) (wf_signals st)" "wf_quarantined st' = wf_quarantined st"
    and ev: "\<And>s. distinct (signal_ids st) \<Longrightarrow> s \<in> set (wf_signals st) \<Longrightarrow> p s \<Longrightarrow>
      evolves s (f s) \<and> (c \<longrightarrow> sg_status (f s) = SUBMITTING \<longrightarrow> sg_status s = SUBMITTING)"
  shows "signal_step c st st'"
  unfolding signal_step_def
proof (intro impI conjI)
  assume d: "distinct (signal_ids st)"
  let ?u = "\<lambda>s. if p s then f s else s"
  have u: "evolves s (?u s)" if "s \<in> set (wf_signals st)" for s using ev [OF d that] by simp
  then have "rows_evolve st st'" unfolding rows_evolve_def assms(1) set_map by blast
  then show "rows_evolve st st'" .
  have "map sg_id (map ?u (wf_signals st)) = map sg_id (wf_signals st)" using u by (simp add: evolves_key)
  then have "signal_ids st' = signal_ids st" unfolding signal_ids_def map_append assms(1,2) by (simp only:)
  then show "distinct (signal_ids st')" using d by simp
  show "set (wf_quarantined st) \<subseteq> set (wf_quarantined st')" by (simp add: assms)
  assume c: c
  have kept: "sg_status (?u s) = SUBMITTING \<longrightarrow> sg_status s = SUBMITTING" "sg_alpha (?u s) = sg_alpha s"
    if "s \<in> set (wf_signals st)" for s
    using ev [OF d that] c evolves_key(2) [OF u [OF that]] by presburger+
  show "none_submitting st st'" unfolding none_submitting_def
  proof (intro ballI impI)
    fix s' assume "s' \<in> set (wf_signals st')" and sub: "sg_status s' = SUBMITTING"
    then obtain s where s: "s \<in> set (wf_signals st)" "s' = ?u s" unfolding assms(1) set_map by blast
    show "\<exists>s \<in> set (wf_signals st). sg_status s = SUBMITTING \<and> sg_alpha s = sg_alpha s'"
      using kept [OF s(1)] sub s by (intro bexI [of _ s]) simp_all
  qed
qed

lemma signal_step_update:
  assumes "\<And>s. s \<in> set (wf_signals st) \<Longrightarrow> p s \<Longrightarrow> evolves s (f s) \<and> (sg_status (f s) = SUBMITTING \<longrightarrow> sg_status s = SUBMITTING)"
  shows "signal_step True st (update_signals p f st)"
  by (rule signal_step_map [of _ p f]) (simp add: update_signals_def, simp, use assms in blast)

text \<open>The one row with a given identifier.\<close>

lemma unique_signal:
  "distinct (signal_ids st) \<Longrightarrow> x \<in> set (wf_signals st) \<Longrightarrow> y \<in> set (wf_signals st) \<Longrightarrow> sg_id x = sg_id y \<Longrightarrow> x = y"
  by (auto simp: signal_ids_def distinct_map dest: inj_onD)

lemma signal_step_found:
  assumes "find_signal p st = Some s" "sg_id s = sid" "evolves s (f s)" "c \<longrightarrow> sg_status (f s) \<noteq> SUBMITTING"
  shows "signal_step c st (update_signal sid f st)"
proof -
  have "s \<in> set (wf_signals st)" using assms(1) find_Some_props by (fastforce simp: find_signal_def)
  then have "x = s" if "distinct (signal_ids st)" "x \<in> set (wf_signals st)" "sg_id x = sid" for x
    using unique_signal [OF that(1,2)] that(3) assms(2) by auto
  then show ?thesis
    using assms by (intro signal_step_map [of _ "\<lambda>x. sg_id x = sid" f]) (auto simp: update_signal_def)
qed

lemma signal_step_add:
  assumes "wf_signals st' = wf_signals st @ [s]" "wf_quarantined st' = wf_quarantined st" "new_signal_id (sg_id s) st" "sg_status s = PENDING"
  shows "signal_step c st st'"
proof -
  have "distinct (signal_ids st) \<Longrightarrow> distinct (signal_ids st')"
    using assms(1-3) by (auto simp: signal_ids_def new_signal_id_def list_all_iff)
  moreover have "rows_evolve st st'" "none_submitting st st'"
    using assms(1,4) evolves_refl unfolding rows_evolve_def none_submitting_def by (auto simp: status_defs)
  ultimately show ?thesis using assms(2) by (simp add: signal_step_def)
qed

lemma signal_step_after:
  assumes "signal_step c st t" "wf_signals u = wf_signals t" "wf_quarantined u = wf_quarantined t"
  shows "signal_step c st u"
  using signal_step_trans [OF assms(1) signal_step_same [OF assms(2,3)]] .

lemmas evolve_simps = evolves_def ratcheted_def successors_def status_defs

lemma expire_step: "signal_step True st (fst (move_signal i q st))" if "q \<in> {''EXPIRED'', ''DISMISSED''}"
  using that unfolding move_signal_def fst_conv
  by (intro signal_step_update) (auto simp: evolve_simps has_status_def)

lemma insert_step: "new_signal_id sid st \<Longrightarrow> sg_status row = PENDING \<Longrightarrow> signal_step True st (fst (insert_signal row nt sid f now st))"
  by (rule signal_step_add [where s = "row\<lparr>sg_id := sid, sg_timestamp := now, sg_broker_order_id := None, sg_executed_at := None,
        sg_exit_order_id := None, sg_exit_price := None, sg_exit_timestamp := None, sg_realized_pnl := None, sg_exit_reason := None\<rparr>"])
    (simp_all add: insert_signal_def Let_def split: option.split)

lemma new_signal_id_ids: "new_signal_id sid st \<longleftrightarrow> sid \<notin> set (signal_ids st)"
  by (auto simp: new_signal_id_def signal_ids_def list_all_iff)

lemma replace_step:
  assumes "new_signal_id sid st" "sg_status row = PENDING"
  shows "signal_step True st (fst (replace_signal old row args sid f now st))"
proof -
  obtain st1 b where e: "expire_signal old st = (st1, b)" by fastforce
  have s1: "signal_step True st st1" using expire_step [of "''EXPIRED''" st old] e by (simp add: expire_signal_def)
  have "signal_ids st1 = signal_ids st"
    using e by (auto simp: signal_ids_def expire_signal_def move_signal_def update_signals_def)
  then have "new_signal_id sid st1" using assms(1) by (simp add: new_signal_id_ids)
  then have "signal_step True st1 (fst (insert_signal row (Some args) sid f now st1))" using assms(2) by (rule insert_step)
  then have "signal_step True st (fst (insert_signal row (Some args) sid f now st1))" by (rule signal_step_trans [OF s1])
  then show ?thesis using e by (cases b) (auto simp: replace_signal_def split_beta intro: signal_step_same)
qed

lemma sweep_step: "signal_step True st (fst (expire_each ny fromiso cs fresh now rows st))"
proof (induction rows arbitrary: st)
  case (Cons row rows)
  obtain st1 b where e: "expire_signal (sg_id row) st = (st1, b)" by fastforce
  have s1: "signal_step True st st1" using expire_step [of "''EXPIRED''" st "sg_id row"] e by (simp add: expire_signal_def)
  then have "signal_step True st (notify k kd a (fresh (length rows)) now st1)" for k kd a by (rule signal_step_after) simp_all
  then show ?case
    using Cons.IH signal_step_trans [OF s1 Cons.IH] signal_step_trans [OF _ Cons.IH] e by (auto simp: split_beta split: bool.split)
qed (simp add: signal_step_same)

lemma quarantine_step:
  assumes "quarantine_signal i ex st = Ok (st', b)"
  shows "signal_step True st st'"
proof (cases "st' = st")
  case False
  then obtain s where s: "find_signal (\<lambda>s. sg_id s = i) st = Some s"
      and st': "wf_signals st' = filter (\<lambda>x. sg_id x \<noteq> i) (wf_signals st)" "wf_quarantined st' = wf_quarantined st @ [s]"
    using assms by (auto simp: quarantine_signal_def split: option.split_asm if_split_asm)
  have in_s: "s \<in> set (wf_signals st)" "sg_id s = i" using s find_Some_props by (fastforce simp: find_signal_def)+
  have "rows_evolve st st'" if d: "distinct (signal_ids st)"
    unfolding rows_evolve_def
  proof
    fix x assume x: "x \<in> set (wf_signals st)"
    then have "sg_id x = i \<Longrightarrow> x = s" using unique_signal [OF d x in_s(1)] in_s(2) by simp
    then show "\<exists>y. (y \<in> set (wf_signals st') \<or> y \<in> set (wf_quarantined st')) \<and> evolves x y"
      using x by (intro exI [of _ x]) (auto simp: st')
  qed
  moreover have "none_submitting st st'" by (auto simp: none_submitting_def st')
  moreover have "distinct (signal_ids st')" if "distinct (signal_ids st)"
    using that in_s by (auto simp: signal_ids_def st' distinct_map_filter image_iff)
  ultimately show ?thesis by (auto simp: signal_step_def st')
qed (simp add: signal_step_same)

lemma executed_step: "eu_status u = EXECUTED \<Longrightarrow> signal_step True st (update_signal_execution sid u f now st)"
proof -
  assume "eu_status u = EXECUTED"
  then have "signal_step True (audit k sid st) (update_signals (executable sid) (apply_execution u) (audit k sid st))" for k
    by (intro signal_step_update) (auto simp: evolve_simps executable_def apply_execution_def)
  then have "signal_step True st (update_signals (executable sid) (apply_execution u) (audit k sid st))" for k
    by (rule signal_step_trans [OF signal_step_same, rotated 2]) simp_all
  then show ?thesis by (rule signal_step_after) (auto simp: update_signal_execution_def Let_def split: option.split)
qed

lemma close_position_step: "ef_status x \<in> set CLOSED \<Longrightarrow> signal_step True st (fst (close_position sid x given f now st))"
proof (cases "find_signal (has_status sid EXECUTED) st")
  case (Some s)
  assume x: "ef_status x \<in> set CLOSED"
  have "signal_step True st (update_signals (has_status sid EXECUTED) (\<lambda>r. r\<lparr>sg_status := ef_status x, sg_exit_price := Some (ef_price x),
      sg_exit_timestamp := Some (case ef_timestamp x of Some t \<Rightarrow> t | None \<Rightarrow> now),
      sg_exit_order_id := ef_order_id x, sg_realized_pnl := Some (ef_realized_pnl x), sg_exit_reason := Some (ef_reason x)\<rparr>) st)"
    using x by (intro signal_step_update) (auto simp: evolve_simps has_status_def)
  then show ?thesis by (rule signal_step_after) (simp_all add: close_position_def Some Let_def)
qed (simp add: close_position_def signal_step_same)

lemma stop_step: "signal_step True st (fst (update_position_stop sid new_stop nt f now st))"
proof -
  have "signal_step True st (update_signals (ratchets sid new_stop) (\<lambda>s. s\<lparr>sg_stop_loss := new_stop\<rparr>) st)"
    by (intro signal_step_update) (auto simp: evolve_simps ratchets_def has_status_def)
  then have "signal_step True st (fst (update_position_stop sid new_stop nt f now st))" if "any_signal (ratchets sid new_stop) st"
    by (rule signal_step_after) (use that in \<open>auto simp: update_position_stop_def Let_def split: option.split\<close>)
  then show ?thesis by (cases "any_signal (ratchets sid new_stop) st") (simp_all add: update_position_stop_def signal_step_same)
qed

lemma exit_requests_step:
  "signal_step True st (record_exit_request sid oid st)" "signal_step True st (clear_failed_exit_request sid oid st)"
proof -
  have u: "signal_step True st (update_signals (\<lambda>s. has_status sid EXECUTED s \<and> q s) (\<lambda>s. s\<lparr>sg_exit_order_id := v\<rparr>) st)" for q v
    by (intro signal_step_update) (auto simp: evolve_simps has_status_def)
  then show "signal_step True st (record_exit_request sid oid st)" "signal_step True st (clear_failed_exit_request sid oid st)"
    using signal_step_after [OF u] by (auto simp: record_exit_request_def clear_failed_exit_request_def Let_def signal_step_same)
qed

lemma claim_close_tables:
  assumes "claim_close_request req f now st = Ok (st', b, c)"
  shows "wf_signals st' = wf_signals st" "wf_quarantined st' = wf_quarantined st"
  using assms by (auto simp: claim_close_request_def Let_def split: if_split_asm option.split_asm simp del: wf_append_None)

lemma update_close_tables:
  "wf_signals (update_close_request i status detail oid f now st) = wf_signals st"
  "wf_quarantined (update_close_request i status detail oid f now st) = wf_quarantined st"
  by (auto simp: update_close_request_def Let_def split: option.split simp del: wf_append_None)

lemma begin_cancel_tables:
  assumes "begin_cancel ny utc et_date cause sid identity orders lifetime t sessions f g now st = Ok (st', y)"
  shows "wf_signals st' = wf_signals st" "wf_quarantined st' = wf_quarantined st" "wf_closes st' = wf_closes st"
proof -
  obtain r where "cancel_refusal ny utc (cause = ''operator'') sid identity orders lifetime t sessions st = Ok r"
    using assms by (auto simp: begin_cancel_def bindr_Inr_iff Let_def)
  then show "wf_signals st' = wf_signals st" "wf_quarantined st' = wf_quarantined st" "wf_closes st' = wf_closes st"
    using assms by (auto simp: begin_cancel_def claim_cancel_def Let_def split: option.split_asm if_split_asm simp: add_item_def)
qed

lemma settle_cancel_step: "signal_step True st (settle_cancel et_date row claim status outcome confirmed ff f now st)"
proof -
  let ?p = "\<lambda>s. sg_id s = cc_signal_id claim \<and> resting_signal (cc_identity claim) s"
  have m: "signal_step True st (update_signals ?p (\<lambda>s. s\<lparr>sg_status := FAILED\<rparr>) st)"
    by (intro signal_step_update) (auto simp: evolve_simps resting_signal_def)
  show ?thesis
  proof (cases confirmed)
    case True
    then show ?thesis
      by (intro signal_step_after [OF m]) (auto simp: settle_cancel_def Let_def update_signals_def simp del: wf_append_None)
  next
    case False
    then show ?thesis by (intro signal_step_same) (auto simp: settle_cancel_def Let_def simp del: wf_append_None)
  qed
qed

lemma settle_cancel_closes: "wf_closes (settle_cancel et_date row claim status outcome confirmed ff f now st) = wf_closes st"
  by (auto simp: settle_cancel_def Let_def simp del: wf_append_None)

lemma resolve_cancel_step:
  assumes "resolve_cancel et_date item_id claim orders why err pending f now st = Ok (st', b)"
  shows "signal_step True st st'" "wf_closes st' = wf_closes st"
  using resolve_cancel_cases [OF assms] settle_cancel_step settle_cancel_closes signal_step_same
  by (elim disjE exE conjE; simp)+

lemma op_signals:
  assumes "desk_op ny utc et_date fromiso F st st'" "\<not> (wf_events st = [] \<and> (\<exists>n. clear_all_signals st = Ok (st', n)))"
  shows "signal_step True st st'"
  using assms
proof (induction rule: desk_op.induct)
  case (recorded sid st row f nt now)
  then show ?case by (simp add: record_signal_def insert_step)
next
  case (cancel_claimed cause sid identity orders lifetime t sessions f g now st st' y)
  note t = begin_cancel_tables [OF cancel_claimed(1)]
  show ?case by (rule signal_step_same) (simp_all add: t)
next
  case (cancel_resolved item_id claim orders why err pending f now st st' b)
  then show ?case using resolve_cancel_step by blast
next
  case (close_claimed req f now st st' b c)
  note t = claim_close_tables [OF close_claimed(1)]
  show ?case by (rule signal_step_same) (simp_all add: t)
next
  case (cleared st st' n)
  then show ?case by (auto simp: clear_all_signals_def split: if_split_asm)
next
  case (reevaluate st sid payload)
  then show ?case by (intro signal_step_same) (auto simp: claim_card_reevaluation_def Let_def split: option.split)
next
  case (digest_queued f st day body now)
  then show ?case by (intro signal_step_same) (auto simp: queue_auto_entry_digest_def)
next
  case (noticed f st key kind args now)
  then show ?case by (intro signal_step_same) simp_all
next
  case (expire st i)
  then show ?case using expire_step [of "''EXPIRED''" st i] by (simp add: expire_signal_def)
next
  case (dismiss st i)
  then show ?case using expire_step [of "''DISMISSED''" st i] by (simp add: dismiss_signal_def)
qed (auto simp: expire_stale_signals_def sweep_step replace_step quarantine_step executed_step close_position_step stop_step
    exit_requests_step update_close_tables missed_bound_def lifetime_review_def Let_def set_halted_def elsewhere_def
    intro: signal_step_same quarantine_step)


lemma settle_signal_step: "signal_step True st (settle_signal sid r st)"
proof (cases "find_signal (\<lambda>s. sg_id s = sid \<and> sg_status s = ''SUBMITTING'') st")
  case (Some s)
  then have "sg_id s = sid" "sg_status s = ''SUBMITTING''" using find_Some_props by (fastforce simp: find_signal_def)+
  then show ?thesis
    unfolding settle_signal_def Some option.case by (intro signal_step_found [OF Some]) (simp_all add: evolve_simps)
qed (simp add: settle_signal_def signal_step_same)

lemma resolve_entry_step:
  "signal_step True st (fst (resolve_entry et_date item res recovery fresh now st))"
  "wf_closes (fst (resolve_entry et_date item res recovery fresh now st)) = wf_closes st"
proof -
  have closes: "wf_closes (settle_signal sid r st) = wf_closes st" for sid r st
    by (auto simp: settle_signal_def split: option.split)
  show "wf_closes (fst (resolve_entry et_date item res recovery fresh now st)) = wf_closes st"
    by (auto simp: resolve_entry_def Let_def closes simp del: wf_append_None split: option.split)
  show "signal_step True st (fst (resolve_entry et_date item res recovery fresh now st))"
  proof (cases "find_item (\<lambda>w. w_id w = w_id item \<and> w_status w \<in> set ENTRY_BLOCKING) st")
    case (Some row)
    have t: "signal_step True st (settle_signal sid res (update_item j g st))" for sid j g
      by (rule signal_step_trans [OF signal_step_same settle_signal_step]) simp_all
    show ?thesis
    proof (cases "resolved_status res = Unknown")
      case True
      then show ?thesis
        by (intro signal_step_same) (auto simp: resolve_entry_def Some Let_def simp del: wf_append_None)
    next
      case False
      then show ?thesis
        using signal_step_after [OF t] by (auto simp: resolve_entry_def Some Let_def signal_step_same simp del: wf_append_None)
    qed
  qed (simp add: resolve_entry_def signal_step_same)
qed

text \<open>Only a reservation makes a signal submitting, and only where its symbol has no active close.\<close>

definition reserves :: "wf_state \<Rightarrow> wf_state \<Rightarrow> bool" where
  "reserves st st' = (\<exists>symbol. \<not> list_ex (\<lambda>c. cr_symbol c = symbol \<and> active_close c) (wf_closes st)
     \<and> (distinct (signal_ids st) \<longrightarrow> (\<forall>s' \<in> set (wf_signals st'). sg_status s' = SUBMITTING \<longrightarrow>
          sg_contract (sg_alpha s') = symbol \<or> (\<exists>s \<in> set (wf_signals st). sg_status s = SUBMITTING \<and> sg_alpha s = sg_alpha s'))))"

lemma signal_step_weaken: "signal_step True st st' \<Longrightarrow> signal_step False st st'"
  by (simp add: signal_step_def)

lemma enqueue_step:
  assumes "enqueue_entry r c t fresh now st = Ok (st', x)" "request_for_signal r st"
  shows "signal_step False st st' \<and> (signal_step True st st' \<or> reserves st st') \<and> wf_closes st' = wf_closes st"
proof (cases "entry_of (rq_signal_id r) st")
  case None
  let ?sid = "rq_signal_id r"
  have same: "wf_signals (audit k ?sid st) = wf_signals st" "wf_quarantined (audit k ?sid st) = wf_quarantined st" for k by simp_all
  show ?thesis using enqueue_cases [OF assms(1) None]
  proof (elim disjE exE conjE)
    fix risk s
    assume res: "reserve r c t (command_id fresh) now risk st = Ok (st', x)" and s: "find_signal (\<lambda>s. sg_id s = ?sid) st = Some s" "sg_status s = ''PENDING''"
      and nc: "\<not> list_ex (\<lambda>c. cr_symbol c = rq_symbol r \<and> cr_status c \<in> set ACTIVE_CLOSE_STATUSES) (wf_closes st)"
    have props: "s \<in> set (wf_signals st)" "sg_id s = ?sid" using s find_Some_props by (fastforce simp: find_signal_def)+
    obtain f where f: "wf_signals st' = wf_signals (update_signal ?sid f st)" "wf_quarantined st' = wf_quarantined st" "wf_closes st' = wf_closes st"
        "evolves s (f s)" "sg_alpha (f s) = sg_alpha s"
      using res s(2) by (auto simp: reserve_def Let_def split_beta evolve_simps split: option.split_asm)
    have step: "signal_step False st st'"
      by (rule signal_step_after [OF signal_step_found [OF s(1) props(2), of f]]) (simp_all add: f)
    have contract: "sg_contract (sg_alpha s) = rq_symbol r" using assms(2) s(1) by (simp add: request_for_signal_def)
    have "reserves st st'" unfolding reserves_def
    proof (intro exI conjI impI ballI)
      show "\<not> list_ex (\<lambda>c. cr_symbol c = rq_symbol r \<and> active_close c) (wf_closes st)" using nc by (simp add: active_close_def)
      fix s' assume d: "distinct (signal_ids st)" and s': "s' \<in> set (wf_signals st')" "sg_status s' = SUBMITTING"
      then obtain y where y: "y \<in> set (wf_signals st)" "s' = (if sg_id y = ?sid then f y else y)"
        using f(1) by (auto simp: update_signal_def)
      show "sg_contract (sg_alpha s') = rq_symbol r \<or> (\<exists>s \<in> set (wf_signals st). sg_status s = SUBMITTING \<and> sg_alpha s = sg_alpha s')"
      proof (cases "sg_id y = ?sid")
        case True
        then have "y = s" using unique_signal [OF d y(1) props(1)] props(2) by simp
        then show ?thesis using y(2) True f(5) contract by simp
      next
        case False
        then show ?thesis using y s'(2) by auto
      qed
    qed
    then show ?thesis using step f(3) by simp
  qed (simp_all add: signal_step_same same)
qed (use assms in \<open>auto simp: enqueue_entry_def Let_def intro: signal_step_same\<close>)

lemma calm_step:
  "signal_step True st st' \<Longrightarrow> wf_closes st' = wf_closes st
     \<Longrightarrow> signal_step False st st' \<and> (signal_step True st st' \<or> reserves st st') \<and> wf_closes st' = wf_closes st"
  using signal_step_weaken by blast

lemma queue_step:
  assumes "wf_trans fingerprint et_date st st'"
  shows "signal_step False st st' \<and> (signal_step True st st' \<or> reserves st st') \<and> wf_closes st' = wf_closes st"
  using assms
proof (induction rule: wf_trans.induct)
  case (enqueue r c t fresh now st st' x)
  then show ?case using enqueue_step by blast
next
  case (submit item c fp x clock st st' y)
  have "wf_signals st' = wf_signals st \<and> wf_quarantined st' = wf_quarantined st \<and> wf_closes st' = wf_closes st"
    using begin_submission_cases [OF submit] by auto
  then show ?case using calm_step signal_step_same by blast
next
  case (resolve recovery item fresh st res now)
  show ?case by (rule calm_step [OF resolve_entry_step])
qed (intro calm_step signal_step_same; auto simp: claim_entry_def claim_notification_def finish_notification_def requeue_notification_def Let_def
    simp del: wf_append_None split: option.split)+

lemma release_step:
  "signal_step True st (release_reservation cur i f now st)" "wf_closes (release_reservation cur i f now st) = wf_closes st"
proof -
  show "wf_closes (release_reservation cur i f now st) = wf_closes st"
    by (auto simp: release_reservation_def split: option.split)
  show "signal_step True st (release_reservation cur i f now st)"
  proof (cases "find_signal (\<lambda>s. sg_broker_order_id s = Some i \<and> sg_status s = ''EXECUTED'' \<and> sg_executed_at s = None) st")
    case (Some s)
    then have "sg_status s = ''EXECUTED''" using find_Some_props by (fastforce simp: find_signal_def)
    then have "signal_step True st (update_signal (sg_id s) (\<lambda>x. x\<lparr>sg_status := ''FAILED''\<rparr>) st)"
      by (intro signal_step_found [OF Some]) (simp_all add: evolve_simps)
    then have "signal_step True st (record_audit k j e (notify key kd a f now (update_signal (sg_id s) (\<lambda>x. x\<lparr>sg_status := ''FAILED''\<rparr>) st)))"
      for k j e key kd a by (rule signal_step_after) simp_all
    then show ?thesis by (simp add: release_reservation_def Some signal_step_same)
  qed (simp add: release_reservation_def signal_step_same)
qed

lemma observe_order_signals:
  assumes "observe_order digest f now obs st = Ok st'"
  shows "signal_step True st st'" "wf_closes st' = wf_closes st"
proof -
  obtain st1 e views moved where a: "wf_append (order_stream (o_order_id obs)) ''order_observed'' (POrder obs)
        (Some (observation_key digest obs)) st = (st1, e)"
    and st': "after_projection (o_order_id obs) f now (st1\<lparr>wf_orders := views\<rparr>) = Ok st'"
    using assms(1) by (auto simp: observe_order_def bindr_Inr_iff split: prod.split_asm)
  define st2 where "st2 = st1\<lparr>wf_orders := views\<rparr>"
  have st1: "st1 = fst (wf_append (order_stream (o_order_id obs)) ''order_observed'' (POrder obs)
        (Some (observation_key digest obs)) st)" by (simp add: a)
  note rel = release_step
  have "\<exists>cur i. st' = st2 \<or> st' = release_reservation cur i f now st2"
    using st' unfolding st2_def [symmetric]
    by (auto simp: after_projection_def bindr_Inr_iff split: option.split_asm if_split_asm) blast
  moreover have "signal_step True st st2" unfolding st2_def st1 by (rule signal_step_same) simp_all
  ultimately show "signal_step True st st'" using rel signal_step_trans by blast
  show "wf_closes st' = wf_closes st"
    using \<open>\<exists>cur i. st' = st2 \<or> st' = release_reservation cur i f now st2\<close> rel(2) by (auto simp: st2_def st1)
qed

lemma observe_orders_signals:
  assumes "observe_orders digest fresh now obs st = Ok st'"
  shows "signal_step True st st' \<and> wf_closes st' = wf_closes st"
  using assms
proof (induction obs arbitrary: st)
  case (Cons x obs)
  then obtain st1 where s: "observe_order digest (fresh (length obs)) now x st = Ok st1" "observe_orders digest fresh now obs st1 = Ok st'"
    by (auto simp: bindr_Inr_iff)
  show ?case using observe_order_signals [OF s(1)] Cons.IH [OF s(2)] signal_step_trans by metis
qed (simp add: signal_step_same)

subsection \<open>Close requests\<close>

text \<open>
  One active request per symbol, under unique identifiers; a request keeps its identity, and a resolved
  one does not change.
\<close>

definition closes_inv :: "wf_state \<Rightarrow> bool" where
  "closes_inv st = (distinct (map cr_id (wf_closes st)) \<and> distinct (map cr_symbol (filter active_close (wf_closes st))))"

definition close_kept :: "close_request \<Rightarrow> close_request \<Rightarrow> bool" where
  "close_kept c c' = (cr_id c' = cr_id c \<and> cr_symbol c' = cr_symbol c \<and> cr_direction c' = cr_direction c
     \<and> cr_quantity c' = cr_quantity c \<and> cr_signal_id c' = cr_signal_id c \<and> (\<not> active_close c \<longrightarrow> c' = c))"

definition active_symbols :: "wf_state \<Rightarrow> string set" where
  "active_symbols st = cr_symbol ` {c \<in> set (wf_closes st). active_close c}"

definition submitting_symbols :: "wf_state \<Rightarrow> string set" where
  "submitting_symbols st = (\<lambda>s. sg_contract (sg_alpha s)) ` {s \<in> set (wf_signals st). sg_status s = SUBMITTING}"

definition closes_step :: "wf_state \<Rightarrow> wf_state \<Rightarrow> bool" where
  "closes_step st st' = (closes_inv st \<longrightarrow> closes_inv st' \<and> (\<forall>c \<in> set (wf_closes st). \<exists>c' \<in> set (wf_closes st'). close_kept c c')
     \<and> (active_symbols st' \<subseteq> active_symbols st
        \<or> (\<exists>symbol. active_symbols st' = insert symbol (active_symbols st) \<and> symbol \<notin> submitting_symbols st)))"

lemma closes_step_same: "wf_closes st' = wf_closes st \<Longrightarrow> closes_step st st'"
  by (auto simp: closes_step_def closes_inv_def active_symbols_def close_kept_def)

lemma claim_close_cases:
  assumes "claim_close_request req f now st = Ok (st', granted, c)"
  shows "(st' = st \<and> \<not> granted)
    \<or> (granted \<and> c = req\<lparr>cr_status := ''claimed'', cr_detail := [], cr_broker_order_id := None\<rparr>
       \<and> wf_closes st' = wf_closes st @ [c] \<and> get_close_request (cr_id req) st = None
       \<and> \<not> unresolved_cancellation_on (cr_symbol req) st \<and> cr_symbol req \<notin> submitting_symbols st
       \<and> cr_symbol req \<notin> active_symbols st)"
  using assms
  by (auto simp: claim_close_request_def Let_def any_signal_def list_ex_iff find_None_iff submitting_symbols_def active_symbols_def
      simp del: wf_append_None split: if_split_asm option.split_asm)

lemma claim_close_step:
  assumes "claim_close_request req f now st = Ok (st', granted, c)"
  shows "closes_step st st'"
  using claim_close_cases [OF assms]
proof (elim disjE conjE)
  assume c: "c = req\<lparr>cr_status := ''claimed'', cr_detail := [], cr_broker_order_id := None\<rparr>" "wf_closes st' = wf_closes st @ [c]"
    and new: "get_close_request (cr_id req) st = None" "cr_symbol req \<notin> submitting_symbols st" "cr_symbol req \<notin> active_symbols st"
  have act: "active_close c" "cr_symbol c = cr_symbol req" "cr_id c = cr_id req" by (simp_all add: c active_close_def ACTIVE_CLOSE_STATUSES_def)
  have "closes_inv st'" if "closes_inv st"
    using that new act by (auto simp: closes_inv_def c(2) get_close_request_def find_None_iff active_symbols_def)
  moreover have "{x \<in> set (wf_closes st'). active_close x} = insert c {x \<in> set (wf_closes st). active_close x}"
    using act(1) by (auto simp: c(2))
  then have "active_symbols st' = insert (cr_symbol req) (active_symbols st)" by (simp add: active_symbols_def act(2))
  moreover have "\<forall>x \<in> set (wf_closes st). \<exists>y \<in> set (wf_closes st'). close_kept x y" by (auto simp: close_kept_def c(2))
  ultimately show ?thesis using new(2) unfolding closes_step_def by blast
qed (simp add: closes_step_same)

lemma distinct_filter_map_update:
  assumes "distinct (map k (filter p xs))" "\<And>x. x \<in> set xs \<Longrightarrow> k (u x) = k x" "\<And>x. x \<in> set xs \<Longrightarrow> p (u x) \<Longrightarrow> p x"
  shows "distinct (map k (filter p (map u xs)))"
  using assms
proof (induction xs)
  case (Cons x xs)
  have "k ` {y \<in> u ` set xs. p y} \<subseteq> k ` {y \<in> set xs. p y}" using Cons.prems(2,3) by force
  then show ?case using Cons by (auto split: if_split_asm)
qed simp

lemma update_close_step: "closes_step st (update_close_request i status detail oid f now st)"
proof (cases "wf_closes (update_close_request i status detail oid f now st) = wf_closes st")
  case False
  let ?st = "update_close_request i status detail oid f now st"
  obtain prior where prior: "get_close_request i st = Some prior" "active_close prior"
    using False by (auto simp: update_close_request_def split: option.split_asm if_split_asm)
  let ?c = "prior\<lparr>cr_status := status, cr_detail := detail,
      cr_broker_order_id := (if set_text oid then oid else cr_broker_order_id prior)\<rparr>"
  let ?u = "\<lambda>x. if cr_id x = i then ?c else x"
  have closes: "wf_closes ?st = map ?u (wf_closes st)"
    using False prior by (auto simp: update_close_request_def Let_def simp del: wf_append_None)
  have p: "prior \<in> set (wf_closes st)" "cr_id prior = i" using prior(1) find_Some_props by (fastforce simp: get_close_request_def)+
  show ?thesis unfolding closes_step_def
  proof (intro impI conjI)
    assume inv: "closes_inv st"
    then have u: "x = prior" if "x \<in> set (wf_closes st)" "cr_id x = i" for x
      using that p by (auto simp: closes_inv_def distinct_map dest: inj_onD)
    have ids: "cr_id (?u x) = cr_id x" "cr_symbol (?u x) = cr_symbol x" "active_close (?u x) \<Longrightarrow> active_close x" "close_kept x (?u x)"
      if "x \<in> set (wf_closes st)" for x
      using u [OF that] prior(2) p by (cases "cr_id x = i"; simp add: close_kept_def)+
    have m: "map cr_id (map ?u (wf_closes st)) = map cr_id (wf_closes st)" using ids(1) by simp
    have "distinct (map cr_symbol (filter active_close (map ?u (wf_closes st))))"
      by (rule distinct_filter_map_update) (use inv ids(2,3) in \<open>simp_all only: closes_inv_def\<close>)
    then show "closes_inv ?st" using inv unfolding closes_inv_def closes m by blast
    show "\<forall>c \<in> set (wf_closes st). \<exists>c' \<in> set (wf_closes ?st). close_kept c c'" using ids(4) unfolding closes set_map by blast
    have "active_symbols ?st \<subseteq> active_symbols st"
    proof
      fix y assume "y \<in> active_symbols ?st"
      then obtain x where x: "x \<in> set (wf_closes st)" "active_close (?u x)" "y = cr_symbol (?u x)"
        unfolding active_symbols_def closes set_map by blast
      show "y \<in> active_symbols st"
        unfolding active_symbols_def x(3) ids(2) [OF x(1)] using x(1) ids(3) [OF x(1,2)] by blast
    qed
    then show "active_symbols ?st \<subseteq> active_symbols st
        \<or> (\<exists>symbol. active_symbols ?st = insert symbol (active_symbols st) \<and> symbol \<notin> submitting_symbols st)" by simp
  qed
qed (simp add: closes_step_same)

lemma sweep_closes: "wf_closes (fst (expire_each ny fromiso cs fresh now rows st)) = wf_closes st"
  by (induction rows arbitrary: st)
    (auto simp: expire_signal_def move_signal_def split_beta split: bool.split prod.split)

lemma op_closes:
  assumes "desk_op ny utc et_date fromiso F st st'"
  shows "closes_step st st'"
  using assms
proof (induction rule: desk_op.induct)
  case (close_claimed req f now st st' b c)
  then show ?case using claim_close_step by blast
next
  case (close_updated f st i status detail oid now)
  show ?case by (rule update_close_step)
next
  case (cancel_claimed cause sid identity orders lifetime t sessions f g now st st' y)
  show ?case by (rule closes_step_same [OF begin_cancel_tables(3) [OF cancel_claimed(1)]])
next
  case (cancel_resolved item_id claim orders why err pending f now st st' b)
  show ?case by (rule closes_step_same [OF resolve_cancel_step(2) [OF cancel_resolved]])
next
  case (replaced sid st row f old args now)
  then show ?case
    by (intro closes_step_same) (auto simp: replace_signal_def insert_signal_def expire_signal_def move_signal_def Let_def split_beta split: bool.split prod.split)
next
  case (quarantine i ex st st' b)
  then show ?case by (intro closes_step_same) (auto simp: quarantine_signal_def split: option.split_asm if_split_asm)
next
  case (cleared st st' n)
  then show ?case by (intro closes_step_same) (auto simp: clear_all_signals_def split: if_split_asm)
qed (intro closes_step_same; auto simp: record_signal_def insert_signal_def expire_signal_def dismiss_signal_def move_signal_def expire_stale_signals_def
      sweep_closes update_signal_execution_def close_position_def update_position_stop_def record_exit_request_def clear_failed_exit_request_def
      set_halted_def missed_bound_def lifetime_review_def claim_card_reevaluation_def queue_auto_entry_digest_def elsewhere_def Let_def
      simp del: wf_append_None split: option.split)+

subsection \<open>Invariants of the desk\<close>

text \<open>A symbol never has an active close and an entry in submission at once.\<close>

definition exclusive :: "wf_state \<Rightarrow> bool" where
  "exclusive st = (active_symbols st \<inter> submitting_symbols st = {})"

definition desk_inv :: "wf_state \<Rightarrow> bool" where
  "desk_inv st = (distinct (signal_ids st) \<and> closes_inv st \<and> exclusive st)"

lemma submitting_symbols_calm:
  "signal_step True st st' \<Longrightarrow> distinct (signal_ids st) \<Longrightarrow> submitting_symbols st' \<subseteq> submitting_symbols st"
  unfolding signal_step_def none_submitting_def submitting_symbols_def by (force simp: image_iff)

lemma submitting_symbols_reserve:
  assumes "reserves st st'" "distinct (signal_ids st)"
  shows "\<exists>symbol. symbol \<notin> active_symbols st \<and> submitting_symbols st' \<subseteq> insert symbol (submitting_symbols st)"
proof -
  obtain symbol where "\<not> list_ex (\<lambda>c. cr_symbol c = symbol \<and> active_close c) (wf_closes st)"
    "\<forall>s' \<in> set (wf_signals st'). sg_status s' = SUBMITTING \<longrightarrow> sg_contract (sg_alpha s') = symbol
        \<or> (\<exists>s \<in> set (wf_signals st). sg_status s = SUBMITTING \<and> sg_alpha s = sg_alpha s')"
    using assms unfolding reserves_def by blast
  then show ?thesis
    by (intro exI [of _ symbol]) (force simp: active_symbols_def submitting_symbols_def list_ex_iff image_iff)
qed

lemma cleared_empty: "clear_all_signals st = Ok (st', n) \<Longrightarrow> wf_signals st' = [] \<and> wf_quarantined st' = []"
  by (auto simp: clear_all_signals_def split: if_split_asm)

lemma op_exclusive:
  assumes "desk_op ny utc et_date fromiso F st st'" "desk_inv st" "signal_step True st st'"
  shows "desk_inv st'"
proof -
  have d: "distinct (signal_ids st)" "closes_inv st" "exclusive st" using assms(2) by (simp_all add: desk_inv_def)
  have "distinct (signal_ids st')" using assms(3) d by (simp add: signal_step_def)
  moreover have "submitting_symbols st' \<subseteq> submitting_symbols st" using submitting_symbols_calm [OF assms(3) d(1)] .
  moreover have "closes_inv st'" "active_symbols st' \<inter> submitting_symbols st = {}"
    using op_closes [OF assms(1)] d by (auto simp: closes_step_def exclusive_def)
  ultimately show ?thesis by (auto simp: desk_inv_def exclusive_def)
qed

lemma desk_inv_step:
  assumes "desk_trans w st st'" "desk_inv st"
  shows "desk_inv st'"
  using assms
proof cases
  case queue
  note q = queue_step [OF queue]
  have d: "distinct (signal_ids st)" "closes_inv st" "exclusive st" using assms(2) by (simp_all add: desk_inv_def)
  have "\<exists>symbol. symbol \<notin> active_symbols st \<and> submitting_symbols st' \<subseteq> insert symbol (submitting_symbols st)
      \<or> submitting_symbols st' \<subseteq> submitting_symbols st"
    using q submitting_symbols_calm [of st st'] submitting_symbols_reserve [of st st'] d(1) by blast
  moreover have "closes_inv st'" "active_symbols st' = active_symbols st" using q d(2) by (simp_all add: closes_inv_def active_symbols_def)
  moreover have "distinct (signal_ids st')" using q d(1) by (simp add: signal_step_def)
  ultimately show ?thesis using d(3) by (auto simp: desk_inv_def exclusive_def)
next
  case (observe fresh now obs)
  note q = observe_orders_signals [OF observe(1)]
  then have "closes_inv st' = closes_inv st" "active_symbols st' = active_symbols st" by (simp_all add: closes_inv_def active_symbols_def)
  then show ?thesis
    using q assms(2) submitting_symbols_calm [of st st'] by (auto simp: desk_inv_def exclusive_def signal_step_def)
next
  case (operation F)
  show ?thesis
  proof (cases "wf_events st = [] \<and> (\<exists>n. clear_all_signals st = Ok (st', n))")
    case True
    then obtain n where "clear_all_signals st = Ok (st', n)" by blast
    note e = cleared_empty [OF this]
    have "closes_step st st'" using op_closes [OF operation(1)] .
    then show ?thesis using assms(2) e by (auto simp: desk_inv_def closes_step_def exclusive_def signal_ids_def submitting_symbols_def)
  next
    case False
    have "signal_step True st st'" using operation(1) False by (rule op_signals)
    then show ?thesis using op_exclusive [OF operation(1) assms(2)] by blast
  qed
qed

subsection \<open>Runs of the desk\<close>

lemma fresh_desk_inv: "fresh_desk st \<Longrightarrow> desk_inv st"
  by (simp add: fresh_desk_def desk_inv_def closes_inv_def exclusive_def active_symbols_def)

lemma run_desk_inv: "(desk_trans w)\<^sup>*\<^sup>* s t \<Longrightarrow> desk_inv s \<Longrightarrow> desk_inv t"
  by (induction rule: rtranclp_induct) (auto intro: desk_inv_step)

lemma observe_order_journal:
  assumes "observe_order digest f now obs st = Ok st'"
  shows "\<exists>es. wf_events st' = wf_events st @ es"
proof -
  obtain st1 e views moved where a: "wf_append (order_stream (o_order_id obs)) ''order_observed'' (POrder obs)
        (Some (observation_key digest obs)) st = (st1, e)"
    and st': "after_projection (o_order_id obs) f now (st1\<lparr>wf_orders := views\<rparr>) = Ok st'"
    using assms(1) by (auto simp: observe_order_def bindr_Inr_iff split: prod.split_asm)
  have "\<exists>es. wf_events st1 = wf_events st @ es"
    using wf_append_fst [of "order_stream (o_order_id obs)" "''order_observed''" "POrder obs" "Some (observation_key digest obs)" st] a
    by auto
  then show ?thesis using after_projection_frame [OF st'] by (auto simp: order_frame_def)
qed

lemma order_trans_journal: "(order_trans digest)\<^sup>*\<^sup>* t u \<Longrightarrow> \<exists>es. wf_events u = wf_events t @ es"
proof (induction rule: rtranclp_induct)
  case (step u v)
  have "\<exists>es. wf_events v = wf_events u @ es"
    using step.hyps(2) by cases (auto simp: order_frame_def dest: observe_order_journal)
  then show ?case using step.IH by fastforce
qed simp

lemma desk_journal: "(desk_trans w)\<^sup>*\<^sup>* s t \<Longrightarrow> \<exists>es. wf_events t = wf_events s @ es"
proof (induction rule: rtranclp_induct)
  case (step t u)
  then show ?case using order_trans_journal [OF desk_order_run [OF step.hyps(2)]] by fastforce
qed simp

lemma desk_signals:
  assumes "desk_trans w st st'" "wf_events st \<noteq> []"
  shows "signal_step False st st'"
  using assms(1)
proof cases
  case (operation F)
  then show ?thesis using op_signals [OF operation(1)] assms(2) signal_step_weaken by blast
qed (use queue_step observe_orders_signals signal_step_weaken in blast)+

lemma run_signals:
  assumes "(desk_trans w)\<^sup>*\<^sup>* st st'" "wf_events st \<noteq> []"
  shows "signal_step False st st'"
  using assms(1)
proof (induction rule: rtranclp_induct)
  case (step t u)
  then have "wf_events t \<noteq> []" using desk_journal [OF step.hyps(1)] assms(2) by auto
  then show ?case using signal_step_trans [OF step.IH] desk_signals [OF step.hyps(2)] by blast
qed (simp add: signal_step_same)

text \<open>
  C7. A signal only moves forward. Once the desk has a journal, every signal still exists later, live or
  quarantined, with its identity, its direction and contract, its target and its policies unchanged; its
  status only moves along the life cycle (pending, submitting, executed, and one of the terminal
  states), its stop only tightens, and a signal in a terminal state is never changed again. Quarantined
  rows stay as they are.
\<close>

theorem signals_only_move_forward:
  assumes "fresh_desk st0" and "(desk_trans world)\<^sup>*\<^sup>* st0 st" and "(desk_trans world)\<^sup>*\<^sup>* st st'" and "wf_events st \<noteq> []"
  shows "(\<forall>s \<in> set (wf_signals st). \<exists>s'. (s' \<in> set (wf_signals st') \<or> s' \<in> set (wf_quarantined st')) \<and> evolves s s')
    \<and> set (wf_quarantined st) \<subseteq> set (wf_quarantined st') \<and> distinct (signal_ids st')"
proof -
  have "distinct (signal_ids st)" using run_desk_inv [OF assms(2) fresh_desk_inv [OF assms(1)]] by (simp add: desk_inv_def)
  then show ?thesis using run_signals [OF assms(3,4)] by (simp add: signal_step_def rows_evolve_def)
qed

lemma desk_closes: "desk_trans w st st' \<Longrightarrow> closes_step st st'"
proof (induction rule: desk_trans.induct)
  case (operation F st st')
  then show ?case using op_closes by blast
qed (use queue_step observe_orders_signals closes_step_same in blast)+

lemma close_kept_trans: "close_kept a b \<Longrightarrow> close_kept b c \<Longrightarrow> close_kept a c"
  by (auto simp: close_kept_def)

lemma run_closes:
  assumes "(desk_trans w)\<^sup>*\<^sup>* st st'" "desk_inv st"
  shows "\<forall>c \<in> set (wf_closes st). \<exists>c' \<in> set (wf_closes st'). close_kept c c'"
  using assms(1)
proof (induction rule: rtranclp_induct)
  case (step t u)
  have "closes_inv t" using run_desk_inv [OF step.hyps(1) assms(2)] by (simp add: desk_inv_def)
  then have "\<forall>c \<in> set (wf_closes t). \<exists>c' \<in> set (wf_closes u). close_kept c c'"
    using desk_closes [OF step.hyps(2)] by (simp add: closes_step_def)
  then show ?case using step.IH close_kept_trans by blast
qed (auto simp: close_kept_def)

text \<open>
  C8. A position is closed through one request at a time. In every reachable state a symbol has at most
  one active close request, and never one while an entry of the symbol is being submitted; a request
  keeps its identity from then on, and a resolved one never changes or becomes active again.
\<close>

theorem closes_are_exclusive:
  assumes "fresh_desk st0" and "(desk_trans world)\<^sup>*\<^sup>* st0 st" and "(desk_trans world)\<^sup>*\<^sup>* st st'"
  shows "distinct (map cr_symbol (filter active_close (wf_closes st)))
    \<and> (\<forall>c \<in> set (wf_closes st). \<forall>s \<in> set (wf_signals st).
         active_close c \<and> sg_status s = ''SUBMITTING'' \<longrightarrow> sg_contract (sg_alpha s) \<noteq> cr_symbol c)
    \<and> (\<forall>c \<in> set (wf_closes st). \<exists>c' \<in> set (wf_closes st'). close_kept c c')"
proof -
  have inv: "desk_inv st" using run_desk_inv [OF assms(2) fresh_desk_inv [OF assms(1)]] .
  moreover have "sg_contract (sg_alpha s) \<noteq> cr_symbol c"
    if "c \<in> set (wf_closes st)" "s \<in> set (wf_signals st)" "active_close c \<and> sg_status s = ''SUBMITTING''" for c s
  proof -
    have "cr_symbol c \<in> active_symbols st" "sg_contract (sg_alpha s) \<in> submitting_symbols st"
      using that by (auto simp: active_symbols_def submitting_symbols_def SUBMITTING_def)
    then show ?thesis using inv by (auto simp: desk_inv_def exclusive_def)
  qed
  ultimately show ?thesis using run_closes [OF assms(3) inv] by (simp add: desk_inv_def closes_inv_def)
qed

lemma run_orders:
  assumes "(desk_trans w)\<^sup>*\<^sup>* s t" "order_inv s" "rebuild_orders [] (order_events s) = Ok (wf_orders s)"
  shows "order_inv t \<and> views_grow (wf_orders s) (wf_orders t) \<and> rebuild_orders [] (order_events t) = Ok (wf_orders t)"
proof (rule order_run [OF _ assms(2,3)])
  show "(order_trans (dw_digest w))\<^sup>*\<^sup>* s t"
    using assms(1) by (induction rule: rtranclp_induct) (auto dest: desk_order_run)
qed

text \<open>
  C13. The order views are the journal's. In every reachable state rebuilding the views from the journal
  changes nothing, and as time goes on the view of an order only gets newer: its event, its update
  time and its filled quantity never go back, whichever transport an observation came by and however
  often it was repeated.
\<close>

theorem order_views_are_the_journal:
  assumes "fresh_desk st0" and "(desk_trans world)\<^sup>*\<^sup>* st0 st" and "(desk_trans world)\<^sup>*\<^sup>* st st'"
  shows "rebuild_order_views st = Ok (st, length (order_events st))
    \<and> (\<forall>k e old. map_of (wf_orders st) k = Some (e, old) \<longrightarrow> (\<exists>e' new. map_of (wf_orders st') k = Some (e', new)
         \<and> e \<le> e' \<and> o_order_id new = o_order_id old \<and> o_updated_at old \<le> o_updated_at new \<and> filled_le old new))"
proof -
  have "order_inv st0" "rebuild_orders [] (order_events st0) = Ok (wf_orders st0)"
    using assms(1) by (simp_all add: fresh_desk_def order_inv_def views_keyed_def order_events_def)
  then have st: "order_inv st" "rebuild_orders [] (order_events st) = Ok (wf_orders st)" using run_orders [OF assms(2)] by simp_all
  then have "views_grow (wf_orders st) (wf_orders st')" using run_orders [OF assms(3)] by simp
  then have "\<exists>e' new. map_of (wf_orders st') k = Some (e', new) \<and> e \<le> e' \<and> o_order_id new = o_order_id old
      \<and> o_updated_at old \<le> o_updated_at new \<and> filled_le old new" if "map_of (wf_orders st) k = Some (e, old)" for k e old
    using that by (fastforce simp: views_grow_def view_le_def)
  then show ?thesis using st(2) by (simp add: rebuild_order_views_def)
qed

subsection \<open>Instances\<close>

lemma demo_prefix: "(desk_trans demo_world)\<^sup>*\<^sup>* demo_desk demo_queued" "(desk_trans demo_world)\<^sup>*\<^sup>* demo_queued demo_submitting"
proof -
  let ?fp = "dw_fingerprint demo_world" and ?et = "dw_et_date demo_world"
  have "wf_trans ?fp ?et demo_desk demo_queued" by (rule wf_trans.enqueue [OF demo_enqueue demo_unused demo_for_signal])
  then show "(desk_trans demo_world)\<^sup>*\<^sup>* demo_desk demo_queued" using desk_trans.queue by blast
  have "wf_trans ?fp ?et demo_queued demo_checking"
    using wf_trans.claim [of ?fp ?et demo_queued 60000000 "''t1''" 0] by (simp add: demo_claim)
  moreover have "wf_trans ?fp ?et demo_checking demo_submitting" by (rule wf_trans.submit [OF demo_submission])
  ultimately show "(desk_trans demo_world)\<^sup>*\<^sup>* demo_queued demo_submitting"
    by (meson desk_trans.queue rtranclp.rtrancl_into_rtrancl rtranclp.rtrancl_refl)
qed

theorem signals_only_move_forward_witness:
  "\<exists>s'. (s' \<in> set (wf_signals demo_submitting) \<or> s' \<in> set (wf_quarantined demo_submitting)) \<and> sg_id s' = 7"
proof -
  have "wf_events demo_queued \<noteq> []" by (simp add: demo_queued_def)
  moreover have "\<exists>s \<in> set (wf_signals demo_queued). sg_id s = 7" by (simp add: demo_queued_def demo_signal_def)
  ultimately show ?thesis
    using signals_only_move_forward [OF demo_fresh demo_prefix] by (fastforce simp: evolves_def)
qed

definition demo_close :: close_request where
  "demo_close = \<lparr>cr_id = ''close-1'', cr_symbol = ''TSLA'', cr_direction = LONG, cr_quantity = Num 5, cr_signal_id = None,
     cr_status = ''claimed'', cr_broker_order_id = None, cr_detail = []\<rparr>"

lemma demo_close_step: "\<exists>st. desk_trans demo_world demo_desk st \<and> wf_closes st = [demo_close]"
proof -
  have "\<exists>st. claim_close_request demo_close ''n1'' 0 demo_desk = Ok (st, True, demo_close) \<and> wf_closes st = [demo_close]"
    by (simp add: claim_close_request_def get_close_request_def demo_desk_def demo_close_def unresolved_cancellation_on_def
        any_signal_def demo_signal_def SUBMITTING_def Let_def)
  then obtain st where c: "claim_close_request demo_close ''n1'' 0 demo_desk = Ok (st, True, demo_close)" "wf_closes st = [demo_close]" by blast
  have "desk_trans demo_world demo_desk st"
    by (rule desk_trans.operation [OF desk_op.close_claimed [OF c(1)]]) (simp add: unused_def demo_desk_def)
  then show ?thesis using c(2) by blast
qed

theorem closes_are_exclusive_witness:
  "\<exists>st :: wf_state. demo_close \<in> set (wf_closes st) \<and> active_close demo_close \<and> distinct (map cr_symbol (filter active_close (wf_closes st)))"
proof -
  obtain st where st: "desk_trans demo_world demo_desk st" "wf_closes st = [demo_close]" using demo_close_step by blast
  have run: "(desk_trans demo_world)\<^sup>*\<^sup>* demo_desk st" using st(1) by blast
  have "distinct (map cr_symbol (filter active_close (wf_closes st)))"
    using closes_are_exclusive [OF demo_fresh run rtranclp.rtrancl_refl] by blast
  moreover have "active_close demo_close" by (simp add: active_close_def demo_close_def ACTIVE_CLOSE_STATUSES_def)
  ultimately show ?thesis using st(2) by (intro exI [of _ st]) simp
qed

definition demo_order :: order_observation where
  "demo_order = \<lparr>o_order_id = ''o1'', o_client_order_id = ''c1'', o_symbol = ''SPY'', o_side = ''buy'', o_status = ''new'',
     o_quantity = WDec 10, o_filled_quantity = WDec 0, o_average_fill_price = None, o_limit_price = Some (WDec 400), o_stop_price = None,
     o_order_type = ''limit'', o_order_class = ''bracket'', o_updated_at = 5, o_submitted_at = Some 5, o_filled_at = None,
     o_replaces = None, o_replaced_by = None, o_parent_order_id = None, o_source = ''stream''\<rparr>"

lemma demo_observed: "\<exists>st. desk_trans demo_world demo_desk st \<and> map_of (wf_orders st) ''o1'' = Some (0, demo_order)"
proof -
  define fresh where "fresh n = replicate n CHR ''n''" for n :: nat
  have "\<exists>st. observe_orders (dw_digest demo_world) fresh 9 [demo_order] demo_desk = Ok st \<and> map_of (wf_orders st) ''o1'' = Some (0, demo_order)"
    by (simp add: observe_order_def wf_append_def event_by_key_def append_new_def demo_desk_def project_event_def project_order_def
        after_projection_def set_view_def demo_order_def BROKER_TERMINAL_STATUSES_def Let_def)
  then obtain st where st: "observe_orders (dw_digest demo_world) fresh 9 [demo_order] demo_desk = Ok st"
      "map_of (wf_orders st) ''o1'' = Some (0, demo_order)" by blast
  have "inj fresh" by (rule injI) (auto simp: fresh_def dest: arg_cong [of _ _ length])
  moreover have "\<forall>i. unused (fresh i) demo_desk" by (simp add: unused_def demo_desk_def)
  ultimately show ?thesis using desk_trans.observe [OF st(1)] st(2) by blast
qed

theorem order_views_are_the_journal_witness:
  "\<exists>st. map_of (wf_orders st) ''o1'' = Some (0, demo_order) \<and> rebuild_order_views st = Ok (st, length (order_events st))"
proof -
  obtain st where st: "desk_trans demo_world demo_desk st" "map_of (wf_orders st) ''o1'' = Some (0, demo_order)"
    using demo_observed by blast
  have run: "(desk_trans demo_world)\<^sup>*\<^sup>* demo_desk st" using st(1) by blast
  then show ?thesis using order_views_are_the_journal [OF demo_fresh run rtranclp.rtrancl_refl] st(2) by blast
qed

end
