(* ===== verification/Entry_Service.thy ===== *)
theory Entry_Service
  imports Desk_Safety
begin

text \<open>
  The entry service (\<open>execution/entries.py\<close>): authorization, preflight, dispatch and recovery. A dispatch
  is a sequence of transactions with reads of the broker between them; \<open>tn_meanwhile i\<close> is whatever
  other processes commit at the \<open>i\<close>-th of these points. The broker, the macro check and the order
  executor are functions of the turn, as are the clock readings and the random identifiers.
\<close>

subsection \<open>What a dispatch observes\<close>

text \<open>A caught exception: the name of its type and its text.\<close>

type_synonym failure = "string \<times> ftext"

definition failure_of :: "py_exc \<Rightarrow> failure" where
  "failure_of e = (exc_name e, exc_text e)"

text \<open>The market context: broker evidence, the local simulator's, or neither.\<close>

datatype market_context = BrokerEntryContext entry_context | SimulatedEntryContext | OtherContext

text \<open>The executor returns, raises, or is cancelled with its process.\<close>

datatype execution = Returned order_result | Failed string | Cancelled

record entry_turn =
  tn_meanwhile :: "nat \<Rightarrow> wf_state \<Rightarrow> wf_state"
  tn_token :: string
  tn_claimed_at :: int
  tn_ledger :: bool
  tn_digest :: "cash_evidence \<Rightarrow> string"
  tn_tolerance :: dec
  tn_reads :: import_reads
  tn_import_token :: string
  tn_imported_at :: int
  tn_risk_at :: int
  tn_context :: "order_request \<Rightarrow> string list \<Rightarrow> failure + market_context"
  tn_macro :: "order_request \<Rightarrow> signal \<Rightarrow> failure + ftext option"
  tn_clock :: "nat \<Rightarrow> int"
  tn_submit_clock :: "nat \<Rightarrow> int"
  tn_execute :: "order_request \<Rightarrow> execution"
  tn_fresh :: "wf_state \<Rightarrow> string"
  tn_resolved_at :: int

subsection \<open>Preflight\<close>

text \<open>The signal's time is read back from its row, which keeps whole seconds.\<close>

definition expiry_reason :: "app_config \<Rightarrow> work_item \<Rightarrow> signal \<Rightarrow> int \<Rightarrow> ftext option" where
  "expiry_reason config item signal now =
     authorization_expiry (w_created_at item) (sg_timestamp signal div SECOND * SECOND) config now"

definition entry_order_ids :: "signal_row list \<Rightarrow> string list" where
  "entry_order_ids rows = sort (remdups (filter (\<lambda>i. i \<noteq> [])
     (concat (map (\<lambda>r. case row_broker_order_id r of None \<Rightarrow> [] | Some i \<Rightarrow> [i]) rows))))"

text \<open>The first use of the context: price drift, or a context without a contract.\<close>

definition context_refusal :: "app_config \<Rightarrow> order_request \<Rightarrow> market_context \<Rightarrow> failure + (ftext \<times> market_context option) option" where
  "context_refusal config request context = (case context of
     BrokerEntryContext x \<Rightarrow>
       (case rq_entry_price request of
          None \<Rightarrow> Inl (failure_of AssertionError)
        | Some p \<Rightarrow>
            (case fdiv (float_of_dec (x_price x)) p of
               Inl e \<Rightarrow> Inl (failure_of e)
             | Inr q \<Rightarrow>
                 if \<bar>q - 1\<bar> > entry_max_price_drift_pct (c_execution config)
                 then Inr (Some ([Lit ''Market price changed to '', FDec ''g'' (x_price x), Lit ''; original approved limit '',
                        FFloat ''g'' p, Lit '' retained.''], Some context))
                 else Inr None))
   | _ \<Rightarrow>
       if context = SimulatedEntryContext \<and> \<not> requires_account_risk config then Inr None
       else Inr (Some (msg ''Broker capacity evidence is unavailable or has an unsupported contract.'', None)))"

definition capacity_refusal ::
  "app_config \<Rightarrow> order_request \<Rightarrow> signal_row list \<Rightarrow> account_risk option \<Rightarrow> market_context \<Rightarrow> int \<Rightarrow> failure + ftext option" where
  "capacity_refusal config request rows risk context now = (case context of
     BrokerEntryContext x \<Rightarrow>
       (case assess_entry_capacity request rows x config risk now of
          Inr _ \<Rightarrow> Inr None
        | Inl e \<Rightarrow> if value_type_arithmetic e then Inr (Some (exc_text e)) else Inl (failure_of e))
   | _ \<Rightarrow>
       (case reservation_rejection request rows config 0 None None of
          Inl e \<Rightarrow> Inl (failure_of e) | Inr t \<Rightarrow> Inr t))"

definition judged :: "market_context option \<Rightarrow> ftext option \<Rightarrow> failure + ftext option \<times> market_context option" where
  "judged context t = Inr (t, context)"

definition assess_context ::
  "app_config \<Rightarrow> entry_turn \<Rightarrow> work_item \<Rightarrow> order_request \<Rightarrow> account_risk option \<Rightarrow> signal \<Rightarrow> signal_row list \<Rightarrow> market_context
     \<Rightarrow> failure + ftext option \<times> market_context option" where
  "assess_context config turn item request risk signal rows context =
     bindr (context_refusal config request context) (\<lambda>refusal.
     case refusal of
       Some (t, kept) \<Rightarrow> judged kept (Some t)
     | None \<Rightarrow>
         bindr (tn_macro turn request signal) (\<lambda>blocked.
         if blocked \<noteq> None then judged (Some context) blocked
         else bindr (capacity_refusal config request rows risk context (tn_clock turn 1)) (\<lambda>refused.
         if refused \<noteq> None then judged (Some context) refused
         else judged (Some context) (expiry_reason config item signal (tn_clock turn 2)))))"

definition halt_flag_set :: "wf_state \<Rightarrow> bool" where
  "halt_flag_set st = (wf_halted st \<in> {Some ''true'', Some ''1'', Some ''yes''})"

definition preflight ::
  "app_config \<Rightarrow> entry_turn \<Rightarrow> work_item \<Rightarrow> order_request \<Rightarrow> account_risk option \<Rightarrow> wf_state
     \<Rightarrow> wf_state \<times> (failure + ftext option \<times> market_context option)" where
  "preflight config turn item request risk st =
     (case find_signal (\<lambda>s. sg_id s = rq_signal_id request \<and> sg_status s = ''SUBMITTING'') st of
        None \<Rightarrow> (st, judged None (Some (msg ''Signal was removed, quarantined or changed after approval.'')))
      | Some signal \<Rightarrow>
          if expiry_reason config item signal (tn_clock turn 0) \<noteq> None
          then (st, judged None (expiry_reason config item signal (tn_clock turn 0)))
          else let s1 = tn_meanwhile turn 3 st in
          if halt_flag_set s1 then (s1, judged None (Some (msg ''Emergency trading halt active.'')))
          else let s2 = tn_meanwhile turn 4 s1 in
          if legacy_claims s2 \<noteq> []
          then (s2, judged None (Some (msg ''An older entry claim lacks a durable request ID; operator reconciliation is required.'')))
          else let s3 = tn_meanwhile turn 5 s2; rows = reservations (Some (rq_signal_id request)) s3 in
            (s3, bindr (tn_context turn request (entry_order_ids rows))
                   (assess_context config turn item request risk signal rows)))"

subsection \<open>Dispatch\<close>

text \<open>The account's risk evidence, imported afresh where the execution mode requires it.\<close>

definition observe_risk :: "app_config \<Rightarrow> entry_turn \<Rightarrow> wf_state \<Rightarrow> wf_state \<times> (failure + account_risk option)" where
  "observe_risk config turn st =
     (if \<not> requires_account_risk config then (st, Inr None)
      else if \<not> tn_ledger turn then (st, Inl (''ValueError'', msg ''Observed account risk service is unavailable''))
      else case refresh (tn_digest turn) (tn_tolerance turn) (tn_reads turn) (tn_import_token turn) (tn_imported_at turn) (wf_ledger st) of
        (l, Inl e) \<Rightarrow> (st\<lparr>wf_ledger := l\<rparr>, Inl (failure_of e))
      | (l, Inr _) \<Rightarrow>
          let s = tn_meanwhile turn 1 (st\<lparr>wf_ledger := l\<rparr>)
          in (case current_risk (account_risk_max_age_seconds (c_execution config)) (tn_risk_at turn) (wf_ledger s) of
                Inl e \<Rightarrow> (s, Inl (failure_of e))
              | Inr risk \<Rightarrow> (s, Inr (Some risk))))"

text \<open>Both together, with the blanket \<open>except\<close> around them: a rejection, or what the submission needs.\<close>

definition admission_evidence ::
  "app_config \<Rightarrow> entry_turn \<Rightarrow> work_item \<Rightarrow> order_request \<Rightarrow> wf_state
     \<Rightarrow> wf_state \<times> ftext option \<times> account_risk option \<times> market_context option" where
  "admission_evidence config turn item request st =
     (let unavailable = (\<lambda>f. Some ([Lit ''Admission evidence unavailable ('', Lit (fst f), Lit '': ''] @ snd f @ [Lit ''). No order submitted.'']))
      in case observe_risk config turn st of
        (s1, Inl f) \<Rightarrow> (s1, unavailable f, None, None)
      | (s1, Inr risk) \<Rightarrow>
          (case preflight config turn item request risk (tn_meanwhile turn 2 s1) of
             (s2, Inl f) \<Rightarrow> (s2, unavailable f, risk, None)
           | (s2, Inr (rejection, context)) \<Rightarrow> (s2, shown_text rejection, risk, context)))"

definition not_submitted :: "ftext \<Rightarrow> order_result" where
  "not_submitted t = \<lparr>or_success = False, or_order_id = None, or_fill_price = None, or_error_message = Some t,
     or_submission_uncertain = False\<rparr>"

definition uncertain :: "string \<Rightarrow> order_result" where
  "uncertain t = \<lparr>or_success = False, or_order_id = None, or_fill_price = None, or_error_message = Some (msg t),
     or_submission_uncertain = True\<rparr>"

text \<open>What is recorded of an execution; a cancelled process records nothing.\<close>

fun recorded_result :: "execution \<Rightarrow> order_result option" where
  "recorded_result (Returned r) = Some (if or_success r \<and> \<not> set_text (or_order_id r)
      then uncertain ''Broker acknowledgement has no order ID'' else r)"
| "recorded_result (Failed type_name) = Some (uncertain type_name)"
| "recorded_result Cancelled = None"

definition broker_evidence :: "market_context option \<Rightarrow> entry_context option" where
  "broker_evidence context = (case context of Some (BrokerEntryContext x) \<Rightarrow> Some x | _ \<Rightarrow> None)"

text \<open>
  One dispatch: the state it leaves, the requests it handed to the executor (with their items), and whether
  it found work (or the exception it raised).
\<close>

definition report_entry :: "(int \<Rightarrow> int) \<Rightarrow> entry_turn \<Rightarrow> work_item \<Rightarrow> order_result \<Rightarrow> wf_state \<Rightarrow> wf_state" where
  "report_entry et_date turn item result st =
     fst (resolve_entry et_date item result False (tn_fresh turn st) (tn_resolved_at turn) st)"

definition submit_entry ::
  "(account_risk \<Rightarrow> string) \<Rightarrow> (int \<Rightarrow> int) \<Rightarrow> app_config \<Rightarrow> entry_turn \<Rightarrow> work_item \<Rightarrow> order_request \<Rightarrow> account_risk option
     \<Rightarrow> market_context option \<Rightarrow> wf_state \<Rightarrow> wf_state \<times> (string \<times> order_request) list \<times> (failure + bool)" where
  "submit_entry fingerprint et_date config turn item request risk context st =
     (case begin_submission fingerprint item config (map_option fingerprint risk) (broker_evidence context) (tn_submit_clock turn) st of
        Inl e \<Rightarrow> (st, [], Inl (failure_of e))
      | Inr (s1, Some t) \<Rightarrow> (report_entry et_date turn item (not_submitted t) (tn_meanwhile turn 7 s1), [], Inr True)
      | Inr (s1, None) \<Rightarrow>
          let s2 = tn_meanwhile turn 7 s1
          in (case recorded_result (tn_execute turn request) of
                None \<Rightarrow> (s2, [(w_id item, request)], Inl (''CancelledError'', []))
              | Some result \<Rightarrow> (report_entry et_date turn item result s2, [(w_id item, request)], Inr True)))"

definition dispatch_entry ::
  "(account_risk \<Rightarrow> string) \<Rightarrow> (int \<Rightarrow> int) \<Rightarrow> app_config \<Rightarrow> entry_turn \<Rightarrow> wf_state
     \<Rightarrow> wf_state \<times> (string \<times> order_request) list \<times> (failure + bool)" where
  "dispatch_entry fingerprint et_date config turn st =
     (case claim_entry (entry_preflight_lease_seconds (c_execution config) * SECOND) (tn_token turn) (tn_claimed_at turn) st of
        (s1, None) \<Rightarrow> (s1, [], Inr False)
      | (s1, Some item) \<Rightarrow>
          (case item_request item of
             None \<Rightarrow> (s1, [], Inl (''ValidationError'', []))
           | Some request \<Rightarrow>
               (case admission_evidence config turn item request (tn_meanwhile turn 0 s1) of
                  (s2, Some t, risk, context) \<Rightarrow>
                    (report_entry et_date turn item (not_submitted t) (tn_meanwhile turn 6 s2), [], Inr True)
                | (s2, None, risk, context) \<Rightarrow>
                    submit_entry fingerprint et_date config turn item request risk context (tn_meanwhile turn 6 s2))))"

subsection \<open>Authorization and recovery\<close>

definition get_work :: "string \<Rightarrow> wf_state \<Rightarrow> work_item option" where
  "get_work i st = find_item (\<lambda>w. w_id w = i) st"

definition authorize ::
  "(account_risk \<Rightarrow> string) \<Rightarrow> (int \<Rightarrow> int) \<Rightarrow> order_request \<Rightarrow> string \<Rightarrow> app_config \<Rightarrow> string \<Rightarrow> int \<Rightarrow> entry_turn \<Rightarrow> wf_state
     \<Rightarrow> wf_state \<times> (string \<times> order_request) list \<times> (failure + work_item option \<times> ftext)" where
  "authorize fingerprint et_date request trigger config fresh now turn st =
     (case enqueue_entry request config trigger fresh now st of
        Inl e \<Rightarrow> (st, [], Inl (failure_of e))
      | Inr (s1, Some item, why) \<Rightarrow>
          if w_status item = Queued
          then (case dispatch_entry fingerprint et_date config turn s1 of
                  (s2, calls, Inl f) \<Rightarrow> (s2, calls, Inl f)
                | (s2, calls, Inr _) \<Rightarrow> (s2, calls, Inr (get_work (w_id item) s2, why)))
          else (s1, [], Inr (Some item, why))
      | Inr (s1, None, why) \<Rightarrow> (s1, [], Inr (None, why)))"

definition list_work :: "work_kind \<Rightarrow> work_status list \<Rightarrow> nat \<Rightarrow> wf_state \<Rightarrow> work_item list" where
  "list_work kind statuses limit st =
     take limit (sort_key w_sequence (filter (\<lambda>w. w_kind w = kind \<and> w_status w \<in> set statuses) (wf_items st)))"

text \<open>
  Recovery looks each unresolved entry up and records an exact answer; it never submits. The lookup may
  fail, find nothing, or give a result (\<open>lookup i\<close> with what happens before the \<open>i\<close>-th report).
\<close>

fun recover_each ::
  "(int \<Rightarrow> int) \<Rightarrow> (work_item \<Rightarrow> failure + order_result option) \<Rightarrow> (nat \<Rightarrow> wf_state \<Rightarrow> wf_state) \<Rightarrow> (wf_state \<Rightarrow> string) \<Rightarrow> int
     \<Rightarrow> work_item list \<Rightarrow> wf_state \<Rightarrow> wf_state \<times> nat" where
  "recover_each et_date lookup meanwhile fresh now [] st = (st, 0)"
| "recover_each et_date lookup meanwhile fresh now (item # items) st =
     (let s = meanwhile (length items) st
      in case lookup item of
        Inr (Some result) \<Rightarrow>
          (case resolve_entry et_date item result True (fresh s) now s of (s1, saved) \<Rightarrow>
           case recover_each et_date lookup meanwhile fresh now items s1 of (s2, n) \<Rightarrow> (s2, of_bool saved + n))
      | _ \<Rightarrow> recover_each et_date lookup meanwhile fresh now items s)"

definition recover_entries ::
  "(int \<Rightarrow> int) \<Rightarrow> (work_item \<Rightarrow> failure + order_result option) \<Rightarrow> (nat \<Rightarrow> wf_state \<Rightarrow> wf_state) \<Rightarrow> (wf_state \<Rightarrow> string) \<Rightarrow> int
     \<Rightarrow> wf_state \<Rightarrow> wf_state \<times> nat" where
  "recover_entries et_date lookup meanwhile fresh now st =
     recover_each et_date lookup meanwhile fresh now (list_work Entry [Submitting, Unknown] 100 st) st"

subsection \<open>A dispatch is a run of the desk\<close>

text \<open>
  Other processes act through the store's transactions, and a random identifier is new to the state
  it is drawn in.
\<close>

definition turn_ok :: "desk_world \<Rightarrow> entry_turn \<Rightarrow> bool" where
  "turn_ok world turn = ((\<forall>i s. (desk_trans world)\<^sup>*\<^sup>* s (tn_meanwhile turn i s)) \<and> (\<forall>s. unused (tn_fresh turn s) s))"

lemma meanwhile_run: "turn_ok world turn \<Longrightarrow> (desk_trans world)\<^sup>*\<^sup>* s t \<Longrightarrow> (desk_trans world)\<^sup>*\<^sup>* s (tn_meanwhile turn i t)"
  by (auto simp: turn_ok_def intro: rtranclp_trans)

lemma ledger_run: "(desk_trans world)\<^sup>*\<^sup>* s (s\<lparr>wf_ledger := l\<rparr>)"
proof -
  have "desk_op (dw_ny world) (dw_utc world) (dw_et_date world) (dw_fromiso world) {} s (s\<lparr>wf_ledger := l\<rparr>)"
    by (rule desk_op.outside) (simp add: elsewhere_def)
  then have "desk_trans world s (s\<lparr>wf_ledger := l\<rparr>)" by (rule desk_trans.operation) simp
  then show ?thesis by blast
qed

lemma observe_risk_run:
  assumes "turn_ok world turn"
  shows "(desk_trans world)\<^sup>*\<^sup>* st (fst (observe_risk config turn st))"
  using ledger_run meanwhile_run [OF assms ledger_run]
  by (auto simp: observe_risk_def Let_def split: prod.split sum.split)

lemma preflight_run:
  assumes "turn_ok world turn"
  shows "(desk_trans world)\<^sup>*\<^sup>* st (fst (preflight config turn item request risk st))"
proof -
  have "(desk_trans world)\<^sup>*\<^sup>* st st" by simp
  note m = meanwhile_run [OF assms this, of 3]
  show ?thesis
    using m meanwhile_run [OF assms m, of 4] meanwhile_run [OF assms meanwhile_run [OF assms m, of 4], of 5]
    by (auto simp: preflight_def Let_def split: option.split)
qed

lemma evidence_run:
  assumes "turn_ok world turn"
  shows "(desk_trans world)\<^sup>*\<^sup>* st (fst (admission_evidence config turn item request st))"
proof -
  obtain s1 r where o: "observe_risk config turn st = (s1, r)" by force
  have s1: "(desk_trans world)\<^sup>*\<^sup>* st s1" using observe_risk_run [OF assms, of st config] o by simp
  show ?thesis
  proof (cases r)
    case (Inl f)
    then show ?thesis using o s1 by (simp add: admission_evidence_def Let_def)
  next
    case (Inr risk)
    obtain s2 v where p: "preflight config turn item request risk (tn_meanwhile turn 2 s1) = (s2, v)" by force
    have "(desk_trans world)\<^sup>*\<^sup>* (tn_meanwhile turn 2 s1) s2"
      using preflight_run [OF assms, of "tn_meanwhile turn 2 s1" config item request risk] p by simp
    then have "(desk_trans world)\<^sup>*\<^sup>* st s2" by (rule rtranclp_trans [OF meanwhile_run [OF assms s1]])
    then show ?thesis using o p Inr by (simp add: admission_evidence_def Let_def split: sum.split prod.split)
  qed
qed

lemma report_run:
  assumes "turn_ok world turn" and "w_token item \<noteq> None"
  shows "(desk_trans world)\<^sup>*\<^sup>* s (report_entry (dw_et_date world) turn item result s)"
proof -
  have "wf_trans (dw_fingerprint world) (dw_et_date world) s (report_entry (dw_et_date world) turn item result s)"
    unfolding report_entry_def using assms by (intro wf_trans.resolve) (auto simp: turn_ok_def)
  then show ?thesis by (blast intro: desk_trans.queue)
qed

lemma claim_token: "claim_entry lease token now st = (s, Some item) \<Longrightarrow> w_token item = Some token"
  by (auto simp: claim_entry_def Let_def split: option.split_asm if_split_asm)

lemma begin_run: "begin_submission (dw_fingerprint world) item config fp x clock s = Ok (s', y) \<Longrightarrow> (desk_trans world)\<^sup>*\<^sup>* s s'"
  by (blast intro: desk_trans.queue wf_trans.submit)

lemma submit_run:
  assumes "turn_ok world turn" and "w_token item \<noteq> None"
  shows "(desk_trans world)\<^sup>*\<^sup>* s
    (fst (submit_entry (dw_fingerprint world) (dw_et_date world) config turn item request risk context s))"
proof (cases "begin_submission (dw_fingerprint world) item config (map_option (dw_fingerprint world) risk) (broker_evidence context)
    (tn_submit_clock turn) s")
  case (Inr p)
  obtain s1 y where p: "p = (s1, y)" by force
  have "(desk_trans world)\<^sup>*\<^sup>* s (tn_meanwhile turn 7 s1)" by (rule meanwhile_run [OF assms(1) begin_run [OF Inr [unfolded p]]])
  moreover note rtranclp_trans [OF this report_run [OF assms]]
  ultimately show ?thesis using Inr p by (auto simp: submit_entry_def Let_def split: option.split)
qed (simp add: submit_entry_def)

text \<open>Every dispatch, whatever the broker answers and whoever interferes, is a run of the desk.\<close>

lemma dispatch_run:
  assumes "turn_ok world turn"
  shows "(desk_trans world)\<^sup>*\<^sup>* st (fst (dispatch_entry (dw_fingerprint world) (dw_et_date world) config turn st))"
proof -
  obtain s1 i where c: "claim_entry (entry_preflight_lease_seconds (c_execution config) * SECOND) (tn_token turn) (tn_claimed_at turn) st = (s1, i)"
    by force
  have "wf_trans (dw_fingerprint world) (dw_et_date world) st s1"
    using wf_trans.claim [of "dw_fingerprint world" "dw_et_date world" st "entry_preflight_lease_seconds (c_execution config) * SECOND"
        "tn_token turn" "tn_claimed_at turn"] c by simp
  then have s1: "(desk_trans world)\<^sup>*\<^sup>* st s1" by (blast intro: desk_trans.queue)
  show ?thesis
  proof (cases "i = None \<or> item_request (the i) = None")
    case True
    then show ?thesis using s1 c by (cases i) (auto simp: dispatch_entry_def)
  next
    case False
    then obtain item request where i: "i = Some item" "item_request item = Some request" by auto
    obtain s2 t risk ctx where e: "admission_evidence config turn item request (tn_meanwhile turn 0 s1) = (s2, t, risk, ctx)"
      by (metis prod.collapse)
    have "(desk_trans world)\<^sup>*\<^sup>* (tn_meanwhile turn 0 s1) s2"
      using evidence_run [OF assms, of "tn_meanwhile turn 0 s1" config item request] e by simp
    then have "(desk_trans world)\<^sup>*\<^sup>* st s2" by (rule rtranclp_trans [OF meanwhile_run [OF assms s1]])
    then have s: "(desk_trans world)\<^sup>*\<^sup>* st (tn_meanwhile turn 6 s2)" by (rule meanwhile_run [OF assms])
    have tok: "w_token item \<noteq> None" using claim_token c i by fastforce
    show ?thesis
      using c i e rtranclp_trans [OF s report_run [OF assms tok]] rtranclp_trans [OF s submit_run [OF assms tok]]
      by (auto simp: dispatch_entry_def split: option.split)
  qed
qed

subsection \<open>At most one call\<close>

lemma begin_submission_event:
  assumes "begin_submission fingerprint item config fp x clock st = Ok (st', None)" and "item_request item = Some request"
  shows "\<exists>e \<in> set (wf_events st'). ev_stream e = entry_stream (w_id item) \<and> ev_kind e = ''entry_submitting''
    \<and> (\<exists>risk factor cap. ev_payload e = PSubmitting request risk fp factor x cap)"
proof -
  obtain row req risk cap where chk: "submission_check fingerprint item config fp x clock st = Ok (Inr (row, req, risk, cap))"
    using begin_submission_cases [OF assms(1)] by auto
  have "req = request" "w_id row = w_id item" using submission_check_row [OF chk] assms(2) by auto
  then show ?thesis using assms(1) chk by (auto simp: begin_submission_def bindr_Inr_iff record_audit_def Let_def)
qed

lemma begin_submission_counts:
  assumes "begin_submission fingerprint item config fp x clock st = Ok (st', None)" and "queue_inv st"
  shows "submissions (w_id item) st = 0" and "submissions (w_id item) st' = 1"
proof -
  obtain row req risk cap payload where chk: "submission_check fingerprint item config fp x clock st = Ok (Inr (row, req, risk, cap))"
    and st': "st' = audit ''entry_submission'' (rq_signal_id req) (appended (entry_stream (w_id row)) ''entry_submitting'' payload
                (update_item (w_id row) (\<lambda>_. row\<lparr>w_status := Submitting, w_lease_until := None\<rparr>) st))"
    using begin_submission_cases [OF assms(1)] by auto
  note row = submission_check_row [OF chk]
  then show zero: "submissions (w_id item) st = 0" using inv_item_ok [OF assms(2), of row] by (simp add: item_ok_def)
  have "w_id row = w_id item" using row by simp
  then show "submissions (w_id item) st' = 1"
    using zero unfolding st' by (simp add: update_item_def record_audit_def submissions_def)
qed

lemma submissions_grow: "(desk_trans w)\<^sup>*\<^sup>* s t \<Longrightarrow> submissions i s \<le> submissions i t"
  using desk_journal by (fastforce simp: submissions_def)

lemma submit_calls:
  assumes "submit_entry fingerprint et_date config turn item request risk ctx s = (st', calls, r)" and "calls \<noteq> []"
  obtains s1 fp x where "calls = [(w_id item, request)]"
    and "begin_submission fingerprint item config fp x (tn_submit_clock turn) s = Ok (s1, None)"
    and "recorded_result (tn_execute turn request) = None \<and> st' = tn_meanwhile turn 7 s1
      \<or> (\<exists>res. recorded_result (tn_execute turn request) = Some res \<and> st' = report_entry et_date turn item res (tn_meanwhile turn 7 s1))"
  using assms by (auto simp: submit_entry_def Let_def split: sum.split_asm option.split_asm prod.split_asm)

text \<open>A dispatch that calls the executor: the moment of its authority, and what it does with the answer.\<close>

lemma dispatch_calls:
  assumes "dispatch_entry (dw_fingerprint world) (dw_et_date world) config turn st = (st', calls, r)" and "calls \<noteq> []"
    and "turn_ok world turn"
  obtains item request s s1 fp x where "calls = [(w_id item, request)]" and "item_request item = Some request"
    and "w_token item = Some (tn_token turn)" and "(desk_trans world)\<^sup>*\<^sup>* st s"
    and "begin_submission (dw_fingerprint world) item config fp x (tn_submit_clock turn) s = Ok (s1, None)"
    and "(desk_trans world)\<^sup>*\<^sup>* s1 st'"
    and "recorded_result (tn_execute turn request) = None \<and> st' = tn_meanwhile turn 7 s1
      \<or> (\<exists>res. recorded_result (tn_execute turn request) = Some res
           \<and> st' = report_entry (dw_et_date world) turn item res (tn_meanwhile turn 7 s1))"
proof -
  obtain c item request s2 risk ctx where c: "claim_entry (entry_preflight_lease_seconds (c_execution config) * SECOND) (tn_token turn)
        (tn_claimed_at turn) st = (c, Some item)" and i: "item_request item = Some request"
    and e: "admission_evidence config turn item request (tn_meanwhile turn 0 c) = (s2, None, risk, ctx)"
    and sub: "submit_entry (dw_fingerprint world) (dw_et_date world) config turn item request risk ctx (tn_meanwhile turn 6 s2) = (st', calls, r)"
    using assms(1,2) by (auto simp: dispatch_entry_def split: prod.split_asm option.split_asm)
  have "wf_trans (dw_fingerprint world) (dw_et_date world) st c"
    using wf_trans.claim [of "dw_fingerprint world" "dw_et_date world" st "entry_preflight_lease_seconds (c_execution config) * SECOND"
        "tn_token turn" "tn_claimed_at turn"] c by simp
  then have "(desk_trans world)\<^sup>*\<^sup>* st c" by (blast intro: desk_trans.queue)
  moreover have "(desk_trans world)\<^sup>*\<^sup>* (tn_meanwhile turn 0 c) s2"
    using evidence_run [OF assms(3), of "tn_meanwhile turn 0 c" config item request] e by simp
  ultimately have s: "(desk_trans world)\<^sup>*\<^sup>* st (tn_meanwhile turn 6 s2)"
    by (meson meanwhile_run [OF assms(3)] rtranclp_trans)
  obtain s1 fp x where call: "calls = [(w_id item, request)]"
    and b: "begin_submission (dw_fingerprint world) item config fp x (tn_submit_clock turn) (tn_meanwhile turn 6 s2) = Ok (s1, None)"
    and out: "recorded_result (tn_execute turn request) = None \<and> st' = tn_meanwhile turn 7 s1
      \<or> (\<exists>res. recorded_result (tn_execute turn request) = Some res
           \<and> st' = report_entry (dw_et_date world) turn item res (tn_meanwhile turn 7 s1))"
    by (rule submit_calls [OF sub assms(2)])
  have tok: "w_token item = Some (tn_token turn)" by (rule claim_token [OF c])
  have "(desk_trans world)\<^sup>*\<^sup>* s1 (tn_meanwhile turn 7 s1)" by (rule meanwhile_run [OF assms(3)]) simp
  then have "(desk_trans world)\<^sup>*\<^sup>* s1 st'"
    using out report_run [OF assms(3), of item] tok by (auto intro: rtranclp_trans)
  then show thesis using that [OF call i tok s b _ out] by blast
qed

text \<open>
  The service at work: transactions of any process, and dispatches, whose calls of the executor are
  collected. Within a dispatch other processes may act at every point.
\<close>

inductive service_run :: "desk_world \<Rightarrow> wf_state \<Rightarrow> (string \<times> order_request) list \<Rightarrow> wf_state \<Rightarrow> bool" for world st0 where
  start: "service_run world st0 [] st0"
| others: "service_run world st0 calls s \<Longrightarrow> desk_trans world s s' \<Longrightarrow> service_run world st0 calls s'"
| dispatch: "service_run world st0 calls s \<Longrightarrow> turn_ok world turn
    \<Longrightarrow> dispatch_entry (dw_fingerprint world) (dw_et_date world) config turn s = (s', made, r)
    \<Longrightarrow> service_run world st0 (calls @ made) s'"

definition call_recorded :: "wf_state \<Rightarrow> string \<times> order_request \<Rightarrow> bool" where
  "call_recorded st c = (\<exists>e \<in> set (wf_events st). ev_stream e = entry_stream (fst c) \<and> ev_kind e = ''entry_submitting''
     \<and> (\<exists>risk fp factor x cap. ev_payload e = PSubmitting (snd c) risk fp factor x cap))"

lemma call_recorded_grows: "(desk_trans w)\<^sup>*\<^sup>* s t \<Longrightarrow> call_recorded s c \<Longrightarrow> call_recorded t c"
  using desk_journal [of w s t] by (auto simp: call_recorded_def)

lemma call_recorded_submitted: "call_recorded st c \<Longrightarrow> 1 \<le> submissions (fst c) st"
  by (auto simp: call_recorded_def submissions_def Suc_le_eq length_greater_0_conv filter_empty_conv)

lemma service_run_inv:
  assumes "service_run world st0 calls st" and "queue_inv st0"
  shows "(desk_trans world)\<^sup>*\<^sup>* st0 st \<and> distinct (map fst calls) \<and> (\<forall>c \<in> set calls. call_recorded st c)"
  using assms(1)
proof (induction rule: service_run.induct)
  case (others calls s s')
  have "(desk_trans world)\<^sup>*\<^sup>* s s'" using others.hyps(2) by blast
  then show ?case using others.IH call_recorded_grows by (meson rtranclp_trans)
next
  case (dispatch calls s turn config s' made r)
  have run: "(desk_trans world)\<^sup>*\<^sup>* s s'"
    using dispatch_run [OF dispatch.hyps(2), of s config] dispatch.hyps(3) by simp
  then have st: "(desk_trans world)\<^sup>*\<^sup>* st0 s'" using dispatch.IH by (meson rtranclp_trans)
  show ?case
  proof (cases "made = []")
    case True
    then show ?thesis using st run dispatch.IH call_recorded_grows by auto
  next
    case False
    obtain item request t t1 fp x where m: "made = [(w_id item, request)]" "item_request item = Some request"
      and t: "(desk_trans world)\<^sup>*\<^sup>* s t" and b: "begin_submission (dw_fingerprint world) item config fp x (tn_submit_clock turn) t = Ok (t1, None)"
      and t1: "(desk_trans world)\<^sup>*\<^sup>* t1 s'"
      by (rule dispatch_calls [OF dispatch.hyps(3) False dispatch.hyps(2)]) blast
    have inv: "queue_inv t" using dispatch.IH t run_inv assms(2) by (meson rtranclp_trans)
    have "w_id item \<noteq> fst c" if "c \<in> set calls" for c
    proof
      assume eq: "w_id item = fst c"
      have "1 \<le> submissions (fst c) t"
        using call_recorded_submitted [OF call_recorded_grows [OF t]] dispatch.IH that by blast
      then show False using begin_submission_counts(1) [OF b inv] eq by simp
    qed
    moreover have "call_recorded t1 (w_id item, request)"
      using begin_submission_event [OF b m(2)] by (auto simp: call_recorded_def)
    then have "call_recorded s' (w_id item, request)" by (rule call_recorded_grows [OF t1])
    ultimately show ?thesis using st run dispatch.IH m(1) call_recorded_grows by auto
  qed
qed simp

text \<open>
  C4. The broker is called at most once for an approval, and never without authority. However many
  dispatches run, whatever their reads return, whether they are lost after the call, and whatever other
  processes do at any point of them, no entry item is handed to the executor twice, and every call has
  its journaled submission record with exactly the request that was sent.
\<close>

theorem executor_called_once:
  assumes "fresh_desk st0" and "service_run world st0 calls st"
  shows "distinct (map fst calls) \<and> (\<forall>c \<in> set calls. call_recorded st c)"
  using service_run_inv [OF assms(2) fresh_inv [OF assms(1)]] by blast

subsection \<open>What is recorded of an answer\<close>

lemma notify_keeps:
  "w \<in> set (wf_items st) \<Longrightarrow> w \<in> set (wf_items (notify key kind args f now st))"
  "wf_halted (notify key kind args f now st) = wf_halted st" "wf_signals (notify key kind args f now st) = wf_signals st"
  by (auto simp: add_notification_def add_item_def split: option.splits)

lemma resolve_effect:
  assumes "find_item (\<lambda>w. w_id w = w_id item \<and> w_status w \<in> set ENTRY_BLOCKING) s = Some row" and "w_token row = w_token item"
    and "st' = fst (resolve_entry et_date item res False fresh now s)"
  shows "row\<lparr>w_status := resolved_status res, w_result := EntryResult res\<rparr> \<in> set (wf_items st')"
    and "resolved_status res = Unknown \<Longrightarrow> trading_halted st' \<and> wf_signals st' = wf_signals s"
proof -
  let ?sid = "case item_request item of Some r \<Rightarrow> rq_signal_id r | None \<Rightarrow> 0"
  define s1 where "s1 = update_item (w_id row) (\<lambda>_. row\<lparr>w_status := resolved_status res, w_result := EntryResult res\<rparr>) s"
  define s3 where "s3 = (if resolved_status res = Unknown
      then audit ''entry_submission_unknown'' ?sid
        (halt [Lit ''Unconfirmed broker entry '', Lit (w_id item), Lit ''; lookup recovery required before /resume''] s1)
      else settle_signal ?sid res s1)"
  define s4 where "s4 = appended (entry_stream (w_id row)) ''entry_resolved'' (PResolved (resolved_status res) False) s3"
  have "\<exists>k kd a. st' \<in> {s4, notify k kd a fresh now s4}"
    unfolding assms(3) resolve_entry_def assms(1) option.case Let_def s4_def s3_def s1_def using assms(2)
    by (auto simp del: wf_append_None)
  then obtain k kd a where st': "st' = s4 \<or> st' = notify k kd a fresh now s4" by auto
  have "row \<in> set (wf_items s)" using find_item_Some [OF assms(1)] by simp
  then have "row\<lparr>w_status := resolved_status res, w_result := EntryResult res\<rparr> \<in> set (wf_items s4)"
    by (auto simp: s4_def s3_def s1_def update_item_def halt_def record_audit_def intro!: image_eqI [of _ _ row])
  then show "row\<lparr>w_status := resolved_status res, w_result := EntryResult res\<rparr> \<in> set (wf_items st')"
    using st' notify_keeps(1) by blast
  assume "resolved_status res = Unknown"
  then have "wf_halted s4 = Some ''true''" "wf_signals s4 = wf_signals s"
    by (simp_all add: s4_def s3_def s1_def update_item_def halt_def record_audit_def)
  then have "wf_halted st' = Some ''true''" "wf_signals st' = wf_signals s" using st' by (auto simp: notify_keeps)
  then show "trading_halted st' \<and> wf_signals st' = wf_signals s" by (simp add: trading_halted_def str_eval)
qed

lemma resolved_status_iff:
  "resolved_status r = Accepted \<longleftrightarrow> or_success r"
  "resolved_status r = Rejected \<longleftrightarrow> \<not> or_success r \<and> \<not> or_submission_uncertain r"
  "resolved_status r \<in> {Accepted, Rejected, Unknown}"
  by (simp_all add: resolved_status_def)

lemma recorded_status:
  assumes "recorded_result ex = Some res"
  shows "resolved_status res = Accepted \<longleftrightarrow> (\<exists>a. ex = Returned a \<and> or_success a \<and> set_text (or_order_id a))"
    and "resolved_status res = Rejected \<longleftrightarrow> (\<exists>a. ex = Returned a \<and> \<not> or_success a \<and> \<not> or_submission_uncertain a)"
proof -
  have *: "(resolved_status res = Accepted \<longleftrightarrow> (\<exists>a. ex = Returned a \<and> or_success a \<and> set_text (or_order_id a)))
    \<and> (resolved_status res = Rejected \<longleftrightarrow> (\<exists>a. ex = Returned a \<and> \<not> or_success a \<and> \<not> or_submission_uncertain a))"
  proof (cases ex)
    case (Returned a)
    have "res = (if or_success a \<and> \<not> set_text (or_order_id a) then uncertain ''Broker acknowledgement has no order ID'' else a)"
      using assms Returned by simp
    then show ?thesis unfolding Returned resolved_status_iff
      by (cases "or_success a"; cases "set_text (or_order_id a)") (simp_all add: uncertain_def)
  next
    case (Failed t)
    then have "res = uncertain t" using assms by simp
    then show ?thesis unfolding Failed resolved_status_iff by (simp add: uncertain_def)
  qed (use assms in simp)
  show "resolved_status res = Accepted \<longleftrightarrow> (\<exists>a. ex = Returned a \<and> or_success a \<and> set_text (or_order_id a))" by (rule conjunct1 [OF *])
  show "resolved_status res = Rejected \<longleftrightarrow> (\<exists>a. ex = Returned a \<and> \<not> or_success a \<and> \<not> or_submission_uncertain a)" by (rule conjunct2 [OF *])
qed

text \<open>The claim a report is made under has been settled or taken over by another process.\<close>

definition claim_lost :: "string \<Rightarrow> string \<Rightarrow> wf_state \<Rightarrow> bool" where
  "claim_lost i token s = list_all (\<lambda>w. w_id w = i \<and> w_status w \<in> set ENTRY_BLOCKING \<longrightarrow> w_token w \<noteq> Some token) (wf_items s)"

lemma report_cases:
  assumes "queue_inv s" and "w_token item = Some token" and "st' = report_entry et_date turn item res s"
  shows "if claim_lost (w_id item) token s then st' = s
    else \<exists>w \<in> set (wf_items st'). w_id w = w_id item
      \<and> w_status w = resolved_status res \<and> w_result w = EntryResult res
      \<and> (w_status w = Unknown \<longrightarrow> trading_halted st' \<and> wf_signals st' = wf_signals s)"
proof (cases "find_item (\<lambda>w. w_id w = w_id item \<and> w_status w \<in> set ENTRY_BLOCKING) s")
  case None
  then have "claim_lost (w_id item) token s" by (auto simp: claim_lost_def find_item_def find_None_iff list_all_iff)
  then show ?thesis using None assms(3) by (simp add: report_entry_def resolve_entry_def)
next
  case (Some row)
  note row = find_item_Some [OF Some]
  show ?thesis
  proof (cases "w_token row = w_token item")
    case True
    let ?w = "row\<lparr>w_status := resolved_status res, w_result := EntryResult res\<rparr>"
    have "?w \<in> set (wf_items st')" "w_id ?w = w_id item" "w_status ?w = resolved_status res" "w_result ?w = EntryResult res"
      using resolve_effect(1) [OF Some True] assms(3) row by (auto simp: report_entry_def)
    moreover have "resolved_status res = Unknown \<longrightarrow> trading_halted st' \<and> wf_signals st' = wf_signals s"
      using resolve_effect(2) [OF Some True] assms(3) by (auto simp: report_entry_def)
    moreover have "\<not> claim_lost (w_id item) token s"
      using row True assms(2) by (auto simp: claim_lost_def list_all_iff)
    ultimately show ?thesis by metis
  next
    case False
    have "w = row" if "w \<in> set (wf_items s)" "w_id w = w_id item" for w
    proof -
      have "inj_on w_id (set (wf_items s))" using assms(1) by (simp add: queue_inv_def table_inv_def distinct_map)
      then show ?thesis using that row by (metis inj_onD)
    qed
    then have "claim_lost (w_id item) token s" using False assms(2) by (auto simp: claim_lost_def list_all_iff)
    then show ?thesis using Some False assms(3) by (simp add: report_entry_def resolve_entry_def)
  qed
qed

text \<open>Authority is granted under a live claim: right after it the claim is not lost.\<close>

lemma authority_holds_claim:
  assumes "begin_submission fingerprint item config fp x clock s = Ok (s1, None)" and "w_token item = Some token"
  shows "\<not> claim_lost (w_id item) token s1"
proof -
  obtain row req risk cap payload where chk: "submission_check fingerprint item config fp x clock s = Ok (Inr (row, req, risk, cap))"
    and s1: "s1 = audit ''entry_submission'' (rq_signal_id req) (appended (entry_stream (w_id row)) ''entry_submitting'' payload
                (update_item (w_id row) (\<lambda>_. row\<lparr>w_status := Submitting, w_lease_until := None\<rparr>) s))"
    using begin_submission_cases [OF assms(1)] by auto
  note row = submission_check_row [OF chk]
  let ?w = "row\<lparr>w_status := Submitting, w_lease_until := None\<rparr>"
  have "?w \<in> set (wf_items s1)" using row
    by (auto simp: s1 update_item_def record_audit_def intro!: image_eqI [of _ _ row])
  moreover have "w_id ?w = w_id item" "w_status ?w \<in> set ENTRY_BLOCKING" "w_token ?w = Some token"
    using row assms(2) by (simp_all add: ENTRY_BLOCKING_def)
  ultimately show ?thesis unfolding claim_lost_def list_all_iff by blast
qed

text \<open>The three outcomes an answer of the broker can have, read off the answer itself.\<close>

definition acknowledged :: "execution \<Rightarrow> bool" where
  "acknowledged ex = (\<exists>a oid. ex = Returned a \<and> or_success a \<and> or_order_id a = Some oid \<and> oid \<noteq> [])"

definition refused_outright :: "execution \<Rightarrow> bool" where
  "refused_outright ex = (\<exists>a. ex = Returned a \<and> \<not> or_success a \<and> \<not> or_submission_uncertain a)"

definition outcome_of :: "execution \<Rightarrow> work_status" where
  "outcome_of ex = (if acknowledged ex then Accepted else if refused_outright ex then Rejected else Unknown)"

lemma recorded_outcome: "recorded_result ex = Some res \<Longrightarrow> resolved_status res = outcome_of ex"
proof -
  assume res: "recorded_result ex = Some res"
  have "resolved_status res = Accepted \<longleftrightarrow> acknowledged ex"
    unfolding recorded_status(1) [OF res] acknowledged_def by (auto simp: set_text_def split: option.splits)
  moreover have "resolved_status res = Rejected \<longleftrightarrow> refused_outright ex"
    unfolding recorded_status(2) [OF res] refused_outright_def ..
  ultimately show ?thesis using resolved_status_iff(3) [of res] by (auto simp: outcome_of_def)
qed

text \<open>
  C5. Every answer of the broker is recorded for what it is. When the executor was called and the process
  lived, authority had been granted to this very item and request, under a claim that held at that moment.
  Unless other processes took the claim away while the broker answered, in which case the report changes
  nothing, the item ends accepted when the broker acknowledged it with an order id, rejected when it
  answered a definite refusal, and in every other case (an exception, a time-out, an acknowledgement
  without an id, an uncertain answer) its outcome is unknown, trading is halted and the signals stay as
  they were.
\<close>

theorem submission_outcome_recorded:
  assumes "fresh_desk st0" and "(desk_trans world)\<^sup>*\<^sup>* st0 st" and "turn_ok world turn"
    and "dispatch_entry (dw_fingerprint world) (dw_et_date world) config turn st = (st', [(i, request)], r)"
    and "tn_execute turn request \<noteq> Cancelled"
  shows "\<exists>item fp x before authorised. (desk_trans world)\<^sup>*\<^sup>* st before \<and> w_id item = i \<and> item_request item = Some request
    \<and> begin_submission (dw_fingerprint world) item config fp x (tn_submit_clock turn) before = Ok (authorised, None)
    \<and> \<not> claim_lost i (tn_token turn) authorised
    \<and> (let s = tn_meanwhile turn 7 authorised
       in if claim_lost i (tn_token turn) s then st' = s
          else \<exists>w \<in> set (wf_items st'). w_id w = i \<and> w_status w = outcome_of (tn_execute turn request)
            \<and> (w_status w = Unknown \<longrightarrow> trading_halted st' \<and> wf_signals st' = wf_signals s))"
proof -
  obtain item request' s s1 fp x where call: "[(i, request)] = [(w_id item, request')]"
    and req: "item_request item = Some request'"
    and tok: "w_token item = Some (tn_token turn)" and s: "(desk_trans world)\<^sup>*\<^sup>* st s"
    and b: "begin_submission (dw_fingerprint world) item config fp x (tn_submit_clock turn) s = Ok (s1, None)"
    and out: "recorded_result (tn_execute turn request') = None \<and> st' = tn_meanwhile turn 7 s1
      \<or> (\<exists>res. recorded_result (tn_execute turn request') = Some res
           \<and> st' = report_entry (dw_et_date world) turn item res (tn_meanwhile turn 7 s1))"
    by (rule dispatch_calls [OF assms(4) _ assms(3)]) blast+
  obtain res where res: "recorded_result (tn_execute turn request) = Some res"
    and st': "st' = report_entry (dw_et_date world) turn item res (tn_meanwhile turn 7 s1)"
    using out call assms(5) by (cases "tn_execute turn request") auto
  have i: "w_id item = i" and r: "item_request item = Some request" using call req by simp_all
  let ?s = "tn_meanwhile turn 7 s1"
  have run: "(desk_trans world)\<^sup>*\<^sup>* st ?s" by (meson begin_run [OF b] meanwhile_run [OF assms(3)] rtranclp_trans s)
  have "queue_inv ?s" using run_inv [OF _ fresh_inv [OF assms(1)]] assms(2) run by (meson rtranclp_trans)
  note rep = report_cases [OF this tok st', unfolded i recorded_outcome [OF res]]
  have "if claim_lost i (tn_token turn) ?s then st' = ?s
      else \<exists>w \<in> set (wf_items st'). w_id w = i \<and> w_status w = outcome_of (tn_execute turn request)
        \<and> (w_status w = Unknown \<longrightarrow> trading_halted st' \<and> wf_signals st' = wf_signals ?s)"
    using rep by (cases "claim_lost i (tn_token turn) ?s") (simp, simp only: if_False, blast)
  moreover have "\<not> claim_lost i (tn_token turn) s1" using authority_holds_claim [OF b tok] i by simp
  ultimately show ?thesis using s i r b unfolding Let_def by blast
qed

subsection \<open>An example\<close>

text \<open>An identifier longer than anything in the state.\<close>

fun part_size :: "fpart \<Rightarrow> nat" where
  "part_size (Lit s) = length s"
| "part_size _ = 0"

definition new_id :: "wf_state \<Rightarrow> string" where
  "new_id st = replicate (Suc (sum_list (map (\<lambda>w. length (w_id w)) (wf_items st))
     + sum_list (map (\<lambda>e. sum_list (map part_size (ev_stream e))) (wf_events st)))) (CHR ''n'')"

lemma long_unused:
  assumes "length (new_id st) \<le> length f"
  shows "unused f st"
proof -
  have "w_id w \<noteq> f" if "w \<in> set (wf_items st)" for w
  proof -
    have "length (w_id w) \<le> sum_list (map (\<lambda>w. length (w_id w)) (wf_items st))"
      using that by (intro member_le_sum_list) auto
    then have "length (w_id w) < length f" using assms by (simp add: new_id_def)
    then show ?thesis by auto
  qed
  moreover have "ev_stream e \<noteq> entry_stream f" if "e \<in> set (wf_events st)" for e
  proof
    assume "ev_stream e = entry_stream f"
    then have "length f \<le> sum_list (map part_size (ev_stream e))" by (simp add: entry_stream_def)
    also have "\<dots> \<le> sum_list (map (\<lambda>e. sum_list (map part_size (ev_stream e))) (wf_events st))"
      using that by (intro member_le_sum_list) auto
    finally show False using assms by (simp add: new_id_def)
  qed
  ultimately show ?thesis by (auto simp: unused_def list_all_iff)
qed

lemma new_id_unused: "unused (new_id st) st"
  by (rule long_unused) simp

text \<open>A simulated desk: nobody interferes and the executor acknowledges, or raises.\<close>

definition demo_turn :: "execution \<Rightarrow> entry_turn" where
  "demo_turn ex = \<lparr>tn_meanwhile = \<lambda>_ s. s, tn_token = ''t1'', tn_claimed_at = 0, tn_ledger = False, tn_digest = \<lambda>_. [],
     tn_tolerance = 0, tn_reads = demo_reads 0, tn_import_token = [], tn_imported_at = 0, tn_risk_at = 0,
     tn_context = \<lambda>_ _. Inr SimulatedEntryContext, tn_macro = \<lambda>_ _. Inr None, tn_clock = \<lambda>_. 0, tn_submit_clock = \<lambda>_. 0,
     tn_execute = \<lambda>_. ex, tn_fresh = new_id, tn_resolved_at = 0\<rparr>"

abbreviation demo_approved :: order_request where
  "demo_approved \<equiv> demo_request\<lparr>rq_client_order_id := Some (command_id ''a1'')\<rparr>"

lemma demo_turn_ok: "turn_ok world (demo_turn ex)"
  by (simp add: turn_ok_def demo_turn_def new_id_unused)

lemma demo_preflight:
  "admission_evidence paper_config (demo_turn ex) demo_claimed demo_approved demo_checking
     = (demo_checking, None, None, Some SimulatedEntryContext)"
proof -
  define s where "s = demo_signal\<lparr>sg_status := ''SUBMITTING'', sg_quantity := Some (Num 10),
       sg_notional_value := Some (Num 4000), sg_risk_dollars := Num 100\<rparr>"
  have sig: "find_signal (\<lambda>x. sg_id x = 7 \<and> sg_status x = ''SUBMITTING'') demo_checking = Some s"
    by (simp add: find_signal_def demo_checking_def demo_queued_def demo_signal_def s_def)
  have ex: "expiry_reason paper_config demo_claimed s 0 = None"
    by (simp add: expiry_reason_def authorization_expiry_def age_within_def demo_claimed_def demo_item_def s_def demo_signal_def
        paper_config_def demo_config_def total_seconds_def CLOCK_SKEW_def one_pyfloat_def zero_pyfloat_def Let_def)
  have st: "\<not> halt_flag_set demo_checking" "legacy_claims demo_checking = []" "reservations (Some 7) demo_checking = []"
    by (simp_all add: halt_flag_set_def legacy_claims_def reservations_def demo_checking_def demo_queued_def demo_desk_def
        demo_claimed_def demo_item_def demo_signal_def)
  have paper: "\<not> requires_account_risk paper_config" by (simp add: requires_account_risk_def paper_config_def)
  have "rq_signal_id demo_approved = 7" by (simp add: demo_request_def)
  then have "preflight paper_config (demo_turn ex) demo_claimed demo_approved None demo_checking
      = (demo_checking, judged (Some SimulatedEntryContext) None)"
    by (simp add: preflight_def demo_turn_def sig ex st assess_context_def context_refusal_def paper
        capacity_refusal_def reservation_ignores_client_id paper_reserved Let_def)
  then show ?thesis by (simp add: admission_evidence_def observe_risk_def paper demo_turn_def judged_def Let_def)
qed

lemma demo_dispatch:
  assumes "recorded_result ex = Some res"
  shows "dispatch_entry (dw_fingerprint demo_world) (dw_et_date demo_world) paper_config (demo_turn ex) demo_queued
     = (report_entry (dw_et_date demo_world) (demo_turn ex) demo_claimed res demo_submitting,
        [(command_id ''a1'', demo_approved)], Inr True)"
proof -
  have lease: "entry_preflight_lease_seconds (c_execution paper_config) * SECOND = 60000000"
    by (simp add: paper_config_def demo_config_def SECOND_def)
  have m: "tn_meanwhile (demo_turn ex) k s = s" "tn_token (demo_turn ex) = ''t1''" "tn_claimed_at (demo_turn ex) = 0"
    "tn_submit_clock (demo_turn ex) = (\<lambda>_. 0)" "tn_execute (demo_turn ex) r = ex" for k s r by (simp_all add: demo_turn_def)
  have "item_request demo_claimed = Some demo_approved" "w_id demo_claimed = command_id ''a1''"
    by (simp_all add: item_request_def demo_claimed_def demo_item_def)
  then show ?thesis
    using assms by (simp add: dispatch_entry_def lease m demo_claim demo_preflight submit_entry_def broker_evidence_def demo_submission Let_def)
qed

definition demo_answer :: order_result where
  "demo_answer = \<lparr>or_success = True, or_order_id = Some ''o1'', or_fill_price = None, or_error_message = None,
     or_submission_uncertain = False\<rparr>"

lemma demo_service_run: "\<exists>st. service_run demo_world demo_desk [(command_id ''a1'', demo_approved)] st"
proof -
  have "desk_trans demo_world demo_desk demo_queued"
    by (rule desk_trans.queue [OF wf_trans.enqueue [OF demo_enqueue demo_unused demo_for_signal]])
  then have "service_run demo_world demo_desk [] demo_queued" by (rule service_run.others [OF service_run.start])
  moreover have "recorded_result (Returned demo_answer) = Some demo_answer" by (simp add: demo_answer_def set_text_def)
  ultimately have "service_run demo_world demo_desk ([] @ [(command_id ''a1'', demo_approved)])
      (report_entry (dw_et_date demo_world) (demo_turn (Returned demo_answer)) demo_claimed demo_answer demo_submitting)"
    using service_run.dispatch [OF _ demo_turn_ok demo_dispatch] by blast
  then show ?thesis by auto
qed

theorem executor_called_once_witness:
  "\<exists>st :: wf_state. service_run demo_world demo_desk [(command_id ''a1'', demo_approved)] st
     \<and> call_recorded st (command_id ''a1'', demo_approved)"
proof -
  obtain st where "service_run demo_world demo_desk [(command_id ''a1'', demo_approved)] st" using demo_service_run by blast
  then show ?thesis using executor_called_once [OF demo_fresh] by auto
qed

theorem submission_outcome_recorded_witness:
  "\<exists>st :: wf_state. dispatch_entry (dw_fingerprint demo_world) (dw_et_date demo_world) paper_config (demo_turn (Failed ''TimeoutError'')) demo_queued
       = (st, [(command_id ''a1'', demo_approved)], Inr True)
     \<and> (\<exists>w. w \<in> set (wf_items st) \<and> w_id w = command_id ''a1'' \<and> w_status w = Unknown \<and> trading_halted st)"
proof -
  let ?turn = "demo_turn (Failed ''TimeoutError'')"
  let ?st = "report_entry (dw_et_date demo_world) ?turn demo_claimed (uncertain ''TimeoutError'') demo_submitting"
  have d: "dispatch_entry (dw_fingerprint demo_world) (dw_et_date demo_world) paper_config ?turn demo_queued
      = (?st, [(command_id ''a1'', demo_approved)], Inr True)" by (rule demo_dispatch) simp
  have "desk_trans demo_world demo_desk demo_queued"
    by (rule desk_trans.queue [OF wf_trans.enqueue [OF demo_enqueue demo_unused demo_for_signal]])
  then have run: "(desk_trans demo_world)\<^sup>*\<^sup>* demo_desk demo_queued" by blast
  have ex: "tn_execute ?turn demo_approved = Failed ''TimeoutError''" "tn_token ?turn = ''t1''" by (simp_all add: demo_turn_def)
  have "tn_execute ?turn demo_approved \<noteq> Cancelled" using ex(1) by simp
  note out = submission_outcome_recorded [OF demo_fresh run demo_turn_ok d this]
  have "tn_meanwhile ?turn 7 s = s" for s by (simp add: demo_turn_def)
  moreover have "outcome_of (Failed ''TimeoutError'') = Unknown"
    by (simp add: outcome_of_def acknowledged_def refused_outright_def)
  ultimately obtain w where "w \<in> set (wf_items ?st)" "w_id w = command_id ''a1''" "w_status w = Unknown" "trading_halted ?st"
    using out unfolding ex Let_def by auto
  then show ?thesis using d by blast
qed

end
