(* ===== verification/Close_Service.thy ===== *)
theory Close_Service
  imports Entry_Service
begin

text \<open>
  The close service (\<open>execution/closing.py\<close>): a position is closed through a durable claim, one call of
  the broker, and the record of its answer; recovery only looks up. As in the entry service, other
  processes act between the transactions, and the broker's answers are arguments.
\<close>

subsection \<open>Requests and answers\<close>

definition BROKER_QUANTITY_TOLERANCE :: pyfloat where "BROKER_QUANTITY_TOLERANCE = b64 (1 / 1000000)"

definition CLOSE_STATUSES :: "string list" where
  "CLOSE_STATUSES = [''claimed'', ''submitted'', ''unknown'', ''completed'', ''failed'']"

record close_result = order_result +
  or_fill_timestamp :: "int option"
  or_filled_quantity :: "pyfloat option"
  or_close_status :: "string option"

record position_close_request =
  pc_symbol :: string
  pc_direction :: string
  pc_quantity :: pyfloat
  pc_client_order_id :: string
  pc_entry_order_id :: "string option"
  pc_allow_queued :: bool

text \<open>Validation: a direction of the enumeration and a finite positive quantity.\<close>

definition mk_close_request :: "broker_position \<Rightarrow> string \<Rightarrow> string option \<Rightarrow> bool \<Rightarrow> failure + position_close_request" where
  "mk_close_request p cid entry_order queued =
     (if b_direction p \<notin> {LONG, SHORT} then Inl (''ValueError'', [Lit (b_direction p), Lit '' is not a valid Direction''])
      else if \<not> isfinite (b_quantity p) \<or> \<not> 0 < b_quantity p then Inl (''ValidationError'', [])
      else Inr \<lparr>pc_symbol = b_symbol p, pc_direction = b_direction p, pc_quantity = b_quantity p, pc_client_order_id = cid,
             pc_entry_order_id = entry_order, pc_allow_queued = queued\<rparr>)"

text \<open>\<open>math.isclose(a, b, rel_tol=0, abs_tol=tol)\<close>.\<close>

definition isclose_abs :: "pyfloat \<Rightarrow> pyfloat \<Rightarrow> pyfloat \<Rightarrow> bool" where
  "isclose_abs tol a b = (feq a b \<or> isfinite a \<and> isfinite b \<and> \<bar>b - a\<bar> \<le> tol)"

text \<open>The contract of a row as brokers write it.\<close>

definition strip_slash :: "string \<Rightarrow> string" where
  "strip_slash s = rev (dropWhile (\<lambda>c. c = CHR ''/'') (rev (dropWhile (\<lambda>c. c = CHR ''/'') s)))"

definition broker_symbol :: "signal \<Rightarrow> string" where
  "broker_symbol s = upper (strip_slash (sg_contract (sg_alpha s)))"

definition close_matches :: "signal \<Rightarrow> broker_position \<Rightarrow> bool" where
  "close_matches s p = (sg_direction (sg_alpha s) = b_direction p
     \<and> isclose_abs BROKER_QUANTITY_TOLERANCE (case sg_quantity s of Some q \<Rightarrow> q | None \<Rightarrow> 1) (b_quantity p))"

subsection \<open>Recording an answer\<close>

definition fill_confirmed :: "close_request \<Rightarrow> close_result \<Rightarrow> bool" where
  "fill_confirmed c r = (or_fill_price r \<noteq> None \<and> or_fill_timestamp r \<noteq> None
     \<and> (case or_filled_quantity r of None \<Rightarrow> False | Some q \<Rightarrow> isclose_abs BROKER_QUANTITY_TOLERANCE q (cr_quantity c)))"

definition answer_status :: "close_request \<Rightarrow> close_result \<Rightarrow> string" where
  "answer_status c r =
     (let status = (case or_close_status r of Some s \<Rightarrow> s
        | None \<Rightarrow> if or_success r \<and> set_text (or_order_id r) then ''submitted''
                   else if or_submission_uncertain r then ''unknown'' else ''failed'')
      in if status = ''completed'' \<and> \<not> fill_confirmed c r then ''unknown'' else status)"

definition answer_detail :: "string \<Rightarrow> close_result \<Rightarrow> failure + ftext" where
  "answer_detail status r =
     (if (case or_error_message r of Some t \<Rightarrow> text_set t | None \<Rightarrow> False) then Inr (the (or_error_message r))
      else if status = ''submitted'' then Inr (msg ''Close submitted; awaiting a confirmed broker fill.'')
      else if status = ''completed'' then Inr (msg ''Broker close fill confirmed; trade accounting reconciles separately.'')
      else if status = ''unknown''
      then Inr (msg ''Close outcome uncertain; retained for reconciliation, never automatically resubmitted.'')
      else if status = ''failed'' then Inr (msg ''Close rejected; no fill confirmed.'')
      else Inl (''KeyError'', msg status))"

text \<open>What a process of the close service reads from outside.\<close>

record close_turn =
  ct_meanwhile :: "nat \<Rightarrow> wf_state \<Rightarrow> wf_state"
  ct_fresh :: "wf_state \<Rightarrow> string"
  ct_now :: int
  ct_authoritative :: bool
  ct_positions :: "failure + broker_position list"
  ct_lookup :: "string \<Rightarrow> failure + close_result option"
  ct_submit :: "position_close_request \<Rightarrow> failure + close_result"
  ct_steps :: "position_close_request \<Rightarrow> string list"

definition save_result :: "close_turn \<Rightarrow> close_request \<Rightarrow> close_result \<Rightarrow> wf_state \<Rightarrow> wf_state \<times> (failure + ftext)" where
  "save_result turn record1 result st =
     (let status = answer_status record1 result;
          s1 = (case (or_order_id result, cr_signal_id record1) of
             (Some oid, Some sid) \<Rightarrow>
               if oid = [] \<or> sid = 0 then st
               else if status = ''failed'' then clear_failed_exit_request sid oid st else record_exit_request sid oid st
           | _ \<Rightarrow> st);
          s2 = ct_meanwhile turn 0 s1
      in case answer_detail status result of
           Inl f \<Rightarrow> (s1, Inl f)
         | Inr detail \<Rightarrow>
             (update_close_request (cr_id record1) status detail (or_order_id result) (ct_fresh turn s2) (ct_now turn) s2, Inr detail))"

subsection \<open>Recovery\<close>

definition recovery_failed :: "close_request \<Rightarrow> failure \<Rightarrow> wf_state \<Rightarrow> wf_state" where
  "recovery_failed c f = record_audit ''close_broker_step'' (cr_signal_id c)
     [(''request_id'', cr_id c), (''phase'', ''recovery_failed''), (''error_type'', fst f)]"

fun recover_closes_each :: "close_turn \<Rightarrow> close_request list \<Rightarrow> wf_state \<Rightarrow> wf_state" where
  "recover_closes_each turn [] st = st"
| "recover_closes_each turn (c # cs) st =
     recover_closes_each turn cs
       (let s = ct_meanwhile turn 1 st
        in case ct_lookup turn (cr_id c) of
             Inl f \<Rightarrow> recovery_failed c f s
           | Inr None \<Rightarrow> s
           | Inr (Some result) \<Rightarrow>
               (case save_result turn c result s of
                  (s1, Inl f) \<Rightarrow> recovery_failed c f s1
                | (s1, Inr _) \<Rightarrow> s1))"

definition recover_closes :: "close_turn \<Rightarrow> wf_state \<Rightarrow> wf_state" where
  "recover_closes turn st = recover_closes_each turn (active_close_requests st) st"

subsection \<open>Closing\<close>

definition uncertain_close :: "string \<Rightarrow> close_result" where
  "uncertain_close type_name = \<lparr>or_success = False, or_order_id = None, or_fill_price = None,
     or_error_message = Some [Lit ''Close outcome uncertain ('', Lit type_name, Lit ''); inspect broker orders.''],
     or_submission_uncertain = True, or_fill_timestamp = None, or_filled_quantity = None, or_close_status = None\<rparr>"

definition close_claim :: "broker_position \<Rightarrow> signal option \<Rightarrow> string \<Rightarrow> close_request" where
  "close_claim p signal i = \<lparr>cr_id = i, cr_symbol = b_symbol p, cr_direction = b_direction p, cr_quantity = b_quantity p,
     cr_signal_id = map_option sg_id signal, cr_status = ''claimed'', cr_broker_order_id = None, cr_detail = []\<rparr>"

definition observed_steps :: "close_request \<Rightarrow> string list \<Rightarrow> wf_state \<Rightarrow> wf_state" where
  "observed_steps c phases st =
     foldl (\<lambda>s phase. record_audit ''close_broker_step'' (cr_signal_id c) [(''request_id'', cr_id c), (''phase'', phase)] s) st phases"

text \<open>The state, the requests handed to the broker, and the reply.\<close>

definition close_one ::
  "close_turn \<Rightarrow> broker_position \<Rightarrow> signal option \<Rightarrow> bool \<Rightarrow> string option \<Rightarrow> wf_state
     \<Rightarrow> wf_state \<times> position_close_request list \<times> (failure + ftext)" where
  "close_one turn p signal queued request_id st =
     (let i = (case request_id of Some r \<Rightarrow> if r \<noteq> [] then r else ''close-'' @ ct_fresh turn st | None \<Rightarrow> ''close-'' @ ct_fresh turn st)
      in case claim_close_request (close_claim p signal i) (ct_fresh turn st) (ct_now turn) st of
        Inl e \<Rightarrow> (st, [], Inl (failure_of e))
      | Inr (s1, False, record1) \<Rightarrow>
          (s1, [], Inr (if text_set (cr_detail record1) then cr_detail record1
             else msg ''A close request is already active; awaiting broker reconciliation. No duplicate order submitted.''))
      | Inr (s1, True, record1) \<Rightarrow>
          (case mk_close_request p (cr_id record1) (case signal of Some s \<Rightarrow> sg_broker_order_id s | None \<Rightarrow> None) queued of
             Inl f \<Rightarrow> (s1, [], Inl f)
           | Inr request \<Rightarrow>
               let s2 = ct_meanwhile turn 2 (observed_steps record1 (ct_steps turn request) s1);
                   result = (case ct_submit turn request of Inl f \<Rightarrow> uncertain_close (fst f) | Inr r \<Rightarrow> r)
               in (case save_result turn record1 result s2 of (s3, out) \<Rightarrow> (s3, [request], out))))"

definition close_signal ::
  "close_turn \<Rightarrow> int \<Rightarrow> bool \<Rightarrow> string option \<Rightarrow> wf_state
     \<Rightarrow> wf_state \<times> position_close_request list \<times> (failure + ftext)" where
  "close_signal turn sid queued request_id st =
     (let s1 = ct_meanwhile turn 3 (recover_closes turn st)
      in case find_signal (has_status sid EXECUTED) s1 of
        None \<Rightarrow> (s1, [], Inr [Lit ''Signal #'', FInt sid, Lit '' is not an active position.''])
      | Some signal \<Rightarrow>
          if set_text (sg_exit_order_id signal)
          then (s1, [], Inr (msg ''Close already submitted; awaiting confirmed broker reconciliation.''))
          else (case ct_positions turn of
                  Inl f \<Rightarrow> (s1, [], Inl f)
                | Inr held \<Rightarrow>
                    (case find (\<lambda>p. b_symbol p = broker_symbol signal) held of
                       None \<Rightarrow> (s1, [], Inr (msg ''No open broker position; awaiting reconciliation of existing orders.''))
                     | Some p \<Rightarrow>
                         let s2 = ct_meanwhile turn 4 s1;
                             tracked = filter (\<lambda>x. broker_symbol x = broker_symbol signal) (get_active_positions s2)
                         in if length tracked \<noteq> 1 \<or> \<not> close_matches signal p
                            then (s2, [], Inr (msg ''Tracked quantity/direction is ambiguous or differs from the broker; no orders changed.''))
                            else close_one turn p (Some signal) queued request_id (ct_meanwhile turn 5 s2))))"

subsection \<open>Flatten\<close>

text \<open>The list marker (its UTF-8 bytes).\<close>

definition bullet :: string where "bullet = [CHR 0xE2, CHR 0x80, CHR 0xA2, CHR 0x20]"

definition flatten_failed :: "broker_position \<Rightarrow> failure \<Rightarrow> wf_state \<Rightarrow> wf_state" where
  "flatten_failed p f = record_audit ''flatten'' None [(''phase'', ''symbol_failed''), (''symbol'', b_symbol p), (''error_type'', fst f)]"

definition owner_of :: "signal list \<Rightarrow> broker_position \<Rightarrow> signal option" where
  "owner_of tracked p = (case filter (\<lambda>s. broker_symbol s = b_symbol p) tracked of
     [s] \<Rightarrow> if close_matches s p then Some s else None | _ \<Rightarrow> None)"

definition flatten_one ::
  "close_turn \<Rightarrow> signal list \<Rightarrow> broker_position \<Rightarrow> wf_state \<Rightarrow> wf_state \<times> position_close_request list \<times> (failure + ftext)" where
  "flatten_one turn tracked p st =
     (let owner = owner_of tracked p
      in if owner = None \<and> list_ex (\<lambda>s. broker_symbol s = b_symbol p) tracked
         then (st, [], Inr (msg ''Tracking mismatch; no orders changed. Reconcile this position before closing.''))
         else if (case owner of Some s \<Rightarrow> set_text (sg_exit_order_id s) | None \<Rightarrow> False)
         then (st, [], Inr (msg ''Close already submitted; awaiting confirmed broker reconciliation.''))
         else close_one turn p owner False None st)"

fun flatten_each ::
  "close_turn \<Rightarrow> signal list \<Rightarrow> broker_position list \<Rightarrow> wf_state \<Rightarrow> wf_state \<times> position_close_request list \<times> ftext list" where
  "flatten_each turn tracked [] st = (st, [], [])"
| "flatten_each turn tracked (p # ps) st =
     (case flatten_one turn tracked p (ct_meanwhile turn 6 st) of (s1, made, out) \<Rightarrow>
      let s2 = (case out of Inl f \<Rightarrow> flatten_failed p f s1 | Inr _ \<Rightarrow> s1);
          line = (case out of
             Inl f \<Rightarrow> [Lit bullet, Lit (b_symbol p), Lit '': close failed ('', Lit (fst f), Lit ''); inspect broker state.'']
           | Inr detail \<Rightarrow> [Lit bullet, Lit (b_symbol p), Lit '': ''] @ detail)
      in case flatten_each turn tracked ps s2 of (s3, later, lines) \<Rightarrow> (s3, made @ later, line # lines))"

definition flatten :: "close_turn \<Rightarrow> wf_state \<Rightarrow> wf_state \<times> position_close_request list \<times> (failure + ftext list)" where
  "flatten turn st =
     (if \<not> ct_authoritative turn
      then (st, [], Inr [msg ''Flatten requires an authoritative broker position snapshot; this adapter is unsupported.''])
      else let s1 = ct_meanwhile turn 3 (recover_closes turn st) in
        (case ct_positions turn of
           Inl f \<Rightarrow> (s1, [], Inl f)
         | Inr held \<Rightarrow>
             let s2 = record_audit ''flatten'' None [(''phase'', ''started'')] s1
             in (case flatten_each turn (get_active_positions s1) held s2 of (s3, made, lines) \<Rightarrow>
                  (record_audit ''flatten'' None [(''phase'', ''completed'')] s3, made,
                   Inr ([msg ''Flatten results''] @ lines @ (if held = [] then [msg ''No open broker positions.''] else [])
                     @ [msg ''Trading halt state unchanged. Confirm remaining positions with /positions; unfilled entry orders in other symbols remain working.''])))))"

subsection \<open>Every operation is a run of the desk\<close>

definition close_turn_ok :: "desk_world \<Rightarrow> close_turn \<Rightarrow> bool" where
  "close_turn_ok world turn = ((\<forall>i s. (desk_trans world)\<^sup>*\<^sup>* s (ct_meanwhile turn i s)) \<and> (\<forall>s. unused (ct_fresh turn s) s))"

text \<open>
  A run that may call the broker: transactions of any process, and close claims that were granted, each
  with the request then sent under its identifier.
\<close>

inductive closing :: "desk_world \<Rightarrow> wf_state \<Rightarrow> position_close_request list \<Rightarrow> wf_state \<Rightarrow> bool" for world s0 where
  start: "closing world s0 [] s0"
| others: "closing world s0 calls s \<Longrightarrow> desk_trans world s s' \<Longrightarrow> closing world s0 calls s'"
| granted: "closing world s0 calls s \<Longrightarrow> claim_close_request claim f now s = Ok (s', True, c) \<Longrightarrow> unused f s
    \<Longrightarrow> pc_client_order_id request = cr_id claim \<Longrightarrow> pc_symbol request = cr_symbol claim
    \<Longrightarrow> pc_direction request = cr_direction claim \<Longrightarrow> pc_quantity request = cr_quantity claim
    \<Longrightarrow> closing world s0 (calls @ [request]) s'"

lemma closing_run: "(desk_trans world)\<^sup>*\<^sup>* s t \<Longrightarrow> closing world s0 calls s \<Longrightarrow> closing world s0 calls t"
  by (induction rule: rtranclp_induct) (auto intro: closing.others)

lemma closing_append: "closing world s extra t \<Longrightarrow> closing world s0 calls s \<Longrightarrow> closing world s0 (calls @ extra) t"
proof (induction rule: closing.induct)
  case (granted extra s1 claim f now s' c request)
  then show ?case using closing.granted [of world s0 "calls @ extra" s1 claim f now s' c request] by simp
qed (auto intro: closing.others)

lemma operation_run:
  assumes "desk_op (dw_ny world) (dw_utc world) (dw_et_date world) (dw_fromiso world) F s s'" and "\<forall>f \<in> F. unused f s"
  shows "(desk_trans world)\<^sup>*\<^sup>* s s'"
  using desk_trans.operation [OF assms] by blast

lemma closing_desk_run: "closing world s0 calls s \<Longrightarrow> (desk_trans world)\<^sup>*\<^sup>* s0 s"
proof (induction rule: closing.induct)
  case (granted calls s claim f now s' c request)
  have "(desk_trans world)\<^sup>*\<^sup>* s s'"
    by (rule operation_run [OF desk_op.close_claimed [OF granted.hyps(2)]]) (simp add: granted.hyps(3))
  with granted.IH show ?case by (rule rtranclp_trans)
qed (auto intro: rtranclp.rtrancl_into_rtrancl)

lemma audit_run: "(desk_trans world)\<^sup>*\<^sup>* s (record_audit k i e s)"
  by (rule operation_run [OF desk_op.outside]) (simp_all add: elsewhere_def record_audit_def)

lemma others_run: "close_turn_ok world turn \<Longrightarrow> (desk_trans world)\<^sup>*\<^sup>* s (ct_meanwhile turn i s)"
  by (simp add: close_turn_ok_def)

lemma exit_requested_run: "(desk_trans world)\<^sup>*\<^sup>* s (record_exit_request sid oid s)"
  by (rule operation_run [OF desk_op.exit_requested]) simp

lemma exit_cleared_run: "(desk_trans world)\<^sup>*\<^sup>* s (clear_failed_exit_request sid oid s)"
  by (rule operation_run [OF desk_op.exit_cleared]) simp

lemma close_updated_run:
  assumes "close_turn_ok world turn"
  shows "(desk_trans world)\<^sup>*\<^sup>* s (update_close_request i status detail oid (ct_fresh turn s) now s)"
  by (rule operation_run [OF desk_op.close_updated]) (use assms in \<open>simp add: close_turn_ok_def\<close>)

lemma save_result_run:
  assumes "close_turn_ok world turn"
  shows "(desk_trans world)\<^sup>*\<^sup>* s (fst (save_result turn c result s))"
proof -
  define s1 where "s1 = (case (or_order_id result, cr_signal_id c) of
             (Some oid, Some sid) \<Rightarrow>
               if oid = [] \<or> sid = 0 then s
               else if answer_status c result = ''failed'' then clear_failed_exit_request sid oid s else record_exit_request sid oid s
           | _ \<Rightarrow> s)"
  have "(desk_trans world)\<^sup>*\<^sup>* s s1"
    unfolding s1_def using exit_requested_run exit_cleared_run by (auto split: option.split)
  moreover have "(desk_trans world)\<^sup>*\<^sup>* s1 (ct_meanwhile turn 0 s1)" by (rule others_run [OF assms])
  moreover note close_updated_run [OF assms]
  ultimately show ?thesis
    unfolding save_result_def Let_def s1_def [symmetric] by (auto split: sum.split) (metis rtranclp_trans)
qed

lemma recover_closes_run:
  assumes "close_turn_ok world turn"
  shows "(desk_trans world)\<^sup>*\<^sup>* s (recover_closes_each turn cs s)"
proof (induction cs arbitrary: s)
  case (Cons c cs)
  let ?s = "ct_meanwhile turn 1 s"
  define t where "t = (case ct_lookup turn (cr_id c) of
             Inl f \<Rightarrow> recovery_failed c f ?s
           | Inr None \<Rightarrow> ?s
           | Inr (Some result) \<Rightarrow>
               (case save_result turn c result ?s of
                  (s1, Inl f) \<Rightarrow> recovery_failed c f s1
                | (s1, Inr _) \<Rightarrow> s1))"
  have saved: "(desk_trans world)\<^sup>*\<^sup>* ?s s1" if "save_result turn c result ?s = (s1, out)" for result s1 out
    using save_result_run [OF assms, of ?s c result] that by simp
  have "(desk_trans world)\<^sup>*\<^sup>* ?s t"
    unfolding t_def recovery_failed_def using audit_run rtranclp_trans [OF saved audit_run] saved
    by (auto split: sum.split option.split prod.split)
  then have "(desk_trans world)\<^sup>*\<^sup>* s t" using others_run [OF assms] by (rule rtranclp_trans [rotated])
  then show ?case unfolding recover_closes_each.simps Let_def t_def [symmetric] using Cons.IH [of t] by (rule rtranclp_trans)
qed simp

lemma steps_run: "(desk_trans world)\<^sup>*\<^sup>* s (observed_steps c phases s)"
proof (induction phases arbitrary: s)
  case (Cons p phases)
  have "observed_steps c (p # phases) s
      = observed_steps c phases (record_audit ''close_broker_step'' (cr_signal_id c) [(''request_id'', cr_id c), (''phase'', p)] s)"
    by (simp add: observed_steps_def)
  then show ?case using rtranclp_trans [OF audit_run Cons.IH] by simp
qed (simp add: observed_steps_def)

lemma mk_close_request_ok:
  "mk_close_request p cid e q = Inr r \<Longrightarrow> pc_client_order_id r = cid \<and> pc_symbol r = b_symbol p \<and> pc_direction r = b_direction p
     \<and> pc_quantity r = b_quantity p \<and> isfinite (pc_quantity r) \<and> 0 < pc_quantity r"
  by (auto simp: mk_close_request_def split: if_split_asm)

lemma claim_granted_record:
  assumes "claim_close_request claim f now s = Ok (s', True, c)"
  shows "cr_id c = cr_id claim"
  using assms by (auto simp: claim_close_request_def Let_def split: option.split_asm if_split_asm)

lemma close_one_closing:
  assumes "close_turn_ok world turn" and "close_one turn p signal queued rid s = (s', made, out)"
  shows "closing world s made s'"
proof -
  define i where "i = (case rid of Some r \<Rightarrow> if r \<noteq> [] then r else ''close-'' @ ct_fresh turn s | None \<Rightarrow> ''close-'' @ ct_fresh turn s)"
  define claim where "claim = close_claim p signal i"
  have fresh: "unused (ct_fresh turn s) s" using assms(1) by (simp add: close_turn_ok_def)
  have run: "(desk_trans world)\<^sup>*\<^sup>* s s1" if "claim_close_request claim (ct_fresh turn s) (ct_now turn) s = Ok (s1, b, c)" for s1 b c
    by (rule operation_run [OF desk_op.close_claimed [OF that]]) (simp add: fresh)
  note eq = assms(2) [unfolded close_one_def Let_def i_def [symmetric] claim_def [symmetric]]
  show ?thesis
  proof (cases "claim_close_request claim (ct_fresh turn s) (ct_now turn) s")
    case (Inl e)
    then show ?thesis using eq by (auto intro: closing.start)
  next
    case (Inr q)
    obtain s1 b c where q: "q = (s1, b, c)" by (cases q) auto
    note claimed = Inr [unfolded q]
    have stay: "closing world s [] s1" by (rule closing_run [OF run [OF claimed] closing.start])
    show ?thesis
    proof (cases "b \<and> (\<exists>request. mk_close_request p (cr_id c) (case signal of Some s \<Rightarrow> sg_broker_order_id s | None \<Rightarrow> None) queued = Inr request)")
      case False
      then show ?thesis using eq claimed stay by (cases b) (auto split: sum.split_asm)
    next
      case True
      then obtain request where b: b
        and m: "mk_close_request p (cr_id c) (case signal of Some s \<Rightarrow> sg_broker_order_id s | None \<Rightarrow> None) queued = Inr request" by blast
      let ?s2 = "ct_meanwhile turn 2 (observed_steps c (ct_steps turn request) s1)"
      let ?r = "case ct_submit turn request of Inl f \<Rightarrow> uncertain_close (fst f) | Inr r \<Rightarrow> r"
      have out: "made = [request] \<and> s' = fst (save_result turn c ?r ?s2)"
        using eq claimed b m by (auto split: prod.split_asm)
      have "claim_close_request claim (ct_fresh turn s) (ct_now turn) s = Ok (s1, True, c)" using claimed b by simp
      then have "closing world s ([] @ [request]) s1"
        using mk_close_request_ok [OF m] fresh claim_granted_record
        by (intro closing.granted [OF closing.start]) (auto simp: claim_def close_claim_def)
      moreover have "(desk_trans world)\<^sup>*\<^sup>* s1 ?s2" by (rule rtranclp_trans [OF steps_run others_run [OF assms(1)]])
      then have "(desk_trans world)\<^sup>*\<^sup>* s1 s'" using out save_result_run [OF assms(1)] by (metis rtranclp_trans)
      ultimately show ?thesis using out closing_run by fastforce
    qed
  qed
qed

lemma close_signal_closing:
  assumes "close_turn_ok world turn" and "close_signal turn sid queued rid s = (s', made, out)"
  shows "closing world s made s'"
proof -
  define s1 where "s1 = ct_meanwhile turn 3 (recover_closes turn s)"
  define s2 where "s2 = ct_meanwhile turn 4 s1"
  have "(desk_trans world)\<^sup>*\<^sup>* s s1"
    unfolding s1_def recover_closes_def by (rule rtranclp_trans [OF recover_closes_run [OF assms(1)] others_run [OF assms(1)]])
  then have c1: "closing world s [] s1" by (rule closing_run [OF _ closing.start])
  have c2: "closing world s [] s2" unfolding s2_def by (rule closing_run [OF others_run [OF assms(1)] c1])
  have c3: "closing world s [] (ct_meanwhile turn 5 s2)" by (rule closing_run [OF others_run [OF assms(1)] c2])
  have "closing world s made s'" if "close_one turn p sig queued rid (ct_meanwhile turn 5 s2) = (s', made, out)" for p sig
    using closing_append [OF close_one_closing [OF assms(1) that] c3] by simp
  then show ?thesis
    using assms(2) c1 c2 unfolding close_signal_def Let_def s1_def [symmetric] s2_def [symmetric]
    by (auto split: option.split_asm sum.split_asm if_split_asm)
qed

lemma flatten_one_closing:
  assumes "close_turn_ok world turn" and "flatten_one turn tracked p s = (s', made, out)"
  shows "closing world s made s'"
  using assms(2) close_one_closing [OF assms(1)]
  by (auto simp: flatten_one_def Let_def split: if_split_asm intro: closing.start)

lemma flatten_each_closing:
  "close_turn_ok world turn \<Longrightarrow> flatten_each turn tracked ps s = (s', made, lines) \<Longrightarrow> closing world s made s'"
proof (induction ps arbitrary: s made lines)
  case (Cons p ps)
  obtain s1 m1 out where one: "flatten_one turn tracked p (ct_meanwhile turn 6 s) = (s1, m1, out)" by (metis prod.collapse)
  define s2 where "s2 = (case out of Inl f \<Rightarrow> flatten_failed p f s1 | Inr _ \<Rightarrow> s1)"
  obtain m2 ls where rest: "flatten_each turn tracked ps s2 = (s', m2, ls)" and made: "made = m1 @ m2"
    using Cons.prems(2) one by (auto simp: Let_def s2_def split: prod.split_asm)
  have "closing world s ([] @ m1) s1"
    by (rule closing_append [OF flatten_one_closing [OF Cons.prems(1) one] closing_run [OF others_run [OF Cons.prems(1)] closing.start]])
  moreover have "(desk_trans world)\<^sup>*\<^sup>* s1 s2" by (simp add: s2_def flatten_failed_def audit_run split: sum.split)
  ultimately have "closing world s m1 s2" using closing_run by simp
  then show ?case unfolding made by (rule closing_append [OF Cons.IH [OF Cons.prems(1) rest]])
qed (auto intro: closing.start)

lemma flatten_closing:
  assumes "close_turn_ok world turn" and "flatten turn s = (s', made, out)"
  shows "closing world s made s'"
proof -
  define s1 where "s1 = ct_meanwhile turn 3 (recover_closes turn s)"
  have "(desk_trans world)\<^sup>*\<^sup>* s s1"
    unfolding s1_def recover_closes_def by (rule rtranclp_trans [OF recover_closes_run [OF assms(1)] others_run [OF assms(1)]])
  then have c1: "closing world s [] s1" by (rule closing_run [OF _ closing.start])
  have c2: "closing world s [] (record_audit k i e s1)" for k i e by (rule closing_run [OF audit_run c1])
  have "closing world s m (record_audit k i e t)"
    if "flatten_each turn tracked held (record_audit k' i' e' s1) = (t, m, lines)" for tracked held t m lines k i e k' i' e'
    by (rule closing_run [OF audit_run]) (use closing_append [OF flatten_each_closing [OF assms(1) that] c2] in simp)
  then show ?thesis
    using assms(2) c1 closing_run [OF audit_run c2] unfolding flatten_def Let_def s1_def [symmetric]
    by (auto split: sum.split_asm prod.split_asm if_split_asm intro: closing.start)
qed

subsection \<open>At most one close per request\<close>

text \<open>The service at work: any process's transactions, closes by signal, flattens and recoveries.\<close>

inductive close_service :: "desk_world \<Rightarrow> wf_state \<Rightarrow> position_close_request list \<Rightarrow> wf_state \<Rightarrow> bool" for world st0 where
  begins: "close_service world st0 [] st0"
| acts: "close_service world st0 calls s \<Longrightarrow> desk_trans world s s' \<Longrightarrow> close_service world st0 calls s'"
| recovers: "close_service world st0 calls s \<Longrightarrow> close_turn_ok world turn \<Longrightarrow> close_service world st0 calls (recover_closes turn s)"
| closes: "close_service world st0 calls s \<Longrightarrow> close_turn_ok world turn \<Longrightarrow> close_signal turn sid queued rid s = (s', made, out)
    \<Longrightarrow> close_service world st0 (calls @ made) s'"
| flattens: "close_service world st0 calls s \<Longrightarrow> close_turn_ok world turn \<Longrightarrow> flatten turn s = (s', made, lines)
    \<Longrightarrow> close_service world st0 (calls @ made) s'"

lemma close_service_closing: "close_service world st0 calls st \<Longrightarrow> closing world st0 calls st"
proof (induction rule: close_service.induct)
  case (recovers calls s turn)
  then show ?case unfolding recover_closes_def by (blast intro: closing_run recover_closes_run)
next
  case (closes calls s turn sid queued rid s' made out)
  then show ?case by (blast intro: closing_append close_signal_closing)
next
  case (flattens calls s turn s' made lines)
  then show ?case by (blast intro: closing_append flatten_closing)
qed (auto intro: closing.intros)

text \<open>The claim behind a call.\<close>

definition claimed_for :: "wf_state \<Rightarrow> position_close_request \<Rightarrow> bool" where
  "claimed_for st r = (\<exists>c \<in> set (wf_closes st). cr_id c = pc_client_order_id r \<and> cr_symbol c = pc_symbol r
     \<and> cr_direction c = pc_direction r \<and> cr_quantity c = pc_quantity r)"

lemma claimed_for_kept:
  assumes "(desk_trans w)\<^sup>*\<^sup>* s t" and "desk_inv s" and "claimed_for s r"
  shows "claimed_for t r"
proof -
  obtain c where c: "c \<in> set (wf_closes s)" "cr_id c = pc_client_order_id r" "cr_symbol c = pc_symbol r"
      "cr_direction c = pc_direction r" "cr_quantity c = pc_quantity r" using assms(3) by (auto simp: claimed_for_def)
  obtain c' where "c' \<in> set (wf_closes t)" "close_kept c c'" using run_closes [OF assms(1,2)] c(1) by blast
  then show ?thesis using c(2-5) unfolding claimed_for_def close_kept_def by metis
qed

lemma claim_granted:
  assumes "claim_close_request claim f now s = Ok (s', True, c)"
  shows "\<forall>x \<in> set (wf_closes s). cr_id x \<noteq> cr_id claim" and "c \<in> set (wf_closes s')"
    and "cr_id c = cr_id claim \<and> cr_symbol c = cr_symbol claim \<and> cr_direction c = cr_direction claim \<and> cr_quantity c = cr_quantity claim"
  using assms notify_keeps
  by (auto simp: claim_close_request_def get_close_request_def find_None_iff Let_def record_audit_def add_notification_def add_item_def
      split: option.split_asm if_split_asm)

lemma closing_inv:
  assumes "closing world st0 calls st" and "desk_inv st0"
  shows "(desk_trans world)\<^sup>*\<^sup>* st0 st \<and> distinct (map pc_client_order_id calls) \<and> (\<forall>r \<in> set calls. claimed_for st r)"
  using assms(1)
proof (induction rule: closing.induct)
  case (others calls s s')
  have "(desk_trans world)\<^sup>*\<^sup>* s s'" using others.hyps(2) by blast
  moreover have "desk_inv s" using run_desk_inv [OF _ assms(2)] others.IH by blast
  ultimately show ?case using others.IH claimed_for_kept by (meson rtranclp_trans)
next
  case (granted calls s claim f now s' c request)
  have run: "(desk_trans world)\<^sup>*\<^sup>* s s'"
    by (rule operation_run [OF desk_op.close_claimed [OF granted.hyps(2)]]) (simp add: granted.hyps(3))
  have inv: "desk_inv s" using run_desk_inv [OF _ assms(2)] granted.IH by blast
  note g = claim_granted [OF granted.hyps(2)]
  have "claimed_for s' request" using g(2,3) granted.hyps(4-7) by (auto simp: claimed_for_def)
  moreover have "pc_client_order_id r \<noteq> pc_client_order_id request" if "r \<in> set calls" for r
    using granted.IH that g(1) granted.hyps(4) by (auto simp: claimed_for_def)
  then have "pc_client_order_id request \<notin> pc_client_order_id ` set calls" by force
  moreover have "\<forall>r \<in> set calls. claimed_for s' r" using granted.IH claimed_for_kept [OF run inv] by blast
  ultimately show ?case using granted.IH run by (auto intro: rtranclp_trans)
qed simp

text \<open>
  C9. A position is closed at the broker at most once per request. Over any number of closes, flattens
  and recoveries, with every other process acting at any point of them and whatever the broker answers,
  no request identifier is sent twice, and every close that was sent has its durable claim with exactly
  the symbol, direction and quantity of the order.
\<close>

theorem close_sent_once:
  assumes "fresh_desk st0" and "close_service world st0 calls st"
  shows "distinct (map pc_client_order_id calls) \<and> (\<forall>r \<in> set calls. claimed_for st r)"
  using closing_inv [OF close_service_closing [OF assms(2)] fresh_desk_inv [OF assms(1)]] by blast

subsection \<open>What an answer can settle\<close>

text \<open>A request is completed only on a confirmed fill of its quantity; an exception leaves it active.\<close>

lemma completed_needs_fill: "answer_status c r = ''completed'' \<Longrightarrow> fill_confirmed c r"
  by (auto simp: answer_status_def Let_def split: if_split_asm)

lemma exception_stays_unknown:
  "answer_status c (uncertain_close t) = ''unknown''" and "answer_detail ''unknown'' (uncertain_close t) \<noteq> Inl f"
  by (simp_all add: answer_status_def uncertain_close_def answer_detail_def text_set_def)

subsection \<open>An example\<close>

definition demo_position_held :: broker_position where
  "demo_position_held = \<lparr>b_symbol = ''TSLA'', b_asset_class = EQUITY, b_direction = LONG, b_quantity = Num 5, b_entry_price = Num 200,
     b_current_price = None\<rparr>"

definition demo_close_turn :: close_turn where
  "demo_close_turn = \<lparr>ct_meanwhile = \<lambda>_ s. s, ct_fresh = new_id, ct_now = 0, ct_authoritative = True,
     ct_positions = Inr [demo_position_held], ct_lookup = \<lambda>_. Inr None, ct_submit = \<lambda>_. Inl (''TimeoutError'', []),
     ct_steps = \<lambda>_. [''cancel_requested'']\<rparr>"

lemma demo_close_turn_ok: "close_turn_ok world demo_close_turn"
  by (simp add: close_turn_ok_def demo_close_turn_def new_id_unused)

definition demo_close_sent :: position_close_request where
  "demo_close_sent = \<lparr>pc_symbol = ''TSLA'', pc_direction = LONG, pc_quantity = Num 5, pc_client_order_id = ''close-n'',
     pc_entry_order_id = None, pc_allow_queued = False\<rparr>"

lemma demo_flatten: "\<exists>s' out. flatten demo_close_turn demo_desk = (s', [demo_close_sent], out)"
proof -
  let ?s = "record_audit ''flatten'' None [(''phase'', ''started'')] demo_desk"
  have id: "new_id ?s = ''n''" by (simp add: new_id_def demo_desk_def record_audit_def)
  have tracked: "get_active_positions demo_desk = []"
    by (simp add: get_active_positions_def demo_desk_def demo_signal_def EXECUTED_def)
  have "\<exists>s1 c. claim_close_request (close_claim demo_position_held None ''close-n'') ''n'' 0 ?s = Ok (s1, True, c) \<and> cr_id c = ''close-n''"
    by (simp add: claim_close_request_def close_claim_def demo_position_held_def get_close_request_def demo_desk_def
        unresolved_cancellation_on_def any_signal_def demo_signal_def SUBMITTING_def record_audit_def Let_def)
  then obtain s1 c where c: "claim_close_request (close_claim demo_position_held None ''close-n'') ''n'' 0 ?s = Ok (s1, True, c)" "cr_id c = ''close-n''"
    by blast
  have m: "mk_close_request demo_position_held ''close-n'' None False = Inr demo_close_sent"
    by (simp add: mk_close_request_def demo_position_held_def demo_close_sent_def zero_pyfloat_def)
  have "recover_closes demo_close_turn demo_desk = demo_desk"
    by (simp add: recover_closes_def active_close_requests_def demo_desk_def)
  moreover have "\<exists>s' out. close_one demo_close_turn demo_position_held None False None ?s = (s', [demo_close_sent], out)"
    using c m by (auto simp: close_one_def demo_close_turn_def id Let_def split: prod.split)
  then obtain s' out where "close_one demo_close_turn demo_position_held None False None ?s = (s', [demo_close_sent], out)" by blast
  moreover from this have "flatten_one demo_close_turn [] demo_position_held ?s = (s', [demo_close_sent], out)"
    by (simp add: flatten_one_def owner_of_def)
  moreover have "ct_meanwhile demo_close_turn i x = x" "ct_authoritative demo_close_turn"
    "ct_positions demo_close_turn = Inr [demo_position_held]" for i x by (simp_all add: demo_close_turn_def)
  ultimately show ?thesis by (simp add: flatten_def tracked Let_def)
qed

theorem close_sent_once_witness:
  "\<exists>st :: wf_state. close_service demo_world demo_desk [demo_close_sent] st \<and> claimed_for st demo_close_sent"
proof -
  obtain s' out where "flatten demo_close_turn demo_desk = (s', [demo_close_sent], out)" using demo_flatten by blast
  then have "close_service demo_world demo_desk ([] @ [demo_close_sent]) s'"
    by (rule close_service.flattens [OF close_service.begins demo_close_turn_ok])
  then have run: "close_service demo_world demo_desk [demo_close_sent] s'" by simp
  then show ?thesis using close_sent_once [OF demo_fresh run] by auto
qed

text \<open>
  The store's guard compares the stored contract with the broker's symbol as they are, while the service
  compares them without the slash of a future: a close of \<open>MES\<close> is granted while an entry of \<open>/MES\<close>
  is being submitted.
\<close>

definition futures_desk :: wf_state where
  "futures_desk = demo_desk\<lparr>wf_signals := [demo_signal\<lparr>sg_status := ''SUBMITTING'',
     sg_alpha := (sg_alpha demo_signal)\<lparr>sg_contract := ''/MES''\<rparr>\<rparr>]\<rparr>"

lemma close_guard_misses_futures:
  "broker_symbol (hd (wf_signals futures_desk)) = ''MES'' \<and> sg_status (hd (wf_signals futures_desk)) = SUBMITTING
    \<and> (\<exists>st c. claim_close_request (close_claim (demo_position_held\<lparr>b_symbol := ''MES''\<rparr>) None ''close-1'') ''n1'' 0 futures_desk = Ok (st, True, c))"
  by (simp add: broker_symbol_def strip_slash_def futures_desk_def demo_desk_def demo_signal_def SUBMITTING_def str_eval
      claim_close_request_def close_claim_def demo_position_held_def get_close_request_def unresolved_cancellation_on_def any_signal_def)

end
