(* ===== verification/Lifetime_Safety.thy ===== *)
theory Lifetime_Safety
  imports Desk_Safety
begin

text \<open>
  Deadlines act on exact evidence only: when a resting entry is cancelled or a position is closed for
  its age, what a claimed cancellation has checked, and what settles it.
\<close>

subsection \<open>Assessment\<close>

lemma andr_True_iff: "andr a b = Ok True \<longleftrightarrow> a = Ok True \<and> b = Ok True"
  by (auto simp: andr_def bindr_Inr_iff split: if_split_asm)

lemma allr_True_iff: "allr p xs = Ok True \<longleftrightarrow> (\<forall>x \<in> set xs. p x = Ok True)"
proof -
  have "bindr (p x) (\<lambda>b. Ok (\<not> b)) = Ok False \<longleftrightarrow> p x = Ok True" for x by (cases "p x") auto
  moreover have "allr p xs = Ok True \<longleftrightarrow> anyr (\<lambda>x. bindr (p x) (\<lambda>b. Ok (\<not> b))) xs = Ok False"
    by (cases "anyr (\<lambda>x. bindr (p x) (\<lambda>b. Ok (\<not> b))) xs") (auto simp: allr_def)
  ultimately show ?thesis by (simp add: anyr_False_iff)
qed

lemma holding_close:
  assumes "holding_decision ny utc policy o1 now sessions = Ok d" "ld_action d \<in> {CancelEntry, ClosePosition}"
  shows "ld_action d = ClosePosition \<and> (\<exists>t. ld_deadline d = Some t \<and> t \<le> now) \<and> has_holding_deadline policy"
proof (cases policy)
  case (SessionLifetime p)
  obtain t where t: "o_filled_at o1 = Some t" "t \<le> now"
    using assms by (auto simp: holding_decision_def decision_def Let_def not_less split: option.split_asm if_split_asm)
  obtain days v where "sessions = Some days" "session_holding_deadline ny utc p t days = Ok v"
    using assms t SessionLifetime by (auto simp: holding_decision_def decision_def Let_def bindr_Inr_iff split: option.split_asm)
  then show ?thesis
    using assms t SessionLifetime
    by (cases v) (auto simp: holding_decision_def decision_def Let_def has_holding_deadline_def split: if_split_asm)
qed (use assms in \<open>auto simp: holding_decision_def decision_def Let_def has_holding_deadline_def trade_holding_deadline_def
      split: option.split_asm if_split_asm\<close>)

lemma resting_review: "resting_deadline ny utc policy o1 now sessions = Inl d \<Longrightarrow> ld_action d = Review"
  by (auto simp: resting_deadline_def decision_def split: option.split_asm if_split_asm lifetime_policy.split_asm sum.split_asm)

text \<open>The broker order is the one submitted, read off the observation.\<close>

definition never_replaced :: "order_observation \<Rightarrow> bool" where
  "never_replaced o1 = ((o_replaces o1 = None \<or> o_replaces o1 = Some []) \<and> (o_replaced_by o1 = None \<or> o_replaced_by o1 = Some []))"

definition same_order :: "entry_identity \<Rightarrow> order_observation \<Rightarrow> bool" where
  "same_order i o1 = (ei_client_order_id i \<noteq> [] \<and> o_order_id o1 = ei_order_id i \<and> o_client_order_id o1 = ei_client_order_id i
     \<and> o_symbol o1 = ei_symbol i \<and> o_side o1 = ei_side i \<and> o_quantity o1 = ei_quantity i \<and> never_replaced o1)"

lemma wire_eq_same: "wire_eq a b = Ok True \<Longrightarrow> a = b"
  by (cases a; cases b) (auto simp: wire_eq_def Decimal_def bindr_Inr_iff)

lemma wire_is_same: "wire_is a n = Ok True \<longleftrightarrow> a = WDec n"
  by (cases a) (auto simp: wire_is_def Decimal_def bindr_Inr_iff)

lemma unreplaced_iff: "unreplaced o1 \<longleftrightarrow> never_replaced o1"
  by (auto simp: unreplaced_def never_replaced_def set_text_def split: option.splits)

lemma identity_same: "identity_matches i o1 = Ok True \<Longrightarrow> same_order i o1"
  using wire_eq_same [of "ei_quantity i" "o_quantity o1"]
  by (auto simp: identity_matches_def andr_True_iff same_order_def unreplaced_iff)

lemma deadline_evidence:
  assumes "assess_lifetime ny utc policy identity o1 now sessions = Ok d" and "ld_action d \<in> {CancelEntry, ClosePosition}"
  shows "identity_matches identity o1 = Ok True \<and> (\<exists>t. ld_deadline d = Some t \<and> t \<le> now)
    \<and> (\<exists>q f. o_quantity o1 = WDec q \<and> o_filled_quantity o1 = WDec f \<and> 0 < q
         \<and> (if ld_action d = CancelEntry then f = 0 \<and> o_status o1 \<in> set WORKING_ENTRY
              \<and> (\<exists>due. resting_deadline ny utc policy o1 now sessions = Inr (Some due) \<and> due \<le> now)
            else f = q \<and> o_status o1 = ''filled'' \<and> has_holding_deadline policy))"
proof -
  obtain q f same where q: "Decimal (o_quantity o1) = Ok q" and f: "Decimal (o_filled_quantity o1) = Ok f"
    and same: "identity_matches identity o1 = Ok same"
    using assms(1) by (auto simp: assess_lifetime_def bindr_Inr_iff Let_def)
  have ok: "same \<and> xfinite q \<and> xfinite f \<and> 0 \<le> xval f \<and> xval f \<le> xval q \<and> 0 < xval q"
    using assms q f same by (auto simp: assess_lifetime_def Let_def decision_def not_le split: if_split_asm)
  then have w: "o_quantity o1 = WDec (xval q)" "o_filled_quantity o1 = WDec (xval f)"
    using q f by (cases q; cases f; auto simp: Decimal_def split: wire.split_asm)+
  let ?rest = "resting_deadline ny utc policy o1 now sessions"
  have eq: "assess_lifetime ny utc policy identity o1 now sessions =
    (if xval f = xval q \<and> o_status o1 = ''filled'' then holding_decision ny utc policy o1 now sessions
     else if xval f \<noteq> 0
     then Ok (case (policy, o_status o1 = ''partially_filled'', ?rest) of
               (NativeLifetime _, True, Inr (Some d)) \<Rightarrow>
                 if now < d then decision NoAction ''within_resting_lifetime'' (Some d)
                 else decision Review ''partial_entry_requires_protection_review'' None
             | _ \<Rightarrow> decision Review ''partial_entry_requires_protection_review'' None)
     else if o_status o1 \<in> set UNFILLED_TERMINAL then Ok (decision NoAction ''unfilled_terminal'' None)
     else if o_status o1 \<notin> set WORKING_ENTRY then Ok (decision Review ''unconfirmed_order_transition'' None)
     else Ok (case ?rest of
               Inl d \<Rightarrow> d
             | Inr None \<Rightarrow> decision NoAction ''resting_lifetime_disabled'' None
             | Inr (Some d) \<Rightarrow> decision (if now \<ge> d then CancelEntry else NoAction) ''resting_lifetime'' (Some d)))"
    using ok unfolding assess_lifetime_def q f same by (simp add: Let_def not_le)
  show ?thesis
  proof (cases "xval f = xval q \<and> o_status o1 = ''filled''")
    case True
    then show ?thesis using assms eq holding_close [of ny utc policy o1 now sessions d] w ok same by auto
  next
    case False
    then have "xval f = 0 \<and> o_status o1 \<in> set WORKING_ENTRY \<and> ld_action d = CancelEntry
        \<and> (\<exists>t. ld_deadline d = Some t \<and> t \<le> now) \<and> (\<exists>due. ?rest = Inr (Some due) \<and> due \<le> now)"
      using assms resting_review [of ny utc policy o1 now sessions] unfolding eq
      by (auto simp: decision_def split: if_split_asm sum.split_asm option.split_asm prod.split_asm lifetime_policy.split_asm bool.split_asm)
    then show ?thesis using w ok same by auto
  qed
qed

text \<open>
  C34. A deadline acts only when it has passed and on the exact order. An assessment asks to cancel an
  entry only if the broker order is the one submitted (identifiers, symbol, side and quantity, not
  replaced), is working and has no fill at all; it asks to close a position only if that order is
  completely filled and the policy has a holding deadline; and in both cases the deadline it names is
  not in the future.
\<close>

theorem deadlines_act_on_exact_evidence:
  assumes "assess_lifetime ny utc policy identity o1 now sessions = Ok d" and "ld_action d \<in> {CancelEntry, ClosePosition}"
  shows "identity_matches identity o1 = Ok True \<and> (\<exists>t. ld_deadline d = Some t \<and> t \<le> now)
    \<and> (\<exists>q f. o_quantity o1 = WDec q \<and> o_filled_quantity o1 = WDec f \<and> 0 < q
         \<and> (if ld_action d = CancelEntry then f = 0 \<and> o_status o1 \<in> set WORKING_ENTRY
            else f = q \<and> o_status o1 = ''filled'' \<and> has_holding_deadline policy))"
proof -
  obtain q f where "identity_matches identity o1 = Ok True" "\<exists>t. ld_deadline d = Some t \<and> t \<le> now"
      "o_quantity o1 = WDec q" "o_filled_quantity o1 = WDec f" "0 < q"
      "if ld_action d = CancelEntry then f = 0 \<and> o_status o1 \<in> set WORKING_ENTRY
            else f = q \<and> o_status o1 = ''filled'' \<and> has_holding_deadline policy"
    using deadline_evidence [OF assms] by (auto split: if_split_asm)
  then show ?thesis by blast
qed

subsection \<open>Claiming a cancellation\<close>

lemma notify_items: "\<exists>ws. wf_items (notify key kind args fresh now st) = wf_items st @ ws"
  by (auto simp: add_notification_def add_item_def split: option.split)

text \<open>
  What a claim has to find. At the broker: the exact order, working, with no fill. Of the desk: the signal
  executed under that order and without a fill time, and an accepted entry item of the signal whose request
  carried the order's client identifier and whose answer carried its broker identifier. For every order of
  the group: a journaled view with no fill, not replaced, of the symbol and quantity.
\<close>

definition resting_order :: "entry_identity \<Rightarrow> order_observation \<Rightarrow> bool" where
  "resting_order i o1 = (same_order i o1 \<and> o_filled_quantity o1 = WDec 0
     \<and> list_ex (\<lambda>x. o_status o1 = x) [''new'', ''accepted'', ''pending_new'', ''accepted_for_bidding'', ''done_for_day''])"

definition submitted_by :: "int \<Rightarrow> entry_identity \<Rightarrow> work_item \<Rightarrow> bool" where
  "submitted_by sid i e = (w_kind e = Entry \<and> w_dedup e = [FInt sid] \<and> w_status e = Accepted
     \<and> (\<exists>r. item_request e = Some r \<and> rq_client_order_id r = Some (ei_client_order_id i))
     \<and> (\<exists>a. w_result e = EntryResult a \<and> or_order_id a = Some (ei_order_id i)))"

definition intact_leg :: "entry_identity \<Rightarrow> wf_state \<Rightarrow> order_observation \<Rightarrow> bool" where
  "intact_leg i st observed = (\<exists>current. view_of (o_order_id observed) st = Some current
     \<and> o_filled_quantity current = WDec 0 \<and> never_replaced current
     \<and> o_symbol current = ei_symbol i \<and> o_quantity current = ei_quantity i)"

abbreviation cancels_of :: "int \<Rightarrow> wf_state \<Rightarrow> work_item list" where
  "cancels_of sid st \<equiv> filter (\<lambda>w. w_kind w = EntryCancel \<and> w_dedup w = [FInt sid]) (wf_items st)"

lemma legs_intact:
  "legs_refusal operator i st orders = Ok None \<Longrightarrow> list_all (intact_leg i st) orders"
proof (induction orders)
  case (Cons observed rest)
  obtain current where v: "view_of (o_order_id observed) st = Some current" and c: "changed_leg i current = Ok False"
    and rest: "legs_refusal operator i st rest = Ok None"
    using Cons.prems by (auto simp: bindr_Inr_iff split: option.split_asm if_split_asm)
  have no: "bindr r (\<lambda>e. Ok (\<not> e)) = Ok False \<longleftrightarrow> r = Ok True" for r :: "bool result" by (cases r) auto
  have "wire_is (o_filled_quantity current) 0 = Ok True" "unreplaced current" "o_symbol current = ei_symbol i"
    "wire_eq (o_quantity current) (ei_quantity i) = Ok True"
    using c by (auto simp: changed_leg_def orr_False_iff no)
  then have "intact_leg i st observed"
    using v wire_eq_same by (auto simp: intact_leg_def wire_is_same unreplaced_iff)
  then show ?case using Cons.IH [OF rest] by simp
qed simp

lemma owner_submitted:
  assumes "owns_entry i (accepted_entry sid st)"
  shows "\<exists>e \<in> set (wf_items st). submitted_by sid i e"
proof -
  obtain e where e: "accepted_entry sid st = Some e" "owns_entry i (Some e)"
    using assms by (cases "accepted_entry sid st") (auto simp: owns_entry_def)
  then have "submitted_by sid i e" "e \<in> set (wf_items st)"
    using find_item_Some [OF e(1) [unfolded accepted_entry_def]]
    by (auto simp: owns_entry_def submitted_by_def split: option.split_asm item_result.split_asm)
  then show ?thesis by blast
qed

lemma operator_resting: "resting_entry_refusal i o1 = Ok None \<Longrightarrow> resting_order i o1"
  using identity_same [of i o1]
  by (auto simp: resting_entry_refusal_def bindr_Inr_iff wire_is_same resting_order_def WORKING_ENTRY_def split: if_split_asm)

lemma due_resting:
  assumes "assess_lifetime ny utc policy i o1 now sessions = Ok d" "ld_action d = CancelEntry"
  shows "resting_order i o1 \<and> (\<exists>due. resting_deadline ny utc policy o1 now sessions = Inr (Some due) \<and> due \<le> now)"
  using deadline_evidence [OF assms(1)] assms(2) identity_same [of i o1]
  by (auto simp: resting_order_def WORKING_ENTRY_def)

lemma notify_cancels [simp]: "cancels_of sid (notify key kind args fresh now st) = cancels_of sid st"
  by (auto simp: add_notification_def add_item_def split: option.split)

lemma claim_stored:
  assumes "claim_cancel et_date operator claim cid g now st = (st', w)"
  shows "w_status w = Submitting \<and> w_payload w = CancelPayload claim
    \<and> cancels_of (cc_signal_id claim) st' = cancels_of (cc_signal_id claim) st @ [w]"
proof -
  define st2 where "st2 = add_item w (appended (cancel_stream cid) ''entry_cancel_requested'' (PCancelRequested claim) st)"
  have "st' = st2 \<or> (\<exists>key kd args. st' = notify key kd args g now st2)"
    and w: "w_status w = Submitting" "w_kind w = EntryCancel" "w_dedup w = [FInt (cc_signal_id claim)]" "w_payload w = CancelPayload claim"
    using assms by (auto simp: claim_cancel_def Let_def st2_def split: if_split_asm)
  then have "cancels_of (cc_signal_id claim) st' = cancels_of (cc_signal_id claim) st2" by auto
  moreover have "cancels_of (cc_signal_id claim) st2 = cancels_of (cc_signal_id claim) st @ [w]"
    using w by (simp add: st2_def add_item_def)
  ultimately show ?thesis using w by simp
qed

text \<open>
  C15. A cancellation is claimed once, and only on exact evidence. The signal had no cancellation and now
  has exactly this one, under submission, with this order group; it is executed under the claimed order
  and has no fill; its accepted entry item submitted exactly that order; the journaled view of the order
  is that very order, working and with nothing filled, and every leg of its group is unfilled and
  unchanged; no close of the symbol is active. A deadline cancel needs besides that the signal's stored
  policy is the claimed one and that its resting deadline has passed; an operator needs no deadline.
  While the claim is unresolved no other entry is queued or submitted.
\<close>

theorem cancellation_claimed_on_evidence:
  assumes "begin_cancel ny utc et_date cause sid identity orders lifetime t sessions f g now st = Ok (st', Inr w)"
  shows "cancels_of sid st = [] \<and> cancels_of sid st' = [w] \<and> w_status w = Submitting \<and> unresolved_cancellation st'
    \<and> w_payload w = CancelPayload \<lparr>cc_signal_id = sid, cc_cause = cause, cc_identity = identity, cc_lifetime = lifetime,
        cc_order_ids = map o_order_id orders, cc_before = orders\<rparr>
    \<and> (\<exists>s \<in> set (wf_signals st). sg_id s = sid \<and> sg_status s = ''EXECUTED'' \<and> sg_executed_at s = None
         \<and> sg_broker_order_id s = Some (ei_order_id identity)
         \<and> (cause = ''operator'' \<or> lifetime \<noteq> None \<and> entry_lifetime_of (sg_policies s) = Ok lifetime))
    \<and> (\<exists>e \<in> set (wf_items st). submitted_by sid identity e)
    \<and> (\<exists>parent. view_of (ei_order_id identity) st = Some parent \<and> resting_order identity parent
         \<and> (cause = ''operator'' \<or> (\<exists>policy due. lifetime = Some policy
              \<and> resting_deadline ny utc policy parent t sessions = Inr (Some due) \<and> due \<le> t)))
    \<and> list_all (intact_leg identity st) orders
    \<and> \<not> list_ex (\<lambda>c. active_close c \<and> cr_symbol c = ei_symbol identity) (wf_closes st)"
proof -
  let ?op = "cause = ''operator''"
  let ?claim = "\<lparr>cc_signal_id = sid, cc_cause = cause, cc_identity = identity, cc_lifetime = lifetime,
      cc_order_ids = map o_order_id orders, cc_before = orders\<rparr>"
  have r: "cancel_refusal ny utc ?op sid identity orders lifetime t sessions st = Ok None"
    and c: "claim_cancel et_date ?op ?claim (cancel_id f) g now st = (st', w)"
    using assms by (auto simp: begin_cancel_def Let_def bindr_Inr_iff split: option.split_asm prod.split_asm)
  obtain s where s: "cancel_of sid st = None" "find_signal (\<lambda>s. sg_id s = sid) st = Some s" "resting_signal identity s"
    using r by (auto simp: cancel_refusal_def split: if_split_asm option.split_asm)
  obtain stored where stored: "lifetime_fence ?op s = Ok stored" "?op \<or> stored \<noteq> None \<and> stored = lifetime"
      "owns_entry identity (accepted_entry sid st)"
    using r s by (auto simp: cancel_refusal_def bindr_Inr_iff split: if_split_asm)
  obtain parent where p: "view_of (ei_order_id identity) st = Some parent" "parent_refusal ny utc ?op stored identity parent t sessions = Ok None"
      "legs_refusal ?op identity st orders = Ok None"
      "\<not> list_ex (\<lambda>c. active_close c \<and> cr_symbol c = ei_symbol identity) (wf_closes st)"
    using r s stored by (auto simp: cancel_refusal_def bindr_Inr_iff split: if_split_asm option.split_asm)
  have "?op \<or> lifetime \<noteq> None \<and> entry_lifetime_of (sg_policies s) = Ok lifetime"
    using stored by (auto simp: lifetime_fence_def)
  then have signal: "\<exists>s \<in> set (wf_signals st). sg_id s = sid \<and> sg_status s = ''EXECUTED'' \<and> sg_executed_at s = None
      \<and> sg_broker_order_id s = Some (ei_order_id identity)
      \<and> (?op \<or> lifetime \<noteq> None \<and> entry_lifetime_of (sg_policies s) = Ok lifetime)"
    using find_Some_props [OF s(2) [unfolded find_signal_def]] s(3) by (auto simp: resting_signal_def EXECUTED_def)
  have parent: "resting_order identity parent \<and> (?op \<or> (\<exists>policy due. lifetime = Some policy
      \<and> resting_deadline ny utc policy parent t sessions = Inr (Some due) \<and> due \<le> t))"
  proof (cases ?op)
    case True
    then show ?thesis using p(2) operator_resting [of identity parent] by (simp add: parent_refusal_def)
  next
    case False
    then obtain policy d where d: "lifetime = Some policy" "assess_lifetime ny utc policy identity parent t sessions = Ok d" "ld_action d = CancelEntry"
      using p(2) stored(2) by (auto simp: parent_refusal_def bindr_Inr_iff split: option.split_asm if_split_asm)
    then show ?thesis using due_resting [OF d(2,3)] by blast
  qed
  have none: "cancels_of sid st = []" using s(1) by (auto simp: cancel_of_def find_item_def find_None_iff filter_empty_conv)
  have one: "cancels_of sid st' = [w]" and w: "w_status w = Submitting" "w_payload w = CancelPayload ?claim"
    using claim_stored [OF c] none by simp_all
  have "w \<in> set (cancels_of sid st')" unfolding one by simp
  then have "unresolved_cancellation st'" using w(1) by (auto simp: unresolved_cancellation_def list_ex_iff)
  then show ?thesis
    using none one w signal owner_submitted [OF stored(3)] p(1,4) parent legs_intact [OF p(3)] by blast
qed

subsection \<open>Settling it\<close>

lemma halt_halts: "trading_halted (halt why st)"
  by (simp add: trading_halted_def halt_def str_eval)

lemma halted_frame [simp]:
  "trading_halted (notify key kind args fresh now st) = trading_halted st"
  "trading_halted (fst (wf_append stream k payload ky st)) = trading_halted st"
  using wf_append_fst [of stream k payload ky st]
  by (auto simp: add_notification_def trading_halted_def add_item_def split: option.split)

lemma cancel_complete_evidence:
  assumes "cancel_complete claim eff = Ok True"
  shows "(\<exists>parent \<in> set eff. identity_matches (cc_identity claim) parent = Ok True)
    \<and> set (cc_order_ids claim) \<subseteq> o_order_id ` set eff
    \<and> (\<forall>x \<in> set eff. o_status x \<in> set UNFILLED_TERMINAL \<and> wire_is (o_filled_quantity x) 0 = Ok True \<and> unreplaced x)"
proof -
  obtain parent where p: "last_order (ei_order_id (cc_identity claim)) eff = Some parent"
      "identity_matches (cc_identity claim) parent = Ok True" "set (cc_order_ids claim) \<subseteq> o_order_id ` set eff"
      "allr ended_unfilled eff = Ok True"
    using assms by (auto simp: cancel_complete_def andr_True_iff split: option.split_asm)
  have "parent \<in> set eff" using p(1) find_Some_props by (fastforce simp: last_order_def)
  then show ?thesis using p(2-4) by (auto simp: allr_True_iff ended_unfilled_def andr_True_iff)
qed

lemma settle_cancel_effect:
  assumes st': "st' = settle_cancel et_date row claim (verdict_status c ff) outcome c ff f now st"
    and row: "row \<in> set (wf_items st)"
  shows "row\<lparr>w_status := verdict_status c ff, w_result := CancelResult outcome\<rparr> \<in> set (wf_items st')"
    "\<not> c \<and> \<not> ff \<Longrightarrow> trading_halted st'"
    "wf_signals st' = (if c then map (\<lambda>s. if sg_id s = cc_signal_id claim \<and> resting_signal (cc_identity claim) s then s\<lparr>sg_status := FAILED\<rparr> else s)
        (wf_signals st) else wf_signals st)"
proof -
  let ?row = "row\<lparr>w_status := verdict_status c ff, w_result := CancelResult outcome\<rparr>"
  let ?p = "\<lambda>s. sg_id s = cc_signal_id claim \<and> resting_signal (cc_identity claim) s"
  define st2 where "st2 = appended (cancel_stream (w_id row)) ''entry_cancel_resolved'' (PCancelResolved (verdict_status c ff) outcome)
    (update_item (w_id row) (\<lambda>_. ?row) st)"
  define st4 where "st4 = (if \<not> c \<and> \<not> ff then halt [Lit ''Unconfirmed entry cancellation '', Lit (w_id row), Lit ''; inspect fills/protection before resuming'']
      (if c then update_signals ?p (\<lambda>s. s\<lparr>sg_status := FAILED\<rparr>) st2 else st2)
    else if c then update_signals ?p (\<lambda>s. s\<lparr>sg_status := FAILED\<rparr>) st2 else st2)"
  have out: "st' = st4 \<or> (\<exists>key kd args. st' = notify key kd args f now st4)"
    unfolding st' settle_cancel_def Let_def st2_def [symmetric] st4_def by auto
  have "?row \<in> set (wf_items st2)" using row by (force simp: st2_def update_item_def)
  moreover have "wf_items st4 = wf_items st2" by (simp add: st4_def halt_def update_signals_def)
  moreover have "\<exists>ws. wf_items st' = wf_items st4 @ ws" using out notify_items [of _ _ _ f now st4] by auto
  ultimately show "?row \<in> set (wf_items st')" by auto
  show "trading_halted st'" if "\<not> c \<and> \<not> ff" using out that by (auto simp: st4_def halt_halts)
  have "wf_signals st' = wf_signals st4" using out by auto
  then show "wf_signals st' = (if c then map (\<lambda>s. if ?p s then s\<lparr>sg_status := FAILED\<rparr> else s) (wf_signals st) else wf_signals st)"
    by (simp add: st4_def st2_def update_signals_def)
qed


subsection \<open>Instances\<close>

definition demo_identity :: entry_identity where
  "demo_identity = \<lparr>ei_order_id = ''o1'', ei_client_order_id = ''c1'', ei_symbol = ''SPY'', ei_side = ''buy'', ei_quantity = WDec 10\<rparr>"

lemma demo_identity_matches:
  "identity_matches demo_identity (demo_order\<lparr>o_status := x, o_updated_at := y\<rparr>) = Ok True" "identity_matches demo_identity demo_order = Ok True"
  by (simp_all add: identity_matches_def demo_identity_def demo_order_def wire_eq_def Decimal_def unreplaced_def set_text_def)

definition demo_trade_policy :: trade_policy where
  "demo_trade_policy = \<lparr>tp_resting_seconds = Some 60, tp_holding_seconds = None, tp_version = ''1''\<rparr>"

lemma demo_due:
  "assess_lifetime (\<lambda>t. t) (\<lambda>t. t) (TradeLifetime demo_trade_policy) demo_identity demo_order 60000005 None
     = Ok (decision CancelEntry ''resting_lifetime'' (Some 60000005))"
  by (simp add: assess_lifetime_def demo_identity_matches)
    (simp add: demo_order_def Decimal_def resting_deadline_def trade_entry_deadline_def demo_trade_policy_def elapsed_deadline_def
      UNFILLED_TERMINAL_def WORKING_ENTRY_def SECOND_def)

theorem deadlines_act_on_exact_evidence_witness:
  "identity_matches demo_identity demo_order = Ok True \<and> (\<exists>f. o_filled_quantity demo_order = WDec f \<and> f = 0)"
  using deadlines_act_on_exact_evidence [OF demo_due] by (simp add: decision_def) blast

text \<open>An accepted entry resting at the broker, its operator cancellation, and the broker's confirmation.\<close>

definition demo_resting :: wf_state where
  "demo_resting = demo_desk\<lparr>
     wf_signals := [demo_signal\<lparr>sg_status := ''EXECUTED'', sg_broker_order_id := Some ''o1''\<rparr>],
     wf_items := [demo_item\<lparr>w_status := Accepted, w_payload := EntryPayload (demo_request\<lparr>rq_client_order_id := Some ''c1''\<rparr>) ''tap'',
       w_result := EntryResult \<lparr>or_success = True, or_order_id = Some ''o1'', or_fill_price = None, or_error_message = None,
         or_submission_uncertain = False\<rparr>\<rparr>],
     wf_orders := [(''o1'', 0, demo_order)], wf_next := 1\<rparr>"

lemma demo_cancel_allowed:
  "cancel_refusal (\<lambda>t. t) (\<lambda>t. t) True 7 demo_identity [demo_order] None 9 None demo_resting = Ok None"
proof -
  have "resting_entry_refusal demo_identity demo_order = Ok None"
    by (simp add: resting_entry_refusal_def demo_identity_matches)
      (simp add: demo_order_def wire_is_def Decimal_def WORKING_ENTRY_def)
  moreover have "changed_leg demo_identity demo_order = Ok False"
    by (simp add: changed_leg_def demo_order_def wire_is_def wire_eq_def Decimal_def unreplaced_def set_text_def demo_identity_def)
  moreover have "view_of ''o1'' demo_resting = Some demo_order" by (simp add: view_of_def demo_resting_def)
  ultimately show ?thesis
    by (simp add: cancel_refusal_def cancel_of_def find_item_def find_signal_def demo_resting_def demo_desk_def demo_item_def demo_signal_def
        resting_signal_def demo_identity_def EXECUTED_def lifetime_fence_def accepted_entry_def owns_entry_def item_request_def demo_request_def
        parent_refusal_def view_of_def demo_order_def)
qed

definition demo_cancel_claim :: cancel_claim where
  "demo_cancel_claim = \<lparr>cc_signal_id = 7, cc_cause = ''operator'', cc_identity = demo_identity, cc_lifetime = None,
     cc_order_ids = [''o1''], cc_before = [demo_order]\<rparr>"

definition demo_cancel_item :: work_item where
  "demo_cancel_item = \<lparr>w_id = ''cancel-a'', w_sequence = 1, w_dedup = [FInt 7], w_kind = EntryCancel, w_status = Submitting,
     w_payload = CancelPayload demo_cancel_claim, w_result = NoResult, w_attempts = 1, w_token = None, w_lease_until = None,
     w_available_at = 9, w_created_at = 9\<rparr>"

lemma demo_begin_cancel:
  "\<exists>st'. begin_cancel (\<lambda>t. t) (\<lambda>t. t) (\<lambda>t. t) ''operator'' 7 demo_identity [demo_order] None 9 None ''a'' ''n'' 9 demo_resting
     = Ok (st', Inr demo_cancel_item)"
  by (simp add: begin_cancel_def demo_cancel_allowed claim_cancel_def Let_def)
    (simp add: demo_cancel_item_def demo_cancel_claim_def cancel_id_def demo_order_def demo_resting_def)

theorem cancellation_claimed_on_evidence_witness: "\<exists>st'. unresolved_cancellation st' \<and> cancels_of 7 st' = [demo_cancel_item]"
proof -
  obtain st' where "begin_cancel (\<lambda>t. t) (\<lambda>t. t) (\<lambda>t. t) ''operator'' 7 demo_identity [demo_order] None 9 None ''a'' ''n'' 9 demo_resting
     = Ok (st', Inr demo_cancel_item)" using demo_begin_cancel by blast
  from cancellation_claimed_on_evidence [OF this] show ?thesis by blast
qed

definition demo_cancelling :: wf_state where
  "demo_cancelling = demo_resting\<lparr>wf_items := wf_items demo_resting @ [demo_cancel_item],
     wf_orders := [(''o1'', 0, demo_order\<lparr>o_status := ''canceled'', o_updated_at := 8\<rparr>)]\<rparr>"

lemma demo_resolve_cancel:
  "\<exists>st'. resolve_cancel (\<lambda>t. t) ''cancel-a'' demo_cancel_claim [] None None False ''n'' 9 demo_cancelling = Ok (st', True) \<and> st' \<noteq> demo_cancelling"
proof -
  let ?o = "demo_order\<lparr>o_status := ''canceled'', o_updated_at := 8\<rparr>"
  have eff: "effective_orders [''o1''] [] demo_cancelling = [?o]"
    by (simp add: effective_orders_def view_of_def demo_cancelling_def map_filter_simps)
  have "cancel_verdict demo_cancel_claim [?o] [] None r = Ok (True, False)" for r
    by (simp add: cancel_verdict_def cancel_complete_def demo_cancel_claim_def last_order_def demo_identity_matches)
      (simp add: demo_identity_def demo_order_def allr_def ended_unfilled_def wire_is_def Decimal_def unreplaced_def set_text_def UNFILLED_TERMINAL_def)
  moreover have row: "find_item (\<lambda>w. w_id w = ''cancel-a'') demo_cancelling = Some demo_cancel_item"
    by (simp add: find_item_def demo_cancelling_def demo_cancel_item_def demo_resting_def demo_item_def command_id_def)
  moreover have "\<not> cancel_settled demo_cancel_item Accepted outcome True None" for outcome
    by (simp add: cancel_settled_def demo_cancel_item_def)
  ultimately have "resolve_cancel (\<lambda>t. t) ''cancel-a'' demo_cancel_claim [] None None False ''n'' 9 demo_cancelling
      = Ok (settle_cancel (\<lambda>t. t) demo_cancel_item demo_cancel_claim Accepted \<lparr>cx_reason = verdict_reason True False None, cx_orders = [?o],
          cx_transport_error = recorded_error (Some demo_cancel_item)\<rparr> True False ''n'' 9 demo_cancelling, True)"
    using eff by (simp add: resolve_cancel_def Let_def demo_cancel_claim_def verdict_status_def set_text_def)
  moreover have "wf_signals (settle_cancel (\<lambda>t. t) demo_cancel_item demo_cancel_claim (verdict_status True False) x True False ''n'' 9 demo_cancelling)
      \<noteq> wf_signals demo_cancelling" for x
    by (subst settle_cancel_effect(3) [OF refl])
      (simp_all add: demo_cancelling_def demo_resting_def demo_signal_def demo_cancel_claim_def resting_signal_def demo_identity_def status_defs)
  ultimately show ?thesis by (metis verdict_status_def)
qed


end
