(* ===== verification/Lifetime_Service.thy ===== *)
theory Lifetime_Service
  imports Close_Service Lifetime_Safety
begin

text \<open>
  The lifetime service (\<open>TradeLifetimeService\<close> of \<open>execution/lifetimes.py\<close>): the sweep over timed
  positions, the operator's cancel of a resting entry, and the recovery of cancellations. A cancellation
  is one DELETE behind a durable claim; afterwards the service only reads. Other processes act between
  the transactions; the broker, the calendar and the clocks are functions of the turn.
\<close>

subsection \<open>What a turn observes\<close>

text \<open>The fields of the execution configuration the service reads.\<close>

record lifetime_config =
  lifetime_evidence_review_after_failures :: int
  broker_request_timeout_seconds :: pyfloat
  close_cancel_timeout_seconds :: pyfloat

text \<open>
  \<open>lt_polled k\<close> is the broker's answer at the \<open>k\<close>-th poll and \<open>lt_polling k\<close> what others commit around
  it; \<open>lt_monotonic 0\<close> is read when polling starts and \<open>lt_monotonic (k + 1)\<close> at the \<open>k\<close>-th poll.
\<close>

record lifetime_turn =
  lt_meanwhile :: "nat \<Rightarrow> wf_state \<Rightarrow> wf_state"
  lt_polling :: "nat \<Rightarrow> wf_state \<Rightarrow> wf_state"
  lt_fresh :: "wf_state \<Rightarrow> nat \<Rightarrow> string"
  lt_clock :: "nat \<Rightarrow> int"
  lt_monotonic :: "nat \<Rightarrow> pyfloat"
  lt_read :: "string \<Rightarrow> failure + order_observation list"
  lt_polled :: "nat \<Rightarrow> failure + order_observation list"
  lt_delete :: "string \<Rightarrow> failure option"
  lt_calendar :: "(int \<Rightarrow> int \<Rightarrow> failure + calendar_day list) option"
  lt_session_open :: "failure + bool"
  lt_supports_cancel :: bool
  lt_scope :: string
  lt_sha256 :: "ftext \<Rightarrow> string"
  lt_close :: close_turn

text \<open>What the service keeps in memory: verdicts that are final, and consecutive failed reads.\<close>

record lifetime_memory =
  lm_checked :: "int list"
  lm_failures :: "(int \<times> int) list"

text \<open>The calendar days a policy's deadline counts.\<close>

definition sessions_for :: "desk_world \<Rightarrow> lifetime_turn \<Rightarrow> lifetime_policy \<Rightarrow> order_observation \<Rightarrow> failure + calendar_day list option" where
  "sessions_for world turn lifetime parent = (case lifetime of
     NativeLifetime _ \<Rightarrow>
       (case (lt_calendar turn, o_submitted_at parent) of
          (Some get_range, Some t) \<Rightarrow>
            let submitted = wall_date (dw_ny world t)
            in (case get_range submitted submitted of
                  Inl _ \<Rightarrow> Inr None
                | Inr days \<Rightarrow> Inr (Some (filter cd_is_trading_day days)))
        | _ \<Rightarrow> Inr None)
   | SessionLifetime p \<Rightarrow>
       (case o_filled_at parent of
          None \<Rightarrow> Inr None
        | Some t \<Rightarrow>
            (case lt_calendar turn of
               None \<Rightarrow> Inl (failure_of (RuntimeError (msg ''Session-counted lifetime requires a market calendar'')))
             | Some get_range \<Rightarrow>
                 let start = wall_date (dw_ny world t)
                 in (case get_range start (start + holding_calendar_span_days (sp_holding_sessions p)) of
                       Inl f \<Rightarrow> Inl f
                     | Inr days \<Rightarrow> Inr (Some (filter cd_is_trading_day days)))))
   | TradeLifetime _ \<Rightarrow> Inr None)"

text \<open>\<open>str\<close> of a stored quantity, and the identity of the order an accepted entry submitted.\<close>

definition wire_of_float :: "pyfloat \<Rightarrow> wire" where
  "wire_of_float x = (case x of Num r \<Rightarrow> WDec (repr_dec r) | PosInf \<Rightarrow> WInf True | NegInf \<Rightarrow> WInf False | NaN \<Rightarrow> WNaN)"

definition entry_identity_of :: "signal \<Rightarrow> wf_state \<Rightarrow> failure + entry_identity option" where
  "entry_identity_of s st = (case accepted_entry (sg_id s) st of
     None \<Rightarrow> Inr None
   | Some w \<Rightarrow>
       if (case w_result w of EntryResult r \<Rightarrow> or_order_id r | _ \<Rightarrow> None) \<noteq> sg_broker_order_id s then Inr None
       else case item_request w of
         None \<Rightarrow> Inl (failure_of (KeyError ''client_order_id''))
       | Some r \<Rightarrow>
           (case rq_side r of
              None \<Rightarrow> Inl (failure_of (AttributeError [Lit (quoted ''NoneType''), Lit '' object has no attribute '', Lit (quoted ''lower'')]))
            | Some side \<Rightarrow> Inr (Some \<lparr>ei_order_id = str_or (sg_broker_order_id s) [], ei_client_order_id = str_or (rq_client_order_id r) [],
                  ei_symbol = rq_symbol r, ei_side = lower side, ei_quantity = wire_of_float (rq_quantity r)\<rparr>)))"

definition holding_request_id :: "lifetime_turn \<Rightarrow> int \<Rightarrow> string \<Rightarrow> string" where
  "holding_request_id turn sid oid = ''hold-'' @ take 32 (lt_sha256 turn [Lit (lt_scope turn), Lit ''/'', FInt sid, Lit ''/'', Lit oid])"

subsection \<open>Recovery of a cancellation\<close>

text \<open>The exact read of a claimed group, journaled; any failure leaves no orders and a reason.\<close>

definition cancel_evidence ::
  "desk_world \<Rightarrow> lifetime_turn \<Rightarrow> nat \<Rightarrow> wf_state \<Rightarrow> wf_state \<times> order_observation list \<times> string option" where
  "cancel_evidence world turn k st = (case lt_polled turn k of
     Inl f \<Rightarrow> (st, [], Some (''lookup_failed:'' @ fst f))
   | Inr orders \<Rightarrow>
       (case observe_orders (dw_digest world) (lt_fresh turn st) (lt_clock turn k) orders st of
          Inl e \<Rightarrow> (st, [], Some (''lookup_failed:'' @ exc_name e))
        | Inr s \<Rightarrow> (s, orders, None)))"

definition in_flight :: "lifetime_config \<Rightarrow> int \<Rightarrow> work_item \<Rightarrow> bool" where
  "in_flight config now item =
     (total_seconds (now - w_created_at item) < broker_request_timeout_seconds config + close_cancel_timeout_seconds config)"

definition allow_pending :: "lifetime_config \<Rightarrow> lifetime_turn \<Rightarrow> work_item \<Rightarrow> bool \<Rightarrow> nat \<Rightarrow> bool" where
  "allow_pending config turn item owner_finished k =
     (owner_finished \<and> lt_monotonic turn (Suc k) < lt_monotonic turn 0 + close_cancel_timeout_seconds config
      \<or> \<not> owner_finished \<and> w_status item = Submitting \<and> in_flight config (lt_clock turn k) item)"

text \<open>One pass of the loop: the state, and whether the cancellation is resolved, or the exception.\<close>

definition poll_once ::
  "desk_world \<Rightarrow> lifetime_config \<Rightarrow> lifetime_turn \<Rightarrow> work_item \<Rightarrow> cancel_claim \<Rightarrow> bool \<Rightarrow> string option \<Rightarrow> nat \<Rightarrow> wf_state
     \<Rightarrow> wf_state \<times> (failure + bool)" where
  "poll_once world config turn item claim owner_finished transport_error k st =
     (case cancel_evidence world turn k (lt_polling turn (2 * k) st) of (s1, orders, why) \<Rightarrow>
        let s2 = lt_polling turn (2 * k + 1) s1
        in case resolve_cancel (dw_et_date world) (w_id item) claim orders why transport_error
                  (allow_pending config turn item owner_finished k) (lt_fresh turn s2 0) (lt_clock turn k) s2 of
             Inl e \<Rightarrow> (s2, Inl (failure_of e))
           | Inr (s3, resolved) \<Rightarrow> (s3, Inr resolved))"

text \<open>The loop may run for ever if the clock stands still; not returning is \<open>None\<close>.\<close>

partial_function (option) poll_cancel ::
  "desk_world \<Rightarrow> lifetime_config \<Rightarrow> lifetime_turn \<Rightarrow> work_item \<Rightarrow> cancel_claim \<Rightarrow> bool \<Rightarrow> string option \<Rightarrow> nat \<Rightarrow> wf_state
     \<Rightarrow> (wf_state \<times> failure option) option" where
  "poll_cancel world config turn item claim owner_finished transport_error k st =
     (case poll_once world config turn item claim owner_finished transport_error k st of
        (s, Inl f) \<Rightarrow> Some (s, Some f)
      | (s, Inr resolved) \<Rightarrow>
          if resolved \<or> \<not> owner_finished \<or> \<not> allow_pending config turn item owner_finished k then Some (s, None)
          else poll_cancel world config turn item claim owner_finished transport_error (Suc k) s)"

definition recover_cancel ::
  "desk_world \<Rightarrow> lifetime_config \<Rightarrow> lifetime_turn \<Rightarrow> work_item \<Rightarrow> bool \<Rightarrow> string option \<Rightarrow> wf_state \<Rightarrow> (wf_state \<times> failure option) option" where
  "recover_cancel world config turn item owner_finished transport_error st = (case w_payload item of
     CancelPayload claim \<Rightarrow> poll_cancel world config turn item claim owner_finished transport_error 0 st
   | _ \<Rightarrow> Some (st, Some (failure_of (KeyError ''identity''))))"

text \<open>Recovery of every unresolved cancellation, read-only at the broker; an exception ends it.\<close>

fun recover_cancels_each ::
  "desk_world \<Rightarrow> lifetime_config \<Rightarrow> (string \<Rightarrow> lifetime_turn) \<Rightarrow> work_item list \<Rightarrow> wf_state \<Rightarrow> (wf_state \<times> failure option) option" where
  "recover_cancels_each world config turns [] st = Some (st, None)"
| "recover_cancels_each world config turns (item # items) st =
     (case recover_cancel world config (turns (w_id item)) item False None st of
        None \<Rightarrow> None
      | Some (s, Some f) \<Rightarrow> Some (s, Some f)
      | Some (s, None) \<Rightarrow> recover_cancels_each world config turns items s)"

definition unresolved_cancels :: "wf_state \<Rightarrow> work_item list" where
  "unresolved_cancels st = list_work EntryCancel [Submitting, Unknown] 100 st"

definition recover_cancels ::
  "desk_world \<Rightarrow> lifetime_config \<Rightarrow> (string \<Rightarrow> lifetime_turn) \<Rightarrow> wf_state \<Rightarrow> (wf_state \<times> failure option) option" where
  "recover_cancels world config turns st = recover_cancels_each world config turns (unresolved_cancels st) st"

text \<open>
  The one DELETE of a claimed cancellation, and its recovery. Results carry the DELETEs that were sent,
  each as its signal and order.
\<close>

definition submit_cancel ::
  "desk_world \<Rightarrow> lifetime_config \<Rightarrow> lifetime_turn \<Rightarrow> int \<Rightarrow> work_item \<Rightarrow> entry_identity \<Rightarrow> wf_state
     \<Rightarrow> (wf_state \<times> (int \<times> string) list \<times> failure option) option" where
  "submit_cancel world config turn sid item identity st =
     (case recover_cancel world config turn item True (map_option fst (lt_delete turn (ei_order_id identity))) st of
        None \<Rightarrow> None
      | Some (s, out) \<Rightarrow> Some (s, [(sid, ei_order_id identity)], out))"

subsection \<open>The operator's cancel\<close>

record resting_cancel_result =
  rc_status :: string
  rc_reason :: "string option"
  rc_signal_id :: int
  rc_symbol :: "string option"
  rc_work_status :: "work_status option"
  rc_signal_status :: "string option"

text \<open>An executed row without a fill and without a broker order is still being submitted.\<close>

definition refused :: "signal \<Rightarrow> string \<Rightarrow> work_status option \<Rightarrow> resting_cancel_result" where
  "refused s why work_status =
     (let status = (if why = ''not_resting''
            then Some (if sg_status s = EXECUTED \<and> sg_executed_at s = None \<and> \<not> set_text (sg_broker_order_id s) then SUBMITTING else sg_status s)
            else None)
      in \<lparr>rc_status = ''refused'', rc_reason = Some why, rc_signal_id = sg_id s, rc_symbol = Some (sg_contract (sg_alpha s)),
          rc_work_status = work_status, rc_signal_status = status\<rparr>)"

definition cancel_reply :: "string \<Rightarrow> int \<Rightarrow> entry_identity \<Rightarrow> work_status option \<Rightarrow> resting_cancel_result" where
  "cancel_reply status sid identity work_status = \<lparr>rc_status = status, rc_reason = None, rc_signal_id = sid,
     rc_symbol = Some (ei_symbol identity), rc_work_status = work_status, rc_signal_status = None\<rparr>"

text \<open>The refusals before the broker is read: a token with the status of the work, or the identity.\<close>

definition cancel_precheck ::
  "lifetime_turn \<Rightarrow> signal \<Rightarrow> wf_state \<Rightarrow> wf_state \<times> (failure + ((string \<times> work_status option) + entry_identity))" where
  "cancel_precheck turn s st =
     (let s1 = lt_meanwhile turn 0 st; s2 = lt_meanwhile turn 1 s1; s3 = lt_meanwhile turn 2 s2
      in case cancel_of (sg_id s) s1 of
        Some existing \<Rightarrow>
          (s1, Inr (Inl (if w_status existing = Rejected then FILLED_BEFORE_CANCEL else ''cancel_in_progress'', Some (w_status existing))))
      | None \<Rightarrow>
          if sg_status s \<noteq> EXECUTED \<or> sg_executed_at s \<noteq> None \<or> \<not> set_text (sg_broker_order_id s)
          then (s1, Inr (Inl (''not_resting'', None)))
          else if \<not> lt_supports_cancel turn then (s1, Inr (Inl (''broker_cannot_cancel'', None)))
          else case entry_identity_of s s2 of
            Inl f \<Rightarrow> (s2, Inl f)
          | Inr None \<Rightarrow> (s2, Inr (Inl (''no_durable_entry'', None)))
          | Inr (Some identity) \<Rightarrow>
              (s3, Inr (if list_ex (\<lambda>c. cr_symbol c = ei_symbol identity) (active_close_requests s3) then Inl (''close_active'', None)
                 else Inr identity)))"

definition resting_group_refusal :: "entry_identity \<Rightarrow> order_observation list \<Rightarrow> string option result" where
  "resting_group_refusal identity orders = (case order_by_id (ei_order_id identity) orders of
     None \<Rightarrow> Ok (Some INCOMPLETE_OR_CHANGED_GROUP)
   | Some parent \<Rightarrow> bindr (resting_entry_refusal identity parent) (\<lambda>r.
       if r \<noteq> None then Ok r else bracket_group_refusal identity orders))"

text \<open>A preview writes nothing; the confirming call journals what it read.\<close>

definition observe_if :: "bool \<Rightarrow> desk_world \<Rightarrow> lifetime_turn \<Rightarrow> order_observation list \<Rightarrow> wf_state \<Rightarrow> wf_state result" where
  "observe_if confirm world turn orders st =
     (if confirm then observe_orders (dw_digest world) (lt_fresh turn st) (lt_clock turn 0) orders st else Ok st)"

text \<open>The claim and, when it is granted, its DELETE; the result has the refusal of a claim that is not.\<close>

definition claim_and_cancel ::
  "desk_world \<Rightarrow> lifetime_config \<Rightarrow> lifetime_turn \<Rightarrow> string \<Rightarrow> int \<Rightarrow> entry_identity \<Rightarrow> order_observation list \<Rightarrow> lifetime_policy option
     \<Rightarrow> calendar_day list option \<Rightarrow> wf_state \<Rightarrow> (wf_state \<times> (int \<times> string) list \<times> (failure + string option)) option" where
  "claim_and_cancel world config turn cause sid identity orders lifetime sessions st =
     (case begin_cancel (dw_ny world) (dw_utc world) (dw_et_date world) cause sid identity orders lifetime (lt_clock turn 1) sessions
              (lt_fresh turn st 0) (lt_fresh turn st 1) (lt_clock turn 2) st of
        Inl e \<Rightarrow> Some (st, [], Inl (failure_of e))
      | Inr (s, Inl why) \<Rightarrow> Some (s, [], Inr (Some why))
      | Inr (s, Inr item) \<Rightarrow>
          (case submit_cancel world config turn sid item identity s of
             None \<Rightarrow> None
           | Some (s1, sent, Some f) \<Rightarrow> Some (s1, sent, Inl f)
           | Some (s1, sent, None) \<Rightarrow> Some (s1, sent, Inr None)))"

definition cancel_confirmed ::
  "desk_world \<Rightarrow> lifetime_config \<Rightarrow> lifetime_turn \<Rightarrow> signal \<Rightarrow> entry_identity \<Rightarrow> order_observation list \<Rightarrow> wf_state
     \<Rightarrow> (wf_state \<times> (int \<times> string) list \<times> (failure + resting_cancel_result)) option" where
  "cancel_confirmed world config turn s identity orders st =
     (case claim_and_cancel world config turn ''operator'' (sg_id s) identity orders None None st of
        None \<Rightarrow> None
      | Some (s1, sent, Inl f) \<Rightarrow> Some (s1, sent, Inl f)
      | Some (s1, sent, Inr (Some why)) \<Rightarrow> Some (s1, sent, Inr (refused s why None))
      | Some (s1, sent, Inr None) \<Rightarrow>
          let s2 = lt_meanwhile turn 5 s1
          in Some (s2, sent, Inr (cancel_reply ''submitted'' (sg_id s) identity (map_option w_status (cancel_of (sg_id s) s2)))))"

definition cancel_resting_entry ::
  "desk_world \<Rightarrow> lifetime_config \<Rightarrow> lifetime_turn \<Rightarrow> int \<Rightarrow> bool \<Rightarrow> wf_state
     \<Rightarrow> (wf_state \<times> (int \<times> string) list \<times> (failure + resting_cancel_result)) option" where
  "cancel_resting_entry world config turn sid confirm st = (case find_signal (\<lambda>s. sg_id s = sid) st of
     None \<Rightarrow> Some (st, [], Inr \<lparr>rc_status = ''refused'', rc_reason = Some ''unknown_signal'', rc_signal_id = sid, rc_symbol = None,
               rc_work_status = None, rc_signal_status = None\<rparr>)
   | Some s \<Rightarrow>
       (case cancel_precheck turn s st of
          (s1, Inl f) \<Rightarrow> Some (s1, [], Inl f)
        | (s1, Inr (Inl (why, work_status))) \<Rightarrow> Some (s1, [], Inr (refused s why work_status))
        | (s1, Inr (Inr identity)) \<Rightarrow>
            let s2 = lt_meanwhile turn 3 s1
            in case lt_read turn (ei_order_id identity) of
               Inl f \<Rightarrow> Some (s2, [], Inr (refused s (''entry_group_unavailable:'' @ fst f) None))
             | Inr orders \<Rightarrow>
                 (case observe_if confirm world turn orders s2 of
                    Inl e \<Rightarrow> Some (s2, [], Inl (failure_of e))
                  | Inr s3 \<Rightarrow>
                      (case resting_group_refusal identity orders of
                         Inl e \<Rightarrow> Some (s3, [], Inl (failure_of e))
                       | Inr (Some why) \<Rightarrow> Some (s3, [], Inr (refused s why None))
                       | Inr None \<Rightarrow>
                           if \<not> confirm then Some (s3, [], Inr (cancel_reply ''preview'' sid identity None))
                           else cancel_confirmed world config turn s identity orders (lt_meanwhile turn 4 s3)))))"

subsection \<open>The sweep\<close>

text \<open>
  How a signal's pass ended: done, a failed evidence read (retried), or any other exception (reviewed at
  once). The exceptions carry the name of their type.
\<close>

datatype sweep_outcome = Swept | EvidenceReadFailed string | SweepFailed string

definition review_signal :: "lifetime_turn \<Rightarrow> int \<Rightarrow> string \<Rightarrow> wf_state \<Rightarrow> wf_state" where
  "review_signal turn sid why st = lifetime_review sid why (lt_fresh turn st 0) (lt_clock turn 3) st"

text \<open>After the close service returned: no request, or one that failed, is reviewed unless another close owns the position.\<close>

definition holding_followup :: "lifetime_turn \<Rightarrow> int \<Rightarrow> string \<Rightarrow> wf_state \<Rightarrow> wf_state" where
  "holding_followup turn sid request_id st =
     (let s1 = lt_meanwhile turn 8 st; s2 = lt_meanwhile turn 9 s1; s3 = lt_meanwhile turn 10 s2;
          why = ''holding_close_requires_review''
      in case get_close_request request_id s1 of
        Some c \<Rightarrow> if cr_status c \<in> {''failed'', ''unknown''} then review_signal turn sid why s1 else s1
      | None \<Rightarrow>
          (case find_signal (\<lambda>s. sg_id s = sid) s2 of
             Some refreshed \<Rightarrow>
               if set_text (sg_exit_order_id refreshed) \<or> list_ex (\<lambda>c. cr_signal_id c = Some sid) (active_close_requests s3) then s3
               else review_signal turn sid why s3
           | None \<Rightarrow> review_signal turn sid why s3))"

definition exit_complete :: "entry_identity \<Rightarrow> order_observation list \<Rightarrow> bool result" where
  "exit_complete identity children =
     anyr (\<lambda>o1. andr (Ok (o_status o1 = ''filled'')) (wire_eq (o_filled_quantity o1) (ei_quantity identity))) children"

definition exit_begun :: "order_observation list \<Rightarrow> bool result" where
  "exit_begun children = anyr (\<lambda>o1. bindr (Decimal (o_filled_quantity o1)) (xless (Fin 0))) children"

definition close_overdue ::
  "lifetime_turn \<Rightarrow> signal \<Rightarrow> entry_identity \<Rightarrow> order_observation list \<Rightarrow> wf_state \<Rightarrow> wf_state \<times> position_close_request list \<times> sweep_outcome" where
  "close_overdue turn s identity orders st =
     (let children = exits_of identity orders
      in case orr (Ok (set_text (sg_exit_order_id s))) (exit_complete identity children) of
        Inl e \<Rightarrow> (st, [], SweepFailed (exc_name e))
      | Inr owned \<Rightarrow>
          if owned then (st, [], Swept)
          else (case exit_begun children of
             Inl e \<Rightarrow> (st, [], SweepFailed (exc_name e))
           | Inr begun \<Rightarrow>
               if begun then (review_signal turn (sg_id s) ''partial_exit_requires_protection_review'' st, [], Swept)
               else let request_id = holding_request_id turn (sg_id s) (ei_order_id identity)
                    in (case close_signal (lt_close turn) (sg_id s) False (Some request_id) st of
                          (s1, made, Inl f) \<Rightarrow> (s1, made, SweepFailed (fst f))
                        | (s1, made, Inr _) \<Rightarrow> (holding_followup turn (sg_id s) request_id s1, made, Swept))))"

text \<open>Acting on the evidence of one signal: the state, the DELETEs and closes sent, and how it ended.\<close>

definition act_on_lifetime ::
  "desk_world \<Rightarrow> lifetime_config \<Rightarrow> lifetime_turn \<Rightarrow> signal \<Rightarrow> lifetime_policy \<Rightarrow> entry_identity \<Rightarrow> order_observation list \<Rightarrow> order_observation
     \<Rightarrow> calendar_day list option \<Rightarrow> wf_state
     \<Rightarrow> (wf_state \<times> (int \<times> string) list \<times> position_close_request list \<times> sweep_outcome) option" where
  "act_on_lifetime world config turn s lifetime identity orders parent sessions st =
     (case assess_lifetime (dw_ny world) (dw_utc world) lifetime identity parent (lt_clock turn 4) sessions of
        Inl e \<Rightarrow> Some (st, [], [], SweepFailed (exc_name e))
      | Inr d \<Rightarrow>
          (case ld_action d of
             Review \<Rightarrow> Some (review_signal turn (sg_id s) (ld_reason d) st, [], [], Swept)
           | CancelEntry \<Rightarrow>
               (case bracket_group_refusal identity orders of
                  Inl e \<Rightarrow> Some (st, [], [], SweepFailed (exc_name e))
                | Inr (Some why) \<Rightarrow> Some (review_signal turn (sg_id s) why st, [], [], Swept)
                | Inr None \<Rightarrow>
                    (case claim_and_cancel world config turn ''deadline'' (sg_id s) identity orders (Some lifetime) sessions st of
                       None \<Rightarrow> None
                     | Some (s1, sent, Inl f) \<Rightarrow> Some (s1, sent, [], SweepFailed (fst f))
                     | Some (s1, sent, Inr _) \<Rightarrow> Some (s1, sent, [], Swept)))
           | ClosePosition \<Rightarrow>
               (case lt_session_open turn of
                  Inl f \<Rightarrow> Some (st, [], [], EvidenceReadFailed (fst f))
                | Inr session_open \<Rightarrow>
                    if \<not> session_open then Some (st, [], [], Swept)
                    else (case close_overdue turn s identity orders (lt_meanwhile turn 7 st) of (s1, made, out) \<Rightarrow> Some (s1, [], made, out)))
           | NoAction \<Rightarrow> Some (st, [], [], Swept)))"

definition reconcile_signal ::
  "desk_world \<Rightarrow> lifetime_config \<Rightarrow> lifetime_turn \<Rightarrow> signal \<Rightarrow> lifetime_policy \<Rightarrow> wf_state
     \<Rightarrow> (wf_state \<times> (int \<times> string) list \<times> position_close_request list \<times> sweep_outcome) option" where
  "reconcile_signal world config turn s lifetime st = (case entry_identity_of s st of
     Inl f \<Rightarrow> Some (st, [], [], EvidenceReadFailed (fst f))
   | Inr None \<Rightarrow> Some (review_signal turn (sg_id s) ''missing_durable_entry_identity'' st, [], [], Swept)
   | Inr (Some identity) \<Rightarrow>
       let s1 = lt_meanwhile turn 5 st
       in (case lt_read turn (ei_order_id identity) of
          Inl f \<Rightarrow> Some (s1, [], [], EvidenceReadFailed (fst f))
        | Inr orders \<Rightarrow>
            (case observe_orders (dw_digest world) (lt_fresh turn s1) (lt_clock turn 0) orders s1 of
               Inl e \<Rightarrow> Some (s1, [], [], EvidenceReadFailed (exc_name e))
             | Inr s2 \<Rightarrow>
                 (case order_by_id (ei_order_id identity) orders of
                    None \<Rightarrow> Some (s2, [], [], EvidenceReadFailed ''StopIteration'')
                  | Some parent \<Rightarrow>
                      (case sessions_for world turn lifetime parent of
                         Inl f \<Rightarrow> Some (s2, [], [], EvidenceReadFailed (fst f))
                       | Inr sessions \<Rightarrow>
                           act_on_lifetime world config turn s lifetime identity orders parent sessions (lt_meanwhile turn 6 s2))))))"

definition nothing_left_to_time :: "signal \<Rightarrow> lifetime_policy \<Rightarrow> bool" where
  "nothing_left_to_time s lifetime = (sg_executed_at s \<noteq> None \<and> \<not> has_holding_deadline lifetime)"

text \<open>A native entry that filled at or after its deadline: one notice; no failure of this check matters.\<close>

definition missed_native_bound ::
  "desk_world \<Rightarrow> lifetime_turn \<Rightarrow> signal \<Rightarrow> native_policy \<Rightarrow> lifetime_memory \<Rightarrow> wf_state \<Rightarrow> wf_state \<times> lifetime_memory" where
  "missed_native_bound world turn s p mem st =
     (if sg_id s \<in> set (lm_checked mem) then (st, mem)
      else case (case sg_broker_order_id s of None \<Rightarrow> None | Some oid \<Rightarrow> view_of oid st) of
        None \<Rightarrow> (st, mem)
      | Some parent \<Rightarrow>
          (case (o_submitted_at parent, sg_executed_at s, sessions_for world turn (NativeLifetime p) parent) of
             (Some submitted, Some filled, Inr sessions) \<Rightarrow>
               (case native_entry_deadline (dw_ny world) (dw_utc world) p submitted sessions of
                  Inl _ \<Rightarrow> (st, mem)
                | Inr deadline \<Rightarrow>
                    let s1 = lt_meanwhile turn 5 st
                    in (if filled \<ge> deadline
                        then missed_bound (sg_id s) (Some (sg_contract (sg_alpha s)))
                               [(''order_id'', msg (o_order_id parent)), (''submitted_at'', [FTime submitted]), (''filled_at'', [FTime filled]),
                                (''deadline'', [FTime deadline])] (lt_fresh turn s1 0) (lt_clock turn 3) s1
                        else s1, mem\<lparr>lm_checked := sg_id s # lm_checked mem\<rparr>))
           | _ \<Rightarrow> (st, mem)))"


definition sweep_signal ::
  "desk_world \<Rightarrow> lifetime_config \<Rightarrow> lifetime_turn \<Rightarrow> signal \<Rightarrow> lifetime_memory \<Rightarrow> wf_state
     \<Rightarrow> (wf_state \<times> lifetime_memory \<times> (int \<times> string) list \<times> position_close_request list \<times> sweep_outcome) option" where
  "sweep_signal world config turn s mem st = (case entry_lifetime_of (sg_policies s) of
     Inl e \<Rightarrow> Some (st, mem, [], [], SweepFailed (exc_name e))
   | Inr None \<Rightarrow> Some (st, mem, [], [], Swept)
   | Inr (Some lifetime) \<Rightarrow>
       if nothing_left_to_time s lifetime
       then (case lifetime of
               NativeLifetime p \<Rightarrow> (case missed_native_bound world turn s p mem st of (s1, mem1) \<Rightarrow> Some (s1, mem1, [], [], Swept))
             | _ \<Rightarrow> Some (st, mem, [], [], Swept))
       else (case reconcile_signal world config turn s lifetime st of
               None \<Rightarrow> None
             | Some (s1, sent, made, out) \<Rightarrow> Some (s1, mem, sent, made, out)))"

definition failures_of :: "int \<Rightarrow> lifetime_memory \<Rightarrow> int" where
  "failures_of sid mem = (case map_of (lm_failures mem) sid of None \<Rightarrow> 0 | Some n \<Rightarrow> n)"

definition pop_failures :: "int \<Rightarrow> lifetime_memory \<Rightarrow> lifetime_memory" where
  "pop_failures sid mem = mem\<lparr>lm_failures := filter (\<lambda>p. fst p \<noteq> sid) (lm_failures mem)\<rparr>"

definition unavailable :: "string \<Rightarrow> string" where
  "unavailable type_name = ''lifecycle_evidence_unavailable:'' @ type_name"

text \<open>What a pass does with its outcome, given the failures before it.\<close>

definition after_sweep ::
  "lifetime_config \<Rightarrow> lifetime_turn \<Rightarrow> int \<Rightarrow> int \<Rightarrow> sweep_outcome \<Rightarrow> lifetime_memory \<Rightarrow> wf_state \<Rightarrow> wf_state \<times> lifetime_memory \<times> string list" where
  "after_sweep config turn sid prior out mem st = (case out of
     Swept \<Rightarrow> (st, mem, [])
   | EvidenceReadFailed name \<Rightarrow>
       (if prior + 1 \<ge> lifetime_evidence_review_after_failures config then review_signal turn sid (unavailable name) st else st,
        mem\<lparr>lm_failures := (sid, prior + 1) # lm_failures mem\<rparr>, [name])
   | SweepFailed name \<Rightarrow> (review_signal turn sid (unavailable name) st, mem, [name]))"

fun sweep_each ::
  "desk_world \<Rightarrow> lifetime_config \<Rightarrow> (int \<Rightarrow> lifetime_turn) \<Rightarrow> int list \<Rightarrow> signal list \<Rightarrow> lifetime_memory \<Rightarrow> wf_state
     \<Rightarrow> (wf_state \<times> lifetime_memory \<times> (int \<times> string) list \<times> position_close_request list \<times> string list) option" where
  "sweep_each world config turns blocked [] mem st = Some (st, mem, [], [], [])"
| "sweep_each world config turns blocked (s # rest) mem st =
     (if sg_id s \<in> set blocked then sweep_each world config turns blocked rest mem st
      else case sweep_signal world config (turns (sg_id s)) s (pop_failures (sg_id s) mem) st of
        None \<Rightarrow> None
      | Some (s1, mem1, sent, made, out) \<Rightarrow>
          (case after_sweep config (turns (sg_id s)) (sg_id s) (failures_of (sg_id s) mem) out mem1 s1 of (s2, mem2, names) \<Rightarrow>
           case sweep_each world config turns blocked rest mem2 s2 of
             None \<Rightarrow> None
           | Some (s3, mem3, sent', made', names') \<Rightarrow> Some (s3, mem3, sent @ sent', made @ made', names @ names')))"

text \<open>The turns of a reconciliation: one per recovered item, one per swept signal.\<close>

record lifetime_pass =
  lp_items :: "string \<Rightarrow> lifetime_turn"
  lp_signals :: "int \<Rightarrow> lifetime_turn"
  lp_meanwhile :: "nat \<Rightarrow> wf_state \<Rightarrow> wf_state"

definition claim_of :: "work_item \<Rightarrow> cancel_claim option" where
  "claim_of w = (case w_payload w of CancelPayload claim \<Rightarrow> Some claim | _ \<Rightarrow> None)"

definition known_failures :: "signal list \<Rightarrow> lifetime_memory \<Rightarrow> lifetime_memory" where
  "known_failures live mem = mem\<lparr>lm_failures := filter (\<lambda>p. fst p \<in> sg_id ` set live) (lm_failures mem)\<rparr>"

definition reconcile_lifetimes ::
  "desk_world \<Rightarrow> lifetime_config \<Rightarrow> lifetime_pass \<Rightarrow> lifetime_memory \<Rightarrow> wf_state
     \<Rightarrow> (wf_state \<times> lifetime_memory \<times> (int \<times> string) list \<times> position_close_request list \<times> (failure + string list)) option" where
  "reconcile_lifetimes world config pass mem st = (case recover_cancels world config (lp_items pass) st of
     None \<Rightarrow> None
   | Some (s, Some f) \<Rightarrow> Some (s, mem, [], [], Inl f)
   | Some (s, None) \<Rightarrow>
       let s1 = lp_meanwhile pass 0 s; s2 = lp_meanwhile pass 1 s1;
           blocked = map cc_signal_id (List.map_filter claim_of (unresolved_cancels s1));
           live = get_active_positions s2
       in (case sweep_each world config (lp_signals pass) blocked live (known_failures live mem) s2 of
             None \<Rightarrow> None
           | Some (s3, mem1, sent, made, names) \<Rightarrow> Some (s3, mem1, sent, made, Inr names)))"

subsection \<open>What blocks a resume\<close>

text \<open>
  Reads only: \<open>Ok True\<close> blocks, and so does every exception. Other processes act between the reads: of the
  open positions, of the entry item, and of the holding close after the broker answered.
\<close>

definition partial_leg :: "order_observation \<Rightarrow> bool result" where
  "partial_leg o1 = bindr (Decimal (o_filled_quantity o1)) (\<lambda>f.
     andr (xless (Fin 0) f) (bindr (Decimal (o_quantity o1)) (xless f)))"

definition close_failed :: "close_request option \<Rightarrow> bool" where
  "close_failed c = (case c of None \<Rightarrow> False | Some r \<Rightarrow> cr_status r \<in> {''failed'', ''unknown''})"

definition resume_verdict :: "lifetime_decision \<Rightarrow> close_request option \<Rightarrow> order_observation list \<Rightarrow> failure + bool" where
  "resume_verdict d close orders = (case orr (Ok (ld_action d = Review \<or> close_failed close)) (anyr partial_leg orders) of
     Inl e \<Rightarrow> Inl (failure_of e) | Inr b \<Rightarrow> Inr b)"

definition blocks_resume :: "desk_world \<Rightarrow> lifetime_turn \<Rightarrow> signal \<Rightarrow> wf_state \<Rightarrow> wf_state \<times> (failure + bool)" where
  "blocks_resume world turn s st = (case entry_lifetime_of (sg_policies s) of
     Inl e \<Rightarrow> (st, Inl (failure_of e))
   | Inr None \<Rightarrow> (st, Inr False)
   | Inr (Some lifetime) \<Rightarrow>
       if nothing_left_to_time s lifetime then (st, Inr False)
       else let s1 = lt_meanwhile turn 0 st
            in case entry_identity_of s s1 of
          Inl f \<Rightarrow> (s1, Inl f)
        | Inr None \<Rightarrow> (s1, Inr True)
        | Inr (Some identity) \<Rightarrow>
            let s2 = lt_meanwhile turn 1 s1
            in (s2, bindr (lt_read turn (ei_order_id identity)) (\<lambda>orders.
            case order_by_id (ei_order_id identity) orders of
              None \<Rightarrow> Inl (''StopIteration'', [])
            | Some parent \<Rightarrow>
                bindr (sessions_for world turn lifetime parent) (\<lambda>sessions.
                (case assess_lifetime (dw_ny world) (dw_utc world) lifetime identity parent (lt_clock turn 4) sessions of
                   Inl e \<Rightarrow> Inl (failure_of e)
                 | Inr d \<Rightarrow> resume_verdict d (get_close_request (holding_request_id turn (sg_id s) (ei_order_id identity)) s2) orders)))))"

fun resume_each :: "desk_world \<Rightarrow> (int \<Rightarrow> lifetime_turn) \<Rightarrow> signal list \<Rightarrow> wf_state \<Rightarrow> wf_state \<times> int list" where
  "resume_each world turns [] st = (st, [])"
| "resume_each world turns (s # ss) st = (case blocks_resume world (turns (sg_id s)) s st of (s1, verdict) \<Rightarrow>
     (case resume_each world turns ss s1 of (s2, blocked) \<Rightarrow>
        (s2, if verdict \<noteq> Inr False then sg_id s # blocked else blocked)))"

definition resume_blockers :: "desk_world \<Rightarrow> (int \<Rightarrow> lifetime_turn) \<Rightarrow> wf_state \<Rightarrow> wf_state \<times> int list" where
  "resume_blockers world turns st = resume_each world turns (get_active_positions st) st"


subsection \<open>Work is never dropped\<close>

text \<open>
  The identity, kind and key of every work item, marked when it is a decided cancellation; every
  transaction of the desk keeps them.
\<close>

definition decided :: "work_item \<Rightarrow> bool" where
  "decided w = (w_kind w = EntryCancel \<and> w_status w \<in> {Accepted, Rejected, Unknown})"

definition work_keys :: "wf_state \<Rightarrow> ((string \<times> work_kind \<times> ftext) \<times> bool) set" where
  "work_keys st = {(k, b). \<exists>w \<in> set (wf_items st). k = (w_id w, w_kind w, w_dedup w) \<and> (b \<longrightarrow> decided w)}"

lemma work_keys_frame [simp]:
  "work_keys (fst (wf_append stream kind payload key st)) = work_keys st"
  "work_keys (record_audit k i e st) = work_keys st"
  "work_keys (halt why st) = work_keys st"
  "work_keys (settle_signal sid r st) = work_keys st"
  "work_keys (update_signal j f st) = work_keys st"
  using wf_append_fst [of stream kind payload key st]
  by (auto simp: work_keys_def record_audit_def halt_def update_signal_def)

lemma work_keys_items: "set (wf_items st) \<subseteq> set (wf_items st') \<Longrightarrow> work_keys st \<subseteq> work_keys st'"
  by (auto simp: work_keys_def)

lemma work_keys_add: "work_keys st \<subseteq> work_keys (add_item w st)" "((w_id w, w_kind w, w_dedup w), False) \<in> work_keys (add_item w st)"
  by (auto simp: work_keys_def add_item_def)

lemma work_keys_notify: "work_keys st \<subseteq> work_keys (notify key kind args fresh now st)"
  using notify_items [of key kind args fresh now st] by (intro work_keys_items) auto

lemma work_keys_update:
  assumes "queue_inv st" and "row \<in> set (wf_items st)" and "same_key row' row" and "decided row \<longrightarrow> decided row'"
  shows "work_keys st \<subseteq> work_keys (update_item (w_id row) (\<lambda>_. row') st)"
proof
  fix x assume "x \<in> work_keys st"
  then obtain k b v where x: "x = (k, b)" and v: "v \<in> set (wf_items st)" "k = (w_id v, w_kind v, w_dedup v)" "b \<longrightarrow> decided v"
    by (auto simp: work_keys_def)
  show "x \<in> work_keys (update_item (w_id row) (\<lambda>_. row') st)"
  proof (cases "w_id v = w_id row")
    case True
    then have "v = row" using assms(1,2) v(1) by (auto simp: queue_inv_def table_inv_def distinct_map dest: inj_onD)
    moreover have "row' \<in> set (wf_items (update_item (w_id row) (\<lambda>_. row') st))" using assms(2) by (auto simp: update_item_def)
    ultimately show ?thesis using v x assms(3,4) by (auto simp: work_keys_def same_key_def intro!: bexI [of _ row'])
  next
    case False
    then have "v \<in> set (wf_items (update_item (w_id row) (\<lambda>_. row') st))" using v(1) by (force simp: update_item_def)
    then show ?thesis using v x by (auto simp: work_keys_def)
  qed
qed

lemma work_keys_found:
  "queue_inv st \<Longrightarrow> find_item p st = Some row \<Longrightarrow> same_key row' row \<Longrightarrow> decided row \<longrightarrow> decided row'
     \<Longrightarrow> work_keys st \<subseteq> work_keys (update_item (w_id row) (\<lambda>_. row') st)"
  by (rule work_keys_update) (auto dest: find_item_Some)

lemmas key_simps = same_key_def decided_def

interpretation work_carried: workflow_frame "\<lambda>F st. (queue_inv st \<and> (\<forall>f \<in> F. unused f st)) \<and> K \<subseteq> work_keys st" for K
proof
  fix F and st st' :: wf_state
  assume "(queue_inv st \<and> (\<forall>f \<in> F. unused f st)) \<and> K \<subseteq> work_keys st" "wf_items st' = wf_items st" "wf_events st' = wf_events st"
    "wf_next st' = wf_next st" "wf_orders st' = wf_orders st"
  then show "(queue_inv st' \<and> (\<forall>f \<in> F. unused f st')) \<and> K \<subseteq> work_keys st'"
    using queue_carried.outside_tables [of st F st'] by (simp add: work_keys_def)
next
  fix F st stream kind payload key assume "(queue_inv st \<and> (\<forall>f \<in> F. unused f st)) \<and> K \<subseteq> work_keys st" "plain_event stream kind key"
  then show "(queue_inv (fst (wf_append stream kind payload key st)) \<and> (\<forall>f \<in> F. unused f (fst (wf_append stream kind payload key st))))
      \<and> K \<subseteq> work_keys (fst (wf_append stream kind payload key st))"
    using queue_carried.append [of st F stream kind key payload] by simp
next
  fix F f st stream kind payload and w :: work_item
  assume c: "(queue_inv st \<and> (\<forall>g \<in> insert f F. unused g st)) \<and> K \<subseteq> work_keys st" and side: "f \<notin> F" "plain_event stream kind None"
    "w_id w = f" "w_sequence w = wf_next st" "w_kind w \<noteq> Entry" "\<forall>v \<in> set (wf_items st). item_key v \<noteq> item_key w"
  let ?t = "add_item w (fst (wf_append stream kind payload None st))"
  have "queue_inv ?t \<and> (\<forall>g \<in> F. unused g ?t)"
    by (rule queue_carried.append_item [OF conjunct1 [OF c] side])
  moreover have "K \<subseteq> work_keys ?t" by (rule subset_trans [OF _ work_keys_add(1)]) (use c in \<open>simp del: wf_append_None\<close>)
  ultimately show "(queue_inv ?t \<and> (\<forall>g \<in> F. unused g ?t)) \<and> K \<subseteq> work_keys ?t" ..
next
  fix F st row s r
  assume c: "(queue_inv st \<and> (\<forall>f \<in> F. unused f st)) \<and> K \<subseteq> work_keys st" and row: "row \<in> set (wf_items st)" "w_kind row = EntryCancel"
    "s \<in> {Accepted, Rejected, Unknown}"
  let ?t = "update_item (w_id row) (\<lambda>_. row\<lparr>w_status := s, w_result := r\<rparr>) st"
  have "queue_inv ?t \<and> (\<forall>f \<in> F. unused f ?t)" by (rule queue_carried.settle_item [OF conjunct1 [OF c] row])
  moreover have "work_keys st \<subseteq> work_keys ?t" using c row by (intro work_keys_update) (auto simp: key_simps)
  ultimately show "(queue_inv ?t \<and> (\<forall>f \<in> F. unused f ?t)) \<and> K \<subseteq> work_keys ?t" using c by blast
qed auto

lemma enqueue_keys:
  assumes "enqueue_entry r c t fresh now st = Ok (st', x)"
  shows "work_keys st \<subseteq> work_keys st'"
proof (cases "entry_of (rq_signal_id r) st")
  case None
  have "work_keys st \<subseteq> work_keys st'" if "reserve r c t cid now risk st = Ok (st', x)" for cid risk
    using that by (auto simp: reserve_def Let_def split_beta simp del: wf_append_None split: option.split_asm
        intro!: subsetD [OF work_keys_add(1)])
  moreover obtain a b where "x = (a, b)" by force
  ultimately show ?thesis using enqueue_cases [OF assms None] work_keys_frame(2) by blast
qed (use assms in \<open>auto simp: enqueue_entry_def Let_def\<close>)

lemma resolve_keys:
  assumes "queue_inv st"
  shows "work_keys st \<subseteq> work_keys (fst (resolve_entry et_date item res recovery fresh now st))"
proof (cases "find_item (\<lambda>w. w_id w = w_id item \<and> w_status w \<in> set ENTRY_BLOCKING) st")
  case (Some row)
  define u where "u = update_item (w_id row) (\<lambda>_. row\<lparr>w_status := resolved_status res, w_result := EntryResult res\<rparr>) st"
  have "work_keys st \<subseteq> work_keys u"
    unfolding u_def by (rule work_keys_found [OF assms Some]) (auto simp: key_simps resolved_status_def)
  moreover obtain t where "work_keys t = work_keys u" and "fst (resolve_entry et_date item res recovery fresh now st) = st
      \<or> (\<exists>k kd a. fst (resolve_entry et_date item res recovery fresh now st) \<in> {t, notify k kd a fresh now t})"
  proof
    let ?sid = "case item_request item of Some r \<Rightarrow> rq_signal_id r | None \<Rightarrow> 0"
    define v where "v = (if resolved_status res = Unknown
      then audit ''entry_submission_unknown'' ?sid
        (halt [Lit ''Unconfirmed broker entry '', Lit (w_id item), Lit ''; lookup recovery required before /resume''] u)
      else settle_signal ?sid res u)"
    define t where "t = appended (entry_stream (w_id row)) ''entry_resolved'' (PResolved (resolved_status res) recovery) v"
    show "work_keys t = work_keys u" by (simp add: t_def v_def del: wf_append_None)
    show "fst (resolve_entry et_date item res recovery fresh now st) = st
        \<or> (\<exists>k kd a. fst (resolve_entry et_date item res recovery fresh now st) \<in> {t, notify k kd a fresh now t})"
      unfolding resolve_entry_def Some option.case Let_def t_def v_def u_def by (auto simp del: wf_append_None)
  qed
  ultimately show ?thesis using work_keys_notify by fastforce
qed (simp add: resolve_entry_def)

lemma wf_trans_keys: "wf_trans fingerprint et_date st st' \<Longrightarrow> queue_inv st \<Longrightarrow> work_keys st \<subseteq> work_keys st'"
proof (induction rule: wf_trans.induct)
  case (enqueue r c t fresh now st st' x)
  then show ?case using enqueue_keys by blast
next
  case (claim st lease token now)
  have "work_keys st \<subseteq> work_keys (update_item (w_id w) (\<lambda>_. w\<lparr>w_status := a, w_token := b, w_lease_until := c, w_attempts := d\<rparr>) st)"
    if "head_item blocking_entry st = Some w" for w a b c d
    using head_item_Some [OF that] claim by (intro work_keys_update) (auto simp: key_simps blocking_entry_def)
  then show ?case by (auto simp: claim_entry_def Let_def simp del: wf_append_None split: option.split)
next
  case (submit item c fp x clock st st' y)
  then show ?case
  proof -
    consider "st' = st" | row req risk cap payload where
        "submission_check fingerprint item c fp x clock st = Ok (Inr (row, req, risk, cap))"
        "st' = audit ''entry_submission'' (rq_signal_id req) (appended (entry_stream (w_id row)) ''entry_submitting'' payload
                  (update_item (w_id row) (\<lambda>_. row\<lparr>w_status := Submitting, w_lease_until := None\<rparr>) st))"
      using begin_submission_cases [OF submit(1)] by blast
    then show ?thesis
    proof cases
      case 2
      have "work_keys st \<subseteq> work_keys (update_item (w_id row) (\<lambda>_. row\<lparr>w_status := Submitting, w_lease_until := None\<rparr>) st)"
        using submit(2) submission_check_row [OF 2(1)] by (intro work_keys_update) (simp_all add: key_simps)
      then show ?thesis unfolding 2(2) work_keys_frame by simp
    qed simp
  qed
next
  case (resolve recovery item fresh st res now)
  then show ?case using resolve_keys by blast
next
  case (note_add fresh st key kind args now)
  then show ?case using work_keys_notify by blast
next
  case (note_claim st lease maxa token now)
  have "work_keys st \<subseteq> work_keys (update_item (w_id w) (\<lambda>_. w') st)"
    if "head_item (claimable_note now) st = Some w" "same_key w' w" for w w'
    using head_item_Some [OF that(1)] that(2) note_claim by (intro work_keys_update) (auto simp: key_simps claimable_note_def)
  then show ?case by (auto simp: claim_notification_def Let_def same_key_def simp del: wf_append_None split: option.split)
next
  case (note_finish st item ok maxa retry detail now)
  have "work_keys st \<subseteq> work_keys (update_item (w_id w) (\<lambda>_. w') st)"
    if "find_item (\<lambda>w. w_id w = w_id item \<and> w_token w = w_token item \<and> w_status w = Checking) st = Some w" "same_key w' w" for w w'
    using find_item_Some [OF that(1)] by (intro work_keys_found [OF note_finish(2) that]) (simp add: decided_def)
  then show ?case by (auto simp: finish_notification_def Let_def same_key_def simp del: wf_append_None split: option.split)
next
  case (note_requeue st i now)
  have "work_keys st \<subseteq> work_keys (update_item (w_id w) (\<lambda>_. w') st)"
    if "find_item (\<lambda>w. w_id w = i \<and> w_kind w = Notification \<and> w_status w = Dead) st = Some w" "same_key w' w" for w w'
    using find_item_Some [OF that(1)] by (intro work_keys_found [OF note_requeue that]) (simp add: decided_def)
  then show ?case by (auto simp: requeue_notification_def same_key_def simp del: wf_append_None split: option.split)
qed

lemma observe_order_keys:
  assumes "observe_order digest f now obs st = Ok st'" "queue_inv st" "\<forall>g \<in> insert f F. unused g st" "f \<notin> F"
  shows "(queue_inv st' \<and> (\<forall>g \<in> F. unused g st')) \<and> work_keys st \<subseteq> work_keys st'"
proof -
  obtain st1 e views moved where a: "wf_append (order_stream (o_order_id obs)) ''order_observed'' (POrder obs)
        (Some (observation_key digest obs)) st = (st1, e)"
    and st': "after_projection (o_order_id obs) f now (st1\<lparr>wf_orders := views\<rparr>) = Ok st'"
    using assms(1) by (auto simp: observe_order_def bindr_Inr_iff split: prod.split_asm)
  have st1: "st1 = fst (wf_append (order_stream (o_order_id obs)) ''order_observed'' (POrder obs)
        (Some (observation_key digest obs)) st)" by (simp add: a)
  let ?t = "st1\<lparr>wf_orders := views\<rparr>"
  have "queue_inv st1" unfolding st1 by (rule queue_inv_append) (simp_all add: assms)
  then have "queue_inv ?t" by (simp add: queue_inv_cong [of ?t st1])
  moreover have "unused g st1" if "g \<in> insert f F" for g
    unfolding st1 using that assms(3) by (intro unused_append) (auto simp: order_stream_def entry_stream_def)
  then have "\<forall>g \<in> insert f F. unused g ?t" by (simp add: unused_def)
  moreover have "work_keys st \<subseteq> work_keys st1" unfolding st1 by simp
  then have "work_keys st \<subseteq> work_keys ?t" by (simp add: work_keys_def)
  ultimately show ?thesis using work_carried.carried_after_projection [OF st', of F "work_keys st"] assms(4) by blast
qed

lemma observe_orders_keys:
  assumes "observe_orders digest fresh now obs st = Ok st'" "queue_inv st" "\<forall>g \<in> fresh ` {..<length obs}. unused g st" "inj fresh"
  shows "work_keys st \<subseteq> work_keys st'"
  using assms(1-3)
proof (induction obs arbitrary: st)
  case (Cons x obs)
  obtain st1 where s: "observe_order digest (fresh (length obs)) now x st = Ok st1" "observe_orders digest fresh now obs st1 = Ok st'"
    using Cons.prems(1) by (auto simp: bindr_Inr_iff)
  have "\<forall>g \<in> insert (fresh (length obs)) (fresh ` {..<length obs}). unused g st" using Cons.prems(3) by (auto simp: lessThan_Suc)
  moreover have "fresh (length obs) \<notin> fresh ` {..<length obs}" using assms(4) by (auto dest: injD)
  ultimately show ?case using observe_order_keys [OF s(1) Cons.prems(2)] Cons.IH [OF s(2)] by blast
qed simp

lemma desk_keys: "desk_trans w st st' \<Longrightarrow> queue_inv st \<Longrightarrow> work_keys st \<subseteq> work_keys st'"
proof (induction rule: desk_trans.induct)
  case (observe fresh now obs st st')
  then show ?case using observe_orders_keys by blast
next
  case (operation F st st')
  then show ?case using work_carried.op_carried [OF operation(1), of "work_keys st"] by blast
qed (rule wf_trans_keys)

lemma run_keys: "(desk_trans w)\<^sup>*\<^sup>* s t \<Longrightarrow> queue_inv s \<Longrightarrow> work_keys s \<subseteq> work_keys t"
proof (induction rule: rtranclp_induct)
  case (step t u)
  then show ?case using desk_keys run_inv by blast
qed simp


subsection \<open>Every operation is a run of the desk\<close>

definition fresh_ids :: "(nat \<Rightarrow> string) \<Rightarrow> wf_state \<Rightarrow> bool" where
  "fresh_ids ids s = (inj ids \<and> (\<forall>i. unused (ids i) s) \<and> unused (cancel_id (ids 0)) s \<and> cancel_id (ids 0) \<noteq> ids 1)"

definition lifetime_turn_ok :: "desk_world \<Rightarrow> lifetime_turn \<Rightarrow> bool" where
  "lifetime_turn_ok world turn = ((\<forall>i s. (desk_trans world)\<^sup>*\<^sup>* s (lt_meanwhile turn i s)) \<and> (\<forall>i s. (desk_trans world)\<^sup>*\<^sup>* s (lt_polling turn i s))
     \<and> (\<forall>s. fresh_ids (lt_fresh turn s) s) \<and> close_turn_ok world (lt_close turn))"

text \<open>
  A run that may call the broker: transactions of any process, cancellation claims that were granted,
  each with the DELETE then sent, and closes.
\<close>

inductive timing :: "desk_world \<Rightarrow> wf_state \<Rightarrow> (int \<times> string) list \<Rightarrow> position_close_request list \<Rightarrow> wf_state \<Rightarrow> bool" for world s0 where
  begins: "timing world s0 [] [] s0"
| moves: "timing world s0 sent made s \<Longrightarrow> desk_trans world s s' \<Longrightarrow> timing world s0 sent made s'"
| cancels: "timing world s0 sent made s
    \<Longrightarrow> begin_cancel (dw_ny world) (dw_utc world) (dw_et_date world) cause sid identity orders lifetime t sessions f g now s = Ok (s', Inr w)
    \<Longrightarrow> unused (cancel_id f) s \<Longrightarrow> unused g s \<Longrightarrow> cancel_id f \<noteq> g
    \<Longrightarrow> timing world s0 (sent @ [(sid, ei_order_id identity)]) made s'"
| closes: "timing world s0 sent made s \<Longrightarrow> closing world s more_made s' \<Longrightarrow> timing world s0 sent (made @ more_made) s'"

lemma timing_run: "(desk_trans world)\<^sup>*\<^sup>* s t \<Longrightarrow> timing world s0 sent made s \<Longrightarrow> timing world s0 sent made t"
  by (induction rule: rtranclp_induct) (auto intro: timing.moves)

lemma timing_of_run: "(desk_trans world)\<^sup>*\<^sup>* s t \<Longrightarrow> timing world s [] [] t"
  by (rule timing_run [OF _ timing.begins])

lemma timing_append:
  "timing world s sent' made' t \<Longrightarrow> timing world s0 sent made s \<Longrightarrow> timing world s0 (sent @ sent') (made @ made') t"
proof (induction rule: timing.induct)
  case (moves sent' made' s s')
  then show ?case by (blast intro: timing.moves)
next
  case (cancels sent' made' s cause sid identity orders lifetime t sessions f g now s' w)
  then show ?case using timing.cancels [of world s0 "sent @ sent'" "made @ made'" s] by simp
next
  case (closes sent' made' s more_made s')
  then show ?case using timing.closes [of world s0 "sent @ sent'" "made @ made'" s more_made s'] by simp
qed simp

lemma waiting_run:
  assumes "lifetime_turn_ok world turn"
  shows "(desk_trans world)\<^sup>*\<^sup>* s (lt_meanwhile turn i s)" and "(desk_trans world)\<^sup>*\<^sup>* s (lt_polling turn i s)"
  using assms by (simp_all add: lifetime_turn_ok_def)

lemma after_waiting: "lifetime_turn_ok world turn \<Longrightarrow> (desk_trans world)\<^sup>*\<^sup>* s t \<Longrightarrow> (desk_trans world)\<^sup>*\<^sup>* s (lt_meanwhile turn i t)"
  using waiting_run(1) by (rule rtranclp_trans [rotated])

lemma observed_run:
  assumes "lifetime_turn_ok world turn" and "observe_orders (dw_digest world) (lt_fresh turn s) now orders s = Ok s'"
  shows "(desk_trans world)\<^sup>*\<^sup>* s s'"
  using desk_trans.observe [OF assms(2)] assms(1) by (auto simp: lifetime_turn_ok_def fresh_ids_def)

lemma review_run:
  assumes "lifetime_turn_ok world turn"
  shows "(desk_trans world)\<^sup>*\<^sup>* s (review_signal turn sid why s)"
  unfolding review_signal_def
  by (rule operation_run [OF desk_op.review]) (use assms in \<open>simp add: lifetime_turn_ok_def fresh_ids_def\<close>)

lemma evidence_poll_run:
  assumes "lifetime_turn_ok world turn"
  shows "(desk_trans world)\<^sup>*\<^sup>* s (fst (cancel_evidence world turn k s))"
  using observed_run [OF assms] by (auto simp: cancel_evidence_def split: sum.split)

lemma poll_once_run:
  assumes "lifetime_turn_ok world turn"
  shows "(desk_trans world)\<^sup>*\<^sup>* s (fst (poll_once world config turn item claim owner err k s))"
proof -
  obtain s1 orders why where e: "cancel_evidence world turn k (lt_polling turn (2 * k) s) = (s1, orders, why)" by (metis prod.collapse)
  let ?s2 = "lt_polling turn (2 * k + 1) s1"
  have "(desk_trans world)\<^sup>*\<^sup>* s s1"
    using rtranclp_trans [OF waiting_run(2) [OF assms] evidence_poll_run [OF assms]] e by (metis fst_conv)
  then have s2: "(desk_trans world)\<^sup>*\<^sup>* s ?s2" using waiting_run(2) [OF assms] by (rule rtranclp_trans)
  have "(desk_trans world)\<^sup>*\<^sup>* ?s2 s3"
    if "resolve_cancel (dw_et_date world) (w_id item) claim orders why err p (lt_fresh turn ?s2 0) now ?s2 = Ok (s3, b)" for p now s3 b
    by (rule operation_run [OF desk_op.cancel_resolved [OF that]]) (use assms in \<open>simp add: lifetime_turn_ok_def fresh_ids_def\<close>)
  then show ?thesis using s2 by (auto simp: poll_once_def e Let_def split: sum.split intro: rtranclp_trans)
qed

lemma poll_cancel_run:
  assumes "lifetime_turn_ok world turn" and "poll_cancel world config turn item claim owner err k s = Some (t, out)"
  shows "(desk_trans world)\<^sup>*\<^sup>* s t"
proof -
  have "lifetime_turn_ok world turn \<longrightarrow> (desk_trans world)\<^sup>*\<^sup>* s (fst (t, out))"
  proof (rule poll_cancel.raw_induct [OF _ assms(2), where P = "\<lambda>world config turn item claim owner err k s y.
      lifetime_turn_ok world turn \<longrightarrow> (desk_trans world)\<^sup>*\<^sup>* s (fst y)"], intro impI)
    fix self world config turn item claim owner err k s y
    assume IH: "\<And>world config turn item claim owner err k s y. self world config turn item claim owner err k s = Some y
        \<Longrightarrow> lifetime_turn_ok world turn \<longrightarrow> (desk_trans world)\<^sup>*\<^sup>* s (fst y)"
      and body: "(case poll_once world config turn item claim owner err k s of
        (s, Inl f) \<Rightarrow> Some (s, Some f)
      | (s, Inr resolved) \<Rightarrow>
          if resolved \<or> \<not> owner \<or> \<not> allow_pending config turn item owner k then Some (s, None)
          else self world config turn item claim owner err (Suc k) s) = Some y"
      and ok: "lifetime_turn_ok world turn"
    obtain u r where u: "poll_once world config turn item claim owner err k s = (u, r)" by force
    have run: "(desk_trans world)\<^sup>*\<^sup>* s u" using poll_once_run [OF ok] u by (metis fst_conv)
    have "(desk_trans world)\<^sup>*\<^sup>* u (fst y)" if "self world config turn item claim owner err (Suc k) u = Some y"
      using IH [OF that] ok by blast
    then show "(desk_trans world)\<^sup>*\<^sup>* s (fst y)"
      using body run by (auto simp: u split: sum.split_asm if_split_asm intro: rtranclp_trans)
  qed
  then show ?thesis using assms(1) by simp
qed

lemma recover_cancel_run:
  assumes "lifetime_turn_ok world turn" and "recover_cancel world config turn item owner err s = Some (t, out)"
  shows "(desk_trans world)\<^sup>*\<^sup>* s t"
  using assms poll_cancel_run by (auto simp: recover_cancel_def split: item_payload.split_asm)

lemma recover_cancels_run:
  "\<forall>i. lifetime_turn_ok world (turns i) \<Longrightarrow> recover_cancels_each world config turns items s = Some (t, out) \<Longrightarrow> (desk_trans world)\<^sup>*\<^sup>* s t"
proof (induction items arbitrary: s)
  case (Cons item items)
  obtain u r where u: "recover_cancel world config (turns (w_id item)) item False None s = Some (u, r)"
    using Cons.prems(2) by (auto split: option.split_asm)
  have "(desk_trans world)\<^sup>*\<^sup>* s u" using recover_cancel_run [OF _ u] Cons.prems(1) by blast
  moreover have "(desk_trans world)\<^sup>*\<^sup>* u t"
    using Cons.prems(2) u Cons.IH [OF Cons.prems(1), of u] by (auto split: option.split_asm)
  ultimately show ?case by (rule rtranclp_trans)
qed simp

text \<open>A DELETE is sent only behind a claim this process was granted.\<close>

lemma claim_and_cancel_timing:
  assumes "lifetime_turn_ok world turn"
    and "claim_and_cancel world config turn cause sid identity orders lifetime sessions s = Some (t, sent, out)"
  shows "timing world s sent [] t"
proof -
  let ?b = "begin_cancel (dw_ny world) (dw_utc world) (dw_et_date world) cause sid identity orders lifetime (lt_clock turn 1) sessions
              (lt_fresh turn s 0) (lt_fresh turn s 1) (lt_clock turn 2) s"
  have fresh: "unused (cancel_id (lt_fresh turn s 0)) s" "unused (lt_fresh turn s 1) s" "cancel_id (lt_fresh turn s 0) \<noteq> lt_fresh turn s 1"
    using assms(1) by (auto simp: lifetime_turn_ok_def fresh_ids_def)
  show ?thesis
  proof (cases ?b)
    case (Inl e)
    then show ?thesis using assms(2) by (auto simp: claim_and_cancel_def intro: timing.begins)
  next
    case (Inr q)
    obtain s1 y where q: "q = (s1, y)" by force
    note b = Inr [unfolded q]
    show ?thesis
    proof (cases y)
      case (Inl why)
      have "(desk_trans world)\<^sup>*\<^sup>* s s1"
        by (rule operation_run [OF desk_op.cancel_claimed [OF b fresh(3)]]) (use fresh in simp)
      then show ?thesis using assms(2) b Inl by (auto simp: claim_and_cancel_def intro: timing_of_run)
    next
      case (Inr item)
      obtain r where r: "recover_cancel world config turn item True (map_option fst (lt_delete turn (ei_order_id identity))) s1 = Some (t, r)"
        and sent: "sent = [(sid, ei_order_id identity)]"
        using assms(2) b Inr by (auto simp: claim_and_cancel_def submit_cancel_def split: option.split_asm)
      have "timing world s ([] @ [(sid, ei_order_id identity)]) [] s1"
        using b Inr fresh by (intro timing.cancels [OF timing.begins]) auto
      then show ?thesis using timing_run [OF recover_cancel_run [OF assms(1) r]] sent by simp
    qed
  qed
qed

lemma precheck_run:
  assumes "lifetime_turn_ok world turn"
  shows "(desk_trans world)\<^sup>*\<^sup>* s (fst (cancel_precheck turn sig s))"
proof -
  let ?s1 = "lt_meanwhile turn 0 s"
  let ?s2 = "lt_meanwhile turn 1 ?s1"
  have "(desk_trans world)\<^sup>*\<^sup>* s ?s1" by (rule waiting_run(1) [OF assms])
  moreover have "(desk_trans world)\<^sup>*\<^sup>* s ?s2" by (rule after_waiting [OF assms waiting_run(1) [OF assms]])
  moreover have "(desk_trans world)\<^sup>*\<^sup>* s (lt_meanwhile turn 2 ?s2)"
    by (intro after_waiting [OF assms] waiting_run(1) [OF assms])
  ultimately show ?thesis by (auto simp: cancel_precheck_def Let_def split: option.split sum.split)
qed

lemma cancel_confirmed_timing:
  assumes "lifetime_turn_ok world turn" and "cancel_confirmed world config turn sig identity orders s = Some (t, sent, out)"
  shows "timing world s sent [] t"
proof -
  obtain u r where u: "claim_and_cancel world config turn ''operator'' (sg_id sig) identity orders None None s = Some (u, sent, r)"
    and t: "t = u \<or> t = lt_meanwhile turn 5 u"
    using assms(2) by (auto simp: cancel_confirmed_def Let_def split: option.split_asm sum.split_asm)
  have "timing world s sent [] u" by (rule claim_and_cancel_timing [OF assms(1) u])
  then show ?thesis using t timing_run [OF waiting_run(1) [OF assms(1)]] by blast
qed

lemma cancel_resting_timing:
  assumes "lifetime_turn_ok world turn" and "cancel_resting_entry world config turn sid confirm s = Some (t, sent, out)"
  shows "timing world s sent [] t"
proof (cases "find_signal (\<lambda>s. sg_id s = sid) s")
  case None
  then show ?thesis using assms(2) by (auto simp: cancel_resting_entry_def intro: timing.begins)
next
  case (Some sig)
  obtain s1 r where p: "cancel_precheck turn sig s = (s1, r)" by force
  have r1: "(desk_trans world)\<^sup>*\<^sup>* s s1" using precheck_run [OF assms(1), of s sig] p by simp
  note eq = assms(2) [unfolded cancel_resting_entry_def Some option.case p prod.case Let_def]
  show ?thesis
  proof (cases "\<exists>identity. r = Inr (Inr identity)")
    case False
    then show ?thesis using eq r1 by (auto split: sum.split_asm prod.split_asm intro: timing_of_run)
  next
    case True
    then obtain identity where r: "r = Inr (Inr identity)" by blast
    define s2 where "s2 = lt_meanwhile turn 3 s1"
    have r2: "(desk_trans world)\<^sup>*\<^sup>* s s2" unfolding s2_def by (rule after_waiting [OF assms(1) r1])
    have observed: "(desk_trans world)\<^sup>*\<^sup>* s s3" if "observe_if confirm world turn orders s2 = Ok s3" for orders s3
      using that r2 observed_run [OF assms(1)] by (auto simp: observe_if_def split: if_split_asm intro: rtranclp_trans)
    have "timing world s sent [] t" if "observe_if confirm world turn orders s2 = Ok s3"
        "cancel_confirmed world config turn sig identity orders (lt_meanwhile turn 4 s3) = Some (t, sent, out)" for orders s3
      using timing_append [OF cancel_confirmed_timing [OF assms(1) that(2)] timing_of_run [OF after_waiting [OF assms(1) observed [OF that(1)]]]]
      by simp
    then show ?thesis
      using eq [unfolded r s2_def [symmetric]] timing_of_run [OF r2] timing_of_run [OF observed]
      by (auto split: sum.split_asm option.split_asm if_split_asm)
  qed
qed

lemma holding_followup_run:
  assumes "lifetime_turn_ok world turn"
  shows "(desk_trans world)\<^sup>*\<^sup>* s (holding_followup turn sid rid s)"
proof -
  define s1 where "s1 = lt_meanwhile turn 8 s"
  define s3 where "s3 = lt_meanwhile turn 10 (lt_meanwhile turn 9 s1)"
  have r: "(desk_trans world)\<^sup>*\<^sup>* s s1" "(desk_trans world)\<^sup>*\<^sup>* s s3"
    unfolding s1_def s3_def by (intro after_waiting [OF assms] waiting_run(1) [OF assms])+
  note rr = r rtranclp_trans [OF r(1) review_run [OF assms]] rtranclp_trans [OF r(2) review_run [OF assms]]
  show ?thesis
    unfolding holding_followup_def Let_def s1_def [symmetric] s3_def [symmetric] using rr by (auto split: option.split)
qed

lemma close_overdue_closing:
  assumes "lifetime_turn_ok world turn" and "close_overdue turn sig identity orders s = (t, made, out)"
  shows "closing world s made t"
proof -
  have ct: "close_turn_ok world (lt_close turn)" using assms(1) by (simp add: lifetime_turn_ok_def)
  have rev: "closing world s [] (review_signal turn sid why s)" for sid why
    by (rule closing_run [OF review_run [OF assms(1)] closing.start])
  have "closing world s m (holding_followup turn sid rid u)"
    if "close_signal (lt_close turn) sid False rid' s = (u, m, r)" for sid rid rid' u m r
    by (rule closing_run [OF holding_followup_run [OF assms(1)] close_signal_closing [OF ct that]])
  then show ?thesis using assms(2) close_signal_closing [OF ct] rev
    by (auto simp: close_overdue_def Let_def split: sum.split_asm prod.split_asm if_split_asm intro: closing.start)
qed


lemma act_on_timing:
  assumes "lifetime_turn_ok world turn"
    and "act_on_lifetime world config turn sig lifetime identity orders parent sessions s = Some (t, sent, made, out)"
  shows "timing world s sent made t"
proof -
  have stay: "timing world s [] [] s" and rev: "timing world s [] [] (review_signal turn sid why s)" for sid why
    using timing.begins timing_of_run [OF review_run [OF assms(1)]] by auto
  have cancel: "timing world s c [] u"
    if "claim_and_cancel world config turn ''deadline'' (sg_id sig) identity orders (Some lifetime) sessions s = Some (u, c, r)" for u c r
    by (rule claim_and_cancel_timing [OF assms(1) that])
  have close: "timing world s [] m u" if "close_overdue turn sig identity orders (lt_meanwhile turn 7 s) = (u, m, r)" for u m r
    using timing.closes [OF timing_of_run [OF waiting_run(1) [OF assms(1)]] close_overdue_closing [OF assms(1) that]] by simp
  show ?thesis
    using assms(2) stay rev cancel close
    by (auto simp: act_on_lifetime_def split: sum.split_asm option.split_asm lifetime_action.split_asm if_split_asm prod.split_asm)
qed

lemma reconcile_signal_timing:
  assumes "lifetime_turn_ok world turn" and "reconcile_signal world config turn sig lifetime s = Some (t, sent, made, out)"
  shows "timing world s sent made t"
proof -
  define s1 where "s1 = lt_meanwhile turn 5 s"
  have r1: "(desk_trans world)\<^sup>*\<^sup>* s s1" unfolding s1_def by (rule waiting_run(1) [OF assms(1)])
  have stay: "timing world s [] [] s" and rev: "timing world s [] [] (review_signal turn sid why s)" for sid why
    using timing.begins timing_of_run [OF review_run [OF assms(1)]] by auto
  have r2: "(desk_trans world)\<^sup>*\<^sup>* s s2" if "observe_orders (dw_digest world) (lt_fresh turn s1) now orders s1 = Ok s2" for now orders s2
    by (rule rtranclp_trans [OF r1 observed_run [OF assms(1) that]])
  have act: "timing world s sent made t" if "observe_orders (dw_digest world) (lt_fresh turn s1) now orders s1 = Ok s2"
      "act_on_lifetime world config turn sig lifetime identity orders parent sessions (lt_meanwhile turn 6 s2) = Some (t, sent, made, out)"
    for now orders s2 identity parent sessions
    using timing_append [OF act_on_timing [OF assms(1) that(2)] timing_of_run [OF after_waiting [OF assms(1) r2 [OF that(1)]]]] by simp
  show ?thesis
    using assms(2) stay rev timing_of_run [OF r1] timing_of_run [OF r2] act
    unfolding reconcile_signal_def Let_def s1_def [symmetric]
    by (auto split: sum.split_asm option.split_asm)
qed

lemma missed_bound_run:
  assumes "lifetime_turn_ok world turn"
  shows "(desk_trans world)\<^sup>*\<^sup>* s (fst (missed_native_bound world turn sig p mem s))"
proof -
  have "(desk_trans world)\<^sup>*\<^sup>* u (missed_bound sid symbol evidence (lt_fresh turn u 0) now u)" for u sid symbol evidence now
    by (rule operation_run [OF desk_op.missed]) (use assms in \<open>simp add: lifetime_turn_ok_def fresh_ids_def\<close>)
  then have "(desk_trans world)\<^sup>*\<^sup>* s (missed_bound sid symbol evidence (lt_fresh turn (lt_meanwhile turn 5 s) 0) now (lt_meanwhile turn 5 s))"
    for sid symbol evidence now by (rule rtranclp_trans [OF waiting_run(1) [OF assms]])
  then show ?thesis
    using waiting_run(1) [OF assms, of s 5] by (auto simp: missed_native_bound_def Let_def split: option.split sum.split)
qed

lemma sweep_signal_timing:
  assumes "lifetime_turn_ok world turn" and "sweep_signal world config turn sig mem s = Some (t, mem', sent, made, out)"
  shows "timing world s sent made t"
proof -
  have "timing world s [] [] u" if "missed_native_bound world turn sig p mem s = (u, m)" for p u m
    using timing_of_run [OF missed_bound_run [OF assms(1), of s sig p mem]] that by simp
  then show ?thesis
    using assms(2) reconcile_signal_timing [OF assms(1)]
    by (auto simp: sweep_signal_def split: sum.split_asm option.split_asm if_split_asm lifetime_policy.split_asm prod.split_asm intro: timing.begins)
qed

lemma after_sweep_run:
  assumes "lifetime_turn_ok world turn" and "after_sweep config turn sid prior out mem s = (t, mem', names)"
  shows "(desk_trans world)\<^sup>*\<^sup>* s t"
  using assms(2) review_run [OF assms(1)] by (auto simp: after_sweep_def split: sweep_outcome.split_asm)

lemma sweep_each_timing:
  "\<forall>i. lifetime_turn_ok world (turns i) \<Longrightarrow> sweep_each world config turns blocked sigs mem s = Some (t, mem', sent, made, names)
     \<Longrightarrow> timing world s sent made t"
proof (induction sigs arbitrary: mem s sent made names)
  case (Cons sig sigs)
  show ?case
  proof (cases "sg_id sig \<in> set blocked")
    case True
    then show ?thesis using Cons.prems Cons.IH by simp
  next
    case False
    let ?turn = "turns (sg_id sig)"
    obtain s1 mem1 c m out where one: "sweep_signal world config ?turn sig (pop_failures (sg_id sig) mem) s = Some (s1, mem1, c, m, out)"
      using Cons.prems(2) False by (auto split: option.split_asm)
    obtain s2 mem2 ns where after: "after_sweep config ?turn (sg_id sig) (failures_of (sg_id sig) mem) out mem1 s1 = (s2, mem2, ns)"
      by (metis prod.collapse)
    obtain c' m' ns' where rest: "sweep_each world config turns blocked sigs mem2 s2 = Some (t, mem', c', m', ns')"
      and out: "sent = c @ c'" "made = m @ m'"
      using Cons.prems(2) False one after by (auto split: option.split_asm)
    have ok: "lifetime_turn_ok world ?turn" using Cons.prems(1) by blast
    have "timing world s c m s2" by (rule timing_run [OF after_sweep_run [OF ok after] sweep_signal_timing [OF ok one]])
    then show ?thesis unfolding out by (rule timing_append [OF Cons.IH [OF Cons.prems(1) rest]])
  qed
qed (auto intro: timing.begins)

definition lifetime_pass_ok :: "desk_world \<Rightarrow> lifetime_pass \<Rightarrow> bool" where
  "lifetime_pass_ok world pass = ((\<forall>i. lifetime_turn_ok world (lp_items pass i)) \<and> (\<forall>i. lifetime_turn_ok world (lp_signals pass i))
     \<and> (\<forall>i s. (desk_trans world)\<^sup>*\<^sup>* s (lp_meanwhile pass i s)))"

lemma reconcile_timing:
  assumes "lifetime_pass_ok world pass" and "reconcile_lifetimes world config pass mem s = Some (t, mem', sent, made, out)"
  shows "timing world s sent made t"
proof -
  obtain s1 r where rec: "recover_cancels world config (lp_items pass) s = Some (s1, r)"
    using assms(2) by (auto simp: reconcile_lifetimes_def split: option.split_asm)
  have r1: "(desk_trans world)\<^sup>*\<^sup>* s s1"
    using recover_cancels_run [of world "lp_items pass"] rec assms(1) by (auto simp: recover_cancels_def lifetime_pass_ok_def)
  let ?s2 = "lp_meanwhile pass 1 (lp_meanwhile pass 0 s1)"
  have r2: "(desk_trans world)\<^sup>*\<^sup>* s ?s2"
    using r1 assms(1) unfolding lifetime_pass_ok_def by (meson rtranclp_trans)
  have "timing world s sent made t" if "sweep_each world config (lp_signals pass) blocked live mem0 ?s2 = Some (t, mem', sent, made, names)"
    for blocked live mem0 names
    using timing_append [OF sweep_each_timing [OF _ that] timing_of_run [OF r2]] assms(1) by (simp add: lifetime_pass_ok_def)
  then show ?thesis
    using assms(2) rec timing_of_run [OF r1] by (auto simp: reconcile_lifetimes_def Let_def split: option.split_asm)
qed


subsection \<open>At most one DELETE per entry\<close>

text \<open>The service at work: any process's transactions, operator cancels, recoveries and sweeps.\<close>

inductive lifetime_service ::
  "desk_world \<Rightarrow> wf_state \<Rightarrow> (int \<times> string) list \<Rightarrow> position_close_request list \<Rightarrow> wf_state \<Rightarrow> bool" for world st0 where
  idle: "lifetime_service world st0 [] [] st0"
| other: "lifetime_service world st0 sent made s \<Longrightarrow> desk_trans world s s' \<Longrightarrow> lifetime_service world st0 sent made s'"
| operator: "lifetime_service world st0 sent made s \<Longrightarrow> lifetime_turn_ok world turn
    \<Longrightarrow> cancel_resting_entry world config turn sid confirm s = Some (s', sent', reply) \<Longrightarrow> lifetime_service world st0 (sent @ sent') made s'"
| recovery: "lifetime_service world st0 sent made s \<Longrightarrow> \<forall>i. lifetime_turn_ok world (turns i)
    \<Longrightarrow> recover_cancels world config turns s = Some (s', out) \<Longrightarrow> lifetime_service world st0 sent made s'"
| sweep: "lifetime_service world st0 sent made s \<Longrightarrow> lifetime_pass_ok world pass
    \<Longrightarrow> reconcile_lifetimes world config pass mem s = Some (s', mem', sent', made', out)
    \<Longrightarrow> lifetime_service world st0 (sent @ sent') (made @ made') s'"

lemma lifetime_service_timing: "lifetime_service world st0 sent made st \<Longrightarrow> timing world st0 sent made st"
proof (induction rule: lifetime_service.induct)
  case (operator sent made s turn config sid confirm s' sent' reply)
  then show ?case using timing_append [OF cancel_resting_timing, of world turn config sid confirm s s' sent' reply] by simp
next
  case (recovery sent made s turns config s' out)
  have "(desk_trans world)\<^sup>*\<^sup>* s s'"
    by (rule recover_cancels_run [OF recovery.hyps(2) recovery.hyps(3) [unfolded recover_cancels_def]])
  then show ?case using recovery.IH by (rule timing_run)
next
  case (sweep sent made s pass config mem s' mem' sent' made' out)
  then show ?case using timing_append reconcile_timing by blast
qed (auto intro: timing.intros)

definition cancel_recorded :: "wf_state \<Rightarrow> int \<times> string \<Rightarrow> bool" where
  "cancel_recorded st c = (\<exists>e \<in> set (wf_events st). ev_kind e = ''entry_cancel_requested''
     \<and> (\<exists>claim. ev_payload e = PCancelRequested claim \<and> cc_signal_id claim = fst c \<and> ei_order_id (cc_identity claim) = snd c))"

definition cancel_held :: "int \<Rightarrow> wf_state \<Rightarrow> bool" where
  "cancel_held sid st = (\<exists>i. ((i, EntryCancel, [FInt sid]), False) \<in> work_keys st)"

lemma notify_journal: "\<exists>es. wf_events (notify key kind args f now s) = wf_events s @ es"
  using wf_append_fst by (fastforce simp: add_notification_def add_item_def split: option.split)

lemma cancel_granted:
  assumes "begin_cancel ny utc et_date cause sid identity orders lifetime t sessions f g now s = Ok (s', Inr w)"
  shows "\<not> cancel_held sid s" and "cancel_held sid s'" and "cancel_recorded s' (sid, ei_order_id identity)"
proof -
  let ?op = "cause = ''operator''"
  let ?claim = "\<lparr>cc_signal_id = sid, cc_cause = cause, cc_identity = identity, cc_lifetime = lifetime,
      cc_order_ids = map o_order_id orders, cc_before = orders\<rparr>"
  have r: "cancel_refusal ny utc ?op sid identity orders lifetime t sessions s = Ok None"
    and c: "claim_cancel et_date ?op ?claim (cancel_id f) g now s = (s', w)"
    using assms by (auto simp: begin_cancel_def Let_def bindr_Inr_iff split: option.split_asm prod.split_asm)
  have "cancel_of sid s = None" using r by (auto simp: cancel_refusal_def split: if_split_asm)
  then have "\<forall>v \<in> set (wf_items s). \<not> (w_kind v = EntryCancel \<and> w_dedup v = [FInt sid])"
    by (auto simp: cancel_of_def find_item_def find_None_iff)
  then show "\<not> cancel_held sid s" by (auto simp: cancel_held_def work_keys_def)
  define s2 where "s2 = add_item w (appended (cancel_stream (cancel_id f)) ''entry_cancel_requested'' (PCancelRequested ?claim) s)"
  have s': "s' = s2 \<or> (\<exists>key kd args. s' = notify key kd args g now s2)" and w: "w_kind w = EntryCancel" "w_dedup w = [FInt sid]"
    using c by (auto simp: claim_cancel_def Let_def s2_def split: if_split_asm)
  have "((w_id w, EntryCancel, [FInt sid]), False) \<in> work_keys s2"
    using work_keys_add(2) [of w] w unfolding s2_def by simp
  then show "cancel_held sid s'" using s' work_keys_notify unfolding cancel_held_def by blast
  have "cancel_recorded s2 (sid, ei_order_id identity)"
    by (auto simp: s2_def cancel_recorded_def add_item_def)
  then show "cancel_recorded s' (sid, ei_order_id identity)"
    using s' notify_journal unfolding cancel_recorded_def by (metis Un_iff set_append)
qed

lemma timing_closing: "timing world s0 sent made s \<Longrightarrow> closing world s0 made s"
proof (induction rule: timing.induct)
  case (cancels sent made s cause sid identity orders lifetime t sessions f g now s' w)
  have "(desk_trans world)\<^sup>*\<^sup>* s s'"
    by (rule operation_run [OF desk_op.cancel_claimed [OF cancels.hyps(2) cancels.hyps(5)]]) (simp add: cancels.hyps)
  then show ?case using cancels.IH by (rule closing_run)
next
  case (closes sent made s more_made s')
  then show ?case by (blast intro: closing_append)
qed (auto intro: closing.intros)

text \<open>A recorded cancellation stays recorded, and held.\<close>

definition cancel_done :: "wf_state \<Rightarrow> int \<times> string \<Rightarrow> bool" where
  "cancel_done st c = (cancel_recorded st c \<and> cancel_held (fst c) st)"

lemma cancel_kept:
  assumes "(desk_trans world)\<^sup>*\<^sup>* s t" and "queue_inv s" and "cancel_done s c"
  shows "cancel_done t c"
proof -
  obtain es where "wf_events t = wf_events s @ es" using desk_journal [OF assms(1)] by blast
  then have "cancel_recorded t c" using assms(3) by (auto simp: cancel_done_def cancel_recorded_def)
  moreover have "cancel_held (fst c) t"
    using run_keys [OF assms(1,2)] assms(3) by (auto simp: cancel_done_def cancel_held_def)
  ultimately show ?thesis by (simp add: cancel_done_def)
qed

lemma timing_invs:
  assumes "timing world st0 sent made s" and "desk_inv st0" and "queue_inv st0"
  shows "queue_inv s" and "desk_inv s"
  using closing_inv [OF timing_closing [OF assms(1)] assms(2)] run_inv run_desk_inv assms(2,3) by blast+

lemma timing_inv:
  assumes "timing world st0 sent made st" and "desk_inv st0" and "queue_inv st0"
  shows "distinct (map fst sent) \<and> (\<forall>c \<in> set sent. cancel_done st c)"
  using assms(1)
proof (induction rule: timing.induct)
  case (moves sent made s s')
  then show ?case using cancel_kept [OF r_into_rtranclp timing_invs(1) [OF moves.hyps(1) assms(2,3)]] by blast
next
  case (cancels sent made s cause sid identity orders lifetime t sessions f g now s' w)
  have step: "(desk_trans world)\<^sup>*\<^sup>* s s'"
    by (rule operation_run [OF desk_op.cancel_claimed [OF cancels.hyps(2) cancels.hyps(5)]]) (simp add: cancels.hyps)
  note granted = cancel_granted [OF cancels.hyps(2)]
  have "cancel_done s' (sid, ei_order_id identity)" using granted(2,3) by (simp add: cancel_done_def)
  moreover have "sid \<notin> fst ` set sent" using cancels.IH granted(1) by (auto simp: cancel_done_def)
  ultimately show ?case
    using cancels.IH cancel_kept [OF step timing_invs(1) [OF cancels.hyps(1) assms(2,3)]] by auto
next
  case (closes sent made s more_made s')
  note inv = timing_invs [OF closes.hyps(1) assms(2,3)]
  have "(desk_trans world)\<^sup>*\<^sup>* s s'" using closing_inv [OF closes.hyps(2) inv(2)] by blast
  then show ?case using closes.IH cancel_kept [OF _ inv(1)] by blast
qed simp

text \<open>
  C10. A resting entry is cancelled at the broker at most once. Over any number of sweeps, operator cancels
  and recoveries, with every other process acting at any point of them and whatever the broker, the
  calendar and the clocks answer, no signal's entry gets a second DELETE; every DELETE names exactly the
  order of a cancellation journaled for its signal before it; and the closes the sweeps cause are sent at
  most once each, under their durable claims.
\<close>

theorem cancel_sent_once:
  assumes "fresh_desk st0" and "lifetime_service world st0 sent made st"
  shows "distinct (map fst sent) \<and> (\<forall>c \<in> set sent. cancel_recorded st c)
    \<and> distinct (map pc_client_order_id made) \<and> (\<forall>r \<in> set made. claimed_for st r)"
proof -
  note t = lifetime_service_timing [OF assms(2)]
  show ?thesis
    using timing_inv [OF t fresh_desk_inv [OF assms(1)] fresh_inv [OF assms(1)]]
      closing_inv [OF timing_closing [OF t] fresh_desk_inv [OF assms(1)]] unfolding cancel_done_def by blast
qed


subsection \<open>An operator's cancel returns, and is decided\<close>

text \<open>
  The monotonic clock: finite readings that do not go back, and that grow by at least the poll interval
  over each sleep; the deadline of the polling is finite.
\<close>

definition clock_passes :: "lifetime_config \<Rightarrow> lifetime_turn \<Rightarrow> bool" where
  "clock_passes config turn = (isfinite (lt_monotonic turn 0 + close_cancel_timeout_seconds config)
     \<and> (\<exists>(reading :: nat \<Rightarrow> rat) poll. 0 < poll \<and> (\<forall>k. lt_monotonic turn k = Num (reading k)) \<and> reading 0 \<le> reading 1
          \<and> (\<forall>k. reading (Suc k) + poll \<le> reading (Suc (Suc k)))))"

lemma clock_passes_end:
  assumes "clock_passes config turn"
  shows "\<exists>n. \<not> allow_pending config turn item True n"
proof -
  obtain reading poll where poll: "0 < poll" and r: "\<And>k. lt_monotonic turn k = Num (reading k)"
    and grow: "\<And>k. reading (Suc k) + poll \<le> reading (Suc (Suc k))"
    using assms by (auto simp: clock_passes_def)
  obtain d where d: "lt_monotonic turn 0 + close_cancel_timeout_seconds config = Num d"
    using assms by (auto simp: clock_passes_def elim: isfinite.elims)
  have far: "reading 1 + of_nat n * poll \<le> reading (Suc n)" for n
  proof (induction n)
    case (Suc n)
    then show ?case using grow [of n] by (simp add: algebra_simps)
  qed simp
  obtain n where "(d - reading 1) / poll < of_nat n" using reals_Archimedean2 by blast
  then have "d < reading 1 + of_nat n * poll" using poll by (simp add: divide_less_eq algebra_simps)
  then have "\<not> Num (reading (Suc n)) < Num d" using far [of n] by simp
  then show ?thesis using r d by (intro exI [of _ n]) (simp add: allow_pending_def)
qed

lemma poll_returns:
  assumes "\<not> allow_pending config turn item owner n" and "k \<le> n"
  shows "\<exists>t out. poll_cancel world config turn item claim owner err k s = Some (t, out)"
  using assms(2)
proof (induction "n - k" arbitrary: k s)
  case 0
  then show ?case using assms(1) by (subst poll_cancel.simps) (auto split: prod.split sum.split)
next
  case (Suc m)
  obtain u r where "poll_once world config turn item claim owner err k s = (u, r)" by force
  moreover have "\<exists>t out. poll_cancel world config turn item claim owner err (Suc k) u = Some (t, out)"
    using Suc.hyps(1) [of "Suc k" u] Suc.hyps(2) Suc.prems by simp
  ultimately show ?case by (subst poll_cancel.simps) (auto split: sum.split)
qed

text \<open>Recovery by another process reads once.\<close>

lemma recovery_returns: "\<exists>t out. recover_cancel world config turn item False err s = Some (t, out)"
  by (auto simp: recover_cancel_def poll_cancel.simps [of _ _ _ _ _ False] split: item_payload.split prod.split sum.split)

lemma owner_returns: "clock_passes config turn \<Longrightarrow> \<exists>t out. recover_cancel world config turn item True err s = Some (t, out)"
  using clock_passes_end poll_returns by (fastforce simp: recover_cancel_def split: item_payload.split)

text \<open>A resolution that is not left pending decides the item.\<close>

lemma resolution_decides:
  assumes "resolve_cancel et_date i claim orders why err pending f now s = Ok (s', b)" and "b \<or> \<not> pending"
    and "queue_inv s" and "((i, EntryCancel, d), False) \<in> work_keys s"
  shows "((i, EntryCancel, d), True) \<in> work_keys s'"
proof -
  obtain v where v: "v \<in> set (wf_items s)" "w_id v = i" "w_kind v = EntryCancel" "w_dedup v = d"
    using assms(4) by (auto simp: work_keys_def)
  let ?row = "find_item (\<lambda>w. w_id w = i) s"
  have row: "?row = Some v"
  proof (cases ?row)
    case None
    then show ?thesis using v by (auto simp: find_item_def find_None_iff)
  next
    case (Some u)
    then show ?thesis
      using v find_item_Some [OF Some] assms(3) by (auto simp: queue_inv_def table_inv_def distinct_map dest: inj_onD)
  qed
  let ?refused = "if set_text err then err else recorded_error ?row"
  obtain c ff where verdict: "cancel_verdict claim (effective_orders (cc_order_ids claim) orders s) orders why ?refused = Ok (c, ff)"
    using assms(1) by (auto simp: resolve_cancel_def Let_def bindr_Inr_iff)
  define outcome where "outcome = \<lparr>cx_reason = verdict_reason c ff why, cx_orders = effective_orders (cc_order_ids claim) orders s,
      cx_transport_error = ?refused\<rparr>"
  have "s' = (if cancel_settled v (verdict_status c ff) outcome c err then s
      else settle_cancel et_date v claim (verdict_status c ff) outcome c ff f now s)"
    using assms(1,2) verdict row by (auto simp: resolve_cancel_def Let_def outcome_def split: if_split_asm)
  then consider "s' = s" "cancel_settled v (verdict_status c ff) outcome c err"
    | "s' = settle_cancel et_date v claim (verdict_status c ff) outcome c ff f now s" by (auto split: if_split_asm)
  then show ?thesis
  proof cases
    case 1
    then have "decided v" using v(3) verdict_status_cases [of c ff] by (auto simp: cancel_settled_def decided_def)
    then show ?thesis using 1(1) v by (auto simp: work_keys_def)
  next
    case 2
    let ?v = "v\<lparr>w_status := verdict_status c ff, w_result := CancelResult outcome\<rparr>"
    have "?v \<in> set (wf_items s')" by (rule settle_cancel_effect(1) [OF 2 v(1)])
    moreover have "decided ?v" using v(3) verdict_status_cases [of c ff] by (simp add: decided_def)
    ultimately show ?thesis using v unfolding work_keys_def by (auto intro!: bexI [of _ ?v])
  qed
qed


lemma poll_once_decides:
  assumes "lifetime_turn_ok world turn" and "poll_once world config turn item claim owner err k s = (t, Inr resolved)"
    and "resolved \<or> \<not> allow_pending config turn item owner k" and "queue_inv s" and "((w_id item, EntryCancel, d), False) \<in> work_keys s"
  shows "((w_id item, EntryCancel, d), True) \<in> work_keys t"
proof -
  obtain s1 orders why where e: "cancel_evidence world turn k (lt_polling turn (2 * k) s) = (s1, orders, why)" by (metis prod.collapse)
  let ?s2 = "lt_polling turn (2 * k + 1) s1"
  have "(desk_trans world)\<^sup>*\<^sup>* s s1"
    using rtranclp_trans [OF waiting_run(2) [OF assms(1)] evidence_poll_run [OF assms(1)]] e by (metis fst_conv)
  then have run: "(desk_trans world)\<^sup>*\<^sup>* s ?s2" using waiting_run(2) [OF assms(1)] by (rule rtranclp_trans)
  have "resolve_cancel (dw_et_date world) (w_id item) claim orders why err (allow_pending config turn item owner k)
      (lt_fresh turn ?s2 0) (lt_clock turn k) ?s2 = Ok (t, resolved)"
    using assms(2) by (auto simp: poll_once_def e Let_def split: sum.split_asm)
  then show ?thesis
    by (rule resolution_decides [OF _ assms(3) run_inv [OF run assms(4)]]) (use run_keys [OF run assms(4)] assms(5) in blast)
qed

lemma poll_cancel_decides:
  assumes "lifetime_turn_ok world turn" and "poll_cancel world config turn item claim owner err k s = Some (t, None)" and "owner"
    and "queue_inv s" and "((w_id item, EntryCancel, d), False) \<in> work_keys s"
  shows "((w_id item, EntryCancel, d), True) \<in> work_keys t"
proof -
  let ?pre = "\<lambda>world turn item owner s. lifetime_turn_ok world turn \<and> owner \<and> queue_inv s \<and> ((w_id item, EntryCancel, d), False) \<in> work_keys s"
  have "?pre world turn item owner s \<and> snd (t, None :: failure option) = None
      \<longrightarrow> ((w_id item, EntryCancel, d), True) \<in> work_keys (fst (t, None :: failure option))"
  proof (rule poll_cancel.raw_induct [OF _ assms(2), where P = "\<lambda>world config turn item claim owner err k s y.
      ?pre world turn item owner s \<and> snd y = None \<longrightarrow> ((w_id item, EntryCancel, d), True) \<in> work_keys (fst y)"], intro impI)
    fix self world config turn item claim owner err k s y
    assume IH: "\<And>world config turn item claim owner err k s y. self world config turn item claim owner err k s = Some y
        \<Longrightarrow> ?pre world turn item owner s \<and> snd y = None \<longrightarrow> ((w_id item, EntryCancel, d), True) \<in> work_keys (fst y)"
      and body: "(case poll_once world config turn item claim owner err k s of
        (s, Inl f) \<Rightarrow> Some (s, Some f)
      | (s, Inr resolved) \<Rightarrow>
          if resolved \<or> \<not> owner \<or> \<not> allow_pending config turn item owner k then Some (s, None)
          else self world config turn item claim owner err (Suc k) s) = Some y"
      and pre: "?pre world turn item owner s \<and> snd y = None"
    obtain u r where u: "poll_once world config turn item claim owner err k s = (u, r)" by force
    have run: "(desk_trans world)\<^sup>*\<^sup>* s u" using poll_once_run [of world turn s] u pre by (metis fst_conv)
    obtain resolved where r: "r = Inr resolved" using body pre u by (cases r) auto
    show "((w_id item, EntryCancel, d), True) \<in> work_keys (fst y)"
    proof (cases "resolved \<or> \<not> allow_pending config turn item owner k")
      case True
      then have "resolved \<or> \<not> owner \<or> \<not> allow_pending config turn item owner k" by blast
      then have "fst y = u" using body unfolding u r prod.case sum.case by (metis fst_conv option.inject)
      then show ?thesis using poll_once_decides [OF _ u [unfolded r] True] pre by blast
    next
      case False
      then have "self world config turn item claim owner err (Suc k) u = Some y" using body u r pre by simp
      then show ?thesis using IH pre run_inv [OF run] run_keys [OF run] by blast
    qed
  qed
  then show ?thesis using assms by simp
qed

lemma claim_item:
  assumes "begin_cancel ny utc et_date cause sid identity orders lifetime t sessions f g now s = Ok (s', Inr w)"
  shows "((w_id w, EntryCancel, [FInt sid]), False) \<in> work_keys s'" and "\<exists>claim. w_payload w = CancelPayload claim"
proof -
  define s2 where "s2 = add_item w (appended (cancel_stream (cancel_id f)) ''entry_cancel_requested''
    (PCancelRequested \<lparr>cc_signal_id = sid, cc_cause = cause, cc_identity = identity, cc_lifetime = lifetime,
      cc_order_ids = map o_order_id orders, cc_before = orders\<rparr>) s)"
  have s': "s' = s2 \<or> (\<exists>key kd args. s' = notify key kd args g now s2)" and w: "w_kind w = EntryCancel" "w_dedup w = [FInt sid]"
    and p: "\<exists>claim. w_payload w = CancelPayload claim"
    using assms by (auto simp: begin_cancel_def claim_cancel_def Let_def bindr_Inr_iff s2_def split: option.split_asm if_split_asm)
  have "((w_id w, EntryCancel, [FInt sid]), False) \<in> work_keys s2"
    using work_keys_add(2) [of w] w unfolding s2_def by simp
  then show "((w_id w, EntryCancel, [FInt sid]), False) \<in> work_keys s'" using s' work_keys_notify by blast
  show "\<exists>claim. w_payload w = CancelPayload claim" by (fact p)
qed

text \<open>A claim that returns sent one DELETE and left the cancellation decided, or sent none and was refused.\<close>

lemma claim_and_cancel_returns:
  assumes "lifetime_turn_ok world turn" and "clock_passes config turn" and "queue_inv s"
  obtains t sent out where "claim_and_cancel world config turn cause sid identity orders lifetime sessions s = Some (t, sent, out)"
    and "length sent \<le> 1" and "\<And>why. out = Inr (Some why) \<Longrightarrow> sent = []"
    and "out = Inr None \<Longrightarrow> sent = [(sid, ei_order_id identity)] \<and> (\<exists>i. ((i, EntryCancel, [FInt sid]), True) \<in> work_keys t)"
proof -
  let ?b = "begin_cancel (dw_ny world) (dw_utc world) (dw_et_date world) cause sid identity orders lifetime (lt_clock turn 1) sessions
              (lt_fresh turn s 0) (lt_fresh turn s 1) (lt_clock turn 2) s"
  show thesis
  proof (cases "\<exists>s1 item. ?b = Inr (s1, Inr item)")
    case False
    then consider e where "?b = Inl e" | s1 why where "?b = Ok (s1, Inl why)" by (metis obj_sumE prod.collapse)
    then obtain t out where "claim_and_cancel world config turn cause sid identity orders lifetime sessions s = Some (t, [], out)" "out \<noteq> Inr None"
      by cases (auto simp: claim_and_cancel_def)
    then show thesis using that by auto
  next
    case True
    then obtain s1 item where b: "?b = Ok (s1, Inr item)" by blast
    have "unused (cancel_id (lt_fresh turn s 0)) s" "unused (lt_fresh turn s 1) s" "cancel_id (lt_fresh turn s 0) \<noteq> lt_fresh turn s 1"
      using assms(1) by (auto simp: lifetime_turn_ok_def fresh_ids_def)
    then have "(desk_trans world)\<^sup>*\<^sup>* s s1" by (intro operation_run [OF desk_op.cancel_claimed [OF b]]) auto
    then have inv: "queue_inv s1" using run_inv assms(3) by blast
    obtain claim where p: "w_payload item = CancelPayload claim" using claim_item(2) [OF b] by blast
    obtain t r where r: "recover_cancel world config turn item True (map_option fst (lt_delete turn (ei_order_id identity))) s1 = Some (t, r)"
      using owner_returns [OF assms(2)] by blast
    have "((w_id item, EntryCancel, [FInt sid]), True) \<in> work_keys t" if "r = None"
      using poll_cancel_decides [OF assms(1) _ _ inv claim_item(1) [OF b]] r p that by (auto simp: recover_cancel_def)
    then have decided: "\<exists>i. ((i, EntryCancel, [FInt sid]), True) \<in> work_keys t" if "r = None" using that by blast
    have "claim_and_cancel world config turn cause sid identity orders lifetime sessions s
        = Some (t, [(sid, ei_order_id identity)], case r of Some f \<Rightarrow> Inl f | None \<Rightarrow> Inr None)"
      unfolding claim_and_cancel_def b submit_cancel_def by (simp add: r split: option.split)
    then show thesis by (rule that) (use decided in \<open>simp_all split: option.split_asm\<close>)
  qed
qed


lemma cancel_of_decided:
  assumes "queue_inv s" and "((i, EntryCancel, [FInt sid]), True) \<in> work_keys s"
  shows "\<exists>w. cancel_of sid s = Some w \<and> w_status w \<in> {Accepted, Rejected, Unknown}"
proof -
  obtain v where v: "v \<in> set (wf_items s)" "w_kind v = EntryCancel" "w_dedup v = [FInt sid]" "decided v"
    using assms(2) by (auto simp: work_keys_def)
  show ?thesis
  proof (cases "cancel_of sid s")
    case None
    then show ?thesis using v by (auto simp: cancel_of_def find_item_def find_None_iff)
  next
    case (Some w)
    then have "w \<in> set (wf_items s)" "w_kind w = EntryCancel" "w_dedup w = [FInt sid]" using find_item_Some unfolding cancel_of_def by blast+
    then have "w = v" using key_unique [OF assms(1)] v by (simp add: item_key_def)
    then show ?thesis using Some v by (simp add: decided_def)
  qed
qed

lemma cancel_confirmed_returns:
  assumes "lifetime_turn_ok world turn" and "clock_passes config turn" and "queue_inv s"
  shows "\<exists>t sent out. cancel_confirmed world config turn sig identity orders s = Some (t, sent, out) \<and> length sent \<le> 1
    \<and> (\<forall>r. out = Inr r \<longrightarrow> (if rc_status r = ''submitted'' then sent = [(sg_id sig, ei_order_id identity)]
         \<and> rc_work_status r \<in> {Some Accepted, Some Rejected, Some Unknown} else sent = []))"
proof -
  obtain t sent out where c: "claim_and_cancel world config turn ''operator'' (sg_id sig) identity orders None None s = Some (t, sent, out)"
    and one: "length sent \<le> 1" and refusal: "\<And>why. out = Inr (Some why) \<Longrightarrow> sent = []"
    and granted: "out = Inr None \<Longrightarrow> sent = [(sg_id sig, ei_order_id identity)] \<and> (\<exists>i. ((i, EntryCancel, [FInt (sg_id sig)]), True) \<in> work_keys t)"
    using claim_and_cancel_returns [OF assms, of "''operator''" "sg_id sig" identity orders None None] by metis
  have inv: "queue_inv t"
    using run_inv [OF closing_desk_run [OF timing_closing [OF claim_and_cancel_timing [OF assms(1) c]]] assms(3)] .
  consider f where "out = Inl f" | why where "out = Inr (Some why)" | "out = Inr None" by (metis obj_sumE option.exhaust)
  then show ?thesis
  proof cases
    case 3
    let ?u = "lt_meanwhile turn 5 t"
    have run: "(desk_trans world)\<^sup>*\<^sup>* t ?u" by (rule waiting_run(1) [OF assms(1)])
    obtain i where "((i, EntryCancel, [FInt (sg_id sig)]), True) \<in> work_keys ?u" using granted [OF 3] run_keys [OF run inv] by blast
    then obtain w where "cancel_of (sg_id sig) ?u = Some w" "w_status w \<in> {Accepted, Rejected, Unknown}"
      using cancel_of_decided [OF run_inv [OF run inv]] by blast
    then show ?thesis using c 3 granted [OF 3] by (simp add: cancel_confirmed_def Let_def cancel_reply_def)
  qed (use c one refusal in \<open>simp_all add: cancel_confirmed_def refused_def Let_def\<close>)
qed

text \<open>
  C11. An operator's cancel always comes to an answer. While the clock advances, whatever other processes
  do and whatever the broker answers, it returns; it sends at most one DELETE, and none for a preview or
  a refusal; and a cancel that is reported as submitted was sent for that signal and is decided by then:
  confirmed unfilled, overtaken by a protected fill, or unknown.
\<close>

theorem operator_cancel_decided:
  assumes "fresh_desk st0" and "(desk_trans world)\<^sup>*\<^sup>* st0 st" and "lifetime_turn_ok world turn" and "clock_passes config turn"
  shows "\<exists>st' sent out. cancel_resting_entry world config turn sid confirm st = Some (st', sent, out) \<and> length sent \<le> 1
    \<and> (\<forall>r. out = Inr r \<longrightarrow> (if rc_status r = ''submitted'' then confirm \<and> (\<exists>oid. sent = [(sid, oid)])
         \<and> rc_work_status r \<in> {Some Accepted, Some Rejected, Some Unknown} else sent = []))"
proof (cases "find_signal (\<lambda>s. sg_id s = sid) st")
  case None
  then show ?thesis by (simp add: cancel_resting_entry_def)
next
  case (Some sig)
  have sid: "sg_id sig = sid" using Some by (auto simp: find_signal_def dest: find_Some_props)
  have inv: "queue_inv st" by (rule run_inv [OF assms(2) fresh_inv [OF assms(1)]])
  obtain s1 r where p: "cancel_precheck turn sig st = (s1, r)" by force
  have r1: "(desk_trans world)\<^sup>*\<^sup>* st s1" using precheck_run [OF assms(3), of st sig] p by simp
  note eq = cancel_resting_entry_def [of world config turn sid confirm st, unfolded Some option.case p prod.case Let_def]
  show ?thesis
  proof (cases "\<exists>identity orders s3. r = Inr (Inr identity) \<and> lt_read turn (ei_order_id identity) = Inr orders
      \<and> observe_if confirm world turn orders (lt_meanwhile turn 3 s1) = Ok s3 \<and> resting_group_refusal identity orders = Ok None \<and> confirm")
    case False
    then show ?thesis unfolding eq
      by (auto simp: refused_def cancel_reply_def Let_def split: sum.split option.split)
  next
    case True
    then obtain identity orders s3 where t: "r = Inr (Inr identity)" "lt_read turn (ei_order_id identity) = Inr orders"
      "observe_if confirm world turn orders (lt_meanwhile turn 3 s1) = Ok s3" "resting_group_refusal identity orders = Ok None" confirm by blast
    have same: "cancel_resting_entry world config turn sid confirm st = cancel_confirmed world config turn sig identity orders (lt_meanwhile turn 4 s3)"
      unfolding eq t(1) sum.case t(2) t(3) t(4) option.case using t(5) by simp
    have "(desk_trans world)\<^sup>*\<^sup>* (lt_meanwhile turn 3 s1) s3" using t(3,5) observed_run [OF assms(3)] by (simp add: observe_if_def)
    then have "(desk_trans world)\<^sup>*\<^sup>* st (lt_meanwhile turn 4 s3)"
      by (meson after_waiting [OF assms(3)] r1 rtranclp_trans)
    then have "queue_inv (lt_meanwhile turn 4 s3)" using run_inv inv by blast
    then obtain u sent out where "cancel_resting_entry world config turn sid confirm st = Some (u, sent, out)" "length sent \<le> 1"
      "\<forall>r. out = Inr r \<longrightarrow> (if rc_status r = ''submitted'' then sent = [(sg_id sig, ei_order_id identity)]
           \<and> rc_work_status r \<in> {Some Accepted, Some Rejected, Some Unknown} else sent = [])"
      using cancel_confirmed_returns [OF assms(3,4)] unfolding same by blast
    then show ?thesis using t(5) sid by (intro exI [of _ u] exI [of _ sent] exI [of _ out]) (cases out; simp split: if_split_asm)
  qed
qed


subsection \<open>The sweep returns\<close>

lemma claim_and_cancel_total:
  assumes "clock_passes config turn"
  shows "\<exists>y. claim_and_cancel world config turn cause sid identity orders lifetime sessions s = Some y"
proof -
  have "\<exists>y. submit_cancel world config turn sid item identity t = Some y" for item t
    using owner_returns [OF assms, of world item "map_option fst (lt_delete turn (ei_order_id identity))" t] by (auto simp: submit_cancel_def)
  then have ne: "submit_cancel world config turn sid item identity t \<noteq> None" for item t by (metis option.distinct(1))
  show ?thesis unfolding claim_and_cancel_def by (auto split: sum.split option.split dest: notE [OF ne])
qed

lemma sweep_signal_total:
  assumes "clock_passes config turn"
  shows "\<exists>y. sweep_signal world config turn sig mem s = Some y"
proof -
  have act: "\<exists>y. act_on_lifetime world config turn sig lifetime identity orders parent sessions t = Some y" for lifetime identity orders parent sessions t
    using claim_and_cancel_total [OF assms, of world "''deadline''" "sg_id sig" identity orders "Some lifetime" sessions t]
    by (auto simp: act_on_lifetime_def split: sum.split option.split lifetime_action.split prod.split)
  have "\<exists>y. reconcile_signal world config turn sig lifetime s = Some y" for lifetime
    using act by (auto simp: reconcile_signal_def Let_def split: sum.split option.split)
  then have ne: "reconcile_signal world config turn sig lifetime s \<noteq> None" for lifetime by (metis option.distinct(1))
  show ?thesis
    unfolding sweep_signal_def by (auto split: sum.split option.split lifetime_policy.split prod.split dest: notE [OF ne])
qed

lemma sweep_each_total:
  "\<forall>i. clock_passes config (turns i) \<Longrightarrow> \<exists>y. sweep_each world config turns blocked sigs mem s = Some y"
proof (induction sigs arbitrary: mem s)
  case (Cons sig sigs)
  show ?case
  proof (cases "sg_id sig \<in> set blocked")
    case False
    obtain s1 mem1 c m out where one: "sweep_signal world config (turns (sg_id sig)) sig (pop_failures (sg_id sig) mem) s = Some (s1, mem1, c, m, out)"
      using sweep_signal_total [of config "turns (sg_id sig)"] Cons.prems by (metis prod.collapse)
    obtain s2 mem2 ns where after: "after_sweep config (turns (sg_id sig)) (sg_id sig) (failures_of (sg_id sig) mem) out mem1 s1 = (s2, mem2, ns)"
      by (metis prod.collapse)
    obtain y where "sweep_each world config turns blocked sigs mem2 s2 = Some y" using Cons.IH [OF Cons.prems] by blast
    then show ?thesis using False one after by (cases y) simp
  qed (use Cons in simp)
qed simp

lemma recover_cancels_total: "\<exists>y. recover_cancels_each world config turns items s = Some y"
proof (induction items arbitrary: s)
  case (Cons item items)
  obtain u r where "recover_cancel world config (turns (w_id item)) item False None s = Some (u, r)" using recovery_returns by blast
  then show ?case using Cons.IH [of u] by (cases r) auto
qed simp

text \<open>While the clocks advance a reconciliation returns; recovery needs no clock.\<close>

theorem reconcile_returns:
  assumes "\<forall>i. clock_passes config (lp_signals pass i)"
  shows "\<exists>st' mem' sent made out. reconcile_lifetimes world config pass mem st = Some (st', mem', sent, made, out)"
proof -
  obtain s r where "recover_cancels world config (lp_items pass) st = Some (s, r)"
    using recover_cancels_total [of world config "lp_items pass"] by (metis recover_cancels_def prod.collapse)
  moreover have "\<exists>y. sweep_each world config (lp_signals pass) blocked live mem0 u = Some y" for blocked live mem0 u
    by (rule sweep_each_total [OF assms])
  ultimately show ?thesis by (cases r) (fastforce simp: reconcile_lifetimes_def Let_def split: option.split)+
qed

subsection \<open>A resume needs evidence\<close>

lemma assessed_matches:
  assumes "assess_lifetime ny utc policy identity parent now sessions = Ok d" and "ld_action d \<noteq> Review"
  shows "identity_matches identity parent = Ok True"
  using assms by (auto simp: assess_lifetime_def Let_def bindr_Inr_iff decision_def split: if_split_asm)

lemma resume_each_append:
  "resume_each world turns (xs @ ys) st = (case resume_each world turns xs st of (s1, b1) \<Rightarrow>
     (case resume_each world turns ys s1 of (s2, b2) \<Rightarrow> (s2, b1 @ b2)))"
  by (induction xs arbitrary: st) (simp_all split: prod.split)

lemma resume_each_clear:
  assumes "sg_id s \<notin> set (snd (resume_each world turns (pre @ s # post) st))"
  shows "snd (blocks_resume world (turns (sg_id s)) s (fst (resume_each world turns pre st))) = Inr False"
  using assms by (auto simp: resume_each_append split: prod.split_asm if_split_asm)

text \<open>
  The evidence behind a resume, on the records themselves: the accepted entry item that stands behind the
  identity of the order, an order without a partial fill, and a holding close that is not in doubt.
\<close>

definition entry_behind :: "signal \<Rightarrow> wf_state \<Rightarrow> entry_identity \<Rightarrow> bool" where
  "entry_behind s st i = (\<exists>w \<in> set (wf_items st). w_kind w = Entry \<and> w_dedup w = [FInt (sg_id s)] \<and> w_status w = Accepted
     \<and> (case w_result w of EntryResult a \<Rightarrow> or_order_id a | _ \<Rightarrow> None) = sg_broker_order_id s
     \<and> ei_order_id i = str_or (sg_broker_order_id s) []
     \<and> (\<exists>r side. item_request w = Some r \<and> rq_side r = Some side \<and> ei_client_order_id i = str_or (rq_client_order_id r) []
          \<and> ei_symbol i = rq_symbol r \<and> ei_side i = lower side \<and> ei_quantity i = wire_of_float (rq_quantity r)))"

definition no_partial_fill :: "order_observation \<Rightarrow> bool" where
  "no_partial_fill x = (case o_filled_quantity x of
     WDec f \<Rightarrow> f \<le> 0 \<or> (case o_quantity x of WDec q \<Rightarrow> q \<le> f | WInf up \<Rightarrow> \<not> up | _ \<Rightarrow> False)
   | WInf up \<Rightarrow> up \<longrightarrow> (\<exists>q. o_quantity x = WDec q) \<or> (\<exists>b. o_quantity x = WInf b)
   | _ \<Rightarrow> False)"

definition close_settled :: "string \<Rightarrow> wf_state \<Rightarrow> bool" where
  "close_settled rid st = (case get_close_request rid st of
     None \<Rightarrow> True | Some c \<Rightarrow> cr_status c \<noteq> ''failed'' \<and> cr_status c \<noteq> ''unknown'')"

lemma whole_leg: "partial_leg x = Ok False \<Longrightarrow> no_partial_fill x"
  by (cases "o_filled_quantity x"; cases "o_quantity x")
    (auto simp: partial_leg_def no_partial_fill_def Decimal_def andr_def split: if_split_asm)

lemma identity_behind: "entry_identity_of s st = Inr (Some i) \<Longrightarrow> entry_behind s st i"
proof -
  assume a: "entry_identity_of s st = Inr (Some i)"
  then obtain w where w: "accepted_entry (sg_id s) st = Some w"
    by (auto simp: entry_identity_of_def split: option.split_asm)
  have "w \<in> set (wf_items st)" "w_kind w = Entry" "w_dedup w = [FInt (sg_id s)]" "w_status w = Accepted"
    using find_item_Some [OF w [unfolded accepted_entry_def]] by auto
  then show ?thesis
    using a unfolding entry_behind_def
    by (intro bexI [of _ w]) (auto simp: entry_identity_of_def w split: if_split_asm option.split_asm)
qed

lemma clear_verdict:
  assumes "resume_verdict d (get_close_request rid st) orders = Inr False"
  shows "ld_action d \<noteq> Review \<and> close_settled rid st \<and> list_all no_partial_fill orders"
proof -
  have v: "orr (Ok (ld_action d = Review \<or> close_failed (get_close_request rid st))) (anyr partial_leg orders) = Ok False"
    using assms by (auto simp: resume_verdict_def split: sum.split_asm)
  then have "ld_action d \<noteq> Review" "\<not> close_failed (get_close_request rid st)" "\<forall>x \<in> set orders. partial_leg x = Ok False"
    by (auto simp: orr_def anyr_False_iff split: if_split_asm)
  then show ?thesis using whole_leg by (auto simp: close_failed_def close_settled_def list_all_iff split: option.split)
qed

text \<open>
  C16. A resume is not possible over open questions. The positions are looked at one after the other while
  other processes act. One with a lifetime that still has something to time (no fill is recorded, or the
  policy has a holding deadline) is not among the blockers only if its stored policy could be read, an
  accepted entry item names the broker's order when it is looked up, the order group was read, the entry
  order is exactly the one submitted and its assessment asks for no review, the holding close as it then
  stands neither failed nor is unknown, and no order of the group is partially filled.
\<close>

theorem resume_needs_evidence:
  assumes "get_active_positions st = pre @ s # post" and "sg_id s \<notin> set (snd (resume_blockers world turns st))"
    and "s0 = fst (resume_each world turns pre st)"
    and "s1 = lt_meanwhile (turns (sg_id s)) 0 s0" and "s2 = lt_meanwhile (turns (sg_id s)) 1 s1"
  shows "entry_lifetime_of (sg_policies s) = Ok None
    \<or> (\<exists>lifetime. entry_lifetime_of (sg_policies s) = Ok (Some lifetime)
         \<and> (sg_executed_at s \<noteq> None \<and> \<not> has_holding_deadline lifetime
         \<or> (\<exists>identity orders parent sessions d. entry_behind s s1 identity
             \<and> lt_read (turns (sg_id s)) (ei_order_id identity) = Inr orders
             \<and> parent \<in> set orders \<and> same_order identity parent
             \<and> sessions_for world (turns (sg_id s)) lifetime parent = Inr sessions
             \<and> assess_lifetime (dw_ny world) (dw_utc world) lifetime identity parent (lt_clock (turns (sg_id s)) 4) sessions = Ok d
             \<and> ld_action d \<noteq> Review
             \<and> close_settled (holding_request_id (turns (sg_id s)) (sg_id s) (ei_order_id identity)) s2
             \<and> list_all no_partial_fill orders)))"
proof -
  have clear: "snd (blocks_resume world (turns (sg_id s)) s s0) = Inr False"
    unfolding assms(3) by (rule resume_each_clear [of _ _ _ _ post]) (use assms(1,2) in \<open>simp add: resume_blockers_def\<close>)
  show ?thesis
  proof (cases "\<exists>lifetime. entry_lifetime_of (sg_policies s) = Ok (Some lifetime) \<and> \<not> nothing_left_to_time s lifetime")
    case False
    then show ?thesis
      using clear by (auto simp: blocks_resume_def nothing_left_to_time_def split: sum.split_asm option.split_asm)
  next
    case True
    then obtain lifetime where l: "entry_lifetime_of (sg_policies s) = Ok (Some lifetime)" "\<not> nothing_left_to_time s lifetime" by blast
    obtain identity where i: "entry_identity_of s s1 = Inr (Some identity)"
      using clear l unfolding assms(4) by (auto simp: blocks_resume_def Let_def split: sum.split_asm option.split_asm)
    let ?rid = "holding_request_id (turns (sg_id s)) (sg_id s) (ei_order_id identity)"
    have r: "bindr (lt_read (turns (sg_id s)) (ei_order_id identity)) (\<lambda>orders.
        case order_by_id (ei_order_id identity) orders of
          None \<Rightarrow> Inl (''StopIteration'', [])
        | Some parent \<Rightarrow> bindr (sessions_for world (turns (sg_id s)) lifetime parent) (\<lambda>sessions.
            (case assess_lifetime (dw_ny world) (dw_utc world) lifetime identity parent (lt_clock (turns (sg_id s)) 4) sessions of
               Inl e \<Rightarrow> Inl (failure_of e) | Inr d \<Rightarrow> resume_verdict d (get_close_request ?rid s2) orders))) = Inr False"
      using clear l i by (simp add: blocks_resume_def Let_def assms(4) [symmetric] assms(5) [symmetric] del: One_nat_def)
    obtain orders parent where o: "lt_read (turns (sg_id s)) (ei_order_id identity) = Inr orders"
      "order_by_id (ei_order_id identity) orders = Some parent"
      using r by (auto simp: bindr_Inr_iff split: option.split_asm)
    obtain sessions where ss: "sessions_for world (turns (sg_id s)) lifetime parent = Inr sessions"
      using r o by (auto simp: bindr_Inr_iff)
    obtain d where d: "assess_lifetime (dw_ny world) (dw_utc world) lifetime identity parent (lt_clock (turns (sg_id s)) 4) sessions = Ok d"
      using r o ss by (auto split: sum.split_asm)
    have "resume_verdict d (get_close_request ?rid s2) orders = Inr False" using r o ss d by simp
    note v = clear_verdict [OF this]
    have "parent \<in> set orders" using o(2) by (auto simp: order_by_id_def dest: find_Some_props)
    moreover have "same_order identity parent" using v by (intro identity_same assessed_matches [OF d]) simp
    ultimately show ?thesis using l(1) identity_behind [OF i] o(1) ss d v by blast
  qed
qed


subsection \<open>An example\<close>

definition demo_ids :: "wf_state \<Rightarrow> nat \<Rightarrow> string" where
  "demo_ids s i = new_id s @ replicate i (CHR ''n'')"

lemma demo_ids_fresh: "fresh_ids (demo_ids s) s"
proof -
  have "hd (demo_ids s 1) = CHR ''n''" "hd (cancel_id (demo_ids s 0)) = CHR ''c''" by (simp_all add: demo_ids_def new_id_def cancel_id_def)
  then have "cancel_id (demo_ids s 0) \<noteq> demo_ids s 1" by auto
  moreover have "inj (demo_ids s)" by (auto simp: inj_def demo_ids_def dest: arg_cong [of _ _ length])
  ultimately show ?thesis unfolding fresh_ids_def by (auto intro!: long_unused simp: demo_ids_def cancel_id_def)
qed

text \<open>A broker whose group is the entry and its two exits; nothing is heard after the DELETE, and polling ends.\<close>

definition demo_leg :: "string \<Rightarrow> string \<Rightarrow> string \<Rightarrow> string \<Rightarrow> order_observation" where
  "demo_leg oid cid side status = \<lparr>o_order_id = oid, o_client_order_id = cid, o_symbol = ''spy'', o_side = side, o_status = status,
     o_quantity = wire_of_float (Num 10), o_filled_quantity = WDec 0, o_average_fill_price = None, o_limit_price = None, o_stop_price = None,
     o_order_type = ''limit'', o_order_class = ''bracket'', o_updated_at = 5, o_submitted_at = Some 5, o_filled_at = None,
     o_replaces = None, o_replaced_by = None, o_parent_order_id = None, o_source = ''stream''\<rparr>"

definition demo_bracket :: "order_observation list" where
  "demo_bracket = [demo_leg ''o1'' (command_id ''a1'') ''buy'' ''accepted'', demo_leg ''o2'' ''c2'' ''sell'' ''new'',
     demo_leg ''o3'' ''c3'' ''sell'' ''held'']"

definition demo_lifetime_config :: lifetime_config where
  "demo_lifetime_config = \<lparr>lifetime_evidence_review_after_failures = 5, broker_request_timeout_seconds = Num 10,
     close_cancel_timeout_seconds = Num 10\<rparr>"

definition demo_lifetime_turn :: lifetime_turn where
  "demo_lifetime_turn = \<lparr>lt_meanwhile = \<lambda>_ s. s, lt_polling = \<lambda>_ s. s, lt_fresh = demo_ids, lt_clock = \<lambda>_. 9,
     lt_monotonic = \<lambda>k. Num (of_nat k), lt_read = \<lambda>_. Inr demo_bracket, lt_polled = \<lambda>_. Inl (''TimeoutError'', []),
     lt_delete = \<lambda>_. None, lt_calendar = None, lt_session_open = Inr True, lt_supports_cancel = True, lt_scope = ''paper'',
     lt_sha256 = \<lambda>_. [], lt_close = demo_close_turn\<rparr>"

lemma demo_lifetime_turn_ok: "lifetime_turn_ok world demo_lifetime_turn"
  by (simp add: lifetime_turn_ok_def demo_lifetime_turn_def demo_ids_fresh demo_close_turn_ok)

lemma demo_clock_passes: "clock_passes demo_lifetime_config demo_lifetime_turn"
  unfolding clock_passes_def
proof (intro conjI exI [of _ of_nat] exI [of _ 1])
  show "isfinite (lt_monotonic demo_lifetime_turn 0 + close_cancel_timeout_seconds demo_lifetime_config)"
    by (simp add: demo_lifetime_turn_def demo_lifetime_config_def)
qed (simp_all add: demo_lifetime_turn_def)

definition demo_entered :: wf_state where
  "demo_entered = report_entry (dw_et_date demo_world) (demo_turn (Returned demo_answer)) demo_claimed demo_answer demo_submitting"

lemma demo_entered_run: "(desk_trans demo_world)\<^sup>*\<^sup>* demo_desk demo_entered"
proof -
  have "w_token demo_claimed \<noteq> None" by (simp add: demo_claimed_def)
  then have "(desk_trans demo_world)\<^sup>*\<^sup>* demo_submitting demo_entered"
    unfolding demo_entered_def using report_run [OF demo_turn_ok] by blast
  then show ?thesis using demo_run by (rule rtranclp_trans [rotated])
qed

definition demo_accepted :: work_item where
  "demo_accepted = demo_claimed\<lparr>w_status := Accepted, w_lease_until := None, w_result := EntryResult demo_answer\<rparr>"

definition demo_resting_signal :: signal where
  "demo_resting_signal = demo_signal\<lparr>sg_status := ''EXECUTED'', sg_quantity := Some (Num 10), sg_notional_value := Some (Num 4000),
     sg_risk_dollars := Num 100, sg_broker_order_id := Some ''o1''\<rparr>"

lemma demo_entered_eq:
  "demo_entered = demo_submitting\<lparr>wf_signals := [demo_resting_signal], wf_items := [demo_accepted], wf_next := 4,
     wf_events := wf_events demo_submitting @ [\<lparr>ev_id = 3, ev_stream = entry_stream (command_id ''a1''), ev_kind = ''entry_resolved'',
       ev_key = None, ev_payload = PResolved Accepted False\<rparr>]\<rparr>"
proof -
  define row where "row = demo_claimed\<lparr>w_status := Submitting, w_lease_until := None\<rparr>"
  have items: "find_item (\<lambda>w. w_id w = w_id demo_claimed \<and> w_status w \<in> set ENTRY_BLOCKING) demo_submitting = Some row"
    "w_token row = w_token demo_claimed" "w_id row = command_id ''a1''" "w_status row = Submitting"
    by (simp_all add: find_item_def demo_submitting_def ENTRY_BLOCKING_def row_def demo_claimed_def demo_item_def)
  have res: "resolved_status demo_answer = Accepted" by (simp add: resolved_status_def demo_answer_def set_text_def)
  have sid: "(case item_request demo_claimed of Some r \<Rightarrow> rq_signal_id r | None \<Rightarrow> 0) = 7"
    by (simp add: item_request_def demo_claimed_def demo_item_def demo_request_def)
  have acc: "row\<lparr>w_status := Accepted, w_result := EntryResult demo_answer\<rparr> = demo_accepted" by (simp add: row_def demo_accepted_def)
  have step: "appended (entry_stream (command_id ''a1'')) ''entry_resolved'' (PResolved Accepted False)
        (settle_signal 7 demo_answer (update_item (command_id ''a1'') (\<lambda>_. demo_accepted) demo_submitting))
      = demo_submitting\<lparr>wf_signals := [demo_resting_signal], wf_items := [demo_accepted], wf_next := 4,
     wf_events := wf_events demo_submitting @ [\<lparr>ev_id = 3, ev_stream = entry_stream (command_id ''a1''), ev_kind = ''entry_resolved'',
       ev_key = None, ev_payload = PResolved Accepted False\<rparr>]\<rparr>"
    by (simp add: settle_signal_def find_signal_def update_signal_def update_item_def demo_submitting_def demo_checking_def demo_queued_def
        demo_desk_def demo_claimed_def demo_item_def demo_signal_def demo_resting_signal_def demo_answer_def)
  have folds: "folds_into_auto_digest (\<lambda>t. t) 7 0 (demo_submitting\<lparr>wf_signals := [demo_resting_signal], wf_items := [demo_accepted],
      wf_next := n, wf_events := es\<rparr>)" for n es
    by (simp add: folds_into_auto_digest_def entry_of_def find_item_def find_signal_def demo_accepted_def demo_claimed_def demo_item_def
        demo_resting_signal_def demo_signal_def)
  show ?thesis
    unfolding demo_entered_def report_entry_def resolve_entry_def items(1) option.case Let_def
    using items(2-4) res sid acc step folds by (simp add: demo_world_def demo_turn_def del: wf_append_None)
qed

definition demo_observed_state :: wf_state where
  "demo_observed_state = demo_entered\<lparr>wf_next := 7, wf_orders := [(''o1'', 4, demo_bracket ! 0), (''o2'', 5, demo_bracket ! 1), (''o3'', 6, demo_bracket ! 2)],
     wf_events := wf_events demo_entered @ map (\<lambda>(i, x). \<lparr>ev_id = i, ev_stream = order_stream (o_order_id x), ev_kind = ''order_observed'',
       ev_key = Some (observation_key o_status x), ev_payload = POrder x\<rparr>) [(4, demo_bracket ! 0), (5, demo_bracket ! 1), (6, demo_bracket ! 2)]\<rparr>"

lemma demo_group_observed: "observe_orders o_status f now demo_bracket demo_entered = Ok demo_observed_state"
  by (simp add: demo_bracket_def demo_leg_def observe_order_def wf_append_def event_by_key_def append_new_def demo_entered_eq demo_submitting_def
      demo_checking_def demo_queued_def demo_desk_def project_event_def project_order_def observation_key_def
      after_projection_def set_view_def BROKER_TERMINAL_STATUSES_def Let_def demo_observed_state_def)

definition demo_cancel_identity :: entry_identity where
  "demo_cancel_identity = \<lparr>ei_order_id = ''o1'', ei_client_order_id = command_id ''a1'', ei_symbol = ''spy'', ei_side = ''buy'',
     ei_quantity = wire_of_float (Num 10)\<rparr>"

lemma demo_quantities:
  "wire_eq (wire_of_float (Num 10)) (wire_of_float (Num 10)) = Ok True" "wire_is (WDec 0) 0 = Ok True"
  by (simp_all add: wire_eq_def wire_is_def wire_of_float_def Decimal_def)

lemma demo_accepted_fields:
  "w_kind demo_accepted = Entry" "w_dedup demo_accepted = [FInt 7]" "w_status demo_accepted = Accepted"
  "w_result demo_accepted = EntryResult demo_answer" "item_request demo_accepted = Some demo_approved"
  by (simp_all add: demo_accepted_def demo_claimed_def demo_item_def item_request_def)

lemma demo_precheck: "cancel_precheck demo_lifetime_turn demo_resting_signal demo_entered = (demo_entered, Inr (Inr demo_cancel_identity))"
proof -
  have items: "wf_items demo_entered = [demo_accepted]" "wf_closes demo_entered = []"
    by (simp_all add: demo_entered_eq demo_submitting_def demo_checking_def demo_queued_def demo_desk_def)
  have sig: "sg_id demo_resting_signal = 7" "sg_status demo_resting_signal = EXECUTED" "sg_executed_at demo_resting_signal = None"
    "sg_broker_order_id demo_resting_signal = Some ''o1''"
    by (simp_all add: demo_resting_signal_def demo_signal_def EXECUTED_def)
  have "lower BUY = ''buy''" by code_simp
  then have "entry_identity_of demo_resting_signal demo_entered = Inr (Some demo_cancel_identity)"
    by (simp add: entry_identity_of_def accepted_entry_def find_item_def items demo_accepted_fields sig demo_answer_def demo_cancel_identity_def demo_request_def str_or_def
        command_id_def)
  then show ?thesis
    by (simp add: cancel_precheck_def demo_lifetime_turn_def cancel_of_def find_item_def items demo_accepted_fields sig active_close_requests_def set_text_def Let_def)
qed

lemma demo_legs:
  "identity_matches demo_cancel_identity (demo_leg ''o1'' (command_id ''a1'') ''buy'' ''accepted'') = Ok True"
  "foreign_exit demo_cancel_identity (demo_leg oid cid ''sell'' status) = Ok False"
  "changed_leg demo_cancel_identity (demo_leg oid cid side status) = Ok False"
  by (simp_all add: identity_matches_def foreign_exit_def changed_leg_def demo_leg_def demo_cancel_identity_def demo_quantities unreplaced_def
      set_text_def command_id_def)

lemma demo_resting_refusal: "resting_entry_refusal demo_cancel_identity (demo_leg ''o1'' (command_id ''a1'') ''buy'' ''accepted'') = Ok None"
  unfolding resting_entry_refusal_def demo_legs(1)
  by (simp add: demo_leg_def demo_quantities WORKING_ENTRY_def)

lemma demo_group_resting: "resting_group_refusal demo_cancel_identity demo_bracket = Ok None"
proof -
  have "order_by_id ''o1'' demo_bracket = Some (demo_leg ''o1'' (command_id ''a1'') ''buy'' ''accepted'')"
    by (simp add: order_by_id_def demo_bracket_def demo_leg_def)
  moreover have "exits_of demo_cancel_identity demo_bracket = [demo_leg ''o2'' ''c2'' ''sell'' ''new'', demo_leg ''o3'' ''c3'' ''sell'' ''held'']"
    by (simp add: exits_of_def demo_bracket_def demo_leg_def demo_cancel_identity_def)
  moreover have "ei_order_id demo_cancel_identity = ''o1''" by (simp add: demo_cancel_identity_def)
  moreover have "o_order_class (demo_leg a b c d) = ''bracket''" for a b c d by (simp add: demo_leg_def)
  ultimately show ?thesis
    by (simp add: resting_group_refusal_def demo_resting_refusal bracket_group_refusal_def BRACKET_EXIT_COUNT_def demo_legs orr_def)
qed

lemma demo_cancel_granted:
  "cancel_refusal ny utc True 7 demo_cancel_identity demo_bracket None now None demo_observed_state = Ok None"
proof -
  have st: "wf_items demo_observed_state = [demo_accepted]" "wf_closes demo_observed_state = []"
    "wf_signals demo_observed_state = [demo_resting_signal]"
    "wf_orders demo_observed_state = [(''o1'', 4, demo_bracket ! 0), (''o2'', 5, demo_bracket ! 1), (''o3'', 6, demo_bracket ! 2)]"
    by (simp_all add: demo_observed_state_def demo_entered_eq demo_submitting_def demo_checking_def demo_queued_def demo_desk_def)
  have sig: "find_signal (\<lambda>s. sg_id s = 7) demo_observed_state = Some demo_resting_signal" "resting_signal demo_cancel_identity demo_resting_signal"
    by (simp_all add: find_signal_def st demo_resting_signal_def demo_signal_def resting_signal_def demo_cancel_identity_def EXECUTED_def)
  have view: "view_of ''o1'' demo_observed_state = Some (demo_leg ''o1'' (command_id ''a1'') ''buy'' ''accepted'')"
    "view_of ''o2'' demo_observed_state = Some (demo_leg ''o2'' ''c2'' ''sell'' ''new'')"
    "view_of ''o3'' demo_observed_state = Some (demo_leg ''o3'' ''c3'' ''sell'' ''held'')" by (simp_all add: view_of_def st demo_bracket_def)
  have owns: "owns_entry demo_cancel_identity (accepted_entry 7 demo_observed_state)"
    by (simp add: owns_entry_def accepted_entry_def find_item_def st demo_accepted_fields demo_cancel_identity_def demo_answer_def)
  have leg_id: "o_order_id (demo_leg a b c d) = a" for a b c d by (simp add: demo_leg_def)
  have "legs_refusal True demo_cancel_identity demo_observed_state demo_bracket = Ok None"
    by (simp add: demo_bracket_def leg_id view demo_legs)
  moreover have "ei_order_id demo_cancel_identity = ''o1''" by (simp add: demo_cancel_identity_def)
  ultimately show ?thesis
    using view(1) sig owns demo_resting_refusal
    by (simp add: cancel_refusal_def cancel_of_def find_item_def st demo_accepted_fields lifetime_fence_def parent_refusal_def)
qed


lemma demo_cancel_sent:
  "\<exists>st out. cancel_resting_entry demo_world demo_lifetime_config demo_lifetime_turn 7 True demo_entered = Some (st, [(7, ''o1'')], out)"
proof -
  let ?turn = demo_lifetime_turn
  have turn: "lt_meanwhile ?turn i s = s" "lt_fresh ?turn = demo_ids" "lt_clock ?turn i = 9" "lt_read ?turn x = Inr demo_bracket" for i s x
    by (simp_all add: demo_lifetime_turn_def)
  have oid: "ei_order_id demo_cancel_identity = ''o1''" by (simp add: demo_cancel_identity_def)
  obtain s w where "begin_cancel (dw_ny demo_world) (dw_utc demo_world) (dw_et_date demo_world) ''operator'' 7 demo_cancel_identity demo_bracket None 9 None
      (demo_ids demo_observed_state 0) (demo_ids demo_observed_state 1) 9 demo_observed_state = Ok (s, Inr w)"
    by (simp add: begin_cancel_def demo_cancel_granted split_beta)
  moreover obtain t r where "recover_cancel demo_world demo_lifetime_config ?turn w True (map_option fst (lt_delete ?turn ''o1'')) s = Some (t, r)"
    using owner_returns [OF demo_clock_passes] by blast
  ultimately have "\<exists>r. claim_and_cancel demo_world demo_lifetime_config ?turn ''operator'' 7 demo_cancel_identity demo_bracket None None demo_observed_state
      = Some (t, [(7, ''o1'')], r)"
    by (cases r) (simp_all add: claim_and_cancel_def submit_cancel_def turn oid)
  then have "\<exists>t r. cancel_confirmed demo_world demo_lifetime_config ?turn demo_resting_signal demo_cancel_identity demo_bracket demo_observed_state
      = Some (t, [(7, ''o1'')], r)"
    by (auto simp: cancel_confirmed_def demo_resting_signal_def demo_signal_def Let_def split: sum.split option.split)
  moreover have "find_signal (\<lambda>s. sg_id s = 7) demo_entered = Some demo_resting_signal"
    by (simp add: find_signal_def demo_entered_eq demo_resting_signal_def demo_signal_def)
  moreover have "observe_if True demo_world ?turn demo_bracket demo_entered = Ok demo_observed_state"
    by (simp add: observe_if_def demo_world_def demo_group_observed turn)
  ultimately show ?thesis
    by (simp add: cancel_resting_entry_def demo_precheck turn oid demo_group_resting)
qed

theorem cancel_sent_once_witness:
  "\<exists>st :: wf_state. lifetime_service demo_world demo_desk [(7, ''o1'')] [] st \<and> cancel_recorded st (7, ''o1'')"
proof -
  obtain st out where c: "cancel_resting_entry demo_world demo_lifetime_config demo_lifetime_turn 7 True demo_entered = Some (st, [(7, ''o1'')], out)"
    using demo_cancel_sent by blast
  have "lifetime_service demo_world demo_desk [] [] demo_entered"
    using demo_entered_run by (induction rule: rtranclp_induct) (auto intro: lifetime_service.intros)
  then have "lifetime_service demo_world demo_desk ([] @ [(7, ''o1'')]) [] st"
    by (rule lifetime_service.operator [OF _ demo_lifetime_turn_ok c])
  then show ?thesis using cancel_sent_once [OF demo_fresh, of demo_world "[(7, ''o1'')]" "[]" st] by auto
qed

theorem operator_cancel_decided_witness:
  "\<exists>st sent out. cancel_resting_entry demo_world demo_lifetime_config demo_lifetime_turn 7 True demo_entered = Some (st, sent, out) \<and> length sent \<le> 1"
  using operator_cancel_decided [OF demo_fresh demo_entered_run demo_lifetime_turn_ok demo_clock_passes, of 7 True] by blast

text \<open>The same entry with a resting lifetime of a minute, read four microseconds after its submission.\<close>

definition demo_timed_signal :: signal where
  "demo_timed_signal = demo_resting_signal\<lparr>sg_policies := \<lparr>sd_alpha_policy = DJson (JObj [(''lifetime'',
     JObj [(''resting_seconds'', JInt 60), (''holding_seconds'', JNull), (''version'', JStr ''elapsed_utc_v2'')])]), sd_decision_provenance = DNull\<rparr>\<rparr>"

definition demo_timed :: wf_state where
  "demo_timed = demo_entered\<lparr>wf_signals := [demo_timed_signal]\<rparr>"

abbreviation demo_timed_policy :: lifetime_policy where
  "demo_timed_policy \<equiv> TradeLifetime \<lparr>tp_resting_seconds = Some 60, tp_holding_seconds = None, tp_version = ''elapsed_utc_v2''\<rparr>"

lemma demo_timed_lifetime: "entry_lifetime_of (sg_policies demo_timed_signal) = Ok (Some demo_timed_policy)"
  unfolding demo_timed_signal_def by (simp, code_simp)

lemma demo_timed_identity: "entry_identity_of demo_timed_signal demo_timed = Inr (Some demo_cancel_identity)"
proof -
  have items: "wf_items demo_timed = [demo_accepted]"
    by (simp add: demo_timed_def demo_entered_eq)
  have "lower BUY = ''buy''" by code_simp
  then show ?thesis
    by (simp add: entry_identity_of_def accepted_entry_def find_item_def items demo_accepted_fields demo_timed_signal_def demo_resting_signal_def demo_signal_def
        demo_answer_def demo_cancel_identity_def demo_request_def str_or_def command_id_def)
qed

lemma demo_timed_assessed:
  "assess_lifetime ny utc demo_timed_policy demo_cancel_identity (demo_leg ''o1'' (command_id ''a1'') ''buy'' ''accepted'') 9 None
     = Ok (decision NoAction ''resting_lifetime'' (Some 60000005))"
  unfolding assess_lifetime_def demo_legs(1)
  by (simp add: demo_leg_def wire_of_float_def Decimal_def resting_deadline_def trade_entry_deadline_def elapsed_deadline_def
      UNFILLED_TERMINAL_def WORKING_ENTRY_def SECOND_def)

theorem resume_needs_evidence_witness:
  "\<exists>orders parent. lt_read demo_lifetime_turn ''o1'' = Inr orders \<and> parent \<in> set orders
     \<and> (\<exists>identity. same_order identity parent) \<and> list_all no_partial_fill orders"
proof -
  have sid: "sg_id demo_timed_signal = 7" by (simp add: demo_timed_signal_def demo_resting_signal_def demo_signal_def)
  have live: "get_active_positions demo_timed = [demo_timed_signal]"
    by (simp add: get_active_positions_def demo_timed_def demo_timed_signal_def demo_resting_signal_def EXECUTED_def)
  have left: "\<not> nothing_left_to_time demo_timed_signal demo_timed_policy"
    by (simp add: nothing_left_to_time_def demo_timed_signal_def demo_resting_signal_def demo_signal_def)
  have turn: "lt_read demo_lifetime_turn x = Inr demo_bracket" "lt_clock demo_lifetime_turn i = 9" for x i by (simp_all add: demo_lifetime_turn_def)
  have parent: "order_by_id ''o1'' demo_bracket = Some (demo_leg ''o1'' (command_id ''a1'') ''buy'' ''accepted'')"
    by (simp add: order_by_id_def demo_bracket_def demo_leg_def)
  have whole: "anyr partial_leg demo_bracket = Ok False"
    by (simp add: demo_bracket_def partial_leg_def demo_leg_def Decimal_def andr_def orr_def)
  have oid: "ei_order_id demo_cancel_identity = ''o1''" by (simp add: demo_cancel_identity_def)
  have closes: "get_close_request i demo_timed = None" for i
    by (simp add: get_close_request_def demo_timed_def demo_entered_eq demo_submitting_def demo_checking_def demo_queued_def demo_desk_def)
  have sessions: "sessions_for w t demo_timed_policy x = Inr None" for w t x by (simp add: sessions_for_def)
  have "lt_meanwhile demo_lifetime_turn k x = x" for k x by (simp add: demo_lifetime_turn_def)
  then have "blocks_resume demo_world demo_lifetime_turn demo_timed_signal demo_timed = (demo_timed, Inr False)"
    by (simp add: blocks_resume_def demo_timed_lifetime left demo_timed_identity turn parent oid sessions demo_timed_assessed
        closes resume_verdict_def close_failed_def whole decision_def orr_def Let_def)
  then have "get_active_positions demo_timed = [] @ demo_timed_signal # []"
    "sg_id demo_timed_signal \<notin> set (snd (resume_blockers demo_world (\<lambda>_. demo_lifetime_turn) demo_timed))"
    by (simp_all add: resume_blockers_def live)
  from resume_needs_evidence [OF this refl refl refl] show ?thesis
    using left by (auto simp: demo_timed_lifetime nothing_left_to_time_def turn(1))
qed

end
