(* ===== verification/Release_Exit.thy ===== *)
theory Release_Exit
  imports Close_Service
begin

text \<open>
  The release exit (\<open>execution/release_exit.py\<close>): once per trading day, shortly before the close, one pass
  decides which positions report earnings before the next open, journals the decision, and (in enforce
  mode) closes them through the close service under identifiers that are stable for the day. Days are day
  numbers, times of day and wall clocks are microseconds in New York; the earnings calendar, the captured
  reports, the trading calendar and the scope of a position are arguments, and other processes act between
  the transactions.
\<close>

subsection \<open>The decision\<close>

definition NATIVE_SCOPE :: string where "NATIVE_SCOPE = ''native''"
definition SOURCE_LIVE :: string where "SOURCE_LIVE = ''live''"
definition SOURCE_CAPTURE :: string where "SOURCE_CAPTURE = ''capture''"
definition NEXT_SESSION_SEARCH_DAYS :: int where "NEXT_SESSION_SEARCH_DAYS = 10"

text \<open>\<open>NOTICE_BOUND_AFTER_CLOSE\<close>: thirty minutes.\<close>

definition NOTICE_BOUND :: int where "NOTICE_BOUND = 30 * 60 * SECOND"

record earnings_lookup =
  el_event :: "(int \<times> earnings_timing) option"
  el_verified :: bool

record captured_reports =
  cp_capture_date :: int
  cp_rows :: "(int \<times> (string \<times> earnings_timing) list) list"

record release_decision =
  rd_status :: string
  rd_report_date :: "int option"
  rd_timing :: "earnings_timing option"
  rd_sources :: "string list"
  rd_live_verified :: bool

definition exits_today :: "int \<Rightarrow> earnings_timing \<Rightarrow> int \<Rightarrow> int \<Rightarrow> bool" where
  "exits_today report_date timing today next_day =
     (if report_date = today then timing \<noteq> PreMarket
      else if today < report_date \<and> report_date < next_day then True
      else if report_date = next_day then timing \<noteq> AfterHours
      else False)"

type_synonym reading = "string \<times> int \<times> earnings_timing"

definition release_readings ::
  "string \<Rightarrow> earnings_lookup option \<Rightarrow> captured_reports option \<Rightarrow> int \<Rightarrow> int \<Rightarrow> reading list" where
  "release_readings symbol live captured today next_day =
     (case live of None \<Rightarrow> []
      | Some l \<Rightarrow> (case el_event l of None \<Rightarrow> []
          | Some (d, t) \<Rightarrow> if today \<le> d \<and> d \<le> next_day then [(SOURCE_LIVE, d, t)] else []))
   @ (case captured of None \<Rightarrow> []
      | Some c \<Rightarrow> concat (map (\<lambda>(d, rows).
            if today \<le> d \<and> d \<le> next_day
            then map (\<lambda>(_, t). (SOURCE_CAPTURE, d, t)) (filter (\<lambda>(name, _). name = symbol) rows) else [])
          (sort_key fst (cp_rows c))))"

text \<open>\<open>min\<close> with the key (date, not live): the first reading with the least key.\<close>

definition earlier_reading :: "reading \<Rightarrow> reading \<Rightarrow> bool" where
  "earlier_reading a b = (case (a, b) of ((sa, da, _), (sb, db, _)) \<Rightarrow>
     da < db \<or> da = db \<and> sa = SOURCE_LIVE \<and> sb \<noteq> SOURCE_LIVE)"

fun least_reading :: "reading \<Rightarrow> reading list \<Rightarrow> reading" where
  "least_reading best [] = best"
| "least_reading best (r # rs) = least_reading (if earlier_reading r best then r else best) rs"

definition release_decide ::
  "string \<Rightarrow> earnings_lookup option \<Rightarrow> captured_reports option \<Rightarrow> int \<Rightarrow> int \<Rightarrow> release_decision" where
  "release_decide symbol0 live captured today next_day =
     (let symbol = upper symbol0;
          live_verified = (case live of None \<Rightarrow> False | Some l \<Rightarrow> el_verified l);
          readings = release_readings symbol live captured today next_day;
          usable = (if live_verified then [SOURCE_LIVE] else []) @ (if captured \<noteq> None then [SOURCE_CAPTURE] else [])
      in case filter (\<lambda>(_, d, t). exits_today d t today next_day) readings of
           r # rs \<Rightarrow> (case least_reading r rs of (_, d, t) \<Rightarrow>
             \<lparr>rd_status = ''exit'', rd_report_date = Some d, rd_timing = Some t,
              rd_sources = filter (\<lambda>s. list_ex (\<lambda>(s', _). s' = s) readings) [SOURCE_LIVE, SOURCE_CAPTURE],
              rd_live_verified = live_verified\<rparr>)
         | [] \<Rightarrow>
             if usable \<noteq> []
             then \<lparr>rd_status = ''none'', rd_report_date = None, rd_timing = None, rd_sources = usable,
                   rd_live_verified = live_verified\<rparr>
             else \<lparr>rd_status = ''unknown'', rd_report_date = None, rd_timing = None, rd_sources = [],
                   rd_live_verified = live_verified\<rparr>)"

subsection \<open>Identifiers and notices\<close>

text \<open>\<open>sha key\<close> stands for the first 32 hexadecimal digits of the SHA-256 of the formatted key.\<close>

definition release_request_id :: "(ftext \<Rightarrow> string) \<Rightarrow> string \<Rightarrow> int \<Rightarrow> int \<Rightarrow> int \<Rightarrow> string" where
  "release_request_id sha scope sid report_date trading_day =
     ''release-'' @ sha [Lit scope, Lit ''/'', FInt sid, Lit ''/'', FDate report_date, Lit ''/'', FDate trading_day]"

definition RELEASE_EXIT_STREAM :: ftext where "RELEASE_EXIT_STREAM = msg ''release-exit''"

definition pass_key :: "int \<Rightarrow> ftext" where
  "pass_key day = [Lit ''release-exit/'', FDate day]"

definition release_close_key :: "int \<Rightarrow> int \<Rightarrow> ftext" where
  "release_close_key day sid = [Lit ''release-exit/'', FDate day, Lit ''/'', FInt sid]"

definition preview_key :: "int \<Rightarrow> int \<Rightarrow> int \<Rightarrow> ftext" where
  "preview_key day sid report_date = [Lit ''release-exit/'', FDate day, Lit ''/'', FInt sid, Lit ''/'', FDate report_date]"

definition failure_key :: "int \<Rightarrow> int \<Rightarrow> int \<Rightarrow> ftext" where
  "failure_key day sid report_date = preview_key day sid report_date @ [Lit ''/failed'']"

definition timing_word :: "earnings_timing \<Rightarrow> string" where
  "timing_word t = (case t of PreMarket \<Rightarrow> ''before open'' | AfterHours \<Rightarrow> ''after close''
     | UnspecifiedTime \<Rightarrow> ''timing unspecified'')"

definition manual_close :: "int \<Rightarrow> ftext" where
  "manual_close sid = [Lit ''/close '', FInt sid, Lit '' closes it manually.'']"

definition preview_notice :: "string \<Rightarrow> int \<Rightarrow> int \<Rightarrow> earnings_timing \<Rightarrow> string \<Rightarrow> int \<Rightarrow> ftext" where
  "preview_notice symbol sid report_date timing direction wall =
     [Lit ''Release exit (preview): '', Lit symbol, Lit '' reports '', FDate report_date, Lit '' '',
      Lit (timing_word timing), Lit ''. In enforce the desk would close this '', Lit (lower direction),
      Lit '' at about '', FTime wall, Lit '' ET today. Nothing was sent to the broker; ''] @ manual_close sid"

text \<open>
  \<open>reason.rstrip().removesuffix('.')\<close> on the parts of a text, last part first: no formatted number or date
  ends in white space or a full stop.
\<close>

fun rstrip_parts :: "fpart list \<Rightarrow> fpart list" where
  "rstrip_parts (Lit s # ps) = (let s' = rev (dropWhile is_space (rev s)) in if s' = [] then rstrip_parts ps else Lit s' # ps)"
| "rstrip_parts ps = ps"

fun removesuffix_dot :: "fpart list \<Rightarrow> fpart list" where
  "removesuffix_dot (Lit s # ps) = (if s = [] then removesuffix_dot ps
     else if last s = CHR ''.'' then Lit (butlast s) # ps else Lit s # ps)"
| "removesuffix_dot ps = ps"

definition trimmed :: "ftext \<Rightarrow> ftext" where
  "trimmed t = rev (removesuffix_dot (rstrip_parts (rev t)))"

definition failure_notice :: "string \<Rightarrow> int \<Rightarrow> ftext \<Rightarrow> bool \<Rightarrow> ftext" where
  "failure_notice symbol sid why broker_step =
     [Lit ''Release exit could not close '', Lit symbol, Lit '': ''] @ trimmed why @ [Lit ''. '']
     @ [Lit (if broker_step then ''Check its protective orders at the broker; '' else ''The position keeps its stop; '')]
     @ manual_close sid"

definition unavailable_notice :: "int \<Rightarrow> string \<Rightarrow> ftext" where
  "unavailable_notice day why =
     [Lit ''Release exit unavailable for '', FDate day, Lit '': the pass did not complete before the close ('',
      Lit why, Lit ''). Open native equity positions were not checked for earnings releases; /positions lists them.'']"

subsection \<open>The journal\<close>

definition recorded_pass :: "int \<Rightarrow> wf_state \<Rightarrow> event option" where
  "recorded_pass day st = event_by_key st (pass_key day)"

text \<open>The journaled positions; \<open>payload.get("positions") or []\<close>.\<close>

definition pass_positions :: "event \<Rightarrow> release_entry list" where
  "pass_positions e = (case ev_payload e of PRelease p \<Rightarrow> rp_positions p | _ \<Rightarrow> [])"

definition closed_already :: "int \<Rightarrow> wf_state \<Rightarrow> int \<Rightarrow> bool" where
  "closed_already day st sid = (event_by_key st (release_close_key day sid) \<noteq> None)"

text \<open>What a tick reads from outside.\<close>

record release_turn =
  rt_mode :: string
  rt_minutes :: int
  rt_wall :: int
  rt_now :: int
  rt_calendar :: "((int \<Rightarrow> failure + calendar_day) \<times> (int \<Rightarrow> int \<Rightarrow> failure + calendar_day list)) option"
  rt_captured :: "int \<Rightarrow> int \<Rightarrow> failure + captured_reports option"
  rt_lookup :: "string \<Rightarrow> int \<Rightarrow> failure + earnings_lookup"
  rt_scope :: "signal \<Rightarrow> failure + string"
  rt_sha :: "ftext \<Rightarrow> string"
  rt_close :: "int \<Rightarrow> close_turn"
  rt_meanwhile :: "nat \<Rightarrow> wf_state \<Rightarrow> wf_state"
  rt_fresh :: "wf_state \<Rightarrow> string"

definition notice_each :: "release_turn \<Rightarrow> (ftext \<times> ftext) list \<Rightarrow> wf_state \<Rightarrow> wf_state" where
  "notice_each turn notices st = foldl (\<lambda>s (key, body).
     notify key ''message'' [(''text'', body)] (rt_fresh turn s) (rt_now turn) s) st notices"

definition record_pass ::
  "release_turn \<Rightarrow> int \<Rightarrow> release_pass \<Rightarrow> (ftext \<times> ftext) list \<Rightarrow> wf_state \<Rightarrow> wf_state \<times> bool" where
  "record_pass turn day pass notices st =
     (if event_by_key st (pass_key day) \<noteq> None then (st, False)
      else (notice_each turn notices
              (fst (wf_append RELEASE_EXIT_STREAM ''release_exit_pass'' (PRelease pass) (Some (pass_key day)) st)), True))"

definition record_close ::
  "release_turn \<Rightarrow> int \<Rightarrow> int \<Rightarrow> (string \<times> ftext) list \<Rightarrow> (ftext \<times> ftext) option \<Rightarrow> wf_state \<Rightarrow> wf_state" where
  "record_close turn day sid payload note1 st =
     notice_each turn (case note1 of None \<Rightarrow> [] | Some n \<Rightarrow> [n])
       (fst (wf_append RELEASE_EXIT_STREAM ''release_exit_close'' (PData payload) (Some (release_close_key day sid)) st))"

definition queue_unavailable :: "release_turn \<Rightarrow> int \<Rightarrow> ftext \<Rightarrow> wf_state \<Rightarrow> wf_state" where
  "queue_unavailable turn day body st =
     notify [Lit ''release-exit-unavailable/'', FDate day] ''message'' [(''text'', body)] (rt_fresh turn st) (rt_now turn) st"

subsection \<open>The pass\<close>

definition rt_today :: "release_turn \<Rightarrow> int" where "rt_today turn = wall_date (rt_wall turn)"

definition entry_status :: "string \<Rightarrow> string \<Rightarrow> release_decision \<Rightarrow> string" where
  "entry_status mode scope d =
     (if scope \<noteq> NATIVE_SCOPE then ''exempt''
      else if rd_status d = ''exit'' then (if mode = ''preview'' then ''would_close'' else ''close'')
      else rd_status d)"

definition next_trading_day :: "(int \<Rightarrow> int \<Rightarrow> failure + calendar_day list) \<Rightarrow> int \<Rightarrow> failure + int" where
  "next_trading_day days_between today = bindr (days_between (today + 1) (today + NEXT_SESSION_SEARCH_DAYS)) (\<lambda>days.
     case find cd_is_trading_day days of Some d \<Rightarrow> Inr (cd_date d) | None \<Rightarrow> Inl (''NoNextTradingDay'', []))"

definition is_equity :: "signal \<Rightarrow> bool" where
  "is_equity s = (normalize_asset_class (case sg_asset_class s of None \<Rightarrow> [] | Some a \<Rightarrow> a) = normalize_asset_class EQUITY)"

definition pass_entry ::
  "release_turn \<Rightarrow> captured_reports option \<Rightarrow> int \<Rightarrow> signal
     \<Rightarrow> failure + (release_entry \<times> (ftext \<times> ftext) list)" where
  "pass_entry turn captured next_day s =
     bindr (rt_scope turn s) (\<lambda>scope.
       let today = rt_today turn;
           symbol = broker_symbol s;
           live = (case rt_lookup turn symbol (next_day - today) of Inl _ \<Rightarrow> None | Inr l \<Rightarrow> Some l);
           d = release_decide symbol live captured today next_day;
           status = entry_status (rt_mode turn) scope d;
           entry = \<lparr>re_signal_id = sg_id s, re_symbol = symbol, re_direction = sg_direction (sg_alpha s),
             re_scope = scope, re_status = status, re_decision = rd_status d, re_report_date = rd_report_date d,
             re_timing = rd_timing d, re_sources = rd_sources d, re_live_verified = rd_live_verified d,
             re_request_id = None\<rparr>
       in if status = ''close''
          then (case rd_report_date d of
              None \<Rightarrow> Inl (''AssertionError'', [])
            | Some r \<Rightarrow> Inr (entry\<lparr>re_request_id := Some (release_request_id (rt_sha turn) scope (sg_id s) r today)\<rparr>, []))
          else if status = ''would_close''
          then (case (rd_report_date d, rd_timing d) of
              (Some r, Some t) \<Rightarrow> Inr (entry, [(preview_key today (sg_id s) r,
                 preview_notice symbol (sg_id s) r t (sg_direction (sg_alpha s)) (rt_wall turn))])
            | _ \<Rightarrow> Inl (''AssertionError'', []))
          else Inr (entry, []))"

fun pass_entries ::
  "release_turn \<Rightarrow> captured_reports option \<Rightarrow> int \<Rightarrow> signal list
     \<Rightarrow> failure + (release_entry list \<times> (ftext \<times> ftext) list)" where
  "pass_entries turn captured next_day [] = Inr ([], [])"
| "pass_entries turn captured next_day (s # ss) =
     bindr (pass_entry turn captured next_day s) (\<lambda>(entry, notices).
     bindr (pass_entries turn captured next_day ss) (\<lambda>(entries, later). Inr (entry # entries, notices @ later)))"

definition release_pass_of ::
  "release_turn \<Rightarrow> (int \<Rightarrow> int \<Rightarrow> failure + calendar_day list) \<Rightarrow> int \<Rightarrow> wf_state
     \<Rightarrow> failure + (release_pass \<times> (ftext \<times> ftext) list)" where
  "release_pass_of turn days_between close_at st =
     bindr (next_trading_day days_between (rt_today turn)) (\<lambda>next_day.
     bindr (rt_captured turn (rt_today turn) next_day) (\<lambda>captured.
     bindr (pass_entries turn captured next_day (filter is_equity (get_active_positions st))) (\<lambda>(entries, notices).
       Inr (\<lparr>rp_mode = rt_mode turn, rp_trading_day = rt_today turn, rp_next_trading_day = next_day,
             rp_close_at = close_at, rp_capture_date = map_option cp_capture_date captured,
             rp_positions = entries\<rparr>, notices))))"

subsection \<open>Closing\<close>

definition already_exiting :: "int \<Rightarrow> wf_state \<Rightarrow> bool" where
  "already_exiting sid st = (case find_signal (\<lambda>s. sg_id s = sid) st of
     None \<Rightarrow> True
   | Some s \<Rightarrow> sg_status s \<noteq> EXECUTED \<or> set_text (sg_exit_order_id s)
       \<or> list_ex (\<lambda>c. cr_signal_id c = Some sid) (active_close_requests st))"

definition close_outcome :: "close_request option \<Rightarrow> string option \<Rightarrow> bool \<Rightarrow> string" where
  "close_outcome row raised exiting =
     (case row of
        Some c \<Rightarrow> if cr_status c \<in> {''submitted'', ''completed''} then ''submitted''
                   else if raised \<noteq> None then ''error'' else ''failed''
      | None \<Rightarrow> if exiting then ''already_exiting'' else if raised \<noteq> None then ''error'' else ''refused'')"

definition optional_text :: "string option \<Rightarrow> ftext" where
  "optional_text v = (case v of None \<Rightarrow> [] | Some s \<Rightarrow> msg s)"

definition release_close ::
  "release_turn \<Rightarrow> bool \<Rightarrow> release_entry \<Rightarrow> wf_state
     \<Rightarrow> wf_state \<times> position_close_request list \<times> (failure + unit)" where
  "release_close turn may_notify entry st =
     (let sid = re_signal_id entry; day = rt_today turn in
      case re_request_id entry of
        None \<Rightarrow> (st, [], Inl (''KeyError'', msg ''request_id''))
      | Some rid \<Rightarrow>
          (case close_signal (rt_close turn sid) sid False (Some rid) st of (s1, made, out) \<Rightarrow>
           let s2 = rt_meanwhile turn 3 s1;
               row = get_close_request rid s2;
               raised = (case out of Inl f \<Rightarrow> Some (fst f) | Inr _ \<Rightarrow> None);
               outcome = close_outcome row raised (already_exiting sid s2);
               why = (case out of Inl f \<Rightarrow> [Lit ''the close raised '', Lit (fst f)] | Inr t \<Rightarrow> t);
               failed = (outcome \<in> {''refused'', ''failed'', ''error''});
               payload = (\<lambda>notified. [(''trading_day'', [FDate day]), (''signal_id'', [FInt sid]), (''symbol'', msg (re_symbol entry)),
                 (''request_id'', msg rid),
                 (''report_date'', case re_report_date entry of None \<Rightarrow> [] | Some r \<Rightarrow> [FDate r]), (''close_result'', case out of Inl f \<Rightarrow> msg (fst f) | Inr t \<Rightarrow> t),
                 (''close_status'', optional_text (map_option cr_status row)), (''outcome'', msg outcome),
                 (''notified'', msg (if notified then ''true'' else ''false''))])
           in if failed \<and> may_notify
              then (case re_report_date entry of
                  None \<Rightarrow> (s2, made, Inl (''TypeError'', []))
                | Some r \<Rightarrow> (record_close turn day sid (payload True)
                     (Some (failure_key day sid r, failure_notice (re_symbol entry) sid why (row \<noteq> None)))
                     (rt_meanwhile turn 4 s2), made, Inr ()))
              else (record_close turn day sid (payload False) None (rt_meanwhile turn 4 s2), made, Inr ())))"

fun release_close_each ::
  "release_turn \<Rightarrow> bool \<Rightarrow> release_entry list \<Rightarrow> wf_state
     \<Rightarrow> wf_state \<times> position_close_request list \<times> (failure + unit)" where
  "release_close_each turn may_notify [] st = (st, [], Inr ())"
| "release_close_each turn may_notify (e # es) st =
     (case release_close turn may_notify e (rt_meanwhile turn 5 st) of
        (s1, made, Inl f) \<Rightarrow> (s1, made, Inl f)
      | (s1, made, Inr _) \<Rightarrow>
          (case release_close_each turn may_notify es s1 of (s2, later, out) \<Rightarrow> (s2, made @ later, out)))"

definition owed :: "release_entry list \<Rightarrow> release_entry list" where
  "owed entries = filter (\<lambda>e. re_status e = ''close'') entries"

definition finish_closes ::
  "release_turn \<Rightarrow> int \<Rightarrow> release_entry list \<Rightarrow> wf_state
     \<Rightarrow> wf_state \<times> position_close_request list \<times> (failure + unit)" where
  "finish_closes turn close_at entries st =
     (if rt_mode turn \<noteq> ''enforce'' then (st, [], Inr ())
      else release_close_each turn (rt_wall turn \<le> close_at + NOTICE_BOUND)
             (filter (\<lambda>e. \<not> closed_already (rt_today turn) st (re_signal_id e)) (owed entries)) st)"

subsection \<open>One tick\<close>

text \<open>The memory of the process; the set of warned failures only keeps a log line from repeating.\<close>

record release_memory =
  rm_settled :: "int option"
  rm_failure :: "(int \<times> string) option"
  rm_unavailable_queued :: "int option"

definition missed_pass :: "release_turn \<Rightarrow> int \<Rightarrow> release_memory \<Rightarrow> wf_state \<Rightarrow> release_memory \<times> wf_state \<times> string" where
  "missed_pass turn close_at mem st =
     (let today = rt_today turn in
      case rm_failure mem of
        None \<Rightarrow> (mem, st, ''closed_market'')
      | Some (day, why) \<Rightarrow>
          if day \<noteq> today then (mem, st, ''closed_market'')
          else if rm_unavailable_queued mem = Some today then (mem, st, ''failed'')
          else (mem\<lparr>rm_unavailable_queued := Some today\<rparr>,
                if rt_wall turn \<le> close_at + NOTICE_BOUND then queue_unavailable turn today (unavailable_notice today why) st
                else st, ''failed''))"

definition settle :: "release_turn \<Rightarrow> release_memory \<Rightarrow> string
     \<Rightarrow> wf_state \<times> position_close_request list \<times> (failure + unit)
     \<Rightarrow> release_memory \<times> wf_state \<times> position_close_request list \<times> (failure + string)" where
  "settle turn mem status r = (case r of
     (s, made, Inl f) \<Rightarrow> (mem, s, made, Inl f)
   | (s, made, Inr _) \<Rightarrow> (mem\<lparr>rm_settled := Some (rt_today turn)\<rparr>, s, made, Inr status))"

definition pass_tick ::
  "release_turn \<Rightarrow> (int \<Rightarrow> int \<Rightarrow> failure + calendar_day list) \<Rightarrow> int \<Rightarrow> release_memory \<Rightarrow> wf_state
     \<Rightarrow> release_memory \<times> wf_state \<times> position_close_request list \<times> (failure + string)" where
  "pass_tick turn days_between close_at mem st =
     (let today = rt_today turn; s1 = rt_meanwhile turn 0 st in
      case recorded_pass today s1 of
        Some e \<Rightarrow> settle turn mem ''present'' (finish_closes turn close_at (pass_positions e) s1)
      | None \<Rightarrow>
          if rt_wall turn \<ge> close_at
          then (case missed_pass turn close_at mem s1 of (m, s, status) \<Rightarrow> (m, s, [], Inr status))
          else let s2 = rt_meanwhile turn 1 s1 in
            (case release_pass_of turn days_between close_at s2 of
               Inl f \<Rightarrow> (mem, s2, [], Inl f)
             | Inr (pass, notices) \<Rightarrow>
                 (case record_pass turn today pass notices (rt_meanwhile turn 2 s2) of
                    (s3, True) \<Rightarrow> settle turn mem ''done'' (finish_closes turn close_at (rp_positions pass) s3)
                  | (s3, False) \<Rightarrow> settle turn mem ''present'' (finish_closes turn close_at
                       (case recorded_pass today s3 of None \<Rightarrow> [] | Some e \<Rightarrow> pass_positions e) s3))))"

definition release_tick ::
  "release_turn \<Rightarrow> release_memory \<Rightarrow> wf_state
     \<Rightarrow> release_memory \<times> wf_state \<times> position_close_request list \<times> (failure + string)" where
  "release_tick turn mem st =
     (let today = rt_today turn in
      if rt_mode turn = ''off'' then (mem, st, [], Inr ''off'')
      else if rm_settled mem = Some today then (mem, st, [], Inr ''present'')
      else case rt_calendar turn of
        None \<Rightarrow> (mem, st, [], Inl (''TradingCalendarUnavailable'', []))
      | Some (trading_day, days_between) \<Rightarrow>
          (case trading_day today of
             Inl f \<Rightarrow> (mem, st, [], Inl f)
           | Inr day \<Rightarrow>
               (case (cd_is_trading_day day, cd_close_time day) of
                  (True, Some close_time) \<Rightarrow>
                    let close_at = combine today close_time in
                    if rt_wall turn < close_at - rt_minutes turn * 60 * SECOND
                    then (mem, st, [], Inr ''waiting'')
                    else pass_tick turn days_between close_at mem st
                | _ \<Rightarrow> (mem, st, [], Inr ''closed_market''))))"

definition release_run ::
  "release_turn \<Rightarrow> release_memory \<Rightarrow> wf_state
     \<Rightarrow> release_memory \<times> wf_state \<times> position_close_request list \<times> string" where
  "release_run turn mem st = (case release_tick turn mem st of
     (m, s, made, Inr status) \<Rightarrow> (m, s, made, status)
   | (m, s, made, Inl f) \<Rightarrow> (m\<lparr>rm_failure := Some (rt_today turn, fst f)\<rparr>, s, made, ''failed''))"

subsection \<open>What the journal keeps\<close>

definition same_passes :: "wf_state \<Rightarrow> wf_state \<Rightarrow> bool" where
  "same_passes s s' = (\<forall>d. recorded_pass d s' = recorded_pass d s)"

lemma same_passes_refl [simp]: "same_passes s s"
  by (simp add: same_passes_def)

lemma same_passes_trans: "same_passes s t \<Longrightarrow> same_passes t u \<Longrightarrow> same_passes s u"
  by (simp add: same_passes_def)

lemma same_passes_events: "wf_events s' = wf_events s \<Longrightarrow> same_passes s s'"
  by (simp add: same_passes_def recorded_pass_def event_by_key_def)

lemma find_snoc: "\<not> P y \<Longrightarrow> find P (xs @ [y]) = find P xs"
  by (induction xs) auto

lemma same_passes_append:
  assumes "key \<notin> Some ` range pass_key"
  shows "same_passes s (fst (wf_append stream kind payload key s))"
  using wf_append_fst [of stream kind payload key s] assms
  by (auto simp: same_passes_def recorded_pass_def event_by_key_def intro!: find_snoc)

lemma same_passes_notify: "same_passes s (notify key kind args f now s)"
  by (auto simp: same_passes_def recorded_pass_def event_by_key_def add_notification_def add_item_def
      split: option.split intro!: find_snoc)

lemma same_passes_audit: "same_passes s (record_audit k i e s)"
  by (rule same_passes_events) (simp add: record_audit_def)

lemma same_passes_exit:
  "same_passes s (record_exit_request sid oid s)" "same_passes s (clear_failed_exit_request sid oid s)"
  by (rule same_passes_events; simp add: record_exit_request_def clear_failed_exit_request_def record_audit_def
      update_signals_def Let_def)+

lemma same_passes_claim:
  assumes "claim_close_request req f now s = Ok (s', b, c)"
  shows "same_passes s s'"
proof (cases "s' = s")
  case False
  define claim where "claim = req\<lparr>cr_status := ''claimed'', cr_detail := [], cr_broker_order_id := None\<rparr>"
  define s1 where "s1 = s\<lparr>wf_closes := wf_closes s @ [claim]\<rparr>"
  define s2 where "s2 = appended (close_stream (cr_id req)) ''close_requested'' (PClose claim) s1"
  have "same_passes s s1" by (rule same_passes_events) (simp add: s1_def)
  moreover have "same_passes s1 s2" unfolding s2_def by (rule same_passes_append) auto
  moreover have "\<exists>key body. s' = record_audit ''close_request'' (cr_signal_id req) []
      (notify key ''message'' body f now s2)"
    using assms False unfolding s2_def s1_def claim_def
    by (auto simp: claim_close_request_def Let_def simp del: wf_append_None split: if_split_asm option.split_asm)
  then obtain key body where s': "s' = record_audit ''close_request'' (cr_signal_id req) []
      (notify key ''message'' body f now s2)" by blast
  have "same_passes s2 s'" unfolding s' by (rule same_passes_trans [OF same_passes_notify same_passes_audit])
  ultimately show ?thesis using same_passes_trans by blast
qed simp

lemma same_passes_close_record:
  "same_passes s (notify key k b f now (appended stream kind p (record_audit a i e (s\<lparr>wf_closes := cs\<rparr>))))"
proof -
  have "same_passes s (s\<lparr>wf_closes := cs\<rparr>)" by (rule same_passes_events) simp
  from same_passes_trans [OF this same_passes_audit]
  have "same_passes s (record_audit a i e (s\<lparr>wf_closes := cs\<rparr>))" .
  from same_passes_trans [OF this same_passes_append [of None]]
  have "same_passes s (appended stream kind p (record_audit a i e (s\<lparr>wf_closes := cs\<rparr>)))" by blast
  then show ?thesis using same_passes_trans same_passes_notify by blast
qed

lemma same_passes_update: "same_passes s (update_close_request i status detail oid f now s)"
  unfolding update_close_request_def Let_def
  by (auto simp del: wf_append_None split: option.split intro: same_passes_close_record)

lemma same_passes_steps: "same_passes s (observed_steps c phases s)"
  unfolding observed_steps_def by (induction phases arbitrary: s) (auto intro: same_passes_trans same_passes_audit)

text \<open>A property of the recorded passes that other processes keep is kept by a close.\<close>

definition keeps_passes :: "(wf_state \<Rightarrow> bool) \<Rightarrow> (nat \<Rightarrow> wf_state \<Rightarrow> wf_state) \<Rightarrow> bool" where
  "keeps_passes fine meanwhile = ((\<forall>s s'. fine s \<longrightarrow> same_passes s s' \<longrightarrow> fine s') \<and> (\<forall>i s. fine s \<longrightarrow> fine (meanwhile i s)))"

lemma keeps_passesD:
  "keeps_passes fine m \<Longrightarrow> fine s \<Longrightarrow> same_passes s s' \<Longrightarrow> fine s'"
  "keeps_passes fine m \<Longrightarrow> fine s \<Longrightarrow> fine (m i s)"
  by (auto simp: keeps_passes_def)

lemma save_result_keeps:
  assumes "keeps_passes fine (ct_meanwhile turn)" "fine s"
  shows "fine (fst (save_result turn c result s))"
proof -
  define s1 where "s1 = (case (or_order_id result, cr_signal_id c) of
             (Some oid, Some sid) \<Rightarrow>
               if oid = [] \<or> sid = 0 then s
               else if answer_status c result = ''failed'' then clear_failed_exit_request sid oid s else record_exit_request sid oid s
           | _ \<Rightarrow> s)"
  have "same_passes s s1" unfolding s1_def using same_passes_exit by (auto split: option.split)
  then have 1: "fine s1" using assms keeps_passesD(1) by blast
  then have "fine (update_close_request i status detail oid f now (ct_meanwhile turn 0 s1))" for i status detail oid f now
    using keeps_passesD [OF assms(1)] same_passes_update by blast
  with 1 show ?thesis unfolding save_result_def Let_def s1_def [symmetric] by (auto split: sum.split)
qed

lemma recover_closes_keeps:
  assumes "keeps_passes fine (ct_meanwhile turn)"
  shows "fine s \<Longrightarrow> fine (recover_closes_each turn cs s)"
proof (induction cs arbitrary: s)
  case (Cons c cs)
  let ?s = "ct_meanwhile turn 1 s"
  have 1: "fine ?s" using keeps_passesD(2) [OF assms Cons.prems] .
  have 2: "fine (recovery_failed c f x)" if "fine x" for f x
    unfolding recovery_failed_def using keeps_passesD(1) [OF assms that same_passes_audit] .
  have 3: "fine s1" if "save_result turn c result ?s = (s1, out)" for result s1 out
    using save_result_keeps [OF assms 1, of c result] that by simp
  show ?case using 1 2 3 by (auto simp: Let_def intro!: Cons.IH split: sum.split option.split prod.split)
qed simp

lemma close_one_keeps:
  assumes "keeps_passes fine (ct_meanwhile turn)" "fine s" "close_one turn p signal queued rid s = (s', made, out)"
  shows "fine s'"
proof -
  define i where "i = (case rid of Some r \<Rightarrow> if r \<noteq> [] then r else ''close-'' @ ct_fresh turn s | None \<Rightarrow> ''close-'' @ ct_fresh turn s)"
  note eq = assms(3) [unfolded close_one_def Let_def i_def [symmetric]]
  show ?thesis
  proof (cases "claim_close_request (close_claim p signal i) (ct_fresh turn s) (ct_now turn) s")
    case (Inl e)
    then show ?thesis using eq assms(2) by simp
  next
    case (Inr q)
    obtain s1 b c where q: "q = (s1, b, c)" by (cases q) auto
    have 1: "fine s1" using keeps_passesD(1) [OF assms(1,2)] same_passes_claim Inr q by blast
    have "fine (ct_meanwhile turn 2 (observed_steps c phases s1))" for phases
      using keeps_passesD [OF assms(1)] 1 same_passes_steps by blast
    then have "fine x" if "save_result turn c result (ct_meanwhile turn 2 (observed_steps c phases s1)) = (x, y)" for result phases x y
      using save_result_keeps [OF assms(1)] that by (metis fst_conv)
    with 1 show ?thesis using eq Inr q by (cases b) (auto split: sum.split_asm prod.split_asm)
  qed
qed

lemma close_signal_keeps:
  assumes "keeps_passes fine (ct_meanwhile turn)" "fine s" "close_signal turn sid queued rid s = (s', made, out)"
  shows "fine s'"
proof -
  define s1 where "s1 = ct_meanwhile turn 3 (recover_closes turn s)"
  define s2 where "s2 = ct_meanwhile turn 4 s1"
  have "fine s1" unfolding s1_def recover_closes_def using assms keeps_passesD(2) recover_closes_keeps by blast
  moreover from this have "fine s2" unfolding s2_def using assms(1) keeps_passesD(2) by blast
  moreover from this have "fine (ct_meanwhile turn 5 s2)" using assms(1) keeps_passesD(2) by blast
  moreover have "s' = s1 \<or> s' = s2 \<or> (\<exists>p signal. close_one turn p signal queued rid (ct_meanwhile turn 5 s2) = (s', made, out))"
    using assms(3) unfolding close_signal_def Let_def s1_def [symmetric] s2_def [symmetric]
    by (simp split: option.split_asm sum.split_asm if_split_asm) blast
  ultimately show ?thesis using close_one_keeps [OF assms(1)] by blast
qed

text \<open>The identifier of a close is the one the caller gave.\<close>

lemma close_one_identifier:
  assumes "close_one turn p signal queued (Some rid) s = (s', made, out)" "rid \<noteq> []" "r \<in> set made"
  shows "pc_client_order_id r = rid"
proof -
  have "pc_client_order_id request = rid"
    if "claim_close_request (close_claim p signal rid) f now s = Ok (s1, True, c)"
       "mk_close_request p (cr_id c) e queued = Inr request" for f now s1 c e request
    using claim_granted_record [OF that(1)] mk_close_request_ok [OF that(2)] by (simp add: close_claim_def)
  then show ?thesis
    using assms unfolding close_one_def Let_def
    by (auto split: sum.split_asm prod.split_asm bool.split_asm)
qed

lemma close_signal_identifier:
  assumes "close_signal turn sid queued (Some rid) s = (s', made, out)" "rid \<noteq> []" "r \<in> set made"
  shows "pc_client_order_id r = rid"
  using assms close_one_identifier [OF _ assms(2,3)] unfolding close_signal_def Let_def
  by (auto split: option.split_asm sum.split_asm if_split_asm)

text \<open>
  The position a close is for: its durable claim names the signal, and the symbol and direction sent are
  those of that signal's own row. Once there is a journal rows and claims only evolve, and both stay true.
\<close>

definition closes_position :: "int \<Rightarrow> wf_state \<Rightarrow> position_close_request \<Rightarrow> bool" where
  "closes_position sid st r =
     ((\<exists>c \<in> set (wf_closes st). cr_id c = pc_client_order_id r \<and> cr_signal_id c = Some sid \<and> cr_symbol c = pc_symbol r
         \<and> cr_direction c = pc_direction r \<and> cr_quantity c = pc_quantity r)
      \<and> (\<exists>g \<in> set (wf_signals st @ wf_quarantined st). sg_id g = sid \<and> broker_symbol g = pc_symbol r
           \<and> sg_direction (sg_alpha g) = pc_direction r))"

definition journaled_desk :: "wf_state \<Rightarrow> bool" where
  "journaled_desk st = (desk_inv st \<and> wf_events st \<noteq> [])"

lemma journaled_run: "(desk_trans w)\<^sup>*\<^sup>* s t \<Longrightarrow> journaled_desk s \<Longrightarrow> journaled_desk t"
  using desk_journal [of w s t] run_desk_inv [of w s t] by (auto simp: journaled_desk_def)

lemma row_kept:
  assumes "(desk_trans w)\<^sup>*\<^sup>* s t" "journaled_desk s" "g \<in> set (wf_signals s @ wf_quarantined s)"
  shows "\<exists>g' \<in> set (wf_signals t @ wf_quarantined t). sg_id g' = sg_id g \<and> sg_alpha g' = sg_alpha g"
proof -
  have step: "rows_evolve s t" "set (wf_quarantined s) \<subseteq> set (wf_quarantined t)"
    using run_signals [OF assms(1)] assms(2) by (auto simp: journaled_desk_def desk_inv_def signal_step_def)
  show ?thesis
  proof (cases "g \<in> set (wf_signals s)")
    case True
    then obtain g' where "g' \<in> set (wf_signals t) \<or> g' \<in> set (wf_quarantined t)" "evolves g g'"
      using step(1) by (auto simp: rows_evolve_def)
    then show ?thesis using evolves_key(1) [of g g'] evolves_key(2) [of g g'] by (intro bexI [of _ g']) auto
  next
    case False
    then show ?thesis using step(2) assms(3) by auto
  qed
qed

lemma closes_position_kept:
  assumes "(desk_trans w)\<^sup>*\<^sup>* s t" "journaled_desk s" "closes_position sid s r"
  shows "closes_position sid t r"
proof -
  obtain c g where c: "c \<in> set (wf_closes s)" "cr_id c = pc_client_order_id r" "cr_signal_id c = Some sid" "cr_symbol c = pc_symbol r"
      "cr_direction c = pc_direction r" "cr_quantity c = pc_quantity r"
    and g: "g \<in> set (wf_signals s @ wf_quarantined s)" "sg_id g = sid" "broker_symbol g = pc_symbol r" "sg_direction (sg_alpha g) = pc_direction r"
    using assms(3) unfolding closes_position_def by blast
  obtain c' where c': "c' \<in> set (wf_closes t)" "close_kept c c'"
    using run_closes [OF assms(1)] assms(2) c(1) by (auto simp: journaled_desk_def)
  obtain g' where g': "g' \<in> set (wf_signals t @ wf_quarantined t)" "sg_id g' = sg_id g" "sg_alpha g' = sg_alpha g"
    using row_kept [OF assms(1,2) g(1)] by blast
  have "sg_id g' = sid \<and> broker_symbol g' = pc_symbol r \<and> sg_direction (sg_alpha g') = pc_direction r"
    using g(2-4) g'(2,3) by (simp add: broker_symbol_def)
  moreover have "cr_id c' = pc_client_order_id r \<and> cr_signal_id c' = Some sid \<and> cr_symbol c' = pc_symbol r
      \<and> cr_direction c' = pc_direction r \<and> cr_quantity c' = pc_quantity r"
    using c(2-6) c'(2) by (simp add: close_kept_def)
  ultimately show ?thesis using c'(1) g'(1) unfolding closes_position_def by blast
qed

lemma close_one_claim:
  assumes "close_turn_ok world turn" "close_one turn p signal queued rid s = (s', made, out)" "r \<in> set made"
  shows "\<exists>s1 c. (desk_trans world)\<^sup>*\<^sup>* s s1 \<and> (desk_trans world)\<^sup>*\<^sup>* s1 s' \<and> c \<in> set (wf_closes s1)
    \<and> cr_id c = pc_client_order_id r \<and> cr_signal_id c = map_option sg_id signal \<and> cr_symbol c = pc_symbol r \<and> cr_direction c = pc_direction r
    \<and> cr_quantity c = pc_quantity r \<and> pc_symbol r = b_symbol p \<and> pc_direction r = b_direction p"
proof -
  define i where "i = (case rid of Some r \<Rightarrow> if r \<noteq> [] then r else ''close-'' @ ct_fresh turn s | None \<Rightarrow> ''close-'' @ ct_fresh turn s)"
  note eq = assms(2) [unfolded close_one_def Let_def i_def [symmetric]]
  obtain s1 c where claim: "claim_close_request (close_claim p signal i) (ct_fresh turn s) (ct_now turn) s = Ok (s1, True, c)"
    and m: "mk_close_request p (cr_id c) (case signal of Some s \<Rightarrow> sg_broker_order_id s | None \<Rightarrow> None) queued = Inr r"
    and s': "\<exists>result. s' = fst (save_result turn c result (ct_meanwhile turn 2 (observed_steps c (ct_steps turn r) s1)))"
    using eq assms(3) by (auto split: sum.split_asm prod.split_asm bool.split_asm) (metis fst_conv)+
  have "unused (ct_fresh turn s) s" using assms(1) by (simp add: close_turn_ok_def)
  then have 1: "(desk_trans world)\<^sup>*\<^sup>* s s1" by (intro operation_run [OF desk_op.close_claimed [OF claim]]) simp
  have 2: "(desk_trans world)\<^sup>*\<^sup>* s1 s'"
    using s' save_result_run [OF assms(1)] steps_run others_run [OF assms(1)] by (metis rtranclp_trans)
  have "c = (close_claim p signal i)\<lparr>cr_status := ''claimed'', cr_detail := [], cr_broker_order_id := None\<rparr>" "c \<in> set (wf_closes s1)"
    using claim_close_cases [OF claim] by auto
  then have "c \<in> set (wf_closes s1)" "cr_signal_id c = map_option sg_id signal" "cr_symbol c = b_symbol p" "cr_direction c = b_direction p"
    "cr_quantity c = b_quantity p" by (simp_all add: close_claim_def)
  then show ?thesis using 1 2 mk_close_request_ok [OF m] by metis
qed

lemma close_signal_position:
  assumes "close_turn_ok world turn" "journaled_desk s" "close_signal turn sid queued rid s = (s', made, out)" "r \<in> set made"
  shows "closes_position sid s' r"
proof -
  define s1 where "s1 = ct_meanwhile turn 3 (recover_closes turn s)"
  define s2 where "s2 = ct_meanwhile turn 4 s1"
  obtain g p held where g: "find_signal (has_status sid EXECUTED) s1 = Some g"
    and held: "find (\<lambda>p. b_symbol p = broker_symbol g) held = Some p" and m: "close_matches g p"
    and one: "close_one turn p (Some g) queued rid (ct_meanwhile turn 5 s2) = (s', made, out)"
    using assms(3,4) unfolding close_signal_def Let_def s1_def [symmetric] s2_def [symmetric]
    by (auto split: option.split_asm sum.split_asm if_split_asm)
  have g': "g \<in> set (wf_signals s1)" "sg_id g = sid"
    using find_Some_props [OF g [unfolded find_signal_def]] by (auto simp: has_status_def)
  have p: "b_symbol p = broker_symbol g" "b_direction p = sg_direction (sg_alpha g)"
    using find_Some_props [OF held] m by (auto simp: close_matches_def)
  have r1: "(desk_trans world)\<^sup>*\<^sup>* s s1"
    unfolding s1_def recover_closes_def by (rule rtranclp_trans [OF recover_closes_run [OF assms(1)] others_run [OF assms(1)]])
  have r2: "(desk_trans world)\<^sup>*\<^sup>* s1 (ct_meanwhile turn 5 s2)"
    unfolding s2_def by (rule rtranclp_trans [OF others_run [OF assms(1)] others_run [OF assms(1)]])
  obtain u c where u: "(desk_trans world)\<^sup>*\<^sup>* (ct_meanwhile turn 5 s2) u" "(desk_trans world)\<^sup>*\<^sup>* u s'"
    and c: "c \<in> set (wf_closes u)" "cr_id c = pc_client_order_id r" "cr_signal_id c = Some sid" "cr_symbol c = pc_symbol r"
      "cr_direction c = pc_direction r" "cr_quantity c = pc_quantity r" "pc_symbol r = b_symbol p" "pc_direction r = b_direction p"
    using close_one_claim [OF assms(1) one assms(4)] g'(2) by auto
  have su: "(desk_trans world)\<^sup>*\<^sup>* s1 u" by (rule rtranclp_trans [OF r2 u(1)])
  have j1: "journaled_desk s1" by (rule journaled_run [OF r1 assms(2)])
  obtain g2 where "g2 \<in> set (wf_signals u @ wf_quarantined u)" "sg_id g2 = sg_id g" "sg_alpha g2 = sg_alpha g"
    using row_kept [OF su j1, of g] g'(1) by auto
  then have "\<exists>g \<in> set (wf_signals u @ wf_quarantined u). sg_id g = sid \<and> broker_symbol g = pc_symbol r \<and> sg_direction (sg_alpha g) = pc_direction r"
    using g'(2) p c(7,8) by (auto simp: broker_symbol_def)
  then have "closes_position sid u r" using c unfolding closes_position_def by blast
  then show ?thesis by (rule closes_position_kept [OF u(2) journaled_run [OF su j1]])
qed

subsection \<open>What a pass may hold\<close>

definition entry_ok :: "(ftext \<Rightarrow> string) \<Rightarrow> int \<Rightarrow> int \<Rightarrow> release_entry \<Rightarrow> bool" where
  "entry_ok sha day next_day x = (re_status x = ''close'' \<longrightarrow> re_scope x = NATIVE_SCOPE \<and> re_decision x = ''exit''
     \<and> (\<exists>r t. re_report_date x = Some r \<and> re_timing x = Some t \<and> exits_today r t day next_day
          \<and> re_request_id x = Some (release_request_id sha NATIVE_SCOPE (re_signal_id x) r day)))"

definition pass_ok :: "(ftext \<Rightarrow> string) \<Rightarrow> int \<Rightarrow> event \<Rightarrow> bool" where
  "pass_ok sha day e = (case ev_payload e of
     PRelease p \<Rightarrow> list_all (entry_ok sha day (rp_next_trading_day p)) (rp_positions p) | _ \<Rightarrow> True)"

definition passes_fine :: "(ftext \<Rightarrow> string) \<Rightarrow> wf_state \<Rightarrow> bool" where
  "passes_fine sha s = (\<forall>d e. recorded_pass d s = Some e \<longrightarrow> pass_ok sha d e)"

lemma least_reading_member: "least_reading r rs \<in> set (r # rs)"
  by (induction rs arbitrary: r) auto

lemma release_decide_exit:
  assumes "rd_status (release_decide symbol live captured today next_day) = ''exit''"
  shows "\<exists>d t. rd_report_date (release_decide symbol live captured today next_day) = Some d
     \<and> rd_timing (release_decide symbol live captured today next_day) = Some t \<and> exits_today d t today next_day"
proof -
  let ?q = "filter (\<lambda>(_, d, t). exits_today d t today next_day) (release_readings (upper symbol) live captured today next_day)"
  obtain r rs where q: "?q = r # rs"
    using assms by (cases ?q) (auto simp: release_decide_def Let_def split: if_split_asm)
  obtain s d t where l: "least_reading r rs = (s, d, t)" by (cases "least_reading r rs") auto
  have "(s, d, t) \<in> set ?q" using least_reading_member [of r rs] q l by simp
  then have "exits_today d t today next_day" by simp
  then show ?thesis using q l by (simp add: release_decide_def Let_def)
qed

lemma release_decide_status:
  "rd_status (release_decide symbol live captured today next_day) \<in> {''exit'', ''none'', ''unknown''}"
proof -
  let ?q = "filter (\<lambda>(_, d, t). exits_today d t today next_day) (release_readings (upper symbol) live captured today next_day)"
  show ?thesis
  proof (cases ?q)
    case Nil
    then show ?thesis unfolding release_decide_def Let_def by simp
  next
    case (Cons r rs)
    obtain a b c where "least_reading r rs = (a, b, c)" by (cases "least_reading r rs") auto
    with Cons show ?thesis unfolding release_decide_def Let_def by simp
  qed
qed

lemma pass_entry_ok:
  assumes "pass_entry turn captured next_day s = Inr (x, notices)"
  shows "entry_ok (rt_sha turn) (rt_today turn) next_day x"
proof -
  obtain scope where scope: "rt_scope turn s = Inr scope" using assms by (auto simp: pass_entry_def bindr_Inr_iff)
  define d where "d = release_decide (broker_symbol s)
    (case rt_lookup turn (broker_symbol s) (next_day - rt_today turn) of Inl _ \<Rightarrow> None | Inr l \<Rightarrow> Some l)
    captured (rt_today turn) next_day"
  define status where "status = entry_status (rt_mode turn) scope d"
  note eq = assms [unfolded pass_entry_def scope bindr_simps Let_def, folded d_def, folded status_def]
  have st: "re_status x = status" using eq by (auto split: if_split_asm option.split_asm)
  show ?thesis
  proof (cases "status = ''close''")
    case True
    moreover have "rd_status d \<in> {''exit'', ''none'', ''unknown''}" unfolding d_def by (rule release_decide_status)
    ultimately have ex: "scope = NATIVE_SCOPE" "rd_status d = ''exit''"
      by (auto simp: status_def entry_status_def split: if_split_asm)
    obtain r t where r: "rd_report_date d = Some r" "rd_timing d = Some t" "exits_today r t (rt_today turn) next_day"
      using release_decide_exit ex(2) unfolding d_def by blast
    then show ?thesis using eq True ex by (auto simp: entry_ok_def)
  qed (use st in \<open>simp add: entry_ok_def\<close>)
qed

lemma pass_entries_ok:
  "pass_entries turn captured next_day ss = Inr (xs, notices)
     \<Longrightarrow> list_all (entry_ok (rt_sha turn) (rt_today turn) next_day) xs"
  by (induction ss arbitrary: xs notices) (auto simp: bindr_Inr_iff pass_entry_ok)

lemma release_pass_ok:
  assumes "release_pass_of turn days_between close_at s = Inr (p, notices)"
  shows "list_all (entry_ok (rt_sha turn) (rt_today turn) (rp_next_trading_day p)) (rp_positions p)"
  using assms pass_entries_ok by (auto simp: release_pass_of_def bindr_Inr_iff)

subsection \<open>A tick is a run of the desk\<close>

text \<open>What the other processes leave in the journal: the passes already there, and passes that the same code computed in some
  other process at some moment.\<close>

definition passes_computed :: "(ftext \<Rightarrow> string) \<Rightarrow> wf_state \<Rightarrow> wf_state \<Rightarrow> bool" where
  "passes_computed sha s s' = (\<forall>d. recorded_pass d s' = recorded_pass d s
     \<or> (\<exists>other days_between close_at st p notices e. rt_sha other = sha \<and> rt_today other = d
          \<and> release_pass_of other days_between close_at st = Inr (p, notices)
          \<and> recorded_pass d s' = Some e \<and> ev_payload e = PRelease p))"

lemma passes_computed_refl [simp]: "passes_computed sha s s"
  by (simp add: passes_computed_def)

lemma passes_computed_fine:
  assumes "passes_computed sha s s'" "passes_fine sha s"
  shows "passes_fine sha s'"
  unfolding passes_fine_def
proof (intro allI impI)
  fix d e
  assume e: "recorded_pass d s' = Some e"
  from assms(1) consider "recorded_pass d s' = recorded_pass d s"
    | other days_between close_at st p notices where "rt_sha other = sha" "rt_today other = d"
        "release_pass_of other days_between close_at st = Inr (p, notices)" "ev_payload e = PRelease p"
    using e unfolding passes_computed_def by force
  then show "pass_ok sha d e"
  proof cases
    case 1
    then show ?thesis using assms(2) e by (simp add: passes_fine_def)
  next
    case 2
    then show ?thesis using release_pass_ok [OF 2(3)] by (simp add: pass_ok_def)
  qed
qed

definition release_turn_ok :: "desk_world \<Rightarrow> release_turn \<Rightarrow> bool" where
  "release_turn_ok world turn = ((\<forall>i s. (desk_trans world)\<^sup>*\<^sup>* s (rt_meanwhile turn i s)) \<and> (\<forall>s. unused (rt_fresh turn s) s)
     \<and> (\<forall>i s. passes_computed (rt_sha turn) s (rt_meanwhile turn i s))
     \<and> (\<forall>sid. close_turn_ok world (rt_close turn sid)
          \<and> (\<forall>i s. passes_computed (rt_sha turn) s (ct_meanwhile (rt_close turn sid) i s))))"

lemma passes_fine_same: "passes_fine sha s \<Longrightarrow> same_passes s s' \<Longrightarrow> passes_fine sha s'"
  by (simp add: passes_fine_def same_passes_def)

lemma release_turn_keeps:
  assumes "release_turn_ok world turn"
  shows "keeps_passes (passes_fine (rt_sha turn)) (rt_meanwhile turn)"
    "keeps_passes (passes_fine (rt_sha turn)) (ct_meanwhile (rt_close turn sid))"
  using assms unfolding release_turn_ok_def keeps_passes_def
  by (blast intro: passes_fine_same passes_computed_fine)+

lemma release_meanwhile_run: "release_turn_ok world turn \<Longrightarrow> (desk_trans world)\<^sup>*\<^sup>* s (rt_meanwhile turn i s)"
  by (simp add: release_turn_ok_def)

lemma notices_run:
  assumes "release_turn_ok world turn"
  shows "(desk_trans world)\<^sup>*\<^sup>* s (notice_each turn notices s)" "same_passes s (notice_each turn notices s)"
proof -
  have "(desk_trans world)\<^sup>*\<^sup>* s (notify key ''message'' body (rt_fresh turn s) (rt_now turn) s)" for s key body
    by (rule operation_run [OF desk_op.noticed]) (use assms in \<open>simp add: release_turn_ok_def\<close>)
  note one = this
  show "(desk_trans world)\<^sup>*\<^sup>* s (notice_each turn notices s)"
  proof (induction notices arbitrary: s)
    case (Cons n notices)
    obtain key body where "n = (key, body)" by (cases n)
    then have "notice_each turn (n # notices) s
        = notice_each turn notices (notify key ''message'' [(''text'', body)] (rt_fresh turn s) (rt_now turn) s)"
      by (simp add: notice_each_def)
    then show ?case using rtranclp_trans [OF one Cons.IH] by simp
  qed (simp add: notice_each_def)
  show "same_passes s (notice_each turn notices s)"
    unfolding notice_each_def
    by (induction notices arbitrary: s) (auto intro: same_passes_trans same_passes_notify)
qed

lemma release_journal_run:
  assumes "kind \<in> {''release_exit_pass'', ''release_exit_close''}" "k = pass_key day \<or> k = release_close_key day sid"
  shows "(desk_trans world)\<^sup>*\<^sup>* s (fst (wf_append RELEASE_EXIT_STREAM kind payload (Some k) s))"
proof (rule operation_run [OF desk_op.journal])
  show "plain_event RELEASE_EXIT_STREAM kind (Some k)"
    using assms by (auto simp: plain_event_def journal_kinds_def entry_kinds_def order_key_def RELEASE_EXIT_STREAM_def
        entry_stream_def pass_key_def release_close_key_def)
qed simp

lemma record_close_run:
  assumes "release_turn_ok world turn"
  shows "(desk_trans world)\<^sup>*\<^sup>* s (record_close turn day sid payload n s)" "same_passes s (record_close turn day sid payload n s)"
proof -
  let ?s = "fst (wf_append RELEASE_EXIT_STREAM ''release_exit_close'' (PData payload) (Some (release_close_key day sid)) s)"
  have "(desk_trans world)\<^sup>*\<^sup>* s ?s" by (rule release_journal_run) auto
  then show "(desk_trans world)\<^sup>*\<^sup>* s (record_close turn day sid payload n s)"
    unfolding record_close_def using notices_run(1) [OF assms] by (rule rtranclp_trans)
  have "same_passes s ?s" by (rule same_passes_append) (auto simp: pass_key_def release_close_key_def)
  then show "same_passes s (record_close turn day sid payload n s)"
    unfolding record_close_def using notices_run(2) [OF assms] by (rule same_passes_trans)
qed

lemma recorded_kept:
  assumes "(desk_trans world)\<^sup>*\<^sup>* s t" "recorded_pass d s = Some e"
  shows "recorded_pass d t = Some e"
proof -
  obtain es where "wf_events t = wf_events s @ es" using desk_journal [OF assms(1)] by blast
  moreover have "find P (xs @ ys) = Some e" if "find P xs = Some e" for P and xs ys :: "event list"
    using that by (induction xs) auto
  ultimately show ?thesis using assms(2) by (simp add: recorded_pass_def event_by_key_def)
qed

definition sent_under :: "release_entry \<Rightarrow> wf_state \<Rightarrow> position_close_request \<Rightarrow> bool" where
  "sent_under x st r = ((\<exists>rid. re_request_id x = Some rid \<and> (rid \<noteq> [] \<longrightarrow> pc_client_order_id r = rid))
     \<and> closes_position (re_signal_id x) st r)"

lemma sent_under_kept:
  "(desk_trans w)\<^sup>*\<^sup>* s t \<Longrightarrow> journaled_desk s \<Longrightarrow> sent_under x s r \<Longrightarrow> sent_under x t r"
  using closes_position_kept by (auto simp: sent_under_def)

lemma release_close_spec:
  assumes ok: "release_turn_ok world turn" and run: "release_close turn may_notify x s = (s', made, out)"
    and fine: "passes_fine (rt_sha turn) s" and j: "journaled_desk s"
  shows "closing world s made s'" "passes_fine (rt_sha turn) s'" "\<forall>r \<in> set made. sent_under x s' r"
proof -
  have "closing world s made s' \<and> passes_fine (rt_sha turn) s' \<and> (\<forall>r \<in> set made. sent_under x s' r)"
  proof (cases "re_request_id x")
    case None
    then have "s' = s" "made = []" using run by (simp_all add: release_close_def Let_def)
    then show ?thesis using fine closing.start by simp
  next
    case (Some rid)
    obtain s1 sent reply where c: "close_signal (rt_close turn (re_signal_id x)) (re_signal_id x) False (Some rid) s = (s1, sent, reply)"
      by (metis prod.collapse)
    define s2 where "s2 = rt_meanwhile turn 3 s1"
    have cok: "close_turn_ok world (rt_close turn (re_signal_id x))" using ok by (simp add: release_turn_ok_def)
    have 1: "closing world s sent s1" by (rule close_signal_closing [OF cok c])
    have 2: "passes_fine (rt_sha turn) s1" by (rule close_signal_keeps [OF release_turn_keeps(2) [OF ok] fine c])
    have 3: "closing world s sent s2" unfolding s2_def by (rule closing_run [OF release_meanwhile_run [OF ok] 1])
    have 4: "passes_fine (rt_sha turn) s2" unfolding s2_def using keeps_passesD(2) [OF release_turn_keeps(1) [OF ok] 2] .
    have 5: "closing world s sent (record_close turn day sid payload n (rt_meanwhile turn 4 s2))" for day sid payload n
      by (rule closing_run [OF record_close_run(1) [OF ok] closing_run [OF release_meanwhile_run [OF ok] 3]])
    have 6: "passes_fine (rt_sha turn) (record_close turn day sid payload n (rt_meanwhile turn 4 s2))" for day sid payload n
      by (rule passes_fine_same [OF keeps_passesD(2) [OF release_turn_keeps(1) [OF ok] 4] record_close_run(2) [OF ok]])
    have "made = sent \<and> (s' = s2 \<or> (\<exists>day sid payload n. s' = record_close turn day sid payload n (rt_meanwhile turn 4 s2)))"
      using run Some c unfolding release_close_def Let_def s2_def by (auto split: if_split_asm option.split_asm)
    moreover have sent: "sent_under x s1 r" if "r \<in> set sent" for r
      using close_signal_identifier [OF c _ that] close_signal_position [OF cok j c that] Some by (auto simp: sent_under_def)
    have j1: "journaled_desk s1" by (rule journaled_run [OF closing_desk_run [OF 1] j])
    have r2: "(desk_trans world)\<^sup>*\<^sup>* s1 s2" unfolding s2_def by (rule release_meanwhile_run [OF ok])
    have r3: "(desk_trans world)\<^sup>*\<^sup>* s1 (record_close turn day sid payload n (rt_meanwhile turn 4 s2))" for day sid payload n
      by (rule rtranclp_trans [OF r2 rtranclp_trans [OF release_meanwhile_run [OF ok] record_close_run(1) [OF ok]]])
    have "sent_under x s2 r" "sent_under x (record_close turn day sid payload n (rt_meanwhile turn 4 s2)) r"
      if "r \<in> set sent" for r day sid payload n
      using sent [OF that] sent_under_kept [OF _ j1] r2 r3 by blast+
    ultimately show ?thesis using 3 4 5 6 by blast
  qed
  then show "closing world s made s'" "passes_fine (rt_sha turn) s'" "\<forall>r \<in> set made. sent_under x s' r" by blast+
qed

lemma release_close_each_spec:
  assumes ok: "release_turn_ok world turn"
  shows "release_close_each turn may_notify xs s = (s', made, out) \<Longrightarrow> passes_fine (rt_sha turn) s \<Longrightarrow> journaled_desk s
    \<Longrightarrow> closing world s made s' \<and> passes_fine (rt_sha turn) s' \<and> (\<forall>r \<in> set made. \<exists>x \<in> set xs. sent_under x s' r)"
proof (induction xs arbitrary: s s' made out)
  case Nil
  then show ?case using closing.start by auto
next
  case (Cons x xs)
  let ?s = "rt_meanwhile turn 5 s"
  obtain s1 m1 o1 where one: "release_close turn may_notify x ?s = (s1, m1, o1)" by (metis prod.collapse)
  have fine: "passes_fine (rt_sha turn) ?s" using keeps_passesD(2) [OF release_turn_keeps(1) [OF ok] Cons.prems(2)] .
  have j: "journaled_desk ?s" by (rule journaled_run [OF release_meanwhile_run [OF ok] Cons.prems(3)])
  note spec = release_close_spec [OF ok one fine j]
  have "closing world s ([] @ m1) s1"
    by (rule closing_append [OF spec(1) closing_run [OF release_meanwhile_run [OF ok] closing.start]])
  then have c1: "closing world s m1 s1" by simp
  show ?case
  proof (cases o1)
    case (Inl f)
    then show ?thesis using Cons.prems(1) one c1 spec(2,3) by auto
  next
    case (Inr u)
    obtain s2 m2 o2 where rest: "release_close_each turn may_notify xs s1 = (s2, m2, o2)" by (metis prod.collapse)
    with Cons.prems(1) one Inr have eq: "s' = s2" "made = m1 @ m2" by auto
    have j1: "journaled_desk s1" by (rule journaled_run [OF closing_desk_run [OF spec(1)] j])
    note ih = Cons.IH [OF rest spec(2) j1]
    have "closing world s (m1 @ m2) s2" using closing_append [OF conjunct1 [OF ih] c1] .
    moreover have "\<forall>r \<in> set m1. sent_under x s2 r"
      using spec(3) sent_under_kept [OF closing_desk_run [OF conjunct1 [OF ih]] j1] by blast
    ultimately show ?thesis using ih eq by auto
  qed
qed

lemma finish_closes_spec:
  assumes "release_turn_ok world turn" "finish_closes turn close_at xs s = (s', made, out)" "passes_fine (rt_sha turn) s"
    "xs = [] \<or> journaled_desk s"
  shows "closing world s made s'" "passes_fine (rt_sha turn) s'"
    "\<forall>r \<in> set made. \<exists>x \<in> set xs. re_status x = ''close'' \<and> sent_under x s' r"
    "rt_mode turn \<noteq> ''enforce'' \<Longrightarrow> made = []"
proof -
  show none: "made = []" if "rt_mode turn \<noteq> ''enforce''" using assms(2) that by (simp add: finish_closes_def)
  have "closing world s made s' \<and> passes_fine (rt_sha turn) s' \<and> (\<forall>r \<in> set made. \<exists>x \<in> set xs. re_status x = ''close'' \<and> sent_under x s' r)"
  proof (cases "rt_mode turn = ''enforce'' \<and> xs \<noteq> []")
    case True
    then obtain b where "release_close_each turn b
        (filter (\<lambda>e. \<not> closed_already (rt_today turn) s (re_signal_id e)) (owed xs)) s = (s', made, out)"
      using assms(2) by (auto simp: finish_closes_def)
    from release_close_each_spec [OF assms(1) this assms(3)] show ?thesis using assms(4) True by (auto simp: owed_def)
  next
    case False
    then have "s' = s" "made = []" using assms(2) by (auto simp: finish_closes_def owed_def split: if_split_asm)
    then show ?thesis using assms(3) closing.start by simp
  qed
  then show "closing world s made s'" "passes_fine (rt_sha turn) s'"
    "\<forall>r \<in> set made. \<exists>x \<in> set xs. re_status x = ''close'' \<and> sent_under x s' r" by blast+
qed

text \<open>A request the release exit sent, traced to the journaled pass of its day.\<close>

definition release_sent :: "(ftext \<Rightarrow> string) \<Rightarrow> wf_state \<Rightarrow> position_close_request \<Rightarrow> bool" where
  "release_sent sha st r = (\<exists>day e p x report t. recorded_pass day st = Some e \<and> ev_payload e = PRelease p \<and> x \<in> set (rp_positions p)
     \<and> re_status x = ''close'' \<and> re_scope x = NATIVE_SCOPE \<and> re_report_date x = Some report \<and> re_timing x = Some t
     \<and> exits_today report t day (rp_next_trading_day p)
     \<and> pc_client_order_id r = release_request_id sha NATIVE_SCOPE (re_signal_id x) report day
     \<and> closes_position (re_signal_id x) st r)"

lemma recorded_journaled: "recorded_pass day s = Some e \<Longrightarrow> desk_inv s \<Longrightarrow> journaled_desk s"
  by (auto simp: journaled_desk_def recorded_pass_def event_by_key_def)

lemma release_sent_kept:
  assumes "(desk_trans world)\<^sup>*\<^sup>* s t" "desk_inv s" "release_sent sha s r"
  shows "release_sent sha t r"
  using assms(3) recorded_kept [OF assms(1)] closes_position_kept [OF assms(1) recorded_journaled [OF _ assms(2)]]
  unfolding release_sent_def by blast

lemma sent_under_pass:
  assumes "recorded_pass day s = Some e" "pass_ok sha day e" "x \<in> set (pass_positions e)" "re_status x = ''close''" "sent_under x s r"
  shows "release_sent sha s r"
proof -
  obtain p where p: "ev_payload e = PRelease p" "x \<in> set (rp_positions p)"
    using assms(3) by (cases "ev_payload e") (auto simp: pass_positions_def)
  have "entry_ok sha day (rp_next_trading_day p) x" using assms(2) p by (auto simp: pass_ok_def list_all_iff)
  then obtain report t where x: "re_scope x = NATIVE_SCOPE" "re_report_date x = Some report" "re_timing x = Some t"
    "exits_today report t day (rp_next_trading_day p)"
    "re_request_id x = Some (release_request_id sha NATIVE_SCOPE (re_signal_id x) report day)"
    using assms(4) by (auto simp: entry_ok_def)
  have "pc_client_order_id r = release_request_id sha NATIVE_SCOPE (re_signal_id x) report day"
    using assms(5) x(5) by (auto simp: sent_under_def release_request_id_def)
  moreover have "closes_position (re_signal_id x) s r" using assms(5) by (simp add: sent_under_def)
  ultimately show ?thesis using assms(1,4) p x unfolding release_sent_def by blast
qed

lemma finish_recorded:
  assumes "release_turn_ok world turn" "finish_closes turn close_at (pass_positions e) s = (s', made, out)"
    "passes_fine (rt_sha turn) s" "recorded_pass (rt_today turn) s = Some e" "r \<in> set made" "desk_inv s"
  shows "release_sent (rt_sha turn) s' r"
proof -
  note f = finish_closes_spec [OF assms(1-3) disjI2 [OF recorded_journaled [OF assms(4,6)]]]
  obtain x where x: "x \<in> set (pass_positions e)" "re_status x = ''close''" "sent_under x s' r" using f(3) assms(5) by blast
  have "recorded_pass (rt_today turn) s' = Some e" using recorded_kept [OF closing_desk_run [OF f(1)] assms(4)] .
  moreover from this have "pass_ok (rt_sha turn) (rt_today turn) e" using f(2) by (auto simp: passes_fine_def)
  ultimately show ?thesis using sent_under_pass x by blast
qed

lemma find_new: "find P xs = None \<Longrightarrow> P y \<Longrightarrow> find P (xs @ [y]) = Some y"
  by (induction xs) (auto split: if_split_asm)

lemma record_pass_spec:
  assumes ok: "release_turn_ok world turn" and rec: "record_pass turn day p notices s = (s', b)"
    and fine: "passes_fine (rt_sha turn) s" and p: "list_all (entry_ok (rt_sha turn) day (rp_next_trading_day p)) (rp_positions p)"
  shows "(desk_trans world)\<^sup>*\<^sup>* s s'" "passes_fine (rt_sha turn) s'"
    "b \<Longrightarrow> \<exists>e. recorded_pass day s' = Some e \<and> pass_positions e = rp_positions p"
proof -
  have "(desk_trans world)\<^sup>*\<^sup>* s s' \<and> passes_fine (rt_sha turn) s'
    \<and> (b \<longrightarrow> (\<exists>e. recorded_pass day s' = Some e \<and> pass_positions e = rp_positions p))"
  proof (cases "event_by_key s (pass_key day)")
    case (Some e)
    then show ?thesis using rec fine by (simp add: record_pass_def)
  next
    case None
    define s1 where "s1 = fst (wf_append RELEASE_EXIT_STREAM ''release_exit_pass'' (PRelease p) (Some (pass_key day)) s)"
    have s': "s' = notice_each turn notices s1" "b" using rec None by (simp_all add: record_pass_def s1_def)
    define e where "e = \<lparr>ev_id = wf_next s, ev_stream = RELEASE_EXIT_STREAM, ev_kind = ''release_exit_pass'',
      ev_key = Some (pass_key day), ev_payload = PRelease p\<rparr>"
    have ev: "wf_events s1 = wf_events s @ [e]" using None by (simp add: s1_def wf_append_def append_new_def e_def Let_def)
    have "(desk_trans world)\<^sup>*\<^sup>* s s1" unfolding s1_def by (rule release_journal_run) auto
    then have run: "(desk_trans world)\<^sup>*\<^sup>* s s'" unfolding s' using notices_run(1) [OF ok] by (rule rtranclp_trans)
    have today: "recorded_pass day s1 = Some e"
      using find_new [of "\<lambda>e. ev_key e = Some (pass_key day)" "wf_events s" e] None
      by (simp add: recorded_pass_def event_by_key_def ev) (simp add: e_def)
    have other: "recorded_pass d s1 = recorded_pass d s" if "d \<noteq> day" for d
      using that by (auto simp: recorded_pass_def event_by_key_def ev e_def pass_key_def intro!: find_snoc)
    have ok_e: "pass_ok (rt_sha turn) day e" using p by (simp add: pass_ok_def e_def)
    have "passes_fine (rt_sha turn) s1"
      unfolding passes_fine_def
    proof (intro allI impI)
      fix d x
      assume "recorded_pass d s1 = Some x"
      then show "pass_ok (rt_sha turn) d x"
        using fine today other [of d] ok_e by (cases "d = day") (simp_all add: passes_fine_def)
    qed
    moreover have same: "same_passes s1 s'" unfolding s' by (rule notices_run(2) [OF ok])
    ultimately have "passes_fine (rt_sha turn) s'" using passes_fine_same by blast
    moreover have "recorded_pass day s' = Some e" using today same by (simp add: same_passes_def)
    moreover have "pass_positions e = rp_positions p" by (simp add: pass_positions_def e_def)
    ultimately show ?thesis using run by blast
  qed
  then show "(desk_trans world)\<^sup>*\<^sup>* s s'" "passes_fine (rt_sha turn) s'"
    "b \<Longrightarrow> \<exists>e. recorded_pass day s' = Some e \<and> pass_positions e = rp_positions p" by blast+
qed

lemma missed_pass_spec:
  assumes "release_turn_ok world turn" "missed_pass turn close_at mem s = (mem', s', status)"
  shows "(desk_trans world)\<^sup>*\<^sup>* s s'" "same_passes s s'"
proof -
  have "(desk_trans world)\<^sup>*\<^sup>* s (queue_unavailable turn day body s)" for day body
    unfolding queue_unavailable_def
    by (rule operation_run [OF desk_op.noticed]) (use assms(1) in \<open>simp add: release_turn_ok_def\<close>)
  moreover have "same_passes s (queue_unavailable turn day body s)" for day body
    unfolding queue_unavailable_def by (rule same_passes_notify)
  moreover have "s' = s \<or> (\<exists>day body. s' = queue_unavailable turn day body s)"
    using assms(2) unfolding missed_pass_def Let_def
    by (simp split: option.split_asm if_split_asm prod.split_asm) blast
  ultimately show "(desk_trans world)\<^sup>*\<^sup>* s s'" "same_passes s s'" by auto
qed

text \<open>What a tick did: a run of the desk whose requests are traced to the day's pass, none outside enforce.\<close>

definition tick_fine :: "desk_world \<Rightarrow> release_turn \<Rightarrow> wf_state \<Rightarrow> wf_state \<Rightarrow> position_close_request list \<Rightarrow> bool" where
  "tick_fine world turn s s' made = (closing world s made s' \<and> passes_fine (rt_sha turn) s'
     \<and> (\<forall>r \<in> set made. release_sent (rt_sha turn) s' r) \<and> (rt_mode turn \<noteq> ''enforce'' \<longrightarrow> made = []))"

lemma tick_fine_run:
  assumes "(desk_trans world)\<^sup>*\<^sup>* s s'" "passes_fine (rt_sha turn) s'"
  shows "tick_fine world turn s s' []"
  using assms closing_run [OF assms(1) closing.start] by (simp add: tick_fine_def)

lemma finish_tick:
  assumes "release_turn_ok world turn" "desk_inv s" "finish_closes turn close_at xs s1 = (s', made, out)" "(desk_trans world)\<^sup>*\<^sup>* s s1"
    "passes_fine (rt_sha turn) s1" "xs = [] \<or> (\<exists>e. recorded_pass (rt_today turn) s1 = Some e \<and> xs = pass_positions e)"
  shows "tick_fine world turn s s' made"
proof -
  have inv: "desk_inv s1" by (rule run_desk_inv [OF assms(4,2)])
  have "xs = [] \<or> journaled_desk s1" using assms(6) recorded_journaled [OF _ inv] by blast
  note f = finish_closes_spec [OF assms(1,3,5) this]
  have "closing world s ([] @ made) s'" by (rule closing_append [OF f(1) closing_run [OF assms(4) closing.start]])
  moreover have "release_sent (rt_sha turn) s' r" if "r \<in> set made" for r
    using assms(6) f(3) finish_recorded [OF assms(1) _ assms(5) _ that inv] assms(3) that by fastforce
  ultimately show ?thesis using f(2,4) by (simp add: tick_fine_def)
qed

lemma settle_tick:
  assumes "settle turn mem status r = (mem', s', made, out)"
  shows "\<exists>o'. r = (s', made, o')"
  using assms by (cases r) (auto simp: settle_def split: sum.split_asm)

lemma pass_tick_fine:
  assumes ok: "release_turn_ok world turn" and inv: "desk_inv s" and fine: "passes_fine (rt_sha turn) s"
    and run: "pass_tick turn days_between close_at mem s = (mem', s', made, out)"
  shows "tick_fine world turn s s' made"
proof -
  define s1 where "s1 = rt_meanwhile turn 0 s"
  note keep = keeps_passesD(2) [OF release_turn_keeps(1) [OF ok]]
  have r1: "(desk_trans world)\<^sup>*\<^sup>* s s1" and f1: "passes_fine (rt_sha turn) s1"
    unfolding s1_def using release_meanwhile_run [OF ok] keep [OF fine] by blast+
  note eq = run [unfolded pass_tick_def Let_def, folded s1_def]
  show ?thesis
  proof (cases "recorded_pass (rt_today turn) s1")
    case (Some e)
    then obtain o' where "finish_closes turn close_at (pass_positions e) s1 = (s', made, o')"
      using settle_tick eq unfolding Some option.case by blast
    from finish_tick [OF ok inv this r1 f1] Some show ?thesis by blast
  next
    case None
    show ?thesis
    proof (cases "rt_wall turn \<ge> close_at")
      case True
      then obtain m status where "missed_pass turn close_at mem s1 = (m, s', status)" "made = []"
        using eq None by (auto split: prod.split_asm)
      then show ?thesis
        using missed_pass_spec [OF ok] r1 f1 by (metis tick_fine_run rtranclp_trans passes_fine_same)
    next
      case early: False
      define s2 where "s2 = rt_meanwhile turn 1 s1"
      have r2: "(desk_trans world)\<^sup>*\<^sup>* s s2" and f2: "passes_fine (rt_sha turn) s2"
        unfolding s2_def using rtranclp_trans [OF r1 release_meanwhile_run [OF ok]] keep [OF f1] by blast+
      show ?thesis
      proof (cases "release_pass_of turn days_between close_at s2")
        case (Inl f)
        then have "s' = s2" "made = []" using eq None early s2_def by simp_all
        then show ?thesis using tick_fine_run r2 f2 by blast
      next
        case (Inr q)
        obtain p notices where q: "q = (p, notices)" by (cases q)
        define s3 where "s3 = rt_meanwhile turn 2 s2"
        have r3: "(desk_trans world)\<^sup>*\<^sup>* s s3" and f3: "passes_fine (rt_sha turn) s3"
          unfolding s3_def using rtranclp_trans [OF r2 release_meanwhile_run [OF ok]] keep [OF f2] by blast+
        obtain s4 b where rp: "record_pass turn (rt_today turn) p notices s3 = (s4, b)" by (metis prod.collapse)
        note spec = record_pass_spec [OF ok rp f3 release_pass_ok [OF Inr [unfolded q]]]
        have r4: "(desk_trans world)\<^sup>*\<^sup>* s s4" using rtranclp_trans [OF r3 spec(1)] .
        let ?xs = "if b then rp_positions p else (case recorded_pass (rt_today turn) s4 of None \<Rightarrow> [] | Some e \<Rightarrow> pass_positions e)"
        have "\<exists>st'. settle turn mem st' (finish_closes turn close_at ?xs s4) = (mem', s', made, out)"
          using eq early unfolding None option.case s2_def [symmetric] Inr q sum.case prod.case s3_def [symmetric] rp
          by (cases b) auto
        then obtain o' where "finish_closes turn close_at ?xs s4 = (s', made, o')" using settle_tick by blast
        moreover have "?xs = [] \<or> (\<exists>e. recorded_pass (rt_today turn) s4 = Some e \<and> ?xs = pass_positions e)"
          using spec(3) by (cases b) (auto split: option.split)
        ultimately show ?thesis using finish_tick [OF ok inv _ r4 spec(2)] by blast
      qed
    qed
  qed
qed

lemma release_run_fine:
  assumes "release_turn_ok world turn" "desk_inv s" "passes_fine (rt_sha turn) s" "release_run turn mem s = (mem', s', made, status)"
  shows "tick_fine world turn s s' made"
proof -
  obtain m out where t: "release_tick turn mem s = (m, s', made, out)"
    using assms(4) by (auto simp: release_run_def split: prod.split_asm sum.split_asm)
  have "s' = s \<and> made = [] \<or> (\<exists>d c mm oo. pass_tick turn d c mem s = (mm, s', made, oo))"
    using t unfolding release_tick_def Let_def
    by (auto split: if_split_asm option.split_asm sum.split_asm prod.split_asm bool.split_asm)
  then show ?thesis using tick_fine_run [OF _ assms(3)] pass_tick_fine [OF assms(1-3)] by blast
qed

subsection \<open>The window of the decision\<close>

text \<open>
  A day has two slots for a report, before the open and after the close; an unspecified time may be
  either. The pass of a day answers for the slots after its close up to the next session's open.
\<close>

definition report_slots :: "int \<Rightarrow> earnings_timing \<Rightarrow> int set" where
  "report_slots d t = (case t of PreMarket \<Rightarrow> {2 * d} | AfterHours \<Rightarrow> {2 * d + 1} | UnspecifiedTime \<Rightarrow> {2 * d, 2 * d + 1})"

definition overnight :: "int \<Rightarrow> earnings_timing \<Rightarrow> int \<Rightarrow> int \<Rightarrow> bool" where
  "overnight d t today next_day = (report_slots d t \<inter> {2 * today + 1 .. 2 * next_day} \<noteq> {})"

definition reported :: "string \<Rightarrow> earnings_lookup option \<Rightarrow> captured_reports option \<Rightarrow> int \<Rightarrow> earnings_timing \<Rightarrow> bool" where
  "reported symbol live captured d t = ((\<exists>l. live = Some l \<and> el_event l = Some (d, t))
     \<or> (\<exists>c rows. captured = Some c \<and> (d, rows) \<in> set (cp_rows c) \<and> (symbol, t) \<in> set rows))"

lemma exits_today_overnight: "today < next_day \<Longrightarrow> exits_today d t today next_day = overnight d t today next_day"
  by (cases t) (auto simp: exits_today_def overnight_def report_slots_def)

lemma overnight_window: "overnight d t today next_day \<Longrightarrow> today \<le> d \<and> d \<le> next_day"
  by (cases t) (auto simp: overnight_def report_slots_def)

lemma release_readings_iff:
  "(\<exists>s. (s, d, t) \<in> set (release_readings symbol live captured today next_day))
     \<longleftrightarrow> today \<le> d \<and> d \<le> next_day \<and> reported symbol live captured d t"
  by (cases live; cases captured) (auto simp: release_readings_def reported_def split: option.split, force+)

lemma least_reading_earliest: "x \<in> set (r # rs) \<Longrightarrow> fst (snd (least_reading r rs)) \<le> fst (snd x)"
proof (induction rs arbitrary: r x)
  case (Cons y ys)
  let ?best = "if earlier_reading y r then y else r"
  have b: "fst (snd ?best) \<le> fst (snd r)" "fst (snd ?best) \<le> fst (snd y)"
    by (auto simp: earlier_reading_def split: prod.splits)
  have "fst (snd (least_reading ?best ys)) \<le> fst (snd ?best)" using Cons.IH [of ?best ?best] by simp
  moreover have "fst (snd (least_reading ?best ys)) \<le> fst (snd x)" if "x \<in> set ys" using Cons.IH [of x ?best] that by simp
  ultimately show ?case using Cons.prems b by (auto split del: if_split)
qed simp

text \<open>
  C23. A position is marked for exit exactly when one of the two sources shows a report of its symbol
  that may fall between today's close and the next session's open, and then, and only then, it names a
  report, the earliest such one; the status is unknown, which never closes anything, exactly when no such report is shown, the
  live calendar is not verified and there is no capture.
\<close>

theorem release_decision_window:
  assumes "today < next_day"
  shows "(rd_status (release_decide symbol live captured today next_day) = ''exit'' \<longleftrightarrow>
       (\<exists>d t. reported (upper symbol) live captured d t \<and> overnight d t today next_day))
    \<and> (rd_status (release_decide symbol live captured today next_day) = ''unknown'' \<longleftrightarrow>
       \<not> (\<exists>d t. reported (upper symbol) live captured d t \<and> overnight d t today next_day)
       \<and> captured = None \<and> (\<forall>l. live = Some l \<longrightarrow> \<not> el_verified l))
    \<and> (\<forall>d. rd_report_date (release_decide symbol live captured today next_day) = Some d \<longrightarrow>
       (\<exists>t. rd_timing (release_decide symbol live captured today next_day) = Some t
          \<and> reported (upper symbol) live captured d t \<and> overnight d t today next_day)
       \<and> (\<forall>d' t'. reported (upper symbol) live captured d' t' \<and> overnight d' t' today next_day \<longrightarrow> d \<le> d'))
    \<and> (rd_status (release_decide symbol live captured today next_day) = ''exit'' \<longleftrightarrow>
       rd_report_date (release_decide symbol live captured today next_day) \<noteq> None)"
proof -
  let ?q = "filter (\<lambda>(_, d, t). exits_today d t today next_day) (release_readings (upper symbol) live captured today next_day)"
  let ?D = "release_decide symbol live captured today next_day"
  have q: "(\<exists>s. (s, d, t) \<in> set ?q) \<longleftrightarrow> reported (upper symbol) live captured d t \<and> overnight d t today next_day" for d t
    using release_readings_iff [of d t "upper symbol" live captured today next_day] exits_today_overnight [OF assms]
      overnight_window by auto
  show ?thesis
  proof (cases ?q)
    case Nil
    have none: "\<not> (reported (upper symbol) live captured d t \<and> overnight d t today next_day)" for d t
      using q [of d t] unfolding Nil by simp
    let ?v = "case live of None \<Rightarrow> False | Some l \<Rightarrow> el_verified l"
    have D: "rd_status ?D = (if ?v \<or> captured \<noteq> None then ''none'' else ''unknown'')" "rd_report_date ?D = None"
      unfolding release_decide_def Let_def Nil by simp_all
    have v: "\<not> ?v \<longleftrightarrow> (\<forall>l. live = Some l \<longrightarrow> \<not> el_verified l)" by (cases live) simp_all
    show ?thesis
    proof (cases "?v \<or> captured \<noteq> None")
      case True
      then have "rd_status ?D = ''none''" using D(1) by simp
      moreover have "\<not> (captured = None \<and> (\<forall>l. live = Some l \<longrightarrow> \<not> el_verified l))" using True v by blast
      ultimately show ?thesis using none D(2) by simp
    next
      case False
      then have "rd_status ?D = ''unknown''" using D(1) by simp
      moreover have "captured = None \<and> (\<forall>l. live = Some l \<longrightarrow> \<not> el_verified l)" using False v by blast
      ultimately show ?thesis using none D(2) by simp
    qed
  next
    case (Cons r rs)
    obtain s d t where l: "least_reading r rs = (s, d, t)" by (cases "least_reading r rs") auto
    have D: "rd_status ?D = ''exit''" "rd_report_date ?D = Some d" "rd_timing ?D = Some t"
      using Cons l by (simp_all add: release_decide_def Let_def)
    have "(s, d, t) \<in> set ?q" using least_reading_member [of r rs] Cons l by simp
    then have dt: "reported (upper symbol) live captured d t \<and> overnight d t today next_day" using q by blast
    have "d \<le> d'" if later: "reported (upper symbol) live captured d' t' \<and> overnight d' t' today next_day" for d' t'
    proof -
      obtain s' where "(s', d', t') \<in> set ?q" using q later by blast
      then show ?thesis using least_reading_earliest [of "(s', d', t')" r rs] Cons l by simp
    qed
    with D dt show ?thesis by auto
  qed
qed

theorem release_decision_window_witness:
  "rd_status (release_decide ''aapl'' (Some \<lparr>el_event = None, el_verified = True\<rparr>)
       (Some \<lparr>cp_capture_date = 9, cp_rows = [(11, [(''AAPL'', PreMarket)])]\<rparr>) 10 11) = ''exit''
     \<and> overnight 11 PreMarket 10 11"
proof -
  have "reported ''AAPL'' (Some \<lparr>el_event = None, el_verified = True\<rparr>)
      (Some \<lparr>cp_capture_date = 9, cp_rows = [(11, [(''AAPL'', PreMarket)])]\<rparr>) 11 PreMarket" "overnight 11 PreMarket 10 11"
    "upper ''aapl'' = ''AAPL''"
    by (auto simp: reported_def overnight_def report_slots_def str_eval)
  note facts = this
  have "(10 :: int) < 11" by simp
  from conjunct1 [OF release_decision_window [OF this, of "''aapl''" "Some \<lparr>el_event = None, el_verified = True\<rparr>"
        "Some \<lparr>cp_capture_date = 9, cp_rows = [(11, [(''AAPL'', PreMarket)])]\<rparr>"]]
  show ?thesis unfolding facts(3) using facts(1,2) by blast
qed

subsection \<open>The release exit over days\<close>

definition no_memory :: release_memory where
  "no_memory = \<lparr>rm_settled = None, rm_failure = None, rm_unavailable_queued = None\<rparr>"

text \<open>
  The service at work: ticks on any number of days, restarts that forget the process memory, and any
  transaction of the other processes, which journal no pass but one the same code computed.
\<close>

inductive release_service ::
  "desk_world \<Rightarrow> (ftext \<Rightarrow> string) \<Rightarrow> wf_state \<Rightarrow> position_close_request list \<Rightarrow> release_memory \<Rightarrow> wf_state \<Rightarrow> bool"
  for world sha st0 where
  opens: "release_service world sha st0 [] no_memory st0"
| elsewhere_acts: "release_service world sha st0 calls mem s \<Longrightarrow> desk_trans world s s'
    \<Longrightarrow> passes_computed sha s s' \<Longrightarrow> release_service world sha st0 calls mem s'"
| restarts: "release_service world sha st0 calls mem s \<Longrightarrow> release_service world sha st0 calls no_memory s"
| ticks: "release_service world sha st0 calls mem s \<Longrightarrow> release_turn_ok world turn \<Longrightarrow> rt_sha turn = sha
    \<Longrightarrow> release_run turn mem s = (mem', s', made, status) \<Longrightarrow> release_service world sha st0 (calls @ made) mem' s'"

lemma release_service_inv:
  assumes "release_service world sha st0 calls mem st" and "passes_fine sha st0" and "desk_inv st0"
  shows "closing world st0 calls st \<and> passes_fine sha st \<and> (\<forall>r \<in> set calls. release_sent sha st r)"
  using assms(1)
proof (induction rule: release_service.induct)
  case opens
  then show ?case using assms(2) closing.start by simp
next
  case (elsewhere_acts calls mem s s')
  then have "(desk_trans world)\<^sup>*\<^sup>* s s'" by blast
  moreover have "desk_inv s" using run_desk_inv [OF closing_desk_run assms(3)] elsewhere_acts.IH by blast
  ultimately show ?case using elsewhere_acts closing.others release_sent_kept passes_computed_fine by blast
next
  case (restarts calls mem s)
  then show ?case by blast
next
  case (ticks calls mem s turn mem' s' made status)
  have inv: "desk_inv s" using run_desk_inv [OF closing_desk_run assms(3)] ticks.IH by blast
  have "tick_fine world turn s s' made" using release_run_fine [OF ticks.hyps(2) inv _ ticks.hyps(4)] ticks.IH ticks.hyps(3) by blast
  then have t: "closing world s made s'" "passes_fine sha s'" "\<forall>r \<in> set made. release_sent sha s' r"
    using ticks.hyps(3) by (auto simp: tick_fine_def)
  have "closing world st0 (calls @ made) s'" using closing_append [OF t(1)] ticks.IH by blast
  moreover have "\<forall>r \<in> set calls. release_sent sha s' r" using release_sent_kept [OF closing_desk_run [OF t(1)] inv] ticks.IH by blast
  ultimately show ?case using t by auto
qed

text \<open>
  C12. Over any number of days, ticks and restarts, with every other process acting at any point, the
  release exit sends a close at most once per request identifier and only behind its durable claim; and
  each close it sends belongs to a native position that the journaled pass of its trading day marked for
  closing because of a report between that day's close and the next session's open, under the
  identifier of exactly that position, report and day: the durable claim of the close names the marked
  signal, and the symbol and direction sent are those of that signal's row.
\<close>

theorem release_exits_traced:
  assumes "fresh_desk st0" and "release_service world sha st0 calls mem st"
  shows "distinct (map pc_client_order_id calls) \<and> (\<forall>r \<in> set calls. claimed_for st r \<and> release_sent sha st r)"
proof -
  have "passes_fine sha st0" using assms(1) by (simp add: fresh_desk_def passes_fine_def recorded_pass_def event_by_key_def)
  note inv = release_service_inv [OF assms(2) this fresh_desk_inv [OF assms(1)]]
  then show ?thesis using closing_inv [OF _ fresh_desk_inv [OF assms(1)]] by blast
qed

text \<open>Outside enforce mode a tick sends nothing.\<close>

theorem preview_sends_nothing:
  assumes "release_turn_ok world turn" "desk_inv s" "passes_fine (rt_sha turn) s" "rt_mode turn \<noteq> ''enforce''"
    "release_run turn mem s = (mem', s', made, status)"
  shows "made = []"
  using release_run_fine [OF assms(1-3,5)] assms(4) by (simp add: tick_fine_def)

text \<open>A position whose close result is journaled for the day is not closed again that day.\<close>

theorem closed_position_skipped:
  assumes "\<forall>x \<in> set xs. closed_already (rt_today turn) s (re_signal_id x)"
  shows "finish_closes turn close_at xs s = (s, [], Inr ())"
proof -
  have "filter (\<lambda>e. \<not> closed_already (rt_today turn) s (re_signal_id e)) (owed xs) = []"
    using assms by (simp add: owed_def filter_empty_conv)
  then show ?thesis unfolding finish_closes_def by simp
qed

subsection \<open>An example\<close>

text \<open>A position that reports after today's close, a quarter of an hour before it.\<close>

definition held_signal :: signal where
  "held_signal = demo_signal\<lparr>sg_status := EXECUTED, sg_quantity := Some (Num 5)\<rparr>"

definition held_days :: "int \<Rightarrow> int \<Rightarrow> failure + calendar_day list" where
  "held_days a b = Inr [\<lparr>cd_date = a, cd_is_trading_day = True, cd_open_time = Some 34200000000, cd_close_time = Some 57600000000\<rparr>]"

definition held_desk :: wf_state where
  "held_desk = demo_desk\<lparr>wf_signals := [held_signal]\<rparr>"

definition held_close_turn :: close_turn where
  "held_close_turn = demo_close_turn\<lparr>ct_positions := Inr [demo_position_held\<lparr>b_symbol := ''SPY''\<rparr>]\<rparr>"

definition held_turn :: release_turn where
  "held_turn = \<lparr>rt_mode = ''enforce'', rt_minutes = 30, rt_wall = combine 10 56700000000, rt_now = 0,
     rt_calendar = Some (\<lambda>d. Inr \<lparr>cd_date = d, cd_is_trading_day = True, cd_open_time = Some 34200000000, cd_close_time = Some 57600000000\<rparr>,
       held_days),
     rt_captured = \<lambda>_ _. Inr None, rt_lookup = \<lambda>_ _. Inr \<lparr>el_event = Some (10, AfterHours), el_verified = True\<rparr>,
     rt_scope = \<lambda>_. Inr ''native'', rt_sha = \<lambda>_. ''d'', rt_close = \<lambda>_. held_close_turn,
     rt_meanwhile = \<lambda>_ s. s, rt_fresh = new_id\<rparr>"

lemma held_turn_ok: "release_turn_ok world held_turn"
proof -
  have "close_turn_ok world held_close_turn" by (simp add: close_turn_ok_def held_close_turn_def demo_close_turn_def new_id_unused)
  moreover have "ct_meanwhile held_close_turn i s = s" for i s by (simp add: held_close_turn_def demo_close_turn_def)
  ultimately show ?thesis by (simp add: release_turn_ok_def held_turn_def new_id_unused)
qed

lemma held_today: "rt_today held_turn = 10"
  by (simp add: rt_today_def held_turn_def wall_date_def combine_def DAY_def SECOND_def)

definition held_entry :: release_entry where
  "held_entry = \<lparr>re_signal_id = 7, re_symbol = ''SPY'', re_direction = LONG, re_scope = ''native'', re_status = ''close'',
     re_decision = ''exit'', re_report_date = Some 10, re_timing = Some AfterHours, re_sources = [''live''],
     re_live_verified = True, re_request_id = Some ''release-d''\<rparr>"

definition held_pass :: release_pass where
  "held_pass = \<lparr>rp_mode = ''enforce'', rp_trading_day = 10, rp_next_trading_day = 11, rp_close_at = combine 10 57600000000,
     rp_capture_date = None, rp_positions = [held_entry]\<rparr>"

lemma held_symbol: "broker_symbol held_signal = ''SPY''"
  by (simp add: broker_symbol_def strip_slash_def held_signal_def demo_signal_def str_eval)

lemma held_decision:
  "release_decide ''SPY'' (Some \<lparr>el_event = Some (10, AfterHours), el_verified = True\<rparr>) None 10 11
     = \<lparr>rd_status = ''exit'', rd_report_date = Some 10, rd_timing = Some AfterHours, rd_sources = [''live''], rd_live_verified = True\<rparr>"
  by (simp add: release_decide_def release_readings_def exits_today_def SOURCE_LIVE_def SOURCE_CAPTURE_def Let_def)

lemma held_entry_eq: "pass_entry held_turn None 11 held_signal = Inr (held_entry, [])"
  unfolding pass_entry_def Let_def held_symbol held_today
  by (simp add: held_turn_def held_decision entry_status_def NATIVE_SCOPE_def release_request_id_def held_entry_def
      held_signal_def demo_signal_def)

lemma held_active: "wf_signals s = [held_signal] \<Longrightarrow> get_active_positions s = [held_signal]"
  by (simp add: get_active_positions_def held_signal_def)

lemma held_pass_eq:
  assumes "wf_signals s = [held_signal]"
  shows "release_pass_of held_turn held_days (combine 10 57600000000) s = Inr (held_pass, [])"
proof -
  have "next_trading_day held_days 10 = Inr 11" by (simp add: next_trading_day_def held_days_def)
  moreover have "is_equity held_signal" by (simp add: is_equity_def held_signal_def demo_signal_def)
  moreover have "rt_captured held_turn a b = Inr None" "rt_mode held_turn = ''enforce''" for a b by (simp_all add: held_turn_def)
  ultimately show ?thesis
    by (simp add: release_pass_of_def held_today held_active [OF assms] held_entry_eq held_pass_def)
qed

definition held_close_sent :: position_close_request where
  "held_close_sent = \<lparr>pc_symbol = ''SPY'', pc_direction = LONG, pc_quantity = Num 5, pc_client_order_id = ''release-d'',
     pc_entry_order_id = None, pc_allow_queued = False\<rparr>"

lemma held_close:
  assumes "wf_signals s = [held_signal]" "wf_closes s = []" "wf_items s = []"
  shows "\<exists>s' out. close_signal held_close_turn 7 False (Some ''release-d'') s = (s', [held_close_sent], out)"
proof -
  let ?p = "demo_position_held\<lparr>b_symbol := ''SPY''\<rparr>"
  have ct: "ct_meanwhile held_close_turn i x = x" "ct_positions held_close_turn = Inr [?p]" for i x
    by (simp_all add: held_close_turn_def demo_close_turn_def)
  have "recover_closes held_close_turn s = s" by (simp add: recover_closes_def active_close_requests_def assms)
  moreover have "find_signal (has_status 7 EXECUTED) s = Some held_signal"
    by (simp add: find_signal_def has_status_def assms held_signal_def demo_signal_def)
  moreover have "\<not> set_text (sg_exit_order_id held_signal)" by (simp add: set_text_def held_signal_def demo_signal_def)
  moreover have "close_matches held_signal ?p"
    by (simp add: close_matches_def held_signal_def demo_signal_def demo_position_held_def isclose_abs_def feq_def)
  moreover have "\<exists>s1 c. claim_close_request (close_claim ?p (Some held_signal) ''release-d'') (ct_fresh held_close_turn s) 0 s = Ok (s1, True, c)
      \<and> cr_id c = ''release-d''"
    by (simp add: claim_close_request_def close_claim_def demo_position_held_def get_close_request_def assms
        unresolved_cancellation_on_def any_signal_def held_signal_def demo_signal_def SUBMITTING_def EXECUTED_def Let_def)
  then obtain s1 c where c: "claim_close_request (close_claim ?p (Some held_signal) ''release-d'') (ct_fresh held_close_turn s) 0 s = Ok (s1, True, c)"
      "cr_id c = ''release-d''" by blast
  have m: "mk_close_request ?p ''release-d'' (sg_broker_order_id held_signal) False = Inr held_close_sent"
    by (simp add: mk_close_request_def demo_position_held_def held_close_sent_def held_signal_def demo_signal_def zero_pyfloat_def)
  have now: "ct_now held_close_turn = 0" by (simp add: held_close_turn_def demo_close_turn_def)
  have "\<exists>s' out. close_one held_close_turn ?p (Some held_signal) False (Some ''release-d'') s = (s', [held_close_sent], out)"
    using c m by (auto simp: close_one_def now ct Let_def split: prod.split)
  ultimately show ?thesis
    by (simp add: close_signal_def ct Let_def held_symbol held_active [OF assms(1)])
qed

lemma held_release_close:
  assumes "wf_signals s = [held_signal]" "wf_closes s = []" "wf_items s = []"
  shows "\<exists>s'. release_close held_turn b held_entry s = (s', [held_close_sent], Inr ())"
proof -
  obtain s1 out where c: "close_signal held_close_turn 7 False (Some ''release-d'') s = (s1, [held_close_sent], out)"
    using held_close [OF assms] by blast
  have "re_signal_id held_entry = 7" "re_request_id held_entry = Some ''release-d''" "re_report_date held_entry = Some 10"
    "rt_close held_turn 7 = held_close_turn" by (simp_all add: held_entry_def held_turn_def)
  with c show ?thesis by (simp add: release_close_def Let_def)
qed

lemma held_tick: "\<exists>mem s status. release_run held_turn no_memory held_desk = (mem, s, [held_close_sent], status)"
proof -
  let ?close = "combine 10 57600000000"
  define s3 where "s3 = fst (wf_append RELEASE_EXIT_STREAM ''release_exit_pass'' (PRelease held_pass) (Some (pass_key 10)) held_desk)"
  have turn: "rt_mode held_turn = ''enforce''" "rt_minutes held_turn = 30" "rt_wall held_turn = combine 10 56700000000"
    "rt_meanwhile held_turn i s = s" for i s by (simp_all add: held_turn_def)
  have desk: "wf_signals held_desk = [held_signal]" "wf_closes held_desk = []" "wf_items held_desk = []" "wf_events held_desk = []"
    by (simp_all add: held_desk_def demo_desk_def)
  have s3: "wf_signals s3 = [held_signal]" "wf_closes s3 = []" "wf_items s3 = []"
    "wf_events s3 = [\<lparr>ev_id = wf_next held_desk, ev_stream = RELEASE_EXIT_STREAM, ev_kind = ''release_exit_pass'',
       ev_key = Some (pass_key 10), ev_payload = PRelease held_pass\<rparr>]"
    by (simp_all add: s3_def wf_append_def append_new_def event_by_key_def desk Let_def)
  have none: "recorded_pass 10 held_desk = None" by (simp add: recorded_pass_def event_by_key_def desk)
  have recorded: "record_pass held_turn 10 held_pass [] held_desk = (s3, True)"
    using none by (simp add: record_pass_def recorded_pass_def s3_def notice_each_def)
  obtain s4 where s4: "release_close held_turn True held_entry s3 = (s4, [held_close_sent], Inr ())"
    using held_release_close [OF s3(1-3)] by blast
  have "owed [held_entry] = [held_entry]" "\<not> closed_already 10 s3 (re_signal_id held_entry)"
    by (simp_all add: owed_def held_entry_def closed_already_def event_by_key_def s3 pass_key_def release_close_key_def)
  with s4 have "finish_closes held_turn ?close [held_entry] s3 = (s4, [held_close_sent], Inr ())"
    by (simp add: finish_closes_def turn held_today combine_def NOTICE_BOUND_def SECOND_def)
  moreover have "\<not> rt_wall held_turn \<ge> ?close" by (simp add: turn combine_def)
  ultimately have "pass_tick held_turn held_days ?close no_memory held_desk
      = (no_memory\<lparr>rm_settled := Some 10\<rparr>, s4, [held_close_sent], Inr ''done'')"
    using recorded none by (simp add: pass_tick_def turn held_today held_pass_eq [OF desk(1)] settle_def held_pass_def Let_def)
  moreover obtain day where "rt_calendar held_turn = Some (day, held_days)"
      "day 10 = Inr \<lparr>cd_date = 10, cd_is_trading_day = True, cd_open_time = Some 34200000000, cd_close_time = Some 57600000000\<rparr>"
    by (simp add: held_turn_def)
  moreover have "\<not> rt_wall held_turn < ?close - rt_minutes held_turn * 60 * SECOND" by (simp add: turn combine_def SECOND_def)
  ultimately have "release_tick held_turn no_memory held_desk = (no_memory\<lparr>rm_settled := Some 10\<rparr>, s4, [held_close_sent], Inr ''done'')"
    by (simp add: release_tick_def held_today turn no_memory_def Let_def)
  then show ?thesis by (simp add: release_run_def)
qed

theorem release_exits_traced_witness:
  "\<exists>st. fresh_desk held_desk \<and> claimed_for st held_close_sent \<and> release_sent (\<lambda>_. ''d'') st held_close_sent"
proof -
  obtain mem s status where run: "release_run held_turn no_memory held_desk = (mem, s, [held_close_sent], status)"
    using held_tick by blast
  have sha: "rt_sha held_turn = (\<lambda>_. ''d'')" by (simp add: held_turn_def)
  have "release_service demo_world (\<lambda>_. ''d'') held_desk ([] @ [held_close_sent]) mem s"
    by (rule release_service.ticks [OF release_service.opens held_turn_ok sha run])
  then have served: "release_service demo_world (\<lambda>_. ''d'') held_desk [held_close_sent] mem s" by simp
  have fresh: "fresh_desk held_desk" by (simp add: fresh_desk_def held_desk_def demo_desk_def signal_ids_def)
  show ?thesis using release_exits_traced [OF fresh served] fresh by auto
qed

end
