(* ===== verification/Market_Calendar.thy ===== *)
theory Market_Calendar
  imports Entry_Service
begin

text \<open>
  The exchange calendar (the first half of \<open>market/session.py\<close>, with the retry cascade of
  \<open>resilience/fallback.py\<close>): the computed holidays, the three providers of calendar days and the
  composite that falls back from one to the next. A date is its proleptic Gregorian ordinal as
  \<open>date.toordinal\<close> gives it, so that a date plus \<open>timedelta(days=n)\<close> is the ordinal plus \<open>n\<close>; years are
  those of \<open>datetime\<close> (1 to 9999), and the overflow beyond its last day is not modelled. Times of day are
  microseconds. The calendar services of Alpaca and Finnhub are arguments.
\<close>

subsection \<open>Dates\<close>

text \<open>The arithmetic of \<open>datetime.date\<close>.\<close>

definition is_leap :: "int \<Rightarrow> bool" where
  "is_leap y = (y mod 4 = 0 \<and> (y mod 100 \<noteq> 0 \<or> y mod 400 = 0))"

definition days_before_year :: "int \<Rightarrow> int" where
  "days_before_year y = (y - 1) * 365 + (y - 1) div 4 - (y - 1) div 100 + (y - 1) div 400"

definition days_before_month :: "int \<Rightarrow> int \<Rightarrow> int" where
  "days_before_month y m =
     (if m = 1 then 0 else if m = 2 then 31 else
       (if m = 3 then 59 else if m = 4 then 90 else if m = 5 then 120 else if m = 6 then 151 else if m = 7 then 181
        else if m = 8 then 212 else if m = 9 then 243 else if m = 10 then 273 else if m = 11 then 304 else 334)
       + (if is_leap y then 1 else 0))"

definition days_in_month :: "int \<Rightarrow> int \<Rightarrow> int" where
  "days_in_month y m = (if m = 2 then (if is_leap y then 29 else 28) else if m \<in> {4, 6, 9, 11} then 30 else 31)"

text \<open>\<open>date(y, m, d)\<close> for a month and day that exist.\<close>

definition ymd :: "int \<Rightarrow> int \<Rightarrow> int \<Rightarrow> int" where
  "ymd y m d = days_before_year y + days_before_month y m + d"

definition valid_date :: "int \<Rightarrow> int \<Rightarrow> int \<Rightarrow> bool" where
  "valid_date y m d = (1 \<le> m \<and> m \<le> 12 \<and> 1 \<le> d \<and> d \<le> days_in_month y m)"

text \<open>\<open>weekday()\<close>: Monday is 0.\<close>

definition weekday :: "int \<Rightarrow> int" where "weekday d = (d + 6) mod 7"

text \<open>\<open>d.year\<close>, as the library computes it from the ordinal.\<close>

definition year_of :: "int \<Rightarrow> int" where
  "year_of d = (let n = d - 1; n400 = n div 146097; r = n mod 146097; n100 = r div 36524; r = r mod 36524;
       n4 = r div 1461; r = r mod 1461; n1 = r div 365; y = n400 * 400 + n100 * 100 + n4 * 4 + n1 + 1
     in if n1 = 4 \<or> n100 = 4 then y - 1 else y)"

lemma days_before_split:
  assumes "0 \<le> b" "b < 4" "0 \<le> c" "c < 25" "0 \<le> e" "e < 4"
  shows "days_before_year (400 * a + 100 * b + 4 * c + e + 1) = 146097 * a + 36524 * b + 1461 * c + 365 * e"
proof -
  let ?y = "400 * a + 100 * b + 4 * c + e"
  have "?y div 4 = 100 * a + 25 * b + c" by (rule int_div_pos_eq [of _ _ _ e]) (use assms in simp_all)
  moreover have "?y div 100 = 4 * a + b" by (rule int_div_pos_eq [of _ _ _ "4 * c + e"]) (use assms in simp_all)
  moreover have "?y div 400 = a" by (rule int_div_pos_eq [of _ _ _ "100 * b + 4 * c + e"]) (use assms in simp_all)
  ultimately show ?thesis by (simp add: days_before_year_def)
qed

lemma div_pred:
  assumes "0 < n"
  shows "(y :: int) div n = (y - 1) div n + (if y mod n = 0 then 1 else 0)"
proof (cases "y mod n = 0")
  case True
  then have "y - 1 = n * (y div n - 1) + (n - 1)" using mult_div_mod_eq [of n y] by (simp add: right_diff_distrib)
  then have "(y - 1) div n = y div n - 1" by (rule int_div_pos_eq) (use assms in auto)
  then show ?thesis using True by simp
next
  case False
  have "y - 1 = n * (y div n) + (y mod n - 1)" using mult_div_mod_eq [of n y] by simp
  then have "(y - 1) div n = y div n"
    by (rule int_div_pos_eq) (use False assms pos_mod_sign [of n y] pos_mod_bound [of n y] in linarith)+
  then show ?thesis using False by simp
qed

lemma leap_count:
  assumes "(p :: int) = a + (if A then 1 else 0)" "q = b + (if B then 1 else 0)" "r = c + (if C then 1 else 0)" "B \<Longrightarrow> A" "C \<Longrightarrow> B"
  shows "x * 365 + p - q + r = (x - 1) * 365 + a - b + c + 365 + (if A \<and> (\<not> B \<or> C) then 1 else 0)"
  using assms by (cases A; cases B; cases C) simp_all

lemma year_length: "days_before_year (y + 1) = days_before_year y + 365 + (if is_leap y then 1 else 0)"
  unfolding days_before_year_def is_leap_def add_diff_cancel_right'
proof (rule leap_count)
  show "y mod 100 = 0 \<Longrightarrow> y mod 4 = 0" using dvd_trans [of 4 100 y] by (simp add: dvd_eq_mod_eq_0)
  show "y mod 400 = 0 \<Longrightarrow> y mod 100 = 0" using dvd_trans [of 100 400 y] by (simp add: dvd_eq_mod_eq_0)
qed (rule div_pred, simp)+

lemma year_of_first: "\<exists>k. days_before_year (year_of d) + k = d \<and> 1 \<le> k \<and> k \<le> 365 + (if is_leap (year_of d) then 1 else 0)"
proof -
  define n where "n = d - 1"
  define a where "a = n div 146097"
  define r where "r = n mod 146097"
  define b where "b = r div 36524"
  define r2 where "r2 = r mod 36524"
  define c where "c = r2 div 1461"
  define r3 where "r3 = r2 mod 1461"
  define e where "e = r3 div 365"
  define r4 where "r4 = r3 mod 365"
  have r: "0 \<le> r" "r < 146097" "n = 146097 * a + r" by (simp_all add: r_def a_def)
  have b: "r = 36524 * b + r2" "0 \<le> r2" "r2 < 36524" by (simp_all add: b_def r2_def)
  have c: "r2 = 1461 * c + r3" "0 \<le> r3" "r3 < 1461" by (simp_all add: c_def r3_def)
  have e: "r3 = 365 * e + r4" "0 \<le> r4" "r4 < 365" by (simp_all add: e_def r4_def)
  have bounds: "0 \<le> b" "b \<le> 4" "0 \<le> c" "c < 25" "0 \<le> e" "e \<le> 4" using r b c e by linarith+
  have d: "d = 146097 * a + 36524 * b + 1461 * c + 365 * e + r4 + 1" using r b c e n_def by linarith
  have y: "year_of d = (if e = 4 \<or> b = 4 then 400 * a + 100 * b + 4 * c + e else 400 * a + 100 * b + 4 * c + e + 1)"
    unfolding year_of_def Let_def n_def [symmetric] a_def [symmetric] r_def [symmetric] b_def [symmetric] r2_def [symmetric]
      c_def [symmetric] r3_def [symmetric] e_def [symmetric] by simp
  show ?thesis
  proof (cases "e = 4 \<or> b = 4")
    case False
    then have "days_before_year (year_of d) = 146097 * a + 36524 * b + 1461 * c + 365 * e"
      using y days_before_split [of b c e a] bounds by simp
    then show ?thesis using d e by (intro exI [of _ "r4 + 1"]) auto
  next
    case True
    have "days_before_year (year_of d + 1) = d"
    proof (cases "b = 4")
      case True
      then have "c = 0" "e = 0" "r4 = 0" using r b c e bounds by linarith+
      then show ?thesis using True y d days_before_split [of 0 0 0 "a + 1"] by simp
    next
      case False
      with True have "e = 4" "r4 = 0" "c < 24" using r b c e bounds by linarith+
      then show ?thesis using False y d days_before_split [of b "c + 1" 0 a] bounds by simp
    qed
    then show ?thesis using year_length [of "year_of d"] by (intro exI [of _ "365 + (if is_leap (year_of d) then 1 else 0)"]) auto
  qed
qed

lemma days_before_mono: "y \<le> z \<Longrightarrow> days_before_year y \<le> days_before_year z"
proof (induction z rule: int_ge_induct)
  case (step i)
  then show ?case using year_length [of i] by (simp split: if_split_asm)
qed simp

lemma year_of_unique:
  assumes "days_before_year y < d" "d \<le> days_before_year (y + 1)"
  shows "year_of d = y"
proof -
  obtain k where k: "days_before_year (year_of d) + k = d" "1 \<le> k" "k \<le> 365 + (if is_leap (year_of d) then 1 else 0)"
    using year_of_first by blast
  have "\<not> year_of d < y" using days_before_mono [of "year_of d + 1" y] year_length [of "year_of d"] k assms by linarith
  moreover have "\<not> y < year_of d" using days_before_mono [of "y + 1" "year_of d"] k assms by linarith
  ultimately show ?thesis by simp
qed

lemma year_bounds: "days_before_year (year_of d) < d \<and> d \<le> days_before_year (year_of d + 1)"
proof -
  obtain k where k: "days_before_year (year_of d) + k = d" "1 \<le> k" "k \<le> 365 + (if is_leap (year_of d) then 1 else 0)"
    using year_of_first by blast
  then show ?thesis using year_length [of "year_of d"] by linarith
qed

lemma year_of_iff: "year_of d = y \<longleftrightarrow> days_before_year y < d \<and> d \<le> days_before_year (y + 1)"
  using year_of_unique year_bounds by blast

lemma year_of_ymd: "valid_date y m d \<Longrightarrow> year_of (ymd y m d) = y"
  unfolding year_of_iff year_length
  by (auto simp: ymd_def valid_date_def days_in_month_def days_before_month_def split: if_split_asm)

subsection \<open>The computed holidays\<close>

definition JUNETEENTH_FIRST_YEAR :: int where "JUNETEENTH_FIRST_YEAR = 2022"

definition compute_easter :: "int \<Rightarrow> int" where
  "compute_easter year =
     (let a = year mod 19; b = year div 100; c = year mod 100; d = b div 4; e = b mod 4; f = (b + 8) div 25;
          g = (b - f + 1) div 3; h = (19 * a + b - d - g + 15) mod 30; i = c div 4; k = c mod 4;
          l_term = (32 + 2 * e + 2 * i - h - k) mod 7; m = (a + 11 * h + 22 * l_term) div 451;
          month = (h + l_term - 7 * m + 114) div 31; day = (h + l_term - 7 * m + 114) mod 31 + 1
      in ymd year month day)"

text \<open>
  The two searches for a weekday. A weekday is a number from 0 to 6 in every call; any other number, for
  which the loop would not end, leaves the date as it is.
\<close>

function walk_forward :: "int \<Rightarrow> int \<Rightarrow> int" where
  "walk_forward w d = (if weekday d = w \<or> w < 0 \<or> 6 < w then d else walk_forward w (d + 1))"
  by pat_completeness auto

function walk_back :: "int \<Rightarrow> int \<Rightarrow> int" where
  "walk_back w d = (if weekday d = w \<or> w < 0 \<or> 6 < w then d else walk_back w (d - 1))"
  by pat_completeness auto

lemma weekday_bounds: "0 \<le> weekday d" "weekday d \<le> 6"
  by (simp_all add: weekday_def)

lemma weekday_split: "\<exists>q. d + 6 = 7 * q + weekday d"
  unfolding weekday_def by (metis mult_div_mod_eq)

lemma weekday_eqI: "d + 6 = 7 * q + r \<Longrightarrow> 0 \<le> r \<Longrightarrow> r \<le> 6 \<Longrightarrow> weekday d = r"
  unfolding weekday_def by (rule int_mod_pos_eq [of _ _ q]) auto

lemma weekday_next: "weekday (d + 1) = (if weekday d = 6 then 0 else weekday d + 1)"
proof -
  obtain q where q: "d + 6 = 7 * q + weekday d" using weekday_split by blast
  show ?thesis
  proof (cases "weekday d = 6")
    case True
    have "weekday (d + 1) = 0" by (rule weekday_eqI [of _ "q + 1"]) (use True q in simp_all)
    then show ?thesis using True by simp
  next
    case False
    have "weekday (d + 1) = weekday d + 1" by (rule weekday_eqI [of _ q]) (use False q weekday_bounds [of d] in simp_all)
    then show ?thesis using False by simp
  qed
qed

lemma weekday_weeks: "weekday (d + 7 * n) = weekday d"
proof -
  have "d + 7 * n + 6 = d + 6 + 7 * n" by simp
  then show ?thesis unfolding weekday_def by (simp only: mod_mult_self2)
qed

lemma weekday_prev: "weekday (d - 1) = (if weekday d = 0 then 6 else weekday d - 1)"
  using weekday_next [of "d - 1"] weekday_bounds [of "d - 1"] by (simp split: if_split_asm)

text \<open>The days to the next, and from the last, weekday \<open>w\<close>.\<close>

definition days_to :: "int \<Rightarrow> int \<Rightarrow> int" where
  "days_to w x = (if x \<le> w then w - x else w + 7 - x)"

lemma days_to_step:
  assumes "weekday d \<noteq> w" "0 \<le> w" "w \<le> 6"
  shows "days_to w (weekday (d + 1)) = days_to w (weekday d) - 1" "0 < days_to w (weekday d)"
    "days_to (weekday (d - 1)) w = days_to (weekday d) w - 1" "0 < days_to (weekday d) w"
  using assms weekday_bounds [of d] by (auto simp: days_to_def weekday_next weekday_prev)

termination walk_forward
proof (relation "measure (\<lambda>(w, d). nat (days_to w (weekday d)))")
  fix w d :: int
  assume "\<not> (weekday d = w \<or> w < 0 \<or> 6 < w)"
  then show "((w, d + 1), w, d) \<in> measure (\<lambda>(w, d). nat (days_to w (weekday d)))" using days_to_step(1,2) [of d w] by simp
qed simp

termination walk_back
proof (relation "measure (\<lambda>(w, d). nat (days_to (weekday d) w))")
  fix w d :: int
  assume "\<not> (weekday d = w \<or> w < 0 \<or> 6 < w)"
  then show "((w, d - 1), w, d) \<in> measure (\<lambda>(w, d). nat (days_to (weekday d) w))" using days_to_step(3,4) [of d w] by simp
qed simp

declare walk_forward.simps [simp del] walk_back.simps [simp del]

definition nth_weekday :: "int \<Rightarrow> int \<Rightarrow> int \<Rightarrow> int \<Rightarrow> int" where
  "nth_weekday year month w n = walk_forward w (ymd year month 1) + 7 * (n - 1)"

definition last_weekday :: "int \<Rightarrow> int \<Rightarrow> int \<Rightarrow> int" where
  "last_weekday year month w = walk_back w (if month = 12 then ymd (year + 1) 1 1 - 1 else ymd year (month + 1) 1 - 1)"

definition observe_holiday :: "int \<Rightarrow> int" where
  "observe_holiday d = (if weekday d = 5 then d - 1 else if weekday d = 6 then d + 1 else d)"

record year_calendar =
  yc_statutory_holidays :: "int \<rightharpoonup> string"
  yc_early_closes :: "int \<rightharpoonup> string"
  yc_cme_1300_halt_days :: "int set"
  yc_cme_full_halt_days :: "int set"
  yc_good_friday :: int

text \<open>\<open>get_year_calendar\<close>; the table of computed years is a cache of this function.\<close>

definition get_year_calendar :: "int \<Rightarrow> year_calendar" where
  "get_year_calendar year =
     (let easter = compute_easter year;
          good_friday = easter - 2;
          juneteenth = (if JUNETEENTH_FIRST_YEAR \<le> year then Some (observe_holiday (ymd year 6 19)) else None);
          statutory = [observe_holiday (ymd year 1 1) \<mapsto> ''New Year's Day'',
            nth_weekday year 1 0 3 \<mapsto> ''Martin Luther King Jr. Day'',
            nth_weekday year 2 0 3 \<mapsto> ''Presidents' Day'',
            good_friday \<mapsto> ''Good Friday'',
            last_weekday year 5 0 \<mapsto> ''Memorial Day'',
            observe_holiday (ymd year 7 4) \<mapsto> ''Independence Day'',
            nth_weekday year 9 0 1 \<mapsto> ''Labor Day'',
            nth_weekday year 11 3 4 \<mapsto> ''Thanksgiving Day'',
            observe_holiday (ymd year 12 25) \<mapsto> ''Christmas Day''];
          statutory = (case juneteenth of None \<Rightarrow> statutory
            | Some d \<Rightarrow> statutory(d \<mapsto> ''Juneteenth National Independence Day''));
          thanksgiving = nth_weekday year 11 3 4;
          black_friday = thanksgiving + 1;
          early = [black_friday \<mapsto> ''Day After Thanksgiving (Black Friday)''];
          christmas_eve = ymd year 12 24;
          early = (if weekday christmas_eve < 5 then early(christmas_eve \<mapsto> ''Christmas Eve'') else early);
          july_4 = ymd year 7 4;
          early = (if weekday july_4 \<in> {3, 4} then early(ymd year 7 3 \<mapsto> ''Day Before Independence Day'') else early);
          halts = {nth_weekday year 1 0 3, nth_weekday year 2 0 3, last_weekday year 5 0, observe_holiday (ymd year 7 4),
            nth_weekday year 9 0 1, thanksgiving};
          halts = (case juneteenth of None \<Rightarrow> halts | Some d \<Rightarrow> insert d halts);
          full = {ymd year 1 1, observe_holiday (ymd year 1 1), ymd year 12 25, observe_holiday (ymd year 12 25)}
      in \<lparr>yc_statutory_holidays = statutory, yc_early_closes = early, yc_cme_1300_halt_days = halts,
          yc_cme_full_halt_days = full, yc_good_friday = good_friday\<rparr>)"

definition is_equity_holiday :: "int \<Rightarrow> bool \<times> string option" where
  "is_equity_holiday d = (let name = yc_statutory_holidays (get_year_calendar (year_of d)) d in (name \<noteq> None, name))"

definition is_equity_early_close :: "int \<Rightarrow> bool \<times> string option" where
  "is_equity_early_close d = (let name = yc_early_closes (get_year_calendar (year_of d)) d in (name \<noteq> None, name))"

subsection \<open>Weekdays and Easter\<close>

lemma walk_forward_eq: "0 \<le> w \<Longrightarrow> w \<le> 6 \<Longrightarrow> walk_forward w d = d + days_to w (weekday d)"
proof (induction w d rule: walk_forward.induct)
  case (1 w d)
  show ?case
  proof (cases "weekday d = w")
    case False
    then have "walk_forward w (d + 1) = d + 1 + days_to w (weekday (d + 1))" using 1 by simp
    then show ?thesis using days_to_step(1) [OF False 1(2,3)] False 1(2,3) by (simp add: walk_forward.simps [of w d])
  qed (simp add: walk_forward.simps [of w d] days_to_def)
qed

lemma walk_back_eq: "0 \<le> w \<Longrightarrow> w \<le> 6 \<Longrightarrow> walk_back w d = d - days_to (weekday d) w"
proof (induction w d rule: walk_back.induct)
  case (1 w d)
  show ?case
  proof (cases "weekday d = w")
    case False
    then have "walk_back w (d - 1) = d - 1 - days_to (weekday (d - 1)) w" using 1 by simp
    then show ?thesis using days_to_step(3) [OF False 1(2,3)] False 1(2,3) by (simp add: walk_back.simps [of w d])
  qed (simp add: walk_back.simps [of w d] days_to_def)
qed

text \<open>
  The rule of the Gregorian calendar, with its century correction in the form Gauss gave it: the paschal
  full moon falls \<open>paschal_age\<close> days after 21 March, and Easter is the Sunday after it.
\<close>

definition paschal_age :: "int \<Rightarrow> int" where
  "paschal_age y = (let k = y div 100; a = y mod 19; h = (19 * a + 15 + k - k div 4 - (8 * k + 13) div 25) mod 30
     in if h = 29 \<or> h = 28 \<and> 10 < a then h - 1 else h)"

definition paschal_full_moon :: "int \<Rightarrow> int" where
  "paschal_full_moon y = ymd y 3 21 + paschal_age y"

lemma lunar_correction: "(b - (b + 8) div 25 + 1) div 3 = (8 * b + 13) div (25 :: int)"
proof -
  define q where "q = b div 25"
  define r where "r = b mod 25"
  have b: "b = 25 * q + r" "0 \<le> r" "r < 25" by (simp_all add: q_def r_def)
  define s where "s = (if r < 17 then 0 else 1 :: int)"
  have f: "(b + 8) div 25 = q + s"
    by (rule int_div_pos_eq [of _ _ _ "r + 8 - 25 * s"]) (use b s_def in auto)
  have "list_all (\<lambda>r. (r - (if r < 17 then 0 else 1) + 1) div 3 = (8 * r + 13) div (25 :: int)) [0..24]" by code_simp
  moreover have "r \<in> set [0..24]" using b by simp
  ultimately have "(r - s + 1) div 3 = (8 * r + 13) div 25" unfolding s_def list_all_iff by blast
  moreover have "(b - (q + s) + 1) div 3 = 8 * q + (r - s + 1) div 3"
    using div_mult_self1 [of 3 "r - s + 1" "8 * q"] b by (simp add: algebra_simps)
  moreover have "(8 * b + 13) div 25 = 8 * q + (8 * r + 13) div 25"
    using div_mult_self1 [of 25 "8 * r + 13" "8 * q"] b by (simp add: algebra_simps)
  ultimately show ?thesis using f by simp
qed

lemma march_22: "ymd y 3 22 = 365 * y + y div 4 - y div 100 + y div 400 - 284"
proof -
  have "ymd y 3 22 = days_before_year (y + 1) - 284" by (simp add: ymd_def days_before_month_def year_length)
  then show ?thesis by (simp add: days_before_year_def)
qed

lemma march_april: "0 \<le> n \<Longrightarrow> n \<le> 34 \<Longrightarrow> ymd y ((n + 114) div 31) ((n + 114) mod 31 + 1) = ymd y 3 22 + n"
proof -
  assume n: "0 \<le> n" "n \<le> 34"
  show ?thesis
  proof (cases "n \<le> 9")
    case True
    have "(n + 114) div 31 = 3" by (rule int_div_pos_eq [of _ _ _ "n + 21"]) (use n True in auto)
    moreover have "(n + 114) mod 31 = n + 21" by (rule int_mod_pos_eq [of _ _ 3]) (use n True in auto)
    ultimately show ?thesis by (simp add: ymd_def)
  next
    case False
    have "(n + 114) div 31 = 4" by (rule int_div_pos_eq [of _ _ _ "n - 10"]) (use n False in auto)
    moreover have "(n + 114) mod 31 = n - 10" by (rule int_mod_pos_eq [of _ _ 4]) (use n False in auto)
    ultimately show ?thesis by (simp add: ymd_def days_before_month_def)
  qed
qed

lemma sunday_after:
  assumes "y = 100 * b + c" "b = 4 * d + e" "c = 4 * i + k" "0 \<le> e" "e < 4" "0 \<le> k" "k < 4" "0 \<le> c" "c < 100"
    and "32 + 2 * e + 2 * i - h - k = 7 * t + l"
  shows "weekday (ymd y 3 22 + h + l) = 6"
proof -
  have "y div 4 = 25 * b + i" by (rule int_div_pos_eq [of _ _ _ k]) (use assms(1,3,6,7) in simp_all)
  moreover have "y div 100 = b" by (rule int_div_pos_eq [of _ _ _ c]) (use assms(1,8,9) in simp_all)
  moreover have "y div 400 = d" by (rule int_div_pos_eq [of _ _ _ "100 * e + c"]) (use assms(1,2,4,5,8,9) in simp_all)
  ultimately have "ymd y 3 22 = 365 * y + (25 * b + i) - b + d - 284" using march_22 [of y] by simp
  then have "ymd y 3 22 + h + l + 6 = 7 * (20871 * d + 5218 * e + 209 * i + 52 * k - 36 - t) + 6"
    unfolding assms(1,2,3) using assms(10) by (simp only: algebra_simps)
  then show ?thesis by (rule weekday_eqI) auto
qed

lemma compute_easter_spec:
  "weekday (compute_easter y) = 6 \<and> paschal_full_moon y < compute_easter y \<and> compute_easter y \<le> paschal_full_moon y + 7
   \<and> ymd y 3 22 \<le> compute_easter y \<and> compute_easter y \<le> ymd y 4 25 \<and> weekday (yc_good_friday (get_year_calendar y)) = 4"
proof -
  define a b c where "a = y mod 19" and "b = y div 100" and "c = y mod 100"
  define d e i k where "d = b div 4" and "e = b mod 4" and "i = c div 4" and "k = c mod 4"
  define h where "h = (19 * a + b - d - (b - (b + 8) div 25 + 1) div 3 + 15) mod 30"
  define l where "l = (32 + 2 * e + 2 * i - h - k) mod 7"
  define m where "m = (a + 11 * h + 22 * l) div 451"
  have r: "0 \<le> a" "a \<le> 18" "0 \<le> h" "h \<le> 29" "0 \<le> l" "l \<le> 6" by (simp_all add: a_def h_def l_def)
  have m: "m = (if 451 \<le> a + 11 * h + 22 * l then 1 else 0)"
    unfolding m_def by (rule int_div_pos_eq [of _ _ _ "a + 11 * h + 22 * l - 451 * (if 451 \<le> a + 11 * h + 22 * l then 1 else 0)"])
      (use r in auto)
  define n where "n = h + l - 7 * m"
  have n: "0 \<le> n" "n \<le> 34" using r m unfolding n_def by (auto split: if_split_asm)
  have "compute_easter y = ymd y ((n + 114) div 31) ((n + 114) mod 31 + 1)"
    unfolding compute_easter_def Let_def n_def m_def l_def h_def a_def b_def c_def d_def e_def i_def k_def by (rule refl)
  then have easter: "compute_easter y = ymd y 3 22 + n" using march_april [OF n] by simp
  have "weekday (ymd y 3 22 + h + l) = 6"
  proof (rule sunday_after)
    show "32 + 2 * e + 2 * i - h - k = 7 * ((32 + 2 * e + 2 * i - h - k) div 7) + l" unfolding l_def by simp
    show "y = 100 * b + c" "b = 4 * d + e" "c = 4 * i + k" "0 \<le> e" "e < 4" "0 \<le> k" "k < 4" "0 \<le> c" "c < 100"
      by (simp_all add: b_def c_def d_def e_def i_def k_def)
  qed
  moreover have "compute_easter y = ymd y 3 22 + h + l + 7 * (- m)" unfolding easter n_def by simp
  ultimately have sunday: "weekday (compute_easter y) = 6" using weekday_weeks by metis
  have heq: "h = (19 * a + 15 + b - b div 4 - (8 * b + 13) div 25) mod 30"
    unfolding h_def d_def lunar_correction by (rule arg_cong [of _ _ "\<lambda>x. x mod 30"]) simp
  have "paschal_age y = (if h = 29 \<or> h = 28 \<and> 10 < a then h - 1 else h)"
    unfolding paschal_age_def Let_def a_def [symmetric] b_def [symmetric] heq [symmetric] by (rule refl)
  moreover have "ymd y 3 21 = ymd y 3 22 - 1" by (simp add: ymd_def)
  ultimately have "paschal_full_moon y < compute_easter y \<and> compute_easter y \<le> paschal_full_moon y + 7"
    unfolding paschal_full_moon_def easter n_def using m r by (auto split: if_split_asm)
  moreover have "ymd y 4 25 = ymd y 3 22 + 34" by (simp add: ymd_def days_before_month_def)
  moreover have "weekday (compute_easter y - 2) = 4"
    using sunday weekday_prev [of "compute_easter y"] weekday_prev [of "compute_easter y - 1"] by simp
  ultimately show ?thesis using sunday n unfolding easter by (simp add: get_year_calendar_def Let_def easter)
qed

text \<open>
  C28. Easter is computed right for every year: the date lies in the week after the paschal full moon of
  the Gregorian rule, it is a Sunday, and it is one of 22 March to 25 April (so the month and day the
  algorithm arrives at exist, and Good Friday is a Friday).
\<close>

theorem easter_is_gregorian:
  "weekday (compute_easter y) = 6 \<and> paschal_full_moon y < compute_easter y \<and> compute_easter y \<le> paschal_full_moon y + 7
   \<and> ymd y 3 22 \<le> compute_easter y \<and> compute_easter y \<le> ymd y 4 25 \<and> weekday (yc_good_friday (get_year_calendar y)) = 4"
  by (rule compute_easter_spec)

subsection \<open>Calendar days and their providers\<close>

definition EQUITY_RTH_OPEN :: int where "EQUITY_RTH_OPEN = (9 * 60 + 30) * MINUTE"
definition EQUITY_RTH_CLOSE :: int where "EQUITY_RTH_CLOSE = 16 * 60 * MINUTE"

text \<open>\<open>MarketCalendarDay\<close>: the fields the deadlines read, and the rest.\<close>

record market_day = calendar_day +
  md_is_early_close :: bool
  md_holiday_name :: "string option"
  md_source :: string

definition closed_day :: "int \<Rightarrow> string option \<Rightarrow> string \<Rightarrow> market_day" where
  "closed_day d name source = \<lparr>cd_date = d, cd_is_trading_day = False, cd_open_time = None, cd_close_time = None,
     md_is_early_close = False, md_holiday_name = name, md_source = source\<rparr>"

definition deterministic_day :: "int \<Rightarrow> market_day" where
  "deterministic_day d =
     (if weekday d \<in> {5, 6} then closed_day d (Some ''Weekend'') ''deterministic''
      else case is_equity_holiday d of
        (True, name) \<Rightarrow> closed_day d name ''deterministic''
      | (False, _) \<Rightarrow>
          (case is_equity_early_close d of
             (True, name) \<Rightarrow> \<lparr>cd_date = d, cd_is_trading_day = True, cd_open_time = Some EQUITY_RTH_OPEN,
               cd_close_time = Some (13 * 60 * MINUTE), md_is_early_close = True, md_holiday_name = name, md_source = ''deterministic''\<rparr>
           | (False, _) \<Rightarrow> \<lparr>cd_date = d, cd_is_trading_day = True, cd_open_time = Some EQUITY_RTH_OPEN,
               cd_close_time = Some EQUITY_RTH_CLOSE, md_is_early_close = False, md_holiday_name = None, md_source = ''deterministic''\<rparr>))"

definition deterministic_range :: "int \<Rightarrow> int \<Rightarrow> market_day list" where
  "deterministic_range start_date end_date = map deterministic_day [start_date..end_date]"

text \<open>
  The Alpaca provider. An item of the answer is a text or has an optional date, opening and closing time
  (\<open>datetime\<close> values already read as their date or time). The clock is read once to check the cache and
  once to stamp it.
\<close>

datatype calendar_item = TextItem | DayItem "int option" "int option" "int option"

definition alpaca_entry :: "calendar_item \<Rightarrow> market_day option" where
  "alpaca_entry item = (case item of
     DayItem (Some d) (Some open_val) (Some close_val) \<Rightarrow>
       let is_early = (close_val < EQUITY_RTH_CLOSE)
       in Some \<lparr>cd_date = d, cd_is_trading_day = True, cd_open_time = Some open_val, cd_close_time = Some close_val,
            md_is_early_close = is_early, md_holiday_name = (if is_early then Some ''Early Close'' else None),
            md_source = ''alpaca_api''\<rparr>
   | _ \<Rightarrow> None)"

definition alpaca_year_map :: "calendar_item list \<Rightarrow> int \<rightharpoonup> market_day" where
  "alpaca_year_map items =
     foldl (\<lambda>m item. case alpaca_entry item of None \<Rightarrow> m | Some day \<Rightarrow> m(cd_date day \<mapsto> day)) Map.empty items"

record alpaca_cache =
  ac_annual :: "int \<rightharpoonup> (int \<rightharpoonup> market_day)"
  ac_stamps :: "int \<rightharpoonup> int"

definition alpaca_cache_valid :: "int \<Rightarrow> int \<Rightarrow> int \<Rightarrow> alpaca_cache \<Rightarrow> bool" where
  "alpaca_cache_valid ttl now year cache = (case (ac_annual cache year, ac_stamps cache year) of
     (Some _, Some stamp) \<Rightarrow> now - stamp < ttl * SECOND | _ \<Rightarrow> False)"

type_synonym calendar_client = "(int \<Rightarrow> failure + calendar_item list option) option"

definition alpaca_load_year ::
  "calendar_client \<Rightarrow> int \<Rightarrow> int \<times> int \<Rightarrow> int \<Rightarrow> alpaca_cache \<Rightarrow> alpaca_cache \<times> (failure + (int \<rightharpoonup> market_day))" where
  "alpaca_load_year client ttl clock year cache =
     (if alpaca_cache_valid ttl (fst clock) year cache then (cache, Inr (the (ac_annual cache year)))
      else case client of
        None \<Rightarrow> (cache, Inl (''RuntimeError'', msg ''Alpaca TradingClient is not configured''))
      | Some get_calendar \<Rightarrow>
          (case get_calendar year of
             Inl f \<Rightarrow> (cache, Inl f)
           | Inr None \<Rightarrow> (cache, Inl (''RuntimeError'', [Lit ''Alpaca get_calendar returned None for year '', FInt year]))
           | Inr (Some items) \<Rightarrow>
               let year_map = alpaca_year_map items
               in (\<lparr>ac_annual = (ac_annual cache)(year \<mapsto> year_map), ac_stamps = (ac_stamps cache)(year \<mapsto> snd clock)\<rparr>, Inr year_map)))"

definition alpaca_day ::
  "calendar_client \<Rightarrow> int \<Rightarrow> int \<times> int \<Rightarrow> int \<Rightarrow> alpaca_cache \<Rightarrow> alpaca_cache \<times> (failure + market_day)" where
  "alpaca_day client ttl clock d cache =
     (if weekday d \<in> {5, 6} then (cache, Inr (closed_day d (Some ''Weekend'') ''alpaca_api''))
      else case alpaca_load_year client ttl clock (year_of d) cache of
        (cache1, Inl f) \<Rightarrow> (cache1, Inl f)
      | (cache1, Inr year_map) \<Rightarrow>
          (cache1, Inr (case year_map d of
             Some day \<Rightarrow> day
           | None \<Rightarrow> closed_day d (Some (case snd (is_equity_holiday d) of Some name \<Rightarrow> name | None \<Rightarrow> ''Exchange Holiday''))
               ''alpaca_api'')))"

text \<open>
  The Finnhub provider. An item has an optional date text, an event name (absent, or possibly null) and an
  optional text of trading hours; \<open>fromiso\<close> stands for \<open>date.fromisoformat\<close>.
\<close>

record holiday_item =
  hi_at_date :: "string option"
  hi_event_name :: "string option option"
  hi_trading_hour :: "string option"

text \<open>Both halves of \<open>HH:MM-HH:MM\<close>; any other text raises.\<close>

definition trading_hours :: "string \<Rightarrow> (int \<times> int) option" where
  "trading_hours th = (case dropWhile (\<lambda>c. c \<noteq> CHR ''-'') th of
     [] \<Rightarrow> None
   | _ # close_str \<Rightarrow>
       if CHR ''-'' \<in> set close_str then None
       else case (clock_of (takeWhile (\<lambda>c. c \<noteq> CHR ''-'') th), clock_of close_str) of
         (Some o_time, Some c_time) \<Rightarrow> Some (o_time, c_time) | _ \<Rightarrow> None)"

definition finnhub_entry :: "(string \<Rightarrow> int option) \<Rightarrow> holiday_item \<Rightarrow> market_day option" where
  "finnhub_entry fromiso item = (case hi_at_date item of
     None \<Rightarrow> None
   | Some text1 \<Rightarrow>
       if text1 = [] then None
       else (case fromiso text1 of
          None \<Rightarrow> None
        | Some d \<Rightarrow>
            let event_name = (case hi_event_name item of None \<Rightarrow> Some ''Market Holiday'' | Some n \<Rightarrow> n);
                th = strip (case hi_trading_hour item of None \<Rightarrow> [] | Some t \<Rightarrow> t)
            in Some (if th = [] then closed_day d event_name ''finnhub_api''
               else (case trading_hours th of
                  None \<Rightarrow> closed_day d event_name ''finnhub_api''
                | Some (o_time, c_time) \<Rightarrow> \<lparr>cd_date = d, cd_is_trading_day = True, cd_open_time = Some o_time,
                    cd_close_time = Some c_time, md_is_early_close = (c_time < EQUITY_RTH_CLOSE), md_holiday_name = event_name,
                    md_source = ''finnhub_api''\<rparr>))))"

definition finnhub_map :: "(string \<Rightarrow> int option) \<Rightarrow> holiday_item list \<Rightarrow> int \<rightharpoonup> market_day" where
  "finnhub_map fromiso items =
     foldl (\<lambda>m item. case finnhub_entry fromiso item of None \<Rightarrow> m | Some day \<Rightarrow> m(cd_date day \<mapsto> day)) Map.empty items"

record finnhub_cache =
  fc_holidays :: "(int \<rightharpoonup> market_day) option"
  fc_stamp :: "int option"

definition finnhub_cache_valid :: "int \<Rightarrow> int \<Rightarrow> finnhub_cache \<Rightarrow> bool" where
  "finnhub_cache_valid ttl now cache = (case (fc_holidays cache, fc_stamp cache) of
     (Some _, Some stamp) \<Rightarrow> now - stamp < ttl * SECOND | _ \<Rightarrow> False)"

text \<open>The answer of the service: a failure of the request, or the status code and the items.\<close>

type_synonym holiday_client = "string \<Rightarrow> failure + int \<times> holiday_item list"

definition finnhub_fetch ::
  "(string \<Rightarrow> int option) \<Rightarrow> string option \<Rightarrow> holiday_client \<Rightarrow> int \<Rightarrow> int \<times> int \<Rightarrow> finnhub_cache
     \<Rightarrow> finnhub_cache \<times> (failure + (int \<rightharpoonup> market_day))" where
  "finnhub_fetch fromiso api_key client ttl clock cache =
     (if finnhub_cache_valid ttl (fst clock) cache then (cache, Inr (the (fc_holidays cache)))
      else case api_key of
        None \<Rightarrow> (cache, Inl (''RuntimeError'', msg ''Finnhub API key is not configured''))
      | Some key \<Rightarrow>
          if key = [] \<or> take 5 key = ''your_'' then (cache, Inl (''RuntimeError'', msg ''Finnhub API key is not configured''))
          else (case client key of
             Inl f \<Rightarrow> (cache, Inl f)
           | Inr (status, items) \<Rightarrow>
               if status \<noteq> 200 then (cache, Inl (''RuntimeError'', [Lit ''Finnhub holiday API returned HTTP '', FInt status]))
               else let holidays = finnhub_map fromiso items
                 in (\<lparr>fc_holidays = Some holidays, fc_stamp = Some (snd clock)\<rparr>, Inr holidays)))"

definition finnhub_day ::
  "(string \<Rightarrow> int option) \<Rightarrow> string option \<Rightarrow> holiday_client \<Rightarrow> int \<Rightarrow> int \<times> int \<Rightarrow> int \<Rightarrow> finnhub_cache
     \<Rightarrow> finnhub_cache \<times> (failure + market_day)" where
  "finnhub_day fromiso api_key client ttl clock d cache =
     (if weekday d \<in> {5, 6} then (cache, Inr (closed_day d (Some ''Weekend'') ''finnhub_api''))
      else case finnhub_fetch fromiso api_key client ttl clock cache of
        (cache1, Inl f) \<Rightarrow> (cache1, Inl f)
      | (cache1, Inr holidays) \<Rightarrow>
          (cache1, Inr (case holidays d of
             Some day \<Rightarrow> day
           | None \<Rightarrow> \<lparr>cd_date = d, cd_is_trading_day = True, cd_open_time = Some EQUITY_RTH_OPEN,
               cd_close_time = Some EQUITY_RTH_CLOSE, md_is_early_close = False, md_holiday_name = None, md_source = ''finnhub_api''\<rparr>)))"

text \<open>\<open>get_calendar_range\<close> of a provider: one call per date, in order, until one raises.\<close>

fun range_each :: "(int \<Rightarrow> 's \<Rightarrow> 's \<times> (failure + market_day)) \<Rightarrow> int list \<Rightarrow> 's \<Rightarrow> 's \<times> (failure + market_day list)" where
  "range_each get [] s = (s, Inr [])"
| "range_each get (d # ds) s = (case get d s of
     (s1, Inl f) \<Rightarrow> (s1, Inl f)
   | (s1, Inr day) \<Rightarrow> (case range_each get ds s1 of (s2, Inl f) \<Rightarrow> (s2, Inl f) | (s2, Inr days) \<Rightarrow> (s2, Inr (day # days))))"

subsection \<open>The fallback cascade\<close>

text \<open>
  \<open>RunnableWithFallbacks.ainvoke\<close>: every runner is tried up to \<open>max_retries + 1\<close> times, a deadline or
  capacity failure ends its tries, and the runners follow each other in order. A runner gets the number of
  the try. The waits between tries have no effect.
\<close>

definition final_failure :: "failure \<Rightarrow> bool" where
  "final_failure f = (fst f \<in> {''ReadDeadlineExceeded'', ''ReadCapacityExceeded''})"

fun attempts :: "(nat \<Rightarrow> 's \<Rightarrow> 's \<times> (failure + 'a)) \<Rightarrow> nat \<Rightarrow> nat \<Rightarrow> 's \<Rightarrow> 's \<times> (failure list + 'a)" where
  "attempts run k 0 s = (s, Inl [])"
| "attempts run k (Suc n) s = (case run k s of
     (s1, Inr v) \<Rightarrow> (s1, Inr v)
   | (s1, Inl f) \<Rightarrow>
       if n = 0 \<or> final_failure f then (s1, Inl [f])
       else (case attempts run (Suc k) n s1 of (s2, Inr v) \<Rightarrow> (s2, Inr v) | (s2, Inl fs) \<Rightarrow> (s2, Inl (f # fs))))"

fun cascade :: "nat \<Rightarrow> (nat \<Rightarrow> 's \<Rightarrow> 's \<times> (failure + 'a)) list \<Rightarrow> 's \<Rightarrow> 's \<times> (failure list + 'a)" where
  "cascade n [] s = (s, Inl [])"
| "cascade n (run # runs) s = (case attempts run 0 n s of
     (s1, Inr v) \<Rightarrow> (s1, Inr v)
   | (s1, Inl fs) \<Rightarrow> (case cascade n runs s1 of (s2, Inr v) \<Rightarrow> (s2, Inr v) | (s2, Inl gs) \<Rightarrow> (s2, Inl (fs @ gs))))"

text \<open>The printed lists of names and error texts; quotes inside a text are not escaped here.\<close>

definition shown_list :: "ftext list \<Rightarrow> ftext" where
  "shown_list ts = Lit ''['' # join_ftext '', '' (map (\<lambda>t. Lit [CHR 0x27] # t @ [Lit [CHR 0x27]]) ts) @ [Lit '']'']"

definition ainvoke ::
  "int \<Rightarrow> (string \<times> (nat \<Rightarrow> 's \<Rightarrow> 's \<times> (failure + 'a))) list \<Rightarrow> 's \<Rightarrow> 's \<times> (failure + 'a)" where
  "ainvoke max_retries runners s = (case cascade (nat (max_retries + 1)) (map snd runners) s of
     (s1, Inr v) \<Rightarrow> (s1, Inr v)
   | (s1, Inl errors) \<Rightarrow> (s1, Inl (''AllFallbacksExhaustedError'',
       Lit ''All providers ('' # shown_list (map (msg \<circ> fst) runners) @ Lit '') exhausted. Errors: '' # shown_list (map snd errors))))"

subsection \<open>The composite calendar\<close>

record calendar_setup =
  cs_primary_provider :: string
  cs_fallback_providers :: "string list option"
  cs_max_retries :: int
  cs_api_key :: "string option"
  cs_cache_ttl :: int

text \<open>What the providers read: the two services and the clock, by the number of the try (and the date).\<close>

record calendar_world =
  cw_alpaca :: "nat \<Rightarrow> calendar_client"
  cw_finnhub :: "nat \<Rightarrow> holiday_client"
  cw_clock :: "nat \<Rightarrow> int \<Rightarrow> int \<times> int"
  cw_fromiso :: "string \<Rightarrow> int option"

record calendar_caches =
  cc_alpaca :: alpaca_cache
  cc_finnhub :: finnhub_cache

definition PROVIDERS :: "string list" where
  "PROVIDERS = [''alpaca'', ''finnhub'', ''deterministic'']"

definition primary_name :: "calendar_setup \<Rightarrow> string" where
  "primary_name sc = strip (lower (cs_primary_provider sc))"

definition fallback_names :: "calendar_setup \<Rightarrow> string list" where
  "fallback_names sc =
     (let given = (case cs_fallback_providers sc of None \<Rightarrow> [] | Some fs \<Rightarrow> fs);
          raw = map (strip \<circ> lower) (if given = [] then [''finnhub'', ''deterministic''] else given);
          raw = (if ''deterministic'' \<notin> set raw \<and> primary_name sc \<noteq> ''deterministic'' then raw @ [''deterministic''] else raw)
      in filter (\<lambda>f. f \<noteq> primary_name sc \<and> f \<in> set PROVIDERS) raw)"

definition provider_day ::
  "calendar_setup \<Rightarrow> calendar_world \<Rightarrow> string \<Rightarrow> nat \<Rightarrow> int \<Rightarrow> calendar_caches \<Rightarrow> calendar_caches \<times> (failure + market_day)" where
  "provider_day sc world name k d caches =
     (if name = ''alpaca''
      then (case alpaca_day (cw_alpaca world k) (cs_cache_ttl sc) (cw_clock world k d) d (cc_alpaca caches) of
              (c, r) \<Rightarrow> (caches\<lparr>cc_alpaca := c\<rparr>, r))
      else if name = ''finnhub''
      then (case finnhub_day (cw_fromiso world) (cs_api_key sc) (cw_finnhub world k) (cs_cache_ttl sc) (cw_clock world k d) d
                (cc_finnhub caches) of (c, r) \<Rightarrow> (caches\<lparr>cc_finnhub := c\<rparr>, r))
      else (caches, Inr (deterministic_day d)))"

definition provider_range ::
  "calendar_setup \<Rightarrow> calendar_world \<Rightarrow> string \<Rightarrow> nat \<Rightarrow> int \<Rightarrow> int \<Rightarrow> calendar_caches \<Rightarrow> calendar_caches \<times> (failure + market_day list)" where
  "provider_range sc world name k start_date end_date caches =
     range_each (provider_day sc world name k) [start_date..end_date] caches"

definition composite_day ::
  "calendar_setup \<Rightarrow> calendar_world \<Rightarrow> int \<Rightarrow> calendar_caches \<Rightarrow> calendar_caches \<times> (failure + market_day)" where
  "composite_day sc world d caches =
     ainvoke (cs_max_retries sc)
       (map (\<lambda>name. (name, \<lambda>k. provider_day sc world name k d)) (primary_name sc # fallback_names sc)) caches"

definition composite_range ::
  "calendar_setup \<Rightarrow> calendar_world \<Rightarrow> int \<Rightarrow> int \<Rightarrow> calendar_caches \<Rightarrow> calendar_caches \<times> (failure + market_day list)" where
  "composite_range sc world start_date end_date caches =
     ainvoke (cs_max_retries sc)
       (map (\<lambda>name. (name, \<lambda>k. provider_range sc world name k start_date end_date)) (primary_name sc # fallback_names sc)) caches"

text \<open>
  \<open>next_regular_close_after\<close>: \<open>ny\<close> and \<open>utc\<close> convert between instants and New York wall clocks; an aware
  \<open>now\<close> is its instant, and \<open>days\<close> is the answer of the calendar to the range it is asked for.
\<close>

definition next_regular_close_after ::
  "(int \<Rightarrow> int) \<Rightarrow> (int \<Rightarrow> int) \<Rightarrow> (int \<Rightarrow> int \<Rightarrow> failure + 'x calendar_day_scheme list) \<Rightarrow> int \<Rightarrow> int option \<Rightarrow> int option" where
  "next_regular_close_after ny utc days horizon_days now = (case now of
     None \<Rightarrow> None
   | Some instant \<Rightarrow>
       let today = wall_date (ny instant)
       in case days (today + 1) (today + horizon_days) of
            Inl _ \<Rightarrow> None
          | Inr ds \<Rightarrow> map_option (\<lambda>day. utc (combine (cd_date day) (the (cd_close_time day))))
              (find (\<lambda>day. today < cd_date day \<and> cd_is_trading_day day \<and> cd_close_time day \<noteq> None) (sort_key cd_date ds)))"

subsection \<open>The holidays of a year\<close>

lemma walk_forward_iff:
  assumes "0 \<le> w" "w \<le> 6"
  shows "walk_forward w a = d \<longleftrightarrow> weekday d = w \<and> a \<le> d \<and> d \<le> a + 6"
proof -
  have "a + days_to w (weekday a) = d \<longleftrightarrow> weekday d = w \<and> a \<le> d \<and> d \<le> a + 6"
  proof -
    obtain q r where q: "a + 6 = 7 * q + weekday a" "d + 6 = 7 * r + weekday d" using weekday_split by blast
    have b: "0 \<le> weekday a" "weekday a \<le> 6" "0 \<le> weekday d" "weekday d \<le> 6" by (rule weekday_bounds)+
    show ?thesis
    proof
      assume d: "a + days_to w (weekday a) = d"
      have "weekday d = w"
      proof (cases "weekday a \<le> w")
        case True
        have "d + 6 = 7 * q + w" using d q True by (simp add: days_to_def)
        then show ?thesis using weekday_eqI assms by blast
      next
        case False
        have "d + 6 = 7 * (q + 1) + w" using d q False by (simp add: days_to_def)
        then show ?thesis using weekday_eqI assms by blast
      qed
      then show "weekday d = w \<and> a \<le> d \<and> d \<le> a + 6" using d b assms by (auto simp: days_to_def split: if_split_asm)
    next
      assume d: "weekday d = w \<and> a \<le> d \<and> d \<le> a + 6"
      have "r = q \<or> r = q + 1" using d q b by linarith
      then show "a + days_to w (weekday a) = d" using d q b by (auto simp: days_to_def)
    qed
  qed
  then show ?thesis using walk_forward_eq [OF assms] by simp
qed

lemma walk_back_iff:
  assumes "0 \<le> w" "w \<le> 6"
  shows "walk_back w a = d \<longleftrightarrow> weekday d = w \<and> a - 6 \<le> d \<and> d \<le> a"
proof -
  define x where "x = a - days_to (weekday a) w"
  obtain q where q: "a + 6 = 7 * q + weekday a" using weekday_split by blast
  have "weekday x = w"
  proof (cases "w \<le> weekday a")
    case True
    have "x + 6 = 7 * q + w" using q True by (simp add: x_def days_to_def)
    then show ?thesis using weekday_eqI assms by blast
  next
    case False
    have "x + 6 = 7 * (q - 1) + w" using q False by (simp add: x_def days_to_def)
    then show ?thesis using weekday_eqI assms by blast
  qed
  moreover have "a - 6 \<le> x \<and> x \<le> a" using weekday_bounds [of a] assms by (simp add: x_def days_to_def)
  ultimately have "walk_forward w (a - 6) = x" using walk_forward_iff [OF assms] by simp
  then have "walk_back w a = walk_forward w (a - 6)" using walk_back_eq [OF assms] by (simp add: x_def)
  then show ?thesis using walk_forward_iff [OF assms, of "a - 6" d] by simp
qed

lemma nth_weekday_iff:
  assumes "0 \<le> w" "w \<le> 6"
  shows "nth_weekday y m w n = d \<longleftrightarrow> weekday d = w \<and> ymd y m (7 * n - 6) \<le> d \<and> d \<le> ymd y m (7 * n)"
proof -
  have "nth_weekday y m w n = d \<longleftrightarrow> walk_forward w (ymd y m 1) = d - 7 * (n - 1)" by (auto simp: nth_weekday_def)
  moreover have "weekday (d - 7 * (n - 1)) = weekday d" using weekday_weeks [of d "1 - n"] by (simp add: algebra_simps)
  ultimately show ?thesis using walk_forward_iff [OF assms, of "ymd y m 1" "d - 7 * (n - 1)"] by (auto simp: ymd_def)
qed

lemma last_monday_of_may:
  "last_weekday y 5 0 = d \<longleftrightarrow> weekday d = 0 \<and> ymd y 5 25 \<le> d \<and> d \<le> ymd y 5 31"
  by (simp add: last_weekday_def walk_back_iff ymd_def days_before_month_def)

definition observed_on :: "int \<Rightarrow> int \<Rightarrow> bool" where
  "observed_on x d = (d = x \<and> weekday d < 5 \<or> d = x - 1 \<and> weekday d = 4 \<or> d = x + 1 \<and> weekday d = 0)"

lemma observe_holiday_iff: "observe_holiday x = d \<longleftrightarrow> observed_on x d"
  using weekday_bounds [of x] weekday_next [of x] weekday_prev [of x]
  by (auto simp: observe_holiday_def observed_on_def split: if_split_asm)

text \<open>
  What the table of a year holds for the dates of that year: third and first and last Mondays, the fourth
  Thursday, Good Friday, and fixed dates moved off a weekend to the Friday before or the Monday after. The
  observed date of a New Year's Day on a Saturday is in the old year, where this table is not consulted.
\<close>

definition table_holiday :: "int \<Rightarrow> int \<Rightarrow> bool" where
  "table_holiday y d =
     (observed_on (ymd y 1 1) d \<and> ymd y 1 1 \<le> d
      \<or> weekday d = 0 \<and> ymd y 1 15 \<le> d \<and> d \<le> ymd y 1 21
      \<or> weekday d = 0 \<and> ymd y 2 15 \<le> d \<and> d \<le> ymd y 2 21
      \<or> d + 2 = compute_easter y
      \<or> weekday d = 0 \<and> ymd y 5 25 \<le> d \<and> d \<le> ymd y 5 31
      \<or> JUNETEENTH_FIRST_YEAR \<le> y \<and> observed_on (ymd y 6 19) d
      \<or> observed_on (ymd y 7 4) d
      \<or> weekday d = 0 \<and> ymd y 9 1 \<le> d \<and> d \<le> ymd y 9 7
      \<or> weekday d = 3 \<and> ymd y 11 22 \<le> d \<and> d \<le> ymd y 11 28
      \<or> observed_on (ymd y 12 25) d)"

definition shortened_session :: "int \<Rightarrow> int \<Rightarrow> bool" where
  "shortened_session y d =
     (weekday d = 4 \<and> ymd y 11 23 \<le> d \<and> d \<le> ymd y 11 29
      \<or> d = ymd y 12 24
      \<or> d = ymd y 7 3 \<and> (weekday d = 2 \<or> weekday d = 3))"

text \<open>The dates of the table, in order.\<close>

definition holiday_dates :: "int \<Rightarrow> int list" where
  "holiday_dates y = [observe_holiday (ymd y 1 1), nth_weekday y 1 0 3, nth_weekday y 2 0 3, compute_easter y - 2, last_weekday y 5 0]
     @ (if JUNETEENTH_FIRST_YEAR \<le> y then [observe_holiday (ymd y 6 19)] else [])
     @ [observe_holiday (ymd y 7 4), nth_weekday y 9 0 1, nth_weekday y 11 3 4, observe_holiday (ymd y 12 25)]"

lemma statutory_dates: "yc_statutory_holidays (get_year_calendar y) d \<noteq> None \<longleftrightarrow> d \<in> set (holiday_dates y)"
  unfolding get_year_calendar_def Let_def holiday_dates_def
  by (cases "JUNETEENTH_FIRST_YEAR \<le> y") auto

lemma first_day_of_year: "year_of d = y \<Longrightarrow> ymd y 1 1 \<le> d"
  using year_bounds [of d] by (auto simp: ymd_def days_before_month_def)

lemma holiday_dates_iff:
  assumes "year_of d = y"
  shows "d \<in> set (holiday_dates y) \<longleftrightarrow> table_holiday y d"
proof -
  have "d = compute_easter y - 2 \<longleftrightarrow> d + 2 = compute_easter y" by auto
  moreover have "d = observe_holiday x \<longleftrightarrow> observed_on x d" for x using observe_holiday_iff [of x d] by auto
  moreover have "d = nth_weekday y m 0 n \<longleftrightarrow> weekday d = 0 \<and> ymd y m (7 * n - 6) \<le> d \<and> d \<le> ymd y m (7 * n)" for m n
    using nth_weekday_iff [of 0 y m n d] by auto
  moreover have "d = nth_weekday y m 3 n \<longleftrightarrow> weekday d = 3 \<and> ymd y m (7 * n - 6) \<le> d \<and> d \<le> ymd y m (7 * n)" for m n
    using nth_weekday_iff [of 3 y m n d] by auto
  moreover have "d = last_weekday y 5 0 \<longleftrightarrow> weekday d = 0 \<and> ymd y 5 25 \<le> d \<and> d \<le> ymd y 5 31"
    using last_monday_of_may [of y d] by auto
  ultimately show ?thesis using first_day_of_year [OF assms]
    by (simp add: holiday_dates_def table_holiday_def) blast
qed

lemma early_close_iff:
  assumes "weekday d < 5"
  shows "yc_early_closes (get_year_calendar y) d \<noteq> None \<longleftrightarrow> shortened_session y d"
proof -
  have "ymd y 11 23 = ymd y 11 22 + 1" "ymd y 11 29 = ymd y 11 28 + 1" "weekday (d - 1) = 3 \<longleftrightarrow> weekday d = 4"
    using weekday_prev [of d] weekday_bounds [of d] by (auto simp: ymd_def)
  then have black: "d = nth_weekday y 11 3 4 + 1 \<longleftrightarrow> weekday d = 4 \<and> ymd y 11 23 \<le> d \<and> d \<le> ymd y 11 29"
    using nth_weekday_iff [of 3 y 11 4 "d - 1"] by auto
  have "ymd y 7 4 = ymd y 7 3 + 1" by (simp add: ymd_def)
  then have july: "weekday (ymd y 7 4) \<in> {3, 4} \<longleftrightarrow> weekday (ymd y 7 3) = 2 \<or> weekday (ymd y 7 3) = 3"
    using weekday_next [of "ymd y 7 3"] by auto
  have "yc_early_closes (get_year_calendar y) d \<noteq> None \<longleftrightarrow> d = nth_weekday y 11 3 4 + 1
      \<or> d = ymd y 12 24 \<and> weekday (ymd y 12 24) < 5 \<or> d = ymd y 7 3 \<and> weekday (ymd y 7 4) \<in> {3, 4}"
    unfolding get_year_calendar_def Let_def by simp
  then show ?thesis unfolding black july shortened_session_def using assms by blast
qed

lemma deterministic_day_cases:
  "deterministic_day d =
     (if \<not> weekday d < 5 then closed_day d (Some ''Weekend'') ''deterministic''
      else if table_holiday (year_of d) d then closed_day d (snd (is_equity_holiday d)) ''deterministic''
      else if shortened_session (year_of d) d
      then \<lparr>cd_date = d, cd_is_trading_day = True, cd_open_time = Some EQUITY_RTH_OPEN, cd_close_time = Some (13 * 60 * MINUTE),
        md_is_early_close = True, md_holiday_name = snd (is_equity_early_close d), md_source = ''deterministic''\<rparr>
      else \<lparr>cd_date = d, cd_is_trading_day = True, cd_open_time = Some EQUITY_RTH_OPEN, cd_close_time = Some EQUITY_RTH_CLOSE,
        md_is_early_close = False, md_holiday_name = None, md_source = ''deterministic''\<rparr>)"
proof (cases "weekday d < 5")
  case True
  then have "weekday d \<noteq> 5" "weekday d \<noteq> 6" by auto
  moreover have "is_equity_holiday d = (table_holiday (year_of d) d, snd (is_equity_holiday d))"
    using statutory_dates [of "year_of d" d] holiday_dates_iff [of d] by (simp add: is_equity_holiday_def Let_def)
  moreover have "is_equity_early_close d = (shortened_session (year_of d) d, snd (is_equity_early_close d))"
    using early_close_iff [OF True, of "year_of d"] by (simp add: is_equity_early_close_def Let_def)
  ultimately show ?thesis using True unfolding deterministic_day_def by (auto split: prod.split)
next
  case False
  then have "weekday d = 5 \<or> weekday d = 6" using weekday_bounds [of d] by auto
  then show ?thesis using False by (auto simp: deterministic_day_def)
qed

lemma deterministic_trading: "cd_is_trading_day (deterministic_day d) \<longleftrightarrow> weekday d < 5 \<and> \<not> table_holiday (year_of d) d"
  unfolding deterministic_day_cases by (simp add: closed_day_def)

lemma deterministic_fields:
  "cd_date (deterministic_day d) = d" "cd_close_time (deterministic_day d) = None \<longleftrightarrow> \<not> cd_is_trading_day (deterministic_day d)"
  unfolding deterministic_day_cases by (simp_all add: closed_day_def)

subsection \<open>Trading days keep coming\<close>

lemma next_new_year: "ymd (y + 1) 1 1 = ymd y 12 31 + 1"
  by (simp add: ymd_def days_before_month_def year_length)

lemma observe_near: "x - 1 \<le> observe_holiday x" "observe_holiday x \<le> x + 1"
  by (simp_all add: observe_holiday_def)

lemma nth_weekday_window:
  assumes "0 \<le> w" "w \<le> 6"
  shows "ymd y m (7 * n - 6) \<le> nth_weekday y m w n" "nth_weekday y m w n \<le> ymd y m (7 * n)"
  using nth_weekday_iff [OF assms, of y m n "nth_weekday y m w n"] by auto

lemma easter_window: "ymd y 3 22 \<le> compute_easter y" "compute_easter y \<le> ymd y 4 25"
  using compute_easter_spec [of y] by auto

lemma holiday_windows:
  "ymd y 1 1 - 1 \<le> observe_holiday (ymd y 1 1)" "observe_holiday (ymd y 1 1) \<le> ymd y 1 1 + 1"
  "ymd y 1 15 \<le> nth_weekday y 1 0 3" "nth_weekday y 1 0 3 \<le> ymd y 1 21"
  "ymd y 2 15 \<le> nth_weekday y 2 0 3" "nth_weekday y 2 0 3 \<le> ymd y 2 21"
  "ymd y 5 25 \<le> last_weekday y 5 0" "last_weekday y 5 0 \<le> ymd y 5 31"
  "ymd y 9 1 \<le> nth_weekday y 9 0 1" "nth_weekday y 9 0 1 \<le> ymd y 9 7"
  "ymd y 11 22 \<le> nth_weekday y 11 3 4" "nth_weekday y 11 3 4 \<le> ymd y 11 28"
  using observe_near [of "ymd y 1 1"] nth_weekday_window [of 0 y 1 3] nth_weekday_window [of 0 y 2 3]
    last_monday_of_may [of y "last_weekday y 5 0"] nth_weekday_window [of 0 y 9 1] nth_weekday_window [of 3 y 11 4] by simp_all

lemma holidays_spaced: "sorted_wrt (\<lambda>a b. a + 5 \<le> b) (holiday_dates y)"
proof -
  note w = holiday_windows [of y] easter_window [of y] observe_near [of "ymd y 6 19"] observe_near [of "ymd y 7 4"]
    observe_near [of "ymd y 12 25"]
  have "transp (\<lambda>a b :: int. a + 5 \<le> b)" by (auto simp: transp_def)
  then show ?thesis unfolding holiday_dates_def using w
    by (cases "is_leap y"; cases "JUNETEENTH_FIRST_YEAR \<le> y") (simp_all add: sorted_wrt2 ymd_def days_before_month_def)
qed

lemma spaced_apart:
  "sorted_wrt (\<lambda>a b. a + 5 \<le> b) xs \<Longrightarrow> a \<in> set xs \<Longrightarrow> b \<in> set xs \<Longrightarrow> a < b \<Longrightarrow> a + 5 \<le> (b :: int)"
  by (induction xs) force+

lemma holiday_by_december_26: "d \<in> set (holiday_dates y) \<Longrightarrow> d \<le> ymd y 12 26"
  using holiday_windows [of y] easter_window [of y] observe_near [of "ymd y 6 19"] observe_near [of "ymd y 7 4"]
    observe_near [of "ymd y 12 25"]
  by (auto simp: holiday_dates_def ymd_def days_before_month_def split: if_split_asm)

lemma year_of_mono: "a \<le> b \<Longrightarrow> year_of a \<le> year_of b"
  using year_bounds [of a] year_bounds [of b] days_before_mono [of "year_of b + 1" "year_of a"] by linarith

lemma holidays_apart:
  assumes "table_holiday (year_of a) a" "table_holiday (year_of b) b" "a < b"
  shows "a + 5 \<le> b"
proof -
  have h: "a \<in> set (holiday_dates (year_of a))" "b \<in> set (holiday_dates (year_of b))"
    using assms(1,2) holiday_dates_iff [OF refl] by blast+
  show ?thesis
  proof (cases "year_of a = year_of b")
    case True
    then show ?thesis using spaced_apart [OF holidays_spaced] h assms(3) by metis
  next
    case False
    then have "year_of a + 1 \<le> year_of b" using year_of_mono [of a b] assms(3) by linarith
    then have "ymd (year_of a + 1) 1 1 \<le> ymd (year_of b) 1 1" using days_before_mono by (simp add: ymd_def days_before_month_def)
    moreover have "ymd (year_of b) 1 1 \<le> b" by (rule first_day_of_year [OF refl])
    moreover have "a + 5 \<le> ymd (year_of a) 12 31" using holiday_by_december_26 [OF h(1)] by (simp add: ymd_def)
    ultimately show ?thesis using next_new_year [of "year_of a"] by linarith
  qed
qed

lemma two_weekdays: "\<exists>a b. d \<le> a \<and> a < b \<and> b \<le> d + 3 \<and> weekday a < 5 \<and> weekday b < 5"
proof -
  have w: "weekday (d + 2) = (if weekday (d + 1) = 6 then 0 else weekday (d + 1) + 1)"
    "weekday (d + 3) = (if weekday (d + 2) = 6 then 0 else weekday (d + 2) + 1)"
    using weekday_next [of "d + 1"] weekday_next [of "d + 2"] by (simp_all add: add.commute)
  consider "weekday d \<le> 3" | "weekday d = 4" | "weekday d = 5" | "weekday d = 6" using weekday_bounds [of d] by linarith
  then show ?thesis
  proof cases
    case 1
    then show ?thesis using weekday_next [of d] by (intro exI [of _ d] exI [of _ "d + 1"]) auto
  next
    case 2
    then show ?thesis using w weekday_next [of d] by (intro exI [of _ d] exI [of _ "d + 3"]) auto
  next
    case 3
    then show ?thesis using w weekday_next [of d] by (intro exI [of _ "d + 2"] exI [of _ "d + 3"]) auto
  next
    case 4
    then show ?thesis using w weekday_next [of d] by (intro exI [of _ "d + 1"] exI [of _ "d + 2"]) auto
  qed
qed

lemma trading_day_within_four: "\<exists>e. d \<le> e \<and> e \<le> d + 3 \<and> cd_is_trading_day (deterministic_day e)"
proof -
  obtain a b where ab: "d \<le> a" "a < b" "b \<le> d + 3" "weekday a < 5" "weekday b < 5" using two_weekdays by blast
  then have "\<not> table_holiday (year_of a) a \<or> \<not> table_holiday (year_of b) b" using holidays_apart [of a b] by linarith
  then show ?thesis using ab deterministic_trading by (meson le_less_trans less_imp_le order_trans)
qed

text \<open>A New Year's Day that falls on a Saturday is observed on no weekday: the Friday before is a trading day.\<close>

theorem saturday_new_year_not_observed:
  assumes "weekday (ymd (y + 1) 1 1) = 5"
  shows "cd_is_trading_day (deterministic_day (ymd y 12 31))"
proof -
  have "weekday (ymd y 12 31) = 4" using assms weekday_prev [of "ymd (y + 1) 1 1"] next_new_year [of y] by simp
  moreover have y: "year_of (ymd y 12 31) = y" by (rule year_of_ymd) (simp add: valid_date_def days_in_month_def)
  moreover have "\<not> table_holiday y (ymd y 12 31)"
    using holiday_dates_iff [OF y] holiday_by_december_26 [of "ymd y 12 31" y] by (auto simp: ymd_def)
  ultimately show ?thesis by (simp add: deterministic_trading)
qed

text \<open>
  The holidays as the documentation of the calendar lists them, whatever year they belong to, each fixed
  date observed on the Friday before a Saturday or the Monday after a Sunday.
\<close>

definition holiday_of_year :: "int \<Rightarrow> int \<Rightarrow> bool" where
  "holiday_of_year y d =
     (observed_on (ymd y 1 1) d
      \<or> weekday d = 0 \<and> ymd y 1 15 \<le> d \<and> d \<le> ymd y 1 21
      \<or> weekday d = 0 \<and> ymd y 2 15 \<le> d \<and> d \<le> ymd y 2 21
      \<or> d + 2 = compute_easter y
      \<or> weekday d = 0 \<and> ymd y 5 25 \<le> d \<and> d \<le> ymd y 5 31
      \<or> 2022 \<le> y \<and> observed_on (ymd y 6 19) d
      \<or> observed_on (ymd y 7 4) d
      \<or> weekday d = 0 \<and> ymd y 9 1 \<le> d \<and> d \<le> ymd y 9 7
      \<or> weekday d = 3 \<and> ymd y 11 22 \<le> d \<and> d \<le> ymd y 11 28
      \<or> observed_on (ymd y 12 25) d)"

definition exchange_holiday :: "int \<Rightarrow> bool" where
  "exchange_holiday d = (\<exists>y. holiday_of_year y d)"

lemma holiday_of_year_iff: "holiday_of_year y d \<longleftrightarrow> table_holiday y d \<or> d = ymd y 1 1 - 1 \<and> weekday d = 4"
proof -
  have "observed_on (ymd y 1 1) d \<longleftrightarrow> observed_on (ymd y 1 1) d \<and> ymd y 1 1 \<le> d \<or> d = ymd y 1 1 - 1 \<and> weekday d = 4"
    by (auto simp: observed_on_def)
  then show ?thesis unfolding holiday_of_year_def table_holiday_def JUNETEENTH_FIRST_YEAR_def by blast
qed

lemma table_holiday_window:
  assumes "table_holiday y d"
  shows "ymd y 1 1 \<le> d" "d \<le> ymd y 12 31"
proof -
  have o: "d \<ge> x - 1" "d \<le> x + 1" if "observed_on x d" for x using that by (auto simp: observed_on_def)
  note w = easter_window [of y] o [of "ymd y 6 19"] o [of "ymd y 7 4"] o [of "ymd y 12 25"] o [of "ymd y 1 1"]
  show "ymd y 1 1 \<le> d" "d \<le> ymd y 12 31"
    using assms w unfolding table_holiday_def
    by (auto simp: ymd_def days_before_month_def split: if_split_asm)
qed

lemma exchange_holiday_iff:
  "exchange_holiday d \<longleftrightarrow> table_holiday (year_of d) d \<or> d = ymd (year_of d) 12 31 \<and> weekday d = 4"
proof
  assume "exchange_holiday d"
  then obtain y where "table_holiday y d \<or> d = ymd y 1 1 - 1 \<and> weekday d = 4"
    by (auto simp: exchange_holiday_def holiday_of_year_iff)
  then show "table_holiday (year_of d) d \<or> d = ymd (year_of d) 12 31 \<and> weekday d = 4"
  proof
    assume h: "table_holiday y d"
    have "year_of d = y" unfolding year_of_iff year_length
      using table_holiday_window [OF h] by (simp add: ymd_def days_before_month_def split: if_split_asm)
    then show ?thesis using h by simp
  next
    assume h: "d = ymd y 1 1 - 1 \<and> weekday d = 4"
    then have d: "d = ymd (y - 1) 12 31" using next_new_year [of "y - 1"] by simp
    have "year_of (ymd (y - 1) 12 31) = y - 1" by (rule year_of_ymd) (simp add: valid_date_def days_in_month_def)
    then have "d = ymd (year_of d) 12 31" using d by simp
    then show ?thesis using h by blast
  qed
next
  assume "table_holiday (year_of d) d \<or> d = ymd (year_of d) 12 31 \<and> weekday d = 4"
  then show "exchange_holiday d"
  proof
    assume "d = ymd (year_of d) 12 31 \<and> weekday d = 4"
    then have "holiday_of_year (year_of d + 1) d" using next_new_year [of "year_of d"] by (simp add: holiday_of_year_iff)
    then show ?thesis unfolding exchange_holiday_def by blast
  qed (auto simp: exchange_holiday_def holiday_of_year_iff)
qed

text \<open>
  C25. The computed calendar agrees with the documented rules of the exchange on every date but the last
  of a year that ends on a Friday, before a New Year's Day on a Saturday. A date is a trading day exactly
  when it is a weekday and no exchange holiday of any year; it has an early close exactly when it is such a
  day and the day after Thanksgiving, Christmas Eve, or the third of July before a Thursday or Friday
  holiday; and its hours are 9:30 to 16:00, or to 13:00.
\<close>

theorem deterministic_calendar_exact:
  assumes "\<not> (d = ymd (year_of d) 12 31 \<and> weekday d = 4)"
  shows "cd_date (deterministic_day d) = d
   \<and> (cd_is_trading_day (deterministic_day d) \<longleftrightarrow> weekday d < 5 \<and> \<not> exchange_holiday d)
   \<and> (md_is_early_close (deterministic_day d) \<longleftrightarrow> cd_is_trading_day (deterministic_day d) \<and> shortened_session (year_of d) d)
   \<and> cd_open_time (deterministic_day d) = (if cd_is_trading_day (deterministic_day d) then Some ((9 * 60 + 30) * MINUTE) else None)
   \<and> cd_close_time (deterministic_day d) = (if cd_is_trading_day (deterministic_day d)
        then Some ((if md_is_early_close (deterministic_day d) then 13 else 16) * 60 * MINUTE) else None)"
proof -
  have "exchange_holiday d \<longleftrightarrow> table_holiday (year_of d) d" using assms exchange_holiday_iff by blast
  then show ?thesis
    unfolding deterministic_day_cases by (simp add: closed_day_def EQUITY_RTH_OPEN_def EQUITY_RTH_CLOSE_def)
qed

theorem deterministic_calendar_exact_witness:
  "\<not> cd_is_trading_day (deterministic_day (ymd 2026 7 3)) \<and> cd_close_time (deterministic_day (ymd 2026 7 3)) = None"
proof -
  have w: "weekday (ymd 2026 7 3) = 4" "weekday (ymd 2026 7 4 - 1) = 4"
    by (simp_all add: weekday_def ymd_def days_before_year_def days_before_month_def is_leap_def)
  have y: "year_of (ymd 2026 7 3) = 2026" by (rule year_of_ymd) (simp add: valid_date_def days_in_month_def)
  have "ymd 2026 7 3 = ymd 2026 7 4 - 1" by (simp add: ymd_def)
  then have "holiday_of_year 2026 (ymd 2026 7 3)" using w by (simp add: holiday_of_year_def observed_on_def)
  then have "exchange_holiday (ymd 2026 7 3)" by (auto simp: exchange_holiday_def)
  moreover have "\<not> (ymd 2026 7 3 = ymd (year_of (ymd 2026 7 3)) 12 31 \<and> weekday (ymd 2026 7 3) = 4)"
    unfolding y by (simp add: ymd_def days_before_month_def)
  note deterministic_calendar_exact [OF this]
  ultimately show ?thesis by simp
qed

lemma deterministic_range_sorted: "sort_key cd_date (deterministic_range a b) = deterministic_range a b"
  by (rule sort_key_id_if_sorted) (simp add: deterministic_range_def comp_def deterministic_fields)

text \<open>
  C27. The next regular close is always found on the computed calendar: from any instant it is the close of
  the first trading day after that New York date, and that day is at most four days ahead, well inside
  the ten days the search (and the search for the next session of the release exit) looks through.
\<close>

theorem next_close_found:
  "\<exists>e t. wall_date (ny now) < e \<and> e \<le> wall_date (ny now) + 4 \<and> cd_is_trading_day (deterministic_day e)
     \<and> list_all (\<lambda>x. \<not> cd_is_trading_day (deterministic_day x)) [wall_date (ny now) + 1..e - 1]
     \<and> cd_close_time (deterministic_day e) = Some t
     \<and> next_regular_close_after ny utc (\<lambda>a b. Inr (deterministic_range a b)) 10 (Some now) = Some (utc (combine e t))"
proof -
  define today where "today = wall_date (ny now)"
  let ?P = "\<lambda>x. cd_is_trading_day (deterministic_day x)"
  obtain e0 where e0: "today + 1 \<le> e0" "e0 \<le> today + 1 + 3" "?P e0" using trading_day_within_four by blast
  have "e0 \<in> set [today + 1..today + 10]" using e0 by simp
  then obtain e where e: "find ?P [today + 1..today + 10] = Some e"
    using e0(3) by (cases "find ?P [today + 1..today + 10]") (auto simp: find_None_iff)
  then obtain i where i: "i < length [today + 1..today + 10]" "?P e" "e = [today + 1..today + 10] ! i"
      "\<forall>j < i. \<not> ?P ([today + 1..today + 10] ! j)" by (auto simp: find_Some_iff)
  have at: "[today + 1..today + 10] ! j = today + 1 + int j" if "j < 10" for j using that by (simp add: nth_upto)
  have e_eq: "e = today + 1 + int i" using i at by simp
  have none: "\<not> ?P x" if "today < x" "x < e" for x
  proof -
    have "nat (x - today - 1) < i" "nat (x - today - 1) < 10" using that e_eq i(1) by simp_all
    then show ?thesis using i(4) at [of "nat (x - today - 1)"] that by force
  qed
  have bound: "e \<le> today + 4" using none [of e0] e0 by linarith
  obtain t where t: "cd_close_time (deterministic_day e) = Some t" using deterministic_fields(2) [of e] i(2) by blast
  have "find (\<lambda>day. today < cd_date day \<and> cd_is_trading_day day \<and> cd_close_time day \<noteq> None) (map deterministic_day xs)
      = map_option deterministic_day (find ?P xs)" if "\<forall>x \<in> set xs. today < x" for xs
    using that by (induction xs) (auto simp: deterministic_fields)
  then have "find (\<lambda>day. today < cd_date day \<and> cd_is_trading_day day \<and> cd_close_time day \<noteq> None)
      (deterministic_range (today + 1) (today + 10)) = Some (deterministic_day e)"
    using e by (simp add: deterministic_range_def)
  then have "next_regular_close_after ny utc (\<lambda>a b. Inr (deterministic_range a b)) 10 (Some now) = Some (utc (combine e t))"
    by (simp add: next_regular_close_after_def deterministic_range_sorted today_def [symmetric] deterministic_fields t)
  then show ?thesis using bound t i(2) e_eq none unfolding today_def [symmetric]
    by (intro exI [of _ e] exI [of _ t]) (auto simp: list_all_iff)
qed

subsection \<open>What a provider promises\<close>

definition day_ok :: "int \<Rightarrow> market_day \<Rightarrow> bool" where
  "day_ok d m = (cd_date m = d
     \<and> (cd_is_trading_day m \<longrightarrow> weekday d < 5 \<and> cd_open_time m \<noteq> None \<and> cd_close_time m \<noteq> None))"

locale calendar_provider =
  fixes inv :: "'s \<Rightarrow> bool" and day :: "int \<Rightarrow> 's \<Rightarrow> 's \<times> (failure + market_day)"
  assumes keeps: "inv s \<Longrightarrow> inv (fst (day d s))"
    and answers: "inv s \<Longrightarrow> snd (day d s) = Inr m \<Longrightarrow> day_ok d m"
begin

lemma range_kept: "inv s \<Longrightarrow> inv (fst (range_each day ds s))"
proof (induction ds arbitrary: s)
  case (Cons d ds)
  obtain s1 r where r: "day d s = (s1, r)" by (cases "day d s")
  then have "inv s1" using keeps [OF Cons.prems, of d] by simp
  then show ?case using Cons.IH [of s1] r by (auto split: sum.split prod.split)
qed simp

lemma range_answered:
  "inv s \<Longrightarrow> snd (range_each day ds s) = Inr ms \<Longrightarrow> list_all2 day_ok ds ms"
proof (induction ds arbitrary: s ms)
  case (Cons d ds)
  obtain s1 r where r: "day d s = (s1, r)" by (cases "day d s")
  with Cons.prems obtain m where m: "r = Inr m" by (cases r) auto
  obtain s2 r2 where r2: "range_each day ds s1 = (s2, r2)" by (cases "range_each day ds s1")
  with Cons.prems r m obtain ms2 where ms2: "r2 = Inr ms2" "ms = m # ms2" by (cases r2) auto
  have "inv s1" "day_ok d m" using keeps [OF Cons.prems(1), of d] answers [OF Cons.prems(1), of d m] r m by auto
  then show ?case using Cons.IH [of s1 ms2] r2 ms2 by simp
qed simp

end

definition keeps_run :: "('s \<Rightarrow> bool) \<Rightarrow> ('a \<Rightarrow> bool) \<Rightarrow> (nat \<Rightarrow> 's \<Rightarrow> 's \<times> (failure + 'a)) \<Rightarrow> bool" where
  "keeps_run P Q run = (\<forall>k s. P s \<longrightarrow> P (fst (run k s)) \<and> (\<forall>v. snd (run k s) = Inr v \<longrightarrow> Q v))"

lemma attempts_kept:
  assumes "keeps_run P Q run"
  shows "P s \<Longrightarrow> P (fst (attempts run k n s)) \<and> (\<forall>v. snd (attempts run k n s) = Inr v \<longrightarrow> Q v)"
proof (induction n arbitrary: k s)
  case (Suc n)
  obtain s1 r where r: "run k s = (s1, r)" by (cases "run k s")
  then have "P s1" "\<forall>v. r = Inr v \<longrightarrow> Q v" using assms Suc.prems unfolding keeps_run_def by (metis fst_conv, metis snd_conv)
  then show ?case using Suc.IH [of s1 "Suc k"] r by (cases r) (auto split: sum.split prod.split)
qed simp

lemma cascade_kept:
  "\<forall>run \<in> set runs. keeps_run P Q run \<Longrightarrow> P s \<Longrightarrow> P (fst (cascade n runs s)) \<and> (\<forall>v. snd (cascade n runs s) = Inr v \<longrightarrow> Q v)"
proof (induction runs arbitrary: s)
  case (Cons run runs)
  obtain s1 r where r: "attempts run 0 n s = (s1, r)" by (cases "attempts run 0 n s")
  have "P s1 \<and> (\<forall>v. r = Inr v \<longrightarrow> Q v)" using attempts_kept [of P Q run s 0 n] Cons.prems r by simp
  then show ?case using Cons.IH [of s1] Cons.prems(1) r by (cases r) (auto split: sum.split prod.split)
qed simp

lemma cascade_answered:
  assumes "0 < n" "run \<in> set runs" "\<And>s. \<exists>v. snd (run 0 s) = Inr v"
  shows "\<exists>v. snd (cascade n runs s) = Inr v"
  using assms(2)
proof (induction runs arbitrary: s)
  case (Cons r rs)
  obtain s1 a where a: "attempts r 0 n s = (s1, a)" by (cases "attempts r 0 n s")
  show ?case
  proof (cases a)
    case (Inl fs)
    have "r \<noteq> run"
    proof
      assume "r = run"
      then obtain v s' where "run 0 s = (s', Inr v)" using assms(3) [of s] by (cases "run 0 s") auto
      then show False using a Inl \<open>r = run\<close> assms(1) by (cases n) auto
    qed
    then have "\<exists>v. snd (cascade n rs s1) = Inr v" using Cons by simp
    then show ?thesis using a Inl by (auto split: sum.split prod.split)
  qed (use a in simp)
qed simp

subsection \<open>The providers keep their promise\<close>

definition listed_ok :: "(int \<rightharpoonup> market_day) \<Rightarrow> bool" where
  "listed_ok table = (\<forall>d m. table d = Some m \<longrightarrow> cd_date m = d
     \<and> (cd_is_trading_day m \<longrightarrow> cd_open_time m \<noteq> None \<and> cd_close_time m \<noteq> None))"

definition alpaca_ok :: "alpaca_cache \<Rightarrow> bool" where
  "alpaca_ok cache = (\<forall>year table. ac_annual cache year = Some table \<longrightarrow> listed_ok table)"

definition finnhub_ok :: "finnhub_cache \<Rightarrow> bool" where
  "finnhub_ok cache = (\<forall>table. fc_holidays cache = Some table \<longrightarrow> listed_ok table)"

definition caches_ok :: "calendar_caches \<Rightarrow> bool" where
  "caches_ok caches = (alpaca_ok (cc_alpaca caches) \<and> finnhub_ok (cc_finnhub caches))"

lemma listed_fold:
  assumes "\<And>x m. entry x = Some m \<Longrightarrow> cd_is_trading_day m \<Longrightarrow> cd_open_time m \<noteq> None \<and> cd_close_time m \<noteq> None"
  shows "listed_ok table \<Longrightarrow> listed_ok (foldl (\<lambda>t x. case entry x of None \<Rightarrow> t | Some m \<Rightarrow> t(cd_date m \<mapsto> m)) table xs)"
proof (induction xs arbitrary: table)
  case (Cons x xs)
  have "listed_ok (case entry x of None \<Rightarrow> table | Some m \<Rightarrow> table(cd_date m \<mapsto> m))"
    using Cons.prems assms [of x] by (auto simp: listed_ok_def split: option.split)
  then show ?case using Cons.IH by simp
qed simp

lemma alpaca_map_ok: "listed_ok (alpaca_year_map items)"
  unfolding alpaca_year_map_def
  by (rule listed_fold) (auto simp: listed_ok_def alpaca_entry_def Let_def split: calendar_item.split_asm option.split_asm)

lemma finnhub_map_ok: "listed_ok (finnhub_map fromiso items)"
  unfolding finnhub_map_def
  by (rule listed_fold) (auto simp: listed_ok_def finnhub_entry_def closed_day_def Let_def split: option.split_asm if_split_asm)

lemma alpaca_load_ok:
  assumes "alpaca_ok cache" "alpaca_load_year client ttl clock year cache = (cache', r)"
  shows "alpaca_ok cache' \<and> (\<forall>table. r = Inr table \<longrightarrow> listed_ok table)"
proof (cases "alpaca_cache_valid ttl (fst clock) year cache")
  case True
  then obtain table where "ac_annual cache year = Some table" by (auto simp: alpaca_cache_valid_def split: option.split_asm)
  then show ?thesis using assms True by (auto simp: alpaca_load_year_def alpaca_ok_def)
next
  case False
  then show ?thesis using assms alpaca_map_ok
    by (auto simp: alpaca_load_year_def alpaca_ok_def Let_def split: option.split_asm sum.split_asm if_split_asm)
qed

lemma finnhub_fetch_ok:
  assumes "finnhub_ok cache" "finnhub_fetch fromiso key client ttl clock cache = (cache', r)"
  shows "finnhub_ok cache' \<and> (\<forall>table. r = Inr table \<longrightarrow> listed_ok table)"
proof (cases "finnhub_cache_valid ttl (fst clock) cache")
  case True
  then obtain table where "fc_holidays cache = Some table" by (auto simp: finnhub_cache_valid_def split: option.split_asm)
  then show ?thesis using assms True by (auto simp: finnhub_fetch_def finnhub_ok_def)
next
  case False
  then show ?thesis using assms finnhub_map_ok
    by (auto simp: finnhub_fetch_def finnhub_ok_def Let_def split: option.split_asm sum.split_asm if_split_asm)
qed

lemma listed_day: "listed_ok table \<Longrightarrow> weekday d < 5 \<Longrightarrow> table d = Some m \<Longrightarrow> day_ok d m"
  by (auto simp: listed_ok_def day_ok_def)

lemma closed_day_ok: "day_ok d (closed_day d name source)"
  by (simp add: day_ok_def closed_day_def)

lemma weekday_below: "weekday d \<noteq> 5 \<Longrightarrow> weekday d \<noteq> 6 \<Longrightarrow> weekday d < 5"
  using weekday_bounds [of d] by linarith

interpretation alpaca: calendar_provider alpaca_ok "alpaca_day client ttl clock" for client ttl clock
proof
  fix s d
  assume s: "alpaca_ok s"
  obtain c r where r: "alpaca_load_year client ttl clock (year_of d) s = (c, r)" by (cases "alpaca_load_year client ttl clock (year_of d) s")
  note load = alpaca_load_ok [OF s r]
  show "alpaca_ok (fst (alpaca_day client ttl clock d s))" using s load r by (auto simp: alpaca_day_def split: sum.split)
  fix m
  assume m: "snd (alpaca_day client ttl clock d s) = Inr m"
  show "day_ok d m"
  proof (cases "weekday d \<in> {5, 6}")
    case True
    then show ?thesis using m closed_day_ok by (auto simp: alpaca_day_def)
  next
    case False
    with m r obtain table where t: "r = Inr table" by (cases r) (auto simp: alpaca_day_def)
    then show ?thesis using m r False load listed_day [of table d] closed_day_ok weekday_below [of d]
      by (auto simp: alpaca_day_def split: option.split_asm)
  qed
qed

interpretation finnhub: calendar_provider finnhub_ok "finnhub_day fromiso key client ttl clock" for fromiso key client ttl clock
proof
  fix s d
  assume s: "finnhub_ok s"
  obtain c r where r: "finnhub_fetch fromiso key client ttl clock s = (c, r)" by (cases "finnhub_fetch fromiso key client ttl clock s")
  note load = finnhub_fetch_ok [OF s r]
  show "finnhub_ok (fst (finnhub_day fromiso key client ttl clock d s))" using s load r by (auto simp: finnhub_day_def split: sum.split)
  fix m
  assume m: "snd (finnhub_day fromiso key client ttl clock d s) = Inr m"
  show "day_ok d m"
  proof (cases "weekday d \<in> {5, 6}")
    case True
    then show ?thesis using m closed_day_ok by (auto simp: finnhub_day_def)
  next
    case False
    with m r obtain table where t: "r = Inr table" by (cases r) (auto simp: finnhub_day_def)
    then show ?thesis using m r False load listed_day [of table d] weekday_below [of d]
      by (auto simp: finnhub_day_def day_ok_def split: option.split_asm)
  qed
qed

lemma deterministic_day_ok: "day_ok d (deterministic_day d)"
  unfolding deterministic_day_cases by (simp add: day_ok_def closed_day_def)

interpretation computed: calendar_provider "\<lambda>_. True" "\<lambda>d s. (s, Inr (deterministic_day d))"
  by unfold_locales (auto simp: deterministic_day_ok)

interpretation provider: calendar_provider caches_ok "provider_day sc world name k" for sc world name k
proof
  fix s d
  assume s: "caches_ok s"
  let ?a = "alpaca_day (cw_alpaca world k) (cs_cache_ttl sc) (cw_clock world k d) d (cc_alpaca s)"
  let ?f = "finnhub_day (cw_fromiso world) (cs_api_key sc) (cw_finnhub world k) (cs_cache_ttl sc) (cw_clock world k d) d (cc_finnhub s)"
  have k: "alpaca_ok (fst ?a)" "finnhub_ok (fst ?f)" using s alpaca.keeps finnhub.keeps unfolding caches_ok_def by blast+
  show "caches_ok (fst (provider_day sc world name k d s))"
    using s k by (auto simp: provider_day_def caches_ok_def split: prod.split)
  fix m
  assume m: "snd (provider_day sc world name k d s) = Inr m"
  consider "name = ''alpaca''" | "name \<noteq> ''alpaca''" "name = ''finnhub''" | "name \<noteq> ''alpaca''" "name \<noteq> ''finnhub''" by blast
  then show "day_ok d m"
  proof cases
    case 1
    then have "snd ?a = Inr m" using m by (simp add: provider_day_def split: prod.split_asm)
    then show ?thesis using alpaca.answers s unfolding caches_ok_def by blast
  next
    case 2
    then have "snd ?f = Inr m" using m by (simp add: provider_day_def split: prod.split_asm)
    then show ?thesis using finnhub.answers s unfolding caches_ok_def by blast
  next
    case 3
    then show ?thesis using m deterministic_day_ok by (auto simp: provider_day_def)
  qed
qed

text \<open>The computed calendar is always among the providers asked.\<close>

lemma computed_asked:
  "\<exists>name \<in> set (primary_name sc # fallback_names sc). \<forall>world k d caches. provider_day sc world name k d caches = (caches, Inr (deterministic_day d))"
proof (cases "primary_name sc \<in> {''alpaca'', ''finnhub''}")
  case True
  then have "primary_name sc \<noteq> ''deterministic''" by auto
  then have "''deterministic'' \<in> set (fallback_names sc)" unfolding fallback_names_def PROVIDERS_def Let_def by auto
  then show ?thesis by (intro bexI [of _ "''deterministic''"]) (simp_all add: provider_day_def)
next
  case False
  then show ?thesis by (intro bexI [of _ "primary_name sc"]) (simp_all add: provider_day_def)
qed

lemma computed_range: "range_each (\<lambda>d s. (s, Inr (deterministic_day d))) ds s = (s, Inr (map deterministic_day ds))"
  by (induction ds) simp_all

lemma ainvoke_snd:
  "snd (cascade (nat (n + 1)) (map snd runners) s) = Inr v \<Longrightarrow> ainvoke n runners s = (fst (cascade (nat (n + 1)) (map snd runners) s), Inr v)"
  by (cases "cascade (nat (n + 1)) (map snd runners) s") (simp add: ainvoke_def)

text \<open>
  C26. The composite calendar always answers. Whatever the two calendar services do, and whatever providers
  are configured, asking for a date or a range returns a day for each date asked, in order; a day it calls a
  trading day is never on a weekend and has its opening and closing time, and the caches stay consistent.
\<close>

theorem composite_calendar_answers:
  assumes "0 \<le> cs_max_retries sc" and "caches_ok caches"
  shows "\<exists>caches1 m caches2 ms. composite_day sc world d caches = (caches1, Inr m) \<and> day_ok d m \<and> caches_ok caches1
    \<and> composite_range sc world start_date end_date caches = (caches2, Inr ms)
    \<and> list_all2 day_ok [start_date..end_date] ms \<and> caches_ok caches2"
proof -
  let ?names = "primary_name sc # fallback_names sc" and ?n = "nat (cs_max_retries sc + 1)"
  obtain name where name: "name \<in> set ?names" "\<And>k d caches. provider_day sc world name k d caches = (caches, Inr (deterministic_day d))"
    using computed_asked [of sc] by blast
  have n: "0 < ?n" using assms(1) by simp
  let ?days = "map (\<lambda>name k. provider_day sc world name k d) ?names"
  let ?ranges = "map (\<lambda>name k. provider_range sc world name k start_date end_date) ?names"
  have "caches_ok (fst (cascade ?n ?days caches)) \<and> (\<forall>v. snd (cascade ?n ?days caches) = Inr v \<longrightarrow> day_ok d v)"
    by (rule cascade_kept) (use assms(2) provider.keeps provider.answers in \<open>auto simp: keeps_run_def\<close>)
  moreover have "\<exists>v. snd (cascade ?n ?days caches) = Inr v"
    by (rule cascade_answered [OF n, of "\<lambda>k. provider_day sc world name k d"]) (use name in auto)
  ultimately obtain m where m: "snd (cascade ?n ?days caches) = Inr m" "day_ok d m" "caches_ok (fst (cascade ?n ?days caches))" by blast
  have "caches_ok (fst (cascade ?n ?ranges caches))
      \<and> (\<forall>v. snd (cascade ?n ?ranges caches) = Inr v \<longrightarrow> list_all2 day_ok [start_date..end_date] v)"
    by (rule cascade_kept) (use assms(2) provider.range_kept provider.range_answered in \<open>auto simp: keeps_run_def provider_range_def\<close>)
  moreover have "provider_day sc world name 0 = (\<lambda>d s. (s, Inr (deterministic_day d)))" using name(2) by (intro ext) simp
  then have "\<exists>v. snd (cascade ?n ?ranges caches) = Inr v"
    by (intro cascade_answered [OF n, of "\<lambda>k. provider_range sc world name k start_date end_date"])
      (use name(1) in \<open>auto simp: provider_range_def computed_range\<close>)
  ultimately obtain ms where ms: "snd (cascade ?n ?ranges caches) = Inr ms" "list_all2 day_ok [start_date..end_date] ms"
      "caches_ok (fst (cascade ?n ?ranges caches))" by blast
  have "composite_day sc world d caches = (fst (cascade ?n ?days caches), Inr m)"
    unfolding composite_day_def by (subst ainvoke_snd [where v = m]) (use m(1) in \<open>simp_all add: comp_def\<close>)
  moreover have "composite_range sc world start_date end_date caches = (fst (cascade ?n ?ranges caches), Inr ms)"
    unfolding composite_range_def by (subst ainvoke_snd [where v = ms]) (use ms(1) in \<open>simp_all add: comp_def\<close>)
  ultimately show ?thesis using m(2,3) ms(2,3) by blast
qed

text \<open>Without a client, with a placeholder key and from empty caches.\<close>

definition demo_setup :: calendar_setup where
  "demo_setup = \<lparr>cs_primary_provider = ''Alpaca '', cs_fallback_providers = Some [''finnhub''], cs_max_retries = 1,
     cs_api_key = Some ''your_key'', cs_cache_ttl = 3600\<rparr>"

definition demo_calendar_world :: calendar_world where
  "demo_calendar_world = \<lparr>cw_alpaca = \<lambda>_. None, cw_finnhub = \<lambda>_ _. Inl (''ConnectError'', []), cw_clock = \<lambda>_ _. (0, 0), cw_fromiso = \<lambda>_. None\<rparr>"

definition no_caches :: calendar_caches where
  "no_caches = \<lparr>cc_alpaca = \<lparr>ac_annual = Map.empty, ac_stamps = Map.empty\<rparr>, cc_finnhub = \<lparr>fc_holidays = None, fc_stamp = None\<rparr>\<rparr>"

theorem composite_calendar_answers_witness:
  "\<exists>caches1 m. composite_day demo_setup demo_calendar_world (ymd 2026 7 3) no_caches = (caches1, Inr m) \<and> day_ok (ymd 2026 7 3) m"
proof -
  have "0 \<le> cs_max_retries demo_setup" "caches_ok no_caches"
    by (simp_all add: demo_setup_def caches_ok_def alpaca_ok_def finnhub_ok_def no_caches_def)
  then show ?thesis using composite_calendar_answers [of demo_setup no_caches demo_calendar_world "ymd 2026 7 3" 1 1] by blast
qed

end
