(* ===== verification/Outbox.thy ===== *)
theory Outbox
  imports Entry_Queue
begin

text \<open>
  Notification delivery (\<open>notifier/outbox.py\<close>): the dispatcher claims one item, delivers it, and records
  the outcome under the claim's token; a lost worker's claim lapses and is taken again, until the
  attempt budget is spent. The notifier (\<open>notifier/telegram_bot.py\<close> and the message formatting) is a
  record of functions; an exception is the name of its type. Durations are whole microseconds.
\<close>

record outbox_policy =
  ob_lease :: int
  ob_max_attempts :: nat
  ob_retry :: int
  ob_max_retry :: int
  ob_batch :: nat

type_synonym note_args = "(string \<times> ftext) list"

text \<open>A send returns its acknowledgement, nothing, or raises.\<close>

type_synonym acknowledgement = "string + ftext option"

record notifier =
  nt_configured :: bool
  nt_send_message :: "ftext \<Rightarrow> acknowledgement"
  nt_operational :: "note_args \<Rightarrow> acknowledgement"
  nt_summary :: "note_args \<Rightarrow> acknowledgement"
  nt_exit :: "note_args \<Rightarrow> acknowledgement"
  nt_stop :: "note_args \<Rightarrow> acknowledgement"
  nt_signal :: "note_args \<Rightarrow> acknowledgement"
  nt_card_expired :: "note_args \<Rightarrow> acknowledgement"
  nt_card_auto_entered :: "note_args \<Rightarrow> acknowledgement"

definition publish_message :: "ftext \<Rightarrow> ftext option \<Rightarrow> string \<Rightarrow> string \<Rightarrow> int \<Rightarrow> wf_state \<Rightarrow> wf_state" where
  "publish_message body key uuid fresh now st =
     notify (case key of Some k \<Rightarrow> if k = [] then [Lit uuid] else k | None \<Rightarrow> [Lit uuid]) ''message''
       [(''text'', body), (''formatted'', msg ''True'')] fresh now st"

definition NOTIFICATION_KINDS :: "string list" where
  "NOTIFICATION_KINDS = [''message'', ''operational'', ''exit'', ''signal'', ''stop'', ''card_expired'',
     ''card_auto_entered'', ''operations_summary'']"

text \<open>\<open>html.escape\<close>: only literal text can hold the escaped characters.\<close>

fun escape_char :: "char \<Rightarrow> string" where
  "escape_char c = (if c = CHR ''&'' then ''&amp;'' else if c = CHR ''<'' then ''&lt;'' else if c = CHR ''>'' then ''&gt;''
     else if c = CHR 0x22 then ''&quot;'' else if c = CHR 0x27 then ''&#x27;'' else [c])"

fun escape_part :: "fpart \<Rightarrow> fpart" where
  "escape_part (Lit s) = Lit (concat (map escape_char s))"
| "escape_part p = p"

definition html_escape :: "ftext \<Rightarrow> ftext" where
  "html_escape t = map escape_part t"

definition deliver :: "notifier \<Rightarrow> string \<Rightarrow> note_args \<Rightarrow> acknowledgement" where
  "deliver nt kind args =
     (if kind = ''operational'' then nt_operational nt args
      else if kind = ''operations_summary'' then nt_summary nt args
      else if kind = ''exit'' then nt_exit nt args
      else if kind = ''stop'' then nt_stop nt args
      else if kind = ''signal'' then nt_signal nt args
      else if kind = ''card_expired'' then nt_card_expired nt args
      else if kind = ''card_auto_entered'' then nt_card_auto_entered nt args
      else case map_of args ''text'' of
        None \<Rightarrow> Inl ''KeyError''
      | Some body \<Rightarrow> nt_send_message nt (if map_of args ''formatted'' = Some (msg ''True'') then body else html_escape body))"

text \<open>Whether the attempt delivered, and the recorded detail.\<close>

definition delivery_outcome :: "notifier \<Rightarrow> string \<Rightarrow> note_args \<Rightarrow> bool \<times> ftext" where
  "delivery_outcome nt kind args =
     (case (if kind \<in> set NOTIFICATION_KINDS then deliver nt kind args else Inl ''ValueError'') of
        Inl type_name \<Rightarrow> (False, msg type_name)
      | Inr r \<Rightarrow> (case shown_text r of None \<Rightarrow> (False, msg ''Delivery not acknowledged'') | Some t \<Rightarrow> (True, t)))"

definition retry_delay :: "outbox_policy \<Rightarrow> nat \<Rightarrow> int" where
  "retry_delay policy attempts = min (ob_max_retry policy) (ob_retry policy * 2 ^ min (attempts - 1) 30)"

text \<open>
  One dispatch. Its two transactions are apart in time: \<open>meanwhile\<close> is what other processes commit
  between them. A raise keeps what was committed.
\<close>

record dispatch_turn =
  dt_notifier :: notifier
  dt_token :: string
  dt_claimed_at :: int
  dt_meanwhile :: "wf_state \<Rightarrow> wf_state"
  dt_finished_at :: int

definition dispatch_note :: "outbox_policy \<Rightarrow> dispatch_turn \<Rightarrow> wf_state \<Rightarrow> wf_state \<times> bool result" where
  "dispatch_note policy turn st =
     (if \<not> nt_configured (dt_notifier turn) then (st, Ok False)
      else case claim_notification (ob_lease policy) (ob_max_attempts policy) (dt_token turn) (dt_claimed_at turn) st of
        (st1, None) \<Rightarrow> (st1, Ok False)
      | (st1, Some item) \<Rightarrow>
          (case w_payload item of
             NotePayload kind args \<Rightarrow>
               (case delivery_outcome (dt_notifier turn) kind args of (delivered, detail) \<Rightarrow>
                case finish_notification item delivered (ob_max_attempts policy) (retry_delay policy (w_attempts item))
                       detail (dt_finished_at turn) (dt_meanwhile turn st1) of
                  (st2, saved) \<Rightarrow>
                    (if saved \<and> kind = ''exit''
                     then record_audit ''exit_notification'' None
                            [(''outbox_id'', w_id item), (''delivered'', if delivered then ''True'' else ''False'')] st2
                     else st2, Ok True))
           | _ \<Rightarrow> (st1, Raise (KeyError ''kind''))))"

text \<open>\<open>drain\<close>: at most a batch of dispatches, until one finds nothing to do.\<close>

fun drain_loop :: "outbox_policy \<Rightarrow> (nat \<Rightarrow> dispatch_turn) \<Rightarrow> nat \<Rightarrow> nat \<Rightarrow> wf_state \<Rightarrow> wf_state \<times> nat result" where
  "drain_loop policy turns 0 count st = (st, Ok count)"
| "drain_loop policy turns (Suc n) count st =
     (case dispatch_note policy (turns count) st of
        (st1, Inl e) \<Rightarrow> (st1, Raise e)
      | (st1, Inr False) \<Rightarrow> (st1, Ok count)
      | (st1, Inr True) \<Rightarrow> drain_loop policy turns n (Suc count) st1)"

definition drain :: "outbox_policy \<Rightarrow> (nat \<Rightarrow> dispatch_turn) \<Rightarrow> wf_state \<Rightarrow> wf_state \<times> nat result" where
  "drain policy turns st = drain_loop policy turns (ob_batch policy) 0 st"

subsection \<open>Delivery ends\<close>

text \<open>
  The steps of any number of workers on the outbox: a claim that finds something to do, and a result
  that is accepted. A worker may be lost between them, and clocks are arbitrary.
\<close>

inductive outbox_step :: "nat \<Rightarrow> wf_state \<Rightarrow> wf_state \<Rightarrow> bool" for maxa :: nat where
  claimed: "claim_notification lease maxa token now st = (st', r) \<Longrightarrow> head_item (claimable_note now) st \<noteq> None
    \<Longrightarrow> outbox_step maxa st st'"
| finished: "finish_notification item ok maxa retry detail now st = (st', True)
    \<Longrightarrow> \<forall>w \<in> set (wf_items st). w_id w = w_id item \<longrightarrow> w_kind w = Notification \<Longrightarrow> outbox_step maxa st st'"

text \<open>What a notification can still cost: two steps per attempt left, and what its state adds.\<close>

definition note_budget :: "nat \<Rightarrow> work_item \<Rightarrow> nat" where
  "note_budget maxa w = (if w_kind w \<noteq> Notification then 0 else (case w_status w of
     Queued \<Rightarrow> 2 * (maxa - w_attempts w) + 1 | Checking \<Rightarrow> 2 * (maxa - w_attempts w) + 2 | _ \<Rightarrow> 0))"

definition outbox_budget :: "nat \<Rightarrow> wf_state \<Rightarrow> nat" where
  "outbox_budget maxa st = sum_list (map (note_budget maxa) (wf_items st))"

definition note_ok :: "work_item \<Rightarrow> bool" where
  "note_ok w = (w_kind w = Notification \<longrightarrow> w_status w \<in> {Queued, Checking, Delivered, Dead}
     \<and> (w_status w = Checking \<longrightarrow> w_lease_until w \<noteq> None))"

definition outbox_ok :: "wf_state \<Rightarrow> bool" where
  "outbox_ok st = (distinct (map w_id (wf_items st)) \<and> list_all note_ok (wf_items st))"

lemma items_update [simp]: "wf_items (update_item i f st) = map (\<lambda>w. if w_id w = i then f w else w) (wf_items st)"
  by (simp add: update_item_def)

lemma sum_list_update_less:
  assumes "distinct (map w_id ws)" and "w \<in> set ws" and "f w' < (f w :: nat)"
  shows "sum_list (map f (map (\<lambda>x. if w_id x = w_id w then w' else x) ws)) < sum_list (map f ws)"
  using assms
proof (induction ws)
  case (Cons a ws)
  show ?case
  proof (cases "a = w")
    case True
    have "map (\<lambda>x. if w_id x = w_id w then w' else x) ws = ws"
      using Cons.prems(1) True by (intro map_idI) (auto simp: image_iff)
    then show ?thesis using True Cons.prems(3) by (simp cong: map_cong)
  next
    case False
    then have "w \<in> set ws" "w_id a \<noteq> w_id w" using Cons.prems by (auto simp: image_iff)
    then show ?thesis using Cons by simp
  qed
qed simp

text \<open>One update of a notification, keeping the table well formed and spending budget.\<close>

lemma outbox_update:
  assumes ok: "outbox_ok st" and w: "w \<in> set (wf_items st)" and same: "w_id w' = w_id w" "note_ok w'"
    and less: "note_budget maxa w' < note_budget maxa w"
    and st': "wf_items st' = wf_items (update_item (w_id w) (\<lambda>_. w') st)"
  shows "outbox_ok st' \<and> outbox_budget maxa st' < outbox_budget maxa st"
proof
  have ids: "map w_id (wf_items st') = map w_id (wf_items st)" using same(1) st' by auto
  have "distinct (map w_id (wf_items st'))" unfolding ids using ok by (simp add: outbox_ok_def)
  moreover have "list_all note_ok (wf_items st')" using ok same(2) st' by (auto simp: outbox_ok_def list_all_iff)
  ultimately show "outbox_ok st'" by (simp add: outbox_ok_def)
  show "outbox_budget maxa st' < outbox_budget maxa st"
    unfolding outbox_budget_def st' items_update using ok w less sum_list_update_less
    by (auto simp: outbox_ok_def simp del: map_map)
qed

lemma claim_spends:
  assumes "outbox_ok st" and "claim_notification lease maxa token now st = (st', r)" and "head_item (claimable_note now) st \<noteq> None"
  shows "outbox_ok st' \<and> outbox_budget maxa st' < outbox_budget maxa st"
proof -
  obtain w where w: "head_item (claimable_note now) st = Some w" using assms(3) by blast
  have mem: "w \<in> set (wf_items st)" and cl: "claimable_note now w" using head_item_Some [OF w] by auto
  show ?thesis
  proof (cases "w_attempts w \<ge> maxa")
    case True
    let ?w = "w\<lparr>w_status := Dead, w_result := NoteDetail (msg ''Delivery attempt budget exhausted after worker loss'')\<rparr>"
    show ?thesis
      by (rule outbox_update [where w = w and w' = ?w])
        (use assms(1,2) w mem cl True in \<open>auto simp: claim_notification_def note_ok_def note_budget_def claimable_note_def Let_def\<close>)
  next
    case False
    let ?w = "w\<lparr>w_status := Checking, w_token := Some token, w_lease_until := Some (now + lease), w_attempts := Suc (w_attempts w)\<rparr>"
    show ?thesis
      by (rule outbox_update [where w = w and w' = ?w])
        (use assms(1,2) w mem cl False in \<open>auto simp: claim_notification_def note_ok_def note_budget_def claimable_note_def Let_def\<close>)
  qed
qed

lemma finish_spends:
  assumes "outbox_ok st" and "finish_notification item ok maxa retry detail now st = (st', True)"
    and "\<forall>w \<in> set (wf_items st). w_id w = w_id item \<longrightarrow> w_kind w = Notification"
  shows "outbox_ok st' \<and> outbox_budget maxa st' < outbox_budget maxa st"
proof -
  let ?p = "\<lambda>w. w_id w = w_id item \<and> w_token w = w_token item \<and> w_status w = Checking"
  obtain w where w: "find_item ?p st = Some w"
    using assms(2) by (auto simp: finish_notification_def Let_def split: option.splits)
  have mem: "w \<in> set (wf_items st)" and p: "?p w" using find_item_Some [OF w] by auto
  define s where "s = (if ok then Delivered else if w_attempts w \<ge> maxa then Dead else Queued)"
  let ?w = "w\<lparr>w_status := s, w_result := NoteDetail detail, w_available_at := now + retry, w_lease_until := None\<rparr>"
  show ?thesis
    by (rule outbox_update [where w = w and w' = ?w])
      (use assms w mem p in \<open>auto simp: finish_notification_def note_ok_def note_budget_def s_def Let_def\<close>)
qed

lemma outbox_step_spends: "outbox_step maxa st st' \<Longrightarrow> outbox_ok st \<Longrightarrow> outbox_ok st' \<and> outbox_budget maxa st' < outbox_budget maxa st"
proof (induction rule: outbox_step.induct)
  case (claimed lease token now st st' r)
  then show ?case by (intro claim_spends)
next
  case (finished item ok retry detail now st st')
  then show ?case by (intro finish_spends)
qed

lemma outbox_run_spends:
  "(outbox_step maxa ^^ n) st st' \<Longrightarrow> outbox_ok st \<Longrightarrow> outbox_ok st' \<and> n + outbox_budget maxa st' \<le> outbox_budget maxa st"
proof (induction n arbitrary: st')
  case (Suc n)
  then obtain s where "(outbox_step maxa ^^ n) st s" "outbox_step maxa s st'" by auto
  then show ?case using Suc outbox_step_spends by fastforce
qed simp

lemma outbox_budget_bound: "outbox_budget maxa st \<le> (2 * maxa + 2) * length (wf_items st)"
proof -
  have "note_budget maxa w \<le> 2 * maxa + 2" for w by (auto simp: note_budget_def split: work_status.splits)
  then have "sum_list (map (note_budget maxa) ws) \<le> sum_list (map (\<lambda>_. 2 * maxa + 2) ws)" for ws by (intro sum_list_mono)
  then show ?thesis by (simp add: outbox_budget_def sum_list_triv mult.commute)
qed

text \<open>An unsettled notification can be claimed at some time.\<close>

lemma unsettled_claimable:
  assumes "outbox_ok st" and "w \<in> set (wf_items st)" and "w_kind w = Notification" and "w_status w \<notin> {Delivered, Dead}"
  shows "\<exists>now. head_item (claimable_note now) st \<noteq> None"
proof -
  have ok: "note_ok w" using assms(1,2) by (auto simp: outbox_ok_def list_all_iff)
  obtain now where "claimable_note now w"
  proof (cases "w_status w = Queued")
    case True
    then have "claimable_note (w_available_at w) w" using assms(3) by (simp add: claimable_note_def)
    then show thesis by (rule that)
  next
    case False
    then have "w_status w = Checking" using ok assms(3,4) by (auto simp: note_ok_def)
    then obtain t where "w_lease_until w = Some t" using ok assms(3) by (auto simp: note_ok_def)
    then have "claimable_note t w" using \<open>w_status w = Checking\<close> assms(3) by (simp add: claimable_note_def)
    then show thesis by (rule that)
  qed
  then have "sort_key w_sequence (filter (claimable_note now) (wf_items st)) \<noteq> []"
    using assms(2) by (metis (no_types, lifting) empty_iff list.set(1) mem_Collect_eq set_filter set_sort)
  then have "head_item (claimable_note now) st \<noteq> None" by (auto simp: head_item_def split: list.splits)
  then show ?thesis ..
qed

text \<open>The retry delay is the policy's first delay doubled per attempt, and never above its bound.\<close>

lemma retry_delay_bounds:
  assumes "0 < ob_retry policy" and "ob_retry policy \<le> ob_max_retry policy"
  shows "ob_retry policy \<le> retry_delay policy n" and "retry_delay policy n \<le> ob_max_retry policy"
    and "n \<le> m \<Longrightarrow> retry_delay policy n \<le> retry_delay policy m"
proof -
  have "ob_retry policy * 1 \<le> ob_retry policy * 2 ^ k" for k using assms(1) by (intro mult_left_mono) simp_all
  then show "ob_retry policy \<le> retry_delay policy n" using assms(2) by (auto simp: retry_delay_def)
  show "retry_delay policy n \<le> ob_max_retry policy" by (simp add: retry_delay_def)
  assume "n \<le> m"
  then have "ob_retry policy * 2 ^ min (n - 1) 30 \<le> ob_retry policy * 2 ^ min (m - 1) 30"
    using assms(1) by (intro mult_left_mono power_increasing) (auto intro: min.coboundedI1)
  then show "retry_delay policy n \<le> retry_delay policy m" unfolding retry_delay_def by (intro min.mono) simp_all
qed

text \<open>A worker whose claim was taken over reports nothing.\<close>

lemma lost_claim_reports_nothing:
  assumes "claim_notification (ob_lease policy) (ob_max_attempts policy) (dt_token turn) (dt_claimed_at turn) st = (st1, Some item)"
    and "\<And>w. w \<in> set (wf_items (dt_meanwhile turn st1)) \<Longrightarrow> w_id w = w_id item \<Longrightarrow> w_token w \<noteq> w_token item \<or> w_status w \<noteq> Checking"
    and "nt_configured (dt_notifier turn)" and "w_payload item = NotePayload kind args"
  shows "dispatch_note policy turn st = (dt_meanwhile turn st1, Ok True)"
proof -
  have "find_item (\<lambda>w. w_id w = w_id item \<and> w_token w = w_token item \<and> w_status w = Checking) (dt_meanwhile turn st1) = None"
    using assms(2) by (auto simp: find_item_def find_None_iff)
  then show ?thesis using assms(1,3,4) by (simp add: dispatch_note_def finish_notification_def split: prod.splits)
qed

lemma drain_loop_bounded: "snd (drain_loop policy turns n c st) = Ok k \<Longrightarrow> c \<le> k \<and> k \<le> c + n"
  by (induction n arbitrary: c st) (fastforce split: prod.splits sum.splits bool.splits)+

lemma drain_bounded: "snd (drain policy turns st) = Ok k \<Longrightarrow> k \<le> ob_batch policy"
  unfolding drain_def using drain_loop_bounded by fastforce

lemma stuck_outbox_settled:
  assumes "outbox_ok st" and "\<nexists>st'. outbox_step maxa st st'"
  shows "list_all (\<lambda>w. w_kind w = Notification \<longrightarrow> w_status w \<in> {Delivered, Dead}) (wf_items st)"
proof (rule ccontr)
  assume "\<not> ?thesis"
  then obtain w where "w \<in> set (wf_items st)" "w_kind w = Notification" "w_status w \<notin> {Delivered, Dead}"
    by (auto simp: list_all_iff)
  then obtain now where "head_item (claimable_note now) st \<noteq> None" using unsettled_claimable [OF assms(1)] by blast
  moreover obtain st' r where "claim_notification 0 maxa [] now st = (st', r)" by fastforce
  ultimately show False using assms(2) claimed by blast
qed

text \<open>
  C30. Delivery ends. However many workers share the outbox, whatever their clocks say and however many
  of them are lost between a claim and its result, a run of effective steps is never longer than the
  outstanding attempt budget, which is at most two steps per allowed attempt and two more for each
  item; and a run that cannot go on has left every notification delivered or dead.
\<close>

theorem outbox_settles:
  assumes "outbox_ok st" and "(outbox_step maxa ^^ n) st st'"
  shows "n \<le> outbox_budget maxa st \<and> outbox_budget maxa st \<le> (2 * maxa + 2) * length (wf_items st)
    \<and> ((\<nexists>s. outbox_step maxa st' s)
         \<longrightarrow> list_all (\<lambda>w. w_kind w = Notification \<longrightarrow> w_status w \<in> {Delivered, Dead}) (wf_items st'))"
  using outbox_run_spends [OF assms(2,1)] outbox_budget_bound [of maxa st] stuck_outbox_settled [of st' maxa] by auto

text \<open>An outbox with one notice, claimed and delivered.\<close>

definition demo_note :: work_item where
  "demo_note = \<lparr>w_id = ''n1'', w_sequence = 0, w_dedup = msg ''k'', w_kind = Notification, w_status = Queued,
     w_payload = NotePayload ''message'' [(''text'', msg ''hello'')], w_result = NoResult, w_attempts = 0, w_token = None,
     w_lease_until = None, w_available_at = 0, w_created_at = 0\<rparr>"

definition demo_outbox :: wf_state where
  "demo_outbox = \<lparr>wf_signals = [], wf_quarantined = [], wf_items = [demo_note], wf_events = [], wf_next = 1, wf_halted = None,
     wf_halt_reason = None, wf_closes = [], wf_audit = [], wf_orders = [],
     wf_ledger = \<lparr>st_row = None, st_views = [], st_events = [], st_next = 0\<rparr>, wf_alpha = demo_registry,
     wf_broker_account = False\<rparr>"

lemma demo_note_claimed:
  "claim_notification 120000000 8 ''t1'' 5 demo_outbox
     = (appended (note_stream ''n1'') ''notification_attempt'' (PItem ''checking'' 1)
          (demo_outbox\<lparr>wf_items := [demo_note\<lparr>w_status := Checking, w_token := Some ''t1'', w_lease_until := Some 120000005,
             w_attempts := 1\<rparr>]\<rparr>),
        Some (demo_note\<lparr>w_status := Checking, w_token := Some ''t1'', w_lease_until := Some 120000005, w_attempts := 1\<rparr>))"
  by (simp add: claim_notification_def head_item_def claimable_note_def demo_outbox_def demo_note_def update_item_def Let_def)

theorem outbox_settles_witness:
  "\<exists>st' :: wf_state. (outbox_step 8 ^^ 1) demo_outbox st' \<and> w_status (hd (wf_items st')) = Checking
     \<and> 1 \<le> outbox_budget 8 demo_outbox \<and> outbox_budget 8 demo_outbox \<le> 18"
proof -
  let ?st = "fst (claim_notification 120000000 8 ''t1'' 5 demo_outbox)"
  have "head_item (claimable_note 5) demo_outbox \<noteq> None"
    by (simp add: head_item_def claimable_note_def demo_outbox_def demo_note_def)
  then have "outbox_step 8 demo_outbox ?st" by (intro claimed [OF prod.collapse [symmetric]])
  then have run: "(outbox_step 8 ^^ 1) demo_outbox ?st" by (simp add: eq_OO)
  have ok: "outbox_ok demo_outbox" by (simp add: outbox_ok_def note_ok_def demo_outbox_def demo_note_def)
  have "length (wf_items demo_outbox) = 1" by (simp add: demo_outbox_def)
  moreover have "w_status (hd (wf_items ?st)) = Checking" by (simp add: demo_note_claimed)
  ultimately show ?thesis using outbox_settles [OF ok run] run by auto
qed

end
