(* ===== verification/Slicer.thy ===== *)
theory Slicer
  imports Workflow_Store
begin

text \<open>
  Order slicing (\<open>execution/slicer.py\<close>, \<open>execution/models.py\<close>) and the execution engine
  (\<open>execution/engine.py\<close>). The broker and the quote reader are functions of the request; random
  identifiers are arguments; the pauses between slices have no effect on the result.
\<close>

subsection \<open>Plans\<close>

datatype slice_status = SlicePending | SliceSubmitted | SliceFilled | SlicePartiallyFilled | SliceFailed | SliceSkippedCollar

record child_slice =
  cs_id :: string
  cs_index :: nat
  cs_quantity :: pyfloat
  cs_target_price :: pyfloat
  cs_limit_price :: pyfloat
  cs_status :: slice_status

record execution_plan =
  ep_plan_id :: string
  ep_request :: order_request
  ep_algorithm :: string
  ep_total_quantity :: pyfloat
  ep_slices :: "child_slice list"

text \<open>The execution settings the slicer reads, and the tick sizes of the configured contracts.\<close>

record slicing_config =
  sc_algorithm :: string
  sc_min_slice_futures :: pyfloat
  sc_min_slice_equity :: pyfloat
  sc_twap_slices :: int
  sc_collar_ticks :: pyfloat
  sc_collar_pct :: pyfloat
  sc_vwap_profile :: "pyfloat list"
  sc_tick_size :: "string \<Rightarrow> pyfloat option"

definition is_long :: "string \<Rightarrow> bool" where
  "is_long direction = (upper direction \<in> {''LONG'', ''BUY''})"

definition compute_price_collar :: "string \<Rightarrow> pyfloat \<Rightarrow> pyfloat \<Rightarrow> string \<Rightarrow> slicing_config \<Rightarrow> pyfloat result" where
  "compute_price_collar direction entry tick asset_class config =
     (let points = (if asset_class = FUTURES then sc_collar_ticks config * tick else py_max (sc_collar_pct config * entry) tick);
          raw = (if is_long direction then entry + points else entry - points)
      in bindr (fdiv raw tick) (\<lambda>q. bindr (round_int q) (\<lambda>ticks. bindr (float_of_int ticks) (\<lambda>t. Ok (py_round 2 (t * tick))))))"

subsection \<open>Quantities\<close>

text \<open>
  The correction of rounded allocations: one unit at a time, round robin over the slices; a profile
  shorter than the slices is indexed out of range.
\<close>

fun nudge :: "int \<Rightarrow> nat \<Rightarrow> nat \<Rightarrow> nat \<Rightarrow> int list \<Rightarrow> int list option" where
  "nudge step slices 0 i raw = Some raw"
| "nudge step slices (Suc n) i raw =
     (let k = i mod slices in if k < length raw then nudge step slices n (Suc i) (raw[k := raw ! k + step]) else None)"

definition even_slices :: "int \<Rightarrow> int \<Rightarrow> int list" where
  "even_slices amount slices = map (\<lambda>i. amount div slices + (if int i < amount mod slices then 1 else 0)) [0..<nat slices]"

definition weighted_allocations :: "int \<Rightarrow> int \<Rightarrow> pyfloat list \<Rightarrow> (string + int list)" where
  "weighted_allocations amount slices weights =
     (let ws = take (nat slices) weights
      in case bindr (mapr (\<lambda>w. fdiv w (py_sum ws)) ws) (\<lambda>norm.
           bindr (float_of_int amount) (\<lambda>t. mapr (\<lambda>w. round_int (w * t)) norm)) of
           Inl e \<Rightarrow> Inl (exc_name e)
         | Inr raw \<Rightarrow>
             let diff = amount - sum_list raw
             in (case nudge (if diff > 0 then 1 else - 1) (nat slices) (nat \<bar>diff\<bar>) 0 raw of
                   None \<Rightarrow> Inl ''IndexError'' | Some allocations \<Rightarrow> Inr allocations))"

definition integer_slices :: "int \<Rightarrow> int \<Rightarrow> pyfloat list option \<Rightarrow> (string + int list)" where
  "integer_slices amount num_slices weights =
     (let slices = min num_slices amount
      in if slices \<le> 1 then Inr [amount]
         else case weights of
           None \<Rightarrow> Inr (even_slices amount slices)
         | Some ws \<Rightarrow> (case weighted_allocations amount slices ws of Inl e \<Rightarrow> Inl e | Inr qs \<Rightarrow> Inr (map (max 1) qs)))"

definition named :: "'a result \<Rightarrow> string + 'a" where
  "named m = (case m of Inl e \<Rightarrow> Inl (exc_name e) | Inr x \<Rightarrow> Inr x)"

definition slice_quantities :: "pyfloat \<Rightarrow> int \<Rightarrow> bool \<Rightarrow> pyfloat list option \<Rightarrow> (string + pyfloat list)" where
  "slice_quantities amount num_slices is_integer_asset weights =
     (if num_slices \<le> 1 \<or> amount \<le> 0 then Inr [amount]
      else if is_integer_asset
      then bindr (named (round_int amount)) (\<lambda>int_total.
           bindr (integer_slices int_total num_slices weights) (\<lambda>qs. named (mapr float_of_int qs)))
      else case weights of
        None \<Rightarrow> named (bindr (float_of_int num_slices) (\<lambda>n. bindr (fdiv amount n) (\<lambda>q.
                  Ok (replicate (nat num_slices) (py_round 2 q)))))
      | Some ws \<Rightarrow>
          let sub = take (nat num_slices) ws
          in named (mapr (\<lambda>w. bindr (fdiv w (py_sum sub)) (\<lambda>x. Ok (py_round 2 (x * amount)))) sub))"

subsection \<open>Planning\<close>

fun digit_text :: "nat \<Rightarrow> string" where
  "digit_text n = (if n < 10 then [char_of (48 + n)] else digit_text (n div 10) @ [char_of (48 + n mod 10)])"

definition slice_name :: "string \<Rightarrow> nat \<Rightarrow> string" where
  "slice_name plan_id i = plan_id @ ''_'' @ digit_text i"

definition planned_slice :: "string \<Rightarrow> pyfloat \<Rightarrow> pyfloat \<Rightarrow> nat \<times> pyfloat \<Rightarrow> child_slice" where
  "planned_slice plan_id entry limit p = \<lparr>cs_id = slice_name plan_id (fst p), cs_index = fst p, cs_quantity = snd p,
     cs_target_price = entry, cs_limit_price = limit, cs_status = SlicePending\<rparr>"

definition plan_order :: "slicing_config \<Rightarrow> string \<Rightarrow> order_request \<Rightarrow> (string + execution_plan)" where
  "plan_order config fresh request =
     (let algo = strip (lower (sc_algorithm config));
          tick = (case sc_tick_size config (rq_symbol request) of Some t \<Rightarrow> t
                  | None \<Rightarrow> if rq_asset_class request = EQUITY then b64 (1 / 100) else Num (1 / 4));
          entry = (case rq_entry_price request of Some p \<Rightarrow> p | None \<Rightarrow> 0);
          plan_id = ''plan_'' @ fresh;
          futures = (rq_asset_class request = FUTURES);
          threshold = (if futures then sc_min_slice_futures config else sc_min_slice_equity config);
          limit = compute_price_collar (rq_direction request) entry tick (rq_asset_class request) config;
          plan = (\<lambda>name slices. \<lparr>ep_plan_id = plan_id, ep_request = request, ep_algorithm = name,
                    ep_total_quantity = rq_quantity request, ep_slices = slices\<rparr>)
      in if algo = ''immediate'' \<or> rq_quantity request < threshold \<or> entry \<le> 0
         then bindr (if entry > 0 then named limit else Inr entry) (\<lambda>price.
              Inr (plan ''immediate'' [planned_slice plan_id entry price (0, rq_quantity request)]))
         else bindr (slice_quantities (rq_quantity request) (max 2 (sc_twap_slices config)) futures
                       (if algo = ''vwap'' then Some (sc_vwap_profile config) else None)) (\<lambda>quantities.
              bindr (named limit) (\<lambda>price.
              Inr (plan algo (map (planned_slice plan_id entry price) (filter (\<lambda>p. snd p > 0) (enumerate 0 quantities)))))))"

subsection \<open>Execution\<close>

text \<open>The child order of a slice: a plain limit order, without a bracket of its own.\<close>

definition child_request :: "order_request \<Rightarrow> child_slice \<Rightarrow> order_request" where
  "child_request r s = \<lparr>rq_symbol = rq_symbol r, rq_asset_class = rq_asset_class r, rq_direction = rq_direction r,
     rq_side = Some (if is_long (rq_direction r) then BUY else SELL), rq_quantity = cs_quantity s, rq_order_type = ''LIMIT'',
     rq_order_class = ''SIMPLE'', rq_time_in_force = ''GTC'', rq_entry_price = Some (cs_limit_price s), rq_stop_loss = None,
     rq_take_profit = None, rq_signal_id = rq_signal_id r, rq_client_order_id = Some (cs_id s)\<rparr>"

text \<open>A quote that fails or is missing does not hold a slice back.\<close>

definition collar_breached :: "bool \<Rightarrow> pyfloat \<Rightarrow> string + pyfloat option \<Rightarrow> bool" where
  "collar_breached long limit quote = (case quote of
     Inr (Some p) \<Rightarrow> long \<and> p > limit \<or> \<not> long \<and> p < limit | _ \<Rightarrow> False)"

record fills =
  fl_quantity :: pyfloat
  fl_cost :: pyfloat
  fl_order_ids :: "string list"
  fl_calls :: "order_request list"
  fl_slices :: "child_slice list"

definition filled_price :: "order_result \<Rightarrow> pyfloat \<Rightarrow> pyfloat" where
  "filled_price r limit = (case or_fill_price r of Some p \<Rightarrow> if feq p 0 then limit else p | None \<Rightarrow> limit)"

definition slice_step ::
  "order_request \<Rightarrow> (nat \<Rightarrow> string + pyfloat option) \<Rightarrow> (order_request \<Rightarrow> string + order_result) \<Rightarrow> fills \<Rightarrow> child_slice \<Rightarrow> fills" where
  "slice_step r quote submit f s =
     (if collar_breached (is_long (rq_direction r)) (cs_limit_price s) (quote (cs_index s))
      then f\<lparr>fl_slices := fl_slices f @ [s\<lparr>cs_status := SliceSkippedCollar\<rparr>]\<rparr>
      else let child = child_request r s; f1 = f\<lparr>fl_calls := fl_calls f @ [child]\<rparr>;
               failed = f1\<lparr>fl_slices := fl_slices f @ [s\<lparr>cs_status := SliceFailed\<rparr>]\<rparr>
           in case submit child of
                Inl _ \<Rightarrow> failed
              | Inr res \<Rightarrow>
                  if \<not> or_success res then failed
                  else f1\<lparr>fl_slices := fl_slices f @ [s\<lparr>cs_status := SliceFilled\<rparr>],
                         fl_quantity := fl_quantity f + cs_quantity s,
                         fl_cost := fl_cost f + filled_price res (cs_limit_price s) * cs_quantity s,
                         fl_order_ids := fl_order_ids f @ (if set_text (or_order_id res) then [the (or_order_id res)] else [])\<rparr>)"

definition no_fills :: fills where
  "no_fills = \<lparr>fl_quantity = 0, fl_cost = 0, fl_order_ids = [], fl_calls = [], fl_slices = []\<rparr>"

definition refused_result :: "ftext \<Rightarrow> order_result" where
  "refused_result t = \<lparr>or_success = False, or_order_id = None, or_fill_price = None, or_error_message = Some t,
     or_submission_uncertain = False\<rparr>"

text \<open>The requests handed to the broker, and the result (or the name of the exception raised).\<close>

definition execute_order ::
  "slicing_config \<Rightarrow> string \<Rightarrow> bool \<Rightarrow> (nat \<Rightarrow> string + pyfloat option) \<Rightarrow> (order_request \<Rightarrow> string + order_result) \<Rightarrow> order_request
     \<Rightarrow> order_request list \<times> (string + order_result)" where
  "execute_order config fresh simulated quote submit request = (case plan_order config fresh request of
     Inl e \<Rightarrow> ([], Inl e)
   | Inr plan \<Rightarrow>
       if ep_algorithm plan = ''immediate'' \<or> length (ep_slices plan) \<le> 1 then ([request], submit request)
       else if \<not> simulated
       then ([], Inr (refused_result (msg ''Broker slicing is disabled until per-slice fills and protection are reconciled; use immediate execution'')))
       else let f = foldl (slice_step request quote submit) no_fills (ep_slices plan)
            in (fl_calls f,
                if fl_quantity f \<le> 0
                then Inr (refused_result [Lit ''All '', FInt (int (length (ep_slices plan))),
                       Lit '' algorithmic slices failed or were skipped by collar.''])
                else named (bindr (fdiv (fl_cost f) (fl_quantity f)) (\<lambda>avg.
                       Ok \<lparr>or_success = True, or_order_id = Some (ep_plan_id plan), or_fill_price = Some (py_round 2 avg),
                            or_error_message = None, or_submission_uncertain = False\<rparr>))))"

subsection \<open>Integer slices\<close>

lemma sum_list_replaced: "k < length xs \<Longrightarrow> sum_list (xs[k := xs ! k + d]) = sum_list xs + (d :: int)"
  by (induction xs arbitrary: k) (auto split: nat.split simp: nth_Cons')

lemma nudge_sum: "nudge step n k i raw = Some qs \<Longrightarrow> sum_list qs = sum_list raw + step * int k \<and> length qs = length raw"
proof (induction step n k i raw rule: nudge.induct)
  case (2 step slices n i raw)
  show ?case
  proof (cases "i mod slices < length raw")
    case True
    have "nudge step slices n (Suc i) (raw[i mod slices := raw ! (i mod slices) + step]) = Some qs"
      using 2(2) True by (simp add: Let_def)
    from 2(1) [OF refl True this] show ?thesis using sum_list_replaced [OF True, of step] by (simp add: algebra_simps)
  qed (use 2(2) in \<open>simp add: Let_def\<close>)
qed simp

lemma weighted_sum: "weighted_allocations t n ws = Inr qs \<Longrightarrow> sum_list qs = t"
  by (auto simp: weighted_allocations_def Let_def split: sum.split_asm option.split_asm if_split_asm dest!: nudge_sum)

lemma even_sum:
  assumes "0 < n"
  shows "sum_list (even_slices t n) = t"
proof -
  have "sum_list (even_slices t n) = (\<Sum>i < nat n. t div n + (if int i < t mod n then 1 else 0))"
    by (simp add: even_slices_def sum_list_distinct_conv_sum_set atLeast0LessThan)
  also have "\<dots> = n * (t div n) + (\<Sum>i < nat n. if int i < t mod n then 1 else 0)"
    using assms by (simp add: sum.distrib)
  also have "(\<Sum>i < nat n. if int i < t mod n then 1 else 0 :: int) = int (card {i. i < nat n \<and> int i < t mod n})"
    by (simp add: sum.If_cases Int_def lessThan_def)
  also have "{i. i < nat n \<and> int i < t mod n} = {..< nat (t mod n)}"
  proof -
    have "nat (t mod n) \<le> nat n" using pos_mod_bound [OF assms, of t] by simp
    then show ?thesis by (auto simp: zless_nat_eq_int_zless)
  qed
  also have "int (card {..< nat (t mod n)}) = t mod n" using pos_mod_sign [OF assms, of t] by simp
  finally show ?thesis by simp
qed

lemma even_bounds:
  assumes "0 < n" and "q \<in> set (even_slices t n)"
  shows "t div n \<le> q" and "q \<le> t div n + 1"
  using assms by (auto simp: even_slices_def)

lemma sum_raised: "sum_list (map (max 1) qs) \<ge> sum_list (qs :: int list)"
  by (induction qs) auto

lemma sum_raised_eq: "(\<And>q. q \<in> set qs \<Longrightarrow> 1 \<le> q) \<Longrightarrow> map (max 1) qs = (qs :: int list)"
  by (induction qs) (auto simp: max_def)

text \<open>
  Integer slices cover the order. Each slice is at least one contract and together they are never
  less than the whole order. Even slices add up to it exactly and differ by at most one contract;
  weighted slices add up to it exactly unless the profile rounds a slice to nothing, which is then
  raised to one contract.
\<close>

theorem integer_slices_cover:
  assumes "integer_slices t n weights = Inr qs" and "1 \<le> t"
  shows "t \<le> sum_list qs \<and> (\<forall>q \<in> set qs. 1 \<le> q)
    \<and> (weights = None \<longrightarrow> sum_list qs = t \<and> (\<forall>a \<in> set qs. \<forall>b \<in> set qs. \<bar>a - b\<bar> \<le> 1))
    \<and> (sum_list qs = t \<or> (\<exists>ws al. weights = Some ws \<and> weighted_allocations t (min n t) ws = Inr al \<and> (\<exists>q \<in> set al. q < 1)))"
proof (cases "min n t \<le> 1")
  case True
  then show ?thesis using assms by (auto simp: integer_slices_def Let_def)
next
  case False
  show ?thesis
  proof (cases weights)
    case None
    have qs: "qs = even_slices t (min n t)" using assms(1) False None by (simp add: integer_slices_def Let_def)
    have n: "0 < min n t" using False by linarith
    have "1 \<le> t div min n t" using n zdiv_mono2 [of t "min n t" t] assms(2) by auto
    then have "\<forall>q \<in> set qs. 1 \<le> q" using even_bounds(1) [OF n] qs by force
    moreover have "\<bar>a - b\<bar> \<le> 1" if "a \<in> set qs" "b \<in> set qs" for a b
      using even_bounds [OF n, of a t] even_bounds [OF n, of b t] that qs by simp
    ultimately show ?thesis using even_sum [OF n, of t] qs None by auto
  next
    case (Some ws)
    obtain al where al: "weighted_allocations t (min n t) ws = Inr al" "qs = map (max 1) al"
      using assms(1) False Some by (auto simp: integer_slices_def Let_def split: sum.split_asm)
    have "sum_list al = t" by (rule weighted_sum [OF al(1)])
    moreover have "sum_list qs = t" if "\<forall>q \<in> set al. 1 \<le> q" using that sum_raised_eq [of al] al(2) calculation by simp
    ultimately show ?thesis using sum_raised [of al] al Some by force
  qed
qed

theorem integer_slices_cover_witness: "\<exists>qs. integer_slices 7 3 None = Inr qs \<and> qs = [3, 2, 2] \<and> sum_list qs = 7"
proof -
  have qs: "integer_slices 7 3 None = Inr [3, 2, 2]" by (simp add: integer_slices_def even_slices_def upt_rec numeral_3_eq_3)
  show ?thesis using integer_slices_cover [OF qs] qs by simp
qed

text \<open>A profile that gives later slices almost nothing makes the plan larger than the order.\<close>

lemma weighted_slices_overfill:
  "integer_slices 4 4 (Some [Num 29, Num 1, Num 1, Num 1]) = Inr [4, 1, 1, 1]"
proof -
  have d: "b64 (29 / 32) = Num (29 / 32)" "b64 (1 / 32) = Num (1 / 32)" "b64 (29 / 8) = Num (29 / 8)" "b64 (1 / 8) = Num (1 / 8)"
    using b64_dyadic [of 29 5] b64_dyadic [of 1 5] b64_dyadic [of 29 3] b64_dyadic [of 1 3] by simp_all
  have "py_sum [Num 29, Num 1, Num 1, Num 1] = Num 32"
    using b64_minus [of 1] by (simp add: py_sum_def zero_pyfloat_def minus_pyfloat_def Let_def)
  moreover have "\<lfloor>29 / 8 :: rat\<rfloor> = 3" "\<lfloor>1 / 8 :: rat\<rfloor> = 0" by (simp_all add: floor_eq_iff)
  then have "rhe (29 / 8) = 4" "rhe (1 / 8) = 0" by (simp_all add: rhe_def Let_def)
  ultimately have "weighted_allocations 4 4 [Num 29, Num 1, Num 1, Num 1] = Inr [4, 0, 0, 0]"
    by (simp add: weighted_allocations_def float_of_int_def round_int_def d numeral_eq_Suc)
  then show ?thesis by (simp add: integer_slices_def)
qed

subsection \<open>What the engine sends\<close>

lemma slice_step_calls:
  "fl_calls (slice_step r quote submit f s)
     = fl_calls f @ (if collar_breached (is_long (rq_direction r)) (cs_limit_price s) (quote (cs_index s)) then [] else [child_request r s])"
  by (auto simp: slice_step_def Let_def split: sum.split)

lemma engine_calls:
  "fl_calls (foldl (slice_step r quote submit) f ss)
     = fl_calls f @ map (child_request r) (filter (\<lambda>s. \<not> collar_breached (is_long (rq_direction r)) (cs_limit_price s) (quote (cs_index s))) ss)"
  by (induction ss arbitrary: f) (auto simp: slice_step_calls)

lemma engine_filled:
  "fl_quantity (foldl (slice_step r quote submit) f ss) = foldl (+) (fl_quantity f)
     (map cs_quantity (filter (\<lambda>s. \<not> collar_breached (is_long (rq_direction r)) (cs_limit_price s) (quote (cs_index s))
        \<and> (\<exists>res. submit (child_request r s) = Inr res \<and> or_success res)) ss))"
  by (induction ss arbitrary: f) (auto simp: slice_step_def Let_def split: sum.split)

lemma engine_sends_or_refuses:
  "execute_order config fresh False quote submit request = (calls, r) \<Longrightarrow> calls = [] \<or> calls = [request]"
  by (auto simp: execute_order_def split: sum.split_asm if_split_asm)


text \<open>Seven futures contracts in three slices.\<close>

definition demo_slicing :: slicing_config where
  "demo_slicing = \<lparr>sc_algorithm = ''TWAP'', sc_min_slice_futures = Num 2, sc_min_slice_equity = Num 100, sc_twap_slices = 3,
     sc_collar_ticks = Num 2, sc_collar_pct = Num 1, sc_vwap_profile = [], sc_tick_size = \<lambda>_. Some (Num (1 / 4))\<rparr>"

definition demo_futures :: order_request where
  "demo_futures = demo_request\<lparr>rq_asset_class := FUTURES, rq_direction := ''LONG'', rq_quantity := Num 7, rq_entry_price := Some (Num 400)\<rparr>"

lemma demo_plan:
  "plan_order demo_slicing ''p'' demo_futures = Inr \<lparr>ep_plan_id = ''plan_p'', ep_request = demo_futures, ep_algorithm = ''twap'',
     ep_total_quantity = Num 7, ep_slices = map (planned_slice ''plan_p'' (Num 400) (Num (801 / 2))) [(0, Num 3), (1, Num 2), (2, Num 2)]\<rparr>"
proof -
  have algo: "strip (lower ''TWAP'') = ''twap''" by (simp add: str_eval)
  have long: "is_long ''LONG''" by (simp add: is_long_def str_eval)
  have "rhe 7 = 7" "rhe 1602 = 1602" "rhe 40050 = 40050" using rhe_of_int [of 7] rhe_of_int [of 1602] rhe_of_int [of 40050] by simp_all
  then have collar: "compute_price_collar ''LONG'' (Num 400) (Num (1 / 4)) FUTURES demo_slicing = Ok (Num (801 / 2))"
    by (simp add: compute_price_collar_def long demo_slicing_def round_int_def float_of_int_def py_round_def)
  have slices: "slice_quantities (Num 7) 3 True None = Inr [Num 3, Num 2, Num 2]"
    using \<open>rhe 7 = 7\<close> by (simp add: slice_quantities_def zero_pyfloat_def round_int_def named_def integer_slices_def even_slices_def
        upt_rec numeral_3_eq_3 float_of_int_def)
  show ?thesis
    using collar slices by (simp add: plan_order_def Let_def demo_futures_def algo) (simp add: demo_slicing_def algo named_def zero_pyfloat_def numeral_2_eq_2)
qed


end
