(* ===== verification/Position_Sizing.thy ===== *)
theory Position_Sizing
  imports Freshness "HOL-Library.Multiset"
begin

text \<open>
  The sizes a card offers (\<open>agent/position_sizing.py\<close>): \<open>calculate_dynamic_sizing\<close> turns a bracket, the
  configuration and the observed account into two or three tiers, and \<open>scale_sizing\<close> shrinks the tiers of
  an evaluated card. Quantities are Python floats holding whole units.
\<close>

subsection \<open>Data\<close>

datatype sizing_mode = STATIC | VOLATILITY_TARGETED

text \<open>
  The fields of \<open>PositionSizingConfig\<close> that only the sizing reads, and the configured
  \<open>target_risk_dollars\<close> of each contract.
\<close>

record sizing_knobs =
  k_mode :: sizing_mode
  k_target_risk_pct :: pyfloat
  k_target_futures_risk_dollars :: pyfloat
  k_default_equity_risk_dollars :: pyfloat
  k_min_contracts :: int
  k_min_shares :: pyfloat
  k_contract_targets :: "(string \<times> pyfloat option) list"

record sized_candidate =
  cand_contract :: string
  cand_probe :: bool

text \<open>The arguments of \<open>calculate_dynamic_sizing\<close>.\<close>

record sizing_request =
  z_entry :: pyfloat
  z_stop_distance :: pyfloat
  z_target_distance :: pyfloat
  z_multiplier :: pyfloat
  z_asset_class :: string
  z_candidate :: "sized_candidate option"
  z_open_notional :: pyfloat
  z_drawdown_pct :: pyfloat
  z_macro_multiplier :: pyfloat
  z_equity :: "pyfloat option"
  z_risk_cap :: "pyfloat option"

record sizing_tier =
  tier_id :: string
  tier_label :: ftext
  t_quantity :: pyfloat
  t_risk_dollars :: pyfloat
  t_reward_dollars :: pyfloat
  t_notional_dollars :: pyfloat
  t_leverage :: pyfloat
  is_default :: bool

record sizing_result =
  default_tier :: sizing_tier
  max_tier :: sizing_tier
  tiers :: "sizing_tier list"
  sized_drawdown_factor :: pyfloat
  gating_reasons :: "ftext list"

definition truthy_float :: "pyfloat \<Rightarrow> bool" where
  "truthy_float x = (x \<noteq> 0)"

text \<open>An integer compared with a float: by its exact value.\<close>

abbreviation exact :: "int \<Rightarrow> pyfloat" where
  "exact n \<equiv> Num (of_int n)"

text \<open>\<open>float(int(x))\<close>: the whole units of an amount.\<close>

definition whole_units :: "pyfloat \<Rightarrow> pyfloat result" where
  "whole_units x = bindr (int_of_float x) float_of_int"

subsection \<open>The hard gates\<close>

definition CENT :: pyfloat where "CENT = b64 (1/100)"

definition per_unit_risk :: "sizing_request \<Rightarrow> pyfloat" where
  "per_unit_risk req = py_max (z_stop_distance req * z_multiplier req) CENT"

definition unit_notional :: "sizing_request \<Rightarrow> pyfloat" where
  "unit_notional req = py_max (z_entry req * z_multiplier req) CENT"

definition remaining_notional :: "app_config \<Rightarrow> sizing_request \<Rightarrow> pyfloat" where
  "remaining_notional config req =
     py_max 0 (p_max_notional_exposure (c_portfolio config) - z_open_notional req)"

definition trade_notional_ceiling :: "app_config \<Rightarrow> sizing_request \<Rightarrow> pyfloat" where
  "trade_notional_ceiling config req =
     py_min (s_max_trade_notional_cap (c_sizing config)) (remaining_notional config req)"

definition cap_applies :: "sizing_request \<Rightarrow> risk_budget \<Rightarrow> bool" where
  "cap_applies req budget = (case z_risk_cap req of None \<Rightarrow> False | Some c \<Rightarrow> c < dollars budget)"

definition max_risk_dollars :: "sizing_request \<Rightarrow> risk_budget \<Rightarrow> pyfloat" where
  "max_risk_dollars req budget =
     (if cap_applies req budget then the (z_risk_cap req) else dollars budget)"

definition count_cap :: "app_config \<Rightarrow> sizing_request \<Rightarrow> int" where
  "count_cap config req = (if z_asset_class req = EQUITY then s_max_shares_per_trade (c_sizing config)
     else s_max_contracts_per_trade (c_sizing config))"

definition min_units :: "sizing_knobs \<Rightarrow> sizing_request \<Rightarrow> pyfloat" where
  "min_units k req = (if z_asset_class req = EQUITY then k_min_shares k else exact (k_min_contracts k))"

text \<open>The reasons the card shows for the macro, drawdown, notional and card-cap adjustments.\<close>

definition adjustment_reasons :: "app_config \<Rightarrow> sizing_request \<Rightarrow> risk_budget \<Rightarrow> ftext list" where
  "adjustment_reasons config req budget =
     (let dd = drawdown_factor budget; mac = macro_factor budget;
          stop = max_drawdown_stop_pct (s_drawdown (c_sizing config));
          left = remaining_notional config req
      in (if mac < 1 then [[Lit ''Macro stress risk scaling applied: '', FFloat ''.0f'' (mac * Num 100),
             Lit ''% risk budget'']] else [])
       @ (if feq dd 0 then [[Lit ''Drawdown halt active ('', FFloat ''.1f'' (z_drawdown_pct req * Num 100),
             Lit ''% >= '', FFloat ''.1f'' (stop * Num 100), Lit ''%)'']]
          else if dd < 1 then [[Lit ''Drawdown haircut applied: '', FFloat ''.0f'' (dd * Num 100),
             Lit ''% sizing (DD: '', FFloat ''.1f'' (z_drawdown_pct req * Num 100), Lit ''%)'']] else [])
       @ (if left < p_max_notional_exposure (c_portfolio config)
          then [[Lit ''Notional budget remaining: $'', FFloat '',.0f'' left]] else [])
       @ (case z_risk_cap req of Some c \<Rightarrow>
            if cap_applies req budget then
              [[Lit (case z_candidate req of None \<Rightarrow> ''Paper probe''
                     | Some cand \<Rightarrow> if cand_probe cand then ''Paper probe'' else ''Card''),
                Lit '' risk cap applied: $'', FFloat '',.0f'' c]] else []
          | None \<Rightarrow> []))"

subsection \<open>The base quantity\<close>

definition contract_target :: "sizing_knobs \<Rightarrow> sized_candidate option \<Rightarrow> pyfloat option" where
  "contract_target k cand = (case cand of None \<Rightarrow> None
     | Some c \<Rightarrow> (case map_of (k_contract_targets k) (cand_contract c) of
          Some (Some t) \<Rightarrow> if truthy_float t then Some t else None
        | _ \<Rightarrow> None))"

definition static_risk_budget :: "sizing_knobs \<Rightarrow> pyfloat option \<Rightarrow> pyfloat" where
  "static_risk_budget k target = (case target of Some t \<Rightarrow> t
     | None \<Rightarrow> if truthy_float (k_default_equity_risk_dollars k) then k_default_equity_risk_dollars k
        else Num 500)"

definition targeted_risk_budget :: "sizing_knobs \<Rightarrow> string \<Rightarrow> pyfloat option \<Rightarrow> pyfloat \<Rightarrow> pyfloat" where
  "targeted_risk_budget k asset_class target portfolio_cash = (case target of Some t \<Rightarrow> t
     | None \<Rightarrow>
        if asset_class = EQUITY then
          (if truthy_float (k_default_equity_risk_dollars k) then
             let b = py_min (k_default_equity_risk_dollars k) (portfolio_cash * k_target_risk_pct k)
             in if b \<le> 0 then k_default_equity_risk_dollars k else b
           else portfolio_cash * k_target_risk_pct k)
        else if truthy_float (k_target_futures_risk_dollars k) then k_target_futures_risk_dollars k
        else portfolio_cash * k_target_risk_pct k)"

definition whole_shares :: "sizing_knobs \<Rightarrow> pyfloat \<Rightarrow> pyfloat \<Rightarrow> pyfloat \<Rightarrow> pyfloat result" where
  "whole_shares k budget unit max_qty =
     bindr (fdiv budget unit) (\<lambda>raw. bindr (whole_units raw) (\<lambda>w.
       Ok (py_max 1 (py_max (k_min_shares k) (py_min max_qty w)))))"

definition whole_contracts :: "sizing_knobs \<Rightarrow> pyfloat \<Rightarrow> pyfloat \<Rightarrow> pyfloat \<Rightarrow> pyfloat result" where
  "whole_contracts k budget unit max_qty =
     bindr (fdiv budget unit) (\<lambda>raw. bindr (round_int raw) (\<lambda>n. bindr (int_of_float max_qty) (\<lambda>m.
       float_of_int (py_max (k_min_contracts k) (py_min m (py_max 1 n))))))"

definition base_quantity ::
  "sizing_knobs \<Rightarrow> sizing_request \<Rightarrow> risk_budget \<Rightarrow> pyfloat \<Rightarrow> pyfloat result" where
  "base_quantity k req budget max_qty =
     (let target = contract_target k (z_candidate req);
          adjustment = drawdown_factor budget * macro_factor budget;
          unit = per_unit_risk req;
          equity = (z_asset_class req = EQUITY)
      in case k_mode k of
           STATIC \<Rightarrow> if equity then whole_shares k (static_risk_budget k target * adjustment) unit max_qty
                     else Ok 1
         | VOLATILITY_TARGETED \<Rightarrow>
             (let b = targeted_risk_budget k (z_asset_class req) target (capital budget) * adjustment
              in if equity then whole_shares k b unit max_qty else whole_contracts k b unit max_qty))"

subsection \<open>The tiers\<close>

type_synonym tier_plan = "string \<times> ftext \<times> pyfloat \<times> bool"

definition equity_tiers :: "pyfloat \<Rightarrow> pyfloat \<Rightarrow> tier_plan list result" where
  "equity_tiers base_qty max_qty =
     bindr (whole_units (base_qty * Num (1/2))) (\<lambda>h. let half = py_max 1 h in Ok (
       if base_qty < max_qty \<and> half < base_qty then
         [(''half'', msg ''Conservative (0.5x)'', half, False),
          (''base'', msg ''Standard (1.0x)'', base_qty, True),
          (''max'', msg ''Max Permissible'', max_qty, False)]
       else if base_qty < max_qty then
         [(''base'', msg ''Standard (1.0x)'', base_qty, True),
          (''max'', msg ''Max Permissible'', max_qty, False)]
       else if half < base_qty then
         [(''half'', msg ''Conservative (0.5x)'', half, False),
          (''base'', msg ''Standard / Max'', base_qty, True)]
       else [(''base'', msg ''Standard (1.0x)'', base_qty, True)]))"

definition futures_tiers :: "pyfloat \<Rightarrow> pyfloat \<Rightarrow> tier_plan list result" where
  "futures_tiers base_qty max_qty =
     bindr (int_of_float max_qty) (\<lambda>m. bindr (int_of_float base_qty) (\<lambda>b.
       if m \<ge> 3 \<and> b \<ge> 2 then
         bindr (float_of_int b) (\<lambda>fb. bindr (float_of_int m) (\<lambda>fm. Ok
           [(''half'', msg ''Half (1x)'', 1, False),
            (''base'', [Lit ''Base ('', FInt b, Lit ''x)''], fb, True),
            (''max'', [Lit ''Max ('', FInt m, Lit ''x)''], fm, False)]))
       else if m \<ge> 3 \<and> b = 1 then
         bindr (float_of_int m) (\<lambda>fm. Ok
           [(''base'', msg ''Base (1x)'', 1, True),
            (''med'', msg ''Medium (2x)'', Num 2, False),
            (''max'', [Lit ''Max ('', FInt m, Lit ''x)''], fm, False)])
       else if m = 2 then
         Ok [(''half'', msg ''Half (1x)'', 1, b = 1),
             (''base'', msg ''Base / Max (2x)'', Num 2, b = 2)]
       else Ok [(''base'', msg ''Base (1x)'', 1, True)]))"

definition tier_quantities :: "sizing_request \<Rightarrow> pyfloat \<Rightarrow> pyfloat \<Rightarrow> tier_plan list result" where
  "tier_quantities req base_qty max_qty =
     (if z_asset_class req = EQUITY then equity_tiers base_qty max_qty
      else futures_tiers base_qty max_qty)"

definition build_tier :: "sizing_request \<Rightarrow> pyfloat \<Rightarrow> tier_plan \<Rightarrow> sizing_tier result" where
  "build_tier req portfolio_cash plan = (case plan of (tid, label, qty, dflt) \<Rightarrow>
     let notional = py_round 2 (unit_notional req * qty) in
     bindr (fdiv notional portfolio_cash) (\<lambda>lev. Ok
       \<lparr>tier_id = tid, tier_label = label, t_quantity = qty,
        t_risk_dollars = py_round 2 (per_unit_risk req * qty),
        t_reward_dollars = py_round 2 (z_target_distance req * z_multiplier req * qty),
        t_notional_dollars = notional, t_leverage = py_round 2 lev, is_default = dflt\<rparr>))"

text \<open>The loop over the plan keeps the default tier and the largest tier seen so far.\<close>

definition keep_default :: "sizing_tier option \<Rightarrow> sizing_tier \<Rightarrow> sizing_tier option" where
  "keep_default d t = (if is_default t \<or> d = None then Some t else d)"

definition keep_max :: "sizing_tier option \<Rightarrow> sizing_tier \<Rightarrow> sizing_tier option" where
  "keep_max m t = (case m of None \<Rightarrow> Some t
     | Some old \<Rightarrow> if tier_id t = ''max'' \<or> t_quantity old \<le> t_quantity t then Some t else m)"

definition BLOCKED_TIER :: sizing_tier where
  "BLOCKED_TIER = \<lparr>tier_id = ''blocked'', tier_label = msg ''Unavailable'', t_quantity = 0,
     t_risk_dollars = 0, t_reward_dollars = 0, t_notional_dollars = 0, t_leverage = 0,
     is_default = True\<rparr>"

definition offer_tiers ::
  "sizing_knobs \<Rightarrow> sizing_request \<Rightarrow> risk_budget \<Rightarrow> pyfloat \<Rightarrow> ftext list \<Rightarrow> sizing_result result" where
  "offer_tiers k req budget max_qty reasons =
     bindr (base_quantity k req budget max_qty) (\<lambda>base_qty.
     bindr (tier_quantities req base_qty max_qty) (\<lambda>plan.
     bindr (mapr (build_tier req (capital budget)) plan) (\<lambda>ts.
       case (foldl keep_default None ts, foldl keep_max None ts) of
         (Some d, Some m) \<Rightarrow> Ok \<lparr>default_tier = d, max_tier = m, tiers = ts,
            sized_drawdown_factor = drawdown_factor budget, gating_reasons = reasons\<rparr>
       | _ \<Rightarrow> Raise AssertionError)))"

definition calculate_dynamic_sizing ::
  "app_config \<Rightarrow> sizing_knobs \<Rightarrow> sizing_request \<Rightarrow> sizing_result result" where
  "calculate_dynamic_sizing config k req =
     bindr (limits_from_config config) (\<lambda>limits.
     bindr (per_trade_risk_budget limits (z_equity req) (z_drawdown_pct req) (z_macro_multiplier req)) (\<lambda>budget.
     raise_if (case z_risk_cap req of None \<Rightarrow> False | Some c \<Rightarrow> \<not> 0 < c)
       (ValueError (msg ''Positive risk cap required''))
     (let reasons = adjustment_reasons config req budget in
      bindr (fdiv (max_risk_dollars req budget) (per_unit_risk req)) (\<lambda>by_risk.
      bindr (fdiv (trade_notional_ceiling config req) (unit_notional req)) (\<lambda>by_notional.
      bindr (float_of_int (count_cap config req)) (\<lambda>cap.
      let raw_max_qty = py_min (py_min cap by_risk) by_notional in
      bindr (whole_units raw_max_qty) (\<lambda>whole.
      let max_qty = py_max 0 whole in
      if feq (drawdown_factor budget) 0 \<or> max_qty < min_units k req then
        Ok \<lparr>default_tier = BLOCKED_TIER, max_tier = BLOCKED_TIER, tiers = [BLOCKED_TIER],
            sized_drawdown_factor = drawdown_factor budget,
            gating_reasons = reasons
              @ [msg ''No permissible quantity under hard risk/notional/drawdown gates'']\<rparr>
      else offer_tiers k req budget max_qty (reasons @
        (if raw_max_qty < exact (count_cap config req) then
           [if by_notional < by_risk
            then [Lit ''Max size capped by remaining $'', FFloat '',.0f'' (trade_notional_ceiling config req),
                  Lit '' notional limit'']
            else [Lit ''Max size capped by '', FFloat ''.1%'' (s_max_risk_pct_cap (c_sizing config)),
                  Lit '' risk ceiling'']]
         else [])))))))))"

subsection \<open>Scaling an evaluated card\<close>

text \<open>The fields of \<open>LLMTradeEvaluation\<close> that the scaling reads and writes.\<close>

record sized_evaluation =
  ev_asset_class :: string
  ev_quantity :: pyfloat
  ev_risk_dollars :: pyfloat
  ev_reward_dollars :: pyfloat
  ev_notional_value :: pyfloat
  ev_leverage :: pyfloat
  ev_tiers :: "sizing_tier list option"

text \<open>\<open>math.floor\<close> of a float.\<close>

definition math_floor :: "pyfloat \<Rightarrow> int result" where
  "math_floor x = (case x of Num r \<Rightarrow> Ok \<lfloor>r\<rfloor>
     | NaN \<Rightarrow> Raise (ValueError (msg ''cannot convert float NaN to integer''))
     | _ \<Rightarrow> Raise OverflowError)"

definition scaled_units :: "pyfloat \<Rightarrow> pyfloat \<Rightarrow> pyfloat result" where
  "scaled_units old_qty factor = bindr (math_floor (old_qty * factor)) float_of_int"

definition scaled_tier ::
  "pyfloat \<Rightarrow> pyfloat \<Rightarrow> pyfloat \<Rightarrow> sizing_tier \<Rightarrow> sizing_tier option result" where
  "scaled_tier factor least portfolio_cash tier =
     (let old_qty = t_quantity tier in
      bindr (scaled_units old_qty factor) (\<lambda>qty.
      if qty < least \<or> old_qty \<le> 0 then Ok None
      else bindr (fdiv qty old_qty) (\<lambda>ratio.
        let notional = py_round 2 (t_notional_dollars tier * ratio) in
        bindr (fdiv notional portfolio_cash) (\<lambda>lev. Ok (Some (tier
          \<lparr>t_quantity := qty,
           t_risk_dollars := py_round 2 (t_risk_dollars tier * ratio),
           t_reward_dollars := py_round 2 (t_reward_dollars tier * ratio),
           t_notional_dollars := notional,
           t_leverage := py_round 2 lev\<rparr>))))))"

text \<open>
  The dictionary \<open>by_quantity\<close>: its key is its value's quantity, so it is the list of its values in
  insertion order.
\<close>

fun keep_tier :: "sizing_tier \<Rightarrow> sizing_tier list \<Rightarrow> sizing_tier list" where
  "keep_tier t [] = [t]"
| "keep_tier t (e # es) =
     (if t_quantity e = t_quantity t then (if is_default t \<and> \<not> is_default e then t else e) # es
      else e # keep_tier t es)"

fun scale_tiers ::
  "(sizing_tier \<Rightarrow> sizing_tier option result) \<Rightarrow> sizing_tier list \<Rightarrow> sizing_tier list \<Rightarrow> sizing_tier list result" where
  "scale_tiers scale [] by_quantity = Ok by_quantity"
| "scale_tiers scale (t # ts) by_quantity = bindr (scale t) (\<lambda>s.
     scale_tiers scale ts (case s of None \<Rightarrow> by_quantity | Some t' \<Rightarrow> keep_tier t' by_quantity))"

text \<open>\<open>sorted\<close> of the keys, the values in that order.\<close>

fun insert_tier :: "sizing_tier \<Rightarrow> sizing_tier list \<Rightarrow> sizing_tier list" where
  "insert_tier t [] = [t]"
| "insert_tier t (e # es) =
     (if t_quantity t < t_quantity e then t # e # es else e # insert_tier t es)"

definition sort_tiers :: "sizing_tier list \<Rightarrow> sizing_tier list" where
  "sort_tiers ts = foldr insert_tier ts []"

definition resized :: "sized_evaluation \<Rightarrow> pyfloat \<Rightarrow> pyfloat \<Rightarrow> pyfloat \<Rightarrow> pyfloat \<Rightarrow> pyfloat
    \<Rightarrow> sizing_tier list \<Rightarrow> sized_evaluation result" where
  "resized ev qty risk reward amount portfolio_cash ts =
     bindr (fdiv amount portfolio_cash) (\<lambda>lev. Ok (ev
       \<lparr>ev_quantity := qty, ev_risk_dollars := risk, ev_reward_dollars := reward,
        ev_notional_value := amount, ev_leverage := py_round 2 lev,
        ev_tiers := (if ts = [] then None else Some ts)\<rparr>))"

definition scale_sizing ::
  "sized_evaluation \<Rightarrow> pyfloat \<Rightarrow> pyfloat \<Rightarrow> pyfloat \<Rightarrow> sized_evaluation option result" where
  "scale_sizing ev factor least portfolio_cash =
     raise_if (ev_asset_class ev \<noteq> EQUITY) (ValueError (msg ''scale_sizing supports equities only''))
     (raise_if (\<not> (0 \<le> factor \<and> factor \<le> 1)) (ValueError (msg ''factor must be in [0, 1]''))
     (if feq factor 1 then Ok (Some ev)
      else let old = (case ev_tiers ev of None \<Rightarrow> [] | Some ts \<Rightarrow> ts) in
        bindr (scale_tiers (scaled_tier factor least portfolio_cash) old []) (\<lambda>by_quantity.
        let ts = sort_tiers by_quantity in
        case find is_default ts of
          Some d \<Rightarrow> bindr (resized ev (t_quantity d) (t_risk_dollars d) (t_reward_dollars d)
                       (t_notional_dollars d) portfolio_cash ts) (\<lambda>e. Ok (Some e))
        | None \<Rightarrow>
            if old \<noteq> [] then Ok None
            else bindr (scaled_units (ev_quantity ev) factor) (\<lambda>qty.
              if qty < least \<or> ev_quantity ev \<le> 0 then Ok None
              else bindr (fdiv qty (ev_quantity ev)) (\<lambda>ratio.
                bindr (resized ev qty (py_round 2 (ev_risk_dollars ev * ratio))
                    (py_round 2 (ev_reward_dollars ev * ratio))
                    (py_round 2 (ev_notional_value ev * ratio)) portfolio_cash ts) (\<lambda>e. Ok (Some e)))))))"

subsection \<open>Whole units are exact below \<open>2^53\<close>\<close>

lemma float_of_small_int: "\<bar>n\<bar> < 2 ^ 53 \<Longrightarrow> float_of_int n = Ok (exact n)"
  by (simp add: float_of_int_def b64_int)

lemma int_of_exact [simp]: "int_of_float (exact n) = Ok n"
  by (simp add: int_of_float_def trunc_def)

lemma whole_units_exact [simp]: "\<bar>n\<bar> < 2 ^ 53 \<Longrightarrow> whole_units (exact n) = Ok (exact n)"
  by (simp add: whole_units_def float_of_small_int)

lemma exact_less [simp]: "exact a < exact b \<longleftrightarrow> a < b" "exact a \<le> exact b \<longleftrightarrow> a \<le> b"
  by simp_all

lemma exact_py_max: "py_max (exact a) (exact b) = exact (max a b)"
  by (auto simp: py_max_def max_def)

lemma exact_py_min: "py_min (exact a) (exact b) = exact (min a b)"
  by (auto simp: py_min_def min_def)

lemma exact_one: "1 = exact 1" and exact_zero: "0 = exact 0" and exact_two: "Num 2 = exact 2"
  by (simp_all add: one_pyfloat_def zero_pyfloat_def)

lemma whole_units_half:
  assumes "0 \<le> n" "n < 2 ^ 53"
  shows "whole_units (exact n * Num (1/2)) = Ok (exact (n div 2))"
proof -
  have "exact n * Num (1/2) = Num (of_int n / 2)"
    using b64_dyadic [of n 1] assms by simp
  moreover have "\<lfloor>rat_of_int n / 2\<rfloor> = n div 2"
    using floor_divide_of_int_eq [of n 2] by simp
  moreover have "n div 2 < 2 ^ 53" "0 \<le> n div 2" using assms by auto
  ultimately show ?thesis
    using assms by (simp add: whole_units_def int_of_float_def trunc_def float_of_small_int)
qed

lemma whole_units_below:
  assumes "whole_units x = Ok w" "x \<le> exact c" "c < 2 ^ 53" "0 \<le> x"
  shows "\<exists>r. x = Num r \<and> w = exact \<lfloor>r\<rfloor> \<and> 0 \<le> \<lfloor>r\<rfloor> \<and> \<lfloor>r\<rfloor> \<le> c"
proof -
  obtain n where n: "int_of_float x = Ok n" "float_of_int n = Ok w"
    using assms(1) by (auto simp: whole_units_def bindr_Inr_iff)
  obtain r where r: "x = Num r" "0 \<le> r" "r \<le> of_int c"
    using assms(2,4) by (cases x) auto
  then have f: "0 \<le> \<lfloor>r\<rfloor>" "\<lfloor>r\<rfloor> \<le> c" using floor_mono [of r "of_int c"] by simp_all
  have nr: "n = \<lfloor>r\<rfloor>" using n r by (simp add: int_of_float_def trunc_def)
  with f assms(3) have "\<bar>n\<bar> < 2 ^ 53" by linarith
  with n(2) nr have "w = exact \<lfloor>r\<rfloor>" using float_of_small_int [of n] by (simp only: sum.inject)
  with r f show ?thesis by blast
qed

text \<open>
  The relative error of a quotient of at least one: the whole units of \<open>D / u\<close> cost at most \<open>D\<close> and
  one part in \<open>2^53\<close>.
\<close>

lemma rd64_half: "rd64 (1/2) = 1/2"
  using b64_dyadic [of 1 1] b64_Num_eq by fastforce

lemma rd64_relative:
  assumes "1 \<le> rd64 y"
  shows "rd64 y \<le> y * (1 + 1 / 2 ^ 53)"
proof -
  have y: "1/2 \<le> y"
  proof (rule ccontr)
    assume "\<not> 1/2 \<le> y"
    then have "rd64 y \<le> 1/2" using bin64.rd_mono [of y "1/2"] rd64_half by simp
    with assms show False by simp
  qed
  then have pos: "0 < y" by simp
  have "ilog 2 (1/2) = -1" by (rule ilog_unique) simp_all
  with ilog_mono [of 2 "1/2" y] y have i: "-1 \<le> ilog 2 y" by simp
  then have q: "qexp 2 53 (-1074) y = ilog 2 y - 52" using pos by (simp add: qexp_def)
  have "\<bar>rd64 y - y\<bar> \<le> 2 powi (ilog 2 y - 52) / 2"
    using rsig_error [of 2 53 "-1074" y] unfolding q rd64_def by simp
  then have "rd64 y - y \<le> 2 powi (ilog 2 y - 52) / 2" by linarith
  also have "\<dots> = 2 powi ilog 2 y / 2 ^ 53" by (simp add: power_int_diff)
  also have "\<dots> \<le> y / 2 ^ 53" using ilog_bounds(1) [of 2 y] pos by (simp add: divide_right_mono)
  finally show ?thesis by (simp add: distrib_left)
qed

lemma rd64_of_int: "\<exists>m. rd64 (of_int n) = of_int m"
proof (cases "qexp 2 53 (-1074) (of_int n) \<le> 0")
  case True
  then have "rd64 (of_int n) = of_int n"
    unfolding rd64_def by (intro rsig_fix [of 2 _ n 0]) simp_all
  then show ?thesis by blast
next
  case False
  define e where "e = nat (qexp 2 53 (-1074) (of_int n))"
  have e: "qexp 2 53 (-1074) (of_int n) = int e" using False by (simp add: e_def)
  have "rd64 (of_int n) = of_int (if n = 0 then 0 else rhe (of_int n / 2 ^ e) * 2 ^ e)"
    by (simp add: rd64_def rsig_def e Let_def)
  then show ?thesis by blast
qed

lemma whole_units_afford:
  assumes "fdiv (Num D) (Num u) = Ok (Num x)" "0 < u" "of_int n \<le> x" "1 \<le> n"
  shows "of_int n * u \<le> D * (1 + 1 / 2 ^ 53)"
proof -
  have x: "x = rd64 (D / u)" using assms(1,2) b64_Num_eq by (simp split: if_split_asm)
  have "1 \<le> x" using assms(3,4) by (metis of_int_1_le_iff order_trans)
  then have "x \<le> D / u * (1 + 1 / 2 ^ 53)" using rd64_relative x by blast
  with assms(3) have "of_int n \<le> D / u * (1 + 1 / 2 ^ 53)" by (rule order_trans)
  then have "of_int n * u \<le> (D / u * (1 + 1 / 2 ^ 53)) * u" using assms(2) by (intro mult_right_mono) simp_all
  also have "\<dots> = D * (1 + 1 / 2 ^ 53)" using assms(2) by simp
  finally show ?thesis .
qed

subsection \<open>The tier plan\<close>

text \<open>
  The configured minima are whole and at least one unit. The defaults are; the configuration does not check
  it, and with a fractional minimum of shares a tier may be fractional.
\<close>

definition knobs_ok :: "sizing_knobs \<Rightarrow> bool" where
  "knobs_ok k = (1 \<le> k_min_contracts k
     \<and> (case k_min_shares k of Num r \<Rightarrow> 1 \<le> r \<and> of_int \<lfloor>r\<rfloor> = r | _ \<Rightarrow> False))"

lemma knobs_okD:
  assumes "knobs_ok k"
  shows "1 \<le> k_min_contracts k" "\<exists>j. k_min_shares k = exact j \<and> 1 \<le> j"
proof -
  show "1 \<le> k_min_contracts k" using assms by (simp add: knobs_ok_def)
  obtain r where r: "k_min_shares k = Num r" "1 \<le> r" "of_int \<lfloor>r\<rfloor> = r"
    using assms by (auto simp: knobs_ok_def split: pyfloat.split_asm)
  then have "k_min_shares k = exact \<lfloor>r\<rfloor> \<and> 1 \<le> \<lfloor>r\<rfloor>" by (simp only: one_le_floor pyfloat.inject simp_thms)
  then show "\<exists>j. k_min_shares k = exact j \<and> 1 \<le> j" by blast
qed

lemma min_units_exact:
  assumes "knobs_ok k"
  obtains j where "min_units k req = exact j" "1 \<le> j"
    "z_asset_class req = EQUITY \<Longrightarrow> k_min_shares k = exact j"
    "z_asset_class req \<noteq> EQUITY \<Longrightarrow> k_min_contracts k = j"
proof (cases "z_asset_class req = EQUITY")
  case True
  with knobs_okD(2) [OF assms] that show thesis by (auto simp: min_units_def)
next
  case False
  with knobs_okD(1) [OF assms] that show thesis by (simp add: min_units_def)
qed

definition quantities :: "tier_plan list \<Rightarrow> pyfloat list" where
  "quantities = map (\<lambda>(_, _, q, _). q)"

text \<open>What every plan is: whole, growing quantities from one unit to the largest, one of them the default.\<close>

definition plan_shape :: "int \<Rightarrow> tier_plan list \<Rightarrow> bool" where
  "plan_shape m plan = (length (filter (\<lambda>(_, _, _, d). d) plan) = 1
     \<and> (\<exists>ns. quantities plan = map exact ns \<and> sorted ns \<and> ns \<noteq> [] \<and> 1 \<le> hd ns \<and> last ns = m))"

lemma plan_shapeI:
  "quantities plan = map exact ns \<Longrightarrow> sorted ns \<Longrightarrow> ns \<noteq> [] \<Longrightarrow> 1 \<le> hd ns \<Longrightarrow> last ns = m
   \<Longrightarrow> length (filter (\<lambda>(_, _, _, d). d) plan) = 1 \<Longrightarrow> plan_shape m plan"
  by (auto simp: plan_shape_def)

lemma equity_tiers_shape:
  assumes "equity_tiers (exact b) (exact m) = Ok plan" "1 \<le> b" "b \<le> m" "m < 2 ^ 53"
  shows "plan_shape m plan"
proof -
  define h where "h = max 1 (b div 2)"
  have h: "1 \<le> h" "h \<le> b" using assms(2) by (auto simp: h_def)
  have "whole_units (exact b * Num (1/2)) = Ok (exact (b div 2))"
    using assms by (intro whole_units_half) simp_all
  then have plan: "equity_tiers (exact b) (exact m) = Ok (
       if b < m \<and> h < b then
         [(''half'', msg ''Conservative (0.5x)'', exact h, False),
          (''base'', msg ''Standard (1.0x)'', exact b, True),
          (''max'', msg ''Max Permissible'', exact m, False)]
       else if b < m then
         [(''base'', msg ''Standard (1.0x)'', exact b, True),
          (''max'', msg ''Max Permissible'', exact m, False)]
       else if h < b then
         [(''half'', msg ''Conservative (0.5x)'', exact h, False),
          (''base'', msg ''Standard / Max'', exact b, True)]
       else [(''base'', msg ''Standard (1.0x)'', exact b, True)])"
    by (simp add: equity_tiers_def exact_one exact_py_max h_def Let_def
        del: times_pyfloat.simps of_int_1 less_pyfloat.simps)
  show ?thesis
    using assms plan h
    by (intro plan_shapeI [of _ "if b < m \<and> h < b then [h, b, m] else if b < m then [b, m]
        else if h < b then [h, b] else [b]"])
      (auto simp: quantities_def split: if_split_asm)
qed

lemma futures_tiers_shape:
  assumes "futures_tiers (exact b) (exact m) = Ok plan" "1 \<le> b" "b \<le> m" "m < 2 ^ 53"
  shows "plan_shape m plan"
proof -
  have f: "float_of_int b = Ok (exact b)" "float_of_int m = Ok (exact m)"
    using assms by (simp_all add: float_of_small_int)
  show ?thesis
    using assms f
    by (intro plan_shapeI [of _ "if 3 \<le> m \<and> 2 \<le> b then [1, b, m] else if 3 \<le> m then [1, 2, m]
        else if m = 2 then [1, 2] else [1]"])
      (auto simp: futures_tiers_def quantities_def one_pyfloat_def split: if_split_asm)
qed

lemma whole_shares_exact:
  assumes "whole_shares k budget unit (exact m) = Ok q" "k_min_shares k = exact j" "1 \<le> j" "j \<le> m"
  shows "\<exists>b. q = exact b \<and> 1 \<le> b \<and> b \<le> m"
proof -
  obtain raw w where w: "whole_units raw = Ok w"
    and q: "q = py_max 1 (py_max (exact j) (py_min (exact m) w))"
    using assms(1,2) by (auto simp: whole_shares_def bindr_Inr_iff)
  have wm: "\<exists>c. py_min (exact m) w = exact c \<and> c \<le> m"
  proof (cases "w < exact m")
    case True
    obtain n where "float_of_int n = Ok w" using w by (auto simp: whole_units_def bindr_Inr_iff)
    then obtain r where "w = Num r" "b64 (of_int n) = Num r"
      by (cases "b64 (of_int n)") (auto simp: float_of_int_def)
    with rd64_of_int [of n] b64_Num_eq obtain c where "w = exact c" by metis
    with True show ?thesis by (auto simp: py_min_def)
  next
    case False
    then show ?thesis by (auto simp: py_min_def)
  qed
  then obtain c where c: "py_min (exact m) w = exact c" "c \<le> m" by blast
  have "q = exact (max 1 (max j c))" unfolding q c(1) exact_one exact_py_max ..
  moreover have "1 \<le> max 1 (max j c)" "max 1 (max j c) \<le> m" using assms(3,4) c(2) by auto
  ultimately show ?thesis by blast
qed

lemma whole_contracts_exact:
  assumes "whole_contracts k budget unit (exact m) = Ok q" "1 \<le> k_min_contracts k" "k_min_contracts k \<le> m"
    "m < 2 ^ 53"
  shows "\<exists>b. q = exact b \<and> 1 \<le> b \<and> b \<le> m"
proof -
  obtain n where q: "float_of_int (py_max (k_min_contracts k) (py_min m (py_max 1 n))) = Ok q"
    using assms(1) by (auto simp: whole_contracts_def bindr_Inr_iff)
  define b where "b = py_max (k_min_contracts k) (py_min m (py_max 1 n))"
  have b: "1 \<le> b" "b \<le> m" using assms(2,3) by (auto simp: b_def py_max_def py_min_def)
  with assms(4) have "\<bar>b\<bar> < 2 ^ 53" by linarith
  with q b_def have "q = exact b" using float_of_small_int [of b] by (simp only: sum.inject)
  with b show ?thesis by blast
qed

lemma base_quantity_exact:
  assumes "base_quantity k req budget (exact m) = Ok q" "knobs_ok k" "\<not> exact m < min_units k req" "m < 2 ^ 53"
  shows "\<exists>b. q = exact b \<and> 1 \<le> b \<and> b \<le> m"
proof -
  obtain j where j: "min_units k req = exact j" "1 \<le> j"
    "z_asset_class req = EQUITY \<Longrightarrow> k_min_shares k = exact j"
    "z_asset_class req \<noteq> EQUITY \<Longrightarrow> k_min_contracts k = j"
    using min_units_exact [OF assms(2)] by blast
  have jm: "j \<le> m" using assms(3) j(1) by simp
  consider u where "z_asset_class req = EQUITY" "whole_shares k u (per_unit_risk req) (exact m) = Ok q"
    | u where "z_asset_class req \<noteq> EQUITY" "whole_contracts k u (per_unit_risk req) (exact m) = Ok q"
    | "q = 1"
  proof (cases "z_asset_class req = EQUITY")
    case True
    then show thesis using assms(1) that(1)
      by (cases "k_mode k") (simp_all add: base_quantity_def Let_def)
  next
    case False
    then show thesis using assms(1) that(2,3)
      by (cases "k_mode k") (simp_all add: base_quantity_def Let_def)
  qed
  then show ?thesis
  proof cases
    case 1
    then show ?thesis using whole_shares_exact [OF 1(2) j(3) j(2) jm] by blast
  next
    case 2
    then show ?thesis using whole_contracts_exact [OF 2(2)] j(2,4) jm assms(4) by blast
  next
    case 3
    then have "q = exact 1" by (simp only: exact_one)
    moreover have "1 \<le> m" using j(2) jm by linarith
    ultimately show ?thesis by blast
  qed
qed

subsection \<open>What a successful sizing computed\<close>

lemma tier_quantities_shape:
  assumes "tier_quantities req (exact b) (exact m) = Ok plan" "1 \<le> b" "b \<le> m" "m < 2 ^ 53"
  shows "plan_shape m plan"
  using assms equity_tiers_shape futures_tiers_shape by (simp add: tier_quantities_def split: if_split_asm)

lemma build_tier_fields:
  assumes "build_tier req cash' (tid, label, q, d) = Ok t"
  shows "t_quantity t = q" "is_default t = d"
  using assms by (auto simp: build_tier_def Let_def bindr_Inr_iff)

lemma build_tiers_quantities:
  assumes "mapr (build_tier req cash') plan = Ok ts"
  shows "map t_quantity ts = quantities plan" "map is_default ts = map (\<lambda>(_, _, _, d). d) plan"
proof -
  have "map t_quantity ts = quantities plan \<and> map is_default ts = map (\<lambda>(_, _, _, d). d) plan"
    using assms
  proof (induction plan arbitrary: ts)
    case (Cons p plan)
    obtain tid label q d where p: "p = (tid, label, q, d)" by (cases p) auto
    with Cons.prems obtain t us where "build_tier req cash' (tid, label, q, d) = Ok t"
      "mapr (build_tier req cash') plan = Ok us" "ts = t # us"
      by (auto simp: bindr_Inr_iff)
    with Cons.IH [of us] p show ?case by (simp add: build_tier_fields quantities_def)
  qed (simp add: quantities_def)
  then show "map t_quantity ts = quantities plan" "map is_default ts = map (\<lambda>(_, _, _, d). d) plan"
    by blast+
qed

lemma keep_default_none: "\<forall>t \<in> set ts. \<not> is_default t \<Longrightarrow> foldl keep_default (Some d) ts = Some d"
  by (induction ts) (auto simp: keep_default_def)

lemma keep_default_found:
  assumes "filter is_default ts = [d]"
  shows "foldl keep_default x ts = Some d"
  using assms
proof (induction ts arbitrary: x)
  case (Cons t ts)
  show ?case
  proof (cases "is_default t")
    case True
    with Cons.prems have "t = d" "filter is_default ts = []" by auto
    then have "\<forall>t \<in> set ts. \<not> is_default t" by (simp add: filter_empty_conv)
    with True \<open>t = d\<close> show ?thesis by (simp add: keep_default_def [of x] keep_default_none)
  next
    case False
    with Cons show ?thesis by simp
  qed
qed simp

lemma keep_max_last:
  assumes "map t_quantity ts = map exact ns" "sorted ns" "ts \<noteq> []"
    and "\<And>t. x = Some t \<Longrightarrow> \<exists>n. t_quantity t = exact n \<and> n \<le> hd ns"
  shows "foldl keep_max x ts = Some (last ts)"
  using assms
proof (induction ts arbitrary: x ns)
  case (Cons t ts)
  then obtain n ms where ns: "ns = n # ms" "t_quantity t = exact n" "map t_quantity ts = map exact ms"
    by (cases ns) auto
  have k: "keep_max x t = Some t"
    using Cons.prems(4) ns by (cases x) (auto simp: keep_max_def)
  show ?case
  proof (cases "ts = []")
    case True
    then show ?thesis using k by simp
  next
    case False
    have "n \<le> hd ms" using False Cons.prems(2) ns by (cases ms) auto
    then have "foldl keep_max (Some t) ts = Some (last ts)"
      using Cons.IH [of ms "Some t"] Cons.prems(2) ns False by auto
    then show ?thesis using k False by simp
  qed
qed simp

text \<open>The offered result: growing whole tiers up to the largest permissible quantity.\<close>

lemma offer_tiers_shape:
  assumes "offer_tiers k req budget (exact m) reasons = Ok res" "knobs_ok k"
    "\<not> exact m < min_units k req" "m < 2 ^ 53"
  shows "\<exists>ns. map t_quantity (tiers res) = map exact ns \<and> sorted ns \<and> ns \<noteq> [] \<and> 1 \<le> hd ns
      \<and> last ns = m \<and> max_tier res = last (tiers res)
      \<and> filter is_default (tiers res) = [default_tier res]"
proof -
  obtain q plan ts where q: "base_quantity k req budget (exact m) = Ok q"
    and plan: "tier_quantities req q (exact m) = Ok plan"
    and ts: "mapr (build_tier req (capital budget)) plan = Ok ts"
    and res: "(case (foldl keep_default None ts, foldl keep_max None ts) of
         (Some d, Some m) \<Rightarrow> Ok \<lparr>default_tier = d, max_tier = m, tiers = ts,
            sized_drawdown_factor = drawdown_factor budget, gating_reasons = reasons\<rparr>
       | _ \<Rightarrow> Raise AssertionError) = Ok res"
    using assms(1) by (auto simp: offer_tiers_def bindr_Inr_iff)
  obtain b where "q = exact b" "1 \<le> b" "b \<le> m" using base_quantity_exact [OF q assms(2-4)] by blast
  then have shape: "plan_shape m plan" using tier_quantities_shape plan assms(4) by blast
  note built = build_tiers_quantities [OF ts]
  obtain ns where ns: "map t_quantity ts = map exact ns" "sorted ns" "ns \<noteq> []" "1 \<le> hd ns" "last ns = m"
    using shape built(1) by (auto simp: plan_shape_def)
  have "length (filter is_default ts) = length (filter (\<lambda>x. x) (map is_default ts))"
    by (simp add: filter_map comp_def)
  also have "\<dots> = length (filter (\<lambda>(_, _, _, d). d) plan)"
    unfolding built(2) by (simp add: filter_map comp_def case_prod_unfold)
  also have "\<dots> = 1" using shape by (simp add: plan_shape_def)
  finally obtain d where d: "filter is_default ts = [d]" by (cases "filter is_default ts") auto
  have "ts \<noteq> []" using ns by auto
  then have "foldl keep_max None ts = Some (last ts)" using ns keep_max_last by blast
  with res keep_default_found [OF d, of None]
  have "res = \<lparr>default_tier = d, max_tier = last ts, tiers = ts,
       sized_drawdown_factor = drawdown_factor budget, gating_reasons = reasons\<rparr>" by simp
  with ns d show ?thesis by auto
qed

text \<open>The intermediate values of a run that returned.\<close>

lemma calculate_dynamic_sizingE:
  assumes "calculate_dynamic_sizing config k req = Ok res"
  obtains limits budget by_risk by_notional cap whole reasons where
    "limits_from_config config = Ok limits"
    "per_trade_risk_budget limits (z_equity req) (z_drawdown_pct req) (z_macro_multiplier req) = Ok budget"
    "\<And>c. z_risk_cap req = Some c \<Longrightarrow> 0 < c"
    "fdiv (max_risk_dollars req budget) (per_unit_risk req) = Ok by_risk"
    "fdiv (trade_notional_ceiling config req) (unit_notional req) = Ok by_notional"
    "float_of_int (count_cap config req) = Ok cap"
    "whole_units (py_min (py_min cap by_risk) by_notional) = Ok whole"
    "(feq (drawdown_factor budget) 0 \<or> py_max 0 whole < min_units k req)
       \<and> tiers res = [BLOCKED_TIER] \<and> default_tier res = BLOCKED_TIER \<and> max_tier res = BLOCKED_TIER
     \<or> \<not> feq (drawdown_factor budget) 0 \<and> \<not> py_max 0 whole < min_units k req
       \<and> offer_tiers k req budget (py_max 0 whole) reasons = Ok res"
proof -
  obtain limits budget by_risk by_notional cap whole where
    1: "limits_from_config config = Ok limits"
    "per_trade_risk_budget limits (z_equity req) (z_drawdown_pct req) (z_macro_multiplier req) = Ok budget"
    and 2: "\<not> (case z_risk_cap req of None \<Rightarrow> False | Some c \<Rightarrow> \<not> 0 < c)"
    and 3: "fdiv (max_risk_dollars req budget) (per_unit_risk req) = Ok by_risk"
    "fdiv (trade_notional_ceiling config req) (unit_notional req) = Ok by_notional"
    "float_of_int (count_cap config req) = Ok cap"
    "whole_units (py_min (py_min cap by_risk) by_notional) = Ok whole"
    and run: "calculate_dynamic_sizing config k req = Ok res"
    using assms
    by (simp only: calculate_dynamic_sizing_def bindr_Inr_iff raise_if_Inr_iff Let_def) blast
  have cap: "\<And>c. z_risk_cap req = Some c \<Longrightarrow> 0 < c" using 2 by simp
  show thesis
  proof (cases "feq (drawdown_factor budget) 0 \<or> py_max 0 whole < min_units k req")
    case True
    then have "tiers res = [BLOCKED_TIER] \<and> default_tier res = BLOCKED_TIER \<and> max_tier res = BLOCKED_TIER"
      using run 1 2 3 by (simp add: calculate_dynamic_sizing_def Let_def) (metis sizing_result.select_convs)
    with True show thesis using that 1 cap 3 by blast
  next
    case False
    then obtain reasons where "offer_tiers k req budget (py_max 0 whole) reasons = Ok res"
      using run 1 2 3 by (simp add: calculate_dynamic_sizing_def Let_def)
    with False show thesis using that 1 cap 3 by blast
  qed
qed

subsection \<open>The amounts are numbers\<close>

lemma CENT_pos: "\<exists>c. CENT = Num c \<and> 0 < c"
proof -
  have "b64 (1/128) \<le> b64 (1/100)" "b64 (1/100) \<le> b64 1" by (intro b64_mono; simp)+
  moreover have "b64 (1/128) = Num (1/128)" using b64_dyadic [of 1 7] by simp
  ultimately show ?thesis by (cases "b64 (1/100)") (auto simp: CENT_def)
qed

lemma py_max_CENT:
  assumes "isfinite a" "isfinite b"
  shows "py_max (a * b) CENT = PosInf \<or> (\<exists>u. py_max (a * b) CENT = Num u \<and> 0 < u)"
proof -
  obtain c where c: "CENT = Num c" "0 < c" using CENT_pos by blast
  obtain x y where "a = Num x" "b = Num y" using assms by (auto simp: isfinite_iff)
  then have "a * b \<noteq> NaN" by simp
  then show ?thesis unfolding c(1) using c(2) by (cases "a * b") (auto simp: py_max_def)
qed

lemma fdiv_amount:
  assumes "0 \<le> D" "u = PosInf \<or> (\<exists>v. u = Num v \<and> 0 < v)" "fdiv (Num D) u = Ok x"
  shows "0 \<le> x" "x \<noteq> NaN"
  using assms by (auto simp: zero_pyfloat_def [symmetric])

definition request_ok :: "sizing_request \<Rightarrow> bool" where
  "request_ok req = (isfinite (z_entry req) \<and> isfinite (z_stop_distance req) \<and> isfinite (z_multiplier req)
     \<and> isfinite (z_open_notional req))"

definition sizing_policy_ok :: "app_config \<Rightarrow> sizing_request \<Rightarrow> bool" where
  "sizing_policy_ok config req = (policy_ok (s_drawdown (c_sizing config))
     \<and> s_max_risk_pct_cap (c_sizing config) \<le> 1 \<and> representable (p_cash (c_portfolio config))
     \<and> (case z_equity req of None \<Rightarrow> True | Some e \<Rightarrow> representable e) \<and> count_cap config req < 2 ^ 53)"

lemma limits_of_config_fields:
  assumes "limits_from_config config = Ok l"
  shows "cash l = p_cash (c_portfolio config)" "dd_policy l = s_drawdown (c_sizing config)"
    "max_risk_pct_cap l = s_max_risk_pct_cap (c_sizing config)"
    "max_trade_notional_cap l = s_max_trade_notional_cap (c_sizing config)"
    "max_notional_exposure l = p_max_notional_exposure (c_portfolio config)"
    "0 \<le> s_max_shares_per_trade (c_sizing config)" "0 \<le> s_max_contracts_per_trade (c_sizing config)"
proof -
  have ci: "cap_int n m = Ok x \<Longrightarrow> 0 \<le> m" for n m x
  proof -
    assume "cap_int n m = Ok x"
    then obtain y where "float_of_int m = Ok y" "fin_nonneg y"
      by (auto simp: cap_int_def bindr_Inr_iff cap_limit_Ok_iff)
    then obtain r where r: "b64 (of_int m) = Num r" "0 \<le> r"
      by (cases "b64 (of_int m)") (auto simp: float_of_int_def fin_nonneg_def)
    show "0 \<le> m"
    proof (rule ccontr)
      assume "\<not> 0 \<le> m"
      then have "m \<le> -1" by simp
      then have "b64 (of_int m) \<le> b64 (of_int (-1))" by (intro b64_mono) (simp only: of_int_le_iff)
      also have "b64 (of_int (-1)) = Num (-1)" using b64_int [of "-1"] by simp
      finally show False using r by simp
    qed
  qed
  show "cash l = p_cash (c_portfolio config)" "max_risk_pct_cap l = s_max_risk_pct_cap (c_sizing config)"
    "max_trade_notional_cap l = s_max_trade_notional_cap (c_sizing config)"
    "max_notional_exposure l = p_max_notional_exposure (c_portfolio config)"
    using assms by (auto simp: limits_from_config_def Let_def bindr_Inr_iff cap_limit_Ok_iff)
  show "dd_policy l = s_drawdown (c_sizing config)"
    using assms by (auto simp: limits_from_config_def Let_def bindr_Inr_iff ratio_limit_Ok_iff)
  show "0 \<le> s_max_shares_per_trade (c_sizing config)" "0 \<le> s_max_contracts_per_trade (c_sizing config)"
    using assms ci unfolding limits_from_config_def Let_def bindr_Inr_iff by blast+
qed

lemma max_risk_dollars_amount:
  assumes "isfinite (dollars budget)" "0 \<le> dollars budget" "\<And>c. z_risk_cap req = Some c \<Longrightarrow> 0 < c"
  obtains D where "max_risk_dollars req budget = Num D" "0 \<le> D" "Num D \<le> dollars budget"
proof (cases "cap_applies req budget")
  case True
  then obtain c where c: "z_risk_cap req = Some c" "c < dollars budget" "max_risk_dollars req budget = c"
    by (auto simp: cap_applies_def max_risk_dollars_def split: option.split_asm)
  with assms obtain x y where "c = Num x" "dollars budget = Num y" "0 < x" "x < y"
    by (cases c; cases "dollars budget") fastforce+
  with that [of x] c show thesis by simp
next
  case False
  with assms that show thesis by (auto simp: max_risk_dollars_def isfinite_iff)
qed

lemma trade_notional_ceiling_amount:
  assumes "fin_nonneg (s_max_trade_notional_cap (c_sizing config))"
    "fin_nonneg (p_max_notional_exposure (c_portfolio config))" "isfinite (z_open_notional req)"
  obtains C where "trade_notional_ceiling config req = Num C" "0 \<le> C"
    "Num C \<le> s_max_trade_notional_cap (c_sizing config)"
proof -
  obtain x where x: "s_max_trade_notional_cap (c_sizing config) = Num x" "0 \<le> x"
    using assms(1) by (auto simp: fin_nonneg_def isfinite_iff)
  define d where "d = p_max_notional_exposure (c_portfolio config) - z_open_notional req"
  have "d \<noteq> NaN" unfolding d_def using assms(2,3) by (intro fsub_finite_not_NaN) (simp_all add: fin_nonneg_def)
  then have "trade_notional_ceiling config req = Num x \<or>
      (\<exists>C. trade_notional_ceiling config req = Num C \<and> 0 \<le> C \<and> C \<le> x)"
    using x by (cases d) (auto simp: trade_notional_ceiling_def remaining_notional_def d_def [symmetric]
        py_min_def py_max_def zero_pyfloat_def)
  with that x show thesis by auto
qed

lemma py_min3_le:
  assumes "a \<noteq> NaN" "b \<noteq> NaN" "c \<noteq> NaN" "0 \<le> a" "0 \<le> b" "0 \<le> c"
  shows "py_min (py_min a b) c \<le> a" "py_min (py_min a b) c \<le> b" "py_min (py_min a b) c \<le> c"
    "0 \<le> py_min (py_min a b) (c :: pyfloat)"
  using assms by (cases a; cases b; cases c; auto simp: py_min_def)+

text \<open>
  The largest permissible quantity: a whole number of units within the count cap that the risk dollars
  and the notional ceiling can pay for.
\<close>

definition affordable :: "app_config \<Rightarrow> sizing_request \<Rightarrow> risk_budget \<Rightarrow> int \<Rightarrow> bool" where
  "affordable config req budget n \<longleftrightarrow> 1 \<le> n \<and> n \<le> count_cap config req
     \<and> (\<exists>u v D C. per_unit_risk req = Num u \<and> unit_notional req = Num v
          \<and> max_risk_dollars req budget = Num D \<and> trade_notional_ceiling config req = Num C
          \<and> Num D \<le> dollars budget \<and> Num C \<le> s_max_trade_notional_cap (c_sizing config)
          \<and> of_int n * u \<le> D * (1 + 1 / 2 ^ 53) \<and> of_int n * v \<le> C * (1 + 1 / 2 ^ 53))"

lemma whole_quotient_unit:
  assumes "fdiv (Num D) u = Ok x" "u = PosInf \<or> (\<exists>v. u = Num v \<and> 0 < v)" "exact n \<le> x" "1 \<le> n" "n < 2 ^ 53"
    "0 \<le> D"
  shows "\<exists>v. u = Num v \<and> of_int n * v \<le> D * (1 + 1 / 2 ^ 53)"
proof (cases u)
  case (Num v)
  then have v: "0 < v" and xq: "x = b64 (D / v)" using assms(1,2) by (auto split: if_split_asm)
  have "of_int n * v \<le> D * (1 + 1 / 2 ^ 53)"
  proof (cases x)
    case (Num z)
    with assms(1,3,4) v \<open>u = Num v\<close> show ?thesis by (intro whole_units_afford [of D v z n]) simp_all
  next
    case PosInf
    have "of_int n \<le> D / v"
    proof (rule ccontr)
      assume "\<not> of_int n \<le> D / v"
      then have "b64 (D / v) \<le> b64 (of_int n)" by (intro b64_mono) simp
      also have "b64 (of_int n) = exact n" using assms(4,5) by (intro b64_int) simp
      finally show False using PosInf xq by simp
    qed
    then have "of_int n * v \<le> D" using v by (simp add: pos_le_divide_eq)
    also have "D \<le> D * (1 + 1 / 2 ^ 53)" using assms(6) by (simp add: distrib_left)
    finally show ?thesis .
  qed (use assms(3) in auto)
  with Num show ?thesis by blast
next
  case PosInf
  then have "x = Num 0" using assms(1) by simp
  with assms(3,4) show ?thesis by simp
qed (use assms(2) in auto)

lemma sizing_result_cases:
  assumes run: "calculate_dynamic_sizing config k req = Ok res"
    and ok: "knobs_ok k" "request_ok req" "sizing_policy_ok config req"
  obtains "tiers res = [BLOCKED_TIER]" "default_tier res = BLOCKED_TIER" "max_tier res = BLOCKED_TIER"
  | limits budget m ns where "limits_from_config config = Ok limits"
    "per_trade_risk_budget limits (z_equity req) (z_drawdown_pct req) (z_macro_multiplier req) = Ok budget"
    "affordable config req budget m"
    "map t_quantity (tiers res) = map exact ns" "sorted ns" "ns \<noteq> []" "1 \<le> hd ns" "last ns = m"
    "max_tier res = last (tiers res)" "filter is_default (tiers res) = [default_tier res]"
proof -
  obtain limits budget by_risk by_notional cap whole reasons where
    l: "limits_from_config config = Ok limits"
    and b: "per_trade_risk_budget limits (z_equity req) (z_drawdown_pct req) (z_macro_multiplier req) = Ok budget"
    and rc: "\<And>c. z_risk_cap req = Some c \<Longrightarrow> 0 < c"
    and br: "fdiv (max_risk_dollars req budget) (per_unit_risk req) = Ok by_risk"
    and bn: "fdiv (trade_notional_ceiling config req) (unit_notional req) = Ok by_notional"
    and cap: "float_of_int (count_cap config req) = Ok cap"
    and whole: "whole_units (py_min (py_min cap by_risk) by_notional) = Ok whole"
    and out: "(feq (drawdown_factor budget) 0 \<or> py_max 0 whole < min_units k req)
       \<and> tiers res = [BLOCKED_TIER] \<and> default_tier res = BLOCKED_TIER \<and> max_tier res = BLOCKED_TIER
     \<or> \<not> feq (drawdown_factor budget) 0 \<and> \<not> py_max 0 whole < min_units k req
       \<and> offer_tiers k req budget (py_max 0 whole) reasons = Ok res"
    by (rule calculate_dynamic_sizingE [OF run]) blast
  note f = limits_of_config_fields [OF l]
  note lok = limits_from_config_ok [OF l, unfolded limits_ok_def f]
  note pol = ok(3) [unfolded sizing_policy_ok_def]
  have "isfinite (dollars budget) \<and> 0 \<le> dollars budget"
    using per_trade_risk_budget_bounded [OF b] pol lok
    unfolding f fin_nonneg_def by (auto split: option.split_asm)
  then obtain D where D: "max_risk_dollars req budget = Num D" "0 \<le> D" "Num D \<le> dollars budget"
    using max_risk_dollars_amount rc by blast
  obtain C where C: "trade_notional_ceiling config req = Num C" "0 \<le> C"
    "Num C \<le> s_max_trade_notional_cap (c_sizing config)"
    using trade_notional_ceiling_amount lok ok(2) by (auto simp: request_ok_def)
  have u: "per_unit_risk req = PosInf \<or> (\<exists>v. per_unit_risk req = Num v \<and> 0 < v)"
    "unit_notional req = PosInf \<or> (\<exists>v. unit_notional req = Num v \<and> 0 < v)"
    using ok(2) py_max_CENT unfolding per_unit_risk_def unit_notional_def request_ok_def by blast+
  note r = fdiv_amount [OF D(2) u(1) br [unfolded D]] and q = fdiv_amount [OF C(2) u(2) bn [unfolded C]]
  have cc: "0 \<le> count_cap config req" "count_cap config req < 2 ^ 53" "cap = exact (count_cap config req)"
    using f pol cap float_of_small_int [of "count_cap config req"] by (auto simp: count_cap_def)
  define raw where "raw = py_min (py_min cap by_risk) by_notional"
  have raw: "raw \<le> cap" "raw \<le> by_risk" "raw \<le> by_notional" "0 \<le> raw"
    unfolding raw_def using cc r q by (intro py_min3_le; simp)+
  obtain x where x: "raw = Num x" "whole = exact \<lfloor>x\<rfloor>" "0 \<le> \<lfloor>x\<rfloor>" "\<lfloor>x\<rfloor> \<le> count_cap config req"
    using whole_units_below [OF whole [folded raw_def]] raw(1,4) cc by blast
  then have m: "py_max 0 whole = exact \<lfloor>x\<rfloor>" unfolding x(2) exact_zero exact_py_max by (simp only: max_absorb2)
  from out show thesis
  proof (elim disjE conjE)
    assume nb: "\<not> py_max 0 whole < min_units k req" and offer: "offer_tiers k req budget (py_max 0 whole) reasons = Ok res"
    obtain j where "min_units k req = exact j" "1 \<le> j" using min_units_exact [OF ok(1)] by blast
    with nb m have "\<not> \<lfloor>x\<rfloor> < j" by simp
    with \<open>1 \<le> j\<close> have one: "1 \<le> \<lfloor>x\<rfloor>" by linarith
    have "exact \<lfloor>x\<rfloor> \<le> raw" using x(1) by simp
    then have le: "exact \<lfloor>x\<rfloor> \<le> by_risk" "exact \<lfloor>x\<rfloor> \<le> by_notional" using raw fle_trans by blast+
    have small: "\<lfloor>x\<rfloor> < 2 ^ 53" using x(4) cc(2) by linarith
    have "affordable config req budget \<lfloor>x\<rfloor>"
      using whole_quotient_unit [OF br [unfolded D] u(1) le(1) one small D(2)]
        whole_quotient_unit [OF bn [unfolded C] u(2) le(2) one small C(2)] x(4) one C(1,3) D(1,3)
      unfolding affordable_def by blast
    with small show thesis
      using offer_tiers_shape [OF offer [unfolded m] ok(1) nb [unfolded m]] that(2) [OF l b] by blast
  qed (use that(1) in blast)+
qed

lemma sorted_hd_le: "sorted ns \<Longrightarrow> n \<in> set ns \<Longrightarrow> hd ns \<le> (n :: int)"
  by (cases ns) auto

lemma sorted_le_last: "sorted ns \<Longrightarrow> n \<in> set ns \<Longrightarrow> n \<le> (last ns :: int)"
  by (induction ns rule: rev_induct) (auto simp: sorted_append)

lemma affordable_mono:
  assumes "affordable config req budget m" "1 \<le> n" "n \<le> m"
  shows "affordable config req budget n"
proof -
  obtain u v D C where a: "per_unit_risk req = Num u" "unit_notional req = Num v"
    "max_risk_dollars req budget = Num D" "trade_notional_ceiling config req = Num C"
    "Num D \<le> dollars budget" "Num C \<le> s_max_trade_notional_cap (c_sizing config)"
    "of_int m * u \<le> D * (1 + 1 / 2 ^ 53)" "of_int m * v \<le> C * (1 + 1 / 2 ^ 53)" "m \<le> count_cap config req"
    using assms(1) unfolding affordable_def by blast
  obtain c where c: "CENT = Num c" "0 < c" using CENT_pos by blast
  have "c \<le> u" "c \<le> v"
    using a(1,2) by (auto simp: per_unit_risk_def unit_notional_def c(1) py_max_def split: if_split_asm)
  then have "0 \<le> u" "0 \<le> v" using c(2) by simp_all
  then have "of_int n * u \<le> of_int m * u" "of_int n * v \<le> of_int m * v"
    using assms(3) by (auto intro!: mult_right_mono)
  then have "of_int n * u \<le> D * (1 + 1 / 2 ^ 53)" "of_int n * v \<le> C * (1 + 1 / 2 ^ 53)"
    using a(7,8) by (blast intro: order_trans)+
  moreover have "n \<le> count_cap config req" using a(9) assms(3) by simp
  ultimately show ?thesis using a(1-6) assms(2) unfolding affordable_def by blast
qed

subsection \<open>What scaling keeps\<close>

lemma scaled_tierD:
  assumes "scaled_tier f least c t = Ok (Some t')"
  shows "scaled_units (t_quantity t) f = Ok (t_quantity t')" "\<not> t_quantity t' < least" "\<not> t_quantity t \<le> 0"
    "is_default t' = is_default t" "tier_id t' = tier_id t" "tier_label t' = tier_label t"
  using assms by (auto simp: scaled_tier_def Let_def bindr_Inr_iff split: if_split_asm)

lemma scaled_units_Num:
  assumes "scaled_units q f = Ok w"
  shows "\<exists>r n. q * f = Num r \<and> w = Num (rd64 (of_int \<lfloor>r\<rfloor>)) \<and> w = exact n"
proof -
  obtain r where r: "q * f = Num r" "float_of_int \<lfloor>r\<rfloor> = Ok w"
    using assms by (auto simp: scaled_units_def math_floor_def bindr_Inr_iff split: pyfloat.split_asm)
  then obtain s where "b64 (of_int \<lfloor>r\<rfloor>) = Num s" "w = Num s"
    by (cases "b64 (of_int \<lfloor>r\<rfloor>)") (auto simp: float_of_int_def)
  then have "w = Num (rd64 (of_int \<lfloor>r\<rfloor>))" using b64_Num_eq by blast
  with r(1) rd64_of_int [of "\<lfloor>r\<rfloor>"] show ?thesis by fastforce
qed

lemma scaled_units_le:
  assumes "scaled_units q f = Ok w" "0 \<le> f" "f \<le> 1" "0 \<le> q" "representable q"
  shows "w \<le> q"
proof -
  obtain r where r: "q * f = Num r" "w = Num (rd64 (of_int \<lfloor>r\<rfloor>))" using scaled_units_Num [OF assms(1)] by blast
  have "rd64 (of_int \<lfloor>r\<rfloor>) \<le> rd64 r" by (intro bin64.rd_mono) simp
  also have "rd64 r = r" using representable_times [of q f] r(1) b64_Num_eq by (simp add: representable_def)
  finally have wr: "w \<le> Num r" using r(2) by simp
  show "w \<le> q"
  proof (cases "isfinite q")
    case True
    then show ?thesis using fmul_unit_le(1) [OF assms(5,4) True assms(2,3)] wr r(1) fle_trans by simp
  next
    case False
    with assms(4) have "q = PosInf" by (cases q) auto
    then show ?thesis using r(2) by simp
  qed
qed

lemma keep_tier_default:
  "\<not> is_default t \<Longrightarrow> filter is_default (keep_tier t es) = filter is_default es"
  "is_default t \<Longrightarrow> filter is_default es = [] \<Longrightarrow> filter is_default (keep_tier t es) = [t]"
  by (induction es) (auto simp: filter_empty_conv)

lemma keep_tier_members: "set (keep_tier t es) \<subseteq> insert t (set es)"
  by (induction es) auto

lemma keep_tier_quantities: "t_quantity ` set (keep_tier t es) = insert (t_quantity t) (t_quantity ` set es)"
  by (induction es) auto

lemma keep_tier_distinct:
  "distinct (map t_quantity es) \<Longrightarrow> distinct (map t_quantity (keep_tier t es))"
  using keep_tier_quantities by (induction es) auto

lemma scale_tiers_members:
  assumes "scale_tiers scale ts acc = Ok es" "e \<in> set es"
  shows "e \<in> set acc \<or> (\<exists>t \<in> set ts. scale t = Ok (Some e))"
  using assms
proof (induction ts arbitrary: acc)
  case (Cons t ts)
  then obtain s where s: "scale t = Ok s"
    "scale_tiers scale ts (case s of None \<Rightarrow> acc | Some t' \<Rightarrow> keep_tier t' acc) = Ok es"
    by (auto simp: bindr_Inr_iff)
  with Cons.IH Cons.prems(2) s keep_tier_members show ?case by (cases s) fastforce+
qed simp

lemma scale_tiers_runs:
  assumes "scale_tiers scale ts acc = Ok es" "t \<in> set ts"
  shows "\<exists>x. scale t = Ok x"
  using assms by (induction ts arbitrary: acc) (auto simp: bindr_Inr_iff)

lemma scale_tiers_distinct:
  assumes "scale_tiers scale ts acc = Ok es" "distinct (map t_quantity acc)"
  shows "distinct (map t_quantity es)"
  using assms
proof (induction ts arbitrary: acc)
  case (Cons t ts)
  then obtain s where "scale_tiers scale ts (case s of None \<Rightarrow> acc | Some t' \<Rightarrow> keep_tier t' acc) = Ok es"
    by (auto simp: bindr_Inr_iff)
  with Cons keep_tier_distinct show ?case by (cases s) auto
qed simp

lemma scale_tiers_other:
  assumes "scale_tiers scale ts acc = Ok es" "\<And>t t'. scale t = Ok (Some t') \<Longrightarrow> is_default t' = is_default t"
    "filter is_default ts = []"
  shows "filter is_default es = filter is_default acc"
  using assms
proof (induction ts arbitrary: acc)
  case (Cons t ts)
  then obtain s where s: "scale t = Ok s"
    "scale_tiers scale ts (case s of None \<Rightarrow> acc | Some t' \<Rightarrow> keep_tier t' acc) = Ok es"
    by (auto simp: bindr_Inr_iff)
  have "\<not> is_default t" "filter is_default ts = []" using Cons.prems(3) by (auto split: if_split_asm)
  with Cons.IH [OF s(2) Cons.prems(2)] Cons.prems(2) s(1) keep_tier_default(1) show ?case by (cases s) auto
qed simp

lemma scale_tiers_default:
  assumes "scale_tiers scale ts acc = Ok es" "\<And>t t'. scale t = Ok (Some t') \<Longrightarrow> is_default t' = is_default t"
    "filter is_default ts = [d]" "filter is_default acc = []" "scale d = Ok x"
  shows "filter is_default es = (case x of None \<Rightarrow> [] | Some d' \<Rightarrow> [d'])"
  using assms
proof (induction ts arbitrary: acc)
  case (Cons t ts)
  then obtain s where s: "scale t = Ok s"
    "scale_tiers scale ts (case s of None \<Rightarrow> acc | Some t' \<Rightarrow> keep_tier t' acc) = Ok es"
    by (auto simp: bindr_Inr_iff)
  show ?case
  proof (cases "is_default t")
    case True
    with Cons.prems(3) have t: "t = d" "filter is_default ts = []" by auto
    have "s = x" using s(1) t(1) Cons.prems(5) by simp
    moreover have "is_default d'" if "x = Some d'" for d'
      using True Cons.prems(2) s(1) that t(1) Cons.prems(5) by blast
    ultimately show ?thesis
      using scale_tiers_other [OF s(2) Cons.prems(2) t(2)] keep_tier_default(2) Cons.prems(4) by (cases x) auto
  next
    case False
    with Cons.prems(3) have ts: "filter is_default ts = [d]" by simp
    have "filter is_default (case s of None \<Rightarrow> acc | Some t' \<Rightarrow> keep_tier t' acc) = []"
      using False Cons.prems(2,4) s(1) keep_tier_default(1) by (cases s) auto
    from Cons.IH [OF s(2) Cons.prems(2) ts this Cons.prems(5)] show ?thesis by simp
  qed
qed simp

lemma mset_insert_tier: "mset (insert_tier t es) = add_mset t (mset es)"
  by (induction es) auto

lemma mset_sort_tiers: "mset (sort_tiers ts) = mset ts"
  by (induction ts) (simp_all add: sort_tiers_def mset_insert_tier)

lemma find_filter: "find P xs = (case filter P xs of [] \<Rightarrow> None | x # _ \<Rightarrow> Some x)"
  by (induction xs) auto

lemma filter_sort_tiers:
  "filter P ts = [] \<Longrightarrow> filter P (sort_tiers ts) = []" "filter P ts = [d] \<Longrightarrow> filter P (sort_tiers ts) = [d]"
proof -
  have eq: "mset (filter P (sort_tiers ts)) = mset (filter P ts)" by (simp add: mset_filter mset_sort_tiers)
  then show "filter P ts = [] \<Longrightarrow> filter P (sort_tiers ts) = []" by simp
  show "filter P ts = [d] \<Longrightarrow> filter P (sort_tiers ts) = [d]"
    using eq by (metis mset_single_iff_right mset.simps)
qed

lemma insert_tier_sorted:
  assumes "sorted_wrt (<) (map t_quantity es)" "\<And>e. e \<in> insert t (set es) \<Longrightarrow> isfinite (t_quantity e)"
    "t_quantity t \<notin> t_quantity ` set es"
  shows "sorted_wrt (<) (map t_quantity (insert_tier t es))"
  using assms
proof (induction es)
  case (Cons e es)
  obtain a b where ab: "t_quantity t = Num a" "t_quantity e = Num b"
    using Cons.prems(2) [of t] Cons.prems(2) [of e] by (auto simp: isfinite_iff)
  have lt: "Num b < t_quantity x" if "x \<in> set es" for x using Cons.prems(1) that ab by simp
  show ?case
  proof (cases "a < b")
    case True
    then have "Num a < t_quantity x" if "x \<in> set es" for x
      using lt [OF that] by (cases "t_quantity x") auto
    with True Cons.prems(1) ab show ?thesis by simp
  next
    case False
    moreover have "a \<noteq> b" using Cons.prems(3) ab by auto
    ultimately have "Num b < t_quantity x" if "x \<in> set (insert_tier t es)" for x
      using that lt ab by (metis less_pyfloat.simps(1) linorder_neqE mset_insert_tier set_mset_add_mset_insert
          set_mset_mset insert_iff)
    moreover have "sorted_wrt (<) (map t_quantity (insert_tier t es))"
      by (rule Cons.IH) (use Cons.prems in auto)
    ultimately show ?thesis using False ab by simp
  qed
qed simp

lemma sort_tiers_sorted:
  assumes "distinct (map t_quantity ts)" "\<And>t. t \<in> set ts \<Longrightarrow> isfinite (t_quantity t)"
  shows "sorted_wrt (<) (map t_quantity (sort_tiers ts))"
  using assms
proof (induction ts)
  case (Cons t ts)
  have s: "set (sort_tiers ts) = set ts" using mset_sort_tiers [of ts] by (metis set_mset_mset)
  have "sorted_wrt (<) (map t_quantity (insert_tier t (sort_tiers ts)))"
    using Cons s by (intro insert_tier_sorted) auto
  then show ?case by (simp add: sort_tiers_def)
qed (simp add: sort_tiers_def)

subsection \<open>Claims\<close>

text \<open>
  C20. Whatever the mode, the account and the card's own cap, every tier a card offers is the blocked
  tier (no units) or a whole number of units within the count cap whose stop risk stays within the
  per-trade risk budget (or the lower card cap) and whose notional stays within the trade ceiling, up to
  one part in \<open>2^53\<close>, the rounding of one float division.
\<close>

theorem tiers_within_budget:
  assumes "calculate_dynamic_sizing config k req = Ok res"
    and "knobs_ok k" "request_ok req" "sizing_policy_ok config req"
    and "t \<in> set (tiers res)"
  shows "t = BLOCKED_TIER \<or> (\<exists>limits budget n. limits_from_config config = Ok limits
      \<and> per_trade_risk_budget limits (z_equity req) (z_drawdown_pct req) (z_macro_multiplier req) = Ok budget
      \<and> t_quantity t = exact n \<and> affordable config req budget n)"
proof (rule sizing_result_cases [OF assms(1-4)])
  assume "tiers res = [BLOCKED_TIER]"
  with assms(5) show ?thesis by simp
next
  fix limits budget m ns
  assume lb: "limits_from_config config = Ok limits"
      "per_trade_risk_budget limits (z_equity req) (z_drawdown_pct req) (z_macro_multiplier req) = Ok budget"
    and m: "affordable config req budget m"
    and ns: "map t_quantity (tiers res) = map exact ns" "sorted ns" "ns \<noteq> []" "1 \<le> hd ns" "last ns = m"
  have "t_quantity t \<in> set (map exact ns)" using assms(5) ns(1) by (metis imageI list.set_map)
  then obtain n where n: "t_quantity t = exact n" "n \<in> set ns" by auto
  have "hd ns \<le> n" "n \<le> m" using ns n(2) sorted_hd_le sorted_le_last by metis+
  then have "affordable config req budget n" using affordable_mono [OF m] ns(4) by simp
  with lb n(1) show ?thesis by blast
qed

text \<open>
  C21. A sized card is well formed: the tiers grow from at least one unit (a blocked card has the one blocked tier),
  exactly one of them is the default, and it is the one the card headlines; the tier reported as the
  largest is the last one, and no tier offers more.
\<close>

theorem sizing_well_formed:
  assumes "calculate_dynamic_sizing config k req = Ok res"
    and "knobs_ok k" "request_ok req" "sizing_policy_ok config req"
  shows "filter is_default (tiers res) = [default_tier res] \<and> max_tier res = last (tiers res)
    \<and> sorted_wrt (\<le>) (map t_quantity (tiers res))
    \<and> (\<forall>t \<in> set (tiers res). t_quantity t \<le> t_quantity (max_tier res))
    \<and> (tiers res = [BLOCKED_TIER] \<or> (\<forall>t \<in> set (tiers res). 1 \<le> t_quantity t))"
proof (rule sizing_result_cases [OF assms])
  assume b: "tiers res = [BLOCKED_TIER]" "default_tier res = BLOCKED_TIER" "max_tier res = BLOCKED_TIER"
  have "is_default BLOCKED_TIER" "t_quantity BLOCKED_TIER = 0" by (simp_all add: BLOCKED_TIER_def)
  then show ?thesis unfolding b by simp
next
  fix limits budget m ns
  assume ns: "map t_quantity (tiers res) = map exact ns" "sorted ns" "ns \<noteq> []" "1 \<le> hd ns" "last ns = m"
    and t: "max_tier res = last (tiers res)" "filter is_default (tiers res) = [default_tier res]"
  have "tiers res \<noteq> []" using ns by auto
  then have top: "t_quantity (max_tier res) = exact (last ns)"
    using ns(1,3) t(1) by (metis last_map)
  have mem: "\<exists>n \<in> set ns. t_quantity t = exact n" if "t \<in> set (tiers res)" for t
    using that ns(1) by (metis (no_types, lifting) image_iff list.set_map)
  have "sorted_wrt (\<le>) (map t_quantity (tiers res))"
    unfolding ns(1) sorted_wrt_map using ns(2) by simp
  moreover have "\<forall>t \<in> set (tiers res). t_quantity t \<le> t_quantity (max_tier res)"
    using mem sorted_le_last [OF ns(2)] top by fastforce
  moreover have "\<forall>t \<in> set (tiers res). 1 \<le> t_quantity t"
    using mem sorted_hd_le [OF ns(2)] ns(4) unfolding exact_one by (metis exact_less(2) order_trans)
  ultimately show ?thesis using t by blast
qed

text \<open>
  C22. Scaling a card (the book budget's cut) keeps it well formed and never enlarges it: the card is dropped exactly when
  its default tier no longer reaches the minimum; otherwise the headline is the scaled default tier, which
  survives a collision with another tier, the tiers are whole units in strictly growing order with exactly that
  default, and each is the scaled copy of an old tier, no larger than it and at least the minimum.
\<close>

theorem scaling_keeps_the_card:
  assumes "scale_sizing ev factor least portfolio_cash = Ok out" "\<not> feq factor 1"
    and "ev_tiers ev = Some ts" "filter is_default ts = [d]" "\<forall>t \<in> set ts. representable (t_quantity t)"
  shows "(out = None \<longleftrightarrow> scaled_tier factor least portfolio_cash d = Ok None)
    \<and> (case out of None \<Rightarrow> True | Some ev' \<Rightarrow> \<exists>us d'. ev_tiers ev' = Some us
        \<and> scaled_tier factor least portfolio_cash d = Ok (Some d') \<and> ev_quantity ev' = t_quantity d'
        \<and> filter is_default us = [d'] \<and> sorted_wrt (<) (map t_quantity us)
        \<and> (\<forall>u \<in> set us. \<exists>t \<in> set ts. scaled_tier factor least portfolio_cash t = Ok (Some u)
             \<and> t_quantity u \<le> t_quantity t \<and> \<not> t_quantity u < least \<and> (\<exists>n. t_quantity u = exact n)))"
proof -
  let ?scale = "scaled_tier factor least portfolio_cash"
  have f: "0 \<le> factor" "factor \<le> 1" using assms(1) by (auto simp: scale_sizing_def)
  have ts: "ts \<noteq> []" "d \<in> set ts" using assms(4) by (auto dest: filter_eq_ConsD)
  obtain es where es: "scale_tiers ?scale ts [] = Ok es"
    and out: "(case find is_default (sort_tiers es) of
          Some d \<Rightarrow> bindr (resized ev (t_quantity d) (t_risk_dollars d) (t_reward_dollars d)
                       (t_notional_dollars d) portfolio_cash (sort_tiers es)) (\<lambda>e. Ok (Some e))
        | None \<Rightarrow> Ok None) = Ok out"
    using assms(1-3) ts(1) by (auto simp: scale_sizing_def Let_def bindr_Inr_iff cong: option.case_cong)
  obtain x where x: "?scale d = Ok x" using scale_tiers_runs [OF es ts(2)] by blast
  have def: "filter is_default es = (case x of None \<Rightarrow> [] | Some d' \<Rightarrow> [d'])"
    using scale_tiers_default [OF es scaled_tierD(4) assms(4) _ x] by simp
  have us: "set (sort_tiers es) = set es" using mset_sort_tiers [of es] by (metis set_mset_mset)
  have member: "\<exists>t \<in> set ts. ?scale t = Ok (Some u) \<and> t_quantity u \<le> t_quantity t
      \<and> \<not> t_quantity u < least \<and> (\<exists>n. t_quantity u = exact n)" if u: "u \<in> set es" for u
  proof -
    obtain t where t: "t \<in> set ts" "?scale t = Ok (Some u)" using scale_tiers_members [OF es u] by auto
    note s = scaled_tierD [OF t(2)]
    have "0 \<le> t_quantity t" using s(1,3) scaled_units_Num [OF s(1)]
      by (cases "t_quantity t"; cases factor) (auto simp: zero_pyfloat_def)
    then have "t_quantity u \<le> t_quantity t" using scaled_units_le [OF s(1) f] assms(5) t(1) by blast
    with t s(2) scaled_units_Num [OF s(1)] show ?thesis by blast
  qed
  have fin: "isfinite (t_quantity u)" if "u \<in> set es" for u using member [OF that] by auto
  have sorted: "sorted_wrt (<) (map t_quantity (sort_tiers es))"
    using scale_tiers_distinct [OF es] fin by (intro sort_tiers_sorted) auto
  show ?thesis
  proof (cases x)
    case None
    then have "find is_default (sort_tiers es) = None" using def filter_sort_tiers(1) by (simp add: find_filter)
    with out x None show ?thesis by simp
  next
    case (Some d')
    then have d': "filter is_default (sort_tiers es) = [d']" using def filter_sort_tiers(2) by simp
    then have "find is_default (sort_tiers es) = Some d'" by (simp add: find_filter)
    with out obtain ev' where ev': "out = Some ev'" "ev_quantity ev' = t_quantity d'"
      "ev_tiers ev' = (if sort_tiers es = [] then None else Some (sort_tiers es))"
      by (auto simp: resized_def bindr_Inr_iff)
    moreover have "sort_tiers es \<noteq> []" using d' by auto
    ultimately show ?thesis using x Some d' sorted member us by auto
  qed
qed

subsection \<open>Witnesses\<close>

definition demo_knobs :: sizing_knobs where
  "demo_knobs = \<lparr>k_mode = STATIC, k_target_risk_pct = Num (1/128), k_target_futures_risk_dollars = Num 300,
     k_default_equity_risk_dollars = Num 250, k_min_contracts = 1, k_min_shares = 1, k_contract_targets = []\<rparr>"

definition demo_sizing_request :: sizing_request where
  "demo_sizing_request = \<lparr>z_entry = Num 400, z_stop_distance = Num 8, z_target_distance = Num 16, z_multiplier = 1,
     z_asset_class = EQUITY, z_candidate = None, z_open_notional = 0, z_drawdown_pct = Num 0,
     z_macro_multiplier = 1, z_equity = Some (Num 65536), z_risk_cap = None\<rparr>"

lemma CENT_small: "1 \<le> r \<Longrightarrow> py_max (Num r) CENT = Num r"
proof -
  have "b64 (1/100) \<le> b64 1" by (rule b64_mono) simp
  then show "1 \<le> r \<Longrightarrow> py_max (Num r) CENT = Num r"
    by (cases "b64 (1/100)") (auto simp: CENT_def py_max_def)
qed

lemma demo_units: "per_unit_risk demo_sizing_request = Num 8" "unit_notional demo_sizing_request = Num 400"
  by (simp_all add: per_unit_risk_def unit_notional_def demo_sizing_request_def one_pyfloat_def CENT_small)

lemma demo_gates:
  "max_risk_dollars demo_sizing_request demo_budget = Num 1024"
  "trade_notional_ceiling demo_config demo_sizing_request = Num 30000"
  "count_cap demo_config demo_sizing_request = 500" "min_units demo_knobs demo_sizing_request = exact 1"
  by (simp_all add: max_risk_dollars_def cap_applies_def trade_notional_ceiling_def remaining_notional_def
      count_cap_def min_units_def demo_sizing_request_def demo_budget_def demo_config_def demo_knobs_def
      zero_pyfloat_def one_pyfloat_def minus_pyfloat_def py_max_def py_min_def)

lemma whole_units_eval:
  "0 \<le> r \<Longrightarrow> r < 2 ^ 52 \<Longrightarrow> whole_units (Num r) = Ok (exact \<lfloor>r\<rfloor>)"
proof -
  assume r: "0 \<le> r" "r < 2 ^ 52"
  then have "\<lfloor>r\<rfloor> \<le> \<lfloor>2 ^ 52 :: rat\<rfloor>" by (intro floor_mono) simp
  then have "\<bar>\<lfloor>r\<rfloor>\<bar> < 2 ^ 53" using r by simp
  then show ?thesis
    using r by (simp add: whole_units_def int_of_float_def trunc_def float_of_small_int)
qed

lemma floor_rat_numerals: "\<lfloor>numeral a / numeral b :: rat\<rfloor> = numeral a div numeral b"
  using floor_divide_of_int_eq [of "numeral a" "numeral b", where 'a = rat] by simp

lemma demo_fields: "z_asset_class demo_sizing_request = EQUITY" "z_candidate demo_sizing_request = None"
    "z_equity demo_sizing_request = Some (Num 65536)" "z_drawdown_pct demo_sizing_request = Num 0"
    "z_macro_multiplier demo_sizing_request = 1" "z_risk_cap demo_sizing_request = None"
  by (simp_all add: demo_sizing_request_def)

lemma demo_reasons: "adjustment_reasons demo_config demo_sizing_request demo_budget = []"
  by (simp add: adjustment_reasons_def remaining_notional_def demo_config_def demo_sizing_request_def demo_budget_def
      feq_def one_pyfloat_def zero_pyfloat_def minus_pyfloat_def py_max_def)

lemma demo_running: "\<not> feq (drawdown_factor demo_budget) (Num 0)"
  by (simp add: feq_def demo_budget_def zero_pyfloat_def one_pyfloat_def)

lemma demo_base: "base_quantity demo_knobs demo_sizing_request demo_budget (exact 75) = Ok (exact 31)"
  by (simp add: base_quantity_def demo_units contract_target_def static_risk_budget_def truthy_float_def
      whole_shares_def demo_knobs_def demo_fields demo_budget_def one_pyfloat_def zero_pyfloat_def
      whole_units_eval floor_rat_numerals py_max_def py_min_def)

lemma demo_tiers:
  "tier_quantities demo_sizing_request (exact 31) (exact 75) = Ok
     [(''half'', msg ''Conservative (0.5x)'', exact 15, False),
      (''base'', msg ''Standard (1.0x)'', exact 31, True),
      (''max'', msg ''Max Permissible'', exact 75, False)]"
  by (simp add: tier_quantities_def demo_fields equity_tiers_def whole_units_eval floor_rat_numerals Let_def
      py_max_def one_pyfloat_def)

lemma demo_sizing:
  obtains res where "calculate_dynamic_sizing demo_config demo_knobs demo_sizing_request = Ok res"
    "map t_quantity (tiers res) = [Num 15, Num 31, Num 75]"
proof -
  obtain res where o: "offer_tiers demo_knobs demo_sizing_request demo_budget (exact 75)
      [[Lit ''Max size capped by remaining $'', FFloat '',.0f'' (Num 30000), Lit '' notional limit'']] = Ok res"
    "map t_quantity (tiers res) = [Num 15, Num 31, Num 75]"
    using demo_base demo_tiers
    by (simp add: offer_tiers_def build_tier_def demo_units demo_budget_def Let_def keep_default_def keep_max_def)
  have "calculate_dynamic_sizing demo_config demo_knobs demo_sizing_request = Ok res"
    using o(1)
    by (simp add: calculate_dynamic_sizing_def demo_fields demo_gates demo_units demo_limits_eq demo_budget_eq
        demo_reasons float_of_int_def py_min_def py_max_def whole_units_eval Let_def exact_zero demo_running)
  from this o(2) show thesis by (rule that)
qed

lemma demo_sizing_ok: "knobs_ok demo_knobs" "request_ok demo_sizing_request" "sizing_policy_ok demo_config demo_sizing_request"
proof -
  show "knobs_ok demo_knobs" "request_ok demo_sizing_request"
    by (simp_all add: knobs_ok_def demo_knobs_def request_ok_def demo_sizing_request_def one_pyfloat_def zero_pyfloat_def)
  show "sizing_policy_ok demo_config demo_sizing_request"
    using demo_policy_ok demo_gates(3) demo_fields(3)
    by (simp add: sizing_policy_ok_def demo_config_def representable_def one_pyfloat_def)
qed

theorem tiers_within_budget_witness:
  "\<exists>res t limits budget. calculate_dynamic_sizing demo_config demo_knobs demo_sizing_request = Ok res
     \<and> t \<in> set (tiers res) \<and> t_quantity t = exact 75 \<and> limits_from_config demo_config = Ok limits
     \<and> per_trade_risk_budget limits (Some (Num 65536)) (Num 0) 1 = Ok budget
     \<and> affordable demo_config demo_sizing_request budget 75"
proof -
  obtain res where res: "calculate_dynamic_sizing demo_config demo_knobs demo_sizing_request = Ok res"
    "map t_quantity (tiers res) = [Num 15, Num 31, Num 75]" by (rule demo_sizing)
  then obtain a b t where "tiers res = [a, b, t]" "t_quantity t = exact 75" by auto
  then have t: "t \<in> set (tiers res)" "t_quantity t = exact 75" by simp_all
  then have "t \<noteq> BLOCKED_TIER" by (auto simp: BLOCKED_TIER_def zero_pyfloat_def)
  with tiers_within_budget [OF res(1) demo_sizing_ok t(1)]
  obtain limits budget n where n: "limits_from_config demo_config = Ok limits"
    "per_trade_risk_budget limits (Some (Num 65536)) (Num 0) 1 = Ok budget"
    "t_quantity t = exact n" "affordable demo_config demo_sizing_request budget n"
    unfolding demo_fields by blast
  have "n = 75" using t(2) n(3) by simp
  with n res(1) t show ?thesis by blast
qed

theorem sizing_well_formed_witness:
  "\<exists>res. calculate_dynamic_sizing demo_config demo_knobs demo_sizing_request = Ok res
     \<and> filter is_default (tiers res) = [default_tier res] \<and> t_quantity (max_tier res) = Num 75
     \<and> list_all (\<lambda>t. 1 \<le> t_quantity t) (tiers res)"
proof -
  obtain res where res: "calculate_dynamic_sizing demo_config demo_knobs demo_sizing_request = Ok res"
    "map t_quantity (tiers res) = [Num 15, Num 31, Num 75]" by (rule demo_sizing)
  then obtain a b t where ts: "tiers res = [a, b, t]" "t_quantity t = Num 75" by auto
  note w = sizing_well_formed [OF res(1) demo_sizing_ok]
  have "list_all (\<lambda>t. 1 \<le> t_quantity t) (tiers res)"
    using w ts unfolding list_all_iff by (metis list.distinct(1) list.inject)
  moreover have "t_quantity (max_tier res) = Num 75" using w ts by simp
  ultimately show ?thesis using w res(1) by blast
qed

subsection \<open>The budget holds only up to the rounding\<close>

text \<open>
  The unit risk \<open>(2^54 - 1) / 3 / 2^44\<close> goes three times into the budget \<open>(2^53 - 1) / 2^43\<close> by float
  division, but three units cost \<open>1024\<close> by float multiplication, more than the budget.
\<close>

definition edge_unit :: rat where "edge_unit = 6004799503160661 / 2 ^ 44"

definition edge_equity :: rat where "edge_equity = 9007199254740991 / 2 ^ 37"

definition edge_request :: sizing_request where
  "edge_request = demo_sizing_request\<lparr>z_entry := Num (2 * edge_unit), z_stop_distance := Num edge_unit,
     z_equity := Some (Num edge_equity)\<rparr>"

definition edge_budget :: risk_budget where
  "edge_budget = demo_budget\<lparr>capital := Num edge_equity, dollars := Num (9007199254740991 / 2 ^ 43)\<rparr>"

definition edge_intent :: entry_intent where
  "edge_intent = \<lparr>i_symbol = ''SPY'', i_direction = LONG, i_asset_class = EQUITY, i_quantity = Num 3,
     i_entry = Num (2 * edge_unit), i_stop = Num edge_unit, i_target = Num (4 * edge_unit), i_multiplier = Num 1,
     i_current_price = None\<rparr>"

lemma b64_normal:
  assumes "2 powi e \<le> x" "x < 2 powi (e + 1)" "-1022 \<le> e" "rhe (x / 2 powi (e - 52)) = m"
    "of_int m * 2 powi (e - 52) < max_exp"
  shows "b64 x = Num (of_int m * 2 powi (e - 52))"
proof -
  have "0 < (2 :: rat) powi e" by simp
  then have pos: "0 < x" using assms(1) by (rule less_le_trans)
  have "ilog 2 x = e" using assms(1,2) by (intro ilog_unique) simp_all
  then have q: "qexp 2 53 (-1074) x = e - 52" using pos assms(3) by (simp add: qexp_def)
  have "rd64 x = of_int m * 2 powi (e - 52)"
    using pos assms(4) unfolding rd64_def rsig_def q by (simp add: Let_def)
  moreover have "0 \<le> rd64 x" using pos by (intro bin64.rd_nonneg) simp
  ultimately show ?thesis using assms(5) by (simp add: b64_def Let_def max_exp_def)
qed

lemma powi_minus: "(2 :: rat) powi (- int n) = 1 / 2 ^ n"
  by (simp add: power_int_minus divide_inverse power_int_of_nat)

lemma edge_quotient: "b64 (9007199254740991 / 2 ^ 43 / edge_unit) = Num 3"
proof -
  have p: "(2 :: rat) powi (1 - 52) = 1 / 2 ^ 51" using powi_minus [of 51] by simp
  have "b64 (9007199254740991 / 2 ^ 43 / edge_unit) = Num (of_int (3 * 2 ^ 51) * 2 powi (1 - 52))"
  proof (rule b64_normal)
    show "rhe (9007199254740991 / 2 ^ 43 / edge_unit / 2 powi (1 - 52)) = 3 * 2 ^ 51"
      unfolding p edge_unit_def rhe_def Let_def by (simp add: floor_rat_numerals)
    show "of_int (3 * 2 ^ 51) * 2 powi (1 - 52) < max_exp" unfolding p max_exp_def by simp
  qed (simp_all add: edge_unit_def)
  then show ?thesis unfolding p by simp
qed

lemma edge_product: "b64 (edge_unit * 3) = Num 1024"
proof -
  have p: "(2 :: rat) powi (9 - 52) = 1 / 2 ^ 43" using powi_minus [of 43] by simp
  have "b64 (edge_unit * 3) = Num (of_int (2 ^ 53) * 2 powi (9 - 52))"
  proof (rule b64_normal)
    show "rhe (edge_unit * 3 / 2 powi (9 - 52)) = 2 ^ 53"
      unfolding p edge_unit_def rhe_def Let_def by (simp add: floor_rat_numerals)
    show "of_int (2 ^ 53) * 2 powi (9 - 52) < max_exp" unfolding p max_exp_def by simp
  qed (simp_all add: edge_unit_def)
  then show ?thesis unfolding p by simp
qed

lemma edge_floats:
  "b64 edge_unit = Num edge_unit" "b64 (2 * edge_unit) = Num (2 * edge_unit)"
  "b64 edge_equity = Num edge_equity" "b64 (edge_equity / 64) = Num (9007199254740991 / 2 ^ 43)"
  "b64 (9007199254740991 / 2 ^ 43) = Num (9007199254740991 / 2 ^ 43)"
  using b64_dyadic [of 6004799503160661 44] b64_dyadic [of 6004799503160661 43]
    b64_dyadic [of 9007199254740991 37] b64_dyadic [of 9007199254740991 43]
  by (simp_all add: edge_unit_def edge_equity_def)

lemma edge_quotients:
  obtains q n where "b64 (250 / edge_unit) = Num q" "0 \<le> q" "q < 1" "b64 (30000 / (2 * edge_unit)) = Num n" "3 < n"
proof -
  have "b64 0 \<le> b64 (250 / edge_unit)" "b64 (250 / edge_unit) \<le> b64 (7 / 8)"
    "b64 (30000 / (2 * edge_unit)) \<le> b64 64" "b64 4 \<le> b64 (30000 / (2 * edge_unit))"
    by (rule b64_mono, simp add: edge_unit_def)+
  then show thesis
    using that by (cases "b64 (250 / edge_unit)"; cases "b64 (30000 / (2 * edge_unit))") (auto simp: zero_pyfloat_def)
qed

lemma edge_fields:
  "z_asset_class edge_request = EQUITY" "z_candidate edge_request = None" "z_drawdown_pct edge_request = Num 0"
  "z_equity edge_request = Some (Num edge_equity)" "z_macro_multiplier edge_request = 1" "z_risk_cap edge_request = None"
  "z_multiplier edge_request = 1" "z_open_notional edge_request = 0"
  by (simp_all add: edge_request_def demo_sizing_request_def)

lemma edge_units: "per_unit_risk edge_request = Num edge_unit" "unit_notional edge_request = Num (2 * edge_unit)"
proof -
  have "1 \<le> edge_unit" by (simp add: edge_unit_def)
  then show "per_unit_risk edge_request = Num edge_unit" "unit_notional edge_request = Num (2 * edge_unit)"
    using edge_floats(1,2)
    by (simp_all add: per_unit_risk_def unit_notional_def edge_request_def demo_sizing_request_def one_pyfloat_def CENT_small)
qed

lemma edge_gates:
  "max_risk_dollars edge_request edge_budget = Num (9007199254740991 / 2 ^ 43)"
  "trade_notional_ceiling demo_config edge_request = Num 30000"
  "count_cap demo_config edge_request = 500" "min_units demo_knobs edge_request = exact 1"
  by (simp_all add: max_risk_dollars_def cap_applies_def trade_notional_ceiling_def remaining_notional_def
      count_cap_def min_units_def edge_fields edge_budget_def demo_config_def demo_knobs_def
      zero_pyfloat_def one_pyfloat_def minus_pyfloat_def py_max_def py_min_def)

lemma edge_budget_eq:
  "per_trade_risk_budget demo_limits (Some (Num edge_equity)) (Num 0) 1 = Ok edge_budget"
proof -
  have "0 < edge_equity" "edge_equity < 100000" by (simp_all add: edge_equity_def)
  then show ?thesis
    using edge_floats(4,5)
    by (simp add: per_trade_risk_budget_def macro_risk_factor_one [unfolded one_pyfloat_def]
      risk_capital_def demo_limits_def edge_budget_def demo_budget_def
      drawdown_risk_factor_def demo_policy_def py_min_def zero_pyfloat_def
      one_pyfloat_def)
qed

lemma edge_reasons: "adjustment_reasons demo_config edge_request edge_budget = []"
  by (simp add: adjustment_reasons_def remaining_notional_def demo_config_def edge_fields edge_budget_def
      demo_budget_def feq_def one_pyfloat_def zero_pyfloat_def minus_pyfloat_def py_max_def)

lemma edge_base: "base_quantity demo_knobs edge_request edge_budget (exact 3) = Ok (exact 1)"
proof -
  obtain q where q: "b64 (250 / edge_unit) = Num q" "0 \<le> q" "q < 1" by (rule edge_quotients)
  have "edge_unit \<noteq> 0" by (simp add: edge_unit_def)
  moreover have "\<lfloor>q\<rfloor> = 0" using q by (simp add: floor_eq_iff)
  moreover have "q < 2 ^ 52" using q(3) by simp
  ultimately show ?thesis
    using q by (simp add: base_quantity_def edge_units contract_target_def static_risk_budget_def truthy_float_def
      whole_shares_def demo_knobs_def edge_fields edge_budget_def demo_budget_def one_pyfloat_def zero_pyfloat_def
      whole_units_eval py_max_def py_min_def)
qed

lemma edge_tiers:
  "tier_quantities edge_request (exact 1) (exact 3) = Ok
     [(''base'', msg ''Standard (1.0x)'', exact 1, True), (''max'', msg ''Max Permissible'', exact 3, False)]"
  by (simp add: tier_quantities_def edge_fields equity_tiers_def whole_units_eval floor_eq_iff Let_def
      py_max_def one_pyfloat_def)

lemma edge_sizing:
  obtains res where "calculate_dynamic_sizing demo_config demo_knobs edge_request = Ok res"
    "t_quantity (max_tier res) = Num 3"
proof -
  have nz: "edge_equity \<noteq> 0" "edge_unit \<noteq> 0" by (simp_all add: edge_equity_def edge_unit_def)
  obtain res where o: "offer_tiers demo_knobs edge_request edge_budget (Num 3)
      [[Lit ''Max size capped by '', FFloat ''.1%'' (s_max_risk_pct_cap (c_sizing demo_config)),
                  Lit '' risk ceiling'']] = Ok res"
    "t_quantity (max_tier res) = Num 3"
    using edge_base edge_tiers nz
    by (simp add: offer_tiers_def build_tier_def edge_units edge_budget_def Let_def keep_default_def keep_max_def)
  obtain n where n: "b64 (30000 / (2 * edge_unit)) = Num n" "3 < n" by (rule edge_quotients)
  have run: "\<not> feq (drawdown_factor edge_budget) (Num 0)"
    by (simp add: feq_def edge_budget_def demo_budget_def one_pyfloat_def)
  have "calculate_dynamic_sizing demo_config demo_knobs edge_request = Ok res"
    using o(1) n nz edge_quotient
    by (simp add: calculate_dynamic_sizing_def edge_fields edge_gates edge_units demo_limits_eq edge_budget_eq
        edge_reasons float_of_int_def py_min_def py_max_def whole_units_eval Let_def exact_zero run)
  from this o(2) show thesis by (rule that)
qed

text \<open>
  The promise that every offered tier fits the budget that admission checks again, with the same inputs,
  fails by one unit in the last place: admission refuses the largest tier of this card.
\<close>

theorem largest_tier_refused:
  "\<exists>res. calculate_dynamic_sizing demo_config demo_knobs edge_request = Ok res
     \<and> limits_from_config demo_config = Ok demo_limits
     \<and> per_trade_risk_budget demo_limits (z_equity edge_request) (z_drawdown_pct edge_request)
         (z_macro_multiplier edge_request) = Ok edge_budget
     \<and> i_quantity edge_intent = t_quantity (max_tier res) \<and> i_entry edge_intent = z_entry edge_request
     \<and> risk_distance edge_intent = z_stop_distance edge_request
     \<and> per_trade_risk edge_intent edge_budget \<noteq> None"
proof -
  obtain res where res: "calculate_dynamic_sizing demo_config demo_knobs edge_request = Ok res"
    "t_quantity (max_tier res) = Num 3" by (rule edge_sizing)
  have d: "risk_distance edge_intent = Num edge_unit"
    using edge_floats(1) by (simp add: risk_distance_def edge_intent_def sign_def minus_pyfloat_def)
  have "0 < edge_unit" by (simp add: edge_unit_def)
  then have "risk_dollars edge_intent = Num 1024"
    using edge_product d by (simp add: risk_dollars_def edge_intent_def py_max_def zero_pyfloat_def)
  then have "per_trade_risk edge_intent edge_budget \<noteq> None"
    by (simp add: per_trade_risk_def edge_budget_def)
  with res d show ?thesis
    by (simp add: demo_limits_eq edge_fields edge_budget_eq) (simp add: edge_intent_def edge_request_def)
qed

text \<open>Two tiers that collide when halved: the default one survives.\<close>

definition tier_of :: "pyfloat \<Rightarrow> bool \<Rightarrow> sizing_tier" where
  "tier_of q d = BLOCKED_TIER\<lparr>t_quantity := q, is_default := d\<rparr>"

definition colliding_card :: sized_evaluation where
  "colliding_card = \<lparr>ev_asset_class = EQUITY, ev_quantity = Num 3, ev_risk_dollars = 0, ev_reward_dollars = 0,
     ev_notional_value = 0, ev_leverage = 0, ev_tiers = Some [tier_of (Num 2) False, tier_of (Num 3) True]\<rparr>"

lemma colliding_scaled:
  "\<exists>t. scaled_tier (Num (1/2)) 1 (Num 65536) (tier_of (Num 2) False) = Ok (Some t) \<and> t_quantity t = Num 1 \<and> \<not> is_default t"
  "\<exists>t. scaled_tier (Num (1/2)) 1 (Num 65536) (tier_of (Num 3) True) = Ok (Some t) \<and> t_quantity t = Num 1 \<and> is_default t"
  by (simp_all add: scaled_tier_def tier_of_def scaled_units_def math_floor_def float_of_int_def
      floor_rat_numerals Let_def one_pyfloat_def zero_pyfloat_def)

theorem scaling_keeps_the_card_witness:
  "\<exists>ev' us d'. scale_sizing colliding_card (Num (1/2)) 1 (Num 65536) = Ok (Some ev') \<and> ev_tiers ev' = Some us
     \<and> scaled_tier (Num (1/2)) 1 (Num 65536) (tier_of (Num 3) True) = Ok (Some d')
     \<and> filter is_default us = [d'] \<and> ev_quantity ev' = Num 1"
proof -
  obtain a d' where s: "scaled_tier (Num (1/2)) 1 (Num 65536) (tier_of (Num 2) False) = Ok (Some a)"
    "t_quantity a = Num 1" "\<not> is_default a"
    "scaled_tier (Num (1/2)) 1 (Num 65536) (tier_of (Num 3) True) = Ok (Some d')" "t_quantity d' = Num 1" "is_default d'"
    using colliding_scaled by blast
  obtain ev' where run: "scale_sizing colliding_card (Num (1/2)) 1 (Num 65536) = Ok (Some ev')"
    using s by (simp add: scale_sizing_def colliding_card_def feq_def one_pyfloat_def sort_tiers_def resized_def)
  have "filter is_default [tier_of (Num 2) False, tier_of (Num 3) True] = [tier_of (Num 3) True]"
    "\<forall>t \<in> set [tier_of (Num 2) False, tier_of (Num 3) True]. representable (t_quantity t)"
    by (simp_all add: tier_of_def representable_def)
  from scaling_keeps_the_card [OF run _ _ this] s(4,5) run show ?thesis
    by (auto simp: colliding_card_def feq_def one_pyfloat_def)
qed

end
