(* ===== verification/Spec2Isabelle.thy ===== *)
theory Spec2Isabelle
  imports Lifetime_Service Release_Exit Market_Calendar Outbox Slicer Position_Sizing "HOL-Library.Sublist"
begin

text \<open>
  A verification library of the trading desk of agentic-trader: everything between an analysed trade
  card and the broker that decides whether, when and how often real orders are sent, and the durable
  records those decisions rest on.

  \<^bold>\<open>The program.\<close> A scan produces cards (signals) with their offered sizes. A tap or the paper auto-entry sweep asks for an entry;
  the risk policy and the broker's evidence admit or refuse it; the durable entry queue reserves it,
  claims it, grants submission authority once and records the outcome; the execution engine hands it to
  the broker. Broker observations are journaled and projected into order views; deadlines cancel resting
  entries and close positions; closes go through exclusive claims; every effect on the operator is a
  notification of the same transaction, delivered by an outbox. An account ledger, imported from the
  broker under a fence, supplies the risk evidence admission needs. All durable state changes are
  transactions of one store under one lock per scope.

  \<^bold>\<open>Foundations.\<close> \<open>Prelude\<close>: results (errors as values of a sum), the pieces of formatted texts, strings
  and lists. \<open>Py_Number\<close>: Python floats as binary64 rationals with infinities and NaN, rounding, \<open>sum\<close>
  with its compensation, decimals of 28 digits, and their laws.

  \<^bold>\<open>Risk.\<close> \<open>Risk_Limits\<close> (\<open>risk/limits.py\<close>, \<open>risk/capital.py\<close>, the sizing fields of \<open>config.py\<close>): the
  validated limits, drawdown and macro factors and the per-trade budget. \<open>Risk_Book\<close> (\<open>risk/book.py\<close>).
  \<open>Risk_Rules\<close> (\<open>risk/rules.py\<close>): every rule as a function to an optional rejection and the two
  composites \<open>book_gates\<close> and \<open>admission_gates\<close>; admission is shown equivalent to a positive specification
  of what an admitted entry satisfies, and to keep the book within its limits. \<open>Position_Sizing\<close>
  (\<open>agent/position_sizing.py\<close>): the sizes a card offers and the scaling of an evaluated card; every offered
  size stays within the budgets admission checks, up to one rounding of a float quotient, and the card
  keeps exactly one default.

  \<^bold>\<open>Accounting.\<close> \<open>Ledger\<close> (\<open>accounting/ledger.py\<close>): reconciliation of broker activities. \<open>Account_Risk\<close>
  (\<open>accounting/risk.py\<close>): the drawdown series. \<open>Event_Log\<close>: a locale for stores whose projection is
  replayed from a journal, interpreted for the ledger. \<open>Ledger_Store\<close> (\<open>storage/ledger.py\<close>,
  \<open>accounting/service.py\<close>): the fenced store, its transitions, the importer; replay restores the
  projection, histories are kept, stale importers and failed refreshes cannot authorise.

  \<^bold>\<open>Admission.\<close> \<open>Admission\<close> and \<open>Capacity\<close> (\<open>execution/admission.py\<close>, \<open>execution/capacity.py\<close>, the evidence
  types of \<open>broker/base.py\<close>): the reservation verdict, bracket lineage, exposure from broker evidence and
  funding. \<open>Probe\<close> (\<open>research/alpha/probe.py\<close>, \<open>storage/probe_state.py\<close>): the paper probe and the alpha gate.

  \<^bold>\<open>The exchange calendar.\<close> \<open>Market_Calendar\<close> (the calendar half of \<open>market/session.py\<close>,
  \<open>resilience/fallback.py\<close>): the arithmetic of dates, Easter and the holidays of a year, the computed, Alpaca
  and Finnhub providers with their caches, and the composite that falls back from one to the next. The
  locale \<open>calendar_provider\<close> states what a provider promises and is interpreted for each of them. Easter is
  shown equal to the Gregorian rule, the computed days equal to the documented rules of the exchange (but for the Friday
  before a New Year's Day on a Saturday, which the code trades and the documentation closes), trading days
  at most four days apart, and the composite to answer whatever the services do.

  \<^bold>\<open>The durable store.\<close> \<open>Workflow_Store\<close> (\<open>storage/workflow.py\<close>, \<open>storage/models.py\<close>,
  \<open>execution/durable.py\<close>): the state of one scope as the record \<open>wf_state\<close>, the journal append and the
  outbox. \<open>Entry_Queue\<close>: reservation, claim, submission authority and resolution, with the invariant of
  the item table. \<open>Order_Views\<close>: observation, projection and rebuild of broker orders. \<open>Signal_Store\<close>
  (\<open>storage/db.py\<close>): the life cycle of signals and close requests. \<open>Lifetime_Policy\<close>, \<open>Lifetimes\<close>
  (\<open>execution/lifetime_policy.py\<close>, \<open>execution/lifetimes.py\<close>, \<open>storage/lifetimes.py\<close>): policies and their
  documents, deadlines, assessments and cancellations. \<open>Freshness\<close> (\<open>execution/freshness.py\<close>): the
  decision table of a tap and re-pricing.

  \<^bold>\<open>The desk.\<close> \<open>Desk\<close> puts every transaction but the compaction of health observations into one step
  relation \<open>desk_trans\<close>, in any order and by any process; the locale \<open>workflow_frame\<close> proves once what the operations outside the queue keep and is
  interpreted for the order views and for the item table. \<open>Entry_Safety\<close>, \<open>Desk_Safety\<close> and
  \<open>Lifetime_Safety\<close> hold the properties of every run: one submission per approval, one entry at a time,
  authority only under every condition, signals that only move forward, exclusive closes, views equal to
  the journal, cancellations claimed and settled by evidence only.

  \<^bold>\<open>The services.\<close> \<open>Entry_Service\<close> (\<open>execution/entries.py\<close>), \<open>Close_Service\<close> (\<open>execution/closing.py\<close>),
  \<open>Lifetime_Service\<close> (\<open>TradeLifetimeService\<close> of \<open>execution/lifetimes.py\<close>), \<open>Release_Exit\<close>
  (\<open>execution/release_exit.py\<close>), \<open>Outbox\<close> (\<open>notifier/outbox.py\<close>) and \<open>Slicer\<close> (\<open>execution/slicer.py\<close>,
  \<open>execution/engine.py\<close>): the processes that call the store. A service operation is a function of the state and of a turn, the record
  of what it reads from outside; between its transactions other processes act through an arbitrary run
  of the desk (\<open>turn_ok\<close>, \<open>close_turn_ok\<close>, \<open>lifetime_turn_ok\<close>, \<open>release_turn_ok\<close>). Every operation is shown to be a run of the desk, so the properties of runs
  hold of the services; over them, the executor and the broker are called at most once per approval,
  close request or cancellation, every answer is recorded for what it is, an operator's cancel comes to a
  decided answer, a resume needs settled evidence, a close before an earnings release goes back to the
  journaled pass of its day, and delivery ends. This theory composes the entry
  service with the engine.

  \<^bold>\<open>Parameters.\<close> Code outside the repository and code whose text is not modelled enters as arguments: the
  digests and fingerprints (SHA-256), the New York and UTC wall clocks, \<open>fromisoformat\<close>, random
  identifiers, clock readings, the broker, the macro check, the notifier. What is assumed of them is
  stated as a hypothesis of the property (identifiers are unused where they are drawn, other processes
  act through the store's transactions) and each such property has a witness.

  \<^bold>\<open>Loops and bounds.\<close> No definition needs fuel: loops recurse over their lists or a numeric bound, and the
  expansion of bracket lineage (\<open>group_loop\<close>) has a termination proof by the number of orders not yet
  found; the searches for a weekday (\<open>walk_forward\<close>, \<open>walk_back\<close>) end by the days left to it. The polling of
  a cancellation (\<open>poll_cancel\<close>) ends only because the monotonic clock passes its
  deadline: it is a partial function whose absent result means that it does not return, and it is shown
  to return whenever the clock advances over each sleep (\<open>clock_passes\<close>). A dispatch of the outbox is bounded by its batch; the delivery of all notifications ends within
  two steps per allowed attempt and two more per item.

  \<^bold>\<open>Not modelled.\<close> The agent and its model calls, scanning, screeners, research, backtests and data capture
  (numerical code on data frames and remote services); broker adapters and the Telegram connection
  (network input and output; their observations are arguments here); command line, presentation,
  diagnostics and telemetry (read-only); the classification of intraday sessions; the volatility-based
  scaling of a book and the send policy of cards (statistics on data frames); schema, migrations and registry administration; reporting reads
  of the store (digests, counts, statistics). Timestamps are integers of microseconds; one scope
  (environment and execution mode) of the store is modelled, as every query filters by it.
\<close>

section \<open>From approval to the broker\<close>

text \<open>
  The executor of the entry service is the execution engine. What the broker receives over a run of the
  service is what the engine sends for each call.
\<close>

definition broker_orders ::
  "slicing_config \<Rightarrow> (string \<Rightarrow> string) \<Rightarrow> bool \<Rightarrow> (nat \<Rightarrow> string + pyfloat option) \<Rightarrow> (order_request \<Rightarrow> string + order_result)
     \<Rightarrow> (string \<times> order_request) list \<Rightarrow> order_request list" where
  "broker_orders config fresh simulated quote submit calls =
     concat (map (\<lambda>c. fst (execute_order config (fresh (fst c)) simulated quote submit (snd c))) calls)"

lemma real_engine_calls: "fst (execute_order config f False quote submit r) \<in> {[], [r]}"
  using engine_sends_or_refuses [of config f quote submit r] by (cases "execute_order config f False quote submit r") auto

lemma subseq_keeps: "subseq sent calls \<Longrightarrow> set sent \<subseteq> set calls \<and> (distinct (map fst calls) \<longrightarrow> distinct (map fst sent))"
  by (induction rule: list_emb.induct) auto

lemma broker_orders_subseq: "\<exists>sent. subseq sent calls \<and> broker_orders config fresh False quote submit calls = map snd sent"
proof (induction calls)
  case (Cons c calls)
  then obtain sent where sent: "subseq sent calls" "broker_orders config fresh False quote submit calls = map snd sent" by blast
  have split: "broker_orders config fresh False quote submit (c # calls)
      = fst (execute_order config (fresh (fst c)) False quote submit (snd c)) @ broker_orders config fresh False quote submit calls"
    by (simp add: broker_orders_def)
  from real_engine_calls [of config "fresh (fst c)" quote submit "snd c"] show ?case
  proof (elim insertE emptyE)
    assume "fst (execute_order config (fresh (fst c)) False quote submit (snd c)) = []"
    then show ?thesis using sent split by (intro exI [of _ sent]) auto
  next
    assume "fst (execute_order config (fresh (fst c)) False quote submit (snd c)) = [snd c]"
    then show ?thesis using sent split by (intro exI [of _ "c # sent"]) auto
  qed
qed (simp add: broker_orders_def)

text \<open>
  C1. A real broker receives each approved entry at most once, and unchanged. Over any run of the entry
  service with the execution engine behind it, the orders that reach a broker with real orders are
  among the approved requests, one per entry item at most, each with its submission journaled; the
  engine never sends such a broker a part of one.
\<close>

theorem broker_receives_approvals_once:
  assumes "fresh_desk st0" and "service_run world st0 calls st"
  shows "\<exists>sent. broker_orders config fresh False quote submit calls = map snd sent \<and> subseq sent calls
    \<and> distinct (map fst sent) \<and> (\<forall>c \<in> set sent. call_recorded st c)"
proof -
  have once: "distinct (map fst calls)" "\<forall>c \<in> set calls. call_recorded st c"
    using service_run_inv [OF assms(2) fresh_inv [OF assms(1)]] by auto
  obtain sent where sent: "subseq sent calls" "broker_orders config fresh False quote submit calls = map snd sent"
    using broker_orders_subseq by blast
  moreover have "distinct (map fst sent)" "set sent \<subseteq> set calls" using subseq_keeps [OF sent(1)] once(1) by auto
  ultimately show ?thesis using once(2) by blast
qed

theorem broker_receives_approvals_once_witness:
  "\<exists>(st :: wf_state) sent. broker_orders demo_slicing (\<lambda>_. ''p'') False (\<lambda>_. Inr None) (\<lambda>_. Inr demo_answer)
       [(command_id ''a1'', demo_approved)] = map snd sent
     \<and> subseq sent [(command_id ''a1'', demo_approved)] \<and> list_all (call_recorded st) sent"
proof -
  obtain st where run: "service_run demo_world demo_desk [(command_id ''a1'', demo_approved)] st" using demo_service_run by blast
  show ?thesis
    using broker_receives_approvals_once [OF demo_fresh run, of demo_slicing "\<lambda>_. ''p''" "\<lambda>_. Inr None" "\<lambda>_. Inr demo_answer"]
    by (metis list_all_iff)
qed

end
